(* ===== verification/Prelude.thy ===== *)
theory Prelude
  imports Main "HOL-Library.Word"
begin

unbundle bit_operations_syntax

text \<open>
  Shared vocabulary of the development.

  \<^item> Python exceptions: \<open>exn_class\<close> lists the exception classes the modelled sources raise,
    \<open>exn\<close> pairs a class with the fixed part of its message, and \<open>'a result\<close> is the sum of the two
    outcomes of a call. \<open>handled_by\<close> is the subclass test of an \<^verbatim>\<open>except\<close> clause.
  \<^item> The result monad: \<open>rbind\<close> sequences two calls, \<open>checks\<close> is a run of
    \<^verbatim>\<open>_require(condition, message)\<close> statements, \<open>rmapM\<close> is a loop that collects results.
  \<^item> Byte strings: \<open>from_le\<close>/\<open>to_le\<close> are \<^verbatim>\<open>int.from_bytes(.., "little")\<close> and
    \<^verbatim>\<open>int.to_bytes(n, "little")\<close>; \<open>pack_fields\<close>/\<open>unpack_fields\<close> are a little-endian unsigned
    \<^verbatim>\<open>struct.Struct\<close> given by its field widths.
  \<^item> Interfaces several components share: \<open>codec\<close> (an encoder and a strict decoder),
    \<open>step_invariant\<close> (a state machine with a preserved invariant), \<open>simulation\<close> (a machine that answers like its
    specification), \<open>saturating_counter\<close> and \<open>serial_decoder\<close>.
\<close>

section \<open>Exceptions and the result monad\<close>

named_theorems result_simps \<open>elimination of the result monad in equations and inequations\<close>
named_theorems byte_simps \<open>lengths and round trips of byte strings\<close>

datatype exn_class =
    AssertionError | AttributeError | BlockingIOError | CaptureError | CommandClientError | CsvArtifactError | DashboardConfigError | GeneratorError
  | IndexError | KeyError | MemhError | OSError | OverflowError | PacketParserError
  | RuntimeError | SocketTimeout | StructError | SystemExit | TypeError | ValueError | ZeroDivisionError

text \<open>The project's own exception classes all derive from \<^verbatim>\<open>ValueError\<close>.\<close>

definition handled_by :: "exn_class \<Rightarrow> exn_class \<Rightarrow> bool" where
  "handled_by c handler \<longleftrightarrow>
     c = handler \<or>
     (handler = ValueError \<and>
       c \<in> {CaptureError, CommandClientError, CsvArtifactError, DashboardConfigError, GeneratorError, MemhError, PacketParserError}) \<or>
     (handler = OSError \<and> c \<in> {BlockingIOError, SocketTimeout})"

datatype exn = Exn (exn_class: exn_class) (exn_msg: string)

type_synonym 'a result = "exn + 'a"

fun rbind :: "'a result \<Rightarrow> ('a \<Rightarrow> 'b result) \<Rightarrow> 'b result" where
  "rbind (Inl e) f = Inl e"
| "rbind (Inr x) f = f x"

text \<open>Congruence: the continuation matters only at the value the first call returned.\<close>

lemma rbind_cong [fundef_cong]:
  "m = m' \<Longrightarrow> (\<And>x. m' = Inr x \<Longrightarrow> f x = g x) \<Longrightarrow> rbind m f = rbind m' g"
  by (cases m') auto

lemma rbind_Inr_iff [result_simps]:
  "rbind m f = Inr y \<longleftrightarrow> (\<exists>x. m = Inr x \<and> f x = Inr y)"
  by (cases m) auto

lemma rbind_Inl_iff [result_simps]:
  "rbind m f = Inl e \<longleftrightarrow> m = Inl e \<or> (\<exists>x. m = Inr x \<and> f x = Inl e)"
  by (cases m) auto

lemma rbind_assoc: "rbind (rbind m f) g = rbind m (\<lambda>x. rbind (f x) g)"
  by (cases m) auto

fun checks :: "(bool \<times> exn) list \<Rightarrow> unit result" where
  "checks [] = Inr ()"
| "checks ((c, e) # cs) = (if c then checks cs else Inl e)"

lemma checks_Inr_iff [result_simps]: "checks cs = Inr u \<longleftrightarrow> list_all fst cs"
  by (induction cs rule: checks.induct) auto

lemma checks_Inl_mem: "checks cs = Inl e \<Longrightarrow> e \<in> snd ` set cs"
  by (induction cs rule: checks.induct) (auto split: if_splits)

lemma checks_append: "checks (cs @ ds) = rbind (checks cs) (\<lambda>_. checks ds)"
  by (induction cs rule: checks.induct) auto

declare checks.simps [simp del]

fun rmapM :: "('a \<Rightarrow> 'b result) \<Rightarrow> 'a list \<Rightarrow> 'b list result" where
  "rmapM f [] = Inr []"
| "rmapM f (x # xs) = rbind (f x) (\<lambda>y. rbind (rmapM f xs) (\<lambda>ys. Inr (y # ys)))"

lemma rmapM_cong [fundef_cong]:
  "xs = ys \<Longrightarrow> (\<And>x. x \<in> set ys \<Longrightarrow> f x = g x) \<Longrightarrow> rmapM f xs = rmapM g ys"
proof (induction ys arbitrary: xs)
  case (Cons y ys)
  then have "rmapM f ys = rmapM g ys" by simp
  with Cons.prems show ?case by simp
qed simp

lemma rmapM_Inr_iff [result_simps]:
  "rmapM f xs = Inr ys \<longleftrightarrow> list_all2 (\<lambda>x y. f x = Inr y) xs ys"
proof (induction xs arbitrary: ys)
  case (Cons x xs)
  then show ?case by (cases ys) (auto simp: result_simps)
qed auto

lemma rmapM_length: "rmapM f xs = Inr ys \<Longrightarrow> length ys = length xs"
  by (auto simp: result_simps dest: list_all2_lengthD)

lemma rmapM_Inr_map: "(\<And>x. x \<in> set xs \<Longrightarrow> f x = Inr (g x)) \<Longrightarrow> rmapM f xs = Inr (map g xs)"
  by (induction xs) auto

lemma rmapM_Inl: "rmapM f xs = Inl e \<Longrightarrow> \<exists>x\<in>set xs. f x = Inl e"
  by (induction xs) (auto simp: result_simps)

section \<open>Byte strings\<close>

type_synonym byte = "8 word"
type_synonym bytes = "byte list"

fun from_le :: "bytes \<Rightarrow> int" where
  "from_le [] = 0"
| "from_le (b # bs) = uint b + 256 * from_le bs"

fun to_le :: "nat \<Rightarrow> int \<Rightarrow> bytes" where
  "to_le 0 v = []"
| "to_le (Suc n) v = word_of_int v # to_le n (v div 256)"

lemma length_to_le [simp, byte_simps]: "length (to_le n v) = n"
  by (induction n arbitrary: v) auto

lemma from_le_nonneg [simp]: "0 \<le> from_le bs"
  by (induction bs) auto

lemma byte_bound: "uint (b :: byte) < 256"
  using uint_lt2p [of b] by simp

lemma from_le_bound: "from_le bs < 256 ^ length bs"
proof (induction bs)
  case (Cons b bs)
  have "uint b + 256 * from_le bs < 256 + 256 * from_le bs"
    using byte_bound [of b] by simp
  also have "\<dots> \<le> 256 * 256 ^ length bs"
    using Cons.IH by linarith
  finally show ?case by simp
qed simp

lemma from_le_to_le_mod: "from_le (to_le n v) = v mod 256 ^ n"
proof (induction n arbitrary: v)
  case (Suc n)
  have "uint (word_of_int v :: byte) = v mod 256"
    by (simp add: uint_word_of_int)
  then show ?case
    using Suc by (simp add: zmod_zmult2_eq)
qed simp

lemma from_le_to_le [byte_simps]: "0 \<le> v \<Longrightarrow> v < 256 ^ n \<Longrightarrow> from_le (to_le n v) = v"
  by (simp add: from_le_to_le_mod)

lemma to_le_from_le [byte_simps]: "length bs = n \<Longrightarrow> to_le n (from_le bs) = bs"
proof (induction bs arbitrary: n)
  case (Cons b bs)
  have div: "(uint b + 256 * from_le bs) div 256 = from_le bs"
    using byte_bound [of b] by simp
  have hd: "(word_of_int (uint b + 256 * from_le bs) :: byte) = b"
  proof -
    have "(256 :: byte) = 0" by simp
    then have "(256 :: byte) * word_of_int (from_le bs) = 0" by (simp only: mult_zero_left)
    then show ?thesis by simp
  qed
  from Cons div hd show ?case by auto
qed simp

lemma from_le_append: "from_le (xs @ ys) = from_le xs + 256 ^ length xs * from_le ys"
  by (induction xs) (auto simp: algebra_simps)

lemma from_le_inj: "length xs = length ys \<Longrightarrow> from_le xs = from_le ys \<Longrightarrow> xs = ys"
  by (metis to_le_from_le)

lemma from_le_replicate_0 [simp]: "from_le (replicate n 0) = 0"
  by (induction n) auto

lemma to_le_0 [simp]: "to_le n 0 = replicate n 0"
  by (induction n) auto

text \<open>A Python slice \<^verbatim>\<open>data[off:off+n]\<close> and the field it holds.\<close>

definition pyslice :: "nat \<Rightarrow> nat \<Rightarrow> 'a list \<Rightarrow> 'a list" where
  "pyslice off n xs = take n (drop off xs)"

lemma length_pyslice [byte_simps]: "off + n \<le> length xs \<Longrightarrow> length (pyslice off n xs) = n"
  by (simp add: pyslice_def)

lemma pyslice_append_skip [byte_simps]:
  "length xs \<le> off \<Longrightarrow> pyslice off n (xs @ ys) = pyslice (off - length xs) n ys"
  by (simp add: pyslice_def)

lemma pyslice_append_here [byte_simps]: "length xs = n \<Longrightarrow> pyslice 0 n (xs @ ys) = xs"
  by (simp add: pyslice_def)

definition get_le :: "bytes \<Rightarrow> nat \<Rightarrow> nat \<Rightarrow> int" where
  "get_le data off n = from_le (pyslice off n data)"

lemma get_le_nonneg [simp]: "0 \<le> get_le data off n"
  by (simp add: get_le_def)

lemma get_le_bound: "get_le data off n < 256 ^ n"
proof -
  have "from_le (pyslice off n data) < 256 ^ length (pyslice off n data)"
    by (rule from_le_bound)
  also have "(256 :: int) ^ length (pyslice off n data) \<le> 256 ^ n"
    by (rule power_increasing) (auto simp: pyslice_def)
  finally show ?thesis by (simp add: get_le_def)
qed

section \<open>Little-endian structs\<close>

text \<open>A \<^verbatim>\<open>struct.Struct\<close> with unsigned fields is the list of its field widths in bytes.\<close>

fun unpack_fields :: "nat list \<Rightarrow> bytes \<Rightarrow> int list" where
  "unpack_fields [] bs = []"
| "unpack_fields (n # ns) bs = from_le (take n bs) # unpack_fields ns (drop n bs)"

fun pack_fields :: "nat list \<Rightarrow> int list \<Rightarrow> bytes" where
  "pack_fields (n # ns) (v # vs) = to_le n v @ pack_fields ns vs"
| "pack_fields ns vs = []"

definition fields_fit :: "nat list \<Rightarrow> int list \<Rightarrow> bool" where
  "fields_fit = list_all2 (\<lambda>n v. 0 \<le> v \<and> v < 256 ^ n)"

lemma fields_fit_simps [simp]:
  "fields_fit [] vs \<longleftrightarrow> vs = []"
  "fields_fit (n # ns) vs \<longleftrightarrow>
     (\<exists>v vs'. vs = v # vs' \<and> 0 \<le> v \<and> v < 256 ^ n \<and> fields_fit ns vs')"
  by (auto simp: fields_fit_def list_all2_Cons1)

lemma length_unpack_fields [simp]: "length (unpack_fields ns bs) = length ns"
  by (induction ns arbitrary: bs) auto

lemma length_pack_fields [byte_simps]:
  "length vs = length ns \<Longrightarrow> length (pack_fields ns vs) = sum_list ns"
  by (induction ns vs rule: list_induct2') auto

lemma unpack_pack_fields [byte_simps]:
  "fields_fit ns vs \<Longrightarrow> unpack_fields ns (pack_fields ns vs @ rest) = vs"
proof (induction ns arbitrary: vs)
  case (Cons n ns)
  then show ?case by (auto simp: byte_simps)
qed auto

lemma pack_unpack_fields [byte_simps]:
  "sum_list ns \<le> length bs \<Longrightarrow> pack_fields ns (unpack_fields ns bs) = take (sum_list ns) bs"
proof (induction ns arbitrary: bs)
  case (Cons n ns)
  then have "pack_fields ns (unpack_fields ns (drop n bs)) = take (sum_list ns) (drop n bs)"
    by simp
  with Cons.prems show ?case by (simp add: byte_simps take_add)
qed simp

lemma unpack_fields_fit: "sum_list ns \<le> length bs \<Longrightarrow> fields_fit ns (unpack_fields ns bs)"
proof (induction ns arbitrary: bs)
  case (Cons n ns)
  from Cons.prems have "length (take n bs) = n" by simp
  then have "from_le (take n bs) < 256 ^ n"
    using from_le_bound [of "take n bs"] by simp
  with Cons show ?case by simp
qed simp

lemma nth_unpack_fields:
  "i < length ns \<Longrightarrow>
     unpack_fields ns bs ! i = get_le bs (sum_list (take i ns)) (ns ! i)"
proof (induction ns arbitrary: bs i)
  case (Cons n ns)
  then show ?case
    by (cases i) (auto simp: get_le_def pyslice_def add.commute)
qed simp

definition struct_unpack_from :: "nat list \<Rightarrow> bytes \<Rightarrow> nat \<Rightarrow> int list result" where
  "struct_unpack_from ns data off =
     (if off + sum_list ns \<le> length data then Inr (unpack_fields ns (drop off data))
      else Inl (Exn StructError ''unpack_from requires a larger buffer''))"

definition struct_pack :: "nat list \<Rightarrow> int list \<Rightarrow> bytes result" where
  "struct_pack ns vs =
     (if fields_fit ns vs then Inr (pack_fields ns vs)
      else Inl (Exn StructError ''argument out of range''))"

text \<open>Two's complement reading of an unsigned field of \<open>w\<close> bits.\<close>

definition to_signed :: "nat \<Rightarrow> int \<Rightarrow> int" where
  "to_signed w v = (if 2 ^ (w - 1) \<le> v then v - 2 ^ w else v)"

lemma to_signed_range:
  assumes "0 < w" "0 \<le> v" "v < 2 ^ w"
  shows "- (2 ^ (w - 1)) \<le> to_signed w v \<and> to_signed w v < 2 ^ (w - 1)"
proof -
  have "(2 :: int) ^ w = 2 * 2 ^ (w - 1)"
    using assms(1) by (simp add: power_eq_if)
  with assms show ?thesis by (auto simp: to_signed_def)
qed

lemma to_signed_mod:
  assumes "0 < w" "- (2 ^ (w - 1)) \<le> v" "v < 2 ^ (w - 1)"
  shows "to_signed w (v mod 2 ^ w) = v"
proof -
  have two: "(2 :: int) ^ w = 2 * 2 ^ (w - 1)"
    using assms(1) by (simp add: power_eq_if)
  show ?thesis
  proof (cases "0 \<le> v")
    case True
    with assms two have "v mod 2 ^ w = v" by simp
    with assms show ?thesis by (simp add: to_signed_def)
  next
    case False
    have "v mod 2 ^ w = (v + 2 ^ w) mod 2 ^ w" by simp
    also have "\<dots> = v + 2 ^ w"
      using False assms two by (intro mod_pos_pos_trivial) auto
    finally show ?thesis using False assms two by (simp add: to_signed_def)
  qed
qed

section \<open>Masks\<close>

text \<open>Python's \<^verbatim>\<open>x & ((1 << n) - 1)\<close> on unbounded integers.\<close>

lemma and_mask_mod: "(x :: int) AND (2 ^ n - 1) = x mod 2 ^ n"
  by (simp flip: take_bit_eq_mod mask_eq_exp_minus_1 take_bit_eq_mask)

lemma and_mask32: "(x :: int) AND 0xFFFFFFFF = x mod 4294967296"
  using and_mask_mod [of x 32] by simp

lemma and_mask64: "(x :: int) AND 0xFFFFFFFFFFFFFFFF = x mod 18446744073709551616"
  using and_mask_mod [of x 64] by simp

section \<open>Interfaces\<close>

text \<open>
  An encoder and a decoder of wire objects: \<open>valid\<close> is the sender's own validation, \<open>enc\<close> and \<open>dec\<close>
  may raise. The first law is the round trip of what the sender may send; the extension adds that
  the decoder is strict, it accepts nothing but the encoding of a valid object.
\<close>

locale codec =
  fixes valid :: "'a \<Rightarrow> bool"
    and enc :: "'a \<Rightarrow> 'w result"
    and dec :: "'w \<Rightarrow> 'a result"
  assumes enc_total: "valid x \<Longrightarrow> \<exists>w. enc x = Inr w"
    and dec_enc: "valid x \<Longrightarrow> enc x = Inr w \<Longrightarrow> dec w = Inr x"
begin

lemma enc_inj: "valid x \<Longrightarrow> valid y \<Longrightarrow> enc x = enc y \<Longrightarrow> x = y"
  by (metis dec_enc enc_total sum.inject(2))

lemma round_trip: "valid x \<Longrightarrow> rbind (enc x) dec = Inr x"
  using enc_total [of x] dec_enc [of x] by auto

end

locale strict_codec = codec +
  assumes dec_valid: "dec w = Inr x \<Longrightarrow> valid x"
    and enc_dec: "dec w = Inr x \<Longrightarrow> enc x = Inr w"
begin

lemma dec_iff: "dec w = Inr x \<longleftrightarrow> valid x \<and> enc x = Inr w"
  by (auto dest: dec_valid enc_dec dec_enc)

lemma dec_inj: "dec w = Inr x \<Longrightarrow> dec w' = Inr x \<Longrightarrow> w = w'"
  by (auto dest!: enc_dec)

end

text \<open>
  A deterministic state machine with an invariant: every event keeps it, so every run does.
\<close>

locale step_invariant =
  fixes step :: "'s \<Rightarrow> 'e \<Rightarrow> 's"
    and inv :: "'s \<Rightarrow> bool"
  assumes step_inv: "inv s \<Longrightarrow> inv (step s e)"
begin

lemma run_inv: "inv s \<Longrightarrow> inv (foldl step s es)"
  by (induction es arbitrary: s) (auto intro: step_inv)

lemma run_prefix_inv: "inv s \<Longrightarrow> inv (foldl step s (take n es))"
  by (rule run_inv)

end

text \<open>
  A machine whose calls return a value, the values of a run, and forward simulation: related states answer every call
  alike and stay related, so every run gives the same answers.
\<close>

fun run_ops :: "('s \<Rightarrow> 'op \<Rightarrow> 's \<times> 'o) \<Rightarrow> 's \<Rightarrow> 'op list \<Rightarrow> 's \<times> 'o list" where
  "run_ops f s [] = (s, [])"
| "run_ops f s (op # ops) = (case f s op of (t, b) \<Rightarrow> case run_ops f t ops of (u, bs) \<Rightarrow> (u, b # bs))"

lemma run_ops_append:
  "run_ops f s (xs @ ys) = (case run_ops f s xs of (t, bs) \<Rightarrow> case run_ops f t ys of (u, cs) \<Rightarrow> (u, bs @ cs))"
  by (induction xs arbitrary: s) (simp_all add: case_prod_unfold)

locale simulation =
  fixes cstep :: "'s \<Rightarrow> 'op \<Rightarrow> 's \<times> 'o"
    and astep :: "'a \<Rightarrow> 'op \<Rightarrow> 'a \<times> 'o"
    and sim :: "'s \<Rightarrow> 'a \<Rightarrow> bool"
  assumes step_out: "sim s t \<Longrightarrow> snd (cstep s op) = snd (astep t op)"
    and step_sim: "sim s t \<Longrightarrow> sim (fst (cstep s op)) (fst (astep t op))"
begin

lemma run_sim:
  "sim s t \<Longrightarrow> snd (run_ops cstep s ops) = snd (run_ops astep t ops) \<and>
     sim (fst (run_ops cstep s ops)) (fst (run_ops astep t ops))"
proof (induction ops arbitrary: s t)
  case (Cons op ops)
  from Cons.IH [OF step_sim [OF Cons.prems, of op]] step_out [OF Cons.prems, of op] show ?case
    by (simp add: case_prod_unfold)
qed simp

end

text \<open>A counter that stops at its maximum instead of wrapping.\<close>

locale saturating_counter =
  fixes incr :: "int \<Rightarrow> int"
    and top :: int
  assumes incr_below: "0 \<le> v \<Longrightarrow> v < top \<Longrightarrow> incr v = v + 1"
    and incr_top: "incr top = top"
    and top_nonneg: "0 \<le> top"
begin

lemma incr_bounds: "0 \<le> v \<Longrightarrow> v \<le> top \<Longrightarrow> v \<le> incr v \<and> incr v \<le> top"
  by (cases "v = top") (auto simp: incr_below incr_top)

lemma incr_min: "0 \<le> v \<Longrightarrow> v \<le> top \<Longrightarrow> incr v = min top (v + 1)"
  by (cases "v = top") (auto simp: incr_below incr_top)

lemma incr_funpow: "0 \<le> v \<Longrightarrow> v \<le> top \<Longrightarrow> (incr ^^ n) v = min top (v + int n)"
proof (induction n)
  case (Suc n)
  then have "(incr ^^ Suc n) v = incr (min top (v + int n))" by simp
  also have "\<dots> = min top (min top (v + int n) + 1)"
    using Suc.prems top_nonneg by (intro incr_min) auto
  finally show ?case by auto
qed simp

end

section \<open>Serial bits\<close>

lemma low_bit: "drop_bit k (x :: int) AND 1 = of_bool (bit x k)"
  by (simp add: and_one_eq bit_iff_odd_drop_bit mod_2_eq_odd)

lemma shift_in: "push_bit 1 (acc :: int) OR of_bool c = 2 * acc + of_bool c"
  by (cases c) (simp_all add: or_one_eq)

lemma split_top_bit:
  fixes x :: int
  assumes "0 \<le> x" "x < 2 ^ Suc n"
  shows "x = of_bool (bit x n) * 2 ^ n + take_bit n x"
proof -
  have "x = take_bit (Suc n) x" using assms by (simp add: take_bit_int_eq_self)
  also have "\<dots> = of_bool (bit x n) * 2 ^ n + take_bit n x"
    by (simp add: take_bit_Suc_from_most)
  finally show ?thesis .
qed

text \<open>A receiver that shifts in one bit after the other, the most significant first.\<close>

locale serial_decoder =
  fixes dec :: "int \<Rightarrow> int list \<Rightarrow> int result"
  assumes dec_Nil: "dec acc [] = Inr acc"
    and dec_bit: "dec acc (of_bool c # bits) = dec (2 * acc + of_bool c) bits"
begin

lemma dec_bits:
  assumes "0 \<le> x" "x < 2 ^ n"
  shows "dec acc (map (\<lambda>k. drop_bit k x AND 1) (rev [0..<n])) = Inr (acc * 2 ^ n + x)"
  using assms
proof (induction n arbitrary: acc x)
  case 0
  then show ?case by (simp add: dec_Nil)
next
  case (Suc n)
  let ?y = "take_bit n x" and ?b = "of_bool (bit x n) :: int"
  have "map (\<lambda>k. drop_bit k x AND 1) (rev [0..<n]) = map (\<lambda>k. drop_bit k ?y AND 1) (rev [0..<n])"
    by (simp add: low_bit bit_take_bit_iff)
  moreover have "dec (2 * acc + ?b) (map (\<lambda>k. drop_bit k ?y AND 1) (rev [0..<n])) = Inr ((2 * acc + ?b) * 2 ^ n + ?y)"
    by (rule Suc.IH) simp_all
  moreover have "(2 * acc + ?b) * 2 ^ n + ?y = acc * 2 ^ Suc n + x"
    by (subst (2) split_top_bit [OF Suc.prems]) (simp add: algebra_simps)
  moreover have "map (\<lambda>k. drop_bit k x AND 1) (rev [0..<Suc n]) = ?b # map (\<lambda>k. drop_bit k x AND 1) (rev [0..<n])"
    by (simp add: low_bit)
  ultimately show ?case by (simp only: dec_bit)
qed

end

end
