(* ===== verification/Packet_Spec.thy ===== *)
theory Packet_Spec
  imports Prelude
begin

text \<open>
  The wire constants of \<^verbatim>\<open>sw/pc_dashboard/generated/trecap_packet.py\<close>: the telemetry and command
  layouts, the payload rules, the command vocabulary and the CSR map. A Python dictionary literal is
  an association list in the source's order, looked up with \<open>map_of\<close>; the inverted dictionaries
  are the same comprehensions. The lemmas state what the parser and the command client rely on: the
  offset tables are the running sums of the struct widths, every legal record respects the
  no-fragment bound, and the CSR bit fields tile their registers without overlap.
\<close>

section \<open>Transport constants\<close>

type_synonym 'v dict = "(string \<times> 'v) list"

definition TELEMETRY_MAGIC :: int where
  "TELEMETRY_MAGIC = 1414677328"

definition COMMAND_MAGIC :: int where
  "COMMAND_MAGIC = 1414677315"

definition TELEMETRY_HEADER_VERSION :: int where
  "TELEMETRY_HEADER_VERSION = 1"

definition COMMAND_VERSION_CURRENT :: int where
  "COMMAND_VERSION_CURRENT = 2"

definition TELEMETRY_HEADER_BYTES :: int where
  "TELEMETRY_HEADER_BYTES = 32"

definition COMMAND_PACKET_BYTES :: int where
  "COMMAND_PACKET_BYTES = 28"

definition UDP_NO_FRAGMENT_PAYLOAD_MAX_BYTES :: int where
  "UDP_NO_FRAGMENT_PAYLOAD_MAX_BYTES = 1200"

definition DDR_RECORD_ALIGNMENT_BYTES :: int where
  "DDR_RECORD_ALIGNMENT_BYTES = 64"

definition COMMAND_RESULT_MAGIC :: int where
  "COMMAND_RESULT_MAGIC = 1414677330"

definition COMMAND_RESULT_VERSION :: int where
  "COMMAND_RESULT_VERSION = 2"

definition COMMAND_RESULT_BYTES :: int where
  "COMMAND_RESULT_BYTES = 32"

definition COMMAND_VERSION_V1 :: int where
  "COMMAND_VERSION_V1 = 1"

definition COMMAND_VERSION_V2 :: int where
  "COMMAND_VERSION_V2 = 2"

definition COMMAND_VERSIONS_SUPPORTED :: "int list" where
  "COMMAND_VERSIONS_SUPPORTED = [1, 2]"

definition TELEMETRY_HEADER_STRUCT :: "nat list" where
  "TELEMETRY_HEADER_STRUCT = [4, 2, 2, 2, 2, 4, 8, 4, 4]"

definition COMMAND_STRUCT :: "nat list" where
  "COMMAND_STRUCT = [4, 2, 2, 4, 4, 4, 4, 4]"

definition COMMAND_RESULT_STRUCT :: "nat list" where
  "COMMAND_RESULT_STRUCT = [4, 2, 2, 4, 4, 4, 4, 4, 4]"

section \<open>Packet types, offsets and payload rules\<close>

definition PACKET_TYPES :: "int dict" where
  "PACKET_TYPES =
     [(''WAVE'', 1), (''SPEC64'', 2), (''SPEC129'', 3), (''METRICS'', 4), (''STATUS'', 5),
      (''PEAKS'', 6), (''DEBUG'', 126), (''WRAP'', 127)]"

definition PACKET_TYPE_NAMES :: "(int \<times> string) list" where
  "PACKET_TYPE_NAMES = map (\<lambda>(key, value). (value, key)) PACKET_TYPES"

definition PACKET_PRIORITIES :: "int dict" where
  "PACKET_PRIORITIES =
     [(''WAVE'', 0), (''SPEC64'', 1), (''SPEC129'', 1), (''METRICS'', 2), (''STATUS'', 3),
      (''PEAKS'', 1), (''DEBUG'', 0)]"

definition HEADER_OFFSETS :: "nat dict" where
  "HEADER_OFFSETS =
     [(''magic'', 0), (''version'', 4), (''header_bytes'', 6), (''packet_type'', 8),
      (''flags'', 10), (''seq'', 12), (''timestamp'', 16), (''payload_bytes'', 24),
      (''header_crc'', 28)]"

definition COMMON_FLAG_BITS :: "(nat \<times> nat) dict" where
  "COMMON_FLAG_BITS =
     [(''payload_truncated'', (0, 0)), (''payload_scaled'', (1, 1)),
      (''aggregate_metrics'', (2, 2)), (''per_frame_metrics'', (3, 3)),
      (''crc_enabled'', (4, 4)), (''status_diagnostic'', (5, 5)), (''reserved_15_6'', (6, 15))]"

datatype payload_rule =
    Exact int
  | Variable (max_bytes: int) (min_bytes: int) (nsamp_max: int) (nsamp_min: int)
  | Undefined_in_revision_g

definition PAYLOAD_RULES :: "payload_rule dict" where
  "PAYLOAD_RULES =
     [(''WAVE'', Variable 1168 22 192 1), (''SPEC129'', Exact 287), (''SPEC64'', Exact 268),
      (''METRICS'', Exact 56), (''STATUS'', Exact 72), (''WRAP'', Exact 0),
      (''PEAKS'', Undefined_in_revision_g), (''DEBUG'', Undefined_in_revision_g)]"

definition PAYLOAD_OFFSETS :: "nat dict dict" where
  "PAYLOAD_OFFSETS =
     [(''WAVE'',
        [(''sample_base'', 0), (''nsamp'', 8), (''channels'', 10), (''stride'', 12),
         (''reserved'', 14), (''sample'', 16)]),
      (''SPEC129'',
        [(''frame_idx'', 0), (''nbin'', 8), (''spec_shift'', 10), (''spec129'', 12),
         (''mask_bits'', 270)]),
      (''SPEC64'',
        [(''frame_idx'', 0), (''nbin'', 8), (''spec_shift'', 10), (''spec64'', 12),
         (''suppressed_count'', 140), (''eligible_count'', 204)]),
      (''METRICS'',
        [(''frame_idx'', 0), (''eligible_unique_bins'', 8), (''eligible_suppressed_bins'', 12),
         (''eligible_kept_mag2_lo'', 16), (''eligible_total_mag2_lo'', 24),
         (''sum_abs_err_lo'', 32), (''sum_sq_err_lo'', 40), (''max_abs_err'', 48),
         (''overflow_flags'', 52)]),
      (''STATUS'',
        [(''sample_count'', 0), (''frame_count'', 8), (''source_mode'', 16),
         (''sample_rate'', 20), (''packet_enable'', 24), (''dma_drop_count'', 28),
         (''udp_send_error_count'', 32), (''malformed_record_count'', 36),
         (''oversized_record_count'', 40), (''command_reject_count'', 44),
         (''sequence_gap_count'', 48), (''overflow_flags'', 52), (''thr2_lo'', 56),
         (''thr2_hi'', 60), (''packet_fifo_drop_count'', 64), (''reserved'', 68)]),
      (''WRAP'', []), (''PEAKS'', []), (''DEBUG'', [])]"

section \<open>The command vocabulary\<close>

definition COMMAND_TYPES :: "int dict" where
  "COMMAND_TYPES =
     [(''SET_THR2'', 1), (''CLEAR_METRICS'', 2), (''SET_SOURCE_MODE'', 3),
      (''SET_PACKET_ENABLE'', 4), (''SET_WAVE_DECIM'', 5), (''SET_SPEC_SHIFT'', 6),
      (''PING'', 7), (''SET_SPEC_MODE'', 8), (''SET_TELEMETRY_ENABLE'', 9),
      (''CONFIGURE_DDR_RING'', 10), (''RESET_TRANSPORT'', 11), (''CLEAR_COUNTERS'', 12),
      (''START_BRAM_REPLAY'', 13), (''READ_STATUS_VERSION'', 14)]"

definition COMMAND_TYPE_NAMES :: "(int \<times> string) list" where
  "COMMAND_TYPE_NAMES = map (\<lambda>(key, value). (value, key)) COMMAND_TYPES"

definition COMMAND_TYPE_MIN_VERSION :: "(int \<times> int) list" where
  "COMMAND_TYPE_MIN_VERSION =
     [(1, 1), (2, 1), (3, 1), (4, 1), (5, 1), (6, 1), (7, 1), (8, 2), (9, 2), (10, 2), (11, 2),
      (12, 2), (13, 2), (14, 2)]"

definition COMMAND_V1_TYPES :: "int set" where
  "COMMAND_V1_TYPES =
     set (map fst (filter (\<lambda>(value, version). version \<le> 1) COMMAND_TYPE_MIN_VERSION))"

definition COMMAND_V2_TYPES :: "int set" where
  "COMMAND_V2_TYPES =
     set (map fst (filter (\<lambda>(value, version). version \<le> 2) COMMAND_TYPE_MIN_VERSION))"

definition COMMAND_OFFSETS :: "nat dict" where
  "COMMAND_OFFSETS =
     [(''magic'', 0), (''version'', 4), (''cmd_type'', 6), (''seq'', 8), (''arg0'', 12),
      (''arg1'', 16), (''arg2'', 20), (''crc32'', 24)]"

definition COMMAND_RESULT_OFFSETS :: "nat dict" where
  "COMMAND_RESULT_OFFSETS =
     [(''magic'', 0), (''version'', 4), (''cmd_type'', 6), (''seq'', 8), (''disposition'', 12),
      (''reject_reason'', 16), (''fpga_status'', 20), (''csr_version'', 24), (''crc32'', 28)]"

definition COMMAND_DISPOSITIONS :: "int dict" where
  "COMMAND_DISPOSITIONS =
     [(''APPLIED'', 0), (''NOOP'', 1), (''REJECTED'', 2), (''FAILED'', 3)]"

definition COMMAND_DISPOSITION_NAMES :: "(int \<times> string) list" where
  "COMMAND_DISPOSITION_NAMES = map (\<lambda>(key, value). (value, key)) COMMAND_DISPOSITIONS"

definition COMMAND_REJECT_REASONS :: "int dict" where
  "COMMAND_REJECT_REASONS =
     [(''NONE'', 0), (''BAD_SOURCE'', 1), (''BAD_LENGTH'', 2), (''BAD_MAGIC'', 3),
      (''BAD_VERSION'', 4), (''BAD_CRC'', 5), (''UNSUPPORTED_TYPE'', 6), (''RANGE'', 7),
      (''RESERVED_ARGUMENT'', 8), (''CSR'', 9), (''IO'', 10), (''UNSAFE_STATE'', 11),
      (''SEQUENCE_STALE'', 12), (''SEQUENCE_CONFLICT'', 13), (''TIMEOUT'', 14),
      (''RESET_REQUIRED'', 15), (''VERSION_MISMATCH'', 16)]"

definition COMMAND_REJECT_REASON_NAMES :: "(int \<times> string) list" where
  "COMMAND_REJECT_REASON_NAMES = map (\<lambda>(key, value). (value, key)) COMMAND_REJECT_REASONS"

section \<open>The CSR map\<close>

definition CSR_OFFSETS :: "nat dict" where
  "CSR_OFFSETS =
     [(''ID'', 0), (''VERSION'', 4), (''CONTROL'', 8), (''STATUS'', 12), (''THR2_LO'', 16),
      (''THR2_HI'', 20), (''THR2_COMMIT'', 24), (''PACKET_ENABLE'', 28), (''WAVE_DECIM'', 32),
      (''SPEC_MODE'', 36), (''SPEC_SHIFT'', 40), (''SOURCE_MODE_SHADOW'', 44),
      (''SOURCE_MODE_COMMIT'', 48), (''RING_BASE_LO'', 52), (''RING_BASE_HI'', 56),
      (''RING_SIZE_BYTES'', 60), (''RING_CONFIG_COMMIT'', 64), (''RING_WR_SNAPSHOT'', 68),
      (''RING_WR_LO_SNAP'', 72), (''RING_WR_HI_SNAP'', 76), (''RING_RD_LO_SHADOW'', 80),
      (''RING_RD_HI_SHADOW'', 84), (''RING_RD_COMMIT'', 88), (''DMA_DROP_COUNT'', 92),
      (''DMA_PACKET_COUNT'', 96), (''DMA_STATUS'', 100), (''CORE_COUNT_SNAPSHOT'', 104),
      (''FRAME_COUNT_SNAP_LO'', 108), (''FRAME_COUNT_SNAP_HI'', 112),
      (''SAMPLE_COUNT_SNAP_LO'', 116), (''SAMPLE_COUNT_SNAP_HI'', 120),
      (''OVERFLOW_FLAGS'', 124), (''CLEAR_STICKY_FLAGS'', 128),
      (''CSR_COMMAND_REJECT_COUNT'', 132), (''PACKET_FIFO_DROP_COUNT'', 136),
      (''COUNTER_CLEAR'', 140), (''REPLAY_CONTROL'', 144), (''REPLAY_STATUS'', 148),
      (''SOURCE_HEALTH_CAPABILITY'', 256), (''SOURCE_HEALTH_CONTROL'', 260),
      (''SOURCE_HEALTH_STATUS'', 264), (''SOURCE_HEALTH_FAULT'', 268),
      (''SOURCE_HEALTH_RATE'', 272), (''SOURCE_HEALTH_EPOCH_LO'', 276),
      (''SOURCE_HEALTH_EPOCH_HI'', 280), (''SOURCE_HEALTH_AUDIO_RAW_LO'', 284),
      (''SOURCE_HEALTH_AUDIO_RAW_HI'', 288), (''SOURCE_HEALTH_ADC_RAW_LO'', 292),
      (''SOURCE_HEALTH_ADC_RAW_HI'', 296), (''SOURCE_HEALTH_AUDIO_ADMITTED_LO'', 300),
      (''SOURCE_HEALTH_AUDIO_ADMITTED_HI'', 304), (''SOURCE_HEALTH_ADC_ADMITTED_LO'', 308),
      (''SOURCE_HEALTH_ADC_ADMITTED_HI'', 312), (''SOURCE_HEALTH_AUDIO_ACCEPTED_LO'', 316),
      (''SOURCE_HEALTH_AUDIO_ACCEPTED_HI'', 320), (''SOURCE_HEALTH_ADC_ACCEPTED_LO'', 324),
      (''SOURCE_HEALTH_ADC_ACCEPTED_HI'', 328), (''SOURCE_HEALTH_AUDIO_ADAPTER_DROP_LO'', 332),
      (''SOURCE_HEALTH_AUDIO_ADAPTER_DROP_HI'', 336),
      (''SOURCE_HEALTH_ADC_ADAPTER_DROP_LO'', 340),
      (''SOURCE_HEALTH_ADC_ADAPTER_DROP_HI'', 344),
      (''SOURCE_HEALTH_AUDIO_WRAPPER_DROP_LO'', 348),
      (''SOURCE_HEALTH_AUDIO_WRAPPER_DROP_HI'', 352),
      (''SOURCE_HEALTH_ADC_WRAPPER_DROP_LO'', 356),
      (''SOURCE_HEALTH_ADC_WRAPPER_DROP_HI'', 360), (''SOURCE_HEALTH_GAP_EVENTS_LO'', 364),
      (''SOURCE_HEALTH_GAP_EVENTS_HI'', 368), (''SOURCE_HEALTH_READY_LOSS_LO'', 372),
      (''SOURCE_HEALTH_READY_LOSS_HI'', 376), (''SOURCE_HEALTH_TIMEOUT_EVENTS_LO'', 380),
      (''SOURCE_HEALTH_TIMEOUT_EVENTS_HI'', 384), (''PLATFORM_CONTROL'', 388),
      (''PLATFORM_CAPABILITY'', 392)]"

definition CSR_BITS :: "(nat \<times> nat) dict dict" where
  "CSR_BITS =
     [(''CONTROL'',
        [(''telemetry_enable'', (0, 0)), (''telemetry_soft_reset'', (1, 1)),
         (''clear_metrics'', (2, 2)), (''reserved_3'', (3, 3)),
         (''ring_writer_enable'', (4, 4)), (''reserved_31_5'', (5, 31))]),
      (''STATUS'',
        [(''telemetry_enabled'', (0, 0)), (''ring_writer_enabled'', (1, 1)),
         (''ring_configured'', (2, 2)), (''writer_busy'', (3, 3)), (''core_alive'', (4, 4)),
         (''malformed_config'', (5, 5)), (''ring_full'', (6, 6)),
         (''packet_fifo_full'', (7, 7)), (''thr2_commit_pending'', (8, 8)),
         (''source_commit_pending'', (9, 9)), (''actual_source_mode'', (10, 11)),
         (''transport_epoch_idle'', (12, 12)), (''source_transition_busy'', (13, 13)),
         (''reserved_31_14'', (14, 31))]),
      (''PACKET_ENABLE'',
        [(''WAVE_EN'', (0, 0)), (''SPEC_EN'', (1, 1)), (''METRICS_EN'', (2, 2)),
         (''STATUS_EN'', (3, 3)), (''PEAKS_EN'', (4, 4)), (''DEBUG_EN'', (5, 5)),
         (''reserved_31_6'', (6, 31))]),
      (''DMA_STATUS'',
        [(''writer_idle'', (0, 0)), (''writer_busy'', (1, 1)), (''no_space'', (2, 2)),
         (''malformed_config'', (3, 3)), (''ring_full'', (4, 4)),
         (''packet_fifo_full'', (5, 5)), (''ddr_wait'', (6, 6)), (''drop_active'', (7, 7)),
         (''reserved_31_8'', (8, 31))]),
      (''OVERFLOW_FLAGS'',
        [(''arithmetic_overflow'', (0, 0)), (''ola_overflow'', (1, 1)),
         (''ring_overflow'', (2, 2)), (''packet_fifo_overflow'', (3, 3)),
         (''malformed_packet'', (4, 4)), (''illegal_command'', (5, 5)),
         (''cdc_error'', (6, 6)), (''threshold_range_error'', (7, 7)),
         (''source_mode_error'', (8, 8)), (''oversized_record'', (9, 9)),
         (''reserved_31_10'', (10, 31))]),
      (''CLEAR_STICKY_FLAGS'',
        [(''arithmetic_overflow'', (0, 0)), (''ola_overflow'', (1, 1)),
         (''ring_overflow'', (2, 2)), (''packet_fifo_overflow'', (3, 3)),
         (''malformed_packet'', (4, 4)), (''illegal_command'', (5, 5)),
         (''cdc_error'', (6, 6)), (''threshold_range_error'', (7, 7)),
         (''source_mode_error'', (8, 8)), (''oversized_record'', (9, 9)),
         (''reserved_31_10'', (10, 31))]),
      (''COUNTER_CLEAR'',
        [(''transport_counters'', (0, 0)), (''reserved_31_1'', (1, 31))]),
      (''REPLAY_CONTROL'',
        [(''start'', (0, 0)), (''rearm'', (1, 1)), (''reserved_31_2'', (2, 31))]),
      (''REPLAY_STATUS'',
        [(''pending'', (0, 0)), (''last_accept'', (1, 1)), (''last_reject'', (2, 2)),
         (''start_ready'', (3, 3)), (''replay_active'', (4, 4)),
         (''replay_path_busy'', (5, 5)), (''replay_path_done'', (6, 6)),
         (''e2e_busy'', (7, 7)), (''e2e_done'', (8, 8)), (''error'', (9, 9)),
         (''rearm_required'', (10, 10)), (''reserved_15_11'', (11, 15)),
         (''result_epoch'', (16, 31))]),
      (''SOURCE_HEALTH_CONTROL'',
        [(''snapshot'', (0, 0)), (''rearm'', (1, 1)), (''reserved_31_2'', (2, 31))]),
      (''SOURCE_HEALTH_STATUS'',
        [(''present'', (0, 0)), (''live'', (1, 1)), (''periodic'', (2, 2)),
         (''ready'', (3, 3)), (''running'', (4, 4)), (''fault'', (5, 5)),
         (''waiting_stop'', (6, 6)), (''settling'', (7, 7)), (''source_mode'', (16, 17))]),
      (''SOURCE_HEALTH_FAULT'',
        [(''sequence_gap'', (0, 0)), (''adapter_drop'', (1, 1)), (''wrapper_drop'', (2, 2)),
         (''readiness_loss'', (3, 3)), (''sample_timeout'', (4, 4)),
         (''wrapper_protocol'', (5, 5))]),
      (''PLATFORM_CONTROL'',
        [(''codec_fpga_grant'', (0, 0)), (''reserved_31_1'', (1, 31))])]"

section \<open>Sizes\<close>

definition align64 :: "int \<Rightarrow> int" where
  "align64 n = (n + 63) AND (NOT 63)"

definition expected_payload_bytes :: "string \<Rightarrow> int option \<Rightarrow> int result" where
  "expected_payload_bytes packet_type_name nsamp =
     (case map_of PAYLOAD_RULES packet_type_name of
        None \<Rightarrow> Inl (Exn KeyError packet_type_name)
      | Some (Exact bytes) \<Rightarrow> Inr bytes
      | Some (Variable max_b min_b n_max n_min) \<Rightarrow>
          (if packet_type_name = ''WAVE'' then
             (case nsamp of
                None \<Rightarrow> Inl (Exn ValueError ''WAVE requires nsamp'')
              | Some n \<Rightarrow>
                  if \<not> (n_min \<le> n \<and> n \<le> n_max)
                  then Inl (Exn ValueError ''WAVE nsamp out of range'')
                  else Inr (16 + 6 * n))
           else Inl (Exn ValueError ''no fixed payload rule''))
      | Some Undefined_in_revision_g \<Rightarrow> Inl (Exn ValueError ''no fixed payload rule''))"

section \<open>What the tables guarantee\<close>

text \<open>The offset of each field of a struct is the sum of the widths before it.\<close>

fun running_offsets :: "nat \<Rightarrow> nat list \<Rightarrow> nat list" where
  "running_offsets start [] = []"
| "running_offsets start (w # ws) = start # running_offsets (start + w) ws"

text \<open>
  The layout tables of the three wire objects agree with their struct formats. Each dictionary of
  offsets lists exactly the running offsets of the struct's fields, and the struct is as long as the
  byte count the transport constants declare, so the offset-based accessors of the command client and
  the struct-based ones of the telemetry parser read the same fields.
\<close>

theorem wire_layouts_consistent:
  "map snd HEADER_OFFSETS = running_offsets 0 TELEMETRY_HEADER_STRUCT \<and>
   int (sum_list TELEMETRY_HEADER_STRUCT) = TELEMETRY_HEADER_BYTES \<and>
   map snd COMMAND_OFFSETS = running_offsets 0 COMMAND_STRUCT \<and>
   int (sum_list COMMAND_STRUCT) = COMMAND_PACKET_BYTES \<and>
   map snd COMMAND_RESULT_OFFSETS = running_offsets 0 COMMAND_RESULT_STRUCT \<and>
   int (sum_list COMMAND_RESULT_STRUCT) = COMMAND_RESULT_BYTES"
  by code_simp

text \<open>Every CSR has its own word-aligned address in the 4 KiB aperture.\<close>

lemma csr_offsets_ok:
  "distinct (map snd CSR_OFFSETS) \<and> list_all (\<lambda>(_, off). off mod 4 = 0 \<and> off < 4096) CSR_OFFSETS"
  by (simp add: CSR_OFFSETS_def)

fun fields_disjoint :: "nat \<Rightarrow> (nat \<times> nat) list \<Rightarrow> bool" where
  "fields_disjoint next [] \<longleftrightarrow> next \<le> 32"
| "fields_disjoint next ((lo, hi) # rest) \<longleftrightarrow>
     next \<le> lo \<and> lo \<le> hi \<and> fields_disjoint (Suc hi) rest"

lemma csr_bits_ok:
  "list_all (\<lambda>(reg, fields). fields_disjoint 0 (map snd fields) \<and> reg \<in> fst ` set CSR_OFFSETS) CSR_BITS"
  by (simp add: CSR_BITS_def CSR_OFFSETS_def)

lemma and_not_mask: "(x :: int) AND NOT (mask n) = push_bit n (drop_bit n x)"
  by (rule bit_eqI) (auto simp: bit_simps)

lemma align64_eq: "align64 n = 64 * ((n + 63) div 64)"
  using and_not_mask [of "n + 63" 6]
  by (simp add: align64_def mask_eq_exp_minus_1 push_bit_eq_mult drop_bit_eq_div)

text \<open>
  \<^verbatim>\<open>align64\<close> is the least multiple of the DDR record alignment that is not below its argument.
\<close>

theorem align64_least:
  "DDR_RECORD_ALIGNMENT_BYTES dvd align64 n \<and> n \<le> align64 n \<and>
   align64 n < n + DDR_RECORD_ALIGNMENT_BYTES"
proof -
  have "64 * ((n + 63) div 64) = (n + 63) - (n + 63) mod 64"
    by (simp add: minus_mod_eq_mult_div)
  moreover have "0 \<le> (n + 63) mod 64 \<and> (n + 63) mod 64 < 64" by simp
  ultimately show ?thesis
    unfolding align64_eq DDR_RECORD_ALIGNMENT_BYTES_def by auto
qed

lemma expected_payload_bytes_bound:
  "expected_payload_bytes name nsamp = Inr b \<Longrightarrow>
     0 \<le> b \<and> TELEMETRY_HEADER_BYTES + b \<le> UDP_NO_FRAGMENT_PAYLOAD_MAX_BYTES"
  by (auto simp: expected_payload_bytes_def PAYLOAD_RULES_def TELEMETRY_HEADER_BYTES_def
      UDP_NO_FRAGMENT_PAYLOAD_MAX_BYTES_def split: if_splits option.splits)

end
