(* ===== verification/Packet_Parser.thy ===== *)
theory Packet_Parser
  imports Packet_Spec
begin

text \<open>
  The strict telemetry parser of \<^verbatim>\<open>sw/pc_dashboard/trecap_dashboard/packet_parser.py\<close>.

  Every dataclass is a record with the source's fields (prefixed, because Isabelle's selectors are
  global), the payload union is a datatype, and every \<^verbatim>\<open>_require\<close> is a \<open>checks\<close> entry in the
  source's order. \<open>parse_datagram\<close> is the composition \<open>parse_header\<close>, \<open>validate_header\<close>,
  \<open>parse_payload\<close>, as in the class \<^verbatim>\<open>TelemetryPacketParser\<close>. Constant parts of messages are kept,
  formatted values are dropped. The theorems say what an accepted datagram satisfies, which exception
  classes can escape, and what the WAVE decoder returns.
\<close>

section \<open>Decoded objects\<close>

definition mask_from_bits :: "nat \<times> nat \<Rightarrow> int" where
  "mask_from_bits pair =
     (case pair of (lo, hi) \<Rightarrow> push_bit lo ((2 :: int) ^ (hi - lo + 1) - 1))"

record packet_flags =
  fl_raw :: int
  fl_payload_truncated :: bool
  fl_payload_scaled :: bool
  fl_aggregate_metrics :: bool
  fl_per_frame_metrics :: bool
  fl_crc_enabled :: bool
  fl_status_diagnostic :: bool
  fl_reserved :: int

definition flag_mask :: "string \<Rightarrow> int \<Rightarrow> int" where
  "flag_mask name dflt =
     (case map_of COMMON_FLAG_BITS name of None \<Rightarrow> dflt | Some pair \<Rightarrow> mask_from_bits pair)"

definition flags_from_raw :: "int \<Rightarrow> packet_flags" where
  "flags_from_raw raw =
     \<lparr> fl_raw = raw,
       fl_payload_truncated = (raw AND flag_mask ''payload_truncated'' 0x0001 \<noteq> 0),
       fl_payload_scaled = (raw AND flag_mask ''payload_scaled'' 0x0002 \<noteq> 0),
       fl_aggregate_metrics = (raw AND flag_mask ''aggregate_metrics'' 0x0004 \<noteq> 0),
       fl_per_frame_metrics = (raw AND flag_mask ''per_frame_metrics'' 0x0008 \<noteq> 0),
       fl_crc_enabled = (raw AND flag_mask ''crc_enabled'' 0x0010 \<noteq> 0),
       fl_status_diagnostic = (raw AND flag_mask ''status_diagnostic'' 0x0020 \<noteq> 0),
       fl_reserved = raw AND flag_mask ''reserved_15_6'' 0xFFC0 \<rparr>"

definition metrics_class_count :: "packet_flags \<Rightarrow> int" where
  "metrics_class_count fl = of_bool (fl_aggregate_metrics fl) + of_bool (fl_per_frame_metrics fl)"

record telemetry_header =
  th_magic :: int
  th_version :: int
  th_header_bytes :: int
  th_packet_type :: int
  th_flags_raw :: int
  th_seq :: int
  th_timestamp :: int
  th_payload_bytes :: int
  th_header_crc :: int
  th_packet_name :: string
  th_flags :: packet_flags

definition wire_bytes :: "telemetry_header \<Rightarrow> int" where
  "wire_bytes h = th_header_bytes h + th_payload_bytes h"

definition is_wrap :: "telemetry_header \<Rightarrow> bool" where
  "is_wrap h \<longleftrightarrow> th_packet_name h = ''WRAP''"

definition is_status_diagnostic :: "telemetry_header \<Rightarrow> bool" where
  "is_status_diagnostic h \<longleftrightarrow>
     th_packet_name h = ''STATUS'' \<and> fl_status_diagnostic (th_flags h)"

definition participates_in_sequence :: "telemetry_header \<Rightarrow> bool" where
  "participates_in_sequence h \<longleftrightarrow> \<not> is_wrap h \<and> \<not> is_status_diagnostic h"

record wave_sample =
  ws_sample_index :: int
  ws_xdel :: int
  ws_yout :: int
  ws_err :: int

record wave_payload =
  wp_sample_base :: int
  wp_nsamp :: int
  wp_channels :: int
  wp_stride :: int
  wp_samples :: "wave_sample list"

record spec129_payload =
  s129_frame_idx :: int
  s129_nbin :: int
  s129_spec_shift :: int
  s129_magnitudes :: "int list"
  s129_mask_bits :: "bool list"
  s129_raw_mask_bytes :: bytes

record spec64_payload =
  s64_frame_idx :: int
  s64_nbin :: int
  s64_spec_shift :: int
  s64_magnitudes :: "int list"
  s64_suppressed_count :: "int list"
  s64_eligible_count :: "int list"

record metrics_payload =
  mp_frame_idx :: int
  mp_eligible_unique_bins :: int
  mp_eligible_suppressed_bins :: int
  mp_eligible_kept_mag2_lo :: int
  mp_eligible_total_mag2_lo :: int
  mp_sum_abs_err_lo :: int
  mp_sum_sq_err_lo :: int
  mp_max_abs_err :: int
  mp_overflow_flags :: int

record status_payload =
  sp_sample_count :: int
  sp_frame_count :: int
  sp_source_mode :: int
  sp_sample_rate :: int
  sp_packet_enable :: int
  sp_dma_drop_count :: int
  sp_udp_send_error_count :: int
  sp_malformed_record_count :: int
  sp_oversized_record_count :: int
  sp_command_reject_count :: int
  sp_sequence_gap_count :: int
  sp_overflow_flags :: int
  sp_thr2_lo :: int
  sp_thr2_hi :: int
  sp_packet_fifo_drop_count :: int
  sp_reserved :: int

definition status_thr2 :: "status_payload \<Rightarrow> int" where
  "status_thr2 p = push_bit 32 (sp_thr2_hi p) OR sp_thr2_lo p"

datatype telemetry_payload =
    WavePayload wave_payload
  | Spec129Payload spec129_payload
  | Spec64Payload spec64_payload
  | MetricsPayload metrics_payload
  | StatusPayload status_payload
  | WrapPayload

record parsed_packet =
  pp_header :: telemetry_header
  pp_payload :: telemetry_payload
  pp_raw_payload :: bytes
  pp_raw_datagram :: bytes

section \<open>The header\<close>

abbreviation perr :: "string \<Rightarrow> exn" where
  "perr msg \<equiv> Exn PacketParserError msg"

definition parse_header :: "bytes \<Rightarrow> telemetry_header result" where
  "parse_header data =
     rbind (checks [(TELEMETRY_HEADER_BYTES \<le> int (length data),
                     perr ''datagram shorter than telemetry header'')]) (\<lambda>_.
     rbind (struct_unpack_from TELEMETRY_HEADER_STRUCT data 0) (\<lambda>fields.
     Inr \<lparr> th_magic = fields ! 0, th_version = fields ! 1, th_header_bytes = fields ! 2,
           th_packet_type = fields ! 3, th_flags_raw = fields ! 4, th_seq = fields ! 5,
           th_timestamp = fields ! 6, th_payload_bytes = fields ! 7, th_header_crc = fields ! 8,
           th_packet_name =
             (case map_of PACKET_TYPE_NAMES (fields ! 3) of
                None \<Rightarrow> ''UNKNOWN'' | Some name \<Rightarrow> name),
           th_flags = flags_from_raw (fields ! 4) \<rparr>))"

record parser_config =
  allow_wrap :: bool
  enforce_udp_limit :: bool
  exact_length :: bool

definition default_parser :: parser_config where
  "default_parser = \<lparr> allow_wrap = False, enforce_udp_limit = True, exact_length = True \<rparr>"

definition validate_header :: "parser_config \<Rightarrow> telemetry_header \<Rightarrow> bytes \<Rightarrow> unit result" where
  "validate_header cfg h data = checks
     [(th_magic h = TELEMETRY_MAGIC, perr ''bad telemetry magic''),
      (th_version h = TELEMETRY_HEADER_VERSION, perr ''unsupported telemetry header version''),
      (th_header_bytes h = TELEMETRY_HEADER_BYTES, perr ''bad header_bytes''),
      (th_packet_name h \<noteq> ''UNKNOWN'', perr ''unknown packet type''),
      (th_header_crc h = 0, perr ''nonzero header_crc''),
      (\<not> fl_crc_enabled (th_flags h), perr ''crc_enabled flag is reserved zero in Revision G''),
      (fl_reserved (th_flags h) = 0, perr ''reserved flags set''),
      (\<not> fl_status_diagnostic (th_flags h) \<or> th_packet_name h = ''STATUS'',
        perr ''status_diagnostic flag is legal only on STATUS packets''),
      (th_packet_name h \<notin> {''PEAKS'', ''DEBUG''}, perr ''reserved-disabled in Revision G''),
      (\<not> (th_packet_name h = ''WRAP'' \<and> \<not> allow_wrap cfg),
        perr ''WRAP is a DDR ring-control record and is not forwarded over UDP''),
      (if exact_length cfg then int (length data) = wire_bytes h
         else wire_bytes h \<le> int (length data),
        perr ''datagram length mismatch''),
      (enforce_udp_limit cfg \<longrightarrow> wire_bytes h \<le> UDP_NO_FRAGMENT_PAYLOAD_MAX_BYTES,
        perr ''exceeds no-fragment bound'')]"

section \<open>The payloads\<close>

definition unpack_u :: "nat \<Rightarrow> bytes \<Rightarrow> nat \<Rightarrow> int result" where
  "unpack_u n payload off =
     (if off + n \<le> length payload then Inr (get_le payload off n)
      else Inl (Exn StructError ''unpack_from requires a larger buffer''))"

definition payload_offset :: "string \<Rightarrow> string \<Rightarrow> nat" where
  "payload_offset name field = the (map_of (the (map_of PAYLOAD_OFFSETS name)) field)"

definition u16_array :: "bytes \<Rightarrow> nat \<Rightarrow> nat \<Rightarrow> int list result" where
  "u16_array payload off cnt =
     rbind (checks [(off + 2 * cnt \<le> length payload, perr ''payload too short for uint16 array'')])
       (\<lambda>_. Inr (map (\<lambda>i. get_le payload (off + 2 * i) 2) [0..<cnt]))"

definition u8_array :: "bytes \<Rightarrow> nat \<Rightarrow> nat \<Rightarrow> bytes result" where
  "u8_array payload off cnt =
     rbind (checks [(off + cnt \<le> length payload, perr ''payload too short for uint8 array'')])
       (\<lambda>_. Inr (pyslice off cnt payload))"

definition unpack_wave_sample :: "bytes \<Rightarrow> int \<Rightarrow> int \<Rightarrow> nat \<Rightarrow> wave_sample result" where
  "unpack_wave_sample payload sample_base stride idx =
     rbind (struct_unpack_from [2, 2, 2] payload (payload_offset ''WAVE'' ''sample'' + 6 * idx))
       (\<lambda>f. Inr \<lparr> ws_sample_index = sample_base + int idx * stride,
                  ws_xdel = to_signed 16 (f ! 0), ws_yout = to_signed 16 (f ! 1),
                  ws_err = to_signed 16 (f ! 2) \<rparr>)"

definition parse_wave :: "telemetry_header \<Rightarrow> bytes \<Rightarrow> wave_payload result" where
  "parse_wave h payload =
     rbind (unpack_u 8 payload (payload_offset ''WAVE'' ''sample_base'')) (\<lambda>sample_base.
     rbind (unpack_u 2 payload (payload_offset ''WAVE'' ''nsamp'')) (\<lambda>nsamp.
     rbind (unpack_u 2 payload (payload_offset ''WAVE'' ''channels'')) (\<lambda>channels.
     rbind (unpack_u 2 payload (payload_offset ''WAVE'' ''stride'')) (\<lambda>stride.
     rbind (unpack_u 2 payload (payload_offset ''WAVE'' ''reserved'')) (\<lambda>reserved.
     rbind (expected_payload_bytes ''WAVE'' (Some nsamp)) (\<lambda>expected.
     rbind (checks
       [(th_payload_bytes h = expected, perr ''WAVE payload_bytes mismatch''),
        (sample_base = th_timestamp h, perr ''WAVE timestamp must equal sample_base''),
        (channels = 3, perr ''WAVE channels != 3''),
        (stride \<ge> 1, perr ''WAVE stride must be nonzero''),
        (reserved = 0, perr ''WAVE reserved field must be zero'')]) (\<lambda>_.
     rbind (rmapM (unpack_wave_sample payload sample_base stride) [0..<nat nsamp]) (\<lambda>samples.
     Inr \<lparr> wp_sample_base = sample_base, wp_nsamp = nsamp, wp_channels = channels,
           wp_stride = stride, wp_samples = samples \<rparr>))))))))"

definition parse_spec129 :: "telemetry_header \<Rightarrow> bytes \<Rightarrow> spec129_payload result" where
  "parse_spec129 h payload =
     rbind (unpack_u 8 payload (payload_offset ''SPEC129'' ''frame_idx'')) (\<lambda>frame_idx.
     rbind (unpack_u 2 payload (payload_offset ''SPEC129'' ''nbin'')) (\<lambda>nbin.
     rbind (unpack_u 2 payload (payload_offset ''SPEC129'' ''spec_shift'')) (\<lambda>spec_shift.
     rbind (checks
       [(frame_idx = th_timestamp h, perr ''SPEC129 timestamp must equal frame_idx''),
        (nbin = 129, perr ''SPEC129 nbin != 129''),
        (0 \<le> spec_shift \<and> spec_shift \<le> 55, perr ''SPEC129 spec_shift outside 0..55'')]) (\<lambda>_.
     rbind (u16_array payload (payload_offset ''SPEC129'' ''spec129'') 129) (\<lambda>magnitudes.
     rbind (u8_array payload (payload_offset ''SPEC129'' ''mask_bits'') 17) (\<lambda>mask_bytes.
     let bits = map (\<lambda>k. bit (mask_bytes ! (k div 8)) (k mod 8)) [0..<129] in
     rbind (checks [(last mask_bytes AND 0xFE = 0,
                     perr ''SPEC129 unused final mask bits must be zero'')]) (\<lambda>_.
     Inr \<lparr> s129_frame_idx = frame_idx, s129_nbin = nbin, s129_spec_shift = spec_shift,
           s129_magnitudes = magnitudes, s129_mask_bits = bits,
           s129_raw_mask_bytes = mask_bytes \<rparr>)))))))"

definition parse_spec64 :: "telemetry_header \<Rightarrow> bytes \<Rightarrow> spec64_payload result" where
  "parse_spec64 h payload =
     rbind (unpack_u 8 payload (payload_offset ''SPEC64'' ''frame_idx'')) (\<lambda>frame_idx.
     rbind (unpack_u 2 payload (payload_offset ''SPEC64'' ''nbin'')) (\<lambda>nbin.
     rbind (unpack_u 2 payload (payload_offset ''SPEC64'' ''spec_shift'')) (\<lambda>spec_shift.
     rbind (checks
       [(frame_idx = th_timestamp h, perr ''SPEC64 timestamp must equal frame_idx''),
        (nbin = 64, perr ''SPEC64 nbin != 64''),
        (0 \<le> spec_shift \<and> spec_shift \<le> 55, perr ''SPEC64 spec_shift outside 0..55'')]) (\<lambda>_.
     rbind (u16_array payload (payload_offset ''SPEC64'' ''spec64'') 64) (\<lambda>magnitudes.
     rbind (u8_array payload (payload_offset ''SPEC64'' ''suppressed_count'') 64) (\<lambda>suppressed.
     rbind (u8_array payload (payload_offset ''SPEC64'' ''eligible_count'') 64) (\<lambda>eligible.
     Inr \<lparr> s64_frame_idx = frame_idx, s64_nbin = nbin, s64_spec_shift = spec_shift,
           s64_magnitudes = magnitudes, s64_suppressed_count = map uint suppressed,
           s64_eligible_count = map uint eligible \<rparr>)))))))"

definition METRICS_STRUCT :: "nat list" where
  "METRICS_STRUCT = [8, 4, 4, 8, 8, 8, 8, 4, 4]"

definition parse_metrics :: "telemetry_header \<Rightarrow> bytes \<Rightarrow> metrics_payload result" where
  "parse_metrics h payload =
     rbind (checks
       [(metrics_class_count (th_flags h) = 1,
          perr ''METRICS must set exactly one metrics class flag''),
        (\<not> fl_payload_scaled (th_flags h), perr ''METRICS payload_scaled flag must be zero'')]) (\<lambda>_.
     rbind (struct_unpack_from METRICS_STRUCT payload 0) (\<lambda>f.
     Inr \<lparr> mp_frame_idx = f ! 0, mp_eligible_unique_bins = f ! 1,
           mp_eligible_suppressed_bins = f ! 2, mp_eligible_kept_mag2_lo = f ! 3,
           mp_eligible_total_mag2_lo = f ! 4, mp_sum_abs_err_lo = f ! 5, mp_sum_sq_err_lo = f ! 6,
           mp_max_abs_err = f ! 7, mp_overflow_flags = f ! 8 \<rparr>))"

definition STATUS_STRUCT :: "nat list" where
  "STATUS_STRUCT = [8, 8, 4, 4, 4, 4, 4, 4, 4, 4, 4, 4, 4, 4, 4, 4]"

definition parse_status :: "telemetry_header \<Rightarrow> bytes \<Rightarrow> status_payload result" where
  "parse_status h payload =
     rbind (struct_unpack_from STATUS_STRUCT payload 0) (\<lambda>f.
     let decoded =
       \<lparr> sp_sample_count = f ! 0, sp_frame_count = f ! 1, sp_source_mode = f ! 2,
         sp_sample_rate = f ! 3, sp_packet_enable = f ! 4, sp_dma_drop_count = f ! 5,
         sp_udp_send_error_count = f ! 6, sp_malformed_record_count = f ! 7,
         sp_oversized_record_count = f ! 8, sp_command_reject_count = f ! 9,
         sp_sequence_gap_count = f ! 10, sp_overflow_flags = f ! 11, sp_thr2_lo = f ! 12,
         sp_thr2_hi = f ! 13, sp_packet_fifo_drop_count = f ! 14, sp_reserved = f ! 15 \<rparr> in
     rbind (checks
       [(sp_reserved decoded = 0, perr ''STATUS reserved field must be zero''),
        if \<not> fl_status_diagnostic (th_flags h)
        then (th_timestamp h = sp_sample_count decoded,
               perr ''STATUS timestamp must equal sample_count'')
        else (th_seq h = 0, perr ''diagnostic STATUS must use seq=0'')]) (\<lambda>_.
     Inr decoded))"

definition check_payload_rule :: "telemetry_header \<Rightarrow> unit result" where
  "check_payload_rule h =
     (case map_of PAYLOAD_RULES (th_packet_name h) of
        None \<Rightarrow> Inl (Exn KeyError (th_packet_name h))
      | Some (Exact expected) \<Rightarrow>
          checks [(th_payload_bytes h = expected, perr ''payload_bytes mismatch'')]
      | Some (Variable max_b min_b n_max n_min) \<Rightarrow>
          if th_packet_name h = ''WAVE''
          then checks [(min_b \<le> th_payload_bytes h \<and> th_payload_bytes h \<le> max_b,
                        perr ''WAVE payload_bytes outside legal range'')]
          else Inl (perr ''unsupported payload rule'')
      | Some Undefined_in_revision_g \<Rightarrow> Inl (perr ''unsupported payload rule''))"

definition parse_payload :: "telemetry_header \<Rightarrow> bytes \<Rightarrow> telemetry_payload result" where
  "parse_payload h payload =
     rbind (check_payload_rule h) (\<lambda>_.
     if th_packet_name h = ''WAVE'' then rbind (parse_wave h payload) (\<lambda>p. Inr (WavePayload p))
     else if th_packet_name h = ''SPEC129''
       then rbind (parse_spec129 h payload) (\<lambda>p. Inr (Spec129Payload p))
     else if th_packet_name h = ''SPEC64''
       then rbind (parse_spec64 h payload) (\<lambda>p. Inr (Spec64Payload p))
     else if th_packet_name h = ''METRICS''
       then rbind (parse_metrics h payload) (\<lambda>p. Inr (MetricsPayload p))
     else if th_packet_name h = ''STATUS''
       then rbind (parse_status h payload) (\<lambda>p. Inr (StatusPayload p))
     else if th_packet_name h = ''WRAP''
       then rbind (checks [(th_payload_bytes h = 0 \<and> payload = [],
                            perr ''WRAP payload must be empty'')]) (\<lambda>_. Inr WrapPayload)
     else Inl (perr ''no decoder for packet type''))"

section \<open>Datagrams, captures and sequence gaps\<close>

definition parse_datagram :: "parser_config \<Rightarrow> bytes \<Rightarrow> parsed_packet result" where
  "parse_datagram cfg data =
     rbind (parse_header data) (\<lambda>h.
     rbind (validate_header cfg h data) (\<lambda>_.
     let payload_start = nat TELEMETRY_HEADER_BYTES;
         payload_end = payload_start + nat (th_payload_bytes h);
         payload = pyslice payload_start (nat (th_payload_bytes h)) data in
     rbind (parse_payload h payload) (\<lambda>decoded.
     Inr \<lparr> pp_header = h, pp_payload = decoded, pp_raw_payload = payload,
           pp_raw_datagram = (if \<not> exact_length cfg then take payload_end data else data) \<rparr>)))"

definition CAPTURE_MAGIC :: bytes where
  "CAPTURE_MAGIC = [0x54, 0x52, 0x43, 0x50, 0x55, 0x44, 0x50, 0x31]"

definition CAPTURE_RECORD_STRUCT :: "nat list" where
  "CAPTURE_RECORD_STRUCT = [8, 2, 2, 4]"

text \<open>
  One captured datagram: receive time, raw source address, source port, bytes. The generator
  \<^verbatim>\<open>iter_capture_datagrams\<close> decodes the address with UTF-8 and the replacement policy when it yields;
  the model keeps the raw address. A generator that fails after yielding is the list it yielded with the
  exception that ended it.
\<close>

type_synonym capture_record = "int \<times> bytes \<times> int \<times> bytes"

function iter_records :: "bytes \<Rightarrow> capture_record list \<times> exn option" where
  "iter_records stream =
     (let record_header = take 16 stream in
      if record_header = [] then ([], None)
      else if length record_header \<noteq> 16 then ([], Some (perr ''truncated capture record header''))
      else
        let f = unpack_fields CAPTURE_RECORD_STRUCT record_header;
            addr_len = nat (f ! 2); datagram_len = nat (f ! 3);
            rest = drop 16 stream;
            addr_raw = take addr_len rest;
            datagram = take datagram_len (drop addr_len rest) in
        if length addr_raw \<noteq> addr_len then ([], Some (perr ''truncated capture address''))
        else if length datagram \<noteq> datagram_len
        then ([], Some (perr ''truncated capture datagram''))
        else
          case iter_records (drop datagram_len (drop addr_len rest)) of
            (records, err) \<Rightarrow> ((f ! 0, addr_raw, f ! 1, datagram) # records, err))"
  by pat_completeness auto
termination
  by (relation "measure length") auto

declare iter_records.simps [simp del]

definition iter_capture_datagrams :: "bytes \<Rightarrow> capture_record list \<times> exn option" where
  "iter_capture_datagrams source =
     (if take 8 source \<noteq> CAPTURE_MAGIC
      then ([], Some (perr ''capture magic mismatch; expected TRCPUDP1''))
      else iter_records (drop 8 source))"

definition parse_capture :: "bytes \<Rightarrow> parsed_packet list result" where
  "parse_capture source =
     (case iter_capture_datagrams source of (records, err) \<Rightarrow>
        rbind (rmapM (\<lambda>(_, _, _, datagram). parse_datagram default_parser datagram) records)
          (\<lambda>packets. case err of None \<Rightarrow> Inr packets | Some e \<Rightarrow> Inl e))"

fun sequence_gaps_from ::
    "int option \<Rightarrow> parsed_packet list \<Rightarrow> (int \<times> int \<times> int) list" where
  "sequence_gaps_from prev [] = []"
| "sequence_gaps_from prev (p # ps) =
     (if \<not> participates_in_sequence (pp_header p) then sequence_gaps_from prev ps
      else
        let current = th_seq (pp_header p) AND 0xFFFFFFFF in
        (case prev of
           None \<Rightarrow> []
         | Some q \<Rightarrow>
             let expected = (q + 1) AND 0xFFFFFFFF in
             if current \<noteq> expected then [(q, current, (current - expected) AND 0xFFFFFFFF)] else [])
        @ sequence_gaps_from (Some current) ps)"

definition sequence_gaps :: "parsed_packet list \<Rightarrow> (int \<times> int \<times> int) list" where
  "sequence_gaps packets = sequence_gaps_from None packets"

text \<open>The accessors of \<^verbatim>\<open>ParsedPacket\<close> the dashboard and the receiver read, and their per-type counts.\<close>

definition packet_name :: "parsed_packet \<Rightarrow> string" where
  "packet_name p = th_packet_name (pp_header p)"

definition get_count :: "(string \<Rightarrow> int option) \<Rightarrow> string \<Rightarrow> int" where
  "get_count m k = (case m k of None \<Rightarrow> 0 | Some n \<Rightarrow> n)"

definition packet_seq :: "parsed_packet \<Rightarrow> int option" where
  "packet_seq p =
     (if participates_in_sequence (pp_header p) then Some (th_seq (pp_header p)) else None)"

section \<open>Lemmas on the header\<close>

lemmas header_consts =
  TELEMETRY_MAGIC_def TELEMETRY_HEADER_VERSION_def TELEMETRY_HEADER_BYTES_def
  UDP_NO_FRAGMENT_PAYLOAD_MAX_BYTES_def

lemma payload_offset_simps [simp]:
  "payload_offset ''WAVE'' ''sample_base'' = 0"
  "payload_offset ''WAVE'' ''nsamp'' = 8"
  "payload_offset ''WAVE'' ''channels'' = 10"
  "payload_offset ''WAVE'' ''stride'' = 12"
  "payload_offset ''WAVE'' ''reserved'' = 14"
  "payload_offset ''WAVE'' ''sample'' = 16"
  "payload_offset ''SPEC129'' ''frame_idx'' = 0"
  "payload_offset ''SPEC129'' ''nbin'' = 8"
  "payload_offset ''SPEC129'' ''spec_shift'' = 10"
  "payload_offset ''SPEC129'' ''spec129'' = 12"
  "payload_offset ''SPEC129'' ''mask_bits'' = 270"
  "payload_offset ''SPEC64'' ''frame_idx'' = 0"
  "payload_offset ''SPEC64'' ''nbin'' = 8"
  "payload_offset ''SPEC64'' ''spec_shift'' = 10"
  "payload_offset ''SPEC64'' ''spec64'' = 12"
  "payload_offset ''SPEC64'' ''suppressed_count'' = 140"
  "payload_offset ''SPEC64'' ''eligible_count'' = 204"
  by (simp_all add: payload_offset_def PAYLOAD_OFFSETS_def)

lemma sum_list_header_struct [simp]: "sum_list TELEMETRY_HEADER_STRUCT = 32"
  by (simp add: TELEMETRY_HEADER_STRUCT_def)

text \<open>The nine wire fields of a decoded header, in wire order.\<close>

definition header_fields :: "telemetry_header \<Rightarrow> int list" where
  "header_fields h =
     [th_magic h, th_version h, th_header_bytes h, th_packet_type h, th_flags_raw h, th_seq h,
      th_timestamp h, th_payload_bytes h, th_header_crc h]"

lemma nth9_list:
  "length xs = 9 \<Longrightarrow>
     [xs ! 0, xs ! Suc 0, xs ! 2, xs ! 3, xs ! 4, xs ! 5, xs ! 6, xs ! 7, xs ! 8] = xs"
  by (auto simp: numeral_eq_Suc length_Suc_conv)

lemma parse_header_Inr:
  assumes "parse_header data = Inr h"
  shows "32 \<le> length data" and "header_fields h = unpack_fields TELEMETRY_HEADER_STRUCT data"
proof -
  from assms show "32 \<le> length data"
    by (auto simp: parse_header_def TELEMETRY_HEADER_BYTES_def result_simps)
  have "length (unpack_fields TELEMETRY_HEADER_STRUCT data) = 9"
    by (simp add: TELEMETRY_HEADER_STRUCT_def)
  with assms show "header_fields h = unpack_fields TELEMETRY_HEADER_STRUCT data"
    by (auto simp: parse_header_def struct_unpack_from_def header_fields_def nth9_list
        result_simps split: if_splits)
qed

lemma parse_header_Inl: "parse_header data = Inl e \<Longrightarrow> exn_class e = PacketParserError"
  by (auto simp: parse_header_def struct_unpack_from_def TELEMETRY_HEADER_BYTES_def result_simps
      dest!: checks_Inl_mem split: if_splits)

lemma parse_header_bounds:
  assumes "parse_header data = Inr h"
  shows "0 \<le> th_payload_bytes h" and "0 \<le> th_timestamp h" and "0 \<le> th_seq h"
    and "th_seq h < 2 ^ 32"
proof -
  have "fields_fit TELEMETRY_HEADER_STRUCT (header_fields h)"
    using parse_header_Inr [OF assms] by (simp add: unpack_fields_fit)
  then show "0 \<le> th_payload_bytes h" "0 \<le> th_timestamp h" "0 \<le> th_seq h" "th_seq h < 2 ^ 32"
    by (auto simp: TELEMETRY_HEADER_STRUCT_def header_fields_def)
qed

lemma parse_header_repack:
  "parse_header data = Inr h \<Longrightarrow>
     pack_fields TELEMETRY_HEADER_STRUCT (header_fields h) = take 32 data"
  by (simp add: parse_header_Inr(1,2) pack_unpack_fields)

lemma validate_header_Inl:
  "validate_header cfg h data = Inl e \<Longrightarrow> exn_class e = PacketParserError"
  unfolding validate_header_def by (drule checks_Inl_mem) auto

section \<open>Lemmas on the payload decoders\<close>

lemma unpack_u_Inr [result_simps]:
  "unpack_u n p off = Inr v \<longleftrightarrow> off + n \<le> length p \<and> v = get_le p off n"
  by (auto simp: unpack_u_def)

lemma unpack_u_ok: "off + n \<le> length p \<Longrightarrow> unpack_u n p off = Inr (get_le p off n)"
  by (simp add: unpack_u_def)

lemma u16_array_ok:
  "off + 2 * cnt \<le> length p \<Longrightarrow>
     u16_array p off cnt = Inr (map (\<lambda>i. get_le p (off + 2 * i) 2) [0..<cnt])"
  by (simp add: u16_array_def checks.simps)

lemma u8_array_ok: "off + cnt \<le> length p \<Longrightarrow> u8_array p off cnt = Inr (pyslice off cnt p)"
  by (simp add: u8_array_def checks.simps)

text \<open>The i-th sample of a WAVE payload, read at its byte offset.\<close>

definition wave_sample_at :: "bytes \<Rightarrow> int \<Rightarrow> int \<Rightarrow> nat \<Rightarrow> wave_sample" where
  "wave_sample_at p base stride idx =
     \<lparr> ws_sample_index = base + int idx * stride,
       ws_xdel = to_signed 16 (get_le p (16 + 6 * idx) 2),
       ws_yout = to_signed 16 (get_le p (18 + 6 * idx) 2),
       ws_err = to_signed 16 (get_le p (20 + 6 * idx) 2) \<rparr>"

lemma unpack_wave_sample_ok:
  "22 + 6 * idx \<le> length p \<Longrightarrow>
     unpack_wave_sample p base stride idx = Inr (wave_sample_at p base stride idx)"
  by (simp add: unpack_wave_sample_def struct_unpack_from_def wave_sample_at_def get_le_def
      pyslice_def add.commute)

lemma int16_range: "- 32768 \<le> to_signed 16 (get_le b off 2) \<and> to_signed 16 (get_le b off 2) < 32768"
  using to_signed_range [of 16 "get_le b off 2"] get_le_bound [of b off 2] by simp

definition wave_sample_in_range :: "wave_sample \<Rightarrow> bool" where
  "wave_sample_in_range s \<longleftrightarrow> list_all (\<lambda>v. - 32768 \<le> v \<and> v < 32768) [ws_xdel s, ws_yout s, ws_err s]"

lemma wave_sample_at_simps [simp]:
  "ws_sample_index (wave_sample_at p base stride idx) = base + int idx * stride"
  "wave_sample_in_range (wave_sample_at p base stride idx)"
  using int16_range by (auto simp: wave_sample_at_def wave_sample_in_range_def)

lemma expected_wave_Inr:
  "expected_payload_bytes ''WAVE'' (Some n) = Inr b \<longleftrightarrow> 1 \<le> n \<and> n \<le> 192 \<and> b = 16 + 6 * n"
  by (auto simp: expected_payload_bytes_def PAYLOAD_RULES_def)

lemma expected_wave_Inl:
  "expected_payload_bytes ''WAVE'' (Some n) = Inl e \<longleftrightarrow>
     \<not> (1 \<le> n \<and> n \<le> 192) \<and> e = Exn ValueError ''WAVE nsamp out of range''"
  by (auto simp: expected_payload_bytes_def PAYLOAD_RULES_def)

text \<open>The payload length the rule table prescribes for each name.\<close>

lemma check_payload_rule_Inr:
  assumes "check_payload_rule h = Inr ()"
  shows "th_packet_name h = ''WAVE'' \<Longrightarrow> 22 \<le> th_payload_bytes h"
    and "th_packet_name h = ''SPEC129'' \<Longrightarrow> th_payload_bytes h = 287"
    and "th_packet_name h = ''SPEC64'' \<Longrightarrow> th_payload_bytes h = 268"
    and "th_packet_name h = ''METRICS'' \<Longrightarrow> th_payload_bytes h = 56"
    and "th_packet_name h = ''STATUS'' \<Longrightarrow> th_payload_bytes h = 72"
    and "th_packet_name h = ''WRAP'' \<Longrightarrow> th_payload_bytes h = 0"
  using assms by (auto simp: check_payload_rule_def PAYLOAD_RULES_def result_simps)

lemma parse_wave_Inl:
  assumes "parse_wave h p = Inl e" and "22 \<le> length p" and "int (length p) = th_payload_bytes h"
  shows "exn_class e = PacketParserError \<or> e = Exn ValueError ''WAVE nsamp out of range''"
proof -
  let ?n = "get_le p 8 2"
  have samples: "16 + 6 * ?n = th_payload_bytes h \<Longrightarrow>
      rmapM (unpack_wave_sample p base stride) [0..<nat ?n] \<noteq> Inl e'" for base stride e'
  proof
    assume len: "16 + 6 * ?n = th_payload_bytes h"
      and "rmapM (unpack_wave_sample p base stride) [0..<nat ?n] = Inl e'"
    then obtain i where "i < nat ?n" "unpack_wave_sample p base stride i = Inl e'"
      by (auto dest: rmapM_Inl)
    with len assms(3) show False by (simp add: unpack_wave_sample_ok)
  qed
  from assms(1,2) show ?thesis
    by (auto simp: parse_wave_def unpack_u_ok result_simps expected_wave_Inl expected_wave_Inr samples
        dest!: checks_Inl_mem)
qed

lemma parse_spec129_Inl:
  "parse_spec129 h p = Inl e \<Longrightarrow> length p = 287 \<Longrightarrow> exn_class e = PacketParserError"
  by (auto simp: parse_spec129_def unpack_u_ok u16_array_ok u8_array_ok result_simps Let_def
      dest!: checks_Inl_mem)

lemma parse_spec64_Inl:
  "parse_spec64 h p = Inl e \<Longrightarrow> length p = 268 \<Longrightarrow> exn_class e = PacketParserError"
  by (auto simp: parse_spec64_def unpack_u_ok u16_array_ok u8_array_ok result_simps
      dest!: checks_Inl_mem)

lemma parse_metrics_Inl:
  "parse_metrics h p = Inl e \<Longrightarrow> length p = 56 \<Longrightarrow> exn_class e = PacketParserError"
  by (auto simp: parse_metrics_def struct_unpack_from_def METRICS_STRUCT_def result_simps
      dest!: checks_Inl_mem)

lemma parse_status_Inl:
  "parse_status h p = Inl e \<Longrightarrow> length p = 72 \<Longrightarrow> exn_class e = PacketParserError"
  by (auto simp: parse_status_def struct_unpack_from_def STATUS_STRUCT_def result_simps Let_def
      dest!: checks_Inl_mem split: if_splits)

section \<open>What the parser guarantees\<close>

definition payload_matches :: "string \<Rightarrow> telemetry_payload \<Rightarrow> bool" where
  "payload_matches name payload \<longleftrightarrow>
     (case payload of
        WavePayload _ \<Rightarrow> name = ''WAVE'' | Spec129Payload _ \<Rightarrow> name = ''SPEC129''
      | Spec64Payload _ \<Rightarrow> name = ''SPEC64'' | MetricsPayload _ \<Rightarrow> name = ''METRICS''
      | StatusPayload _ \<Rightarrow> name = ''STATUS'' | WrapPayload \<Rightarrow> name = ''WRAP'')"

lemma parse_payload_matches:
  "parse_payload h p = Inr decoded \<Longrightarrow> payload_matches (th_packet_name h) decoded"
  by (auto simp: parse_payload_def payload_matches_def result_simps split: if_splits)

lemma parse_payload_rule: "parse_payload h p = Inr decoded \<Longrightarrow> check_payload_rule h = Inr ()"
  by (auto simp: parse_payload_def result_simps)

lemma parse_payload_Inl:
  assumes "parse_payload h p = Inl e" and "int (length p) = th_payload_bytes h"
    and "th_packet_name h \<noteq> ''UNKNOWN''" and "th_packet_name h \<notin> {''PEAKS'', ''DEBUG''}"
    and name: "th_packet_name h = (case map_of PACKET_TYPE_NAMES (th_packet_type h) of
                 None \<Rightarrow> ''UNKNOWN'' | Some n \<Rightarrow> n)"
  shows "exn_class e = PacketParserError \<or> e = Exn ValueError ''WAVE nsamp out of range''"
proof -
  have names: "th_packet_name h \<in> {''WAVE'', ''SPEC64'', ''SPEC129'', ''METRICS'', ''STATUS'', ''WRAP''}"
    using name assms(3,4)
    by (auto simp: PACKET_TYPE_NAMES_def PACKET_TYPES_def split: if_splits option.splits)
  have rule_err: "check_payload_rule h = Inl e \<Longrightarrow> exn_class e = PacketParserError"
    using names by (auto simp: check_payload_rule_def PAYLOAD_RULES_def dest!: checks_Inl_mem)
  show ?thesis
  proof (cases "check_payload_rule h")
    case (Inl e')
    with assms(1) rule_err show ?thesis by (simp add: parse_payload_def)
  next
    case (Inr u)
    then have "check_payload_rule h = Inr ()" by simp
    note len = check_payload_rule_Inr [OF this]
    have "th_packet_name h = ''WAVE'' \<Longrightarrow> 22 \<le> length p"
      "th_packet_name h = ''SPEC129'' \<Longrightarrow> length p = 287"
      "th_packet_name h = ''SPEC64'' \<Longrightarrow> length p = 268"
      "th_packet_name h = ''METRICS'' \<Longrightarrow> length p = 56"
      "th_packet_name h = ''STATUS'' \<Longrightarrow> length p = 72"
      using len assms(2) by linarith+
    with names Inr assms(1,2) show ?thesis
      by (auto simp: parse_payload_def result_simps split: if_splits dest!: checks_Inl_mem
          dest: parse_wave_Inl parse_spec129_Inl parse_spec64_Inl parse_metrics_Inl parse_status_Inl)
  qed
qed

lemma parse_header_name:
  "parse_header data = Inr h \<Longrightarrow>
     th_packet_name h = (case map_of PACKET_TYPE_NAMES (th_packet_type h) of
       None \<Rightarrow> ''UNKNOWN'' | Some n \<Rightarrow> n) \<and>
     th_flags h = flags_from_raw (th_flags_raw h)"
  by (auto simp: parse_header_def result_simps)

text \<open>The slice that holds the payload is as long as the header says.\<close>

lemma payload_slice_length:
  assumes "parse_header data = Inr h" and "validate_header cfg h data = Inr ()"
  shows "length (pyslice 32 (nat (th_payload_bytes h)) data) = nat (th_payload_bytes h)"
    and "32 + nat (th_payload_bytes h) \<le> length data"
    and "exact_length cfg \<Longrightarrow> length data = 32 + nat (th_payload_bytes h)"
proof -
  have "0 \<le> th_payload_bytes h" using assms(1) by (rule parse_header_bounds)
  moreover have "th_payload_bytes h + 32 \<le> int (length data)"
    "exact_length cfg \<Longrightarrow> int (length data) = th_payload_bytes h + 32"
    using assms(2) by (auto simp: validate_header_def wire_bytes_def header_consts result_simps
        split: if_splits)
  ultimately show "32 + nat (th_payload_bytes h) \<le> length data"
    and "exact_length cfg \<Longrightarrow> length data = 32 + nat (th_payload_bytes h)" by linarith+
  then show "length (pyslice 32 (nat (th_payload_bytes h)) data) = nat (th_payload_bytes h)"
    by (simp add: length_pyslice)
qed


lemma parse_datagram_Inl:
  assumes "parse_datagram cfg data = Inl e"
  shows "exn_class e = PacketParserError \<or> e = Exn ValueError ''WAVE nsamp out of range''"
proof (cases "parse_header data")
  case (Inl e')
  with assms show ?thesis by (auto simp: parse_datagram_def dest: parse_header_Inl)
next
  case (Inr h)
  show ?thesis
  proof (cases "validate_header cfg h data")
    case (Inl e')
    with assms Inr show ?thesis by (auto simp: parse_datagram_def dest: validate_header_Inl)
  next
    case (Inr u)
    then have vh: "validate_header cfg h data = Inr ()" by simp
    have known: "th_packet_name h \<noteq> ''UNKNOWN''" "th_packet_name h \<notin> {''PEAKS'', ''DEBUG''}"
      using vh by (auto simp: validate_header_def result_simps)
    let ?payload = "pyslice 32 (nat (th_payload_bytes h)) data"
    have err: "parse_payload h ?payload = Inl e"
      using assms \<open>parse_header data = Inr h\<close> vh
      by (auto simp: parse_datagram_def TELEMETRY_HEADER_BYTES_def result_simps Let_def)
    have "int (length ?payload) = th_payload_bytes h"
      using payload_slice_length(1) [OF \<open>parse_header data = Inr h\<close> vh]
        parse_header_bounds(1) [OF \<open>parse_header data = Inr h\<close>] by simp
    with err known show ?thesis
      using parse_header_name [OF \<open>parse_header data = Inr h\<close>]
        parse_payload_Inl [of h ?payload e] by simp
  qed
qed

text \<open>
  C14: only \<^verbatim>\<open>PacketParserError\<close> leaves the parser, with one exception: a WAVE record whose sample
  count is outside 1..192 escapes as a plain \<^verbatim>\<open>ValueError\<close>, raised by the generated
  \<^verbatim>\<open>expected_payload_bytes\<close>. No \<^verbatim>\<open>struct.error\<close>, \<^verbatim>\<open>KeyError\<close> or \<^verbatim>\<open>IndexError\<close> is possible on any
  byte string.
\<close>

theorem parse_datagram_errors:
  assumes "parse_datagram cfg data = Inl e"
  shows "exn_class e = PacketParserError \<or> e = Exn ValueError ''WAVE nsamp out of range''"
  using assms by (rule parse_datagram_Inl)

text \<open>Every field of an accepted WAVE payload, in terms of the payload bytes.\<close>

lemma parse_wave_Inr:
  assumes "parse_wave h payload = Inr w" and "int (length payload) = th_payload_bytes h"
  shows "1 \<le> wp_nsamp w" "wp_nsamp w \<le> 192" "wp_channels w = 3" "1 \<le> wp_stride w"
    "wp_sample_base w = th_timestamp h" "th_payload_bytes h = 16 + 6 * wp_nsamp w"
    "wp_samples w =
       map (wave_sample_at payload (wp_sample_base w) (wp_stride w)) [0..<nat (wp_nsamp w)]"
proof -
  from assms(1) obtain samples where
    n: "1 \<le> wp_nsamp w" "wp_nsamp w \<le> 192" "th_payload_bytes h = 16 + 6 * wp_nsamp w" and
    c: "wp_channels w = 3" "1 \<le> wp_stride w" "wp_sample_base w = th_timestamp h" and
    s: "rmapM (unpack_wave_sample payload (wp_sample_base w) (wp_stride w)) [0..<nat (wp_nsamp w)] =
          Inr samples" "wp_samples w = samples"
    by (auto simp: parse_wave_def expected_wave_Inr rbind_Inr_iff unpack_u_Inr checks_Inr_iff)
  then show "1 \<le> wp_nsamp w" "wp_nsamp w \<le> 192" "wp_channels w = 3" "1 \<le> wp_stride w"
    "wp_sample_base w = th_timestamp h" "th_payload_bytes h = 16 + 6 * wp_nsamp w" by auto
  have "rmapM (unpack_wave_sample payload (wp_sample_base w) (wp_stride w)) [0..<nat (wp_nsamp w)] =
      Inr (map (wave_sample_at payload (wp_sample_base w) (wp_stride w)) [0..<nat (wp_nsamp w)])"
    using n(3) assms(2) by (intro rmapM_Inr_map unpack_wave_sample_ok) auto
  with s show "wp_samples w =
      map (wave_sample_at payload (wp_sample_base w) (wp_stride w)) [0..<nat (wp_nsamp w)]" by simp
qed

lemma parse_datagram_wave:
  assumes "parse_datagram cfg data = Inr p" and "pp_payload p = WavePayload w"
  shows "parse_wave (pp_header p) (pp_raw_payload p) = Inr w"
  using assms
  by (auto simp: parse_datagram_def parse_payload_def result_simps Let_def split: if_splits)

lemma parse_datagram_payload_length:
  assumes "parse_datagram cfg data = Inr p"
  shows "int (length (pp_raw_payload p)) = th_payload_bytes (pp_header p)"
proof -
  from assms obtain h where ph: "parse_header data = Inr h" and
    vh: "validate_header cfg h data = Inr ()" and "pp_header p = h"
    and "pp_raw_payload p = pyslice 32 (nat (th_payload_bytes h)) data"
    by (auto simp: parse_datagram_def TELEMETRY_HEADER_BYTES_def result_simps Let_def)
  then show ?thesis
    using payload_slice_length(1) [OF ph vh] parse_header_bounds(1) [OF ph] by simp
qed

text \<open>
  The WAVE decoder. An accepted WAVE datagram carries between 1 and 192 samples, exactly as many as
  the decoded tuple holds; the i-th sample is stamped with the sample index \<open>sample_base + i * stride\<close>,
  the base equals the header timestamp, indices increase strictly, and the three channels of every
  sample are signed 16-bit values.
\<close>

theorem wave_samples_decoded:
  assumes "parse_datagram cfg data = Inr p" and "pp_payload p = WavePayload w"
  shows "1 \<le> wp_nsamp w \<and> wp_nsamp w \<le> 192 \<and> int (length (wp_samples w)) = wp_nsamp w \<and>
    wp_sample_base w = th_timestamp (pp_header p) \<and>
    map ws_sample_index (wp_samples w) =
      map (\<lambda>i. wp_sample_base w + int i * wp_stride w) [0..<length (wp_samples w)] \<and>
    sorted_wrt (<) (map ws_sample_index (wp_samples w)) \<and>
    list_all wave_sample_in_range (wp_samples w)"
proof -
  note w = parse_wave_Inr [OF parse_datagram_wave [OF assms] parse_datagram_payload_length [OF assms(1)]]
  have sorted: "sorted_wrt (<) (map (\<lambda>i. wp_sample_base w + int i * wp_stride w) [0..<k])" for k
    using w(4) by (simp add: sorted_wrt_map sorted_wrt_iff_nth_less)
  have index: "map ws_sample_index (wp_samples w) =
      map (\<lambda>i. wp_sample_base w + int i * wp_stride w) [0..<length (wp_samples w)]"
    by (simp add: w(7))
  have "list_all wave_sample_in_range (wp_samples w)" "int (length (wp_samples w)) = wp_nsamp w"
    using w(1) by (auto simp: w(7) list_all_iff)
  with w(1,2,5) index sorted show ?thesis by simp
qed

section \<open>A packet for the witnesses of the consumers\<close>

definition example_packet :: "int \<Rightarrow> parsed_packet" where
  "example_packet seq =
     \<lparr> pp_header =
         \<lparr> th_magic = TELEMETRY_MAGIC, th_version = 1, th_header_bytes = 32, th_packet_type = 1,
           th_flags_raw = 0, th_seq = seq, th_timestamp = 100, th_payload_bytes = 22,
           th_header_crc = 0, th_packet_name = ''WAVE'', th_flags = flags_from_raw 0 \<rparr>,
       pp_payload = WavePayload
         \<lparr> wp_sample_base = 100, wp_nsamp = 1, wp_channels = 3, wp_stride = 1,
           wp_samples = [\<lparr> ws_sample_index = 100, ws_xdel = 1, ws_yout = 2, ws_err = -1 \<rparr>] \<rparr>,
       pp_raw_payload = [], pp_raw_datagram = [] \<rparr>"

lemma example_packet_participates: "participates_in_sequence (pp_header (example_packet q))"
  by (simp add: example_packet_def participates_in_sequence_def is_wrap_def is_status_diagnostic_def)

end
