(* ===== verification/Py_Strings.thy ===== *)
theory Py_Strings
  imports Prelude
begin

text \<open>
  The string methods of Python's standard library that the modelled sources call, on strings of
  8-bit characters. Case mapping acts on ASCII letters, the only ones the sources' tables contain.
  The lemmas are the laws the components use: what \<open>splitlines\<close> does to text built from lines,
  and the round trip of fixed-width hexadecimal.
\<close>

section \<open>Characters\<close>

definition code :: "char \<Rightarrow> nat" where
  "code c = of_char c"

definition py_isspace :: "char \<Rightarrow> bool" where
  "py_isspace c \<longleftrightarrow> code c \<in> {9, 10, 11, 12, 13, 28, 29, 30, 31, 32, 133, 160}"

definition py_isdigit :: "char \<Rightarrow> bool" where
  "py_isdigit c \<longleftrightarrow> 48 \<le> code c \<and> code c \<le> 57"

definition upper_char :: "char \<Rightarrow> char" where
  "upper_char c = (if 97 \<le> code c \<and> code c \<le> 122 then char_of (code c - 32) else c)"

definition lower_char :: "char \<Rightarrow> char" where
  "lower_char c = (if 65 \<le> code c \<and> code c \<le> 90 then char_of (code c + 32) else c)"

section \<open>Methods of \<^verbatim>\<open>str\<close>\<close>

definition py_strip :: "string \<Rightarrow> string" where
  "py_strip s = rev (dropWhile py_isspace (rev (dropWhile py_isspace s)))"

definition py_upper :: "string \<Rightarrow> string" where
  "py_upper = map upper_char"

definition py_lower :: "string \<Rightarrow> string" where
  "py_lower = map lower_char"

definition py_replace_char :: "char \<Rightarrow> char \<Rightarrow> string \<Rightarrow> string" where
  "py_replace_char a b = map (\<lambda>c. if c = a then b else c)"

definition py_count_char :: "char \<Rightarrow> string \<Rightarrow> nat" where
  "py_count_char a s = length (filter ((=) a) s)"

text \<open>\<^verbatim>\<open>s.rsplit(c, 1)\<close> of a string that contains \<open>c\<close>: what precedes and what follows its last occurrence.\<close>

definition py_rsplit1 :: "char \<Rightarrow> string \<Rightarrow> string \<times> string" where
  "py_rsplit1 a s =
     (rev (tl (dropWhile (\<lambda>c. c \<noteq> a) (rev s))), rev (takeWhile (\<lambda>c. c \<noteq> a) (rev s)))"

text \<open>\<^verbatim>\<open>s.split()\<close>: the maximal runs of non-space characters.\<close>

function py_split :: "string \<Rightarrow> string list" where
  "py_split s =
     (case dropWhile py_isspace s of
        [] \<Rightarrow> []
      | c # cs \<Rightarrow>
          (c # takeWhile (\<lambda>x. \<not> py_isspace x) cs) # py_split (dropWhile (\<lambda>x. \<not> py_isspace x) cs))"
  by pat_completeness auto
termination
proof (relation "measure length")
  fix s :: string and c cs
  assume "dropWhile py_isspace s = c # cs"
  then have "Suc (length cs) \<le> length s"
    using length_dropWhile_le [of py_isspace s] by simp
  then show "(dropWhile (\<lambda>x. \<not> py_isspace x) cs, s) \<in> measure length"
    using length_dropWhile_le [of "\<lambda>x. \<not> py_isspace x" cs] by simp
qed simp

declare py_split.simps [simp del]

text \<open>Line boundaries of \<^verbatim>\<open>str.splitlines\<close>; a carriage return swallows a following line feed.\<close>

definition is_line_end :: "char \<Rightarrow> bool" where
  "is_line_end c \<longleftrightarrow> code c \<in> {10, 11, 12, 13, 28, 29, 30, 133}"

fun splitlines_acc :: "string \<Rightarrow> string \<Rightarrow> string list" where
  "splitlines_acc cur [] = (if cur = [] then [] else [rev cur])"
| "splitlines_acc cur (c # cs) =
     (if is_line_end c
      then rev cur #
        (case cs of
           [] \<Rightarrow> []
         | d # ds \<Rightarrow> if code c = 13 \<and> code d = 10 then splitlines_acc [] ds
                    else splitlines_acc [] (d # ds))
      else splitlines_acc (c # cur) cs)"

definition py_splitlines :: "string \<Rightarrow> string list" where
  "py_splitlines s = splitlines_acc [] s"

section \<open>Integers as text\<close>

definition digit_value :: "char \<Rightarrow> nat option" where
  "digit_value c =
     (if py_isdigit c then Some (code c - 48)
      else if 97 \<le> code c \<and> code c \<le> 122 then Some (code c - 87)
      else if 65 \<le> code c \<and> code c \<le> 90 then Some (code c - 55)
      else None)"

text \<open>
  The digit part of \<^verbatim>\<open>int(text, base)\<close>: digits below the base, single underscores between digits.
  \<open>prev\<close> says whether the previous character was a digit.
\<close>

fun int_digits :: "nat \<Rightarrow> bool \<Rightarrow> int \<Rightarrow> string \<Rightarrow> int option" where
  "int_digits base prev acc [] = (if prev then Some acc else None)"
| "int_digits base prev acc (c # cs) =
     (if c = CHR ''_'' then (if prev then int_digits base False acc cs else None)
      else case digit_value c of
             None \<Rightarrow> None
           | Some d \<Rightarrow> if d < base then int_digits base True (acc * int base + int d) cs else None)"

definition py_int10 :: "string \<Rightarrow> int option" where
  "py_int10 text =
     (case py_strip text of
        [] \<Rightarrow> None
      | c # cs \<Rightarrow>
          if c = CHR ''-'' then map_option uminus (int_digits 10 False 0 cs)
          else if c = CHR ''+'' then int_digits 10 False 0 cs
          else int_digits 10 False 0 (c # cs))"

text \<open>\<^verbatim>\<open>str(n)\<close> of an integer.\<close>

fun nat_str :: "nat \<Rightarrow> string" where
  "nat_str n = (if n < 10 then [char_of (48 + n)] else nat_str (n div 10) @ [char_of (48 + n mod 10)])"

declare nat_str.simps [simp del]

definition py_str_int :: "int \<Rightarrow> string" where
  "py_str_int v = (if v < 0 then CHR ''-'' # nat_str (nat (- v)) else nat_str (nat v))"

definition hex_char :: "nat \<Rightarrow> char" where
  "hex_char d = (if d < 10 then char_of (48 + d) else char_of (87 + d))"

text \<open>\<^verbatim>\<open>f"{v:0{n}x}"\<close> of a non-negative \<open>v\<close> below \<open>16 ^ n\<close>: exactly \<open>n\<close> lowercase digits.\<close>

fun hex_fixed :: "nat \<Rightarrow> int \<Rightarrow> string" where
  "hex_fixed 0 v = []"
| "hex_fixed (Suc n) v = hex_fixed n (v div 16) @ [hex_char (nat (v mod 16))]"

definition hex_value :: "string \<Rightarrow> int" where
  "hex_value s = foldl (\<lambda>acc c. acc * 16 + int (the (digit_value c))) 0 s"

definition is_lower_hex :: "char \<Rightarrow> bool" where
  "is_lower_hex c \<longleftrightarrow> py_isdigit c \<or> (97 \<le> code c \<and> code c \<le> 102)"

section \<open>Laws\<close>

lemma code_char_of [simp]: "n < 256 \<Longrightarrow> code (char_of n) = n"
  by (simp add: code_def)

lemma length_hex_fixed [simp]: "length (hex_fixed n v) = n"
  by (induction n arbitrary: v) auto

lemma hex_char_props:
  assumes "d < 16"
  shows "is_lower_hex (hex_char d)" "digit_value (hex_char d) = Some d"
  using assms by (auto simp: hex_char_def is_lower_hex_def py_isdigit_def digit_value_def)

lemma hex_fixed_lower: "0 \<le> v \<Longrightarrow> list_all is_lower_hex (hex_fixed n v)"
  by (induction n arbitrary: v) (auto simp: hex_char_props nat_less_iff pos_imp_zdiv_nonneg_iff)

lemma hex_value_snoc: "hex_value (s @ [c]) = hex_value s * 16 + int (the (digit_value c))"
  by (simp add: hex_value_def)

lemma hex_value_fixed: "0 \<le> v \<Longrightarrow> v < 16 ^ n \<Longrightarrow> hex_value (hex_fixed n v) = v"
proof (induction n arbitrary: v)
  case 0
  then show ?case by (simp add: hex_value_def)
next
  case (Suc n)
  then have "v div 16 < 16 ^ n" "0 \<le> v div 16" by (simp_all add: div_less_iff_less_mult mult.commute)
  with Suc.IH have "hex_value (hex_fixed n (v div 16)) = v div 16" by simp
  moreover have "nat (v mod 16) < 16" by (simp add: nat_less_iff)
  ultimately show ?case by (simp add: hex_value_snoc hex_char_props)
qed

lemma lower_hex_value: "is_lower_hex c \<Longrightarrow> \<exists>d < 16. digit_value c = Some d \<and> hex_char d = c"
proof -
  assume "is_lower_hex c"
  then consider "48 \<le> code c \<and> code c \<le> 57" | "97 \<le> code c \<and> code c \<le> 102"
    by (auto simp: is_lower_hex_def py_isdigit_def)
  then show ?thesis
  proof cases
    case 1
    then show ?thesis
      by (intro exI [of _ "code c - 48"]) (auto simp: digit_value_def py_isdigit_def hex_char_def code_def)
  next
    case 2
    then show ?thesis
      by (intro exI [of _ "code c - 87"]) (auto simp: digit_value_def py_isdigit_def hex_char_def code_def)
  qed
qed

lemma hex_value_bounds:
  "list_all is_lower_hex s \<Longrightarrow> 0 \<le> hex_value s \<and> hex_value s < 16 ^ length s"
proof (induction s rule: rev_induct)
  case Nil
  then show ?case by (simp add: hex_value_def)
next
  case (snoc c s)
  then obtain d where "d < 16" "digit_value c = Some d" using lower_hex_value [of c] by auto
  with snoc show ?case by (auto simp: hex_value_snoc)
qed

lemma hex_fixed_value: "list_all is_lower_hex s \<Longrightarrow> hex_fixed (length s) (hex_value s) = s"
proof (induction s rule: rev_induct)
  case Nil
  then show ?case by simp
next
  case (snoc c s)
  then obtain d where d: "d < 16" "digit_value c = Some d" "hex_char d = c"
    using lower_hex_value [of c] by auto
  have "(hex_value s * 16 + int d) div 16 = hex_value s" "(hex_value s * 16 + int d) mod 16 = int d"
    using d(1) by simp_all
  with snoc d show ?case by (simp add: hex_value_snoc)
qed

text \<open>For lowercase hexadecimal, \<^verbatim>\<open>int(token, 16)\<close> is the positional value.\<close>

lemma int_digits_hex:
  assumes "list_all is_lower_hex s"
  shows "int_digits 16 p acc s =
    (if s = [] \<and> \<not> p then None else Some (foldl (\<lambda>a c. a * 16 + int (the (digit_value c))) acc s))"
  using assms
proof (induction s arbitrary: p acc)
  case (Cons c cs)
  then obtain d where "d < 16" "digit_value c = Some d" using lower_hex_value [of c] by auto
  moreover have "c \<noteq> CHR ''_''"
    using Cons.prems by (auto simp: is_lower_hex_def py_isdigit_def code_def)
  ultimately show ?case using Cons by simp
qed simp

text \<open>Splitting text made of complete lines gives back the lines.\<close>

lemma splitlines_acc_line:
  "list_all (\<lambda>c. \<not> is_line_end c) line \<Longrightarrow>
   splitlines_acc cur (line @ CHR 0x0A # rest) = (rev cur @ line) # splitlines_acc [] rest"
proof (induction line arbitrary: cur)
  case Nil
  show ?case by (cases rest) (simp_all add: is_line_end_def code_def)
next
  case (Cons c cs)
  then show ?case by simp
qed

lemma splitlines_lines:
  "list_all (list_all (\<lambda>c. \<not> is_line_end c)) lines \<Longrightarrow>
   py_splitlines (concat (map (\<lambda>l. l @ [CHR 0x0A]) lines)) = lines"
  by (induction lines) (simp_all add: py_splitlines_def splitlines_acc_line)

lemma lower_hex_no_line_end: "is_lower_hex c \<Longrightarrow> \<not> is_line_end c"
  by (auto simp: is_lower_hex_def py_isdigit_def is_line_end_def)

end
