(* ===== verification/Wire_Validator.thy ===== *)
theory Wire_Validator
  imports Packet_Parser Py_Strings
begin

text \<open>
  The telemetry validator of the bring-up receiver, \<^verbatim>\<open>TelemetryValidator\<close> of \<^verbatim>\<open>scripts/bringup/smoke_udp_recv.py\<close>,
  with the helpers that \<^verbatim>\<open>parse_telemetry_capture.py\<close> repeats. The validator collects error messages instead of
  raising; a payload report is the messages, the decoded fields and the exception that ended decoding, if any. The
  warnings list, which nothing fills, is left out. The validator is compared with the strict parser of the dashboard.
\<close>

section \<open>The header\<close>

record wire_header =
  wh_magic :: int
  wh_version :: int
  wh_header_bytes :: int
  wh_packet_type :: int
  wh_flags :: int
  wh_seq :: int
  wh_timestamp :: int
  wh_payload_bytes :: int
  wh_header_crc :: int

definition parse_wire_header :: "bytes \<Rightarrow> wire_header option" where
  "parse_wire_header data =
     (if int (length data) < TELEMETRY_HEADER_BYTES then None
      else
        let f = unpack_fields TELEMETRY_HEADER_STRUCT data in
        Some \<lparr> wh_magic = f ! 0, wh_version = f ! 1, wh_header_bytes = f ! 2, wh_packet_type = f ! 3, wh_flags = f ! 4,
               wh_seq = f ! 5, wh_timestamp = f ! 6, wh_payload_bytes = f ! 7, wh_header_crc = f ! 8 \<rparr>)"

definition wire_name :: "wire_header \<Rightarrow> string" where
  "wire_name h = (case map_of PACKET_TYPE_NAMES (wh_packet_type h) of None \<Rightarrow> ''UNKNOWN'' | Some name \<Rightarrow> name)"

definition wire_flag :: "wire_header \<Rightarrow> string \<Rightarrow> int \<Rightarrow> bool" where
  "wire_flag h name dflt \<longleftrightarrow> wh_flags h AND flag_mask name dflt \<noteq> 0"

abbreviation diagnostic :: "wire_header \<Rightarrow> bool" where
  "diagnostic h \<equiv> wire_flag h ''status_diagnostic'' 0x0020"

text \<open>A run of \<^verbatim>\<open>if not c: errors.append(m)\<close> statements.\<close>

definition fails :: "(bool \<times> string) list \<Rightarrow> string list" where
  "fails cs = map snd (filter (\<lambda>(c, _). \<not> c) cs)"

definition header_checks :: "wire_header \<Rightarrow> (bool \<times> string) list" where
  "header_checks h =
     [(wh_magic h = TELEMETRY_MAGIC, ''bad magic 0x'' @ hex_fixed 8 (wh_magic h)),
      (wh_version h = TELEMETRY_HEADER_VERSION, ''unsupported header version '' @ py_str_int (wh_version h)),
      (wh_header_bytes h = TELEMETRY_HEADER_BYTES, ''bad header_bytes '' @ py_str_int (wh_header_bytes h)),
      (wire_name h \<noteq> ''UNKNOWN'', ''unknown packet type 0x'' @ hex_fixed 4 (wh_packet_type h)),
      (\<not> wire_flag h ''reserved_15_6'' 0xFFC0,
        ''reserved flags set 0x'' @ hex_fixed 4 (wh_flags h AND flag_mask ''reserved_15_6'' 0xFFC0)),
      (\<not> wire_flag h ''crc_enabled'' 0x0010, ''crc_enabled flag set in Revision G''),
      (wh_header_crc h = 0, ''nonzero header_crc 0x'' @ hex_fixed 8 (wh_header_crc h)),
      (\<not> (diagnostic h \<and> wire_name h \<noteq> ''STATUS''), ''status_diagnostic flag set on non-STATUS packet'')]"

section \<open>The payload\<close>

datatype dvalue = DInt int | DBool bool

type_synonym decoded = "(string \<times> dvalue) list"
type_synonym report = "string list \<times> decoded \<times> exn option"

text \<open>The payload rule; \<open>ne\<close> is the text between the two numbers of a mismatch.\<close>

definition rule_errors :: "string \<Rightarrow> string \<Rightarrow> wire_header \<Rightarrow> string list" where
  "rule_errors ne name h =
     (case map_of PAYLOAD_RULES name of
        Some (Exact expected) \<Rightarrow>
          fails [(wh_payload_bytes h = expected,
                  name @ '' payload_bytes '' @ py_str_int (wh_payload_bytes h) @ ne @ py_str_int expected)]
      | Some (Variable max_b min_b _ _) \<Rightarrow>
          if name = ''WAVE''
          then fails [(\<not> (wh_payload_bytes h < min_b \<or> wh_payload_bytes h > max_b),
                       ''WAVE payload_bytes '' @ py_str_int (wh_payload_bytes h) @ '' outside legal range'')]
          else [name @ '' has unsupported payload rule variable'']
      | Some Undefined_in_revision_g \<Rightarrow> [name @ '' is reserved-disabled in Revision G'']
      | None \<Rightarrow> [name @ '' has unsupported payload rule undefined''])"

definition unpack_wave :: "bytes \<Rightarrow> (int \<times> int \<times> int \<times> int \<times> int) result" where
  "unpack_wave p =
     rbind (unpack_u 8 p (payload_offset ''WAVE'' ''sample_base'')) (\<lambda>sample_base.
     rbind (unpack_u 2 p (payload_offset ''WAVE'' ''nsamp'')) (\<lambda>nsamp.
     rbind (unpack_u 2 p (payload_offset ''WAVE'' ''channels'')) (\<lambda>channels.
     rbind (unpack_u 2 p (payload_offset ''WAVE'' ''stride'')) (\<lambda>stride.
     rbind (unpack_u 2 p (payload_offset ''WAVE'' ''reserved'')) (\<lambda>reserved.
     Inr (sample_base, nsamp, channels, stride, reserved))))))"

definition unpack_spec :: "string \<Rightarrow> bytes \<Rightarrow> (int \<times> int \<times> int) result" where
  "unpack_spec name p =
     rbind (unpack_u 8 p (payload_offset name ''frame_idx'')) (\<lambda>frame_idx.
     rbind (unpack_u 2 p (payload_offset name ''nbin'')) (\<lambda>nbin.
     rbind (unpack_u 2 p (payload_offset name ''spec_shift'')) (\<lambda>spec_shift.
     Inr (frame_idx, nbin, spec_shift))))"

definition WAVE_NSAMP_MAX :: int where
  "WAVE_NSAMP_MAX = nsamp_max (the (map_of PAYLOAD_RULES ''WAVE''))"

definition smoke_wave :: "wire_header \<Rightarrow> bytes \<Rightarrow> report" where
  "smoke_wave h p =
     (case unpack_wave p of
        Inl e \<Rightarrow> ([], [], Some e)
      | Inr (sample_base, nsamp, channels, stride, reserved) \<Rightarrow>
          (fails
            [(sample_base = wh_timestamp h, ''WAVE timestamp does not equal sample_base''),
             (channels = 3, ''WAVE channels '' @ py_str_int channels @ '' != 3''),
             (\<not> (nsamp < 1 \<or> nsamp > WAVE_NSAMP_MAX), ''WAVE nsamp '' @ py_str_int nsamp @ '' outside legal range''),
             (\<not> stride < 1, ''WAVE stride must be >= 1''),
             (reserved = 0, ''WAVE reserved field is nonzero''),
             (wh_payload_bytes h = 16 + 6 * nsamp, ''WAVE payload_bytes does not equal 16 + 6*nsamp'')],
           [(''sample_base'', DInt sample_base), (''nsamp'', DInt nsamp), (''channels'', DInt channels),
            (''stride'', DInt stride)], None))"

definition mask_byte_index :: nat where
  "mask_byte_index = payload_offset ''SPEC129'' ''mask_bits'' + 16"

definition smoke_spec129 :: "wire_header \<Rightarrow> bytes \<Rightarrow> report" where
  "smoke_spec129 h p =
     (case unpack_spec ''SPEC129'' p of
        Inl e \<Rightarrow> ([], [], Some e)
      | Inr (frame_idx, nbin, spec_shift) \<Rightarrow>
          let decoded = [(''frame_idx'', DInt frame_idx), (''nbin'', DInt nbin), (''spec_shift'', DInt spec_shift)];
              errors = fails
                [(frame_idx = wh_timestamp h, ''SPEC129 timestamp does not equal frame_idx''),
                 (nbin = 129, ''SPEC129 nbin '' @ py_str_int nbin @ '' != 129'')] in
          if mask_byte_index < length p
          then (errors @ fails [(p ! mask_byte_index AND 0xFE = 0, ''SPEC129 unused mask bits are nonzero'')], decoded, None)
          else (errors, decoded, Some (Exn IndexError ''index out of range'')))"

definition smoke_spec64 :: "wire_header \<Rightarrow> bytes \<Rightarrow> report" where
  "smoke_spec64 h p =
     (case unpack_spec ''SPEC64'' p of
        Inl e \<Rightarrow> ([], [], Some e)
      | Inr (frame_idx, nbin, spec_shift) \<Rightarrow>
          (fails
            [(frame_idx = wh_timestamp h, ''SPEC64 timestamp does not equal frame_idx''),
             (nbin = 64, ''SPEC64 nbin '' @ py_str_int nbin @ '' != 64'')],
           [(''frame_idx'', DInt frame_idx), (''nbin'', DInt nbin), (''spec_shift'', DInt spec_shift)], None))"

definition smoke_metrics :: "wire_header \<Rightarrow> report" where
  "smoke_metrics h =
     (let aggregate = wire_flag h ''aggregate_metrics'' 0x0004; per_frame = wire_flag h ''per_frame_metrics'' 0x0008 in
      (fails
        [(aggregate \<noteq> per_frame, ''METRICS requires exactly one of aggregate/per_frame flags''),
         (\<not> wire_flag h ''payload_scaled'' 0x0002, ''METRICS payload_scaled must be zero in Revision G'')],
       [(''aggregate_metrics'', DBool aggregate), (''per_frame_metrics'', DBool per_frame)], None))"

definition smoke_status :: "wire_header \<Rightarrow> bytes \<Rightarrow> report" where
  "smoke_status h p =
     (case
        rbind (unpack_u 8 p (payload_offset ''STATUS'' ''sample_count'')) (\<lambda>sample_count.
        rbind (unpack_u 8 p (payload_offset ''STATUS'' ''frame_count'')) (\<lambda>frame_count.
        rbind (unpack_u 4 p (payload_offset ''STATUS'' ''dma_drop_count'')) (\<lambda>dma_drop.
        rbind (unpack_u 4 p (payload_offset ''STATUS'' ''packet_fifo_drop_count'')) (\<lambda>packet_fifo_drop.
        rbind (unpack_u 4 p (payload_offset ''STATUS'' ''reserved'')) (\<lambda>reserved.
        Inr (sample_count, frame_count, dma_drop, packet_fifo_drop, reserved))))))
      of
        Inl e \<Rightarrow> ([], [], Some e)
      | Inr (sample_count, frame_count, dma_drop, packet_fifo_drop, reserved) \<Rightarrow>
          (fails
            [(\<not> (\<not> diagnostic h \<and> sample_count \<noteq> wh_timestamp h), ''STATUS timestamp does not equal sample_count''),
             (reserved = 0, ''STATUS reserved field is nonzero'')],
           [(''sample_count'', DInt sample_count), (''frame_count'', DInt frame_count), (''dma_drop_count'', DInt dma_drop),
            (''packet_fifo_drop_count'', DInt packet_fifo_drop)], None))"

definition smoke_report :: "bool \<Rightarrow> string \<Rightarrow> wire_header \<Rightarrow> bytes \<Rightarrow> report" where
  "smoke_report ddr_record name h p =
     (if name = ''WAVE'' then smoke_wave h p
      else if name = ''SPEC129'' then smoke_spec129 h p
      else if name = ''SPEC64'' then smoke_spec64 h p
      else if name = ''METRICS'' then smoke_metrics h
      else if name = ''STATUS'' then smoke_status h p
      else if name = ''WRAP''
      then (fails [(ddr_record, ''WRAP record was forwarded over UDP; Revision G says it is not forwarded'')], [], None)
      else ([], [], None))"

text \<open>An exception of a class in \<open>caught\<close> becomes a message, any other leaves the validator.\<close>

definition settle :: "exn_class set \<Rightarrow> string list \<Rightarrow> report \<Rightarrow> (string list \<times> decoded) result" where
  "settle caught errors r =
     (case r of
        (errs, decoded, None) \<Rightarrow> Inr (errors @ errs, decoded)
      | (errs, decoded, Some e) \<Rightarrow>
          if exn_class e \<in> caught then Inr (errors @ errs @ [''payload decode failed: '' @ exn_msg e], decoded) else Inl e)"

definition smoke_validate_payload :: "bool \<Rightarrow> string \<Rightarrow> wire_header \<Rightarrow> bytes \<Rightarrow> (string list \<times> decoded) result" where
  "smoke_validate_payload ddr_record name h p =
     (let errors = rule_errors '' != expected '' name h in
      if int (length p) < wh_payload_bytes h then Inr (errors, [])
      else settle {StructError} errors (smoke_report ddr_record name h p))"

section \<open>Datagrams\<close>

record packet_validation =
  pv_ok :: bool
  pv_packet_name :: string
  pv_header :: "wire_header option"
  pv_errors :: "string list"
  pv_decoded :: decoded
  pv_participates :: bool

definition participates :: "wire_header \<Rightarrow> bool" where
  "participates h \<longleftrightarrow> wire_name h \<notin> {''WRAP'', ''UNKNOWN''} \<and> \<not> (wire_name h = ''STATUS'' \<and> diagnostic h)"

definition wire_payload :: "wire_header \<Rightarrow> bytes \<Rightarrow> bytes" where
  "wire_payload h data = pyslice (nat TELEMETRY_HEADER_BYTES) (nat (wh_payload_bytes h)) data"

definition validate_datagram :: "bool \<Rightarrow> bytes \<Rightarrow> packet_validation result" where
  "validate_datagram ddr_record data =
     (case parse_wire_header data of
        None \<Rightarrow>
          Inr \<lparr> pv_ok = False, pv_packet_name = ''UNKNOWN'', pv_header = None,
                pv_errors = [''datagram shorter than telemetry header''], pv_decoded = [], pv_participates = False \<rparr>
      | Some h \<Rightarrow>
          let name = wire_name h; expected_wire_len = TELEMETRY_HEADER_BYTES + wh_payload_bytes h;
              errors = fails (header_checks h @
                [(ddr_record \<or> int (length data) = expected_wire_len,
                  ''UDP datagram length '' @ py_str_int (int (length data)) @ '' != header+payload '' @ py_str_int expected_wire_len),
                 (expected_wire_len \<le> UDP_NO_FRAGMENT_PAYLOAD_MAX_BYTES,
                  ''record exceeds UDP no-fragment bound: '' @ py_str_int expected_wire_len),
                 (\<not> int (length data) < expected_wire_len, ''truncated datagram/record'')]) in
          rbind (if name \<noteq> ''UNKNOWN'' then smoke_validate_payload ddr_record name h (wire_payload h data) else Inr ([], []))
            (\<lambda>(payload_errors, decoded).
          Inr \<lparr> pv_ok = (errors @ payload_errors = []), pv_packet_name = name, pv_header = Some h,
                pv_errors = errors @ payload_errors, pv_decoded = decoded, pv_participates = participates h \<rparr>))"

section \<open>Comparison with the strict parser\<close>

lemma fails_Nil [simp]: "fails cs = [] \<longleftrightarrow> list_all fst cs"
  by (induction cs) (auto simp: fails_def)

definition wire_of :: "telemetry_header \<Rightarrow> wire_header" where
  "wire_of h =
     \<lparr> wh_magic = th_magic h, wh_version = th_version h, wh_header_bytes = th_header_bytes h, wh_packet_type = th_packet_type h,
       wh_flags = th_flags_raw h, wh_seq = th_seq h, wh_timestamp = th_timestamp h, wh_payload_bytes = th_payload_bytes h,
       wh_header_crc = th_header_crc h \<rparr>"

lemma wire_of_fields [simp]:
  "wh_magic (wire_of h) = th_magic h" "wh_version (wire_of h) = th_version h" "wh_header_bytes (wire_of h) = th_header_bytes h"
  "wh_packet_type (wire_of h) = th_packet_type h" "wh_flags (wire_of h) = th_flags_raw h" "wh_seq (wire_of h) = th_seq h"
  "wh_timestamp (wire_of h) = th_timestamp h" "wh_payload_bytes (wire_of h) = th_payload_bytes h"
  "wh_header_crc (wire_of h) = th_header_crc h"
  by (simp_all add: wire_of_def)

lemma header_cases:
  obtains (short) "length data < 32" "parse_wire_header data = None" "\<exists>e. parse_header data = Inl e"
  | (parsed) h where "parse_header data = Inr h" "parse_wire_header data = Some (wire_of h)" "32 \<le> length data"
      "wire_name (wire_of h) = th_packet_name h" "th_flags h = flags_from_raw (th_flags_raw h)"
      "0 \<le> th_payload_bytes h"
proof (cases "length data < 32")
  case True
  then show ?thesis
    using short by (simp add: parse_wire_header_def parse_header_def TELEMETRY_HEADER_BYTES_def checks.simps)
next
  case False
  then obtain h where h: "parse_header data = Inr h"
    by (auto simp: parse_header_def TELEMETRY_HEADER_BYTES_def struct_unpack_from_def checks.simps)
  have "parse_wire_header data = Some (wire_of h)"
    using h False by (auto simp: parse_header_def parse_wire_header_def TELEMETRY_HEADER_BYTES_def struct_unpack_from_def
        wire_of_def Let_def checks.simps)
  then show ?thesis
    using parsed h False parse_header_name [OF h] parse_header_bounds(1) [OF h] by (simp add: wire_name_def)
qed

lemma wire_flags:
  assumes "th_flags h = flags_from_raw (th_flags_raw h)"
  shows "wire_flag (wire_of h) ''reserved_15_6'' 0xFFC0 \<longleftrightarrow> fl_reserved (th_flags h) \<noteq> 0"
    "wire_flag (wire_of h) ''crc_enabled'' 0x0010 \<longleftrightarrow> fl_crc_enabled (th_flags h)"
    "diagnostic (wire_of h) \<longleftrightarrow> fl_status_diagnostic (th_flags h)"
    "wire_flag (wire_of h) ''aggregate_metrics'' 0x0004 \<longleftrightarrow> fl_aggregate_metrics (th_flags h)"
    "wire_flag (wire_of h) ''per_frame_metrics'' 0x0008 \<longleftrightarrow> fl_per_frame_metrics (th_flags h)"
    "wire_flag (wire_of h) ''payload_scaled'' 0x0002 \<longleftrightarrow> fl_payload_scaled (th_flags h)"
  by (simp_all add: assms wire_flag_def flags_from_raw_def)

text \<open>
  What a payload of each type must satisfy, in terms of its bytes, and the two clauses that only the strict parser
  enforces: the range of the spectrum shift, and sequence number zero on diagnostic STATUS packets.
\<close>

definition payload_contract :: "telemetry_header \<Rightarrow> bytes \<Rightarrow> bool" where
  "payload_contract h p \<longleftrightarrow>
     (if th_packet_name h = ''WAVE''
      then th_payload_bytes h = 16 + 6 * get_le p 8 2 \<and> 1 \<le> get_le p 8 2 \<and> get_le p 8 2 \<le> 192 \<and>
        get_le p 0 8 = th_timestamp h \<and> get_le p 10 2 = 3 \<and> 1 \<le> get_le p 12 2 \<and> get_le p 14 2 = 0
      else if th_packet_name h = ''SPEC129''
      then th_payload_bytes h = 287 \<and> get_le p 0 8 = th_timestamp h \<and> get_le p 8 2 = 129 \<and> p ! 286 AND 0xFE = 0
      else if th_packet_name h = ''SPEC64''
      then th_payload_bytes h = 268 \<and> get_le p 0 8 = th_timestamp h \<and> get_le p 8 2 = 64
      else if th_packet_name h = ''METRICS''
      then th_payload_bytes h = 56 \<and> fl_aggregate_metrics (th_flags h) \<noteq> fl_per_frame_metrics (th_flags h) \<and>
        \<not> fl_payload_scaled (th_flags h)
      else th_packet_name h = ''STATUS'' \<and> th_payload_bytes h = 72 \<and> get_le p 68 4 = 0 \<and>
        (fl_status_diagnostic (th_flags h) \<or> th_timestamp h = get_le p 0 8))"

definition strict_only :: "telemetry_header \<Rightarrow> bytes \<Rightarrow> bool" where
  "strict_only h p \<longleftrightarrow>
     (th_packet_name h \<in> {''SPEC129'', ''SPEC64''} \<longrightarrow> get_le p 10 2 \<le> 55) \<and>
     (th_packet_name h = ''STATUS'' \<and> fl_status_diagnostic (th_flags h) \<longrightarrow> th_seq h = 0)"

lemma payload_rule_simps [simp]:
  "map_of PAYLOAD_RULES ''WAVE'' = Some (Variable 1168 22 192 1)"
  "map_of PAYLOAD_RULES ''SPEC129'' = Some (Exact 287)" "map_of PAYLOAD_RULES ''SPEC64'' = Some (Exact 268)"
  "map_of PAYLOAD_RULES ''METRICS'' = Some (Exact 56)" "map_of PAYLOAD_RULES ''STATUS'' = Some (Exact 72)"
  "map_of PAYLOAD_RULES ''WRAP'' = Some (Exact 0)"
  "map_of PAYLOAD_RULES ''PEAKS'' = Some Undefined_in_revision_g" "map_of PAYLOAD_RULES ''DEBUG'' = Some Undefined_in_revision_g"
  by (simp_all add: PAYLOAD_RULES_def)

lemma status_offsets [simp]:
  "payload_offset ''STATUS'' ''sample_count'' = 0" "payload_offset ''STATUS'' ''frame_count'' = 8"
  "payload_offset ''STATUS'' ''source_mode'' = 16" "payload_offset ''STATUS'' ''packet_enable'' = 24"
  "payload_offset ''STATUS'' ''dma_drop_count'' = 28" "payload_offset ''STATUS'' ''packet_fifo_drop_count'' = 64"
  "payload_offset ''STATUS'' ''reserved'' = 68" "mask_byte_index = 286" "WAVE_NSAMP_MAX = 192"
  by (simp_all add: payload_offset_def PAYLOAD_OFFSETS_def mask_byte_index_def WAVE_NSAMP_MAX_def)

lemma last_mask_byte: "length p = 287 \<Longrightarrow> last (pyslice 270 17 p) = p ! 286"
  by (subst last_conv_nth) (auto simp: pyslice_def)

lemma parse_wave_total:
  assumes "int (length p) = th_payload_bytes h" "th_packet_name h = ''WAVE''"
  shows "(\<exists>d. parse_payload h p = Inr d) \<longleftrightarrow> payload_contract h p"
proof
  assume "\<exists>d. parse_payload h p = Inr d"
  then show "payload_contract h p"
    using assms(2) by (auto simp: parse_payload_def check_payload_rule_def payload_contract_def parse_wave_def expected_wave_Inr
        result_simps)
next
  assume c: "payload_contract h p"
  then have n: "22 \<le> length p" "int (length p) = 16 + 6 * get_le p 8 2" using assms by (auto simp: payload_contract_def)
  have "rmapM (unpack_wave_sample p base stride) [0..<nat (get_le p 8 2)] =
      Inr (map (wave_sample_at p base stride) [0..<nat (get_le p 8 2)])" for base stride
    using n(2) by (intro rmapM_Inr_map unpack_wave_sample_ok) auto
  moreover have "expected_payload_bytes ''WAVE'' (Some (get_le p 8 2)) = Inr (th_payload_bytes h)"
    using c assms(2) by (simp add: payload_contract_def expected_wave_Inr)
  ultimately show "\<exists>d. parse_payload h p = Inr d"
    using c n assms by (simp add: parse_payload_def check_payload_rule_def payload_contract_def parse_wave_def unpack_u_ok checks.simps)
qed

lemma parse_other_total:
  assumes "int (length p) = th_payload_bytes h" "th_packet_name h \<notin> {''WAVE'', ''WRAP''}"
  shows "(\<exists>d. parse_payload h p = Inr d) \<longleftrightarrow> payload_contract h p \<and> strict_only h p"
proof -
  have len: "th_payload_bytes h = 287 \<Longrightarrow> length p = 287" "th_payload_bytes h = 268 \<Longrightarrow> length p = 268"
      "th_payload_bytes h = 56 \<Longrightarrow> length p = 56" "th_payload_bytes h = 72 \<Longrightarrow> length p = 72"
    using assms(1) by linarith+
  have mask: "th_payload_bytes h = 287 \<Longrightarrow> last (pyslice 270 17 p) = p ! 286" using len(1) by (simp add: last_mask_byte)
  note defs = parse_payload_def check_payload_rule_def payload_contract_def strict_only_def
  consider "th_packet_name h = ''SPEC129''" | "th_packet_name h = ''SPEC64''" | "th_packet_name h = ''METRICS''"
    | "th_packet_name h = ''STATUS''"
    | "th_packet_name h \<notin> {''SPEC129'', ''SPEC64'', ''METRICS'', ''STATUS'', ''WAVE'', ''WRAP''}"
    using assms(2) by blast
  then show ?thesis
  proof cases
    case 1
    then show ?thesis
      using len(1) mask
      by (auto simp: defs parse_spec129_def unpack_u_ok u16_array_ok u8_array_ok checks_Inr_iff rbind_Inr_iff Let_def)
  next
    case 2
    then show ?thesis
      using len(2) by (auto simp: defs parse_spec64_def unpack_u_ok u16_array_ok u8_array_ok checks_Inr_iff rbind_Inr_iff)
  next
    case 3
    then show ?thesis
      using len(3) by (auto simp: defs parse_metrics_def metrics_class_count_def struct_unpack_from_def METRICS_STRUCT_def
          checks_Inr_iff rbind_Inr_iff)
  next
    case 4
    have f: "unpack_fields STATUS_STRUCT p ! 0 = get_le p 0 8" "unpack_fields STATUS_STRUCT p ! 15 = get_le p 68 4"
      by (simp_all add: STATUS_STRUCT_def get_le_def pyslice_def)
    have "sum_list STATUS_STRUCT = 72" by (simp add: STATUS_STRUCT_def)
    with 4 show ?thesis
      using len(4) by (auto simp: defs parse_status_def struct_unpack_from_def f Let_def checks_Inr_iff rbind_Inr_iff)
  next
    case 5
    then show ?thesis by (auto simp: defs result_simps)
  qed
qed

lemma settle_clean: "settle caught errors r = Inr ([], d) \<longleftrightarrow> errors = [] \<and> r = ([], d, None)"
  by (auto simp: settle_def split: prod.splits option.splits)

lemma rule_clean:
  "rule_errors ne ''WAVE'' h = [] \<longleftrightarrow> 22 \<le> wh_payload_bytes h \<and> wh_payload_bytes h \<le> 1168"
  "rule_errors ne ''SPEC129'' h = [] \<longleftrightarrow> wh_payload_bytes h = 287"
  "rule_errors ne ''SPEC64'' h = [] \<longleftrightarrow> wh_payload_bytes h = 268"
  "rule_errors ne ''METRICS'' h = [] \<longleftrightarrow> wh_payload_bytes h = 56"
  "rule_errors ne ''STATUS'' h = [] \<longleftrightarrow> wh_payload_bytes h = 72"
  "rule_errors ne ''WRAP'' h = [] \<longleftrightarrow> wh_payload_bytes h = 0"
  "rule_errors ne ''PEAKS'' h \<noteq> []" "rule_errors ne ''DEBUG'' h \<noteq> []"
  by (auto simp: rule_errors_def)

lemma smoke_payload_total:
  assumes "int (length p) = th_payload_bytes h" "th_flags h = flags_from_raw (th_flags_raw h)"
    "th_packet_name h \<in> set (map fst PACKET_TYPES)"
  shows "(\<exists>d. smoke_validate_payload False (th_packet_name h) (wire_of h) p = Inr ([], d)) \<longleftrightarrow> payload_contract h p"
proof -
  let ?n = "th_packet_name h"
  have clean: "smoke_validate_payload False ?n (wire_of h) p = Inr ([], d) \<longleftrightarrow>
      rule_errors '' != expected '' ?n (wire_of h) = [] \<and> smoke_report False ?n (wire_of h) p = ([], d, None)" for d
    using assms(1) by (simp add: smoke_validate_payload_def settle_clean)
  have len: "th_payload_bytes h = 287 \<Longrightarrow> length p = 287" "th_payload_bytes h = 268 \<Longrightarrow> length p = 268"
      "th_payload_bytes h = 72 \<Longrightarrow> length p = 72" "22 \<le> th_payload_bytes h \<Longrightarrow> 22 \<le> length p"
    using assms(1) by linarith+
  note defs = smoke_report_def payload_contract_def wire_flags [OF assms(2)] Let_def
  consider "?n = ''WAVE''" | "?n = ''SPEC129''" | "?n = ''SPEC64''" | "?n = ''METRICS''" | "?n = ''STATUS''"
    | "?n \<in> {''PEAKS'', ''DEBUG'', ''WRAP''}"
    using assms(3) by (auto simp: PACKET_TYPES_def)
  then show ?thesis
  proof cases
    case 1
    then show ?thesis
      unfolding clean using len(4)
      by (cases "22 \<le> th_payload_bytes h") (auto simp: rule_clean defs smoke_wave_def unpack_wave_def unpack_u_ok)
  next
    case 2
    then show ?thesis
      unfolding clean using len(1)
      by (cases "th_payload_bytes h = 287") (auto simp: rule_clean defs smoke_spec129_def unpack_spec_def unpack_u_ok)
  next
    case 3
    then show ?thesis
      unfolding clean using len(2)
      by (cases "th_payload_bytes h = 268") (auto simp: rule_clean defs smoke_spec64_def unpack_spec_def unpack_u_ok)
  next
    case 4
    then show ?thesis unfolding clean by (auto simp: rule_clean defs smoke_metrics_def)
  next
    case 5
    then show ?thesis
      unfolding clean using len(3)
      by (cases "th_payload_bytes h = 72") (auto simp: rule_clean defs smoke_status_def unpack_u_ok)
  next
    case 6
    then show ?thesis unfolding clean by (auto simp: rule_clean defs)
  qed
qed

text \<open>What the two validators report of a datagram they accept: its header, type and whether its sequence number counts.\<close>

definition parser_verdict :: "bool \<Rightarrow> bytes \<Rightarrow> (wire_header \<times> string \<times> bool) option" where
  "parser_verdict exact data =
     (case parse_datagram (default_parser\<lparr> exact_length := exact \<rparr>) data of
        Inl _ \<Rightarrow> None
      | Inr p \<Rightarrow> Some (wire_of (pp_header p), packet_name p, participates_in_sequence (pp_header p)))"

definition smoke_verdict :: "bytes \<Rightarrow> (wire_header \<times> string \<times> bool) option" where
  "smoke_verdict data =
     (case validate_datagram False data of
        Inl _ \<Rightarrow> None
      | Inr v \<Rightarrow> if pv_ok v then Some (the (pv_header v), pv_packet_name v, pv_participates v) else None)"

definition strict_clauses :: "bytes \<Rightarrow> bool" where
  "strict_clauses data \<longleftrightarrow>
     (case parse_header data of
        Inl _ \<Rightarrow> False
      | Inr h \<Rightarrow> strict_only h (pyslice 32 (nat (th_payload_bytes h)) data))"

lemma name_known: "wire_name h \<noteq> ''UNKNOWN'' \<Longrightarrow> wire_name h \<in> set (map fst PACKET_TYPES)"
  by (auto simp: wire_name_def PACKET_TYPE_NAMES_def PACKET_TYPES_def split: option.splits if_splits)

lemma participates_wire_of:
  assumes "wire_name (wire_of h) = th_packet_name h" "th_flags h = flags_from_raw (th_flags_raw h)" "th_packet_name h \<noteq> ''UNKNOWN''"
  shows "participates (wire_of h) \<longleftrightarrow> participates_in_sequence h"
  using assms by (auto simp: participates_def participates_in_sequence_def is_wrap_def is_status_diagnostic_def wire_flags)

text \<open>The header and length clauses common to both, for an exact length or for a record followed by more bytes.\<close>

definition frame_clean :: "bool \<Rightarrow> telemetry_header \<Rightarrow> bytes \<Rightarrow> bool" where
  "frame_clean exact h data \<longleftrightarrow>
     list_all fst (header_checks (wire_of h)) \<and> 32 + th_payload_bytes h \<le> int (length data) \<and>
     (\<not> exact \<or> int (length data) = 32 + th_payload_bytes h) \<and> 32 + th_payload_bytes h \<le> 1200"

lemma validate_header_clean:
  assumes "wire_name (wire_of h) = th_packet_name h" "th_flags h = flags_from_raw (th_flags_raw h)"
  shows "validate_header (default_parser\<lparr> exact_length := exact \<rparr>) h data = Inr () \<longleftrightarrow>
    frame_clean exact h data \<and> th_packet_name h \<notin> {''PEAKS'', ''DEBUG'', ''WRAP''}"
  using assms
  by (auto simp: validate_header_def default_parser_def frame_clean_def header_checks_def wire_flags wire_bytes_def checks_Inr_iff
      TELEMETRY_HEADER_BYTES_def UDP_NO_FRAGMENT_PAYLOAD_MAX_BYTES_def)

lemma payload_contract_name: "payload_contract h p \<Longrightarrow> th_packet_name h \<notin> {''PEAKS'', ''DEBUG'', ''WRAP''}"
  by (auto simp: payload_contract_def)

lemma parser_accepts:
  assumes "parse_header data = Inr h" "wire_name (wire_of h) = th_packet_name h" "th_flags h = flags_from_raw (th_flags_raw h)"
    "0 \<le> th_payload_bytes h"
  defines "p \<equiv> pyslice 32 (nat (th_payload_bytes h)) data"
  shows "(\<exists>q. parse_datagram (default_parser\<lparr> exact_length := exact \<rparr>) data = Inr q \<and> pp_header q = h) \<longleftrightarrow>
    frame_clean exact h data \<and> payload_contract h p \<and> strict_only h p"
proof -
  have "(\<exists>q. parse_datagram (default_parser\<lparr> exact_length := exact \<rparr>) data = Inr q \<and> pp_header q = h) \<longleftrightarrow>
      validate_header (default_parser\<lparr> exact_length := exact \<rparr>) h data = Inr () \<and> (\<exists>d. parse_payload h p = Inr d)"
    using assms(1) by (auto simp: parse_datagram_def TELEMETRY_HEADER_BYTES_def rbind_Inr_iff Let_def p_def)
  also have "\<dots> \<longleftrightarrow> frame_clean exact h data \<and> payload_contract h p \<and> strict_only h p"
  proof (cases "frame_clean exact h data \<and> th_packet_name h \<notin> {''PEAKS'', ''DEBUG'', ''WRAP''}")
    case True
    then have "int (length p) = th_payload_bytes h"
      using assms(4) by (auto simp: frame_clean_def p_def pyslice_def)
    then have "(\<exists>d. parse_payload h p = Inr d) \<longleftrightarrow> payload_contract h p \<and> strict_only h p"
      using True parse_wave_total [of p h] parse_other_total [of p h]
      by (cases "th_packet_name h = ''WAVE''") (auto simp: strict_only_def)
    with True show ?thesis by (simp add: validate_header_clean [OF assms(2,3)])
  next
    case False
    with payload_contract_name show ?thesis by (auto simp: validate_header_clean [OF assms(2,3)])
  qed
  finally show ?thesis .
qed

lemma smoke_accepts:
  assumes "parse_wire_header data = Some (wire_of h)" "wire_name (wire_of h) = th_packet_name h"
    "th_flags h = flags_from_raw (th_flags_raw h)" "0 \<le> th_payload_bytes h"
  defines "p \<equiv> pyslice 32 (nat (th_payload_bytes h)) data"
  shows "(\<exists>v. validate_datagram False data = Inr v \<and> pv_ok v) \<longleftrightarrow> frame_clean True h data \<and> payload_contract h p"
proof -
  have "(\<exists>v. validate_datagram False data = Inr v \<and> pv_ok v) \<longleftrightarrow>
      frame_clean True h data \<and> (\<exists>d. smoke_validate_payload False (th_packet_name h) (wire_of h) p = Inr ([], d))"
    using assms(1,2)
    by (auto simp: validate_datagram_def Let_def rbind_Inr_iff wire_payload_def TELEMETRY_HEADER_BYTES_def p_def
        UDP_NO_FRAGMENT_PAYLOAD_MAX_BYTES_def frame_clean_def header_checks_def)
  also have "\<dots> \<longleftrightarrow> frame_clean True h data \<and> payload_contract h p"
  proof (cases "frame_clean True h data")
    case True
    then have "int (length p) = th_payload_bytes h" "th_packet_name h \<noteq> ''UNKNOWN''"
      using assms(2,4) by (auto simp: frame_clean_def header_checks_def p_def pyslice_def)
    then show ?thesis using smoke_payload_total [of p h] assms(2,3) name_known [of "wire_of h"] by simp
  qed simp
  finally show ?thesis .
qed

text \<open>
  C29: the two validators of the repository agree. On every byte string, the bring-up validator accepts what the dashboard's strict
  parser accepts, with the same header, type and participation in the sequence; what it accepts beyond that fails one of the two
  clauses only the strict parser has, a spectrum shift above 55 or a diagnostic STATUS with a nonzero sequence number.
\<close>

theorem validators_agree: "parser_verdict True data = (if strict_clauses data then smoke_verdict data else None)"
proof (cases rule: header_cases [of data])
  case short
  then show ?thesis by (auto simp: parser_verdict_def strict_clauses_def parse_datagram_def)
next
  case (parsed h)
  have strict: "strict_clauses data \<longleftrightarrow> strict_only h (pyslice 32 (nat (th_payload_bytes h)) data)"
    using parsed(1) by (simp add: strict_clauses_def)
  have smoke: "pv_header v = Some (wire_of h) \<and> pv_packet_name v = th_packet_name h \<and>
      pv_participates v = participates (wire_of h) \<and> th_packet_name h \<noteq> ''UNKNOWN''"
    if "validate_datagram False data = Inr v" "pv_ok v" for v
    using that parsed(2,4) by (auto simp: validate_datagram_def Let_def rbind_Inr_iff header_checks_def)
  have parser: "pp_header q = h" if "parse_datagram (default_parser\<lparr> exact_length := True \<rparr>) data = Inr q" for q
    using that parsed(1) by (auto simp: parse_datagram_def rbind_Inr_iff Let_def)
  note accepts = parser_accepts [OF parsed(1,4,5,6)] smoke_accepts [OF parsed(2,4,5,6)]
  show ?thesis
  proof (cases "\<exists>v. validate_datagram False data = Inr v \<and> pv_ok v")
    case True
    then obtain v where v: "validate_datagram False data = Inr v" "pv_ok v" by blast
    have verdict: "smoke_verdict data = Some (wire_of h, th_packet_name h, participates_in_sequence h)"
      using v smoke [OF v] participates_wire_of [OF parsed(4,5)] by (simp add: smoke_verdict_def)
    show ?thesis
    proof (cases "strict_clauses data")
      case True
      with v strict accepts obtain q where "parse_datagram (default_parser\<lparr> exact_length := True \<rparr>) data = Inr q" "pp_header q = h" by blast
      with verdict True show ?thesis by (simp add: parser_verdict_def packet_name_def)
    next
      case False
      with strict accepts(1) parser have "\<nexists>q. parse_datagram (default_parser\<lparr> exact_length := True \<rparr>) data = Inr q" by blast
      with False show ?thesis by (cases "parse_datagram (default_parser\<lparr> exact_length := True \<rparr>) data") (simp_all add: parser_verdict_def)
    qed
  next
    case False
    with accepts parser have "\<nexists>q. parse_datagram (default_parser\<lparr> exact_length := True \<rparr>) data = Inr q" by blast
    moreover have "smoke_verdict data = None"
      using False by (cases "validate_datagram False data") (simp_all add: smoke_verdict_def)
    ultimately show ?thesis by (cases "parse_datagram (default_parser\<lparr> exact_length := True \<rparr>) data") (simp_all add: parser_verdict_def)
  qed
qed

lemma default_exact [simp]: "default_parser\<lparr> exact_length := True \<rparr> = default_parser"
  by (simp add: default_parser_def)

lemma rbind_pair_Inl: "rbind m (\<lambda>(a, b). Inr (f a b)) = Inl e \<longleftrightarrow> m = Inl e"
  by (cases m) auto

lemma unpack_u_Inl: "unpack_u n p off = Inl x \<Longrightarrow> exn_class x = StructError"
  by (auto simp: unpack_u_def split: if_splits)

lemma unpack_Inl:
  "unpack_wave p = Inl x \<Longrightarrow> exn_class x = StructError"
  "unpack_spec name p = Inl x \<Longrightarrow> exn_class x = StructError"
  by (auto simp: unpack_wave_def unpack_spec_def rbind_Inl_iff dest: unpack_u_Inl)

lemma unpack_spec129_ok: "(\<exists>f. unpack_spec ''SPEC129'' p = Inr f) \<longleftrightarrow> 12 \<le> length p"
  by (auto simp: unpack_spec_def rbind_Inr_iff unpack_u_Inr)

lemma smoke_status_exn: "smoke_status h p = (errs, dec, Some x) \<Longrightarrow> exn_class x = StructError"
  by (auto simp: smoke_status_def rbind_Inl_iff dest: unpack_u_Inl split: sum.splits)

lemma smoke_spec129_exn:
  "smoke_spec129 h p = (errs, dec, Some x) \<Longrightarrow> exn_class x \<noteq> StructError \<Longrightarrow>
     x = Exn IndexError ''index out of range'' \<and> 12 \<le> length p \<and> length p \<le> 286"
  using unpack_spec129_ok [of p]
  by (auto simp: smoke_spec129_def Let_def dest: unpack_Inl split: sum.splits if_splits)

lemma smoke_report_exn:
  assumes "smoke_report ddr_record name h p = (errs, dec, Some x)" "exn_class x \<noteq> StructError"
  shows "name = ''SPEC129'' \<and> x = Exn IndexError ''index out of range'' \<and> 12 \<le> length p \<and> length p \<le> 286"
  using assms smoke_spec129_exn [of h p errs dec x]
  by (auto simp: smoke_report_def smoke_wave_def smoke_spec64_def smoke_metrics_def Let_def
      dest: unpack_Inl smoke_status_exn split: if_splits sum.splits)

lemma smoke_payload_raises:
  "smoke_validate_payload ddr_record name h p = Inl e \<longleftrightarrow>
     e = Exn IndexError ''index out of range'' \<and> name = ''SPEC129'' \<and> wh_payload_bytes h \<le> int (length p) \<and>
     12 \<le> length p \<and> length p \<le> 286"
proof
  assume "smoke_validate_payload ddr_record name h p = Inl e"
  then obtain errs dec where "smoke_report ddr_record name h p = (errs, dec, Some e)" "exn_class e \<noteq> StructError"
      "wh_payload_bytes h \<le> int (length p)"
    by (auto simp: smoke_validate_payload_def settle_def Let_def split: if_splits prod.splits option.splits)
  with smoke_report_exn show "e = Exn IndexError ''index out of range'' \<and> name = ''SPEC129'' \<and>
      wh_payload_bytes h \<le> int (length p) \<and> 12 \<le> length p \<and> length p \<le> 286" by blast
next
  assume r: "e = Exn IndexError ''index out of range'' \<and> name = ''SPEC129'' \<and> wh_payload_bytes h \<le> int (length p) \<and>
    12 \<le> length p \<and> length p \<le> 286"
  then obtain f where "unpack_spec ''SPEC129'' p = Inr f" using unpack_spec129_ok by blast
  with r show "smoke_validate_payload ddr_record name h p = Inl e"
    by (auto simp: smoke_validate_payload_def settle_def smoke_report_def smoke_spec129_def Let_def split: prod.splits)
qed

text \<open>
  What leaves the bring-up validator. It raises exactly on a SPEC129 datagram that declares and carries a payload of 12 to
  286 bytes, and then the exception is the \<^verbatim>\<open>IndexError\<close> of reading the last mask byte; any other byte string gives a report.
\<close>

theorem validator_raises:
  "validate_datagram ddr_record data = Inl e \<longleftrightarrow>
     e = Exn IndexError ''index out of range'' \<and>
     (\<exists>h. parse_wire_header data = Some h \<and> wire_name h = ''SPEC129'' \<and> 12 \<le> wh_payload_bytes h \<and> wh_payload_bytes h \<le> 286 \<and>
       32 + wh_payload_bytes h \<le> int (length data))"
proof (cases rule: header_cases [of data])
  case short
  then show ?thesis by (simp add: validate_datagram_def)
next
  case (parsed h)
  define p where "p = pyslice 32 (nat (th_payload_bytes h)) data"
  have p: "length p = min (nat (th_payload_bytes h)) (length data - 32)" by (simp add: p_def pyslice_def)
  have "validate_datagram ddr_record data = Inl e \<longleftrightarrow>
      th_packet_name h \<noteq> ''UNKNOWN'' \<and> smoke_validate_payload ddr_record (th_packet_name h) (wire_of h) p = Inl e"
    using parsed(4) unfolding validate_datagram_def parsed(2) option.case Let_def rbind_pair_Inl
    by (simp add: wire_payload_def TELEMETRY_HEADER_BYTES_def p_def)
  moreover have "th_payload_bytes h \<le> int (length p) \<and> 12 \<le> length p \<and> length p \<le> 286 \<longleftrightarrow>
      12 \<le> th_payload_bytes h \<and> th_payload_bytes h \<le> 286 \<and> 32 + th_payload_bytes h \<le> int (length data)"
    using p parsed(3,6) by linarith
  ultimately show ?thesis using parsed(2,4) by (auto simp: smoke_payload_raises)
qed

end
