(* ===== verification/Serial_Numbers.thy ===== *)
theory Serial_Numbers
  imports Prelude
begin

text \<open>
  The abstract specification of 32-bit sequence accounting.

  Two components keep the same counters over the same stream, the dashboard buffers and the UDP
  receiver, and both implement the RFC 1982 serial-number comparison in place. \<open>serial_step\<close> is the
  specification they share: a state of a high-water mark and four counters, and one step per sequence
  number (or per packet that carries none). \<open>seq_tracker\<close> is the refinement contract, an observation of
  the concrete state that commutes with the concrete update; the accounting identities are proved once
  for \<open>serial_step\<close> and reach the code through the interpretations of the locale.
\<close>

record serial_state =
  hw :: "int option"
  gaps :: int
  missing :: int
  duplicates :: int
  reordered :: int

definition serial_init :: serial_state where
  "serial_init = \<lparr> hw = None, gaps = 0, missing = 0, duplicates = 0, reordered = 0 \<rparr>"

abbreviation seq_modulus :: int where
  "seq_modulus \<equiv> 4294967296"

definition serial_step :: "serial_state \<Rightarrow> int option \<Rightarrow> serial_state" where
  "serial_step s sq =
     (case sq of
        None \<Rightarrow> s
      | Some q \<Rightarrow>
          let current = q mod seq_modulus in
          (case hw s of
             None \<Rightarrow> s\<lparr> hw := Some current \<rparr>
           | Some previous \<Rightarrow>
               let delta = (current - previous) mod seq_modulus in
               if delta = 0 then s\<lparr> duplicates := duplicates s + 1 \<rparr>
               else if delta < 2147483648
               then s\<lparr> hw := Some current,
                       gaps := gaps s + (if delta > 1 then 1 else 0),
                       missing := missing s + (if delta > 1 then delta - 1 else 0) \<rparr>
               else s\<lparr> reordered := reordered s + 1 \<rparr>))"

definition hw_ok :: "serial_state \<Rightarrow> bool" where
  "hw_ok s \<longleftrightarrow> (case hw s of None \<Rightarrow> True | Some h \<Rightarrow> 0 \<le> h \<and> h < seq_modulus)"

text \<open>How many steps of a run carry a sequence number.\<close>

definition numbered :: "int option list \<Rightarrow> int" where
  "numbered sqs = int (length (filter (\<lambda>sq. sq \<noteq> None) sqs))"

lemma numbered_simps [simp]:
  "numbered [] = 0"
  "numbered (sq # sqs) = (if sq = None then 0 else 1) + numbered sqs"
  by (auto simp: numbered_def)

text \<open>
  The balance of a run: every numbered packet is a duplicate, a reordered one, or moves the mark
  forward by one plus the missing numbers it skipped.
\<close>

definition advanced :: "serial_state \<Rightarrow> serial_state \<Rightarrow> int option list \<Rightarrow> int" where
  "advanced s t sqs =
     numbered sqs - (duplicates t - duplicates s) - (reordered t - reordered s)
       + (missing t - missing s)"

lemma hw_ok_step: "hw_ok s \<Longrightarrow> hw_ok (serial_step s sq)"
  by (auto simp: serial_step_def hw_ok_def Let_def split: option.splits)

text \<open>The five cases of a step, with the forward distance named.\<close>

lemma serial_step_cases:
  obtains (unnumbered) "sq = None" "serial_step s sq = s"
  | (first) q where "sq = Some q" "hw s = None" "serial_step s sq = s\<lparr> hw := Some (q mod seq_modulus) \<rparr>"
  | (duplicate) q h where "sq = Some q" "hw s = Some h" "(q mod seq_modulus - h) mod seq_modulus = 0"
      "serial_step s sq = s\<lparr> duplicates := duplicates s + 1 \<rparr>"
  | (forward) q h d where "sq = Some q" "hw s = Some h" "(q mod seq_modulus - h) mod seq_modulus = d"
      "1 \<le> d" "d < 2147483648"
      "serial_step s sq = s\<lparr> hw := Some (q mod seq_modulus),
         gaps := gaps s + (if d > 1 then 1 else 0), missing := missing s + (d - 1) \<rparr>"
  | (backward) q h where "sq = Some q" "hw s = Some h"
      "2147483648 \<le> (q mod seq_modulus - h) mod seq_modulus"
      "serial_step s sq = s\<lparr> reordered := reordered s + 1 \<rparr>"
proof (cases sq)
  case None
  then show ?thesis using unnumbered by (simp add: serial_step_def)
next
  case (Some q)
  show ?thesis
  proof (cases "hw s")
    case None
    with Some show ?thesis using first by (simp add: serial_step_def Let_def)
  next
    case h: (Some h)
    obtain d where d: "(q mod seq_modulus - h) mod seq_modulus = d" by simp
    then have "0 \<le> d" by (metis pos_mod_sign zero_less_numeral)
    have step: "serial_step s sq =
      (if d = 0 then s\<lparr> duplicates := duplicates s + 1 \<rparr>
       else if d < 2147483648
       then s\<lparr> hw := Some (q mod seq_modulus), gaps := gaps s + (if d > 1 then 1 else 0),
               missing := missing s + (if d > 1 then d - 1 else 0) \<rparr>
       else s\<lparr> reordered := reordered s + 1 \<rparr>)"
      unfolding serial_step_def Some h Let_def option.case d by simp
    consider "d = 0" | "1 \<le> d" "d < 2147483648" | "2147483648 \<le> d"
      using \<open>0 \<le> d\<close> by linarith
    then show ?thesis
    proof cases
      case 1
      with step Some h d show ?thesis using duplicate by simp
    next
      case 2
      then have "d \<noteq> 0" and m: "(if d > 1 then d - 1 else 0) = d - 1" by simp_all
      with step 2 have "serial_step s sq = s\<lparr> hw := Some (q mod seq_modulus),
          gaps := gaps s + (if d > 1 then 1 else 0), missing := missing s + (d - 1) \<rparr>"
        by (simp only: if_True if_False m)
      with 2 show ?thesis using forward Some h d by blast
    next
      case 3
      then have "d \<noteq> 0" "\<not> d < 2147483648" by simp_all
      with step have "serial_step s sq = s\<lparr> reordered := reordered s + 1 \<rparr>"
        by (simp only: if_False)
      with 3 show ?thesis using backward Some h d by blast
    qed
  qed
qed

lemma serial_step_monotone:
  "gaps s \<le> gaps (serial_step s sq) \<and> missing s \<le> missing (serial_step s sq) \<and>
   duplicates s \<le> duplicates (serial_step s sq) \<and> reordered s \<le> reordered (serial_step s sq) \<and>
   gaps (serial_step s sq) - gaps s \<le> missing (serial_step s sq) - missing s \<and>
   missing (serial_step s sq) - missing s < 2147483647"
  by (rule serial_step_cases [of sq s]) simp_all

lemma serial_step_advance:
  assumes "hw s = Some h"
  obtains h' where "hw (serial_step s sq) = Some h'"
    and "(h' - h) mod seq_modulus = advanced s (serial_step s sq) [sq] mod seq_modulus"
proof (cases rule: serial_step_cases [of sq s])
  case (forward q h2 d)
  from forward(4,5) have "d mod seq_modulus = d" by simp
  with forward assms that [of "q mod seq_modulus"] show ?thesis
    by (simp add: advanced_def)
qed (use assms that [of h] in \<open>simp_all add: advanced_def\<close>)

lemma advanced_Cons:
  "advanced s u (sq # sqs) = advanced s t [sq] + advanced t u sqs"
  by (simp add: advanced_def)

lemma serial_run_advance:
  assumes "hw s = Some h"
  shows "\<exists>h'. hw (foldl serial_step s sqs) = Some h' \<and>
    (h' - h) mod seq_modulus = advanced s (foldl serial_step s sqs) sqs mod seq_modulus"
  using assms
proof (induction sqs arbitrary: s h)
  case Nil
  then show ?case by (simp add: advanced_def)
next
  case (Cons sq sqs)
  let ?t = "serial_step s sq" and ?u = "foldl serial_step (serial_step s sq) sqs"
  obtain k where k: "hw ?t = Some k" "(k - h) mod seq_modulus = advanced s ?t [sq] mod seq_modulus"
    using Cons.prems by (rule serial_step_advance)
  obtain h' where h': "hw ?u = Some h'"
      "(h' - k) mod seq_modulus = advanced ?t ?u sqs mod seq_modulus"
    using Cons.IH [OF k(1)] by blast
  have "(h' - h) mod seq_modulus = ((k - h) + (h' - k)) mod seq_modulus" by simp
  also have "\<dots> = (advanced s ?t [sq] + advanced ?t ?u sqs) mod seq_modulus"
    using k(2) h'(2) by (rule mod_add_cong)
  finally show ?case
    using h'(1) by (simp add: advanced_Cons [of s ?u sq sqs ?t])
qed

text \<open>A stream that only moves forward by less than half the number space is never misjudged.\<close>

fun forward_stream :: "int \<Rightarrow> int list \<Rightarrow> bool" where
  "forward_stream h [] = True"
| "forward_stream h (q # qs) \<longleftrightarrow> h < q \<and> q - h < 2147483648 \<and> forward_stream q qs"

lemma serial_forward:
  "forward_stream h qs \<Longrightarrow> hw s = Some (h mod seq_modulus) \<Longrightarrow>
   foldl serial_step s (map Some qs) =
     s\<lparr> hw := Some (last (h # qs) mod seq_modulus),
        gaps := gaps s + int (length (filter (\<lambda>(a, b). b - a > 1) (zip (h # qs) qs))),
        missing := missing s + (last (h # qs) - h - int (length qs)) \<rparr>"
proof (induction qs arbitrary: h s)
  case Nil
  then show ?case by simp
next
  case (Cons q qs)
  then have delta: "(q mod seq_modulus - h mod seq_modulus) mod seq_modulus = q - h"
    by (simp add: mod_diff_eq)
  let ?t = "s\<lparr> hw := Some (q mod seq_modulus), gaps := gaps s + (if q - h > 1 then 1 else 0),
      missing := missing s + (q - h - 1) \<rparr>"
  have step: "serial_step s (Some q) = ?t"
    using Cons.prems delta by (simp add: serial_step_def Let_def)
  have "foldl serial_step s (map Some (q # qs)) = foldl serial_step ?t (map Some qs)"
    using step by simp
  also have "\<dots> = ?t\<lparr> hw := Some (last (q # qs) mod seq_modulus),
      gaps := gaps ?t + int (length (filter (\<lambda>(a, b). b - a > 1) (zip (q # qs) qs))),
      missing := missing ?t + (last (q # qs) - q - int (length qs)) \<rparr>"
    by (rule Cons.IH) (use Cons.prems in simp_all)
  finally show ?case by simp
qed

section \<open>The refinement contract\<close>

locale seq_tracker =
  fixes obs :: "'s \<Rightarrow> serial_state"
    and note_packet :: "'s \<Rightarrow> 'p \<Rightarrow> 's"
    and seq_of :: "'p \<Rightarrow> int option"
  assumes obs_note: "obs (note_packet s p) = serial_step (obs s) (seq_of p)"
begin

lemma obs_run: "obs (foldl note_packet s ps) = foldl serial_step (obs s) (map seq_of ps)"
  by (induction ps arbitrary: s) (simp_all add: obs_note)

lemma run_advance:
  "hw (obs s) = Some h \<Longrightarrow>
   \<exists>h'. hw (obs (foldl note_packet s ps)) = Some h' \<and>
     (h' - h) mod seq_modulus =
       advanced (obs s) (obs (foldl note_packet s ps)) (map seq_of ps) mod seq_modulus"
  unfolding obs_run by (rule serial_run_advance)

lemma run_forward:
  "forward_stream h qs \<Longrightarrow> hw (obs s) = Some (h mod seq_modulus) \<Longrightarrow> map seq_of ps = map Some qs \<Longrightarrow>
   missing (obs (foldl note_packet s ps)) =
     missing (obs s) + (last (h # qs) - h - int (length qs)) \<and>
   duplicates (obs (foldl note_packet s ps)) = duplicates (obs s) \<and>
   reordered (obs (foldl note_packet s ps)) = reordered (obs s)"
  by (simp add: obs_run serial_forward)

end

end
