(* ===== verification/Udp_Receiver.thy ===== *)
theory Udp_Receiver
  imports Complex_Main "HOL-Library.Sublist" Packet_Parser Serial_Numbers Py_Strings
begin

text \<open>
  The PC-side UDP receiver, \<^verbatim>\<open>sw/pc_dashboard/trecap_dashboard/udp_receiver.py\<close>.

  The socket is the environment: one \<open>sock_event\<close> per \<^verbatim>\<open>recvmsg\<close>/\<^verbatim>\<open>recvfrom\<close> call, with what the call
  returned or raised and the clock reading that follows it. The capture file is its contents as a byte
  string. \<open>receive_datagram\<close>, \<open>receive_event\<close> and \<open>iter_events\<close> are the methods of
  \<^verbatim>\<open>TelemetryUdpReceiver\<close> as state-passing functions whose result may be an exception, \<open>bg_step\<close> is one
  action of the threaded receiver or of the consumer of its queue. Socket set-up, file-system paths and
  thread start and join are not modelled.
\<close>

section \<open>Endpoints and configuration\<close>

record udp_endpoint =
  ep_host :: string
  ep_port :: "int option"

definition validate_port :: "int \<Rightarrow> string \<Rightarrow> unit result" where
  "validate_port port name =
     (if 1 \<le> port \<and> port \<le> 65535 then Inr ()
      else Inl (Exn ValueError (name @ '' must be in range 1..65535'')))"

definition parse_port :: "string \<Rightarrow> int result" where
  "parse_port t =
     (case py_int10 t of
        None \<Rightarrow> Inl (Exn ValueError ''invalid UDP port'')
      | Some port \<Rightarrow> rbind (validate_port port ''port'') (\<lambda>_. Inr port))"

definition endpoint_parse :: "string \<Rightarrow> udp_endpoint result" where
  "endpoint_parse t =
     (let stripped = py_strip t in
      if stripped = [] then Inl (Exn ValueError ''empty UDP endpoint'')
      else if py_count_char (CHR '':'') stripped = 1 \<and> snd (py_rsplit1 (CHR '':'') stripped) \<noteq> []
      then (case py_rsplit1 (CHR '':'') stripped of (host, port_text) \<Rightarrow>
              rbind (parse_port port_text) (\<lambda>port. Inr \<lparr> ep_host = host, ep_port = Some port \<rparr>))
      else Inr \<lparr> ep_host = stripped, ep_port = None \<rparr>)"

definition endpoint_matches :: "udp_endpoint \<Rightarrow> string \<Rightarrow> int \<Rightarrow> bool" where
  "endpoint_matches e host port \<longleftrightarrow>
     \<not> (ep_host e \<noteq> [] \<and> host \<noteq> ep_host e) \<and>
     \<not> (ep_port e \<noteq> None \<and> the (ep_port e) \<noteq> port)"

record udp_receiver_config =
  rx_bind_port :: int
  rx_expected_source :: "udp_endpoint option"
  rx_socket_timeout_s :: rat
  rx_buffer_bytes :: int
  rx_socket_rcvbuf_bytes :: "int option"
  rx_allow_wrap :: bool
  rx_enforce_udp_limit :: bool
  rx_capture_append :: bool
  rx_capture_flush_every :: int

definition default_rx_config :: udp_receiver_config where
  "default_rx_config =
     \<lparr> rx_bind_port = 5005, rx_expected_source = None, rx_socket_timeout_s = 1 / 10,
       rx_buffer_bytes = 65535, rx_socket_rcvbuf_bytes = None, rx_allow_wrap = False,
       rx_enforce_udp_limit = True, rx_capture_append = False, rx_capture_flush_every = 32 \<rparr>"

definition validate_rx_config :: "udp_receiver_config \<Rightarrow> unit result" where
  "validate_rx_config c =
     rbind (validate_port (rx_bind_port c) ''bind_port'') (\<lambda>_.
     rbind (case rx_expected_source c of
              None \<Rightarrow> Inr ()
            | Some e \<Rightarrow> (case ep_port e of None \<Rightarrow> Inr ()
                        | Some port \<Rightarrow> validate_port port ''expected_source.port'')) (\<lambda>_.
     checks
       [(\<not> rx_socket_timeout_s c < 0, Exn ValueError ''socket_timeout_s must be >= 0''),
        (\<not> rx_buffer_bytes c < 2048, Exn ValueError ''rx_buffer_bytes must be at least 2048 bytes''),
        (case rx_socket_rcvbuf_bytes c of None \<Rightarrow> True | Some n \<Rightarrow> \<not> n < rx_buffer_bytes c,
          Exn ValueError ''socket_rcvbuf_bytes must be >= rx_buffer_bytes''),
        (\<not> rx_capture_flush_every c < 1, Exn ValueError ''capture_flush_every must be >= 1'')]))"

section \<open>Received data\<close>

record received_datagram =
  rd_recv_time_ns :: int
  rd_source_host :: string
  rd_source_port :: int
  rd_data :: bytes
  rd_truncated :: bool

text \<open>A receive-loop event carries either a packet or an error with its kind.\<close>

record receiver_event =
  re_datagram :: received_datagram
  re_packet :: "parsed_packet option"
  re_error :: "exn option"
  re_error_kind :: "string option"

definition event_ok :: "receiver_event \<Rightarrow> bool" where
  "event_ok e \<longleftrightarrow> re_packet e \<noteq> None \<and> re_error e = None"

record receiver_stats =
  us_datagrams_seen :: int
  us_datagrams_accepted :: int
  us_datagrams_source_rejected :: int
  us_datagrams_truncated_or_oversized :: int
  us_datagrams_socket_truncated :: int
  us_bytes_accepted :: int
  us_packets_parsed :: int
  us_payload_truncated_packet_count :: int
  us_parse_errors :: int
  us_socket_timeouts :: int
  us_socket_errors :: int
  us_capture_write_errors :: int
  us_sequence_gap_count :: int
  us_missing_sequence_count :: int
  us_duplicate_sequence_count :: int
  us_reordered_sequence_count :: int
  us_last_sequence :: "int option"
  us_first_recv_time_ns :: "int option"
  us_last_recv_time_ns :: "int option"
  us_first_packet_time_ns :: "int option"
  us_last_packet_time_ns :: "int option"
  us_last_error :: "string option"
  us_last_error_kind :: "string option"
  us_packets_by_type :: "string \<Rightarrow> int option"

definition receiver_stats_reset :: receiver_stats where
  "receiver_stats_reset =
     \<lparr> us_datagrams_seen = 0, us_datagrams_accepted = 0, us_datagrams_source_rejected = 0,
       us_datagrams_truncated_or_oversized = 0, us_datagrams_socket_truncated = 0,
       us_bytes_accepted = 0, us_packets_parsed = 0, us_payload_truncated_packet_count = 0,
       us_parse_errors = 0, us_socket_timeouts = 0, us_socket_errors = 0,
       us_capture_write_errors = 0, us_sequence_gap_count = 0, us_missing_sequence_count = 0,
       us_duplicate_sequence_count = 0, us_reordered_sequence_count = 0, us_last_sequence = None,
       us_first_recv_time_ns = None, us_last_recv_time_ns = None, us_first_packet_time_ns = None,
       us_last_packet_time_ns = None, us_last_error = None, us_last_error_kind = None,
       us_packets_by_type = (\<lambda>_. None) \<rparr>"

definition or_first :: "int option \<Rightarrow> int \<Rightarrow> int option" where
  "or_first old t = (case old of None \<Rightarrow> Some t | Some _ \<Rightarrow> old)"

definition note_parsed_packet :: "receiver_stats \<Rightarrow> parsed_packet \<Rightarrow> int \<Rightarrow> receiver_stats" where
  "note_parsed_packet st packet packet_time_ns =
     (let name = packet_name packet;
          st = st\<lparr> us_packets_parsed := us_packets_parsed st + 1,
                   us_packets_by_type := (us_packets_by_type st)
                     (name \<mapsto> get_count (us_packets_by_type st) name + 1),
                   us_first_packet_time_ns := or_first (us_first_packet_time_ns st) packet_time_ns,
                   us_last_packet_time_ns := Some packet_time_ns \<rparr>;
          st = (if fl_payload_truncated (th_flags (pp_header packet))
                then st\<lparr> us_payload_truncated_packet_count :=
                           us_payload_truncated_packet_count st + 1 \<rparr>
                else st) in
      if \<not> participates_in_sequence (pp_header packet) then st
      else
        let current = th_seq (pp_header packet) AND 0xFFFFFFFF in
        case us_last_sequence st of
          None \<Rightarrow> st\<lparr> us_last_sequence := Some current \<rparr>
        | Some previous \<Rightarrow>
            let delta = (current - previous) AND 0xFFFFFFFF in
            if delta = 0
            then st\<lparr> us_duplicate_sequence_count := us_duplicate_sequence_count st + 1 \<rparr>
            else if delta < 0x80000000
            then let st = (if delta > 1
                   then st\<lparr> us_sequence_gap_count := us_sequence_gap_count st + 1,
                            us_missing_sequence_count := us_missing_sequence_count st + (delta - 1) \<rparr>
                   else st) in
                 st\<lparr> us_last_sequence := Some current \<rparr>
            else st\<lparr> us_reordered_sequence_count := us_reordered_sequence_count st + 1 \<rparr>)"

section \<open>Capture files\<close>

text \<open>
  \<^verbatim>\<open>str.encode("utf-8")\<close> on characters below 256, which includes every textual IP address.
\<close>

definition utf8_char :: "char \<Rightarrow> bytes" where
  "utf8_char c =
     (if code c < 128 then [of_nat (code c)]
      else [of_nat (192 + code c div 64), of_nat (128 + code c mod 64)])"

definition utf8_encode :: "string \<Rightarrow> bytes" where
  "utf8_encode s = concat (map utf8_char s)"

text \<open>
  \<^verbatim>\<open>FramedCaptureWriter\<close>: \<open>cw_file\<close> is the file's contents (\<open>None\<close>: it does not exist), \<open>cw_open\<close> whether
  the stream is open. While the stream is open its position is the end of the file.
\<close>

record capture_writer =
  cw_append :: bool
  cw_flush_every :: int
  cw_file :: "bytes option"
  cw_open :: bool
  cw_records_since_flush :: int

function validate_records :: "bytes \<Rightarrow> unit result" where
  "validate_records stream =
     (if stream = [] then Inr ()
      else if length stream < 16
      then Inl (Exn ValueError ''truncated record header'')
      else
        let f = unpack_fields CAPTURE_RECORD_STRUCT (take 16 stream);
            record_bytes = nat (f ! 2) + nat (f ! 3);
            rest = drop 16 stream in
        if length rest < record_bytes then Inl (Exn ValueError ''truncated record payload'')
        else validate_records (drop record_bytes rest))"
  by pat_completeness auto
termination
  by (relation "measure length") auto

declare validate_records.simps [simp del]

definition validate_existing_capture :: "bytes \<Rightarrow> unit result" where
  "validate_existing_capture contents =
     (if take 8 contents \<noteq> CAPTURE_MAGIC then Inl (Exn ValueError ''bad magic'')
      else validate_records (drop 8 contents))"

definition capture_open :: "capture_writer \<Rightarrow> capture_writer result" where
  "capture_open w =
     (if cw_open w then Inr w
      else
        rbind
          (case cw_file w of
             Some contents \<Rightarrow>
               if cw_append w
               then rbind (validate_existing_capture contents) (\<lambda>_. Inr contents)
               else Inr CAPTURE_MAGIC
           | None \<Rightarrow> Inr CAPTURE_MAGIC)
          (\<lambda>contents. Inr (w\<lparr> cw_file := Some contents, cw_open := True,
                              cw_records_since_flush := 0 \<rparr>)))"

definition capture_close :: "capture_writer \<Rightarrow> capture_writer" where
  "capture_close w = w\<lparr> cw_open := False \<rparr>"

text \<open>\<^verbatim>\<open>write\<close> returns the writer it leaves behind and the exception it raises, if any.\<close>

definition capture_write :: "capture_writer \<Rightarrow> received_datagram \<Rightarrow> capture_writer \<times> exn option" where
  "capture_write w d =
     (case (if cw_open w then Inr w else capture_open w) of
        Inl e \<Rightarrow> (w, Some e)
      | Inr w \<Rightarrow>
          let host_raw = utf8_encode (rd_source_host d) in
          if length host_raw > 0xFFFF
          then (w, Some (Exn ValueError ''source host string too long for capture framing''))
          else if length (rd_data d) > 0xFFFFFFFF
          then (w, Some (Exn ValueError ''datagram too large for capture framing''))
          else
            case struct_pack CAPTURE_RECORD_STRUCT
                [rd_recv_time_ns d, rd_source_port d, int (length host_raw), int (length (rd_data d))] of
              Inl e \<Rightarrow> (w, Some e)
            | Inr header \<Rightarrow>
                let w = w\<lparr> cw_file := Some (the (cw_file w) @ header @ host_raw @ rd_data d),
                           cw_records_since_flush := cw_records_since_flush w + 1 \<rparr> in
                (if cw_records_since_flush w \<ge> cw_flush_every w
                 then w\<lparr> cw_records_since_flush := 0 \<rparr> else w, None))"

section \<open>The receiver\<close>

text \<open>
  One call of the socket. \<open>SockData data flagged host port now fault\<close>: the call returned \<open>data\<close> from
  \<open>(host, port)\<close>, \<open>flagged\<close> is the kernel's \<^verbatim>\<open>MSG_TRUNC\<close> bit, \<open>now\<close> the clock after it, and \<open>fault\<close> an
  operating-system error while the capture record of this datagram is written, with the bytes that reached
  the file.
\<close>

datatype sock_event =
    SockData bytes bool string int int "(string \<times> bytes) option"
  | SockTimeout
  | SockWouldBlock
  | SockError string

record udp_receiver =
  rv_config :: udp_receiver_config
  rv_has_recvmsg :: bool
  rv_stats :: receiver_stats
  rv_open :: bool
  rv_capture :: "capture_writer option"

definition rv_parser :: "udp_receiver \<Rightarrow> parser_config" where
  "rv_parser r = \<lparr> allow_wrap = rx_allow_wrap (rv_config r),
                   enforce_udp_limit = rx_enforce_udp_limit (rv_config r), exact_length = True \<rparr>"

text \<open>\<^verbatim>\<open>_receive_socket_datagram\<close>: the truncation signal of either platform.\<close>

definition socket_truncated :: "udp_receiver \<Rightarrow> bytes \<Rightarrow> bool \<Rightarrow> bool" where
  "socket_truncated r data flagged =
     (if rv_has_recvmsg r then flagged else rx_buffer_bytes (rv_config r) \<le> int (length data))"

text \<open>The counters up to the source filter.\<close>

definition note_seen :: "receiver_stats \<Rightarrow> int \<Rightarrow> bool \<Rightarrow> bool \<Rightarrow> receiver_stats" where
  "note_seen st now truncated oversized =
     st\<lparr> us_datagrams_seen := us_datagrams_seen st + 1,
         us_first_recv_time_ns := or_first (us_first_recv_time_ns st) now,
         us_last_recv_time_ns := Some now,
         us_datagrams_socket_truncated :=
           us_datagrams_socket_truncated st + (if truncated then 1 else 0),
         us_datagrams_truncated_or_oversized :=
           us_datagrams_truncated_or_oversized st + (if truncated \<or> oversized then 1 else 0) \<rparr>"

definition receive_datagram ::
    "udp_receiver \<Rightarrow> sock_event \<Rightarrow> udp_receiver \<times> received_datagram option result" where
  "receive_datagram r ev =
     (if \<not> rv_open r then (r, Inl (Exn RuntimeError ''UDP receiver is not open''))
      else
        let st = rv_stats r in
        case ev of
          SockTimeout \<Rightarrow>
            (r\<lparr> rv_stats := st\<lparr> us_socket_timeouts := us_socket_timeouts st + 1 \<rparr> \<rparr>, Inr None)
        | SockWouldBlock \<Rightarrow>
            (r\<lparr> rv_stats := st\<lparr> us_socket_timeouts := us_socket_timeouts st + 1 \<rparr> \<rparr>, Inr None)
        | SockError msg \<Rightarrow>
            (r\<lparr> rv_stats := st\<lparr> us_socket_errors := us_socket_errors st + 1,
                                us_last_error := Some msg \<rparr> \<rparr>, Inl (Exn OSError msg))
        | SockData data flagged host port now fault \<Rightarrow>
            let truncated = socket_truncated r data flagged;
                st = note_seen st now truncated (rx_buffer_bytes (rv_config r) \<le> int (length data)) in
            if rx_expected_source (rv_config r) \<noteq> None \<and>
               \<not> endpoint_matches (the (rx_expected_source (rv_config r))) host port
            then (r\<lparr> rv_stats := st\<lparr> us_datagrams_source_rejected :=
                                       us_datagrams_source_rejected st + 1 \<rparr> \<rparr>, Inr None)
            else
              let datagram = \<lparr> rd_recv_time_ns = now, rd_source_host = host, rd_source_port = port,
                               rd_data = data, rd_truncated = truncated \<rparr>;
                  st = st\<lparr> us_datagrams_accepted := us_datagrams_accepted st + 1,
                           us_bytes_accepted := us_bytes_accepted st + int (length data) \<rparr>;
                  r = r\<lparr> rv_stats := st \<rparr> in
              case (if truncated then None else rv_capture r) of
                None \<Rightarrow> (r, Inr (Some datagram))
              | Some w \<Rightarrow>
                  (case fault of
                     Some (msg, partial) \<Rightarrow>
                       (r\<lparr> rv_stats := st\<lparr> us_capture_write_errors := us_capture_write_errors st + 1,
                                           us_last_error := Some msg \<rparr>,
                           rv_capture := Some (w\<lparr> cw_file := map_option (\<lambda>f. f @ partial) (cw_file w) \<rparr>) \<rparr>,
                        Inl (Exn OSError msg))
                   | None \<Rightarrow>
                       (case capture_write w datagram of
                          (w, None) \<Rightarrow> (r\<lparr> rv_capture := Some w \<rparr>, Inr (Some datagram))
                        | (w, Some e) \<Rightarrow> (r\<lparr> rv_capture := Some w \<rparr>, Inl e))))"

definition receive_event ::
    "udp_receiver \<Rightarrow> sock_event \<Rightarrow> udp_receiver \<times> receiver_event option result" where
  "receive_event r ev =
     (case receive_datagram r ev of
        (r, Inl e) \<Rightarrow> (r, Inl e)
      | (r, Inr None) \<Rightarrow> (r, Inr None)
      | (r, Inr (Some datagram)) \<Rightarrow>
          let st = rv_stats r in
          if rd_truncated datagram
          then
            let err = perr ''UDP datagram was truncated by the receive socket'' in
            (r\<lparr> rv_stats := st\<lparr> us_last_error := Some (exn_msg err),
                                us_last_error_kind := Some ''socket_truncated'' \<rparr> \<rparr>,
             Inr (Some \<lparr> re_datagram = datagram, re_packet = None, re_error = Some err,
                         re_error_kind = Some ''socket_truncated'' \<rparr>))
          else
            case parse_datagram (rv_parser r) (rd_data datagram) of
              Inl e \<Rightarrow>
                if handled_by (exn_class e) PacketParserError
                then (r\<lparr> rv_stats := st\<lparr> us_parse_errors := us_parse_errors st + 1,
                                          us_last_error := Some (exn_msg e),
                                          us_last_error_kind := Some ''parse_error'' \<rparr> \<rparr>,
                      Inr (Some \<lparr> re_datagram = datagram, re_packet = None, re_error = Some e,
                                  re_error_kind = Some ''parse_error'' \<rparr>))
                else (r, Inl e)
            | Inr packet \<Rightarrow>
                (r\<lparr> rv_stats := note_parsed_packet st packet (rd_recv_time_ns datagram) \<rparr>,
                 Inr (Some \<lparr> re_datagram = datagram, re_packet = Some packet, re_error = None,
                             re_error_kind = None \<rparr>)))"

text \<open>
  \<^verbatim>\<open>iter_events\<close> over the socket calls made until the stop event is set: the events yielded, and the
  exception that ended the generator, if one did. \<open>budget\<close> is \<^verbatim>\<open>max_events\<close> less the events yielded.
\<close>

fun iter_events ::
    "nat option \<Rightarrow> udp_receiver \<Rightarrow> sock_event list \<Rightarrow>
     udp_receiver \<times> receiver_event list \<times> exn option" where
  "iter_events budget r [] = (r, [], None)"
| "iter_events budget r (ev # evs) =
     (case receive_event r ev of
        (r, Inl e) \<Rightarrow> (r, [], Some e)
      | (r, Inr None) \<Rightarrow> iter_events budget r evs
      | (r, Inr (Some out)) \<Rightarrow>
          if budget \<noteq> None \<and> the budget \<le> 1 then (r, [out], None)
          else (case iter_events (map_option (\<lambda>n. n - 1) budget) r evs of
                  (r, outs, err) \<Rightarrow> (r, out # outs, err)))"

definition iter_packets ::
    "udp_receiver \<Rightarrow> sock_event list \<Rightarrow> (received_datagram \<times> parsed_packet) list" where
  "iter_packets r evs =
     (case iter_events None r evs of (_, outs, _) \<Rightarrow>
        map (\<lambda>e. (re_datagram e, the (re_packet e))) (filter event_ok outs))"

section \<open>The background thread\<close>

record background =
  bg_receiver :: udp_receiver
  bg_queue :: "receiver_event list"
  bg_maxsize :: nat
  bg_queue_drop_count :: nat
  bg_thread_error :: "exn option"
  bg_stopped :: bool

text \<open>
  \<^verbatim>\<open>_run\<close> as a step per socket call. \<open>on_event\<close> is the callback: the exception it raises on an event, if
  any. Whatever escapes is stored in \<^verbatim>\<open>thread_error\<close> and ends the thread. The other actions are the
  consumer taking an event from the queue and \<^verbatim>\<open>stop()\<close>.
\<close>

definition bg_run_step ::
    "(receiver_event \<Rightarrow> exn option) \<Rightarrow> background \<Rightarrow> sock_event \<Rightarrow> background" where
  "bg_run_step on_event b ev =
     (if bg_stopped b then b
      else
        case receive_event (bg_receiver b) ev of
          (r, Inl e) \<Rightarrow> b\<lparr> bg_receiver := r, bg_thread_error := Some e, bg_stopped := True \<rparr>
        | (r, Inr None) \<Rightarrow> b\<lparr> bg_receiver := r \<rparr>
        | (r, Inr (Some event)) \<Rightarrow>
            (case on_event event of
               Some e \<Rightarrow> b\<lparr> bg_receiver := r, bg_thread_error := Some e, bg_stopped := True \<rparr>
             | None \<Rightarrow>
                 if length (bg_queue b) < bg_maxsize b
                 then b\<lparr> bg_receiver := r, bg_queue := bg_queue b @ [event] \<rparr>
                 else b\<lparr> bg_receiver := r, bg_queue_drop_count := bg_queue_drop_count b + 1 \<rparr>))"

datatype bg_action = Sock sock_event | Take | Stop

definition bg_step :: "(receiver_event \<Rightarrow> exn option) \<Rightarrow> background \<Rightarrow> bg_action \<Rightarrow> background" where
  "bg_step on_event b act =
     (case act of
        Sock ev \<Rightarrow> bg_run_step on_event b ev
      | Take \<Rightarrow> b\<lparr> bg_queue := tl (bg_queue b) \<rparr>
      | Stop \<Rightarrow> b\<lparr> bg_stopped := True \<rparr>)"

section \<open>Sequence accounting refines the specification\<close>

definition rx_obs :: "receiver_stats \<Rightarrow> serial_state" where
  "rx_obs st =
     \<lparr> hw = us_last_sequence st, gaps = us_sequence_gap_count st,
       missing = us_missing_sequence_count st, duplicates = us_duplicate_sequence_count st,
       reordered = us_reordered_sequence_count st \<rparr>"

lemma note_parsed_packet_obs:
  "rx_obs (note_parsed_packet st p t) = serial_step (rx_obs st) (packet_seq p)"
  by (simp add: note_parsed_packet_def serial_step_def rx_obs_def packet_seq_def and_mask32 Let_def
      split: option.splits)

interpretation rx: seq_tracker rx_obs "\<lambda>st tp. note_parsed_packet st (snd tp) (fst tp)"
    "\<lambda>tp. packet_seq (snd tp)"
  by unfold_locales (simp add: note_parsed_packet_obs)

text \<open>
  Sequence accounting of the receiver. Once a first sequence number has been seen, over any packets the
  high-water mark moves, modulo \<open>2 ^ 32\<close>, by exactly the number of sequenced packets that were neither
  duplicates nor reordered plus the numbers counted as missing.
\<close>

theorem receiver_sequence_accounting:
  assumes "us_last_sequence st = Some h"
  shows "\<exists>h'. us_last_sequence (foldl (\<lambda>s (t, p). note_parsed_packet s p t) st tps) = Some h' \<and>
    (h' - h) mod 2 ^ 32 =
      (int (length (filter (\<lambda>(t, p). participates_in_sequence (pp_header p)) tps))
       - (us_duplicate_sequence_count (foldl (\<lambda>s (t, p). note_parsed_packet s p t) st tps)
          - us_duplicate_sequence_count st)
       - (us_reordered_sequence_count (foldl (\<lambda>s (t, p). note_parsed_packet s p t) st tps)
          - us_reordered_sequence_count st)
       + (us_missing_sequence_count (foldl (\<lambda>s (t, p). note_parsed_packet s p t) st tps)
          - us_missing_sequence_count st)) mod 2 ^ 32"
proof -
  have run: "foldl (\<lambda>s (t, p). note_parsed_packet s p t) st tps =
      foldl (\<lambda>s tp. note_parsed_packet s (snd tp) (fst tp)) st tps"
    by (simp add: case_prod_unfold)
  have "numbered (map (\<lambda>tp. packet_seq (snd tp)) tps) =
      int (length (filter (\<lambda>(t, p). participates_in_sequence (pp_header p)) tps))"
    by (simp add: numbered_def filter_map comp_def packet_seq_def case_prod_unfold cong: filter_cong)
  then show ?thesis
    using rx.run_advance [where s = st and h = h and ps = tps] assms
    by (simp add: advanced_def rx_obs_def run)
qed

section \<open>Capture files are read back\<close>

definition capturable :: "received_datagram \<Rightarrow> bool" where
  "capturable d \<longleftrightarrow>
     0 \<le> rd_recv_time_ns d \<and> rd_recv_time_ns d < 2 ^ 64 \<and>
     0 \<le> rd_source_port d \<and> rd_source_port d < 2 ^ 16 \<and>
     length (utf8_encode (rd_source_host d)) < 2 ^ 16 \<and> length (rd_data d) < 2 ^ 32"

definition record_of :: "received_datagram \<Rightarrow> capture_record" where
  "record_of d = (rd_recv_time_ns d, utf8_encode (rd_source_host d), rd_source_port d, rd_data d)"

definition frame_of :: "received_datagram \<Rightarrow> bytes" where
  "frame_of d =
     pack_fields CAPTURE_RECORD_STRUCT
       [rd_recv_time_ns d, rd_source_port d, int (length (utf8_encode (rd_source_host d))),
        int (length (rd_data d))] @ utf8_encode (rd_source_host d) @ rd_data d"

lemma capture_header_fits:
  "capturable d \<Longrightarrow> fields_fit CAPTURE_RECORD_STRUCT
     [rd_recv_time_ns d, rd_source_port d, int (length (utf8_encode (rd_source_host d))),
      int (length (rd_data d))]"
  by (auto simp: capturable_def CAPTURE_RECORD_STRUCT_def)

text \<open>The three shapes of a record stream, for the reader and for the appender's check alike.\<close>

lemma records_Nil [simp]: "iter_records [] = ([], None)" "validate_records [] = Inr ()"
  by (simp_all add: iter_records.simps [of "[]"] validate_records.simps [of "[]"])

lemma records_Cons:
  assumes "length hdr = 16" "unpack_fields CAPTURE_RECORD_STRUCT hdr = [t, p, a, n]"
    "length addr = nat a" "length data = nat n"
  shows "iter_records (hdr @ addr @ data @ rest) =
      ((t, addr, p, data) # fst (iter_records rest), snd (iter_records rest))"
    and "validate_records (hdr @ addr @ data @ rest) = validate_records rest"
proof -
  have ne: "hdr \<noteq> []" using assms(1) by auto
  show "iter_records (hdr @ addr @ data @ rest) =
      ((t, addr, p, data) # fst (iter_records rest), snd (iter_records rest))"
    using assms ne
    by (simp add: iter_records.simps [of "hdr @ addr @ data @ rest"] Let_def case_prod_unfold)
  show "validate_records (hdr @ addr @ data @ rest) = validate_records rest"
    using assms ne
    by (simp add: validate_records.simps [of "hdr @ addr @ data @ rest"] Let_def)
qed

lemma records_cases:
  obtains (empty) "s = []"
  | (bad) e e' where "iter_records s = ([], Some e)" "validate_records s = Inl e'"
  | (rec) hdr t p a n addr data rest where "s = hdr @ addr @ data @ rest" "length hdr = 16"
      "unpack_fields CAPTURE_RECORD_STRUCT hdr = [t, p, a, n]" "length addr = nat a" "length data = nat n"
proof -
  consider "s = []" | "s \<noteq> []" "length s < 16" | "16 \<le> length s" by linarith
  then show ?thesis
  proof cases
    case 1
    then show ?thesis by (rule empty)
  next
    case 2
    then show ?thesis
      using bad by (simp add: iter_records.simps [of s] validate_records.simps [of s])
  next
    case 3
    then have ne: "s \<noteq> []" by auto
    obtain t p a n where f: "unpack_fields CAPTURE_RECORD_STRUCT (take 16 s) = [t, p, a, n]"
      by (simp add: CAPTURE_RECORD_STRUCT_def)
    show ?thesis
    proof (cases "nat a + nat n \<le> length s - 16")
      case True
      let ?r = "drop 16 s"
      have "s = take 16 s @ take (nat a) ?r @ take (nat n) (drop (nat a) ?r) @ drop (nat n) (drop (nat a) ?r)"
        by (simp only: append_take_drop_id)
      with f 3 True show ?thesis by (intro rec) auto
    next
      case False
      then have "validate_records s = Inl (Exn ValueError ''truncated record payload'')"
        using 3 ne f by (simp add: validate_records.simps [of s] Let_def)
      moreover have "\<exists>e. iter_records s = ([], Some e)"
        using False 3 ne f by (auto simp: iter_records.simps [of s] Let_def)
      ultimately show ?thesis using bad by blast
    qed
  qed
qed

lemma iter_records_frame:
  assumes "capturable d"
  shows "iter_records (frame_of d @ rest) =
    (record_of d # fst (iter_records rest), snd (iter_records rest))"
  using records_Cons(1) [OF _ unpack_pack_fields [OF capture_header_fits [OF assms], of "[]", simplified],
      of "utf8_encode (rd_source_host d)" "rd_data d" rest]
  by (simp add: frame_of_def record_of_def length_pack_fields CAPTURE_RECORD_STRUCT_def)

lemma iter_records_frames:
  "list_all capturable ds \<Longrightarrow>
   iter_records (concat (map frame_of ds) @ rest) =
     (map record_of ds @ fst (iter_records rest), snd (iter_records rest))"
  by (induction ds) (simp_all add: iter_records_frame)

lemma iter_records_append:
  "snd (iter_records s) = None \<Longrightarrow>
   iter_records (s @ b) = (fst (iter_records s) @ fst (iter_records b), snd (iter_records b))"
proof (induction s rule: length_induct)
  case (1 s)
  show ?case
  proof (cases rule: records_cases [of s])
    case (rec hdr t p a n addr data rest)
    note step = records_Cons(1) [OF rec(2-5)]
    have "length rest < length s" using rec(1,2) by simp
    moreover have "snd (iter_records rest) = None" using 1(2) step [of rest] rec(1) by simp
    ultimately show ?thesis using 1(1) step [of rest] step [of "rest @ b"] rec(1) by simp
  qed (use 1 in simp_all)
qed

text \<open>The appender's check and the reader agree on what a complete capture is.\<close>

lemma validate_records_iff: "validate_records s = Inr () \<longleftrightarrow> snd (iter_records s) = None"
proof (induction s rule: length_induct)
  case (1 s)
  show ?case
  proof (cases rule: records_cases [of s])
    case (rec hdr t p a n addr data rest)
    have "length rest < length s" using rec(1,2) by simp
    with 1 show ?thesis
      using records_Cons [OF rec(2-5), of rest] rec(1) by simp
  qed simp_all
qed

fun capture_write_all ::
    "capture_writer \<Rightarrow> received_datagram list \<Rightarrow> capture_writer \<times> exn option" where
  "capture_write_all w [] = (w, None)"
| "capture_write_all w (d # ds) =
     (case capture_write w d of
        (w, Some e) \<Rightarrow> (w, Some e)
      | (w, None) \<Rightarrow> capture_write_all w ds)"

lemma capture_write_ok:
  assumes "cw_open w" "cw_file w = Some f" "capturable d"
  obtains w' where "capture_write w d = (w', None)" "cw_open w'" "cw_file w' = Some (f @ frame_of d)"
  using assms capture_header_fits [OF assms(3)] that
  by (auto simp: capture_write_def Let_def struct_pack_def frame_of_def capturable_def)

lemma capture_write_all_ok:
  "cw_open w \<Longrightarrow> cw_file w = Some f \<Longrightarrow> list_all capturable ds \<Longrightarrow>
   \<exists>w'. capture_write_all w ds = (w', None) \<and> cw_file w' = Some (f @ concat (map frame_of ds))"
proof (induction ds arbitrary: w f)
  case (Cons d ds)
  from Cons.prems obtain w' where "capture_write w d = (w', None)" "cw_open w'"
      "cw_file w' = Some (f @ frame_of d)"
    by (auto elim: capture_write_ok)
  with Cons.IH [of w' "f @ frame_of d"] Cons.prems show ?case by simp
qed simp

text \<open>The contents a freshly opened capture starts from, always a complete capture.\<close>

lemma capture_open_contents:
  assumes "capture_open w = Inr w0" "\<not> cw_open w"
  shows "\<exists>old. cw_file w0 = Some (CAPTURE_MAGIC @ old) \<and> snd (iter_records old) = None \<and> cw_open w0 \<and>
    fst (iter_records old) =
      (if cw_append w \<and> cw_file w \<noteq> None then fst (iter_capture_datagrams (the (cw_file w))) else [])"
proof (cases "cw_append w \<and> cw_file w \<noteq> None")
  case True
  then obtain c where c: "cw_file w = Some c" by auto
  with True assms have v: "validate_existing_capture c = Inr ()" and w0: "cw_file w0 = Some c" "cw_open w0"
    by (auto simp: capture_open_def result_simps)
  then have m: "take 8 c = CAPTURE_MAGIC" and "validate_records (drop 8 c) = Inr ()"
    by (auto simp: validate_existing_capture_def split: if_splits)
  then have "c = CAPTURE_MAGIC @ drop 8 c" "snd (iter_records (drop 8 c)) = None"
    by (simp_all add: validate_records_iff) (metis append_take_drop_id)
  with w0 m True c show ?thesis
    by (intro exI [of _ "drop 8 c"]) (auto simp: iter_capture_datagrams_def)
next
  case False
  then have "cw_file w0 = Some CAPTURE_MAGIC" "cw_open w0"
    using assms by (cases "cw_file w"; auto simp: capture_open_def result_simps)+
  with False show ?thesis by (intro exI [of _ "[]"]) auto
qed

text \<open>
  C11: captures are read back complete. Open a capture file, new or to append to an existing one, and write
  any datagrams whose fields fit the frame: every write succeeds, and the replay reader then yields the
  datagrams the file already held, followed by exactly those written, in order, and ends without an error.
\<close>

theorem capture_round_trip:
  assumes "capture_open w = Inr w0" "\<not> cw_open w" "list_all capturable ds"
  shows "\<exists>w'. capture_write_all w0 ds = (w', None) \<and>
    iter_capture_datagrams (the (cw_file w')) =
      ((if cw_append w \<and> cw_file w \<noteq> None then fst (iter_capture_datagrams (the (cw_file w))) else [])
         @ map record_of ds, None)"
proof -
  obtain old where old: "cw_file w0 = Some (CAPTURE_MAGIC @ old)" "snd (iter_records old) = None" "cw_open w0"
    "fst (iter_records old) =
      (if cw_append w \<and> cw_file w \<noteq> None then fst (iter_capture_datagrams (the (cw_file w))) else [])"
    using capture_open_contents [OF assms(1,2)] by blast
  obtain w' where w': "capture_write_all w0 ds = (w', None)"
      "cw_file w' = Some ((CAPTURE_MAGIC @ old) @ concat (map frame_of ds))"
    using capture_write_all_ok [OF old(3,1) assms(3)] by blast
  have magic: "length CAPTURE_MAGIC = 8" by (simp add: CAPTURE_MAGIC_def)
  have "iter_records (old @ concat (map frame_of ds)) = (fst (iter_records old) @ map record_of ds, None)"
    using iter_records_append [OF old(2), of "concat (map frame_of ds)"]
      iter_records_frames [OF assms(3), of "[]"] by simp
  then show ?thesis
    using w' magic old(4) by (simp add: iter_capture_datagrams_def)
qed

section \<open>The receive loop\<close>

definition stats_ok :: "receiver_stats \<Rightarrow> bool" where
  "stats_ok st \<longleftrightarrow>
     us_datagrams_seen st = us_datagrams_accepted st + us_datagrams_source_rejected st \<and>
     0 \<le> us_datagrams_socket_truncated st \<and>
     us_datagrams_socket_truncated st \<le> us_datagrams_truncated_or_oversized st \<and>
     us_datagrams_truncated_or_oversized st \<le> us_datagrams_seen st \<and>
     0 \<le> us_parse_errors st \<and> 0 \<le> us_payload_truncated_packet_count st \<and>
     us_payload_truncated_packet_count st \<le> us_packets_parsed st \<and>
     us_packets_parsed st + us_parse_errors st \<le> us_datagrams_accepted st \<and>
     0 \<le> us_sequence_gap_count st \<and> us_sequence_gap_count st \<le> us_missing_sequence_count st \<and>
     hw_ok (rx_obs st)"

definition rx_ok :: "udp_receiver \<Rightarrow> bool" where
  "rx_ok r \<longleftrightarrow> stats_ok (rv_stats r)"

text \<open>A datagram the source filter lets through counts as accepted before it is looked at.\<close>

definition stats_pending :: "receiver_stats \<Rightarrow> bool" where
  "stats_pending st \<longleftrightarrow>
     stats_ok st \<and> us_packets_parsed st + us_parse_errors st < us_datagrams_accepted st"

lemma stats_ok_frame [simp]:
  "stats_ok (st\<lparr> us_socket_timeouts := n1 \<rparr>) = stats_ok st"
  "stats_ok (st\<lparr> us_socket_errors := n2 \<rparr>) = stats_ok st"
  "stats_ok (st\<lparr> us_capture_write_errors := n3 \<rparr>) = stats_ok st"
  "stats_ok (st\<lparr> us_last_error := e \<rparr>) = stats_ok st"
  "stats_ok (st\<lparr> us_last_error_kind := k \<rparr>) = stats_ok st"
  "stats_ok (st\<lparr> us_bytes_accepted := n4 \<rparr>) = stats_ok st"
  by (simp_all add: stats_ok_def rx_obs_def)

lemma stats_rejected:
  "stats_ok st \<Longrightarrow> stats_ok ((note_seen st now tr ov)
     \<lparr> us_datagrams_source_rejected := us_datagrams_source_rejected (note_seen st now tr ov) + 1 \<rparr>)"
  by (cases tr; cases ov) (auto simp: stats_ok_def note_seen_def rx_obs_def)

lemma stats_accepted:
  "stats_ok st \<Longrightarrow> stats_pending ((note_seen st now tr ov)
     \<lparr> us_datagrams_accepted := us_datagrams_accepted (note_seen st now tr ov) + 1,
       us_bytes_accepted := n \<rparr>)"
  by (cases tr; cases ov) (auto simp: stats_pending_def stats_ok_def note_seen_def rx_obs_def)

lemma stats_pending_ok: "stats_pending st \<Longrightarrow> stats_ok st"
  by (simp add: stats_pending_def)

lemma receive_datagram_ok:
  assumes "rx_ok r" "receive_datagram r ev = (r', res)"
  shows "rx_ok r' \<and> (\<forall>d. res = Inr (Some d) \<longrightarrow> stats_pending (rv_stats r'))"
proof (cases "rv_open r")
  case False
  with assms show ?thesis by (auto simp: receive_datagram_def)
next
  case True
  show ?thesis
  proof (cases ev)
    case (SockData data flagged host port now fault)
    note acc = stats_accepted [OF assms(1) [unfolded rx_ok_def]]
    show ?thesis
      using assms True SockData stats_rejected acc stats_pending_ok [OF acc]
      by (auto simp: receive_datagram_def rx_ok_def Let_def simp del: stats_ok_frame(6)
          split: if_splits option.splits prod.splits)
  qed (use assms True in \<open>auto simp: receive_datagram_def rx_ok_def Let_def\<close>)
qed

lemma note_parsed_packet_frame [simp]:
  "us_datagrams_seen (note_parsed_packet st p t) = us_datagrams_seen st"
  "us_datagrams_accepted (note_parsed_packet st p t) = us_datagrams_accepted st"
  "us_datagrams_source_rejected (note_parsed_packet st p t) = us_datagrams_source_rejected st"
  "us_datagrams_socket_truncated (note_parsed_packet st p t) = us_datagrams_socket_truncated st"
  "us_datagrams_truncated_or_oversized (note_parsed_packet st p t) =
     us_datagrams_truncated_or_oversized st"
  "us_parse_errors (note_parsed_packet st p t) = us_parse_errors st"
  "us_packets_parsed (note_parsed_packet st p t) = us_packets_parsed st + 1"
  "us_payload_truncated_packet_count (note_parsed_packet st p t) =
     us_payload_truncated_packet_count st + (if fl_payload_truncated (th_flags (pp_header p)) then 1 else 0)"
  by (simp_all add: note_parsed_packet_def Let_def split: option.splits)

lemma rx_obs_gaps:
  "us_sequence_gap_count st = gaps (rx_obs st)" "us_missing_sequence_count st = missing (rx_obs st)"
  by (simp_all add: rx_obs_def)

lemma stats_parse_error:
  "stats_pending st \<Longrightarrow> stats_ok (st\<lparr> us_parse_errors := us_parse_errors st + 1 \<rparr>)"
  by (auto simp: stats_pending_def stats_ok_def rx_obs_def)

lemma stats_parsed:
  assumes "stats_pending st"
  shows "stats_ok (note_parsed_packet st p t)"
proof -
  note mono = serial_step_monotone [of "rx_obs st" "packet_seq p"]
  have "0 \<le> gaps (rx_obs st)" "gaps (rx_obs st) \<le> missing (rx_obs st)" "hw_ok (rx_obs st)"
    using assms by (simp_all add: stats_pending_def stats_ok_def rx_obs_gaps)
  with mono have "0 \<le> us_sequence_gap_count (note_parsed_packet st p t)"
      "us_sequence_gap_count (note_parsed_packet st p t) \<le>
         us_missing_sequence_count (note_parsed_packet st p t)"
      "hw_ok (rx_obs (note_parsed_packet st p t))"
    by (auto simp: rx_obs_gaps note_parsed_packet_obs hw_ok_step)
  then show ?thesis
    using assms by (simp add: stats_ok_def stats_pending_def)
qed

lemma receive_event_ok:
  assumes "rx_ok r"
  shows "rx_ok (fst (receive_event r ev))"
proof -
  obtain r1 res where d: "receive_datagram r ev = (r1, res)" by fastforce
  note ok = receive_datagram_ok [OF assms d]
  show ?thesis
  proof (cases "\<exists>dg. res = Inr (Some dg)")
    case False
    then show ?thesis
      using ok d by (cases res) (auto simp: receive_event_def split: option.splits)
  next
    case True
    then obtain dg where res: "res = Inr (Some dg)" by blast
    with ok have pend: "stats_pending (rv_stats r1)" by simp
    show ?thesis
      using d res stats_pending_ok [OF pend] stats_parse_error [OF pend] stats_parsed [OF pend]
      by (cases "parse_datagram (rv_parser r1) (rd_data dg)")
         (auto simp: receive_event_def rx_ok_def Let_def)
  qed
qed

interpretation rx_inv: step_invariant "\<lambda>r ev. fst (receive_event r ev)" rx_ok
  by unfold_locales (rule receive_event_ok)

text \<open>
  No datagram is lost from the statistics. Whatever the socket delivers, in whatever order and with
  whatever failures, every datagram seen is either accepted or rejected by the source filter, the parsed
  packets and the parse errors together never exceed the accepted datagrams, truncations are a subset of
  the oversized ones and those of the datagrams seen, and every sequence gap stands for at least one missing
  number.
\<close>

theorem receiver_conservation:
  assumes "rv_stats r = receiver_stats_reset"
  shows "rx_ok (foldl (\<lambda>r ev. fst (receive_event r ev)) r evs)"
proof (rule rx_inv.run_inv)
  show "rx_ok r"
    using assms by (simp add: rx_ok_def stats_ok_def receiver_stats_reset_def rx_obs_def hw_ok_def)
qed

section \<open>The background thread\<close>

text \<open>
  A run of the thread and its consumer, with the events the thread produced and the events the consumer
  took, in order.
\<close>

fun bg_trace ::
    "(receiver_event \<Rightarrow> exn option) \<Rightarrow> background \<Rightarrow> bg_action list \<Rightarrow>
     background \<times> receiver_event list \<times> receiver_event list" where
  "bg_trace f b [] = (b, [], [])"
| "bg_trace f b (act # acts) =
     (let produced = (case act of
            Sock ev \<Rightarrow>
              if bg_stopped b then []
              else (case snd (receive_event (bg_receiver b) ev) of
                      Inr (Some e) \<Rightarrow> if f e = None then [e] else []
                    | _ \<Rightarrow> [])
          | _ \<Rightarrow> []);
          taken = (case act of Take \<Rightarrow> take 1 (bg_queue b) | _ \<Rightarrow> []) in
      case bg_trace f (bg_step f b act) acts of
        (b', ps, ts) \<Rightarrow> (b', produced @ ps, taken @ ts))"

lemma bg_trace_state: "fst (bg_trace f b acts) = foldl (bg_step f) b acts"
  by (induction acts arbitrary: b) (simp_all add: Let_def case_prod_unfold)

text \<open>One action: what enters the queue on the right, what leaves it on the left, what is dropped.\<close>

lemma bg_step_queue:
  obtains (produce) ev e where "act = Sock ev" "\<not> bg_stopped b"
      "snd (receive_event (bg_receiver b) ev) = Inr (Some e)" "f e = None"
      "length (bg_queue b) < bg_maxsize b" "bg_queue (bg_step f b act) = bg_queue b @ [e]"
      "bg_queue_drop_count (bg_step f b act) = bg_queue_drop_count b"
  | (drop) ev e where "act = Sock ev" "\<not> bg_stopped b"
      "snd (receive_event (bg_receiver b) ev) = Inr (Some e)" "f e = None"
      "\<not> length (bg_queue b) < bg_maxsize b" "bg_queue (bg_step f b act) = bg_queue b"
      "bg_queue_drop_count (bg_step f b act) = bg_queue_drop_count b + 1"
  | (silent) ev where "act = Sock ev"
      "bg_stopped b \<or> (\<forall>e. snd (receive_event (bg_receiver b) ev) = Inr (Some e) \<longrightarrow> f e \<noteq> None)"
      "bg_queue (bg_step f b act) = bg_queue b"
      "bg_queue_drop_count (bg_step f b act) = bg_queue_drop_count b"
  | (take) "act = Take" "bg_queue (bg_step f b act) = tl (bg_queue b)"
      "bg_queue_drop_count (bg_step f b act) = bg_queue_drop_count b"
  | (stop) "act = Stop" "bg_queue (bg_step f b act) = bg_queue b"
      "bg_queue_drop_count (bg_step f b act) = bg_queue_drop_count b"
proof (cases act)
  case (Sock ev)
  obtain r res where re: "receive_event (bg_receiver b) ev = (r, res)" by fastforce
  show ?thesis
  proof (cases "bg_stopped b \<or> (\<forall>e. res = Inr (Some e) \<longrightarrow> f e \<noteq> None)")
    case True
    then have "bg_queue (bg_step f b act) = bg_queue b \<and>
        bg_queue_drop_count (bg_step f b act) = bg_queue_drop_count b"
      by (auto simp: bg_step_def bg_run_step_def Sock re split: sum.splits option.splits)
    with True show ?thesis using silent Sock re by simp
  next
    case False
    then obtain e where e: "res = Inr (Some e)" "f e = None" "\<not> bg_stopped b" by auto
    show ?thesis
    proof (cases "length (bg_queue b) < bg_maxsize b")
      case True
      with e re show ?thesis by (intro produce [OF Sock]) (auto simp: bg_step_def bg_run_step_def Sock)
    next
      case False
      with e re show ?thesis by (intro drop [OF Sock]) (auto simp: bg_step_def bg_run_step_def Sock)
    qed
  qed
qed (use take stop in \<open>simp_all add: bg_step_def\<close>)

lemma bg_trace_account:
  "bg_trace f b acts = (b', produced, taken) \<Longrightarrow>
     subseq (taken @ bg_queue b') (bg_queue b @ produced) \<and>
     length (bg_queue b) + length produced + bg_queue_drop_count b =
       length taken + length (bg_queue b') + bg_queue_drop_count b'"
proof (induction acts arbitrary: b produced taken)
  case Nil
  then show ?case by simp
next
  case (Cons act acts)
  obtain ps ts where rest: "bg_trace f (bg_step f b act) acts = (b', ps, ts)"
    using Cons.prems by (auto simp: Let_def split: prod.splits)
  note IH = Cons.IH [OF rest]
  show ?case
  proof (cases rule: bg_step_queue [of act b f])
    case (produce ev e)
    then have "produced = e # ps" "taken = ts" using Cons.prems rest by (auto simp: Let_def)
    with IH produce show ?thesis by simp
  next
    case (drop ev e)
    then have eq: "produced = e # ps" "taken = ts" using Cons.prems rest by (auto simp: Let_def)
    have "subseq (bg_queue b @ ps) (bg_queue b @ e # ps)"
      by (intro list_emb_append_mono subseq_order.refl list_emb_Cons)
    with IH drop eq show ?thesis by (auto intro: subseq_order.trans)
  next
    case (silent ev)
    then have "produced = ps" "taken = ts"
      using Cons.prems rest by (auto simp: Let_def split: sum.splits option.splits if_splits)
    with IH silent show ?thesis by simp
  next
    case take
    then have "produced = ps" "taken = List.take 1 (bg_queue b) @ ts"
      using Cons.prems rest by (auto simp: Let_def)
    with IH take show ?thesis by (cases "bg_queue b") auto
  next
    case stop
    then have "produced = ps" "taken = ts" using Cons.prems rest by (auto simp: Let_def)
    with IH stop show ?thesis by simp
  qed
qed

definition bg_ok :: "background \<Rightarrow> bool" where
  "bg_ok b \<longleftrightarrow> length (bg_queue b) \<le> bg_maxsize b \<and> (bg_thread_error b \<noteq> None \<longrightarrow> bg_stopped b)"

interpretation bg_inv: step_invariant "bg_step f" bg_ok for f
proof
  fix b act
  assume ok: "bg_ok b"
  have "bg_maxsize (bg_step f b act) = bg_maxsize b"
    by (auto simp: bg_step_def bg_run_step_def split: bg_action.splits prod.splits sum.splits option.splits)
  moreover have "bg_thread_error (bg_step f b act) \<noteq> None \<longrightarrow> bg_stopped (bg_step f b act)"
    using ok by (auto simp: bg_step_def bg_run_step_def bg_ok_def
        split: bg_action.splits prod.splits sum.splits option.splits)
  moreover have "length (bg_queue (bg_step f b act)) \<le> bg_maxsize b"
    using ok by (cases rule: bg_step_queue [of act b f]) (auto simp: bg_ok_def)
  ultimately show "bg_ok (bg_step f b act)" by (simp add: bg_ok_def)
qed

text \<open>
  The event queue loses nothing silently. For a background receiver with an empty queue, over any
  interleaving of socket calls, consumer reads and a stop, what the consumer took followed by what is still
  queued is a subsequence of the events the thread produced, so order is kept and nothing is delivered
  twice; the events produced are those taken, those queued and those counted in \<^verbatim>\<open>queue_drop_count\<close>; and
  the queue never exceeds its bound.
\<close>

theorem queue_accounting:
  assumes "bg_queue b = []" "bg_queue_drop_count b = 0" "bg_thread_error b = None"
    and "bg_trace f b acts = (b', produced, taken)"
  shows "subseq (taken @ bg_queue b') produced \<and>
    length produced = length taken + length (bg_queue b') + bg_queue_drop_count b' \<and>
    length (bg_queue b') \<le> bg_maxsize b'"
proof -
  have "bg_ok b" using assms by (simp add: bg_ok_def)
  then have "bg_ok (foldl (bg_step f) b acts)" by (rule bg_inv.run_inv)
  then have "bg_ok b'" using bg_trace_state [of f b acts] assms(4) by simp
  with bg_trace_account [OF assms(4)] assms(1,2) show ?thesis by (simp add: bg_ok_def)
qed


section \<open>Witnesses\<close>

definition example_receiver :: udp_receiver where
  "example_receiver =
     \<lparr> rv_config = default_rx_config, rv_has_recvmsg = True, rv_stats = receiver_stats_reset,
       rv_open = True, rv_capture = None \<rparr>"

definition example_background :: background where
  "example_background =
     \<lparr> bg_receiver = example_receiver, bg_queue = [], bg_maxsize = 1, bg_queue_drop_count = 0,
       bg_thread_error = None, bg_stopped = False \<rparr>"

definition example_datagram :: received_datagram where
  "example_datagram =
     \<lparr> rd_recv_time_ns = 17, rd_source_host = ''10.0.0.2'', rd_source_port = 5005,
       rd_data = [1, 2, 3], rd_truncated = False \<rparr>"

definition new_writer :: capture_writer where
  "new_writer =
     \<lparr> cw_append = False, cw_flush_every = 32, cw_file = None, cw_open = False,
       cw_records_since_flush = 0 \<rparr>"

lemma example_datagram_capturable: "capturable example_datagram"
  by (simp add: capturable_def example_datagram_def utf8_encode_def utf8_char_def code_def)

theorem receiver_sequence_accounting_witness:
  "\<exists>h'. us_last_sequence (foldl (\<lambda>s (t, p). note_parsed_packet s p t)
       (receiver_stats_reset\<lparr> us_last_sequence := Some 0xFFFFFFFF \<rparr>) [(1, example_packet 1)]) = Some h' \<and>
     (h' - 0xFFFFFFFF) mod 2 ^ 32 = 2"
proof -
  have st: "us_last_sequence (receiver_stats_reset\<lparr> us_last_sequence := Some 0xFFFFFFFF \<rparr>) = Some 0xFFFFFFFF"
    by simp
  have seq: "th_seq (pp_header (example_packet 1)) = 1"
    by (simp add: example_packet_def)
  show ?thesis
    using receiver_sequence_accounting [OF st, of "[(1, example_packet 1)]"]
    by (simp add: note_parsed_packet_def example_packet_participates seq receiver_stats_reset_def
        and_mask32 Let_def)
qed

theorem capture_round_trip_witness:
  "\<exists>w0 w'. capture_open new_writer = Inr w0 \<and>
     capture_write_all w0 [example_datagram, example_datagram] = (w', None) \<and>
     iter_capture_datagrams (the (cw_file w')) =
       ([record_of example_datagram, record_of example_datagram], None)"
proof -
  obtain w0 where w0: "capture_open new_writer = Inr w0"
    by (simp add: capture_open_def new_writer_def)
  have closed: "\<not> cw_open new_writer" by (simp add: new_writer_def)
  have ds: "list_all capturable [example_datagram, example_datagram]"
    by (simp add: example_datagram_capturable)
  from capture_round_trip [OF w0 closed ds] w0 show ?thesis by (simp add: new_writer_def)
qed

theorem receiver_conservation_witness:
  "rx_ok (foldl (\<lambda>r ev. fst (receive_event r ev)) example_receiver
     [SockTimeout, SockData [1] True ''10.0.0.2'' 5005 3 None, SockError ''down''])"
  by (rule receiver_conservation) (simp add: example_receiver_def)

theorem queue_accounting_witness:
  "\<exists>b' produced taken.
     bg_trace (\<lambda>_. None) example_background
       [Sock (SockData [1] True ''h'' 1 3 None), Sock (SockData [2] True ''h'' 1 4 None), Take] =
       (b', produced, taken) \<and>
     length produced = 2 \<and> length taken = 1 \<and> bg_queue_drop_count b' = 1 \<and>
     subseq (taken @ bg_queue b') produced"
proof -
  obtain b' produced taken where tr: "bg_trace (\<lambda>_. None) example_background
       [Sock (SockData [1] True ''h'' 1 3 None), Sock (SockData [2] True ''h'' 1 4 None), Take] =
       (b', produced, taken)"
    by (metis prod_cases3)
  have "length produced = 2 \<and> length taken = 1 \<and> bg_queue_drop_count b' = 1"
    using tr
    by (auto simp: Let_def bg_step_def bg_run_step_def receive_event_def receive_datagram_def
        example_background_def example_receiver_def default_rx_config_def socket_truncated_def)
  moreover have "bg_queue example_background = []" "bg_queue_drop_count example_background = 0"
    "bg_thread_error example_background = None"
    by (simp_all add: example_background_def)
  ultimately show ?thesis using queue_accounting [OF _ _ _ tr] tr by blast
qed


end
