(* ===== verification/Packet_Examples.thy ===== *)
theory Packet_Examples
  imports Packet_Parser
begin

text \<open>
  Concrete datagrams and the witnesses of the parser's properties: a METRICS datagram and a WAVE datagram
  with two samples, both accepted by the default parser, and a WAVE datagram that declares no sample,
  which the parser rejects.
\<close>

section \<open>Concrete datagrams\<close>

definition metrics_example :: bytes where
  "metrics_example =
     pack_fields TELEMETRY_HEADER_STRUCT [TELEMETRY_MAGIC, 1, 32, 4, 4, 7, 9, 56, 0] @ replicate 56 0"

definition wave_example :: bytes where
  "wave_example =
     pack_fields TELEMETRY_HEADER_STRUCT [TELEMETRY_MAGIC, 1, 32, 1, 0, 7, 1000, 28, 0] @
     pack_fields [8, 2, 2, 2, 2] [1000, 2, 3, 5, 0] @
     pack_fields [2, 2, 2, 2, 2, 2] [1, 65535, 2, 3, 4, 65534]"

definition bad_wave_example :: bytes where
  "bad_wave_example =
     pack_fields TELEMETRY_HEADER_STRUCT [TELEMETRY_MAGIC, 1, 32, 1, 0, 7, 0, 22, 0] @ replicate 22 0"

lemma metrics_example_accepted: "\<not> isl (parse_datagram default_parser metrics_example)"
  by code_simp

lemma wave_example_accepted:
  "\<not> isl (parse_datagram default_parser wave_example) \<and>
   (case projr (parse_datagram default_parser wave_example) of
      p \<Rightarrow> (case pp_payload p of WavePayload w \<Rightarrow> wp_stride w = 5 | _ \<Rightarrow> False))"
  by code_simp

lemma bad_wave_example_rejected:
  "parse_datagram default_parser bad_wave_example = Inl (Exn ValueError ''WAVE nsamp out of range'')"
  by code_simp


theorem parse_datagram_errors_witness:
  "\<exists>e. parse_datagram default_parser bad_wave_example = Inl e \<and>
       (exn_class e = PacketParserError \<or> e = Exn ValueError ''WAVE nsamp out of range'')"
  using bad_wave_example_rejected parse_datagram_errors [OF bad_wave_example_rejected] by blast

theorem wave_samples_decoded_witness:
  "\<exists>p w. parse_datagram default_parser wave_example = Inr p \<and> pp_payload p = WavePayload w \<and>
         int (length (wp_samples w)) = wp_nsamp w \<and> list_all wave_sample_in_range (wp_samples w)"
proof -
  obtain p where p: "parse_datagram default_parser wave_example = Inr p"
    using wave_example_accepted by (cases "parse_datagram default_parser wave_example") auto
  obtain w where w: "pp_payload p = WavePayload w"
    using wave_example_accepted p by (auto split: telemetry_payload.splits)
  from wave_samples_decoded [OF p w] p w show ?thesis by blast
qed

end
