(* ===== verification/Smoke_Receiver.thy ===== *)
theory Smoke_Receiver
  imports Wire_Validator Udp_Receiver Packet_Examples
begin

text \<open>
  The bring-up receiver, \<^verbatim>\<open>scripts/bringup/smoke_udp_recv.py\<close>: the capture writer, sequence accounting, the receive
  loop over a script of clock readings and socket results, and the verdict. Start and end times and printing are left
  out. A run is described by the datagrams it processed: the counters balance, the gap count is the one of the dashboard's
  \<^verbatim>\<open>sequence_gaps\<close>, and the capture is read back by the dashboard.
\<close>

section \<open>Capture and sequence\<close>

text \<open>\<^verbatim>\<open>host.encode("ascii", errors="replace")\<close>.\<close>

definition ascii_encode :: "string \<Rightarrow> bytes" where
  "ascii_encode s = map (\<lambda>c. if code c < 128 then of_nat (code c) else 63) s"

definition write_frame :: "bytes \<Rightarrow> int \<Rightarrow> string \<Rightarrow> int \<Rightarrow> bytes \<Rightarrow> bytes result" where
  "write_frame file recv_time_ns host port datagram =
     (let host_b = ascii_encode host in
      rbind (struct_pack CAPTURE_RECORD_STRUCT [recv_time_ns, port, int (length host_b), int (length datagram)]) (\<lambda>header.
      Inr (file @ header @ host_b @ datagram)))"

record seq_summary =
  sq_gap_events :: int
  sq_missing_estimate :: int
  sq_first :: "int option"
  sq_last :: "int option"

text \<open>The first and the last number are set together, so the assertion between them in the source cannot fail.\<close>

definition update_sequence :: "int \<Rightarrow> 'a seq_summary_scheme \<Rightarrow> 'a seq_summary_scheme" where
  "update_sequence seq0 s =
     (let seq = seq0 AND 0xFFFFFFFF in
      case sq_first s of
        None \<Rightarrow> s\<lparr> sq_first := Some seq, sq_last := Some seq \<rparr>
      | Some _ \<Rightarrow>
          let expected = (the (sq_last s) + 1) AND 0xFFFFFFFF;
              delta = (seq - expected) AND 0xFFFFFFFF;
              s = (if seq \<noteq> expected
                   then s\<lparr> sq_gap_events := sq_gap_events s + 1,
                           sq_missing_estimate := sq_missing_estimate s + (if delta < 0x80000000 then delta else 0) \<rparr>
                   else s) in
          s\<lparr> sq_last := Some seq \<rparr>)"

definition bump :: "(string \<rightharpoonup> int) \<Rightarrow> string \<Rightarrow> string \<rightharpoonup> int" where
  "bump m k = m(k \<mapsto> get_count m k + 1)"

section \<open>The receive loop\<close>

record smoke_args =
  sa_count :: int
  sa_seconds :: rat
  sa_expected_source :: "string option"
  sa_capture :: bool
  sa_allow_invalid :: bool
  sa_require_status :: bool

record receive_summary = seq_summary +
  rs_ok :: bool
  rs_packets_total :: int
  rs_packets_valid :: int
  rs_packets_invalid :: int
  rs_bytes_total :: int
  rs_by_type :: "string \<rightharpoonup> int"
  rs_invalid_reasons :: "string \<rightharpoonup> int"
  rs_first_sender :: "string option"

definition ReceiveSummary :: receive_summary where
  "ReceiveSummary =
     \<lparr> sq_gap_events = 0, sq_missing_estimate = 0, sq_first = None, sq_last = None, rs_ok = True, rs_packets_total = 0,
       rs_packets_valid = 0, rs_packets_invalid = 0, rs_bytes_total = 0, rs_by_type = Map.empty, rs_invalid_reasons = Map.empty,
       rs_first_sender = None \<rparr>"

definition add_invalid_reason :: "string \<Rightarrow> receive_summary \<Rightarrow> receive_summary" where
  "add_invalid_reason reason s = s\<lparr> rs_invalid_reasons := bump (rs_invalid_reasons s) reason \<rparr>"

datatype recv_event =
    RecvTimeout
  | RecvInterrupt
  | RecvError string
  | Recv (rv_datagram: bytes) (rv_host: string) (rv_port: int) (rv_time: int)

text \<open>What follows the validation of a datagram: the counters, the sequence and the reasons.\<close>

definition note_validation :: "packet_validation \<Rightarrow> receive_summary \<Rightarrow> receive_summary" where
  "note_validation v s =
     (let s = s\<lparr> rs_by_type := bump (rs_by_type s) (pv_packet_name v) \<rparr> in
      if pv_ok v
      then
        let s = s\<lparr> rs_packets_valid := rs_packets_valid s + 1 \<rparr> in
        (case pv_header v of
           Some h \<Rightarrow> if pv_participates v then update_sequence (wh_seq h) s else s
         | None \<Rightarrow> s)
      else
        foldl (\<lambda>s reason. add_invalid_reason reason s)
          (s\<lparr> rs_packets_invalid := rs_packets_invalid s + 1 \<rparr>) (pv_errors v))"

definition unexpected :: "smoke_args \<Rightarrow> string \<Rightarrow> bool" where
  "unexpected args host \<longleftrightarrow>
     (case sa_expected_source args of None \<Rightarrow> False | Some src \<Rightarrow> src \<noteq> [] \<and> host \<noteq> src)"

definition note_sender :: "string \<Rightarrow> int \<Rightarrow> receive_summary \<Rightarrow> receive_summary" where
  "note_sender host port s =
     (if rs_first_sender s = None then s\<lparr> rs_first_sender := Some (host @ '':'' @ py_str_int port) \<rparr> else s)"

type_synonym smoke_state = "receive_summary \<times> bytes option"

definition process :: "smoke_args \<Rightarrow> bytes \<Rightarrow> string \<Rightarrow> int \<Rightarrow> int \<Rightarrow> smoke_state \<Rightarrow> smoke_state \<times> exn option" where
  "process args datagram host port recv_time_ns st =
     (case st of (s, capture) \<Rightarrow>
        let s = note_sender host port s in
        if unexpected args host
        then
          ((add_invalid_reason (''unexpected source '' @ host)
              (s\<lparr> rs_packets_total := rs_packets_total s + 1, rs_packets_invalid := rs_packets_invalid s + 1 \<rparr>), capture), None)
        else
          let s = s\<lparr> rs_packets_total := rs_packets_total s + 1, rs_bytes_total := rs_bytes_total s + int (length datagram) \<rparr> in
          case validate_datagram False datagram of
            Inl e \<Rightarrow> ((s, capture), Some e)
          | Inr v \<Rightarrow>
              let s = note_validation v s in
              (case capture of
                 None \<Rightarrow> ((s, None), None)
               | Some file \<Rightarrow>
                   (case write_frame file recv_time_ns host port datagram of
                      Inl e \<Rightarrow> ((s, Some file), Some e)
                    | Inr file' \<Rightarrow> ((s, Some file'), None))))"

fun receive_loop ::
    "smoke_args \<Rightarrow> rat option \<Rightarrow> (rat \<times> recv_event) list \<Rightarrow> smoke_state \<Rightarrow> smoke_state \<times> exn option" where
  "receive_loop args deadline [] st = (st, None)"
| "receive_loop args deadline ((now, ev) # evs) st =
     (if sa_count args > 0 \<and> rs_packets_total (fst st) \<ge> sa_count args then (st, None)
      else if (case deadline of None \<Rightarrow> False | Some d \<Rightarrow> now \<ge> d) then (st, None)
      else
        case ev of
          RecvTimeout \<Rightarrow> receive_loop args deadline evs st
        | RecvInterrupt \<Rightarrow> (st, None)
        | RecvError m \<Rightarrow> (st, Some (Exn OSError m))
        | Recv datagram host port recv_time_ns \<Rightarrow>
            (case process args datagram host port recv_time_ns st of
               (st', None) \<Rightarrow> receive_loop args deadline evs st'
             | (st', Some e) \<Rightarrow> (st', Some e)))"

definition judge :: "smoke_args \<Rightarrow> receive_summary \<Rightarrow> receive_summary" where
  "judge args s =
     (let s = (if rs_packets_valid s = 0 then s\<lparr> rs_ok := False \<rparr> else s);
          s = (if rs_packets_invalid s \<noteq> 0 \<and> \<not> sa_allow_invalid args then s\<lparr> rs_ok := False \<rparr> else s) in
      if sa_require_status args \<and> get_count (rs_by_type s) ''STATUS'' = 0
      then add_invalid_reason ''required STATUS packet not observed'' (s\<lparr> rs_ok := False \<rparr>)
      else s)"

definition open_capture :: "smoke_args \<Rightarrow> bytes option" where
  "open_capture args = (if sa_capture args then Some CAPTURE_MAGIC else None)"

definition receive :: "smoke_args \<Rightarrow> rat \<Rightarrow> (rat \<times> recv_event) list \<Rightarrow> (receive_summary \<times> bytes option) result" where
  "receive args started evs =
     (case receive_loop args (if sa_seconds args \<le> 0 then None else Some (started + sa_seconds args)) evs
             (ReceiveSummary, open_capture args) of
        ((s, capture), None) \<Rightarrow> Inr (judge args s, capture)
      | (_, Some e) \<Rightarrow> Inl e)"

definition smoke_main :: "smoke_args \<Rightarrow> rat \<Rightarrow> (rat \<times> recv_event) list \<Rightarrow> int result" where
  "smoke_main args started evs =
     (if sa_count args \<le> 0 \<and> sa_seconds args \<le> 0 then Inr 2
      else rbind (receive args started evs) (\<lambda>(s, _). Inr (if rs_ok s then 0 else 1)))"

section \<open>Runs\<close>

text \<open>The datagrams a script offers, and a run that processes datagrams without an exception.\<close>

definition recvs :: "(rat \<times> recv_event) list \<Rightarrow> recv_event list" where
  "recvs evs = filter (\<lambda>ev. case ev of Recv _ _ _ _ \<Rightarrow> True | _ \<Rightarrow> False) (map snd evs)"

fun runs :: "smoke_args \<Rightarrow> smoke_state \<Rightarrow> recv_event list \<Rightarrow> smoke_state \<Rightarrow> bool" where
  "runs args st [] st' \<longleftrightarrow> st' = st"
| "runs args st (d # ds) st' \<longleftrightarrow>
     (\<exists>st1. process args (rv_datagram d) (rv_host d) (rv_port d) (rv_time d) st = (st1, None) \<and> runs args st1 ds st')"

lemma loop_runs:
  "receive_loop args deadline evs st = (st', None) \<Longrightarrow> \<exists>ds. prefix ds (recvs evs) \<and> runs args st ds st'"
proof (induction evs arbitrary: st)
  case Nil
  then show ?case by (auto intro: exI [of _ "[]"])
next
  case (Cons e evs)
  obtain now ev where e: "e = (now, ev)" by (cases e)
  note prems = Cons.prems [unfolded e]
  note stop = exI [of "\<lambda>ds. prefix ds (recvs (e # evs)) \<and> runs args st ds st'" "[]"]
  show ?case
  proof (cases "(sa_count args > 0 \<and> rs_packets_total (fst st) \<ge> sa_count args) \<or>
      (case deadline of None \<Rightarrow> False | Some d \<Rightarrow> now \<ge> d)")
    case True
    with prems have "st' = st" by (auto split: if_splits)
    then show ?thesis using stop by simp
  next
    case go: False
    show ?thesis
    proof (cases ev)
      case RecvTimeout
      with go prems have "receive_loop args deadline evs st = (st', None)" by auto
      with Cons.IH RecvTimeout e show ?thesis by (simp add: recvs_def)
    next
      case RecvInterrupt
      with go prems show ?thesis using stop by auto
    next
      case (RecvError m)
      with go prems show ?thesis by auto
    next
      case (Recv d h p t)
      with go prems obtain st1 where st1: "process args d h p t st = (st1, None)" "receive_loop args deadline evs st1 = (st', None)"
        by (auto split: prod.splits option.splits)
      with Cons.IH obtain ds where ds: "prefix ds (recvs evs)" "runs args st1 ds st'" by blast
      with st1(1) Recv e show ?thesis by (intro exI [of _ "ev # ds"]) (auto simp: recvs_def)
    qed
  qed
qed

definition processed :: "smoke_args \<Rightarrow> recv_event list \<Rightarrow> recv_event list" where
  "processed args ds = filter (\<lambda>d. \<not> unexpected args (rv_host d)) ds"

definition valid_datagrams :: "recv_event list \<Rightarrow> recv_event list" where
  "valid_datagrams ds = filter (\<lambda>d. smoke_verdict (rv_datagram d) \<noteq> None) ds"

definition sq_of :: "'a seq_summary_scheme \<Rightarrow> seq_summary" where
  "sq_of s = \<lparr> sq_gap_events = sq_gap_events s, sq_missing_estimate = sq_missing_estimate s, sq_first = sq_first s, sq_last = sq_last s \<rparr>"

lemma sq_of_update [simp]: "sq_of (update_sequence q s) = update_sequence q (sq_of s)"
  by (simp add: sq_of_def update_sequence_def Let_def split: option.split)

lemma sq_of_id [simp]: "sq_of (s :: seq_summary) = s"
  by (simp add: sq_of_def)

definition note_verdict :: "bytes \<Rightarrow> seq_summary \<Rightarrow> seq_summary" where
  "note_verdict data s =
     (case smoke_verdict data of Some (h, _, True) \<Rightarrow> update_sequence (wh_seq h) s | _ \<Rightarrow> s)"

lemma reasons_frame:
  "foldl (\<lambda>s reason. add_invalid_reason reason s) s rs = s\<lparr> rs_invalid_reasons := foldl bump (rs_invalid_reasons s) rs \<rparr>"
  by (induction rs arbitrary: s) (simp_all add: add_invalid_reason_def)

lemma update_sequence_frame:
  fixes s :: receive_summary
  shows "rs_packets_total (update_sequence q s) = rs_packets_total s" "rs_packets_valid (update_sequence q s) = rs_packets_valid s"
    "rs_packets_invalid (update_sequence q s) = rs_packets_invalid s" "rs_bytes_total (update_sequence q s) = rs_bytes_total s"
    "rs_by_type (update_sequence q s) = rs_by_type s" "rs_ok (update_sequence q s) = rs_ok s"
  by (simp_all add: update_sequence_def Let_def split: option.split)

lemma pv_header_ok: "validate_datagram False data = Inr v \<Longrightarrow> pv_ok v \<Longrightarrow> \<exists>h. pv_header v = Some h"
  by (auto simp: validate_datagram_def Let_def rbind_Inr_iff split: option.splits)

lemma note_validation_effect:
  assumes "validate_datagram False data = Inr v"
  shows "rs_packets_total (note_validation v s) = rs_packets_total s" "rs_bytes_total (note_validation v s) = rs_bytes_total s"
    "rs_packets_valid (note_validation v s) = rs_packets_valid s + of_bool (smoke_verdict data \<noteq> None)"
    "rs_packets_invalid (note_validation v s) = rs_packets_invalid s + of_bool (smoke_verdict data = None)"
    "sq_of (note_validation v s) = note_verdict data (sq_of s)"
    "rs_by_type (note_validation v s) = bump (rs_by_type s) (pv_packet_name v)" "rs_ok (note_validation v s) = rs_ok s"
proof -
  obtain h where "pv_header v = Some h \<or> \<not> pv_ok v" using pv_header_ok [OF assms] by blast
  then show "rs_packets_total (note_validation v s) = rs_packets_total s" "rs_bytes_total (note_validation v s) = rs_bytes_total s"
    "rs_packets_valid (note_validation v s) = rs_packets_valid s + of_bool (smoke_verdict data \<noteq> None)"
    "rs_packets_invalid (note_validation v s) = rs_packets_invalid s + of_bool (smoke_verdict data = None)"
    "sq_of (note_validation v s) = note_verdict data (sq_of s)"
    "rs_by_type (note_validation v s) = bump (rs_by_type s) (pv_packet_name v)" "rs_ok (note_validation v s) = rs_ok s"
    using assms
    by (cases "pv_ok v"; cases "pv_participates v";
        auto simp: note_validation_def smoke_verdict_def note_verdict_def reasons_frame update_sequence_frame Let_def sq_of_def;
        simp add: update_sequence_def Let_def split: option.split)+
qed

text \<open>A datagram as the capture holds it.\<close>

definition smoke_record :: "recv_event \<Rightarrow> capture_record" where
  "smoke_record d = (rv_time d, ascii_encode (rv_host d), rv_port d, rv_datagram d)"

lemma write_frame_records:
  assumes "write_frame file t host port datagram = Inr file'"
  shows "\<exists>frame. file' = file @ frame \<and>
    (\<forall>rest. iter_records (frame @ rest) = ((t, ascii_encode host, port, datagram) # fst (iter_records rest), snd (iter_records rest)))"
proof -
  define vs where "vs = [t, port, int (length (ascii_encode host)), int (length datagram)]"
  from assms have fit: "fields_fit CAPTURE_RECORD_STRUCT vs"
    and f: "file' = file @ pack_fields CAPTURE_RECORD_STRUCT vs @ ascii_encode host @ datagram"
    by (auto simp: write_frame_def struct_pack_def vs_def Let_def split: if_splits)
  have "length (pack_fields CAPTURE_RECORD_STRUCT vs) = 16"
    by (simp add: length_pack_fields CAPTURE_RECORD_STRUCT_def vs_def)
  moreover have "unpack_fields CAPTURE_RECORD_STRUCT (pack_fields CAPTURE_RECORD_STRUCT vs) = vs"
    using unpack_pack_fields [OF fit, of "[]"] by simp
  ultimately show ?thesis
    using f records_Cons(1) [of "pack_fields CAPTURE_RECORD_STRUCT vs" t port "int (length (ascii_encode host))"
        "int (length datagram)" "ascii_encode host" datagram]
    by (intro exI [of _ "pack_fields CAPTURE_RECORD_STRUCT vs @ ascii_encode host @ datagram"]) (simp add: vs_def)
qed

lemma sender_frame:
  "rs_packets_total (note_sender h p s) = rs_packets_total s" "rs_packets_valid (note_sender h p s) = rs_packets_valid s"
  "rs_packets_invalid (note_sender h p s) = rs_packets_invalid s" "rs_bytes_total (note_sender h p s) = rs_bytes_total s"
  "sq_of (note_sender h p s) = sq_of s" "rs_ok (note_sender h p s) = rs_ok s"
  by (simp_all add: note_sender_def sq_of_def)

text \<open>The effect of one datagram on what is counted, on the sequence and on the capture.\<close>

lemma process_effect:
  assumes "process args d host port t (s, cap) = ((s', cap'), None)"
  shows "rs_packets_total s' = rs_packets_total s + 1"
    "rs_packets_valid s' = rs_packets_valid s + of_bool (\<not> unexpected args host \<and> smoke_verdict d \<noteq> None)"
    "rs_packets_invalid s' = rs_packets_invalid s + of_bool (unexpected args host \<or> smoke_verdict d = None)"
    "rs_bytes_total s' = rs_bytes_total s + (if unexpected args host then 0 else int (length d))"
    "sq_of s' = (if unexpected args host then sq_of s else note_verdict d (sq_of s))"
    "rs_ok s' = rs_ok s" "cap' = None \<longleftrightarrow> cap = None"
    "cap = Some file \<Longrightarrow> unexpected args host \<Longrightarrow> cap' = Some file"
    "cap = Some file \<Longrightarrow> \<not> unexpected args host \<Longrightarrow> write_frame file t host port d = Inr (the cap')"
proof -
  note frames = sender_frame add_invalid_reason_def
  show "rs_packets_total s' = rs_packets_total s + 1"
    "rs_packets_valid s' = rs_packets_valid s + of_bool (\<not> unexpected args host \<and> smoke_verdict d \<noteq> None)"
    "rs_packets_invalid s' = rs_packets_invalid s + of_bool (unexpected args host \<or> smoke_verdict d = None)"
    "rs_bytes_total s' = rs_bytes_total s + (if unexpected args host then 0 else int (length d))"
    "rs_ok s' = rs_ok s" "cap' = None \<longleftrightarrow> cap = None"
    "cap = Some file \<Longrightarrow> unexpected args host \<Longrightarrow> cap' = Some file"
    "cap = Some file \<Longrightarrow> \<not> unexpected args host \<Longrightarrow> write_frame file t host port d = Inr (the cap')"
    using assms
    by (auto simp: process_def frames note_validation_effect Let_def split: if_splits sum.splits option.splits)
  have "sq_of (x\<lparr> rs_packets_total := a, rs_packets_invalid := b \<rparr>) = sq_of x"
    "sq_of (x\<lparr> rs_packets_total := a, rs_bytes_total := b \<rparr>) = sq_of x" "sq_of (x\<lparr> rs_invalid_reasons := m \<rparr>) = sq_of x"
    for x :: receive_summary and a b m
    by (simp_all add: sq_of_def)
  then show "sq_of s' = (if unexpected args host then sq_of s else note_verdict d (sq_of s))"
    using assms
    by (auto simp: process_def frames note_validation_effect Let_def split: if_splits sum.splits option.splits)
qed

lemma runs_counters:
  "runs args (s, cap) ds (s', cap') \<Longrightarrow>
     rs_packets_total s' = rs_packets_total s + int (length ds) \<and>
     rs_packets_valid s' = rs_packets_valid s + int (length (valid_datagrams (processed args ds))) \<and>
     rs_packets_invalid s' + rs_packets_valid s' = rs_packets_invalid s + rs_packets_valid s + int (length ds) \<and>
     rs_bytes_total s' = rs_bytes_total s + int (length (concat (map rv_datagram (processed args ds)))) \<and>
     sq_of s' = foldl (\<lambda>t d. note_verdict (rv_datagram d) t) (sq_of s) (processed args ds) \<and> rs_ok s' = rs_ok s"
proof (induction ds arbitrary: s cap)
  case Nil
  then show ?case by (simp add: processed_def valid_datagrams_def)
next
  case (Cons d ds)
  then obtain s1 cap1 where p: "process args (rv_datagram d) (rv_host d) (rv_port d) (rv_time d) (s, cap) = ((s1, cap1), None)"
    and r: "runs args (s1, cap1) ds (s', cap')" by auto
  show ?case using Cons.IH [OF r] process_effect(1-6) [OF p] by (auto simp: processed_def valid_datagrams_def)
qed

lemma runs_capture:
  "runs args (s, Some buf) ds (s', cap') \<Longrightarrow>
     \<exists>tail. cap' = Some (buf @ tail) \<and> iter_records tail = (map smoke_record (processed args ds), None)"
proof (induction ds arbitrary: s buf)
  case Nil
  then show ?case by (simp add: processed_def)
next
  case (Cons d ds)
  then obtain s1 cap1 where p: "process args (rv_datagram d) (rv_host d) (rv_port d) (rv_time d) (s, Some buf) = ((s1, cap1), None)"
    and r: "runs args (s1, cap1) ds (s', cap')" by auto
  show ?case
  proof (cases "unexpected args (rv_host d)")
    case True
    with process_effect(8) [OF p] r Cons.IH show ?thesis by (auto simp: processed_def)
  next
    case False
    obtain buf1 where f1: "cap1 = Some buf1" "write_frame buf (rv_time d) (rv_host d) (rv_port d) (rv_datagram d) = Inr buf1"
      using process_effect(7,9) [OF p] False by auto
    then obtain frame where frame: "buf1 = buf @ frame"
        "iter_records (frame @ rest) = (smoke_record d # fst (iter_records rest), snd (iter_records rest))" for rest
      using write_frame_records by (fastforce simp: smoke_record_def)
    obtain tail where "cap' = Some (buf1 @ tail)" "iter_records tail = (map smoke_record (processed args ds), None)"
      using Cons.IH [of s1 buf1] r f1 by blast
    then show ?thesis using frame False by (intro exI [of _ "frame @ tail"]) (simp add: processed_def)
  qed
qed

lemma runs_no_capture: "runs args (s, None) ds (s', cap') \<Longrightarrow> cap' = None"
proof (induction ds arbitrary: s)
  case (Cons d ds)
  then obtain s1 c1 where p: "process args (rv_datagram d) (rv_host d) (rv_port d) (rv_time d) (s, None) = ((s1, c1), None)"
    and "runs args (s1, c1) ds (s', cap')" by auto
  then show ?case using Cons.IH process_effect(7) [OF p] by simp
qed simp

lemma sq_of_judge [simp]: "sq_of (judge args s) = sq_of s"
  by (simp add: judge_def add_invalid_reason_def sq_of_def Let_def)

lemma judge_frame [simp]:
  "rs_packets_total (judge args s) = rs_packets_total s" "rs_packets_valid (judge args s) = rs_packets_valid s"
  "rs_packets_invalid (judge args s) = rs_packets_invalid s" "rs_bytes_total (judge args s) = rs_bytes_total s"
  "rs_by_type (judge args s) = rs_by_type s"
  by (simp_all add: judge_def add_invalid_reason_def Let_def)

lemma judge_ok:
  "rs_ok (judge args s) \<longleftrightarrow> rs_ok s \<and> rs_packets_valid s \<noteq> 0 \<and> (rs_packets_invalid s = 0 \<or> sa_allow_invalid args) \<and>
     \<not> (sa_require_status args \<and> get_count (rs_by_type s) ''STATUS'' = 0)"
  by (auto simp: judge_def add_invalid_reason_def Let_def)

lemma receive_runs:
  assumes "receive args started evs = Inr (s, capture)"
  obtains s0 ds where "s = judge args s0" "prefix ds (recvs evs)" "runs args (ReceiveSummary, open_capture args) ds (s0, capture)"
proof -
  from assms obtain dl s0 where "receive_loop args dl evs (ReceiveSummary, open_capture args) = ((s0, capture), None)" "s = judge args s0"
    by (auto simp: receive_def split: prod.splits option.splits)
  then show ?thesis using loop_runs that by blast
qed

text \<open>
  C30: a bring-up run is accounted for. When the receive loop ends without an exception, there is an initial part of the offered
  datagrams that it took, and: the total is their number and splits into valid and invalid, the valid ones are those from an admitted
  source that the validator accepts, the byte count is the size of the admitted ones, and the capture, if any, is read back by the
  dashboard's reader as exactly the admitted datagrams in order.
\<close>

theorem smoke_run_accounted:
  assumes "receive args started evs = Inr (s, capture)"
  shows "\<exists>ds. prefix ds (recvs evs) \<and> rs_packets_total s = int (length ds) \<and>
    rs_packets_valid s + rs_packets_invalid s = rs_packets_total s \<and>
    rs_packets_valid s = int (length (valid_datagrams (processed args ds))) \<and>
    rs_bytes_total s = int (length (concat (map rv_datagram (processed args ds)))) \<and>
    (if sa_capture args then iter_capture_datagrams (the capture) = (map smoke_record (processed args ds), None) else capture = None)"
proof -
  obtain s0 ds where s: "s = judge args s0" and ds: "prefix ds (recvs evs)" "runs args (ReceiveSummary, open_capture args) ds (s0, capture)"
    using receive_runs [OF assms] .
  note c = runs_counters [OF ds(2)]
  have cap: "if sa_capture args then iter_capture_datagrams (the capture) = (map smoke_record (processed args ds), None) else capture = None"
  proof (cases "sa_capture args")
    case True
    then have "runs args (ReceiveSummary, Some CAPTURE_MAGIC) ds (s0, capture)" using ds(2) by (simp add: open_capture_def)
    from runs_capture [OF this] True show ?thesis
      by (auto simp: iter_capture_datagrams_def CAPTURE_MAGIC_def)
  next
    case False
    with ds(2) runs_no_capture [of args ReceiveSummary ds s0 capture] show ?thesis by (simp add: open_capture_def)
  qed
  show ?thesis
    using ds(1) c cap by (intro exI [of _ ds]) (simp add: s ReceiveSummary_def)
qed

section \<open>Gaps\<close>

lemma gap_events_sequence_gaps:
  fixes s :: seq_summary and ps :: "parsed_packet list"
  assumes "(sq_first s = None) = (prev = None)" "sq_last s = prev"
  defines "s' \<equiv> foldl (\<lambda>s p. if participates_in_sequence (pp_header p) then update_sequence (th_seq (pp_header p)) s else s) s ps"
  shows "sq_gap_events s' = sq_gap_events s + int (length (sequence_gaps_from prev ps)) \<and>
    sq_missing_estimate s' = sq_missing_estimate s +
      sum_list (map (\<lambda>(_, _, n). if n < 0x80000000 then n else 0) (sequence_gaps_from prev ps))"
  using assms(1,2) unfolding s'_def
proof (induction ps arbitrary: s prev)
  case (Cons p ps)
  show ?case
  proof (cases "participates_in_sequence (pp_header p)")
    case True
    let ?t = "update_sequence (th_seq (pp_header p)) s" and ?q = "th_seq (pp_header p) AND 0xFFFFFFFF"
    have t: "(sq_first ?t = None) = (Some ?q = None)" "sq_last ?t = Some ?q"
      by (auto simp: update_sequence_def Let_def split: option.split)
    show ?thesis
      using Cons.IH [OF t] True Cons.prems
      by (cases prev) (auto simp: update_sequence_def Let_def split: option.splits)
  qed (use Cons in simp)
qed simp

definition parsed_packets :: "recv_event list \<Rightarrow> parsed_packet list" where
  "parsed_packets ds =
     concat (map (\<lambda>d. case parse_datagram default_parser (rv_datagram d) of Inl _ \<Rightarrow> [] | Inr p \<Rightarrow> [p]) ds)"

lemma verdicts_are_packets:
  assumes "list_all (\<lambda>d. strict_clauses (rv_datagram d)) (valid_datagrams ds)"
  shows "foldl (\<lambda>t d. note_verdict (rv_datagram d) t) s ds =
    foldl (\<lambda>s p. if participates_in_sequence (pp_header p) then update_sequence (th_seq (pp_header p)) s else s) s (parsed_packets ds)"
  using assms
proof (induction ds arbitrary: s)
  case (Cons d ds)
  have "note_verdict (rv_datagram d) s = (case parse_datagram default_parser (rv_datagram d) of Inl _ \<Rightarrow> s
      | Inr p \<Rightarrow> if participates_in_sequence (pp_header p) then update_sequence (th_seq (pp_header p)) s else s)"
    using validators_agree [of "rv_datagram d"] Cons.prems
    by (auto simp: note_verdict_def parser_verdict_def valid_datagrams_def split: sum.splits if_splits option.splits)
  with Cons show ?case by (auto simp: parsed_packets_def valid_datagrams_def split: sum.splits if_splits)
qed (simp add: parsed_packets_def)

text \<open>
  The receiver's gap count is the dashboard's. When every accepted datagram also satisfies the two strict clauses, the
  gap events of a run are the gaps that \<^verbatim>\<open>sequence_gaps\<close> of the packet parser finds in the packets taken, and the
  missing estimate is the sum of their widths below half of the sequence space.
\<close>

theorem smoke_gaps_match_parser:
  assumes "receive args started evs = Inr (s, capture)"
    "list_all (\<lambda>d. strict_clauses (rv_datagram d)) (valid_datagrams (recvs evs))"
  shows "\<exists>ds. prefix ds (recvs evs) \<and> rs_packets_total s = int (length ds) \<and>
    sq_gap_events s = int (length (sequence_gaps (parsed_packets (processed args ds)))) \<and>
    sq_missing_estimate s =
      sum_list (map (\<lambda>(_, _, n). if n < 0x80000000 then n else 0) (sequence_gaps (parsed_packets (processed args ds))))"
proof -
  obtain s0 ds where s: "s = judge args s0" and ds: "prefix ds (recvs evs)" "runs args (ReceiveSummary, open_capture args) ds (s0, capture)"
    using receive_runs [OF assms(1)] .
  let ?ps = "parsed_packets (processed args ds)" and ?init = "sq_of ReceiveSummary"
  have strict: "list_all (\<lambda>d. strict_clauses (rv_datagram d)) (valid_datagrams (processed args ds))"
    using assms(2) ds(1) by (auto simp: list_all_iff valid_datagrams_def processed_def prefix_def)
  have "sq_of s = foldl (\<lambda>t d. note_verdict (rv_datagram d) t) ?init (processed args ds)"
    using runs_counters [OF ds(2)] s by simp
  also have "\<dots> = foldl (\<lambda>s p. if participates_in_sequence (pp_header p) then update_sequence (th_seq (pp_header p)) s else s) ?init ?ps"
    by (rule verdicts_are_packets [OF strict])
  finally have sq: "sq_of s = \<dots>" .
  have "sq_gap_events (sq_of s) = int (length (sequence_gaps ?ps)) \<and> sq_missing_estimate (sq_of s) =
      sum_list (map (\<lambda>(_, _, n). if n < 0x80000000 then n else 0) (sequence_gaps ?ps))"
    unfolding sq using gap_events_sequence_gaps [of ?init None ?ps]
    by (simp add: sq_of_def ReceiveSummary_def sequence_gaps_def)
  then show ?thesis
    using ds(1) runs_counters [OF ds(2)] s by (intro exI [of _ ds]) (simp add: sq_of_def ReceiveSummary_def)
qed

section \<open>Examples\<close>

definition example_args :: smoke_args where
  "example_args =
     \<lparr> sa_count = 0, sa_seconds = 10, sa_expected_source = Some ''10.0.0.2'', sa_capture = True, sa_allow_invalid = True,
       sa_require_status = True \<rparr>"

text \<open>A STATUS header without its payload, and a valid METRICS datagram.\<close>

definition empty_status :: bytes where
  "empty_status = pack_fields TELEMETRY_HEADER_STRUCT [TELEMETRY_MAGIC, 1, 32, 5, 0, 6, 9, 0, 0]"

definition example_script :: "(rat \<times> recv_event) list" where
  "example_script =
     [(0, RecvTimeout), (1, Recv empty_status ''10.0.0.2'' 7 100), (2, Recv metrics_example ''10.0.0.2'' 7 200),
      (3, Recv metrics_example ''10.0.0.9'' 7 300)]"

lemma example_run: "\<not> isl (receive example_args 0 example_script)"
  by code_simp

text \<open>
  The option \<^verbatim>\<open>--require-status\<close>, documented as failing when no valid STATUS packet was observed, is satisfied by an
  invalid one: the counts by type include the rejected datagrams.
\<close>

lemma status_requirement_accepts_invalid:
  "sa_require_status example_args \<and> rs_ok (fst (projr (receive example_args 0 example_script))) \<and>
   rs_packets_valid (fst (projr (receive example_args 0 example_script))) = 1 \<and> smoke_verdict empty_status = None"
  by code_simp

definition short_spectrum :: bytes where
  "short_spectrum = pack_fields TELEMETRY_HEADER_STRUCT [TELEMETRY_MAGIC, 1, 32, 3, 0, 6, 9, 12, 0] @ replicate 12 0"

text \<open>A SPEC129 datagram with a 12-byte payload ends the receiver with an \<^verbatim>\<open>IndexError\<close>.\<close>

lemma short_spectrum_ends_receiver:
  "isl (receive example_args 0 [(0, Recv short_spectrum ''10.0.0.2'' 7 1)]) \<and>
   exn_class (projl (receive example_args 0 [(0, Recv short_spectrum ''10.0.0.2'' 7 1)])) = IndexError"
  by code_simp

theorem smoke_run_accounted_witness:
  "\<exists>s capture ds. receive example_args 0 example_script = Inr (s, capture) \<and> prefix ds (recvs example_script) \<and>
     rs_packets_valid s + rs_packets_invalid s = int (length ds) \<and>
     iter_capture_datagrams (the capture) = (map smoke_record (processed example_args ds), None)"
proof -
  obtain s capture where r: "receive example_args 0 example_script = Inr (s, capture)"
    using example_run by (cases "receive example_args 0 example_script") auto
  from smoke_run_accounted [OF r] r show ?thesis by (auto simp: example_args_def)
qed

theorem smoke_gaps_match_parser_witness:
  "\<exists>s capture ds. receive example_args 0 example_script = Inr (s, capture) \<and> prefix ds (recvs example_script) \<and>
     sq_gap_events s = int (length (sequence_gaps (parsed_packets (processed example_args ds))))"
proof -
  obtain s capture where r: "receive example_args 0 example_script = Inr (s, capture)"
    using example_run by (cases "receive example_args 0 example_script") auto
  have "list_all (\<lambda>d. strict_clauses (rv_datagram d)) (valid_datagrams (recvs example_script))" by code_simp
  from smoke_gaps_match_parser [OF r this] r show ?thesis by blast
qed

end
