(* ===== verification/Capture_Triage.thy ===== *)
theory Capture_Triage
  imports Smoke_Receiver
begin

text \<open>
  The offline capture parser, \<^verbatim>\<open>scripts/bringup/parse_telemetry_capture.py\<close>: its validator for datagrams and DDR ring
  records, the three container formats, and the summary. Header checks, flags, sequence accounting and record types that the
  script shares with the bring-up receiver are those of \<open>Wire_Validator\<close> and \<open>Smoke_Receiver\<close>. Source addresses stay raw bytes,
  ring size and start offset are numbers; reading and writing files, printing and the argument parser are left out.
\<close>

section \<open>The validator\<close>

definition align_up :: "int \<Rightarrow> int \<Rightarrow> int" where
  "align_up value align = (value + align - 1) AND NOT (align - 1)"

definition triage_wave :: "wire_header \<Rightarrow> bytes \<Rightarrow> report" where
  "triage_wave h p =
     (case unpack_wave p of
        Inl e \<Rightarrow> ([], [], Some e)
      | Inr (sample_base, nsamp, channels, stride, reserved) \<Rightarrow>
          (fails
            [(sample_base = wh_timestamp h, ''WAVE timestamp != sample_base''),
             (channels = 3, ''WAVE channels '' @ py_str_int channels @ '' != 3''),
             (\<not> (nsamp < 1 \<or> nsamp > WAVE_NSAMP_MAX), ''WAVE nsamp '' @ py_str_int nsamp @ '' outside legal range''),
             (\<not> stride < 1, ''WAVE stride must be >= 1''),
             (reserved = 0, ''WAVE reserved field nonzero''),
             (wh_payload_bytes h = 16 + 6 * nsamp, ''WAVE payload size expression mismatch'')],
           [(''sample_base'', DInt sample_base), (''nsamp'', DInt nsamp), (''channels'', DInt channels),
            (''stride'', DInt stride)], None))"

definition triage_spec129 :: "wire_header \<Rightarrow> bytes \<Rightarrow> report" where
  "triage_spec129 h p =
     (case unpack_spec ''SPEC129'' p of
        Inl e \<Rightarrow> ([], [], Some e)
      | Inr (frame_idx, nbin, spec_shift) \<Rightarrow>
          let decoded = [(''frame_idx'', DInt frame_idx), (''nbin'', DInt nbin), (''spec_shift'', DInt spec_shift)];
              errors = fails
                [(frame_idx = wh_timestamp h, ''SPEC129 timestamp != frame_idx''),
                 (nbin = 129, ''SPEC129 nbin '' @ py_str_int nbin @ '' != 129'')] in
          if mask_byte_index < length p
          then (errors @ fails [(p ! mask_byte_index AND 0xFE = 0, ''SPEC129 unused mask bits nonzero'')], decoded, None)
          else (errors, decoded, Some (Exn IndexError ''index out of range'')))"

definition triage_spec64 :: "wire_header \<Rightarrow> bytes \<Rightarrow> report" where
  "triage_spec64 h p =
     (case unpack_spec ''SPEC64'' p of
        Inl e \<Rightarrow> ([], [], Some e)
      | Inr (frame_idx, nbin, spec_shift) \<Rightarrow>
          (fails
            [(frame_idx = wh_timestamp h, ''SPEC64 timestamp != frame_idx''),
             (nbin = 64, ''SPEC64 nbin '' @ py_str_int nbin @ '' != 64'')],
           [(''frame_idx'', DInt frame_idx), (''nbin'', DInt nbin), (''spec_shift'', DInt spec_shift)], None))"

definition triage_metrics :: "wire_header \<Rightarrow> report" where
  "triage_metrics h =
     (let aggregate = wire_flag h ''aggregate_metrics'' 0x0004; per_frame = wire_flag h ''per_frame_metrics'' 0x0008 in
      (fails
        [(aggregate \<noteq> per_frame, ''METRICS requires exactly one aggregate/per_frame flag''),
         (\<not> wire_flag h ''payload_scaled'' 0x0002, ''METRICS payload_scaled must be zero'')],
       [(''aggregate_metrics'', DBool aggregate), (''per_frame_metrics'', DBool per_frame)], None))"

definition triage_status :: "wire_header \<Rightarrow> bytes \<Rightarrow> report" where
  "triage_status h p =
     (case
        rbind (unpack_u 8 p (payload_offset ''STATUS'' ''sample_count'')) (\<lambda>sample_count.
        rbind (unpack_u 8 p (payload_offset ''STATUS'' ''frame_count'')) (\<lambda>frame_count.
        rbind (unpack_u 4 p (payload_offset ''STATUS'' ''source_mode'')) (\<lambda>source_mode.
        rbind (unpack_u 4 p (payload_offset ''STATUS'' ''packet_enable'')) (\<lambda>packet_enable.
        rbind (unpack_u 4 p (payload_offset ''STATUS'' ''dma_drop_count'')) (\<lambda>dma_drop.
        rbind (unpack_u 4 p (payload_offset ''STATUS'' ''packet_fifo_drop_count'')) (\<lambda>packet_fifo_drop.
        rbind (unpack_u 4 p (payload_offset ''STATUS'' ''reserved'')) (\<lambda>reserved.
        Inr (sample_count, frame_count, source_mode, packet_enable, dma_drop, packet_fifo_drop, reserved))))))))
      of
        Inl e \<Rightarrow> ([], [], Some e)
      | Inr (sample_count, frame_count, source_mode, packet_enable, dma_drop, packet_fifo_drop, reserved) \<Rightarrow>
          (fails
            [(\<not> (\<not> diagnostic h \<and> sample_count \<noteq> wh_timestamp h), ''STATUS timestamp != sample_count''),
             (reserved = 0, ''STATUS reserved field nonzero'')],
           [(''sample_count'', DInt sample_count), (''frame_count'', DInt frame_count), (''source_mode'', DInt source_mode),
            (''packet_enable'', DInt packet_enable), (''dma_drop_count'', DInt dma_drop),
            (''packet_fifo_drop_count'', DInt packet_fifo_drop)], None))"

definition triage_report :: "string \<Rightarrow> wire_header \<Rightarrow> bytes \<Rightarrow> report" where
  "triage_report name h p =
     (if name = ''WAVE'' then triage_wave h p
      else if name = ''SPEC129'' then triage_spec129 h p
      else if name = ''SPEC64'' then triage_spec64 h p
      else if name = ''METRICS'' then triage_metrics h
      else if name = ''STATUS'' then triage_status h p
      else if name = ''WRAP'' then (fails [(wh_payload_bytes h = 0, ''WRAP payload_bytes must be zero'')], [], None)
      else ([], [], None))"

definition triage_validate_payload :: "string \<Rightarrow> wire_header \<Rightarrow> bytes \<Rightarrow> (string list \<times> decoded) result" where
  "triage_validate_payload name h p =
     (let errors = rule_errors '' != '' name h in
      if int (length p) < wh_payload_bytes h then Inr (errors, [])
      else settle {StructError, IndexError} errors (triage_report name h p))"

record triage_validation = packet_validation +
  tv_wire_len :: int
  tv_ddr_len :: int

definition record_len :: "wire_header \<Rightarrow> int" where
  "record_len h = TELEMETRY_HEADER_BYTES + wh_payload_bytes h"

definition wrap_len :: "int \<Rightarrow> int \<Rightarrow> int" where
  "wrap_len ring_size ddr_offset =
     (let off = ddr_offset AND (ring_size - 1) in if off \<noteq> 0 then ring_size - off else ring_size)"

definition length_checks :: "bool \<Rightarrow> int option \<Rightarrow> bool \<Rightarrow> wire_header \<Rightarrow> bytes \<Rightarrow> (bool \<times> string) list" where
  "length_checks ddr_record ring_size check_padding h data =
     (let wire_len = record_len h; ddr_len = align_up wire_len DDR_RECORD_ALIGNMENT_BYTES; wrap = (wire_name h = ''WRAP'') in
      [(wire_len \<le> UDP_NO_FRAGMENT_PAYLOAD_MAX_BYTES, ''record exceeds UDP no-fragment bound: '' @ py_str_int wire_len),
       (\<not> int (length data) < wire_len,
        ''truncated record: have '' @ py_str_int (int (length data)) @ '', need '' @ py_str_int wire_len),
       (\<not> (wrap \<and> ddr_record \<and> ring_size = None), ''WRAP in DDR capture requires --ring-size''),
       (\<not> (wrap \<and> \<not> ddr_record), ''WRAP appears in UDP capture; WRAP is a DDR ring-control record''),
       (\<not> (ddr_record \<and> \<not> wrap \<and> check_padding \<and> int (length data) \<ge> ddr_len \<and>
           list_ex (\<lambda>b. b \<noteq> 0) (pyslice (nat wire_len) (nat (ddr_len - wire_len)) data)),
        ''DDR record padding is nonzero'')])"

definition validate_record :: "bool \<Rightarrow> int \<Rightarrow> int option \<Rightarrow> bool \<Rightarrow> bytes \<Rightarrow> triage_validation result" where
  "validate_record ddr_record ddr_offset ring_size check_padding data =
     (case parse_wire_header data of
        None \<Rightarrow>
          Inr \<lparr> pv_ok = False, pv_packet_name = ''UNKNOWN'', pv_header = None, pv_errors = [''record shorter than header''],
                pv_decoded = [], pv_participates = False, tv_wire_len = 0, tv_ddr_len = 0 \<rparr>
      | Some h \<Rightarrow>
          let name = wire_name h;
              errors = fails (header_checks h @ length_checks ddr_record ring_size check_padding h data);
              ddr_len = (case ring_size of
                           Some n \<Rightarrow> if name = ''WRAP'' \<and> ddr_record then wrap_len n ddr_offset
                                     else align_up (record_len h) DDR_RECORD_ALIGNMENT_BYTES
                         | None \<Rightarrow> align_up (record_len h) DDR_RECORD_ALIGNMENT_BYTES) in
          rbind (if name \<noteq> ''UNKNOWN'' then triage_validate_payload name h (wire_payload h data) else Inr ([], []))
            (\<lambda>(payload_errors, decoded).
          Inr \<lparr> pv_ok = (errors @ payload_errors = []), pv_packet_name = name, pv_header = Some h,
                pv_errors = errors @ payload_errors, pv_decoded = decoded, pv_participates = participates h,
                tv_wire_len = record_len h, tv_ddr_len = ddr_len \<rparr>))"

text \<open>The payload check catches both exceptions that decoding can raise, so a validation always has a value.\<close>

lemma triage_report_exn:
  assumes "triage_report name h p = (errs, dec, Some x)"
  shows "exn_class x \<in> {StructError, IndexError}"
  using assms
  by (auto simp: triage_report_def triage_wave_def triage_spec129_def triage_spec64_def triage_metrics_def triage_status_def Let_def
      rbind_Inl_iff dest: unpack_Inl unpack_u_Inl split: if_splits sum.splits)

lemma validate_record_total: "\<exists>v. validate_record ddr_record ddr_offset ring_size check_padding data = Inr v"
proof -
  have "\<exists>r. triage_validate_payload name h p = Inr r" for name h p
  proof (cases "triage_report name h p")
    case (fields errs dec x)
    then show ?thesis
      using triage_report_exn [of name h p errs dec]
      by (cases x) (auto simp: triage_validate_payload_def settle_def Let_def)
  qed
  then have "\<exists>r. (if name \<noteq> ''UNKNOWN'' then triage_validate_payload name h p else Inr ([], [])) = Inr r" for name h p
    by simp
  then show ?thesis
    by (cases "parse_wire_header data") (force simp: validate_record_def Let_def rbind_Inr_iff case_prod_unfold)+
qed

definition validation :: "bool \<Rightarrow> int \<Rightarrow> int option \<Rightarrow> bool \<Rightarrow> bytes \<Rightarrow> triage_validation" where
  "validation ddr_record ddr_offset ring_size check_padding data =
     projr (validate_record ddr_record ddr_offset ring_size check_padding data)"

section \<open>Containers\<close>

record parsed_record =
  pr_index :: nat
  pr_offset :: nat
  pr_source :: string
  pr_packet_name :: string
  pr_ok :: bool
  pr_seq :: "int option"
  pr_timestamp :: "int option"
  pr_payload_bytes :: "int option"
  pr_wire_len :: int
  pr_ddr_len :: int
  pr_errors :: "string list"
  pr_decoded :: decoded
  pr_recv_time_ns :: "int option"
  pr_src_addr :: "bytes option"
  pr_src_port :: "int option"

definition record_from_validation ::
    "nat \<Rightarrow> nat \<Rightarrow> string \<Rightarrow> triage_validation \<Rightarrow> int option \<Rightarrow> bytes option \<Rightarrow> int option \<Rightarrow> parsed_record" where
  "record_from_validation index offset source v recv_time_ns src_addr src_port =
     \<lparr> pr_index = index, pr_offset = offset, pr_source = source, pr_packet_name = pv_packet_name v, pr_ok = pv_ok v,
       pr_seq = map_option wh_seq (pv_header v), pr_timestamp = map_option wh_timestamp (pv_header v),
       pr_payload_bytes = map_option wh_payload_bytes (pv_header v), pr_wire_len = tv_wire_len v, pr_ddr_len = tv_ddr_len v,
       pr_errors = pv_errors v, pr_decoded = pv_decoded v, pr_recv_time_ns = recv_time_ns, pr_src_addr = src_addr,
       pr_src_port = src_port \<rparr>"

definition dummy :: "string \<Rightarrow> triage_validation" where
  "dummy message =
     \<lparr> pv_ok = False, pv_packet_name = ''UNKNOWN'', pv_header = None, pv_errors = [message], pv_decoded = [],
       pv_participates = False, tv_wire_len = 0, tv_ddr_len = 0 \<rparr>"

definition limit_reached :: "int \<Rightarrow> nat \<Rightarrow> bool" where
  "limit_reached max_records idx \<longleftrightarrow> max_records \<noteq> 0 \<and> int idx \<ge> max_records"

function udp_framed_loop :: "int \<Rightarrow> bytes \<Rightarrow> nat \<Rightarrow> nat \<Rightarrow> parsed_record list" where
  "udp_framed_loop max_records data pos idx =
     (if \<not> pos < length data \<or> limit_reached max_records idx then []
      else if pos + 16 > length data
      then [record_from_validation idx pos ''udp-framed'' (dummy ''truncated capture record header'') None None None]
      else
        let f = unpack_fields CAPTURE_RECORD_STRUCT (drop pos data);
            recv_time_ns = f ! 0; src_port = f ! 1; addr_len = nat (f ! 2); datagram_len = nat (f ! 3);
            body = pos + 16 in
        if body + addr_len + datagram_len > length data
        then [record_from_validation idx pos ''udp-framed'' (dummy ''truncated capture record body'') (Some recv_time_ns) None None]
        else
          record_from_validation idx pos ''udp-framed''
            (validation False 0 None False (pyslice (body + addr_len) datagram_len data))
            (Some recv_time_ns) (Some (pyslice body addr_len data)) (Some src_port)
          # udp_framed_loop max_records data (body + addr_len + datagram_len) (idx + 1))"
  by pat_completeness auto
termination
  by (relation "measure (\<lambda>(_, data, pos, _). length data - pos)") auto

definition parse_udp_framed :: "bytes \<Rightarrow> int \<Rightarrow> parsed_record list" where
  "parse_udp_framed data max_records = udp_framed_loop max_records data (length CAPTURE_MAGIC) 0"

function udp_raw_loop :: "int \<Rightarrow> bytes \<Rightarrow> nat \<Rightarrow> nat \<Rightarrow> parsed_record list" where
  "udp_raw_loop max_records data pos idx =
     (if \<not> pos < length data \<or> limit_reached max_records idx then []
      else if int (length data - pos) < TELEMETRY_HEADER_BYTES
      then [record_from_validation idx pos ''udp-raw-stream'' (dummy ''trailing bytes shorter than header'') None None None]
      else
        case parse_wire_header (drop pos data) of
          None \<Rightarrow> [record_from_validation idx pos ''udp-raw-stream'' (dummy ''could not parse header'') None None None]
        | Some h \<Rightarrow>
            record_from_validation idx pos ''udp-raw-stream''
              (validation False 0 None False (take (nat (record_len h)) (drop pos data))) None None None
            # udp_raw_loop max_records data (pos + nat (max (record_len h) TELEMETRY_HEADER_BYTES)) (idx + 1))"
  by pat_completeness auto
termination
  by (relation "measure (\<lambda>(_, data, pos, _). length data - pos)") (auto simp: TELEMETRY_HEADER_BYTES_def)

definition parse_udp_raw_stream :: "bytes \<Rightarrow> int \<Rightarrow> parsed_record list" where
  "parse_udp_raw_stream data max_records = udp_raw_loop max_records data 0 0"

definition ring_step :: "triage_validation \<Rightarrow> nat" where
  "ring_step v =
     (let step = (if tv_ddr_len v \<noteq> 0 then tv_ddr_len v else TELEMETRY_HEADER_BYTES) in
      nat (if step \<le> 0 then TELEMETRY_HEADER_BYTES else step))"

lemma ring_step_pos [simp]: "0 < ring_step v"
  by (simp add: ring_step_def TELEMETRY_HEADER_BYTES_def Let_def)

function ddr_ring_loop :: "int \<Rightarrow> int \<Rightarrow> bool \<Rightarrow> bytes \<Rightarrow> nat \<Rightarrow> nat \<Rightarrow> parsed_record list" where
  "ddr_ring_loop max_records ring_size check_padding data pos idx =
     (if \<not> pos < length data \<or> limit_reached max_records idx then []
      else if int (length data - pos) < TELEMETRY_HEADER_BYTES then []
      else if list_all (\<lambda>b. b = 0) (take (nat TELEMETRY_HEADER_BYTES) (drop pos data)) then []
      else
        let v = validation True (int pos) (Some ring_size) check_padding (drop pos data) in
        record_from_validation idx pos ''ddr-ring'' v None None None
        # ddr_ring_loop max_records ring_size check_padding data (pos + ring_step v) (idx + 1))"
  by pat_completeness auto
termination
  by (relation "measure (\<lambda>(_, _, _, data, pos, _). length data - pos)") (auto intro!: diff_less_mono2)

declare udp_framed_loop.simps [simp del] udp_raw_loop.simps [simp del] ddr_ring_loop.simps [simp del]

record triage_args =
  ta_ring_size :: "int option"
  ta_start_offset :: nat
  ta_max_records :: int
  ta_check_padding :: bool
  ta_strict :: bool

definition parse_ddr_ring :: "triage_args \<Rightarrow> bytes \<Rightarrow> parsed_record list result" where
  "parse_ddr_ring args data =
     (case ta_ring_size args of
        None \<Rightarrow> Inl (Exn SystemExit ''ERROR: --ring-size is required for --format ddr-ring'')
      | Some ring_size \<Rightarrow>
          if ring_size \<le> 0 \<or> ring_size AND (ring_size - 1) \<noteq> 0
          then Inl (Exn SystemExit ''ERROR: --ring-size must be a positive power of two'')
          else Inr (ddr_ring_loop (ta_max_records args) ring_size (ta_check_padding args) data (ta_start_offset args) 0))"

section \<open>The summary\<close>

record parse_summary = seq_summary +
  ps_ok :: bool
  ps_format :: string
  ps_records_total :: int
  ps_records_valid :: int
  ps_records_invalid :: int
  ps_bytes_total :: int
  ps_by_type :: "string \<rightharpoonup> int"
  ps_invalid_reasons :: "string \<rightharpoonup> int"

definition add_reason :: "string \<Rightarrow> parse_summary \<Rightarrow> parse_summary" where
  "add_reason reason s = s\<lparr> ps_invalid_reasons := bump (ps_invalid_reasons s) reason \<rparr>"

definition update_summary :: "parsed_record \<Rightarrow> bool \<Rightarrow> parse_summary \<Rightarrow> parse_summary" where
  "update_summary r validation_participates s =
     (let s = s\<lparr> ps_records_total := ps_records_total s + 1, ps_by_type := bump (ps_by_type s) (pr_packet_name r) \<rparr> in
      if pr_ok r
      then
        let s = s\<lparr> ps_records_valid := ps_records_valid s + 1 \<rparr> in
        (case pr_seq r of
           Some q \<Rightarrow> if validation_participates then update_sequence q s else s
         | None \<Rightarrow> s)
      else
        foldl (\<lambda>s reason. add_reason reason s) (s\<lparr> ps_records_invalid := ps_records_invalid s + 1 \<rparr>) (pr_errors r))"

definition record_participates :: "parsed_record \<Rightarrow> bool" where
  "record_participates r \<longleftrightarrow> pr_seq r \<noteq> None \<and> pr_packet_name r \<notin> {''WRAP'', ''UNKNOWN''}"

definition ParseSummary :: "string \<Rightarrow> bytes \<Rightarrow> parse_summary" where
  "ParseSummary fmt data =
     \<lparr> sq_gap_events = 0, sq_missing_estimate = 0, sq_first = None, sq_last = None, ps_ok = True, ps_format = fmt,
       ps_records_total = 0, ps_records_valid = 0, ps_records_invalid = 0, ps_bytes_total = int (length data),
       ps_by_type = Map.empty, ps_invalid_reasons = Map.empty \<rparr>"

definition iterate :: "string \<Rightarrow> triage_args \<Rightarrow> bytes \<Rightarrow> parsed_record list result" where
  "iterate fmt args data =
     (if fmt = ''udp-framed'' then Inr (parse_udp_framed data (ta_max_records args))
      else if fmt = ''udp-raw-stream'' then Inr (parse_udp_raw_stream data (ta_max_records args))
      else if fmt = ''ddr-ring'' then parse_ddr_ring args data
      else Inl (Exn SystemExit (''ERROR: unsupported format: '' @ fmt)))"

definition parse_records :: "string \<Rightarrow> triage_args \<Rightarrow> bytes \<Rightarrow> (parse_summary \<times> parsed_record list) result" where
  "parse_records fmt args data =
     rbind (iterate fmt args data) (\<lambda>records.
     let s = foldl (\<lambda>s r. update_summary r (record_participates r) s) (ParseSummary fmt data) records;
         s = (if ps_records_invalid s \<noteq> 0 \<and> ta_strict args then s\<lparr> ps_ok := False \<rparr> else s);
         s = (if ps_records_valid s = 0 then s\<lparr> ps_ok := False \<rparr> else s) in
     Inr (s, records))"

definition detect_format :: "string \<Rightarrow> triage_args \<Rightarrow> bytes \<Rightarrow> string result" where
  "detect_format fmt args data =
     (if fmt \<noteq> ''auto'' then Inr fmt
      else if take 8 data = CAPTURE_MAGIC then Inr ''udp-framed''
      else if int (length data) \<ge> TELEMETRY_HEADER_BYTES \<and> get_le data 0 4 = TELEMETRY_MAGIC
      then Inr (if ta_ring_size args \<noteq> None then ''ddr-ring'' else ''udp-raw-stream'')
      else Inl (Exn SystemExit ''ERROR: could not auto-detect capture format; pass --format explicitly''))"

definition triage_main :: "string \<Rightarrow> triage_args \<Rightarrow> bytes \<Rightarrow> int result" where
  "triage_main fmt args data =
     rbind (detect_format fmt args data) (\<lambda>fmt.
     rbind (parse_records fmt args data) (\<lambda>(s, _).
     Inr (if ps_ok s then 0 else 1)))"

section \<open>Comparison with the strict parser\<close>

definition triage_verdict :: "bytes \<Rightarrow> (wire_header \<times> string \<times> bool) option" where
  "triage_verdict data =
     (let v = validation False 0 None False data in
      if pv_ok v then Some (the (pv_header v), pv_packet_name v, pv_participates v) else None)"

lemma triage_payload_total:
  assumes "int (length p) = th_payload_bytes h" "th_flags h = flags_from_raw (th_flags_raw h)"
    "th_packet_name h \<in> set (map fst PACKET_TYPES)" "th_packet_name h \<noteq> ''WRAP''"
  shows "(\<exists>d. triage_validate_payload (th_packet_name h) (wire_of h) p = Inr ([], d)) \<longleftrightarrow> payload_contract h p"
proof -
  let ?n = "th_packet_name h"
  have clean: "triage_validate_payload ?n (wire_of h) p = Inr ([], d) \<longleftrightarrow>
      rule_errors '' != '' ?n (wire_of h) = [] \<and> triage_report ?n (wire_of h) p = ([], d, None)" for d
    using assms(1) by (simp add: triage_validate_payload_def settle_clean)
  have len: "th_payload_bytes h = 287 \<Longrightarrow> length p = 287" "th_payload_bytes h = 268 \<Longrightarrow> length p = 268"
      "th_payload_bytes h = 72 \<Longrightarrow> length p = 72" "22 \<le> th_payload_bytes h \<Longrightarrow> 22 \<le> length p"
    using assms(1) by linarith+
  note defs = triage_report_def payload_contract_def wire_flags [OF assms(2)] Let_def
  consider "?n = ''WAVE''" | "?n = ''SPEC129''" | "?n = ''SPEC64''" | "?n = ''METRICS''" | "?n = ''STATUS''"
    | "?n \<in> {''PEAKS'', ''DEBUG''}"
    using assms(3,4) by (auto simp: PACKET_TYPES_def)
  then show ?thesis
  proof cases
    case 1
    then show ?thesis
      unfolding clean using len(4)
      by (cases "22 \<le> th_payload_bytes h") (auto simp: rule_clean defs triage_wave_def unpack_wave_def unpack_u_ok)
  next
    case 2
    then show ?thesis
      unfolding clean using len(1)
      by (cases "th_payload_bytes h = 287") (auto simp: rule_clean defs triage_spec129_def unpack_spec_def unpack_u_ok)
  next
    case 3
    then show ?thesis
      unfolding clean using len(2)
      by (cases "th_payload_bytes h = 268") (auto simp: rule_clean defs triage_spec64_def unpack_spec_def unpack_u_ok)
  next
    case 4
    then show ?thesis unfolding clean by (auto simp: rule_clean defs triage_metrics_def)
  next
    case 5
    then show ?thesis
      unfolding clean using len(3)
      by (cases "th_payload_bytes h = 72") (auto simp: rule_clean defs triage_status_def unpack_u_ok)
  next
    case 6
    then show ?thesis unfolding clean by (auto simp: rule_clean defs)
  qed
qed

text \<open>The padding clause of a ring record.\<close>

definition padding_ok :: "bool \<Rightarrow> bool \<Rightarrow> telemetry_header \<Rightarrow> bytes \<Rightarrow> bool" where
  "padding_ok ddr_record check_padding h data \<longleftrightarrow>
     (let wire_len = 32 + th_payload_bytes h; ddr_len = align_up wire_len 64 in
      \<not> (ddr_record \<and> check_padding \<and> int (length data) \<ge> ddr_len \<and>
         list_ex (\<lambda>b. b \<noteq> 0) (pyslice (nat wire_len) (nat (ddr_len - wire_len)) data)))"

lemma triage_accepts:
  assumes "parse_wire_header data = Some (wire_of h)" "wire_name (wire_of h) = th_packet_name h"
    "th_flags h = flags_from_raw (th_flags_raw h)" "0 \<le> th_payload_bytes h" "th_packet_name h \<noteq> ''WRAP''"
  defines "p \<equiv> pyslice 32 (nat (th_payload_bytes h)) data"
  shows "pv_ok (validation ddr_record off ring check_padding data) \<longleftrightarrow>
    frame_clean False h data \<and> padding_ok ddr_record check_padding h data \<and> payload_contract h p"
proof -
  let ?clean = "frame_clean False h data \<and> padding_ok ddr_record check_padding h data"
  obtain v where v: "validate_record ddr_record off ring check_padding data = Inr v" using validate_record_total by blast
  have "pv_ok v \<longleftrightarrow> ?clean \<and> (\<exists>d. triage_validate_payload (th_packet_name h) (wire_of h) p = Inr ([], d))"
    using v assms(1,2,5)
    by (auto simp: validate_record_def Let_def rbind_Inr_iff wire_payload_def TELEMETRY_HEADER_BYTES_def p_def record_len_def
        UDP_NO_FRAGMENT_PAYLOAD_MAX_BYTES_def DDR_RECORD_ALIGNMENT_BYTES_def frame_clean_def header_checks_def length_checks_def
        padding_ok_def)
  also have "\<dots> \<longleftrightarrow> ?clean \<and> payload_contract h p"
  proof (cases "frame_clean False h data")
    case True
    then have "int (length p) = th_payload_bytes h" "th_packet_name h \<noteq> ''UNKNOWN''"
      using assms(2,4) by (auto simp: frame_clean_def header_checks_def p_def pyslice_def)
    then show ?thesis using triage_payload_total [of p h] assms(2,3,5) name_known [of "wire_of h"] by simp
  qed simp
  finally show ?thesis using v by (simp add: validation_def)
qed

lemma triage_wrap_udp:
  assumes "parse_wire_header data = Some (wire_of h)" "wire_name (wire_of h) = ''WRAP''"
  shows "\<not> pv_ok (validation False off ring check_padding data)"
proof -
  obtain v where v: "validate_record False off ring check_padding data = Inr v" using validate_record_total by blast
  then have "\<not> pv_ok v" using assms by (auto simp: validate_record_def Let_def rbind_Inr_iff length_checks_def)
  with v show ?thesis by (simp add: validation_def)
qed

text \<open>The header a validation reports, whether it accepts or not.\<close>

lemma validation_header:
  assumes "parse_wire_header data = Some w"
  shows "pv_header (validation ddr_record off ring check_padding data) = Some w"
    "pv_packet_name (validation ddr_record off ring check_padding data) = wire_name w"
    "pv_participates (validation ddr_record off ring check_padding data) = participates w"
    "tv_wire_len (validation ddr_record off ring check_padding data) = record_len w"
    "wire_name w \<noteq> ''WRAP'' \<or> \<not> ddr_record \<Longrightarrow>
       tv_ddr_len (validation ddr_record off ring check_padding data) = align_up (record_len w) DDR_RECORD_ALIGNMENT_BYTES"
proof -
  obtain v where v: "validate_record ddr_record off ring check_padding data = Inr v" using validate_record_total by blast
  then have "pv_header v = Some w \<and> pv_packet_name v = wire_name w \<and> pv_participates v = participates w \<and> tv_wire_len v = record_len w \<and>
      (wire_name w \<noteq> ''WRAP'' \<or> \<not> ddr_record \<longrightarrow> tv_ddr_len v = align_up (record_len w) DDR_RECORD_ALIGNMENT_BYTES)"
    using assms by (auto simp: validate_record_def Let_def rbind_Inr_iff split: option.splits)
  with v show "pv_header (validation ddr_record off ring check_padding data) = Some w"
    "pv_packet_name (validation ddr_record off ring check_padding data) = wire_name w"
    "pv_participates (validation ddr_record off ring check_padding data) = participates w"
    "tv_wire_len (validation ddr_record off ring check_padding data) = record_len w"
    "wire_name w \<noteq> ''WRAP'' \<or> \<not> ddr_record \<Longrightarrow>
       tv_ddr_len (validation ddr_record off ring check_padding data) = align_up (record_len w) DDR_RECORD_ALIGNMENT_BYTES"
    by (simp_all add: validation_def)
qed

lemma validation_short: "length data < 32 \<Longrightarrow> \<not> pv_ok (validation ddr_record off ring check_padding data)"
  by (simp add: validation_def validate_record_def parse_wire_header_def TELEMETRY_HEADER_BYTES_def)

lemma triage_verdict_iff:
  "triage_verdict data =
     (case parse_header data of
        Inl _ \<Rightarrow> None
      | Inr h \<Rightarrow>
          if frame_clean False h data \<and> payload_contract h (pyslice 32 (nat (th_payload_bytes h)) data)
          then Some (wire_of h, th_packet_name h, participates_in_sequence h) else None)"
proof (cases rule: header_cases [of data])
  case short
  then show ?thesis using validation_short [of data False 0 None False] by (auto simp: triage_verdict_def Let_def)
next
  case (parsed h)
  have known: "frame_clean False h data \<Longrightarrow> th_packet_name h \<noteq> ''UNKNOWN''"
    using parsed(4) by (simp add: frame_clean_def header_checks_def)
  show ?thesis
  proof (cases "th_packet_name h = ''WRAP''")
    case True
    then show ?thesis
      using triage_wrap_udp [OF parsed(2)] parsed(1,4) payload_contract_name by (auto simp: triage_verdict_def Let_def)
  next
    case False
    have pad: "padding_ok False False h data" by (simp add: padding_ok_def Let_def)
    show ?thesis
      using triage_accepts [OF parsed(2,4,5,6) False, of False 0 None False] pad parsed(1,4) known
        participates_wire_of [OF parsed(4,5)]
      by (simp add: triage_verdict_def Let_def validation_header [OF parsed(2)])
  qed
qed

text \<open>
  The offline validator and the strict parser agree. On every byte string, with trailing bytes permitted, the strict
  parser accepts exactly what the offline validator accepts and the two strict clauses allow, and both report the same
  header, type and participation.
\<close>

theorem triage_agrees_with_parser: "parser_verdict False data = (if strict_clauses data then triage_verdict data else None)"
proof (cases rule: header_cases [of data])
  case short
  then show ?thesis by (auto simp: parser_verdict_def strict_clauses_def parse_datagram_def)
next
  case (parsed h)
  let ?cfg = "default_parser\<lparr> exact_length := False \<rparr>" and ?p = "pyslice 32 (nat (th_payload_bytes h)) data"
  have header: "pp_header q = h" if "parse_datagram ?cfg data = Inr q" for q
    using that parsed(1) by (auto simp: parse_datagram_def rbind_Inr_iff Let_def)
  have strict: "strict_clauses data \<longleftrightarrow> strict_only h ?p" using parsed(1) by (simp add: strict_clauses_def)
  note accepts = parser_accepts [OF parsed(1,4,5,6), of False]
  show ?thesis
  proof (cases "parse_datagram ?cfg data")
    case (Inl e)
    with accepts strict parsed(1) show ?thesis by (auto simp: parser_verdict_def triage_verdict_iff)
  next
    case (Inr q)
    with accepts header have "frame_clean False h data \<and> payload_contract h ?p \<and> strict_only h ?p" by blast
    with Inr header strict parsed(1) show ?thesis by (simp add: parser_verdict_def triage_verdict_iff packet_name_def)
  qed
qed

section \<open>Framed captures\<close>

text \<open>What a parsed record says of its datagram, and the same of a record of the dashboard's reader.\<close>

definition pr_content :: "parsed_record \<Rightarrow> int option \<times> bytes option \<times> int option \<times> bool \<times> string \<times> int option" where
  "pr_content r = (pr_recv_time_ns r, pr_src_addr r, pr_src_port r, pr_ok r, pr_packet_name r, pr_seq r)"

definition framed_content :: "capture_record \<Rightarrow> int option \<times> bytes option \<times> int option \<times> bool \<times> string \<times> int option" where
  "framed_content c =
     (case c of (t, addr, port, datagram) \<Rightarrow>
        let v = validation False 0 None False datagram in
        (Some t, Some addr, Some port, pv_ok v, pv_packet_name v, map_option wh_seq (pv_header v)))"

lemma framed_loop_records:
  assumes "pos \<le> length data"
  shows "\<exists>rs extra. udp_framed_loop 0 data pos idx = rs @ extra \<and>
    map pr_content rs = map framed_content (fst (iter_records (drop pos data))) \<and>
    (if snd (iter_records (drop pos data)) = None then extra = [] else \<exists>r. extra = [r] \<and> \<not> pr_ok r \<and> pr_seq r = None)"
  using assms
proof (induction "0 :: int" data pos idx rule: udp_framed_loop.induct)
  case (1 data pos idx)
  note step = udp_framed_loop.simps [of 0 data pos idx] iter_records.simps [of "drop pos data"]
  have lim: "\<not> limit_reached 0 idx" by (simp add: limit_reached_def)
  consider "pos = length data" | "pos < length data" "length data < pos + 16" | "pos + 16 \<le> length data"
    using "1.prems" by linarith
  then show ?case
  proof cases
    case 1
    then show ?thesis unfolding step(1) by simp
  next
    case 2
    then have "iter_records (drop pos data) = ([], Some (perr ''truncated capture record header''))"
      unfolding step(2) Let_def by simp
    with 2 lim show ?thesis unfolding step(1) by (simp add: record_from_validation_def dummy_def)
  next
    case 3
    define f where "f = unpack_fields CAPTURE_RECORD_STRUCT (drop pos data)"
    have f: "unpack_fields CAPTURE_RECORD_STRUCT (take 16 (drop pos data)) = f"
      by (simp add: f_def CAPTURE_RECORD_STRUCT_def take_drop)
    define a n where "a = nat (f ! 2)" and "n = nat (f ! 3)"
    have lens: "length (take 16 (drop pos data)) = 16" "take 16 (drop pos data) \<noteq> []" "pos < length data" using 3 by auto
    show ?thesis
    proof (cases "length data < pos + 16 + a + n")
      case True
      then have "snd (iter_records (drop pos data)) \<noteq> None \<and> fst (iter_records (drop pos data)) = []"
        using lens 3 unfolding step(2) f Let_def a_def [symmetric] n_def [symmetric]
        by auto
      then show ?thesis
        using True 3 lim lens(3) unfolding step(1) f_def [symmetric] Let_def a_def [symmetric] n_def [symmetric]
        by (simp add: record_from_validation_def dummy_def)
    next
      case False
      let ?rest = "drop (pos + 16 + a + n) data" and ?addr = "pyslice (pos + 16) a data" and ?dat = "pyslice (pos + 16 + a) n data"
      have it: "iter_records (drop pos data) =
          ((f ! 0, ?addr, f ! 1, ?dat) # fst (iter_records ?rest), snd (iter_records ?rest))"
        using lens 3 False unfolding step(2) f Let_def a_def [symmetric] n_def [symmetric]
        by (simp add: pyslice_def case_prod_unfold add.commute add.left_commute)
      have loop: "udp_framed_loop 0 data pos idx =
          record_from_validation idx pos ''udp-framed'' (validation False 0 None False ?dat) (Some (f ! 0)) (Some ?addr) (Some (f ! 1))
          # udp_framed_loop 0 data (pos + 16 + a + n) (idx + 1)"
        using lens(3) 3 False lim unfolding step(1) f_def [symmetric] Let_def a_def [symmetric] n_def [symmetric] by simp
      have "\<exists>rs extra. udp_framed_loop 0 data (pos + 16 + a + n) (idx + 1) = rs @ extra \<and>
          map pr_content rs = map framed_content (fst (iter_records ?rest)) \<and>
          (if snd (iter_records ?rest) = None then extra = [] else \<exists>r. extra = [r] \<and> \<not> pr_ok r \<and> pr_seq r = None)"
        using "1.hyps" [OF _ _ refl refl refl refl refl refl] lens(3) 3 False lim
        by (simp add: f_def a_def n_def Let_def)
      then obtain rs extra where "udp_framed_loop 0 data (pos + 16 + a + n) (idx + 1) = rs @ extra"
          "map pr_content rs = map framed_content (fst (iter_records ?rest))"
          "if snd (iter_records ?rest) = None then extra = [] else \<exists>r. extra = [r] \<and> \<not> pr_ok r \<and> pr_seq r = None"
        by blast
      then show ?thesis
        by (intro exI [of _ "record_from_validation idx pos ''udp-framed'' (validation False 0 None False ?dat) (Some (f ! 0))
              (Some ?addr) (Some (f ! 1)) # rs"] exI [of _ extra])
           (simp add: loop it pr_content_def framed_content_def record_from_validation_def Let_def)
    qed
  qed
qed

text \<open>
  The offline parser and the dashboard read the same captures. On every framed capture the offline parser reports one record for each
  datagram the dashboard's reader yields, with its time, address, port and verdict, in order, and one more, invalid, record exactly
  when the dashboard's reader ends with an error.
\<close>

theorem framed_captures_agree:
  assumes "take 8 data = CAPTURE_MAGIC"
  shows "\<exists>rs extra. parse_udp_framed data 0 = rs @ extra \<and>
    map pr_content rs = map framed_content (fst (iter_capture_datagrams data)) \<and>
    (if snd (iter_capture_datagrams data) = None then extra = [] else \<exists>r. extra = [r] \<and> \<not> pr_ok r \<and> pr_seq r = None)"
proof -
  have "length CAPTURE_MAGIC = 8" by (simp add: CAPTURE_MAGIC_def)
  moreover have "8 \<le> length data" using arg_cong [OF assms, of length] by (simp add: CAPTURE_MAGIC_def)
  ultimately show ?thesis
    using framed_loop_records [of 8 data 0] assms by (simp add: parse_udp_framed_def iter_capture_datagrams_def)
qed

section \<open>The summary balances\<close>

lemma triage_reasons_frame:
  "foldl (\<lambda>s reason. add_reason reason s) s rs = s\<lparr> ps_invalid_reasons := foldl bump (ps_invalid_reasons s) rs \<rparr>"
  by (induction rs arbitrary: s) (simp_all add: add_reason_def)

lemma triage_sequence_frame:
  fixes s :: parse_summary
  shows "ps_records_total (update_sequence q s) = ps_records_total s" "ps_records_valid (update_sequence q s) = ps_records_valid s"
    "ps_records_invalid (update_sequence q s) = ps_records_invalid s"
  by (simp_all add: update_sequence_def Let_def split: option.split)

lemma update_summary_counts:
  "ps_records_total (update_summary r b s) = ps_records_total s + 1"
  "ps_records_valid (update_summary r b s) = ps_records_valid s + of_bool (pr_ok r)"
  "ps_records_invalid (update_summary r b s) = ps_records_invalid s + of_bool (\<not> pr_ok r)"
  by (auto simp: update_summary_def Let_def triage_reasons_frame triage_sequence_frame split: option.split)

abbreviation summarize :: "parse_summary \<Rightarrow> parsed_record list \<Rightarrow> parse_summary" where
  "summarize \<equiv> foldl (\<lambda>s r. update_summary r (record_participates r) s)"

lemma summary_counts:
  "ps_records_total (summarize s rs) = ps_records_total s + int (length rs)"
  "ps_records_valid (summarize s rs) = ps_records_valid s + int (length (filter pr_ok rs))"
  "ps_records_invalid (summarize s rs) = ps_records_invalid s + int (length (filter (\<lambda>r. \<not> pr_ok r) rs))"
  by (induction rs arbitrary: s) (simp_all add: update_summary_counts)

lemma parse_records_counts:
  assumes "iterate fmt args data = Inr rs"
  shows "\<exists>s. parse_records fmt args data = Inr (s, rs) \<and> ps_records_total s = int (length rs) \<and>
    ps_records_valid s = int (length (filter pr_ok rs)) \<and> ps_records_valid s + ps_records_invalid s = ps_records_total s \<and>
    (ps_ok s \<longleftrightarrow> filter pr_ok rs \<noteq> [] \<and> (\<not> ta_strict args \<or> list_all pr_ok rs))"
proof -
  define s0 where "s0 = summarize (ParseSummary fmt data) rs"
  have ok: "ps_ok (summarize t xs) = ps_ok t" for t xs
    by (induction xs arbitrary: t)
       (auto simp: update_summary_def Let_def triage_reasons_frame update_sequence_def split: option.split)
  have c: "ps_records_total s0 = int (length rs)" "ps_records_valid s0 = int (length (filter pr_ok rs))"
      "ps_records_invalid s0 = int (length (filter (\<lambda>r. \<not> pr_ok r) rs))" "ps_ok s0"
    unfolding s0_def summary_counts ok by (simp_all add: ParseSummary_def)
  have split: "int (length (filter pr_ok rs)) + int (length (filter (\<lambda>r. \<not> pr_ok r) rs)) = int (length rs)"
    using sum_length_filter_compl [of pr_ok rs] by linarith
  have all: "filter (\<lambda>r. \<not> pr_ok r) rs = [] \<longleftrightarrow> list_all pr_ok rs" by (induction rs) auto
  show ?thesis
    using assms c split all by (auto simp: parse_records_def Let_def s0_def [symmetric])
qed

section \<open>Reading the receiver's captures\<close>

lemma smoke_ok_triage_ok:
  assumes "smoke_verdict d \<noteq> None"
  shows "pv_ok (validation False 0 None False d)"
proof (cases rule: header_cases [of d])
  case short
  then show ?thesis using assms by (simp add: smoke_verdict_def validate_datagram_def)
next
  case (parsed h)
  have "\<exists>v. validate_datagram False d = Inr v \<and> pv_ok v"
    using assms by (auto simp: smoke_verdict_def split: sum.splits if_splits)
  then have "frame_clean False h d \<and> payload_contract h (pyslice 32 (nat (th_payload_bytes h)) d)"
    using smoke_accepts [OF parsed(2,4,5,6)] by (auto simp: frame_clean_def)
  then have "triage_verdict d \<noteq> None" using parsed(1) by (simp add: triage_verdict_iff)
  then show ?thesis by (simp add: triage_verdict_def Let_def split: if_splits)
qed

lemma filter_weaker: "(\<And>x. P x \<Longrightarrow> Q x) \<Longrightarrow> length (filter P xs) \<le> length (filter Q xs)"
  by (induction xs) (auto simp: le_SucI)

text \<open>
  The offline parser reads what the bring-up receiver captured. It reports one record for each datagram the receiver admitted,
  none of them truncated, and at least as many valid ones as the receiver counted.
\<close>

theorem triage_reads_smoke_capture:
  assumes "receive args started evs = Inr (s, Some capture)" "ta_max_records targs = 0"
  shows "\<exists>ds ps rs. prefix ds (recvs evs) \<and> parse_records ''udp-framed'' targs capture = Inr (ps, rs) \<and>
    map pr_content rs = map framed_content (map smoke_record (processed args ds)) \<and>
    ps_records_total ps = int (length (processed args ds)) \<and> rs_packets_valid s \<le> ps_records_valid ps"
proof -
  obtain s0 ds where s: "s = judge args s0" and ds: "prefix ds (recvs evs)" "runs args (ReceiveSummary, open_capture args) ds (s0, Some capture)"
    using receive_runs [OF assms(1)] .
  have opened: "open_capture args = Some CAPTURE_MAGIC"
  proof (cases "sa_capture args")
    case False
    then have none: "open_capture args = None" by (simp add: open_capture_def)
    then show ?thesis using ds(2) runs_no_capture [of args ReceiveSummary ds s0 "Some capture"] none by simp
  qed (simp add: open_capture_def)
  obtain tail where tail: "capture = CAPTURE_MAGIC @ tail" "iter_records tail = (map smoke_record (processed args ds), None)"
    using runs_capture [of args ReceiveSummary CAPTURE_MAGIC ds s0] ds(2) opened by auto
  have "length CAPTURE_MAGIC = 8" by (simp add: CAPTURE_MAGIC_def)
  then obtain rs where rs: "parse_udp_framed capture 0 = rs" "map pr_content rs = map framed_content (map smoke_record (processed args ds))"
    using framed_loop_records [of 8 capture 0] tail by (auto simp: parse_udp_framed_def)
  obtain ps where ps: "parse_records ''udp-framed'' targs capture = Inr (ps, rs)" "ps_records_total ps = int (length rs)"
      "ps_records_valid ps = int (length (filter pr_ok rs))"
    using parse_records_counts [of "''udp-framed''" targs capture rs] rs(1) assms(2) by (auto simp: iterate_def)
  have len: "length rs = length (processed args ds)" using arg_cong [OF rs(2), of length] by simp
  have oks: "map pr_ok rs = map (\<lambda>d. pv_ok (validation False 0 None False (rv_datagram d))) (processed args ds)"
    using arg_cong [OF rs(2), of "map (\<lambda>(_, _, _, ok, _). ok)"]
    by (simp add: pr_content_def framed_content_def smoke_record_def o_def Let_def)
  have "length (filter pr_ok rs) = length (filter id (map pr_ok rs))" by (simp add: filter_map o_def)
  also have "\<dots> = length (filter (\<lambda>d. pv_ok (validation False 0 None False (rv_datagram d))) (processed args ds))"
    unfolding oks by (simp add: filter_map o_def)
  finally have "length (valid_datagrams (processed args ds)) \<le> length (filter pr_ok rs)"
    using filter_weaker [of "\<lambda>d. smoke_verdict (rv_datagram d) \<noteq> None"
        "\<lambda>d. pv_ok (validation False 0 None False (rv_datagram d))"] smoke_ok_triage_ok
    by (simp add: valid_datagrams_def)
  then show ?thesis
    using ds(1) ps rs(2) len runs_counters [OF ds(2)] by (intro exI [of _ ds] exI [of _ ps] exI [of _ rs]) (simp add: s ReceiveSummary_def)
qed

section \<open>Ring dumps\<close>

lemma align_up_64: "align_up v 64 = align64 v"
  by (simp add: align_up_def align64_def add.commute)

lemma unpack_fields_prefix: "sum_list ns \<le> length bs \<Longrightarrow> unpack_fields ns (bs @ x) = unpack_fields ns bs"
  by (induction ns arbitrary: bs) auto

lemma parse_wire_header_prefix:
  assumes "32 \<le> length bs"
  shows "parse_wire_header (bs @ x) = parse_wire_header bs"
  using assms by (simp add: parse_wire_header_def unpack_fields_prefix TELEMETRY_HEADER_BYTES_def)

text \<open>A record as the ring writer lays it out, padded with zeros to the next 64-byte boundary, and a run of records.\<close>

definition padded :: "bytes \<Rightarrow> bytes" where
  "padded r = r @ replicate (nat (align64 (int (length r))) - length r) 0"

definition ring_image :: "bytes list \<Rightarrow> bytes" where
  "ring_image rs = concat (map padded rs)"

lemma length_padded: "int (length (padded r)) = align64 (int (length r))"
proof -
  have "length r \<le> nat (align64 (int (length r)))" "0 \<le> align64 (int (length r))"
    using align64_least [of "int (length r)"] by linarith+
  then show ?thesis by (simp add: padded_def)
qed

lemma smoke_record_exact:
  assumes "smoke_verdict r \<noteq> None"
  obtains h where "parse_wire_header r = Some (wire_of h)" "wire_name (wire_of h) = th_packet_name h"
    "th_flags h = flags_from_raw (th_flags_raw h)" "0 \<le> th_payload_bytes h" "th_packet_name h \<noteq> ''WRAP''"
    "frame_clean True h r" "payload_contract h (pyslice 32 (nat (th_payload_bytes h)) r)"
proof (cases rule: header_cases [of r])
  case short
  then show ?thesis using assms by (simp add: smoke_verdict_def validate_datagram_def)
next
  case (parsed h)
  have "\<exists>v. validate_datagram False r = Inr v \<and> pv_ok v"
    using assms by (auto simp: smoke_verdict_def split: sum.splits if_splits)
  then have "frame_clean True h r" "payload_contract h (pyslice 32 (nat (th_payload_bytes h)) r)"
    using smoke_accepts [OF parsed(2,4,5,6)] by blast+
  with payload_contract_name parsed that show ?thesis by blast
qed

lemma ring_record_front:
  assumes "smoke_verdict r \<noteq> None"
  shows "pv_ok (validation True off ring cp (padded r @ after))" "tv_wire_len (validation True off ring cp (padded r @ after)) = int (length r)"
    "ring_step (validation True off ring cp (padded r @ after)) = length (padded r)"
    "pv_packet_name (validation True off ring cp (padded r @ after)) \<noteq> ''WRAP''" "32 \<le> length (padded r)"
    "\<not> list_all (\<lambda>b. b = 0) (take 32 (padded r @ after))"
proof -
  obtain h where h: "parse_wire_header r = Some (wire_of h)" "wire_name (wire_of h) = th_packet_name h"
      "th_flags h = flags_from_raw (th_flags_raw h)" "0 \<le> th_payload_bytes h" "th_packet_name h \<noteq> ''WRAP''"
      "frame_clean True h r" "payload_contract h (pyslice 32 (nat (th_payload_bytes h)) r)"
    using smoke_record_exact [OF assms(1)] .
  let ?data = "padded r @ after"
  have len: "int (length r) = 32 + th_payload_bytes h" "32 \<le> length r" using h(4,6) by (auto simp: frame_clean_def)
  have w: "parse_wire_header ?data = Some (wire_of h)"
    using h(1) len(2) parse_wire_header_prefix [of r] by (simp add: padded_def)
  have al: "int (length r) \<le> align64 (int (length r))" using align64_least by blast
  have "frame_clean False h ?data" using h(6) by (auto simp: frame_clean_def padded_def)
  moreover have "padding_ok True cp h ?data"
    using len(1) by (auto simp: padding_ok_def align_up_64 Let_def list_ex_iff pyslice_def padded_def dest: in_set_takeD)
  moreover have "pyslice 32 (nat (th_payload_bytes h)) ?data = pyslice 32 (nat (th_payload_bytes h)) r"
    using len by (auto simp: pyslice_def padded_def)
  ultimately show "pv_ok (validation True off ring cp (padded r @ after))"
    using triage_accepts [OF w h(2-5), of True off ring cp] h(7) by simp
  show "tv_wire_len (validation True off ring cp (padded r @ after)) = int (length r)"
    using len(1) by (simp add: validation_header [OF w] record_len_def TELEMETRY_HEADER_BYTES_def)
  have "tv_ddr_len (validation True off ring cp (padded r @ after)) = int (length (padded r))"
    using len(1) h(2,5) by (simp add: validation_header [OF w] record_len_def TELEMETRY_HEADER_BYTES_def
        DDR_RECORD_ALIGNMENT_BYTES_def align_up_64 length_padded)
  moreover show "32 \<le> length (padded r)" using len(2) by (simp add: padded_def)
  ultimately show "ring_step (validation True off ring cp (padded r @ after)) = length (padded r)" by (auto simp: ring_step_def Let_def)
  show "pv_packet_name (validation True off ring cp (padded r @ after)) \<noteq> ''WRAP''" using h(2,5) by (simp add: validation_header [OF w])
  show "\<not> list_all (\<lambda>b. b = 0) (take 32 ?data)"
  proof
    assume "list_all (\<lambda>b. b = 0) (take 32 ?data)"
    then have "take 4 ?data = replicate 4 0"
      using len(2) set_take_subset_set_take [of 4 32 r] by (intro replicate_eqI) (auto simp: list_all_iff padded_def)
    then have "from_le (take 4 ?data) = 0" by (simp del: take_append)
    moreover have "unpack_fields TELEMETRY_HEADER_STRUCT ?data ! 0 = TELEMETRY_MAGIC"
      using w h(6) by (auto simp: parse_wire_header_def frame_clean_def header_checks_def wire_of_def Let_def split: if_splits)
    ultimately show False by (simp add: TELEMETRY_HEADER_STRUCT_def TELEMETRY_MAGIC_def del: take_append)
  qed
qed

text \<open>The listing a dump should give: offset, verdict and record length.\<close>

fun ring_listing :: "nat \<Rightarrow> bytes list \<Rightarrow> (nat \<times> bool \<times> int) list" where
  "ring_listing pos [] = []"
| "ring_listing pos (r # rs) = (pos, True, int (length r)) # ring_listing (pos + length (padded r)) rs"

definition pr_listing :: "parsed_record \<Rightarrow> nat \<times> bool \<times> int" where
  "pr_listing r = (pr_offset r, pr_ok r, pr_wire_len r)"

lemma ring_loop_image:
  assumes "list_all (\<lambda>r. smoke_verdict r \<noteq> None) rs"
  shows "map pr_listing (ddr_ring_loop 0 n cp (pre @ ring_image rs @ tail) (length pre) idx) =
    ring_listing (length pre) rs @
    map pr_listing (ddr_ring_loop 0 n cp (pre @ ring_image rs @ tail) (length pre + length (ring_image rs)) (idx + length rs))"
  using assms
proof (induction rs arbitrary: pre idx)
  case (Cons r rs)
  let ?data = "pre @ ring_image (r # rs) @ tail" and ?after = "ring_image rs @ tail"
  have ok: "smoke_verdict r \<noteq> None" using Cons.prems by simp
  note front = ring_record_front [OF ok]
  have drop: "drop (length pre) ?data = padded r @ ?after" by (simp add: ring_image_def)
  have ne: "padded r \<noteq> []" using front(5) by auto
  have "ddr_ring_loop 0 n cp ?data (length pre) idx =
      record_from_validation idx (length pre) ''ddr-ring'' (validation True (int (length pre)) (Some n) cp (padded r @ ?after)) None None None
      # ddr_ring_loop 0 n cp ?data (length pre + length (padded r)) (idx + 1)"
    using front(3,5,6) ne unfolding ddr_ring_loop.simps [of 0 n cp ?data "length pre" idx] drop
    by (simp add: limit_reached_def TELEMETRY_HEADER_BYTES_def ring_image_def Let_def)
  moreover have "?data = (pre @ padded r) @ ring_image rs @ tail" by (simp add: ring_image_def)
  ultimately show ?case
    using Cons.IH [of "pre @ padded r" "idx + 1"] Cons.prems front(1,2)
    by (simp add: pr_listing_def record_from_validation_def ring_image_def add.assoc)
qed (simp add: ring_image_def)

text \<open>
  C31: ring dumps are read back. A dump that holds valid records, each padded to its 64-byte slot, and zeros after them is listed by the
  offline parser record by record, at the right offsets, with the right lengths and all valid, whether or not padding is
  checked, and nothing else is reported.
\<close>

theorem ring_dump_read_back:
  assumes "list_all (\<lambda>r. smoke_verdict r \<noteq> None) rs" "list_all (\<lambda>b. b = 0) tail"
  shows "map pr_listing (ddr_ring_loop 0 n cp (ring_image rs @ tail) 0 0) = ring_listing 0 rs"
proof -
  let ?data = "ring_image rs @ tail"
  have zeros: "list_all (\<lambda>b. b = 0) (take 32 (drop (length (ring_image rs)) ?data))"
    using assms(2) by (auto simp: list_all_iff dest: in_set_takeD)
  have "ddr_ring_loop 0 n cp ?data (length (ring_image rs)) idx = []" for idx
    using zeros by (simp add: ddr_ring_loop.simps [of 0 n cp ?data] TELEMETRY_HEADER_BYTES_def)
  then show ?thesis using ring_loop_image [OF assms(1), of n cp "[]" tail 0] by simp
qed

section \<open>Examples\<close>

definition status_datagram :: "int \<Rightarrow> int \<Rightarrow> bytes" where
  "status_datagram flags seq =
     pack_fields TELEMETRY_HEADER_STRUCT [TELEMETRY_MAGIC, 1, 32, 5, flags, seq, 0, 72, 0] @ replicate 72 0"

definition default_triage :: triage_args where
  "default_triage =
     \<lparr> ta_ring_size = None, ta_start_offset = 0, ta_max_records = 0, ta_check_padding = False, ta_strict = False \<rparr>"

text \<open>
  A STATUS packet, a diagnostic one with sequence number zero, and the next STATUS packet. The diagnostic packet has no
  place in the sequence, yet the offline parser counts two gaps, and the dashboard's accounting of the same packets none.
\<close>

lemma diagnostics_counted_as_gaps:
  "sq_gap_events (fst (projr (parse_records ''udp-raw-stream'' default_triage
     (status_datagram 0 5 @ status_datagram 32 0 @ status_datagram 0 6)))) = 2 \<and>
   sequence_gaps (map (\<lambda>d. projr (parse_datagram default_parser d))
     [status_datagram 0 5, status_datagram 32 0, status_datagram 0 6]) = []"
  by code_simp

theorem framed_captures_agree_witness:
  "\<exists>rs extra. parse_udp_framed CAPTURE_MAGIC 0 = rs @ extra \<and> map pr_content rs = [] \<and> extra = []"
proof -
  have "take 8 CAPTURE_MAGIC = CAPTURE_MAGIC" by (simp add: CAPTURE_MAGIC_def)
  moreover have "iter_capture_datagrams CAPTURE_MAGIC = ([], None)" by (simp add: iter_capture_datagrams_def CAPTURE_MAGIC_def)
  ultimately show ?thesis using framed_captures_agree [of CAPTURE_MAGIC] by auto
qed

theorem triage_reads_smoke_capture_witness:
  "\<exists>s capture ds ps rs. receive example_args 0 example_script = Inr (s, Some capture) \<and>
     parse_records ''udp-framed'' default_triage capture = Inr (ps, rs) \<and>
     ps_records_total ps = int (length (processed example_args ds)) \<and> rs_packets_valid s \<le> ps_records_valid ps"
proof -
  obtain s c where r: "receive example_args 0 example_script = Inr (s, c)"
    using example_run by (cases "receive example_args 0 example_script") auto
  have "c \<noteq> None"
  proof
    assume none: "c = None"
    obtain s0 ds where "runs example_args (ReceiveSummary, open_capture example_args) ds (s0, c)" using receive_runs [OF r] .
    then show False
      using runs_capture [of example_args ReceiveSummary CAPTURE_MAGIC ds s0 c] none by (auto simp: open_capture_def example_args_def)
  qed
  then obtain capture where "c = Some capture" by blast
  with r have "receive example_args 0 example_script = Inr (s, Some capture)" by simp
  from triage_reads_smoke_capture [OF this, of default_triage] this show ?thesis by (auto simp: default_triage_def)
qed

theorem ring_dump_read_back_witness:
  "map pr_listing (ddr_ring_loop 0 4096 True (ring_image [metrics_example, wave_example] @ replicate 40 0) 0 0) =
     [(0, True, 88), (128, True, 60)]"
proof -
  have "list_all (\<lambda>r. smoke_verdict r \<noteq> None) [metrics_example, wave_example]" by code_simp
  moreover have "ring_listing 0 [metrics_example, wave_example] = [(0, True, 88), (128, True, 60)]" by code_simp
  moreover have "list_all (\<lambda>b. b = 0) (replicate 40 (0 :: byte))" by (simp add: list_all_iff)
  ultimately show ?thesis using ring_dump_read_back [of "[metrics_example, wave_example]" "replicate 40 0"] by metis
qed

end
