(* ===== verification/Ring_Buffers.thy ===== *)
theory Ring_Buffers
  imports Complex_Main Packet_Parser Serial_Numbers
begin

text \<open>
  The dashboard's in-memory buffers, \<^verbatim>\<open>sw/pc_dashboard/trecap_dashboard/ring_buffers.py\<close>.

  A \<open>fixed_ring\<close> is the class \<^verbatim>\<open>FixedRing\<close>, a bounded deque with two counters; \<open>dashboard\<close> is the
  class \<^verbatim>\<open>DashboardRingBuffers\<close>, six rings, the statistics record and the deque of receive times. Each
  method is one definition on the state. Clock readings are arguments. Python floats occur in four
  places (the rate window, the rate and the two display ratios): they are exact rationals here, so their
  binary rounding is not modelled. The lemmas show that every ring holds exactly the most recent items
  of everything ingested, that the counters count, and that the sequence accounting refines
  \<open>Serial_Numbers.serial_step\<close>.
\<close>

section \<open>Bounded rings\<close>

text \<open>The most recent \<open>n\<close> items of a history.\<close>

definition lastn :: "nat \<Rightarrow> 'a list \<Rightarrow> 'a list" where
  "lastn n xs = drop (length xs - n) xs"

lemma length_lastn [simp]: "length (lastn n xs) = min n (length xs)"
  by (auto simp: lastn_def)

lemma lastn_all [simp]: "length xs \<le> n \<Longrightarrow> lastn n xs = xs"
  by (simp add: lastn_def)

lemma lastn_lastn_append: "lastn n (lastn n xs @ ys) = lastn n (xs @ ys)"
  by (cases "length xs \<le> n") (auto simp: lastn_def add.commute)

lemma set_lastn: "set (lastn n xs) \<subseteq> set xs"
  by (auto simp: lastn_def dest: in_set_dropD)

text \<open>
  The contract of a bounded history: a push appends on the right and forgets on the left. Its one
  consequence, that any sequence of pushes keeps the most recent items, is used for the rings and for the
  deque of receive times.
\<close>

locale bounded_history =
  fixes push :: "'r \<Rightarrow> 'a \<Rightarrow> 'r"
    and items :: "'r \<Rightarrow> 'a list"
    and cap :: "'r \<Rightarrow> nat"
    and ok :: "'r \<Rightarrow> bool"
  assumes items_push: "ok r \<Longrightarrow> items (push r x) = lastn (cap r) (items r @ [x])"
    and cap_push: "cap (push r x) = cap r"
    and ok_push: "ok r \<Longrightarrow> ok (push r x)"
    and ok_length: "ok r \<Longrightarrow> length (items r) \<le> cap r"
begin

lemma cap_pushes: "cap (foldl push r xs) = cap r"
  by (induction xs arbitrary: r) (simp_all add: cap_push)

lemma ok_pushes: "ok r \<Longrightarrow> ok (foldl push r xs)"
  by (induction xs arbitrary: r) (simp_all add: ok_push)

lemma items_pushes: "ok r \<Longrightarrow> items (foldl push r xs) = lastn (cap r) (items r @ xs)"
proof (induction xs arbitrary: r)
  case (Cons x xs)
  have "items (foldl push (push r x) xs) = lastn (cap r) (lastn (cap r) (items r @ [x]) @ xs)"
    using Cons by (simp add: items_push cap_push ok_push)
  then show ?case by (simp add: lastn_lastn_append)
qed (simp add: ok_length)

end

record 'a fixed_ring =
  ring_capacity :: nat
  ring_items :: "'a list"
  total_appended :: nat
  dropped_oldest :: nat

definition FixedRing :: "int \<Rightarrow> 'a fixed_ring result" where
  "FixedRing capacity =
     (if capacity < 1 then Inl (Exn ValueError ''ring capacity must be >= 1'')
      else Inr \<lparr> ring_capacity = nat capacity, ring_items = [], total_appended = 0,
                 dropped_oldest = 0 \<rparr>)"

text \<open>\<^verbatim>\<open>deque(maxlen=n).append\<close>.\<close>

definition deque_append :: "nat \<Rightarrow> 'a list \<Rightarrow> 'a \<Rightarrow> 'a list" where
  "deque_append maxlen items x =
     (if maxlen = 0 then []
      else if length items = maxlen then tl items @ [x] else items @ [x])"

definition ring_append :: "'a fixed_ring \<Rightarrow> 'a \<Rightarrow> 'a fixed_ring" where
  "ring_append r item =
     (let r = (if length (ring_items r) = ring_capacity r
               then r\<lparr> dropped_oldest := dropped_oldest r + 1 \<rparr> else r) in
      r\<lparr> ring_items := deque_append (ring_capacity r) (ring_items r) item,
         total_appended := total_appended r + 1 \<rparr>)"

definition ring_extend :: "'a fixed_ring \<Rightarrow> 'a list \<Rightarrow> 'a fixed_ring" where
  "ring_extend r items = foldl ring_append r items"

definition ring_clear :: "'a fixed_ring \<Rightarrow> 'a fixed_ring" where
  "ring_clear r = r\<lparr> ring_items := [], total_appended := 0, dropped_oldest := 0 \<rparr>"

definition ring_snapshot :: "'a fixed_ring \<Rightarrow> 'a list" where
  "ring_snapshot r = ring_items r"

definition ring_last :: "'a fixed_ring \<Rightarrow> 'a option" where
  "ring_last r = (if ring_items r = [] then None else Some (last (ring_items r)))"

definition ring_ok :: "'a fixed_ring \<Rightarrow> bool" where
  "ring_ok r \<longleftrightarrow> 1 \<le> ring_capacity r \<and> length (ring_items r) \<le> ring_capacity r \<and>
     total_appended r = length (ring_items r) + dropped_oldest r"

lemma deque_append_lastn:
  "length items \<le> maxlen \<Longrightarrow> deque_append maxlen items x = lastn maxlen (items @ [x])"
  by (cases items) (auto simp: deque_append_def lastn_def)

lemma ring_append_simps [simp]:
  "ring_capacity (ring_append r x) = ring_capacity r"
  "total_appended (ring_append r x) = total_appended r + 1"
  "ring_items (ring_append r x) = deque_append (ring_capacity r) (ring_items r) x"
  by (simp_all add: ring_append_def Let_def)

lemma ring_ok_append: "ring_ok r \<Longrightarrow> ring_ok (ring_append r x)"
  by (auto simp: ring_ok_def ring_append_def deque_append_def Let_def)

lemma ring_ok_extend: "ring_ok r \<Longrightarrow> ring_ok (ring_extend r xs)"
  unfolding ring_extend_def by (induction xs arbitrary: r) (simp_all add: ring_ok_append)

lemma ring_ok_new: "FixedRing n = Inr r \<Longrightarrow> ring_ok r"
  by (auto simp: FixedRing_def ring_ok_def split: if_splits)

lemma ring_ok_clear: "ring_ok r \<Longrightarrow> ring_ok (ring_clear r)"
  by (simp add: ring_ok_def ring_clear_def)

lemma ring_ok_length: "ring_ok r \<Longrightarrow> length (ring_items r) \<le> ring_capacity r"
  by (simp add: ring_ok_def)

interpretation ring: bounded_history ring_append ring_items ring_capacity ring_ok
  by unfold_locales (auto simp: deque_append_lastn ring_ok_append ring_ok_length)

lemma ring_extend_items:
  "ring_ok r \<Longrightarrow> ring_items (ring_extend r xs) = lastn (ring_capacity r) (ring_items r @ xs)"
  unfolding ring_extend_def by (rule ring.items_pushes)

lemma ring_extend_capacity [simp]: "ring_capacity (ring_extend r xs) = ring_capacity r"
  unfolding ring_extend_def by (rule ring.cap_pushes)

lemma ring_extend_appended [simp]: "total_appended (ring_extend r xs) = total_appended r + length xs"
  unfolding ring_extend_def by (induction xs arbitrary: r) simp_all

section \<open>What the rings hold\<close>

definition kept_energy_ratio :: "metrics_payload \<Rightarrow> rat option" where
  "kept_energy_ratio p =
     (if mp_eligible_total_mag2_lo p = 0 then None
      else Some (of_int (mp_eligible_kept_mag2_lo p) / of_int (mp_eligible_total_mag2_lo p)))"

definition suppressed_bin_ratio :: "metrics_payload \<Rightarrow> rat option" where
  "suppressed_bin_ratio p =
     (if mp_eligible_unique_bins p = 0 then None
      else Some (of_int (mp_eligible_suppressed_bins p) / of_int (mp_eligible_unique_bins p)))"

record packet_summary =
  ps_recv_time_ns :: int
  ps_packet_name :: string
  ps_seq :: int
  ps_timestamp :: int
  ps_payload_bytes :: int
  ps_diagnostic :: bool
  ps_payload_truncated :: bool

record sequence_gap_event =
  sg_recv_time_ns :: int
  sg_previous_seq :: int
  sg_current_seq :: int
  sg_missing_count :: int

record wave_point =
  wv_recv_time_ns :: int
  wv_sample_index :: int
  wv_xdel :: int
  wv_yout :: int
  wv_err :: int

definition from_wave_sample :: "int \<Rightarrow> wave_sample \<Rightarrow> wave_point" where
  "from_wave_sample recv_time_ns sample =
     \<lparr> wv_recv_time_ns = recv_time_ns, wv_sample_index = ws_sample_index sample,
       wv_xdel = ws_xdel sample, wv_yout = ws_yout sample, wv_err = ws_err sample \<rparr>"

record spectrum_frame =
  sf_recv_time_ns :: int
  sf_packet_name :: string
  sf_frame_idx :: int
  sf_spec_shift :: int
  sf_magnitudes :: "int list"
  sf_mask_bits :: "bool list option"
  sf_suppressed_count :: "int list option"
  sf_eligible_count :: "int list option"

record metrics_point =
  mt_recv_time_ns :: int
  mt_payload :: metrics_payload
  mt_kept_energy_ratio :: "rat option"
  mt_suppressed_bin_ratio :: "rat option"
  mt_aggregate_metrics :: bool
  mt_per_frame_metrics :: bool
  mt_payload_truncated :: bool

text \<open>
  \<^verbatim>\<open>MetricsPoint\<close> copies the nine payload fields under their own names; the model keeps them as the
  payload record.
\<close>

definition metrics_from_payload :: "int \<Rightarrow> metrics_payload \<Rightarrow> metrics_point" where
  "metrics_from_payload recv_time_ns payload =
     \<lparr> mt_recv_time_ns = recv_time_ns, mt_payload = payload,
       mt_kept_energy_ratio = kept_energy_ratio payload,
       mt_suppressed_bin_ratio = suppressed_bin_ratio payload,
       mt_aggregate_metrics = False, mt_per_frame_metrics = False, mt_payload_truncated = False \<rparr>"

definition metrics_from_packet :: "int \<Rightarrow> parsed_packet \<Rightarrow> metrics_point result" where
  "metrics_from_packet recv_time_ns packet =
     (case pp_payload packet of
        MetricsPayload payload \<Rightarrow>
          Inr \<lparr> mt_recv_time_ns = recv_time_ns, mt_payload = payload,
                mt_kept_energy_ratio = kept_energy_ratio payload,
                mt_suppressed_bin_ratio = suppressed_bin_ratio payload,
                mt_aggregate_metrics = fl_aggregate_metrics (th_flags (pp_header packet)),
                mt_per_frame_metrics = fl_per_frame_metrics (th_flags (pp_header packet)),
                mt_payload_truncated = fl_payload_truncated (th_flags (pp_header packet)) \<rparr>
      | _ \<Rightarrow> Inl (Exn TypeError ''MetricsPoint requires a METRICS packet''))"

record status_point =
  st_recv_time_ns :: int
  st_sample_count :: int
  st_frame_count :: int
  st_source_mode :: int
  st_sample_rate :: int
  st_packet_enable :: int
  st_dma_drop_count :: int
  st_udp_send_error_count :: int
  st_malformed_record_count :: int
  st_oversized_record_count :: int
  st_command_reject_count :: int
  st_sequence_gap_count :: int
  st_overflow_flags :: int
  st_thr2 :: int
  st_packet_fifo_drop_count :: int
  st_diagnostic :: bool
  st_payload_truncated :: bool

definition status_from_packet :: "int \<Rightarrow> parsed_packet \<Rightarrow> status_point result" where
  "status_from_packet recv_time_ns packet =
     (case pp_payload packet of
        StatusPayload p \<Rightarrow>
          Inr \<lparr> st_recv_time_ns = recv_time_ns, st_sample_count = sp_sample_count p,
                st_frame_count = sp_frame_count p, st_source_mode = sp_source_mode p,
                st_sample_rate = sp_sample_rate p, st_packet_enable = sp_packet_enable p,
                st_dma_drop_count = sp_dma_drop_count p,
                st_udp_send_error_count = sp_udp_send_error_count p,
                st_malformed_record_count = sp_malformed_record_count p,
                st_oversized_record_count = sp_oversized_record_count p,
                st_command_reject_count = sp_command_reject_count p,
                st_sequence_gap_count = sp_sequence_gap_count p,
                st_overflow_flags = sp_overflow_flags p, st_thr2 = status_thr2 p,
                st_packet_fifo_drop_count = sp_packet_fifo_drop_count p,
                st_diagnostic = fl_status_diagnostic (th_flags (pp_header packet)),
                st_payload_truncated = fl_payload_truncated (th_flags (pp_header packet)) \<rparr>
      | _ \<Rightarrow> Inl (Exn TypeError ''StatusPoint requires a STATUS packet''))"

section \<open>The dashboard state\<close>

record ring_buffer_config =
  cf_wave_points :: int
  cf_spectrum_frames :: int
  cf_metrics_points :: int
  cf_status_points :: int
  cf_packet_summaries :: int
  cf_sequence_gaps :: int
  cf_packet_rate_window_s :: rat

definition default_ring_config :: ring_buffer_config where
  "default_ring_config =
     \<lparr> cf_wave_points = 8192, cf_spectrum_frames = 256, cf_metrics_points = 1024,
       cf_status_points = 512, cf_packet_summaries = 2048, cf_sequence_gaps = 256,
       cf_packet_rate_window_s = 2 \<rparr>"

definition validate_ring_config :: "ring_buffer_config \<Rightarrow> unit result" where
  "validate_ring_config c = checks
     [(1 \<le> cf_wave_points c, Exn ValueError ''wave_points must be >= 1''),
      (1 \<le> cf_spectrum_frames c, Exn ValueError ''spectrum_frames must be >= 1''),
      (1 \<le> cf_metrics_points c, Exn ValueError ''metrics_points must be >= 1''),
      (1 \<le> cf_status_points c, Exn ValueError ''status_points must be >= 1''),
      (1 \<le> cf_packet_summaries c, Exn ValueError ''packet_summaries must be >= 1''),
      (1 \<le> cf_sequence_gaps c, Exn ValueError ''sequence_gaps must be >= 1''),
      (0 < cf_packet_rate_window_s c, Exn ValueError ''packet_rate_window_s must be > 0'')]"

record buffer_stats =
  bs_total_packets :: int
  bs_total_wave_points :: int
  bs_total_sequence_gaps :: int
  bs_total_missing_sequences :: int
  bs_total_payload_truncated_packets :: int
  bs_total_duplicate_sequences :: int
  bs_total_reordered_sequences :: int
  bs_last_sequence :: "int option"
  bs_packets_by_type :: "string \<Rightarrow> int option"

definition buffer_stats_clear :: buffer_stats where
  "buffer_stats_clear =
     \<lparr> bs_total_packets = 0, bs_total_wave_points = 0, bs_total_sequence_gaps = 0,
       bs_total_missing_sequences = 0, bs_total_payload_truncated_packets = 0,
       bs_total_duplicate_sequences = 0, bs_total_reordered_sequences = 0,
       bs_last_sequence = None, bs_packets_by_type = (\<lambda>_. None) \<rparr>"

record dashboard =
  db_config :: ring_buffer_config
  db_packets :: "packet_summary fixed_ring"
  db_wave :: "wave_point fixed_ring"
  db_spectra :: "spectrum_frame fixed_ring"
  db_metrics :: "metrics_point fixed_ring"
  db_status :: "status_point fixed_ring"
  db_gaps :: "sequence_gap_event fixed_ring"
  db_stats :: buffer_stats
  db_rate_times :: "int list"

definition DashboardRingBuffers :: "ring_buffer_config \<Rightarrow> dashboard result" where
  "DashboardRingBuffers config =
     rbind (validate_ring_config config) (\<lambda>_.
     rbind (FixedRing (cf_packet_summaries config)) (\<lambda>packets.
     rbind (FixedRing (cf_wave_points config)) (\<lambda>wave.
     rbind (FixedRing (cf_spectrum_frames config)) (\<lambda>spectra.
     rbind (FixedRing (cf_metrics_points config)) (\<lambda>metrics.
     rbind (FixedRing (cf_status_points config)) (\<lambda>status.
     rbind (FixedRing (cf_sequence_gaps config)) (\<lambda>sequence_gaps.
     Inr \<lparr> db_config = config, db_packets = packets, db_wave = wave, db_spectra = spectra,
           db_metrics = metrics, db_status = status, db_gaps = sequence_gaps,
           db_stats = buffer_stats_clear, db_rate_times = [] \<rparr>)))))))"

definition dashboard_clear :: "dashboard \<Rightarrow> dashboard" where
  "dashboard_clear d =
     d\<lparr> db_packets := ring_clear (db_packets d), db_wave := ring_clear (db_wave d),
        db_spectra := ring_clear (db_spectra d), db_metrics := ring_clear (db_metrics d),
        db_status := ring_clear (db_status d), db_gaps := ring_clear (db_gaps d),
        db_rate_times := [], db_stats := buffer_stats_clear \<rparr>"

section \<open>Ingestion\<close>

text \<open>
  The sequence part of \<^verbatim>\<open>_record_packet_summary\<close>: every early \<^verbatim>\<open>return\<close> is a branch.
\<close>

definition record_sequence :: "dashboard \<Rightarrow> int \<Rightarrow> int \<Rightarrow> dashboard" where
  "record_sequence d recv_time_ns seq =
     (let current = seq AND 0xFFFFFFFF; st = db_stats d in
      case bs_last_sequence st of
        None \<Rightarrow> d\<lparr> db_stats := st\<lparr> bs_last_sequence := Some current \<rparr> \<rparr>
      | Some previous \<Rightarrow>
          let delta = (current - previous) AND 0xFFFFFFFF in
          if delta = 0
          then d\<lparr> db_stats := st\<lparr> bs_total_duplicate_sequences :=
                                    bs_total_duplicate_sequences st + 1 \<rparr> \<rparr>
          else if delta < 0x80000000
          then let d = (if delta > 1
                 then d\<lparr> db_stats := st\<lparr> bs_total_sequence_gaps := bs_total_sequence_gaps st + 1,
                                          bs_total_missing_sequences :=
                                            bs_total_missing_sequences st + (delta - 1) \<rparr>,
                         db_gaps := ring_append (db_gaps d)
                           \<lparr> sg_recv_time_ns = recv_time_ns, sg_previous_seq = previous,
                             sg_current_seq = current, sg_missing_count = delta - 1 \<rparr> \<rparr>
                 else d) in
               d\<lparr> db_stats := (db_stats d)\<lparr> bs_last_sequence := Some current \<rparr> \<rparr>
          else d\<lparr> db_stats := st\<lparr> bs_total_reordered_sequences :=
                                    bs_total_reordered_sequences st + 1 \<rparr> \<rparr>)"

definition summary_of :: "parsed_packet \<Rightarrow> int \<Rightarrow> packet_summary" where
  "summary_of packet recv_time_ns =
     \<lparr> ps_recv_time_ns = recv_time_ns, ps_packet_name = packet_name packet,
       ps_seq = th_seq (pp_header packet), ps_timestamp = th_timestamp (pp_header packet),
       ps_payload_bytes = th_payload_bytes (pp_header packet),
       ps_diagnostic = fl_status_diagnostic (th_flags (pp_header packet)),
       ps_payload_truncated = fl_payload_truncated (th_flags (pp_header packet)) \<rparr>"

definition record_packet_summary :: "dashboard \<Rightarrow> parsed_packet \<Rightarrow> int \<Rightarrow> dashboard" where
  "record_packet_summary d packet recv_time_ns =
     (let st = db_stats d;
          st = st\<lparr> bs_total_packets := bs_total_packets st + 1,
                   bs_packets_by_type := (bs_packets_by_type st)
                     (packet_name packet \<mapsto> get_count (bs_packets_by_type st) (packet_name packet) + 1) \<rparr>;
          st = (if fl_payload_truncated (th_flags (pp_header packet))
                then st\<lparr> bs_total_payload_truncated_packets :=
                           bs_total_payload_truncated_packets st + 1 \<rparr>
                else st);
          d = d\<lparr> db_stats := st,
                 db_rate_times := deque_append (nat (cf_packet_summaries (db_config d)))
                   (db_rate_times d) recv_time_ns,
                 db_packets := ring_append (db_packets d) (summary_of packet recv_time_ns) \<rparr> in
      if participates_in_sequence (pp_header packet)
      then record_sequence d recv_time_ns (th_seq (pp_header packet)) else d)"

definition ingest_wave :: "dashboard \<Rightarrow> wave_payload \<Rightarrow> int \<Rightarrow> dashboard" where
  "ingest_wave d payload recv_time_ns =
     (let points = map (from_wave_sample recv_time_ns) (wp_samples payload); st = db_stats d in
      d\<lparr> db_wave := ring_extend (db_wave d) points,
         db_stats := st\<lparr> bs_total_wave_points := bs_total_wave_points st + int (length points) \<rparr> \<rparr>)"

definition ingest_spec129 :: "dashboard \<Rightarrow> spec129_payload \<Rightarrow> int \<Rightarrow> dashboard" where
  "ingest_spec129 d payload recv_time_ns =
     d\<lparr> db_spectra := ring_append (db_spectra d)
          \<lparr> sf_recv_time_ns = recv_time_ns, sf_packet_name = ''SPEC129'',
            sf_frame_idx = s129_frame_idx payload, sf_spec_shift = s129_spec_shift payload,
            sf_magnitudes = s129_magnitudes payload, sf_mask_bits = Some (s129_mask_bits payload),
            sf_suppressed_count = None, sf_eligible_count = None \<rparr> \<rparr>"

definition ingest_spec64 :: "dashboard \<Rightarrow> spec64_payload \<Rightarrow> int \<Rightarrow> dashboard" where
  "ingest_spec64 d payload recv_time_ns =
     d\<lparr> db_spectra := ring_append (db_spectra d)
          \<lparr> sf_recv_time_ns = recv_time_ns, sf_packet_name = ''SPEC64'',
            sf_frame_idx = s64_frame_idx payload, sf_spec_shift = s64_spec_shift payload,
            sf_magnitudes = s64_magnitudes payload, sf_mask_bits = None,
            sf_suppressed_count = Some (s64_suppressed_count payload),
            sf_eligible_count = Some (s64_eligible_count payload) \<rparr> \<rparr>"

text \<open>
  \<^verbatim>\<open>ingest\<close>; \<open>clock_ns\<close> is the reading of \<^verbatim>\<open>time.time_ns()\<close> that a missing receive time falls back to.
  The two \<^verbatim>\<open>from_packet\<close> constructors cannot raise on the branch that calls them; an exception there
  would leave the summary recorded, which the model keeps by returning the state with the error.
\<close>

definition ingest ::
    "int \<Rightarrow> dashboard \<Rightarrow> parsed_packet \<Rightarrow> int option \<Rightarrow> dashboard \<times> exn option" where
  "ingest clock_ns d packet recv_time_ns =
     (let t_ns = (case recv_time_ns of None \<Rightarrow> clock_ns | Some t \<Rightarrow> t);
          d = record_packet_summary d packet t_ns in
      case pp_payload packet of
        WavePayload w \<Rightarrow> (ingest_wave d w t_ns, None)
      | Spec129Payload s \<Rightarrow> (ingest_spec129 d s t_ns, None)
      | Spec64Payload s \<Rightarrow> (ingest_spec64 d s t_ns, None)
      | MetricsPayload _ \<Rightarrow>
          (case metrics_from_packet t_ns packet of
             Inl e \<Rightarrow> (d, Some e)
           | Inr pt \<Rightarrow> (d\<lparr> db_metrics := ring_append (db_metrics d) pt \<rparr>, None))
      | StatusPayload _ \<Rightarrow>
          (case status_from_packet t_ns packet of
             Inl e \<Rightarrow> (d, Some e)
           | Inr pt \<Rightarrow> (d\<lparr> db_status := ring_append (db_status d) pt \<rparr>, None))
      | WrapPayload \<Rightarrow> (d, None))"

text \<open>
  \<^verbatim>\<open>ingest_many\<close> over packets paired with the clock reading of their call. \<open>ingest\<close> never fails
  (\<open>ingest_no_error\<close> below), so the loop is a fold over the states.
\<close>

definition ingest_many :: "dashboard \<Rightarrow> (int \<times> parsed_packet) list \<Rightarrow> int option \<Rightarrow> dashboard" where
  "ingest_many d packets recv_time_ns =
     foldl (\<lambda>d (clock, p). fst (ingest clock d p recv_time_ns)) d packets"

section \<open>Queries\<close>

definition latest_status :: "dashboard \<Rightarrow> status_point option" where
  "latest_status d = ring_last (db_status d)"

definition latest_metrics :: "dashboard \<Rightarrow> metrics_point option" where
  "latest_metrics d = ring_last (db_metrics d)"

definition latest_spectrum :: "dashboard \<Rightarrow> spectrum_frame option" where
  "latest_spectrum d = ring_last (db_spectra d)"

text \<open>A Python slice \<^verbatim>\<open>data[-count:]\<close> with a negative start: a start of zero is the whole list.\<close>

definition py_slice_from_neg :: "int \<Rightarrow> 'a list \<Rightarrow> 'a list" where
  "py_slice_from_neg count xs =
     (let start = - count in
      if start < 0 then drop (nat (max 0 (int (length xs) + start))) xs else drop (nat start) xs)"

definition latest_wave :: "dashboard \<Rightarrow> int option \<Rightarrow> wave_point list result" where
  "latest_wave d count =
     (let data = ring_snapshot (db_wave d) in
      case count of
        None \<Rightarrow> Inr data
      | Some n \<Rightarrow>
          if int (length data) \<le> n then Inr data
          else if n < 0 then Inl (Exn ValueError ''count must be >= 0'')
          else Inr (py_slice_from_neg n data))"

definition wave_columns ::
    "dashboard \<Rightarrow> int option \<Rightarrow> (int list \<times> int list \<times> int list \<times> int list) result" where
  "wave_columns d count =
     rbind (latest_wave d count) (\<lambda>points.
       Inr (map wv_sample_index points, map wv_xdel points, map wv_yout points, map wv_err points))"

text \<open>\<^verbatim>\<open>_packet_rate_hz\<close> drops the receive times before the window and divides by its length.\<close>

definition packet_rate_hz :: "dashboard \<Rightarrow> int \<Rightarrow> dashboard \<times> rat" where
  "packet_rate_hz d now_ns =
     (let window_ns = max 1 \<lfloor>cf_packet_rate_window_s (db_config d) * 1000000000\<rfloor>;
          cutoff_ns = now_ns - window_ns;
          times = dropWhile (\<lambda>t. t < cutoff_ns) (db_rate_times d) in
      (d\<lparr> db_rate_times := times \<rparr>,
       of_nat (length times) / cf_packet_rate_window_s (db_config d)))"

record dashboard_snapshot =
  sn_packets :: "packet_summary list"
  sn_wave :: "wave_point list"
  sn_spectra :: "spectrum_frame list"
  sn_metrics :: "metrics_point list"
  sn_status :: "status_point list"
  sn_sequence_gaps :: "sequence_gap_event list"
  sn_stats :: buffer_stats
  sn_packet_rate_hz :: rat

text \<open>The snapshot copies the eight statistics under their own names; the model keeps the record.\<close>

definition dashboard_snapshot_of :: "dashboard \<Rightarrow> int \<Rightarrow> dashboard \<times> dashboard_snapshot" where
  "dashboard_snapshot_of d now_ns =
     (case packet_rate_hz d now_ns of (d', rate) \<Rightarrow>
        (d', \<lparr> sn_packets = ring_snapshot (db_packets d), sn_wave = ring_snapshot (db_wave d),
               sn_spectra = ring_snapshot (db_spectra d), sn_metrics = ring_snapshot (db_metrics d),
               sn_status = ring_snapshot (db_status d),
               sn_sequence_gaps = ring_snapshot (db_gaps d), sn_stats = db_stats d,
               sn_packet_rate_hz = rate \<rparr>))"

section \<open>Refinement of the sequence specification\<close>

definition dash_obs :: "dashboard \<Rightarrow> serial_state" where
  "dash_obs d = (let st = db_stats d in
     \<lparr> hw = bs_last_sequence st, gaps = bs_total_sequence_gaps st,
       missing = bs_total_missing_sequences st, duplicates = bs_total_duplicate_sequences st,
       reordered = bs_total_reordered_sequences st \<rparr>)"

definition ingest_step :: "int option \<Rightarrow> dashboard \<Rightarrow> int \<times> parsed_packet \<Rightarrow> dashboard" where
  "ingest_step rt d cp = fst (ingest (fst cp) d (snd cp) rt)"

lemma ingest_many_foldl: "ingest_many d ps rt = foldl (ingest_step rt) d ps"
  by (simp add: ingest_many_def ingest_step_def case_prod_unfold cong: foldl_cong)

lemma record_sequence_obs:
  "dash_obs (record_sequence d t q) = serial_step (dash_obs d) (Some q)"
  by (simp add: record_sequence_def serial_step_def dash_obs_def and_mask32 Let_def
      split: option.splits)

lemma dash_obs_frame [simp]:
  "dash_obs (d\<lparr> db_packets := x1 \<rparr>) = dash_obs d" "dash_obs (d\<lparr> db_wave := x2 \<rparr>) = dash_obs d"
  "dash_obs (d\<lparr> db_spectra := x3 \<rparr>) = dash_obs d" "dash_obs (d\<lparr> db_metrics := x4 \<rparr>) = dash_obs d"
  "dash_obs (d\<lparr> db_status := x5 \<rparr>) = dash_obs d" "dash_obs (d\<lparr> db_rate_times := x6 \<rparr>) = dash_obs d"
  "dash_obs (d\<lparr> db_stats := st\<lparr> bs_total_packets := n1 \<rparr> \<rparr>) = dash_obs (d\<lparr> db_stats := st \<rparr>)"
  "dash_obs (d\<lparr> db_stats := st\<lparr> bs_total_wave_points := n2 \<rparr> \<rparr>) = dash_obs (d\<lparr> db_stats := st \<rparr>)"
  "dash_obs (d\<lparr> db_stats := st\<lparr> bs_total_payload_truncated_packets := n3 \<rparr> \<rparr>) =
     dash_obs (d\<lparr> db_stats := st \<rparr>)"
  "dash_obs (d\<lparr> db_stats := st\<lparr> bs_packets_by_type := m \<rparr> \<rparr>) = dash_obs (d\<lparr> db_stats := st \<rparr>)"
  "dash_obs (d\<lparr> db_stats := db_stats d \<rparr>) = dash_obs d"
  by (simp_all add: dash_obs_def)

lemma record_packet_summary_obs:
  "dash_obs (record_packet_summary d p t) = serial_step (dash_obs d) (packet_seq p)"
  by (simp add: record_packet_summary_def packet_seq_def record_sequence_obs Let_def)
     (simp add: serial_step_def)

text \<open>What follows the summary touches only its own ring and the wave-point count.\<close>

lemmas ingest_defs = ingest_def ingest_wave_def ingest_spec129_def ingest_spec64_def
  metrics_from_packet_def status_from_packet_def Let_def

lemma ingest_no_error: "snd (ingest c d p rt) = None"
  by (cases "pp_payload p") (simp_all add: ingest_defs)

lemma ingest_obs: "dash_obs (fst (ingest c d p rt)) = serial_step (dash_obs d) (packet_seq p)"
  by (cases "pp_payload p") (simp_all add: ingest_defs record_packet_summary_obs)

interpretation dash: seq_tracker dash_obs "ingest_step rt" "\<lambda>cp. packet_seq (snd cp)" for rt
  by unfold_locales (simp add: ingest_step_def ingest_obs)

section \<open>The invariant of the dashboard\<close>

definition dashboard_ok :: "dashboard \<Rightarrow> bool" where
  "dashboard_ok d \<longleftrightarrow>
     ring_ok (db_packets d) \<and> ring_ok (db_wave d) \<and> ring_ok (db_spectra d) \<and>
     ring_ok (db_metrics d) \<and> ring_ok (db_status d) \<and> ring_ok (db_gaps d) \<and>
     1 \<le> cf_packet_summaries (db_config d) \<and>
     int (length (db_rate_times d)) \<le> cf_packet_summaries (db_config d) \<and>
     bs_total_packets (db_stats d) = int (total_appended (db_packets d)) \<and>
     bs_total_wave_points (db_stats d) = int (total_appended (db_wave d)) \<and>
     bs_total_sequence_gaps (db_stats d) = int (total_appended (db_gaps d)) \<and>
     hw_ok (dash_obs d)"

lemma deque_append_length:
  "length xs \<le> n \<Longrightarrow> length (deque_append n xs x) \<le> n"
  by (simp add: deque_append_lastn)

lemma new_dashboard_ok: "DashboardRingBuffers cfg = Inr d \<Longrightarrow> dashboard_ok d"
  by (auto simp: DashboardRingBuffers_def dashboard_ok_def result_simps buffer_stats_clear_def
      dash_obs_def hw_ok_def validate_ring_config_def ring_ok_new)
     (auto simp: FixedRing_def split: if_splits)

lemma record_sequence_frame [simp]:
  "db_config (record_sequence d t q) = db_config d" "db_packets (record_sequence d t q) = db_packets d"
  "db_wave (record_sequence d t q) = db_wave d" "db_spectra (record_sequence d t q) = db_spectra d"
  "db_metrics (record_sequence d t q) = db_metrics d" "db_status (record_sequence d t q) = db_status d"
  "db_rate_times (record_sequence d t q) = db_rate_times d"
  "bs_total_packets (db_stats (record_sequence d t q)) = bs_total_packets (db_stats d)"
  "bs_total_wave_points (db_stats (record_sequence d t q)) = bs_total_wave_points (db_stats d)"
  "bs_packets_by_type (db_stats (record_sequence d t q)) = bs_packets_by_type (db_stats d)"
  "bs_total_payload_truncated_packets (db_stats (record_sequence d t q)) =
     bs_total_payload_truncated_packets (db_stats d)"
  by (simp_all add: record_sequence_def Let_def split: option.splits)

lemma record_sequence_gaps:
  "ring_ok (db_gaps d) \<Longrightarrow> bs_total_sequence_gaps (db_stats d) = int (total_appended (db_gaps d)) \<Longrightarrow>
   ring_ok (db_gaps (record_sequence d t q)) \<and>
   bs_total_sequence_gaps (db_stats (record_sequence d t q)) =
     int (total_appended (db_gaps (record_sequence d t q)))"
  by (simp add: record_sequence_def Let_def ring_ok_append split: option.splits)

lemma record_packet_summary_frame [simp]:
  "db_config (record_packet_summary d p t) = db_config d"
  "db_wave (record_packet_summary d p t) = db_wave d"
  "db_spectra (record_packet_summary d p t) = db_spectra d"
  "db_metrics (record_packet_summary d p t) = db_metrics d"
  "db_status (record_packet_summary d p t) = db_status d"
  "db_packets (record_packet_summary d p t) = ring_append (db_packets d) (summary_of p t)"
  "db_rate_times (record_packet_summary d p t) =
     deque_append (nat (cf_packet_summaries (db_config d))) (db_rate_times d) t"
  "bs_total_packets (db_stats (record_packet_summary d p t)) = bs_total_packets (db_stats d) + 1"
  "bs_total_wave_points (db_stats (record_packet_summary d p t)) = bs_total_wave_points (db_stats d)"
  "bs_packets_by_type (db_stats (record_packet_summary d p t)) =
     (bs_packets_by_type (db_stats d))
       (packet_name p \<mapsto> get_count (bs_packets_by_type (db_stats d)) (packet_name p) + 1)"
  by (simp_all add: record_packet_summary_def Let_def)

lemma record_packet_summary_gaps:
  "ring_ok (db_gaps d) \<Longrightarrow> bs_total_sequence_gaps (db_stats d) = int (total_appended (db_gaps d)) \<Longrightarrow>
   ring_ok (db_gaps (record_packet_summary d p t)) \<and>
   bs_total_sequence_gaps (db_stats (record_packet_summary d p t)) =
     int (total_appended (db_gaps (record_packet_summary d p t)))"
  by (simp add: record_packet_summary_def Let_def record_sequence_gaps)

lemma record_packet_summary_ok: "dashboard_ok d \<Longrightarrow> dashboard_ok (record_packet_summary d p t)"
  using deque_append_length [of "db_rate_times d" "nat (cf_packet_summaries (db_config d))" t]
  by (simp add: dashboard_ok_def ring_ok_append record_packet_summary_gaps record_packet_summary_obs
      hw_ok_step le_nat_iff)

lemma ingest_ok:
  assumes "dashboard_ok d"
  shows "dashboard_ok (fst (ingest c d p rt))"
proof -
  let ?t = "case rt of None \<Rightarrow> c | Some t \<Rightarrow> t"
  note ok = record_packet_summary_ok [OF assms, of p ?t]
  show ?thesis
    using ok
    by (cases "pp_payload p")
       (simp_all add: ingest_defs dashboard_ok_def ring_ok_append ring_ok_extend)
qed

lemma dashboard_clear_ok: "dashboard_ok d \<Longrightarrow> dashboard_ok (dashboard_clear d)"
  by (simp add: dashboard_ok_def dashboard_clear_def ring_ok_clear buffer_stats_clear_def
      dash_obs_def hw_ok_def) (simp add: ring_clear_def)

lemma packet_rate_ok: "dashboard_ok d \<Longrightarrow> dashboard_ok (fst (packet_rate_hz d now))"
  using length_dropWhile_le [of "\<lambda>t. t < now - max 1 \<lfloor>cf_packet_rate_window_s (db_config d) * 1000000000\<rfloor>"
      "db_rate_times d"]
  by (simp add: dashboard_ok_def packet_rate_hz_def Let_def)

text \<open>The operations of the dashboard as events, in any order.\<close>

datatype dash_event = Ingest int parsed_packet "int option" | Clear | Snapshot int

fun dash_step :: "dashboard \<Rightarrow> dash_event \<Rightarrow> dashboard" where
  "dash_step d (Ingest clock p rt) = fst (ingest clock d p rt)"
| "dash_step d Clear = dashboard_clear d"
| "dash_step d (Snapshot now) = fst (dashboard_snapshot_of d now)"

lemma snapshot_state: "fst (dashboard_snapshot_of d now) = fst (packet_rate_hz d now)"
  by (simp add: dashboard_snapshot_of_def split: prod.splits)

interpretation dash_inv: step_invariant dash_step dashboard_ok
proof
  fix d e
  assume "dashboard_ok d"
  then show "dashboard_ok (dash_step d e)"
    by (cases e) (simp_all add: ingest_ok dashboard_clear_ok packet_rate_ok snapshot_state)
qed

text \<open>
  C15: the buffers stay bounded and their counters honest. From a freshly constructed dashboard, after any
  interleaving of ingested packets, clears and snapshots, every ring holds at most its capacity and has
  appended exactly what it holds plus what it dropped; the totals for packets, wave points and sequence
  gaps equal what the rings have appended; the deque of receive times is bounded; and the sequence
  high-water mark, if there is one, is a 32-bit number.
\<close>

theorem dashboard_invariant:
  assumes "DashboardRingBuffers cfg = Inr d"
  shows "dashboard_ok (foldl dash_step d events)"
  by (rule dash_inv.run_inv [OF new_dashboard_ok [OF assms]])

section \<open>What the rings hold after a run\<close>

definition wave_points_of :: "int \<Rightarrow> parsed_packet \<Rightarrow> wave_point list" where
  "wave_points_of t p =
     (case pp_payload p of WavePayload w \<Rightarrow> map (from_wave_sample t) (wp_samples w) | _ \<Rightarrow> [])"

definition stamped :: "int option \<Rightarrow> (int \<times> parsed_packet) list \<Rightarrow> (int \<times> parsed_packet) list" where
  "stamped rt cps = map (\<lambda>(c, p). (case rt of None \<Rightarrow> c | Some t \<Rightarrow> t, p)) cps"

lemma ingest_step_content:
  "db_packets (ingest_step rt d (c, p)) =
     ring_append (db_packets d) (summary_of p (case rt of None \<Rightarrow> c | Some t \<Rightarrow> t))"
  "db_wave (ingest_step rt d (c, p)) =
     ring_extend (db_wave d) (wave_points_of (case rt of None \<Rightarrow> c | Some t \<Rightarrow> t) p)"
  "bs_packets_by_type (db_stats (ingest_step rt d (c, p))) =
     (bs_packets_by_type (db_stats d))
       (packet_name p \<mapsto> get_count (bs_packets_by_type (db_stats d)) (packet_name p) + 1)"
  by (cases "pp_payload p"; simp add: ingest_step_def ingest_defs wave_points_of_def ring_extend_def)+

lemma ingest_many_rings:
  "db_packets (ingest_many d cps rt) =
     ring_extend (db_packets d) (map (\<lambda>(t, p). summary_of p t) (stamped rt cps))"
  "db_wave (ingest_many d cps rt) =
     ring_extend (db_wave d) (concat (map (\<lambda>(t, p). wave_points_of t p) (stamped rt cps)))"
  unfolding ingest_many_foldl
  by (induction cps arbitrary: d)
     (auto simp: ingest_step_content ring_extend_def stamped_def)

lemma get_count_empty: "get_count (\<lambda>_. None) name = 0"
  by (simp add: get_count_def)

lemma ingest_many_count:
  "get_count (bs_packets_by_type (db_stats (ingest_many d cps rt))) name =
     get_count (bs_packets_by_type (db_stats d)) name +
       int (length (filter (\<lambda>(c, p). packet_name p = name) cps))"
  unfolding ingest_many_foldl
  by (induction cps arbitrary: d) (auto simp: ingest_step_content get_count_def)

lemma new_dashboard_state:
  "DashboardRingBuffers cfg = Inr d \<Longrightarrow>
     ring_items (db_packets d) = [] \<and> ring_items (db_wave d) = [] \<and>
     ring_capacity (db_packets d) = nat (cf_packet_summaries cfg) \<and>
     ring_capacity (db_wave d) = nat (cf_wave_points cfg) \<and> db_stats d = buffer_stats_clear"
  by (auto simp: DashboardRingBuffers_def result_simps FixedRing_def split: if_splits)

text \<open>
  C16: the buffers hold what was sent. After ingesting any list of packets into a fresh dashboard, the
  packet ring is the most recent summaries and the wave ring the most recent wave points of all that
  arrived, in arrival order and nothing else, and the count of every packet type is the number of packets
  of that type.
\<close>

theorem dashboard_content:
  assumes "DashboardRingBuffers cfg = Inr d"
  shows "ring_snapshot (db_packets (ingest_many d cps rt)) =
      lastn (nat (cf_packet_summaries cfg)) (map (\<lambda>(t, p). summary_of p t) (stamped rt cps)) \<and>
    ring_snapshot (db_wave (ingest_many d cps rt)) =
      lastn (nat (cf_wave_points cfg))
        (concat (map (\<lambda>(t, p). wave_points_of t p) (stamped rt cps))) \<and>
    get_count (bs_packets_by_type (db_stats (ingest_many d cps rt))) name =
      int (length (filter (\<lambda>(c, p). packet_name p = name) cps))"
  using new_dashboard_state [OF assms] new_dashboard_ok [OF assms]
  by (simp add: ring_snapshot_def ingest_many_rings ring_extend_items dashboard_ok_def
      ingest_many_count buffer_stats_clear_def get_count_empty)

text \<open>
  Sequence accounting of the dashboard. Over any packets ingested once a first sequence number has
  been seen, the high-water mark moves, modulo \<open>2 ^ 32\<close>, by exactly the number of sequenced packets that
  were neither duplicates nor reordered, plus the numbers reported missing: no lost packet is forgotten
  and none is counted twice, however the packets are duplicated, reordered or wrapped around.
\<close>

theorem dashboard_sequence_accounting:
  assumes "bs_last_sequence (db_stats d) = Some h"
  shows "\<exists>h'. bs_last_sequence (db_stats (ingest_many d cps rt)) = Some h' \<and>
    (h' - h) mod 2 ^ 32 =
      (int (length (filter (\<lambda>(c, p). participates_in_sequence (pp_header p)) cps))
       - (bs_total_duplicate_sequences (db_stats (ingest_many d cps rt))
          - bs_total_duplicate_sequences (db_stats d))
       - (bs_total_reordered_sequences (db_stats (ingest_many d cps rt))
          - bs_total_reordered_sequences (db_stats d))
       + (bs_total_missing_sequences (db_stats (ingest_many d cps rt))
          - bs_total_missing_sequences (db_stats d))) mod 2 ^ 32"
proof -
  have "numbered (map (\<lambda>cp. packet_seq (snd cp)) cps) =
      int (length (filter (\<lambda>(c, p). participates_in_sequence (pp_header p)) cps))"
    by (simp add: numbered_def filter_map comp_def packet_seq_def case_prod_unfold cong: filter_cong)
  then show ?thesis
    using dash.run_advance [where s = d and h = h and ps = cps and rt = rt] assms
    by (simp add: advanced_def dash_obs_def Let_def ingest_many_foldl)
qed

section \<open>Queries on the wave buffer\<close>

text \<open>
  \<^verbatim>\<open>latest_wave(count)\<close> returns the last \<open>count\<close> points for every positive count that is not above
  the number held, all points for a larger count or none given, and raises only on a negative count. A
  count of zero is the exception: Python reads the slice \<^verbatim>\<open>data[-0:]\<close> as the whole buffer, so asking for no
  point returns all of them.
\<close>

theorem latest_wave_spec:
  "latest_wave d count =
     (case count of
        None \<Rightarrow> Inr (ring_snapshot (db_wave d))
      | Some n \<Rightarrow>
          if n < 0 then Inl (Exn ValueError ''count must be >= 0'')
          else if n = 0 then Inr (ring_snapshot (db_wave d))
          else Inr (lastn (nat n) (ring_snapshot (db_wave d))))"
  by (auto simp: latest_wave_def py_slice_from_neg_def lastn_def Let_def nat_diff_distrib
      split: option.splits)

section \<open>Witnesses\<close>

text \<open>A small dashboard, fed with WAVE packets of one sample.\<close>

definition example_config :: ring_buffer_config where
  "example_config =
     \<lparr> cf_wave_points = 2, cf_spectrum_frames = 1, cf_metrics_points = 1, cf_status_points = 1,
       cf_packet_summaries = 2, cf_sequence_gaps = 1, cf_packet_rate_window_s = 2 \<rparr>"

definition example_dashboard :: dashboard where
  "example_dashboard = projr (DashboardRingBuffers example_config)"

lemma example_dashboard_new: "DashboardRingBuffers example_config = Inr example_dashboard"
  by (simp add: example_dashboard_def DashboardRingBuffers_def example_config_def
      validate_ring_config_def checks.simps FixedRing_def)

theorem dashboard_invariant_witness:
  "dashboard_ok (foldl dash_step example_dashboard
     [Ingest 0 (example_packet 5) None, Snapshot 3, Ingest 0 (example_packet 8) (Some 7), Clear])"
  by (rule dashboard_invariant [OF example_dashboard_new])

theorem dashboard_content_witness:
  "ring_snapshot (db_packets (ingest_many example_dashboard
       [(1, example_packet 5), (2, example_packet 8), (3, example_packet 9)] None)) =
     [summary_of (example_packet 8) 2, summary_of (example_packet 9) 3]"
  using dashboard_content [OF example_dashboard_new,
      of "[(1, example_packet 5), (2, example_packet 8), (3, example_packet 9)]" None "''WAVE''"]
  by (simp add: stamped_def lastn_def example_config_def)

theorem dashboard_sequence_accounting_witness:
  "\<exists>h'. bs_last_sequence (db_stats (ingest_many
        (ingest_many example_dashboard [(1, example_packet 5)] None)
        [(2, example_packet 8), (3, example_packet 7)] None)) = Some h' \<and> h' mod 2 ^ 32 = 8"
proof -
  have first: "dash_obs (ingest_many example_dashboard [(1, example_packet 5)] None) =
      serial_step serial_init (Some 5)"
    using dash.obs_run [of None example_dashboard "[(1, example_packet 5)]"] example_packet_participates [of 5]
      new_dashboard_state [OF example_dashboard_new]
    by (simp add: ingest_many_foldl packet_seq_def example_packet_def serial_init_def
        buffer_stats_clear_def) (simp add: dash_obs_def)
  then have h: "bs_last_sequence (db_stats (ingest_many example_dashboard [(1, example_packet 5)] None)) =
      Some 5"
    by (simp add: dash_obs_def serial_step_def serial_init_def Let_def)
  have run: "dash_obs (ingest_many (ingest_many example_dashboard [(1, example_packet 5)] None)
      [(2, example_packet 8), (3, example_packet 7)] None) =
      foldl serial_step (serial_step serial_init (Some 5)) [Some 8, Some 7]"
    using dash.obs_run [of None "ingest_many example_dashboard [(1, example_packet 5)] None"
        "[(2, example_packet 8), (3, example_packet 7)]"] example_packet_participates [of 8] example_packet_participates [of 7] first
    by (simp add: ingest_many_foldl packet_seq_def example_packet_def)
  show ?thesis
    using dashboard_sequence_accounting [OF h, of "[(2, example_packet 8), (3, example_packet 7)]" None]
      run first
    by (simp add: example_packet_participates dash_obs_def serial_step_def serial_init_def Let_def)
qed

end
