(* ===== verification/Command_Codec.thy ===== *)
theory Command_Codec
  imports Packet_Spec Py_Strings
begin

text \<open>
  The wire objects of the command channel, the first half of
  \<^verbatim>\<open>sw/pc_dashboard/trecap_dashboard/command_client.py\<close>: argument validators, \<^verbatim>\<open>CommandPacket\<close> and
  \<^verbatim>\<open>CommandResult\<close> with their byte encodings, and the check of the diagnostic STATUS that answers a PING.
  Both encodings interpret the codec locale of the prelude: the decoder accepts exactly the encodings of
  valid objects.
\<close>

section \<open>Argument validators\<close>

abbreviation cerr :: "string \<Rightarrow> exn" where
  "cerr msg \<equiv> Exn CommandClientError msg"

definition MAX_U32 :: int where "MAX_U32 = 0xFFFFFFFF"
definition MAX_THR2 :: int where "MAX_THR2 = push_bit 56 1 - 1"
definition MAX_SPEC_SHIFT :: int where "MAX_SPEC_SHIFT = 55"
definition MAX_WAVE_DECIM :: int where "MAX_WAVE_DECIM = 0xFFFF"

definition bit_mask :: "nat \<times> nat \<Rightarrow> int" where
  "bit_mask pair = (case pair of (lo, hi) \<Rightarrow> push_bit lo (push_bit (hi - lo + 1) 1 - 1))"

definition packet_bit :: "string \<Rightarrow> int" where
  "packet_bit name = bit_mask (the (map_of (the (map_of CSR_BITS ''PACKET_ENABLE'')) name))"

definition PACKET_ENABLE_WAVE :: int where "PACKET_ENABLE_WAVE = packet_bit ''WAVE_EN''"
definition PACKET_ENABLE_SPEC :: int where "PACKET_ENABLE_SPEC = packet_bit ''SPEC_EN''"
definition PACKET_ENABLE_METRICS :: int where "PACKET_ENABLE_METRICS = packet_bit ''METRICS_EN''"
definition PACKET_ENABLE_STATUS :: int where "PACKET_ENABLE_STATUS = packet_bit ''STATUS_EN''"

definition PACKET_ENABLE_FULL_DEMO :: int where
  "PACKET_ENABLE_FULL_DEMO =
     PACKET_ENABLE_WAVE OR PACKET_ENABLE_SPEC OR PACKET_ENABLE_METRICS OR PACKET_ENABLE_STATUS"

definition check_u32 :: "int \<Rightarrow> string \<Rightarrow> int result" where
  "check_u32 value name =
     (if 0 \<le> value \<and> value \<le> MAX_U32 then Inr value else Inl (cerr (name @ '' must fit in uint32'')))"

text \<open>A command is named or numbered.\<close>

datatype command_ref = CmdName string | CmdId int

definition normalize_name :: "string \<Rightarrow> string" where
  "normalize_name s = py_replace_char (CHR ''-'') (CHR ''_'') (py_upper (py_strip s))"

definition command_type :: "command_ref \<Rightarrow> int result" where
  "command_type command =
     (case command of
        CmdName s \<Rightarrow>
          (case map_of COMMAND_TYPES (normalize_name s) of
             None \<Rightarrow> Inl (cerr ''unknown command type'')
           | Some v \<Rightarrow> Inr v)
      | CmdId v \<Rightarrow>
          if map_of COMMAND_TYPE_NAMES v = None then Inl (cerr ''unknown command type ID'') else Inr v)"

definition command_name :: "command_ref \<Rightarrow> string result" where
  "command_name command =
     rbind (command_type command) (\<lambda>v. Inr (the (map_of COMMAND_TYPE_NAMES v)))"

definition cmd_id :: "string \<Rightarrow> int" where
  "cmd_id name = the (map_of COMMAND_TYPES name)"

definition validate_thr2 :: "int \<Rightarrow> unit result" where
  "validate_thr2 thr2 =
     (if 0 \<le> thr2 \<and> thr2 \<le> MAX_THR2 then Inr ()
      else Inl (cerr ''THR2 must fit in unsigned 56-bit range''))"

definition split_thr2 :: "int \<Rightarrow> (int \<times> int) result" where
  "split_thr2 thr2 =
     rbind (validate_thr2 thr2) (\<lambda>_. Inr (thr2 AND MAX_U32, drop_bit 32 thr2 AND 0x00FFFFFF))"

definition join_thr2 :: "int \<Rightarrow> int \<Rightarrow> int result" where
  "join_thr2 lo hi =
     rbind (check_u32 hi ''thr2_hi'') (\<lambda>hi.
     rbind (check_u32 lo ''thr2_lo'') (\<lambda>lo.
     let value = push_bit 32 hi OR lo in
     rbind (validate_thr2 value) (\<lambda>_. Inr value)))"

definition validate_source_mode :: "int \<Rightarrow> unit result" where
  "validate_source_mode m =
     (if 0 \<le> m \<and> m \<le> 3 then Inr () else Inl (cerr ''source mode must be in range 0..3''))"

definition validate_spec_mode :: "int \<Rightarrow> unit result" where
  "validate_spec_mode m =
     (if 0 \<le> m \<and> m \<le> 2 then Inr () else Inl (cerr ''spectrum mode must be in range 0..2''))"

definition validate_telemetry_enable :: "int \<Rightarrow> unit result" where
  "validate_telemetry_enable e =
     (if e \<in> {0, 1} then Inr () else Inl (cerr ''telemetry enable must be 0 or 1''))"

definition validate_packet_enable :: "int \<Rightarrow> unit result" where
  "validate_packet_enable m =
     rbind (check_u32 m ''packet_enable'') (\<lambda>value.
       if value AND NOT PACKET_ENABLE_FULL_DEMO \<noteq> 0
       then Inl (cerr ''PACKET_ENABLE may only set WAVE, SPEC, METRICS, and STATUS in Revision G'')
       else Inr ())"

definition packet_enable_aliases :: "int dict" where
  "packet_enable_aliases =
     [(''WAVE'', PACKET_ENABLE_WAVE), (''SPEC'', PACKET_ENABLE_SPEC), (''SPEC64'', PACKET_ENABLE_SPEC),
      (''SPEC129'', PACKET_ENABLE_SPEC), (''METRICS'', PACKET_ENABLE_METRICS),
      (''STATUS'', PACKET_ENABLE_STATUS), (''STATUS_ONLY'', PACKET_ENABLE_STATUS),
      (''FULL'', PACKET_ENABLE_FULL_DEMO), (''FULL_DEMO'', PACKET_ENABLE_FULL_DEMO), (''NONE'', 0),
      (''OFF'', 0), (''DISABLED'', 0)]"

fun or_aliases :: "int \<Rightarrow> string list \<Rightarrow> int result" where
  "or_aliases m [] = Inr m"
| "or_aliases m (token # tokens) =
     (case map_of packet_enable_aliases (normalize_name token) of
        None \<Rightarrow> Inl (cerr ''unsupported packet-enable token'')
      | Some bits \<Rightarrow> or_aliases (m OR bits) tokens)"

definition packet_enable_from_tokens :: "string list \<Rightarrow> int result" where
  "packet_enable_from_tokens tokens =
     rbind (or_aliases 0 tokens) (\<lambda>m. rbind (validate_packet_enable m) (\<lambda>_. Inr m))"

definition packet_enable_from_names :: "string \<Rightarrow> int result" where
  "packet_enable_from_names names =
     packet_enable_from_tokens (py_split (py_replace_char (CHR '','') (CHR '' '') names))"

definition packet_enable_profile :: "string \<Rightarrow> int result" where
  "packet_enable_profile profile =
     (let key = normalize_name profile in
      if key \<in> {''STATUS'', ''STATUS_ONLY''} then Inr PACKET_ENABLE_STATUS
      else if key \<in> {''FULL'', ''FULL_DEMO''} then Inr PACKET_ENABLE_FULL_DEMO
      else packet_enable_from_names profile)"

definition validate_wave_decim :: "int \<Rightarrow> unit result" where
  "validate_wave_decim d =
     (if 1 \<le> d \<and> d \<le> MAX_WAVE_DECIM then Inr ()
      else Inl (cerr ''WAVE_DECIM must be in range 1..65535''))"

definition validate_spec_shift :: "int \<Rightarrow> unit result" where
  "validate_spec_shift s =
     (if 0 \<le> s \<and> s \<le> MAX_SPEC_SHIFT then Inr () else Inl (cerr ''SPEC_SHIFT must be in range 0..55''))"

definition require_zero :: "int list \<Rightarrow> unit result" where
  "require_zero values =
     (if \<exists>v \<in> set values. v \<noteq> 0 then Inl (cerr ''reserved arguments must be zero'') else Inr ())"

section \<open>Command packets\<close>

record command_packet =
  cp_cmd_type :: int
  cp_seq :: int
  cp_arg0 :: int
  cp_arg1 :: int
  cp_arg2 :: int
  cp_crc32 :: int
  cp_version :: int

definition validate_command_args :: "command_packet \<Rightarrow> unit result" where
  "validate_command_args p =
     (let ty = cp_cmd_type p in
      if ty = cmd_id ''SET_THR2''
      then rbind (join_thr2 (cp_arg0 p) (cp_arg1 p)) (\<lambda>_. require_zero [cp_arg2 p])
      else if ty = cmd_id ''CLEAR_METRICS'' then require_zero [cp_arg0 p, cp_arg1 p, cp_arg2 p]
      else if ty = cmd_id ''SET_SOURCE_MODE''
      then rbind (validate_source_mode (cp_arg0 p)) (\<lambda>_. require_zero [cp_arg1 p, cp_arg2 p])
      else if ty = cmd_id ''SET_PACKET_ENABLE''
      then rbind (validate_packet_enable (cp_arg0 p)) (\<lambda>_. require_zero [cp_arg1 p, cp_arg2 p])
      else if ty = cmd_id ''SET_WAVE_DECIM''
      then rbind (validate_wave_decim (cp_arg0 p)) (\<lambda>_. require_zero [cp_arg1 p, cp_arg2 p])
      else if ty = cmd_id ''SET_SPEC_SHIFT''
      then rbind (validate_spec_shift (cp_arg0 p)) (\<lambda>_. require_zero [cp_arg1 p, cp_arg2 p])
      else if ty = cmd_id ''PING'' then Inr ()
      else if ty = cmd_id ''SET_SPEC_MODE''
      then rbind (validate_spec_mode (cp_arg0 p)) (\<lambda>_. require_zero [cp_arg1 p, cp_arg2 p])
      else if ty = cmd_id ''SET_TELEMETRY_ENABLE''
      then rbind (validate_telemetry_enable (cp_arg0 p)) (\<lambda>_. require_zero [cp_arg1 p, cp_arg2 p])
      else require_zero [cp_arg0 p, cp_arg1 p, cp_arg2 p])"

definition validate_command_packet :: "command_packet \<Rightarrow> unit result" where
  "validate_command_packet p =
     rbind (command_type (CmdId (cp_cmd_type p))) (\<lambda>ty.
     rbind (checks
       [(cp_version p \<in> set COMMAND_VERSIONS_SUPPORTED, cerr ''unsupported command version''),
        (ty \<in> (if cp_version p = COMMAND_VERSION_V1 then COMMAND_V1_TYPES else COMMAND_V2_TYPES),
          cerr ''command is not available in this command version'')]) (\<lambda>_.
     rbind (check_u32 (cp_seq p) ''seq'') (\<lambda>_.
     rbind (check_u32 (cp_arg0 p) ''arg0'') (\<lambda>_.
     rbind (check_u32 (cp_arg1 p) ''arg1'') (\<lambda>_.
     rbind (check_u32 (cp_arg2 p) ''arg2'') (\<lambda>_.
     rbind (checks [(cp_crc32 p = 0, cerr ''command CRC is disabled; crc32 must be zero'')]) (\<lambda>_.
     validate_command_args p)))))))"

text \<open>\<^verbatim>\<open>_put\<close> and \<^verbatim>\<open>_get\<close>; \<^verbatim>\<open>int.to_bytes\<close> raises when the value does not fit.\<close>

definition put :: "bytes \<Rightarrow> nat dict \<Rightarrow> string \<Rightarrow> int \<Rightarrow> nat \<Rightarrow> bytes result" where
  "put buf offsets name value width =
     (let off = the (map_of offsets name) in
      if 0 \<le> value \<and> value < 256 ^ width
      then Inr (take off buf @ to_le width value @ drop (off + width) buf)
      else Inl (Exn OverflowError ''int too big to convert''))"

fun puts :: "bytes \<Rightarrow> nat dict \<Rightarrow> (string \<times> int \<times> nat) list \<Rightarrow> bytes result" where
  "puts buf offsets [] = Inr buf"
| "puts buf offsets ((name, value, width) # rest) =
     rbind (put buf offsets name value width) (\<lambda>buf. puts buf offsets rest)"

definition get_field :: "bytes \<Rightarrow> nat dict \<Rightarrow> string \<Rightarrow> nat \<Rightarrow> int" where
  "get_field buf offsets name width = get_le buf (the (map_of offsets name)) width"

definition command_to_bytes :: "command_packet \<Rightarrow> bytes result" where
  "command_to_bytes p =
     rbind (validate_command_packet p) (\<lambda>_.
     puts (replicate (nat COMMAND_PACKET_BYTES) 0) COMMAND_OFFSETS
       [(''magic'', COMMAND_MAGIC, 4), (''version'', cp_version p, 2),
        (''cmd_type'', cp_cmd_type p, 2), (''seq'', cp_seq p, 4), (''arg0'', cp_arg0 p, 4),
        (''arg1'', cp_arg1 p, 4), (''arg2'', cp_arg2 p, 4), (''crc32'', cp_crc32 p, 4)])"

definition command_from_bytes :: "bytes \<Rightarrow> command_packet result" where
  "command_from_bytes raw =
     (if int (length raw) \<noteq> COMMAND_PACKET_BYTES
      then Inl (cerr ''command packet must be exactly 28 bytes'')
      else if get_field raw COMMAND_OFFSETS ''magic'' 4 \<noteq> COMMAND_MAGIC
      then Inl (cerr ''bad command magic'')
      else
        let packet =
          \<lparr> cp_cmd_type = get_field raw COMMAND_OFFSETS ''cmd_type'' 2,
            cp_seq = get_field raw COMMAND_OFFSETS ''seq'' 4,
            cp_arg0 = get_field raw COMMAND_OFFSETS ''arg0'' 4,
            cp_arg1 = get_field raw COMMAND_OFFSETS ''arg1'' 4,
            cp_arg2 = get_field raw COMMAND_OFFSETS ''arg2'' 4,
            cp_crc32 = get_field raw COMMAND_OFFSETS ''crc32'' 4,
            cp_version = get_field raw COMMAND_OFFSETS ''version'' 2 \<rparr> in
        rbind (validate_command_packet packet) (\<lambda>_. Inr packet))"

section \<open>Command results\<close>

record command_result =
  cr_cmd_type :: int
  cr_seq :: int
  cr_disposition :: int
  cr_reject_reason :: int
  cr_fpga_status :: int
  cr_csr_version :: int
  cr_crc32 :: int

definition disposition_id :: "string \<Rightarrow> int" where
  "disposition_id name = the (map_of COMMAND_DISPOSITIONS name)"

definition succeeded :: "command_result \<Rightarrow> bool" where
  "succeeded r \<longleftrightarrow> cr_disposition r \<in> {disposition_id ''APPLIED'', disposition_id ''NOOP''}"

definition validate_command_result :: "command_result \<Rightarrow> unit result" where
  "validate_command_result r =
     rbind (command_type (CmdId (cr_cmd_type r))) (\<lambda>_.
     rbind (check_u32 (cr_seq r) ''result.seq'') (\<lambda>_.
     rbind (check_u32 (cr_fpga_status r) ''result.fpga_status'') (\<lambda>_.
     rbind (check_u32 (cr_csr_version r) ''result.csr_version'') (\<lambda>_.
     checks
       [(map_of COMMAND_DISPOSITION_NAMES (cr_disposition r) \<noteq> None, cerr ''unknown command disposition''),
        (map_of COMMAND_REJECT_REASON_NAMES (cr_reject_reason r) \<noteq> None,
          cerr ''unknown command reject reason''),
        (cr_crc32 r = 0, cerr ''command-result CRC is disabled; crc32 must be zero''),
        (\<not> (succeeded r \<and> cr_reject_reason r \<noteq> the (map_of COMMAND_REJECT_REASONS ''NONE'')),
          cerr ''APPLIED/NOOP command result must use reject reason NONE'')]))))"

definition result_to_bytes :: "command_result \<Rightarrow> bytes result" where
  "result_to_bytes r =
     rbind (validate_command_result r) (\<lambda>_.
     puts (replicate (nat COMMAND_RESULT_BYTES) 0) COMMAND_RESULT_OFFSETS
       [(''magic'', COMMAND_RESULT_MAGIC, 4), (''version'', COMMAND_RESULT_VERSION, 2),
        (''cmd_type'', cr_cmd_type r, 2), (''seq'', cr_seq r, 4),
        (''disposition'', cr_disposition r, 4), (''reject_reason'', cr_reject_reason r, 4),
        (''fpga_status'', cr_fpga_status r, 4), (''csr_version'', cr_csr_version r, 4),
        (''crc32'', cr_crc32 r, 4)])"

definition result_from_bytes :: "bytes \<Rightarrow> command_result result" where
  "result_from_bytes raw =
     (if int (length raw) \<noteq> COMMAND_RESULT_BYTES
      then Inl (cerr ''command result must be exactly 32 bytes'')
      else if get_field raw COMMAND_RESULT_OFFSETS ''magic'' 4 \<noteq> COMMAND_RESULT_MAGIC
      then Inl (cerr ''bad command-result magic'')
      else if get_field raw COMMAND_RESULT_OFFSETS ''version'' 2 \<noteq> COMMAND_RESULT_VERSION
      then Inl (cerr ''bad command-result version'')
      else
        let r =
          \<lparr> cr_cmd_type = get_field raw COMMAND_RESULT_OFFSETS ''cmd_type'' 2,
            cr_seq = get_field raw COMMAND_RESULT_OFFSETS ''seq'' 4,
            cr_disposition = get_field raw COMMAND_RESULT_OFFSETS ''disposition'' 4,
            cr_reject_reason = get_field raw COMMAND_RESULT_OFFSETS ''reject_reason'' 4,
            cr_fpga_status = get_field raw COMMAND_RESULT_OFFSETS ''fpga_status'' 4,
            cr_csr_version = get_field raw COMMAND_RESULT_OFFSETS ''csr_version'' 4,
            cr_crc32 = get_field raw COMMAND_RESULT_OFFSETS ''crc32'' 4 \<rparr> in
        rbind (validate_command_result r) (\<lambda>_. Inr r))"

section \<open>The diagnostic STATUS\<close>

definition validate_diagnostic_status :: "bytes \<Rightarrow> bytes result" where
  "validate_diagnostic_status raw =
     rbind (expected_payload_bytes ''STATUS'' None) (\<lambda>expected_payload.
     rbind (checks [(int (length raw) = TELEMETRY_HEADER_BYTES + expected_payload,
       cerr ''PING diagnostic STATUS has the wrong size'')]) (\<lambda>_.
     rbind (struct_unpack_from TELEMETRY_HEADER_STRUCT raw 0) (\<lambda>f.
     rbind (checks
       [(f ! 0 = TELEMETRY_MAGIC, cerr ''bad PING diagnostic telemetry magic''),
        (f ! 1 = TELEMETRY_HEADER_VERSION, cerr ''bad PING diagnostic telemetry version''),
        (f ! 2 = TELEMETRY_HEADER_BYTES, cerr ''bad PING diagnostic header size''),
        (f ! 3 = the (map_of PACKET_TYPES ''STATUS''), cerr ''PING response is not STATUS''),
        (f ! 4 = bit_mask (the (map_of COMMON_FLAG_BITS ''status_diagnostic'')),
          cerr ''PING STATUS flags must equal status_diagnostic only''),
        (f ! 5 = 0, cerr ''PING diagnostic STATUS sequence must be zero''),
        (f ! 7 = expected_payload, cerr ''bad PING diagnostic STATUS payload size''),
        (f ! 8 = 0, cerr ''PING diagnostic STATUS header CRC must be zero''),
        (get_le raw (nat TELEMETRY_HEADER_BYTES +
             the (map_of (the (map_of PAYLOAD_OFFSETS ''STATUS'')) ''reserved'')) 4 = 0,
          cerr ''PING diagnostic STATUS reserved payload word must be zero'')]) (\<lambda>_.
     Inr raw))))"

section \<open>Lemmas\<close>

text \<open>The tables, evaluated.\<close>

lemma cmd_id_simps [simp]:
  "cmd_id ''SET_THR2'' = 1" "cmd_id ''CLEAR_METRICS'' = 2" "cmd_id ''SET_SOURCE_MODE'' = 3"
  "cmd_id ''SET_PACKET_ENABLE'' = 4" "cmd_id ''SET_WAVE_DECIM'' = 5" "cmd_id ''SET_SPEC_SHIFT'' = 6"
  "cmd_id ''PING'' = 7" "cmd_id ''SET_SPEC_MODE'' = 8" "cmd_id ''SET_TELEMETRY_ENABLE'' = 9"
  by (simp_all add: cmd_id_def COMMAND_TYPES_def)

lemma known_command_ids: "map_of COMMAND_TYPE_NAMES v \<noteq> None \<longleftrightarrow> 1 \<le> v \<and> v \<le> 14"
  by (auto simp: COMMAND_TYPE_NAMES_def COMMAND_TYPES_def) presburger

lemma command_type_id: "command_type (CmdId v) = (if 1 \<le> v \<and> v \<le> 14 then Inr v
    else Inl (cerr ''unknown command type ID''))"
  using known_command_ids [of v] by (auto simp: command_type_def)

lemma version_types:
  "v \<in> COMMAND_V1_TYPES \<longleftrightarrow> 1 \<le> v \<and> v \<le> 7" "v \<in> COMMAND_V2_TYPES \<longleftrightarrow> 1 \<le> v \<and> v \<le> 14"
  by (simp_all add: COMMAND_V1_TYPES_def COMMAND_V2_TYPES_def COMMAND_TYPE_MIN_VERSION_def)
     presburger+

lemma packet_enable_masks [simp]:
  "PACKET_ENABLE_WAVE = 1" "PACKET_ENABLE_SPEC = 2" "PACKET_ENABLE_METRICS = 4"
  "PACKET_ENABLE_STATUS = 8" "PACKET_ENABLE_FULL_DEMO = 15"
proof -
  have "map_of CSR_BITS ''PACKET_ENABLE'' = Some
      [(''WAVE_EN'', (0, 0)), (''SPEC_EN'', (1, 1)), (''METRICS_EN'', (2, 2)),
       (''STATUS_EN'', (3, 3)), (''PEAKS_EN'', (4, 4)), (''DEBUG_EN'', (5, 5)),
       (''reserved_31_6'', (6, 31))]"
    by (simp add: CSR_BITS_def)
  then show m: "PACKET_ENABLE_WAVE = 1" "PACKET_ENABLE_SPEC = 2" "PACKET_ENABLE_METRICS = 4"
      "PACKET_ENABLE_STATUS = 8"
    by (simp_all add: PACKET_ENABLE_WAVE_def PACKET_ENABLE_SPEC_def PACKET_ENABLE_METRICS_def
        PACKET_ENABLE_STATUS_def packet_bit_def bit_mask_def)
  show "PACKET_ENABLE_FULL_DEMO = 15" unfolding PACKET_ENABLE_FULL_DEMO_def m by simp
qed

lemma check_u32_iff [result_simps]: "check_u32 v n = Inr x \<longleftrightarrow> x = v \<and> 0 \<le> v \<and> v < 2 ^ 32"
  by (auto simp: check_u32_def MAX_U32_def)

text \<open>Filling a zeroed buffer field by field at running offsets is packing the struct.\<close>

lemma puts_pack:
  assumes "map (\<lambda>(n, v, w). the (map_of offsets n)) fs = running_offsets (length pre) (map (snd \<circ> snd) fs)"
    and "fields_fit (map (snd \<circ> snd) fs) (map (fst \<circ> snd) fs)"
  shows "puts (pre @ replicate (sum_list (map (snd \<circ> snd) fs)) 0) offsets fs =
    Inr (pre @ pack_fields (map (snd \<circ> snd) fs) (map (fst \<circ> snd) fs))"
  using assms
proof (induction fs arbitrary: pre)
  case (Cons f fs)
  obtain n v w where f: "f = (n, v, w)" by (cases f)
  have off: "the (map_of offsets n) = length pre" and fit: "0 \<le> v" "v < 256 ^ w"
    using Cons.prems by (simp_all add: f)
  have "put (pre @ replicate (w + k) 0) offsets n v w = Inr ((pre @ to_le w v) @ replicate k 0)" for k
    using off fit by (simp add: put_def)
  with Cons.IH [of "pre @ to_le w v"] Cons.prems show ?case
    by (simp add: f)
qed simp

definition command_fields :: "command_packet \<Rightarrow> int list" where
  "command_fields p =
     [COMMAND_MAGIC, cp_version p, cp_cmd_type p, cp_seq p, cp_arg0 p, cp_arg1 p, cp_arg2 p, cp_crc32 p]"

definition result_fields :: "command_result \<Rightarrow> int list" where
  "result_fields r =
     [COMMAND_RESULT_MAGIC, COMMAND_RESULT_VERSION, cr_cmd_type r, cr_seq r, cr_disposition r,
      cr_reject_reason r, cr_fpga_status r, cr_csr_version r, cr_crc32 r]"

definition command_valid :: "command_packet \<Rightarrow> bool" where
  "command_valid p \<longleftrightarrow> validate_command_packet p = Inr ()"

definition result_valid :: "command_result \<Rightarrow> bool" where
  "result_valid r \<longleftrightarrow> validate_command_result r = Inr ()"

lemma command_valid_ranges:
  assumes "command_valid p"
  shows "1 \<le> cp_cmd_type p" "cp_cmd_type p \<le> 14" "cp_version p \<in> {1, 2}"
    "0 \<le> cp_seq p" "cp_seq p < 2 ^ 32" "0 \<le> cp_arg0 p" "cp_arg0 p < 2 ^ 32"
    "0 \<le> cp_arg1 p" "cp_arg1 p < 2 ^ 32" "0 \<le> cp_arg2 p" "cp_arg2 p < 2 ^ 32" "cp_crc32 p = 0"
  using assms
  by (auto simp: command_valid_def validate_command_packet_def command_type_id result_simps
      COMMAND_VERSIONS_SUPPORTED_def split: if_splits)

lemma command_fields_fit: "command_valid p \<Longrightarrow> fields_fit COMMAND_STRUCT (command_fields p)"
  using command_valid_ranges [of p]
  by (auto simp: COMMAND_STRUCT_def command_fields_def COMMAND_MAGIC_def)

lemma command_to_bytes_iff:
  "command_to_bytes p = Inr w \<longleftrightarrow> command_valid p \<and> w = pack_fields COMMAND_STRUCT (command_fields p)"
proof (cases "command_valid p")
  case True
  have "puts ([] @ replicate 28 0) COMMAND_OFFSETS
       [(''magic'', COMMAND_MAGIC, 4), (''version'', cp_version p, 2),
        (''cmd_type'', cp_cmd_type p, 2), (''seq'', cp_seq p, 4), (''arg0'', cp_arg0 p, 4),
        (''arg1'', cp_arg1 p, 4), (''arg2'', cp_arg2 p, 4), (''crc32'', cp_crc32 p, 4)] =
      Inr ([] @ pack_fields COMMAND_STRUCT (command_fields p))"
    using puts_pack [of COMMAND_OFFSETS
       "[(''magic'', COMMAND_MAGIC, 4), (''version'', cp_version p, 2),
        (''cmd_type'', cp_cmd_type p, 2), (''seq'', cp_seq p, 4), (''arg0'', cp_arg0 p, 4),
        (''arg1'', cp_arg1 p, 4), (''arg2'', cp_arg2 p, 4), (''crc32'', cp_crc32 p, 4)]" "[]"]
      command_fields_fit [OF True]
    by (simp add: COMMAND_OFFSETS_def COMMAND_STRUCT_def command_fields_def)
  with True show ?thesis
    by (auto simp: command_to_bytes_def command_valid_def COMMAND_PACKET_BYTES_def)
next
  case False
  then show ?thesis by (auto simp: command_to_bytes_def command_valid_def result_simps)
qed

lemma unpack_command:
  "unpack_fields COMMAND_STRUCT raw =
     [get_le raw 0 4, get_le raw 4 2, get_le raw 6 2, get_le raw 8 4, get_le raw 12 4,
      get_le raw 16 4, get_le raw 20 4, get_le raw 24 4]"
  by (simp add: COMMAND_STRUCT_def get_le_def pyslice_def)

lemma command_from_bytes_iff:
  "command_from_bytes raw = Inr p \<longleftrightarrow>
     length raw = 28 \<and> unpack_fields COMMAND_STRUCT raw = command_fields p \<and> command_valid p"
  by (cases p) (auto simp: command_from_bytes_def get_field_def COMMAND_OFFSETS_def
      COMMAND_PACKET_BYTES_def unpack_command command_fields_def command_valid_def rbind_Inr_iff Let_def)

lemma sum_command_struct [simp]:
  "sum_list COMMAND_STRUCT = 28" "length COMMAND_STRUCT = 8"
  "sum_list COMMAND_RESULT_STRUCT = 32" "length COMMAND_RESULT_STRUCT = 9"
  by (simp_all add: COMMAND_STRUCT_def COMMAND_RESULT_STRUCT_def)

text \<open>A strict codec from a validity test and the fields of a struct.\<close>

lemma struct_bytes_iff:
  assumes "fields_fit S vs" "length raw = sum_list S"
  shows "unpack_fields S raw = vs \<longleftrightarrow> raw = pack_fields S vs"
  using assms unpack_pack_fields [OF assms(1), of "[]"] pack_unpack_fields [of S raw] by auto

interpretation command: strict_codec command_valid command_to_bytes command_from_bytes
proof
  fix p w
  show "command_valid p \<Longrightarrow> \<exists>w. command_to_bytes p = Inr w" by (simp add: command_to_bytes_iff)
  have len: "length (pack_fields COMMAND_STRUCT (command_fields p)) = 28"
    by (simp add: length_pack_fields command_fields_def)
  show "command_valid p \<Longrightarrow> command_to_bytes p = Inr w \<Longrightarrow> command_from_bytes w = Inr p"
    using len struct_bytes_iff [OF command_fields_fit]
    by (simp add: command_to_bytes_iff command_from_bytes_iff)
  show "command_from_bytes w = Inr p \<Longrightarrow> command_valid p" by (simp add: command_from_bytes_iff)
  show "command_from_bytes w = Inr p \<Longrightarrow> command_to_bytes p = Inr w"
    using struct_bytes_iff [OF command_fields_fit, of p w]
    by (simp add: command_to_bytes_iff command_from_bytes_iff)
qed

text \<open>
  C18: command requests on the wire. \<^verbatim>\<open>CommandPacket.from_bytes\<close> returns a packet exactly on the 28 bytes
  that \<^verbatim>\<open>to_bytes\<close> produces for it, and \<^verbatim>\<open>to_bytes\<close> succeeds exactly on the packets \<^verbatim>\<open>validate\<close> accepts; so no
  two valid requests share an encoding, and no byte string with a wrong size, magic, version, type, CRC or
  argument is taken for a request.
\<close>

theorem command_codec_exact:
  "command_from_bytes raw = Inr p \<longleftrightarrow>
     validate_command_packet p = Inr () \<and> command_to_bytes p = Inr raw"
  using command.dec_iff [of raw p] by (simp add: command_valid_def)

lemma result_valid_ranges:
  assumes "result_valid r"
  shows "1 \<le> cr_cmd_type r" "cr_cmd_type r \<le> 14" "0 \<le> cr_seq r" "cr_seq r < 2 ^ 32"
    "0 \<le> cr_disposition r" "cr_disposition r \<le> 3" "0 \<le> cr_reject_reason r" "cr_reject_reason r \<le> 16"
    "0 \<le> cr_fpga_status r" "cr_fpga_status r < 2 ^ 32" "0 \<le> cr_csr_version r" "cr_csr_version r < 2 ^ 32"
    "cr_crc32 r = 0" "succeeded r \<Longrightarrow> cr_reject_reason r = 0"
  using assms
  by (auto simp: result_valid_def validate_command_result_def command_type_id result_simps
      COMMAND_DISPOSITION_NAMES_def COMMAND_DISPOSITIONS_def COMMAND_REJECT_REASON_NAMES_def
      COMMAND_REJECT_REASONS_def split: if_splits)

lemma result_fields_fit: "result_valid r \<Longrightarrow> fields_fit COMMAND_RESULT_STRUCT (result_fields r)"
  using result_valid_ranges [of r]
  by (auto simp: COMMAND_RESULT_STRUCT_def result_fields_def COMMAND_RESULT_MAGIC_def
      COMMAND_RESULT_VERSION_def)

lemma result_to_bytes_iff:
  "result_to_bytes r = Inr w \<longleftrightarrow>
     result_valid r \<and> w = pack_fields COMMAND_RESULT_STRUCT (result_fields r)"
proof (cases "result_valid r")
  case True
  let ?fs = "[(''magic'', COMMAND_RESULT_MAGIC, 4), (''version'', COMMAND_RESULT_VERSION, 2),
        (''cmd_type'', cr_cmd_type r, 2), (''seq'', cr_seq r, 4),
        (''disposition'', cr_disposition r, 4), (''reject_reason'', cr_reject_reason r, 4),
        (''fpga_status'', cr_fpga_status r, 4), (''csr_version'', cr_csr_version r, 4),
        (''crc32'', cr_crc32 r, 4)]"
  have "puts ([] @ replicate 32 0) COMMAND_RESULT_OFFSETS ?fs =
      Inr ([] @ pack_fields COMMAND_RESULT_STRUCT (result_fields r))"
    using puts_pack [of COMMAND_RESULT_OFFSETS ?fs "[]"] result_fields_fit [OF True]
    by (simp add: COMMAND_RESULT_OFFSETS_def COMMAND_RESULT_STRUCT_def result_fields_def)
  with True show ?thesis
    by (auto simp: result_to_bytes_def result_valid_def COMMAND_RESULT_BYTES_def)
next
  case False
  then show ?thesis by (auto simp: result_to_bytes_def result_valid_def result_simps)
qed

lemma unpack_result:
  "unpack_fields COMMAND_RESULT_STRUCT raw =
     [get_le raw 0 4, get_le raw 4 2, get_le raw 6 2, get_le raw 8 4, get_le raw 12 4,
      get_le raw 16 4, get_le raw 20 4, get_le raw 24 4, get_le raw 28 4]"
  by (simp add: COMMAND_RESULT_STRUCT_def get_le_def pyslice_def)

lemma result_from_bytes_iff:
  "result_from_bytes raw = Inr r \<longleftrightarrow>
     length raw = 32 \<and> unpack_fields COMMAND_RESULT_STRUCT raw = result_fields r \<and> result_valid r"
  by (cases r) (auto simp: result_from_bytes_def get_field_def COMMAND_RESULT_OFFSETS_def
      COMMAND_RESULT_BYTES_def unpack_result result_fields_def result_valid_def rbind_Inr_iff Let_def)

interpretation command_result: strict_codec result_valid result_to_bytes result_from_bytes
proof
  fix r w
  show "result_valid r \<Longrightarrow> \<exists>w. result_to_bytes r = Inr w" by (simp add: result_to_bytes_iff)
  have len: "length (pack_fields COMMAND_RESULT_STRUCT (result_fields r)) = 32"
    by (simp add: length_pack_fields result_fields_def)
  show "result_valid r \<Longrightarrow> result_to_bytes r = Inr w \<Longrightarrow> result_from_bytes w = Inr r"
    using len struct_bytes_iff [OF result_fields_fit]
    by (simp add: result_to_bytes_iff result_from_bytes_iff)
  show "result_from_bytes w = Inr r \<Longrightarrow> result_valid r" by (simp add: result_from_bytes_iff)
  show "result_from_bytes w = Inr r \<Longrightarrow> result_to_bytes r = Inr w"
    using struct_bytes_iff [OF result_fields_fit, of r w]
    by (simp add: result_to_bytes_iff result_from_bytes_iff)
qed

text \<open>
  Command results on the wire. \<^verbatim>\<open>CommandResult.from_bytes\<close> returns a result exactly on the 32 bytes
  \<^verbatim>\<open>to_bytes\<close> produces for it, which exist exactly for the results \<^verbatim>\<open>validate\<close> accepts; in particular an
  accepted result that reports success carries no reject reason.
\<close>

theorem result_codec_exact:
  "(result_from_bytes raw = Inr r \<longleftrightarrow>
      validate_command_result r = Inr () \<and> result_to_bytes r = Inr raw) \<and>
   \<not> (result_from_bytes raw = Inr r \<and> succeeded r \<and> cr_reject_reason r \<noteq> 0)"
  using command_result.dec_iff [of raw r] result_valid_ranges(14) [of r]
  by (auto simp: result_valid_def)

section \<open>The threshold\<close>

lemma or_push_bit_add:
  assumes "0 \<le> (lo :: int)" "lo < 2 ^ n"
  shows "push_bit n hi OR lo = 2 ^ n * hi + lo"
proof -
  have "take_bit n lo = lo" using assms by (simp add: take_bit_int_eq_self)
  then have "m < n" if "bit lo m" for m using that bit_take_bit_iff [of n lo m] by simp
  then have "push_bit n hi AND lo = 0"
    by (intro bit_eqI) (fastforce simp: bit_and_iff bit_push_bit_iff)
  then have "push_bit n hi OR lo = push_bit n hi + lo"
    by (simp add: disjunctive_add_eq_or)
  then show ?thesis by (simp add: push_bit_eq_mult mult.commute)
qed

text \<open>
  The 56-bit threshold survives its two-word transport. \<^verbatim>\<open>split_thr2\<close> succeeds exactly on the thresholds
  of 56 bits, its words pass the range checks of a SET_THR2 request, and \<^verbatim>\<open>join_thr2\<close> gives the threshold
  back; conversely whatever \<^verbatim>\<open>join_thr2\<close> accepts, \<^verbatim>\<open>split_thr2\<close> takes apart into the same two words.
\<close>

theorem thr2_round_trip:
  "(\<exists>lo hi. split_thr2 t = Inr (lo, hi) \<and> join_thr2 lo hi = Inr t) = (0 \<le> t \<and> t < 2 ^ 56) \<and>
   (join_thr2 lo hi = Inr t) = (split_thr2 t = Inr (lo, hi))"
proof -
  have and24: "x AND 0x00FFFFFF = x mod 2 ^ 24" for x :: int
    using and_mask_mod [of x 24] by simp
  have split: "split_thr2 t = Inr (lo, hi) \<longleftrightarrow>
      0 \<le> t \<and> t < 2 ^ 56 \<and> lo = t mod 2 ^ 32 \<and> hi = t div 2 ^ 32" for t lo hi
  proof -
    have "t div 2 ^ 32 mod 2 ^ 24 = t div 2 ^ 32" if "0 \<le> t" "t < 2 ^ 56"
      using that by (intro mod_pos_pos_trivial) (auto simp: div_less_iff_less_mult)
    then show ?thesis
      by (auto simp: split_thr2_def validate_thr2_def MAX_THR2_def MAX_U32_def and_mask32 and24
          drop_bit_eq_div result_simps)
  qed
  have join: "join_thr2 lo hi = Inr t \<longleftrightarrow>
      0 \<le> lo \<and> lo < 2 ^ 32 \<and> 0 \<le> hi \<and> t = 2 ^ 32 * hi + lo \<and> t < 2 ^ 56" for t lo hi
  proof (cases "0 \<le> lo \<and> lo < 2 ^ 32 \<and> 0 \<le> hi")
    case True
    then have "push_bit 32 hi OR lo = 2 ^ 32 * hi + lo" by (intro or_push_bit_add) auto
    then show ?thesis
      using True by (auto simp: join_thr2_def validate_thr2_def MAX_THR2_def result_simps Let_def)
  next
    case False
    then show ?thesis by (auto simp: join_thr2_def result_simps Let_def)
  qed
  have eq: "join_thr2 lo hi = Inr t \<longleftrightarrow> split_thr2 t = Inr (lo, hi)" for lo hi
    unfolding split join by auto
  show ?thesis unfolding eq split by auto
qed

end
