(* ===== verification/Command_Client.thy ===== *)
theory Command_Client
  imports Complex_Main Command_Codec
begin

text \<open>
  The command session, the second half of \<^verbatim>\<open>sw/pc_dashboard/trecap_dashboard/command_client.py\<close>.

  \<open>session\<close> is the client's state together with its environment: the outcomes of the \<^verbatim>\<open>sendto\<close> calls and
  of the \<^verbatim>\<open>recvfrom\<close> calls still to come, and a log of the datagrams handed to \<^verbatim>\<open>sendto\<close>. A receive script
  that has run out stands for a network that stays silent until the deadline. Methods are functions from a
  session to the session they leave and a result; \<open>sbind\<close> sequences them. Socket set-up and the command
  line are not modelled.
\<close>

section \<open>State\<close>

record client_config =
  cl_host :: string
  cl_port :: int
  cl_bind_port :: int
  cl_timeout_s :: rat
  cl_sequence_start :: int
  cl_protocol_version :: int
  cl_retries :: int

definition default_client_config :: client_config where
  "default_client_config =
     \<lparr> cl_host = ''192.168.10.2'', cl_port = 5006, cl_bind_port = 5007, cl_timeout_s = 1,
       cl_sequence_start = 1, cl_protocol_version = COMMAND_VERSION_CURRENT, cl_retries = 2 \<rparr>"

definition validate_client_config :: "client_config \<Rightarrow> unit result" where
  "validate_client_config c =
     rbind (checks
       [(cl_host c \<noteq> [], cerr ''command host must not be empty''),
        (1 \<le> cl_port c \<and> cl_port c \<le> 65535, cerr ''command port must be in range 1..65535''),
        (1 \<le> cl_bind_port c \<and> cl_bind_port c \<le> 65535, cerr ''bind_port must be in range 1..65535''),
        (\<not> cl_timeout_s c < 0, cerr ''timeout_s must be >= 0''),
        (cl_protocol_version c \<in> set COMMAND_VERSIONS_SUPPORTED,
          cerr ''protocol_version must be 1 or 2''),
        (\<not> cl_retries c < 0, cerr ''retries must be >= 0'')]) (\<lambda>_.
     rbind (check_u32 (cl_sequence_start c) ''sequence_start'') (\<lambda>_. Inr ()))"

record client_stats =
  cs_commands_sent :: int
  cs_bytes_sent :: int
  cs_results_received :: int
  cs_result_timeouts :: int
  cs_retries :: int
  cs_ignored_results :: int
  cs_diagnostic_statuses :: int
  cs_session_pings :: int
  cs_last_seq :: "int option"
  cs_last_cmd_type :: "int option"
  cs_last_send_time_ns :: "int option"
  cs_last_error :: "string option"

definition client_stats_init :: client_stats where
  "client_stats_init =
     \<lparr> cs_commands_sent = 0, cs_bytes_sent = 0, cs_results_received = 0, cs_result_timeouts = 0,
       cs_retries = 0, cs_ignored_results = 0, cs_diagnostic_statuses = 0, cs_session_pings = 0,
       cs_last_seq = None, cs_last_cmd_type = None, cs_last_send_time_ns = None,
       cs_last_error = None \<rparr>"

text \<open>
  The environment: a \<^verbatim>\<open>sendto\<close> reports a number of bytes sent, followed by a clock reading, or raises; a \<^verbatim>\<open>recvfrom\<close>
  returns bytes and their source, times out, would block, or raises. \<open>RecvLate\<close> is an iteration of the
  receive loop that finds the deadline passed before it calls \<^verbatim>\<open>recvfrom\<close>.
\<close>

datatype send_outcome = Sent int int | SendOSError string

datatype recv_outcome = RecvData bytes string int | RecvTimeout | RecvWouldBlock | RecvOSError string
  | RecvLate

record session =
  ss_config :: client_config
  ss_stats :: client_stats
  ss_open :: bool
  ss_next_seq :: int
  ss_peer_probe_sent :: bool
  ss_expected_source_host :: string
  ss_resolved_host :: string
  ss_sends :: "send_outcome list"
  ss_recvs :: "recv_outcome list"
  ss_wire :: "bytes list"
  ss_sent_packets :: "command_packet list"

definition CommandClient ::
    "client_config \<Rightarrow> string \<Rightarrow> send_outcome list \<Rightarrow> recv_outcome list \<Rightarrow> session result" where
  "CommandClient config resolved snd_script rcv_script =
     rbind (validate_client_config config) (\<lambda>_.
     Inr \<lparr> ss_config = config, ss_stats = client_stats_init, ss_open = False,
           ss_next_seq = cl_sequence_start config AND MAX_U32, ss_peer_probe_sent = False,
           ss_expected_source_host = cl_host config, ss_resolved_host = resolved,
           ss_sends = snd_script, ss_recvs = rcv_script, ss_wire = [], ss_sent_packets = [] \<rparr>)"

section \<open>Sequencing\<close>

type_synonym 'a action = "session \<Rightarrow> session \<times> 'a result"

definition sreturn :: "'a \<Rightarrow> 'a action" where
  "sreturn x s = (s, Inr x)"

definition sraise :: "exn \<Rightarrow> 'a action" where
  "sraise e s = (s, Inl e)"

definition sbind :: "'a action \<Rightarrow> ('a \<Rightarrow> 'b action) \<Rightarrow> 'b action" where
  "sbind m f s = (case m s of (s', Inl e) \<Rightarrow> (s', Inl e) | (s', Inr x) \<Rightarrow> f x s')"

definition lift :: "'a result \<Rightarrow> 'a action" where
  "lift r s = (s, r)"

definition modify :: "(session \<Rightarrow> session) \<Rightarrow> unit action" where
  "modify f s = (f s, Inr ())"

definition update_stats :: "(client_stats \<Rightarrow> client_stats) \<Rightarrow> unit action" where
  "update_stats f = modify (\<lambda>s. s\<lparr> ss_stats := f (ss_stats s) \<rparr>)"

section \<open>Sending and receiving\<close>

definition client_open :: "unit action" where
  "client_open = modify (\<lambda>s. if ss_open s then s
     else s\<lparr> ss_open := True, ss_expected_source_host := ss_resolved_host s \<rparr>)"

definition next_seq :: "int option \<Rightarrow> int action" where
  "next_seq explicit s =
     (case explicit of
        Some q \<Rightarrow> (s, check_u32 q ''seq'')
      | None \<Rightarrow> (s\<lparr> ss_next_seq := (ss_next_seq s + 1) AND MAX_U32 \<rparr>, Inr (ss_next_seq s)))"

definition build ::
    "command_ref \<Rightarrow> int option \<Rightarrow> int \<Rightarrow> int \<Rightarrow> int \<Rightarrow> int option \<Rightarrow> command_packet action" where
  "build command sq arg0 arg1 arg2 version =
     sbind (lift (command_type command)) (\<lambda>ty.
     sbind (next_seq sq) (\<lambda>q.
     sbind (lift (check_u32 arg0 ''arg0'')) (\<lambda>a0.
     sbind (lift (check_u32 arg1 ''arg1'')) (\<lambda>a1.
     sbind (lift (check_u32 arg2 ''arg2'')) (\<lambda>a2 s.
       let packet = \<lparr> cp_cmd_type = ty, cp_seq = q, cp_arg0 = a0, cp_arg1 = a1, cp_arg2 = a2,
                      cp_crc32 = 0,
                      cp_version = (case version of None \<Rightarrow> cl_protocol_version (ss_config s)
                                    | Some v \<Rightarrow> v) \<rparr> in
       (s, rbind (validate_command_packet packet) (\<lambda>_. Inr packet)))))))"

definition expects_result :: "command_packet \<Rightarrow> bool" where
  "expects_result p \<longleftrightarrow> cp_version p = COMMAND_VERSION_V2 \<and> cp_cmd_type p \<noteq> cmd_id ''PING''"

text \<open>One \<^verbatim>\<open>sendto\<close>: the datagram is logged, and the next outcome of the script applies.\<close>

definition sendto :: "bytes \<Rightarrow> send_outcome action" where
  "sendto data s =
     (let s' = s\<lparr> ss_wire := ss_wire s @ [data], ss_sends := tl (ss_sends s) \<rparr> in
      (s', Inr (case ss_sends s of [] \<Rightarrow> Sent (int (length data)) 0 | out # _ \<Rightarrow> out)))"

definition send_datagram :: "bytes \<Rightarrow> command_packet \<Rightarrow> (int \<times> int) action" where
  "send_datagram data packet =
     sbind client_open (\<lambda>_.
     sbind (sendto data) (\<lambda>out.
       case out of
         SendOSError msg \<Rightarrow> sraise (Exn OSError msg)
       | Sent sent now \<Rightarrow>
           if sent \<noteq> int (length data) then sraise (cerr ''partial UDP command send'')
           else
             sbind (update_stats (\<lambda>st. st\<lparr> cs_commands_sent := cs_commands_sent st + 1,
                 cs_bytes_sent := cs_bytes_sent st + sent,
                 cs_last_seq := Some (cp_seq packet), cs_last_cmd_type := Some (cp_cmd_type packet),
                 cs_last_send_time_ns := Some now, cs_last_error := None \<rparr>)) (\<lambda>_.
             sreturn (sent, now))))"

definition from_peer :: "session \<Rightarrow> string \<Rightarrow> int \<Rightarrow> bool" where
  "from_peer s host port \<longleftrightarrow>
     host = ss_expected_source_host s \<and> port = cl_port (ss_config s)"

text \<open>
  The loop of \<^verbatim>\<open>_receive_correlated\<close>, over the receive script. A telemetry-magic datagram must be a valid
  diagnostic STATUS, or its exception ends the loop; anything that is not the awaited result is counted and
  ignored.
\<close>

fun receive_loop ::
    "command_packet \<Rightarrow> recv_outcome list \<Rightarrow> session \<Rightarrow> session \<times> command_result result" where
  "receive_loop packet [] s = (s\<lparr> ss_recvs := [] \<rparr>, Inl (Exn SocketTimeout ''timed out''))"
| "receive_loop packet (out # script) s =
     (let s = s\<lparr> ss_recvs := script \<rparr>; st = ss_stats s;
          ignored = s\<lparr> ss_stats := st\<lparr> cs_ignored_results := cs_ignored_results st + 1 \<rparr> \<rparr> in
      case out of
        RecvLate \<Rightarrow> (s, Inl (Exn SocketTimeout ''command-result timeout''))
      | RecvTimeout \<Rightarrow> (s, Inl (Exn SocketTimeout ''timed out''))
      | RecvWouldBlock \<Rightarrow> (s, Inl (Exn BlockingIOError ''would block''))
      | RecvOSError msg \<Rightarrow> (s, Inl (Exn OSError msg))
      | RecvData raw host port \<Rightarrow>
          if \<not> from_peer s host port then receive_loop packet script ignored
          else if length raw \<ge> 4 \<and> from_le (take 4 raw) = TELEMETRY_MAGIC
          then (case validate_diagnostic_status raw of
                  Inl e \<Rightarrow> (s, Inl e)
                | Inr _ \<Rightarrow> receive_loop packet script
                    (s\<lparr> ss_stats := st\<lparr> cs_diagnostic_statuses := cs_diagnostic_statuses st + 1 \<rparr> \<rparr>))
          else (case result_from_bytes raw of
                  Inl e \<Rightarrow> if handled_by (exn_class e) CommandClientError
                    then receive_loop packet script ignored else (s, Inl e)
                | Inr r \<Rightarrow>
                    if cr_cmd_type r \<noteq> cp_cmd_type packet \<or> cr_seq r \<noteq> cp_seq packet
                    then receive_loop packet script ignored
                    else (s\<lparr> ss_stats := st\<lparr> cs_results_received := cs_results_received st + 1 \<rparr> \<rparr>,
                          Inr r)))"

definition receive_correlated :: "command_packet \<Rightarrow> command_result action" where
  "receive_correlated packet s = receive_loop packet (ss_recvs s) s"

definition receive_diagnostic_status :: "bytes action" where
  "receive_diagnostic_status s =
     (let timeout = cerr ''timed out waiting for PING diagnostic STATUS; no non-PING command was sent'';
          s' = s\<lparr> ss_recvs := tl (ss_recvs s) \<rparr> in
      case ss_recvs s of
        [] \<Rightarrow> (s', Inl timeout)
      | RecvTimeout # _ \<Rightarrow> (s', Inl timeout)
      | RecvLate # _ \<Rightarrow> (s', Inl timeout)
      | RecvWouldBlock # _ \<Rightarrow> (s', Inl timeout)
      | RecvOSError msg # _ \<Rightarrow> (s', Inl (Exn OSError msg))
      | RecvData raw host port # _ \<Rightarrow>
          if \<not> from_peer s host port
          then (s', Inl (cerr ''PING diagnostic STATUS came from an unexpected source endpoint''))
          else (case validate_diagnostic_status raw of
                  Inl e \<Rightarrow> (s', Inl e)
                | Inr diagnostic \<Rightarrow>
                    (s'\<lparr> ss_stats := (ss_stats s)
                           \<lparr> cs_diagnostic_statuses := cs_diagnostic_statuses (ss_stats s) + 1 \<rparr> \<rparr>,
                     Inr diagnostic)))"

section \<open>The retry loop\<close>

record send_result =
  sr_packet :: command_packet
  sr_bytes_sent :: int
  sr_send_time_ns :: int
  sr_result :: "command_result option"
  sr_diagnostic_status :: "bytes option"
  sr_attempts :: nat
  sr_dry_run :: bool

text \<open>The body of the \<^verbatim>\<open>try\<close>: one attempt, given the bytes sent before it.\<close>

definition send_attempt :: "command_packet \<Rightarrow> bytes \<Rightarrow> int \<Rightarrow> nat \<Rightarrow> send_result action" where
  "send_attempt packet data total_sent attempt =
     sbind (send_datagram data packet) (\<lambda>(sent, now).
       let base = \<lparr> sr_packet = packet, sr_bytes_sent = total_sent + sent, sr_send_time_ns = now,
                    sr_result = None, sr_diagnostic_status = None, sr_attempts = attempt,
                    sr_dry_run = False \<rparr> in
       if cp_cmd_type packet = cmd_id ''PING''
       then
         sbind (update_stats (\<lambda>st. st\<lparr> cs_session_pings := cs_session_pings st + 1 \<rparr>)) (\<lambda>_.
         sbind receive_diagnostic_status (\<lambda>diagnostic.
         sbind (if cp_version packet = COMMAND_VERSION_V2
                then modify (\<lambda>s. s\<lparr> ss_peer_probe_sent := True \<rparr>) else sreturn ()) (\<lambda>_.
         sreturn (base\<lparr> sr_diagnostic_status := Some diagnostic \<rparr>))))
       else if \<not> expects_result packet then sreturn base
       else sbind (receive_correlated packet) (\<lambda>r. sreturn (base\<lparr> sr_result := Some r \<rparr>)))"

definition is_timeout :: "exn \<Rightarrow> bool" where
  "is_timeout e \<longleftrightarrow> handled_by (exn_class e) SocketTimeout \<or> handled_by (exn_class e) BlockingIOError"

text \<open>
  \<^verbatim>\<open>for attempt in range(1, max_attempts + 1)\<close>: \<open>remaining\<close> attempts remain after this one. Bytes sent by
  attempts that timed out accumulate.
\<close>

fun attempts_loop :: "command_packet \<Rightarrow> bytes \<Rightarrow> nat \<Rightarrow> int \<Rightarrow> nat \<Rightarrow> send_result action" where
  "attempts_loop packet data remaining total_sent attempt s =
     (case send_attempt packet data total_sent attempt s of
        (s', Inr r) \<Rightarrow> (s', Inr r)
      | (s', Inl e) \<Rightarrow>
          if \<not> is_timeout e then (s', Inl e)
          else
            let st = ss_stats s';
                st = st\<lparr> cs_result_timeouts := cs_result_timeouts st + 1,
                         cs_last_error := Some (exn_msg e) \<rparr> in
            case remaining of
              0 \<Rightarrow> (s'\<lparr> ss_stats := st \<rparr>, Inl (cerr ''timed out waiting for correlated result''))
            | Suc k \<Rightarrow>
                attempts_loop packet data k (total_sent + int (length data)) (attempt + 1)
                  (s'\<lparr> ss_stats := st\<lparr> cs_retries := cs_retries st + 1 \<rparr> \<rparr>))"

declare attempts_loop.simps [simp del]

definition send_unprobed :: "command_packet \<Rightarrow> bytes \<Rightarrow> send_result action" where
  "send_unprobed packet data s =
     attempts_loop packet data
       (if expects_result packet then nat (cl_retries (ss_config s)) else 0) 0 1 s"

definition probe_packet :: "command_packet \<Rightarrow> command_packet" where
  "probe_packet packet =
     \<lparr> cp_cmd_type = cmd_id ''PING'', cp_seq = (cp_seq packet - 1) AND MAX_U32, cp_arg0 = 0,
       cp_arg1 = 0, cp_arg2 = 0, cp_crc32 = 0, cp_version = COMMAND_VERSION_V2 \<rparr>"

text \<open>
  \<^verbatim>\<open>_ensure_peer_probe\<close> sends a PING through \<^verbatim>\<open>send_packet(.., _skip_probe=True)\<close>, which is
  \<open>send_unprobed\<close> after the encoding.
\<close>

definition ensure_peer_probe :: "command_packet \<Rightarrow> unit action" where
  "ensure_peer_probe packet s =
     (if \<not> expects_result packet \<or> ss_peer_probe_sent s then (s, Inr ())
      else
        sbind (lift (command_to_bytes (probe_packet packet))) (\<lambda>data.
        sbind (send_unprobed (probe_packet packet) data) (\<lambda>_. sreturn ())) s)"

definition send_packet :: "command_packet \<Rightarrow> send_result action" where
  "send_packet packet =
     sbind (lift (command_to_bytes packet)) (\<lambda>data.
     sbind (ensure_peer_probe packet) (\<lambda>_.
     send_unprobed packet data))"

section \<open>The client's methods\<close>

text \<open>
  \<^verbatim>\<open>send\<close>: \<open>ping_first\<close> is the recursive call \<^verbatim>\<open>self.ping()\<close>, which cannot recurse again because the command it
  sends is PING.
\<close>

definition send_ref ::
    "unit action \<Rightarrow> command_ref \<Rightarrow> int option \<Rightarrow> int \<Rightarrow> int \<Rightarrow> int \<Rightarrow> send_result action" where
  "send_ref ping_first command sq arg0 arg1 arg2 =
     sbind (lift (command_type command)) (\<lambda>ty.
     sbind (\<lambda>s. if cl_protocol_version (ss_config s) = COMMAND_VERSION_V2 \<and>
                  ty \<noteq> cmd_id ''PING'' \<and> \<not> ss_peer_probe_sent s
                then ping_first s else (s, Inr ())) (\<lambda>_.
     sbind (build (CmdId ty) sq arg0 arg1 arg2 None) (\<lambda>packet.
     send_packet packet)))"

definition ping :: "int option \<Rightarrow> int \<Rightarrow> int \<Rightarrow> int \<Rightarrow> send_result action" where
  "ping sq arg0 arg1 arg2 = send_ref (sreturn ()) (CmdName ''PING'') sq arg0 arg1 arg2"

definition send_command ::
    "command_ref \<Rightarrow> int option \<Rightarrow> int \<Rightarrow> int \<Rightarrow> int \<Rightarrow> send_result action" where
  "send_command command sq arg0 arg1 arg2 =
     send_ref (sbind (ping None 0 0 0) (\<lambda>_. sreturn ())) command sq arg0 arg1 arg2"

definition clear_metrics :: "int option \<Rightarrow> send_result action" where
  "clear_metrics sq = send_command (CmdName ''CLEAR_METRICS'') sq 0 0 0"

definition set_thr2 :: "int \<Rightarrow> int option \<Rightarrow> send_result action" where
  "set_thr2 thr2 sq =
     sbind (lift (split_thr2 thr2)) (\<lambda>(lo, hi). send_command (CmdName ''SET_THR2'') sq lo hi 0)"

definition set_source_mode :: "int \<Rightarrow> int option \<Rightarrow> send_result action" where
  "set_source_mode m sq =
     sbind (lift (validate_source_mode m)) (\<lambda>_. send_command (CmdName ''SET_SOURCE_MODE'') sq m 0 0)"

definition set_packet_enable :: "int \<Rightarrow> int option \<Rightarrow> send_result action" where
  "set_packet_enable m sq =
     sbind (lift (validate_packet_enable m)) (\<lambda>_. send_command (CmdName ''SET_PACKET_ENABLE'') sq m 0 0)"

definition set_packet_enable_names :: "string \<Rightarrow> int option \<Rightarrow> send_result action" where
  "set_packet_enable_names names sq =
     sbind (lift (packet_enable_from_names names)) (\<lambda>m. set_packet_enable m sq)"

definition set_packet_profile :: "string \<Rightarrow> int option \<Rightarrow> send_result action" where
  "set_packet_profile profile sq =
     sbind (lift (packet_enable_profile profile)) (\<lambda>m. set_packet_enable m sq)"

definition set_wave_decim :: "int \<Rightarrow> int option \<Rightarrow> send_result action" where
  "set_wave_decim d sq =
     sbind (lift (validate_wave_decim d)) (\<lambda>_. send_command (CmdName ''SET_WAVE_DECIM'') sq d 0 0)"

definition set_spec_shift :: "int \<Rightarrow> int option \<Rightarrow> send_result action" where
  "set_spec_shift k sq =
     sbind (lift (validate_spec_shift k)) (\<lambda>_. send_command (CmdName ''SET_SPEC_SHIFT'') sq k 0 0)"

definition set_spec_mode :: "int \<Rightarrow> int option \<Rightarrow> send_result action" where
  "set_spec_mode m sq =
     sbind (lift (validate_spec_mode m)) (\<lambda>_. send_command (CmdName ''SET_SPEC_MODE'') sq m 0 0)"

definition set_telemetry_enable :: "int \<Rightarrow> int option \<Rightarrow> send_result action" where
  "set_telemetry_enable e sq =
     sbind (lift (validate_telemetry_enable e)) (\<lambda>_.
       send_command (CmdName ''SET_TELEMETRY_ENABLE'') sq e 0 0)"

definition configure_ddr_ring :: "int option \<Rightarrow> send_result action" where
  "configure_ddr_ring sq = send_command (CmdName ''CONFIGURE_DDR_RING'') sq 0 0 0"

definition reset_transport :: "int option \<Rightarrow> send_result action" where
  "reset_transport sq = send_command (CmdName ''RESET_TRANSPORT'') sq 0 0 0"

definition clear_counters :: "int option \<Rightarrow> send_result action" where
  "clear_counters sq = send_command (CmdName ''CLEAR_COUNTERS'') sq 0 0 0"

definition start_bram_replay :: "int option \<Rightarrow> send_result action" where
  "start_bram_replay sq = send_command (CmdName ''START_BRAM_REPLAY'') sq 0 0 0"

definition read_status_version :: "int option \<Rightarrow> send_result action" where
  "read_status_version sq =
     sbind (send_command (CmdName ''READ_STATUS_VERSION'') sq 0 0 0) (\<lambda>sent.
       if \<not> sr_dry_run sent \<and> sr_result sent \<noteq> None \<and>
          cr_disposition (the (sr_result sent)) \<noteq> disposition_id ''NOOP''
       then sraise (cerr ''READ_STATUS_VERSION must return a NOOP disposition'') else sreturn sent)"

text \<open>
  \<^verbatim>\<open>DryRunCommandClient.send_packet\<close>: the request is recorded instead of sent; the probe it needs first is
  recorded the same way. \<open>now\<close> is the clock reading.
\<close>

definition dry_record :: "int \<Rightarrow> command_packet \<Rightarrow> bytes \<Rightarrow> send_result action" where
  "dry_record now packet data s =
     (let st = ss_stats s; is_ping = (cp_cmd_type packet = cmd_id ''PING'') in
      (s\<lparr> ss_sent_packets := ss_sent_packets s @ [packet],
          ss_peer_probe_sent :=
            (ss_peer_probe_sent s \<or> (is_ping \<and> cp_version packet = COMMAND_VERSION_V2)),
          ss_stats := st\<lparr> cs_session_pings := cs_session_pings st + (if is_ping then 1 else 0),
            cs_commands_sent := cs_commands_sent st + 1,
            cs_bytes_sent := cs_bytes_sent st + int (length data),
            cs_last_seq := Some (cp_seq packet), cs_last_cmd_type := Some (cp_cmd_type packet),
            cs_last_send_time_ns := Some now, cs_last_error := None \<rparr> \<rparr>,
       Inr \<lparr> sr_packet = packet, sr_bytes_sent = int (length data), sr_send_time_ns = now,
             sr_result = None, sr_diagnostic_status = None, sr_attempts = 1, sr_dry_run = True \<rparr>))"

definition dry_send_packet :: "int \<Rightarrow> command_packet \<Rightarrow> send_result action" where
  "dry_send_packet now packet =
     sbind (lift (command_to_bytes packet)) (\<lambda>data.
     sbind (\<lambda>s. if \<not> expects_result packet \<or> ss_peer_probe_sent s then (s, Inr ())
                else sbind (lift (command_to_bytes (probe_packet packet))) (\<lambda>probe.
                     sbind (dry_record now (probe_packet packet) probe) (\<lambda>_. sreturn ())) s) (\<lambda>_.
     dry_record now packet data))"

section \<open>What one attempt does\<close>

lemmas action_defs = sbind_def sreturn_def sraise_def lift_def modify_def update_stats_def

text \<open>The parts of a session that a receive never touches.\<close>

definition frame :: "session \<Rightarrow> session \<Rightarrow> bool" where
  "frame s s' \<longleftrightarrow> ss_config s' = ss_config s \<and> ss_next_seq s' = ss_next_seq s"

lemma frame_refl [simp]: "frame s s"
  by (simp add: frame_def)

lemma frame_trans: "frame s t \<Longrightarrow> frame t u \<Longrightarrow> frame s u"
  by (simp add: frame_def)

definition correlated :: "command_packet \<Rightarrow> command_result \<Rightarrow> bool" where
  "correlated p r \<longleftrightarrow> cr_cmd_type r = cp_cmd_type p \<and> cr_seq r = cp_seq p \<and> result_valid r"

lemma from_peer_frame [simp]:
  "from_peer (s\<lparr> ss_recvs := script \<rparr>) = from_peer s" "from_peer (s\<lparr> ss_stats := st \<rparr>) = from_peer s"
  by (simp_all add: from_peer_def fun_eq_iff)

text \<open>One datagram in the receive loop: ignored, counted as a diagnostic, fatal, or the result.\<close>

lemma receive_loop_data:
  fixes s raw host port script
  defines "t \<equiv> s\<lparr> ss_recvs := script \<rparr>"
  obtains (ignored) n where "receive_loop p (RecvData raw host port # script) s =
      receive_loop p script (t\<lparr> ss_stats := (ss_stats s)\<lparr> cs_ignored_results := n \<rparr> \<rparr>)"
  | (diagnostic) n where "receive_loop p (RecvData raw host port # script) s =
      receive_loop p script (t\<lparr> ss_stats := (ss_stats s)\<lparr> cs_diagnostic_statuses := n \<rparr> \<rparr>)"
  | (fatal) e where "receive_loop p (RecvData raw host port # script) s = (t, Inl e)"
  | (answer) r n where "receive_loop p (RecvData raw host port # script) s =
      (t\<lparr> ss_stats := (ss_stats s)\<lparr> cs_results_received := n \<rparr> \<rparr>, Inr r)" "correlated p r"
      "from_peer s host port" "result_from_bytes raw = Inr r"
proof (cases "from_peer s host port")
  case False
  then show ?thesis using ignored by (simp add: t_def Let_def)
next
  case peer: True
  show ?thesis
  proof (cases "4 \<le> length raw \<and> from_le (take 4 raw) = TELEMETRY_MAGIC")
    case True
    with peer show ?thesis
      using diagnostic fatal by (cases "validate_diagnostic_status raw") (simp_all add: t_def Let_def)
  next
    case other: False
    show ?thesis
    proof (cases "result_from_bytes raw")
      case (Inl e)
      with peer other show ?thesis
        using ignored fatal
        by (cases "handled_by (exn_class e) CommandClientError") (auto simp: t_def Let_def)
    next
      case (Inr r)
      then have "result_valid r" by (rule command_result.dec_valid)
      with Inr peer other show ?thesis
        using ignored answer
        by (cases "cr_cmd_type r \<noteq> cp_cmd_type p \<or> cr_seq r \<noteq> cp_seq p")
           (auto simp: t_def Let_def correlated_def)
    qed
  qed
qed

lemma receive_loop_frame:
  "receive_loop p script s = (s', res) \<Longrightarrow>
     frame s s' \<and> ss_wire s' = ss_wire s \<and> ss_peer_probe_sent s' = ss_peer_probe_sent s \<and>
     (\<forall>r. res = Inr r \<longrightarrow> correlated p r)"
proof (induction script arbitrary: s)
  case Nil
  then show ?case by (auto simp: frame_def)
next
  case (Cons out script)
  show ?case
  proof (cases out)
    case (RecvData raw host port)
    show ?thesis
    proof (cases rule: receive_loop_data [of p raw host port script s])
      case (ignored n)
      with Cons.prems RecvData have "receive_loop p script
        (s\<lparr> ss_recvs := script, ss_stats := (ss_stats s)\<lparr> cs_ignored_results := n \<rparr> \<rparr>) = (s', res)" by simp
      from Cons.IH [OF this] show ?thesis by (simp add: frame_def)
    next
      case (diagnostic n)
      with Cons.prems RecvData have "receive_loop p script
        (s\<lparr> ss_recvs := script, ss_stats := (ss_stats s)\<lparr> cs_diagnostic_statuses := n \<rparr> \<rparr>) = (s', res)" by simp
      from Cons.IH [OF this] show ?thesis by (simp add: frame_def)
    qed (use Cons.prems RecvData in \<open>auto simp: frame_def\<close>)
  qed (use Cons.prems in \<open>auto simp: frame_def Let_def\<close>)
qed

lemma receive_diagnostic_frame:
  "receive_diagnostic_status s = (s', res) \<Longrightarrow>
     frame s s' \<and> ss_wire s' = ss_wire s \<and> ss_peer_probe_sent s' = ss_peer_probe_sent s \<and>
     (\<forall>d. res = Inr d \<longrightarrow> validate_diagnostic_status d = Inr d)"
  by (auto simp: receive_diagnostic_status_def validate_diagnostic_status_def frame_def Let_def
      rbind_Inr_iff split: list.splits recv_outcome.splits if_splits sum.splits)

lemma send_datagram_frame:
  "send_datagram data p s = (s', res) \<Longrightarrow>
     frame s s' \<and> ss_wire s' = ss_wire s @ [data] \<and> ss_peer_probe_sent s' = ss_peer_probe_sent s \<and>
     (\<forall>x. res = Inr x \<longrightarrow> fst x = int (length data))"
  by (auto simp: send_datagram_def client_open_def sendto_def action_defs frame_def Let_def
      split: send_outcome.splits if_splits list.splits)

definition v2_ping :: "command_packet \<Rightarrow> bool" where
  "v2_ping p \<longleftrightarrow> cp_cmd_type p = cmd_id ''PING'' \<and> cp_version p = COMMAND_VERSION_V2"

text \<open>What a successful attempt returned.\<close>

definition attempt_result :: "command_packet \<Rightarrow> send_result \<Rightarrow> bool" where
  "attempt_result p r \<longleftrightarrow> sr_packet r = p \<and>
     (if cp_cmd_type p = cmd_id ''PING''
      then sr_result r = None \<and>
        (\<exists>d. sr_diagnostic_status r = Some d \<and> validate_diagnostic_status d = Inr d)
      else if expects_result p
      then sr_diagnostic_status r = None \<and> (\<exists>c. sr_result r = Some c \<and> correlated p c)
      else sr_result r = None \<and> sr_diagnostic_status r = None)"

lemma send_attempt_frame:
  assumes "send_attempt p data tot att s = (s', res)"
  shows "frame s s' \<and> ss_wire s' = ss_wire s @ [data] \<and>
    ss_peer_probe_sent s' = (ss_peer_probe_sent s \<or> (v2_ping p \<and> \<not> isl res)) \<and>
    (\<forall>r. res = Inr r \<longrightarrow> attempt_result p r \<and> sr_attempts r = att \<and>
      sr_bytes_sent r = tot + int (length data))"
proof -
  obtain s1 r1 where sd: "send_datagram data p s = (s1, r1)" by fastforce
  note f1 = send_datagram_frame [OF sd]
  show ?thesis
  proof (cases r1)
    case (Inl e)
    with assms sd f1 show ?thesis by (auto simp: send_attempt_def sbind_def)
  next
    case (Inr x)
    obtain sent now where x: "x = (sent, now)" by (cases x)
    with f1 Inr have sent: "sent = int (length data)" by simp
    show ?thesis
    proof (cases "cp_cmd_type p = cmd_id ''PING''")
      case True
      let ?s2 = "s1\<lparr> ss_stats := (ss_stats s1)\<lparr> cs_session_pings := cs_session_pings (ss_stats s1) + 1 \<rparr> \<rparr>"
      obtain s3 r3 where rd: "receive_diagnostic_status ?s2 = (s3, r3)" by fastforce
      from assms sd Inr x True rd receive_diagnostic_frame [OF rd] f1 sent show ?thesis
        by (cases r3) (auto simp: send_attempt_def action_defs frame_def v2_ping_def attempt_result_def
            split: if_splits)
    next
      case np: False
      show ?thesis
      proof (cases "expects_result p")
        case True
        obtain s3 r3 where rc: "receive_loop p (ss_recvs s1) s1 = (s3, r3)" by fastforce
        from assms sd Inr x np True rc receive_loop_frame [OF rc] f1 sent show ?thesis
          by (cases r3) (auto simp: send_attempt_def action_defs receive_correlated_def frame_def
              v2_ping_def attempt_result_def)
      next
        case False
        with assms sd Inr x np f1 sent show ?thesis
          by (auto simp: send_attempt_def action_defs frame_def v2_ping_def attempt_result_def)
      qed
    qed
  qed
qed

section \<open>What the retry loop does\<close>

lemma attempts_loop_frame:
  "attempts_loop p data rem tot att s = (s', res) \<Longrightarrow>
     frame s s' \<and>
     (\<exists>n. 1 \<le> n \<and> n \<le> rem + 1 \<and> ss_wire s' = ss_wire s @ replicate n data \<and>
        (\<forall>r. res = Inr r \<longrightarrow> attempt_result p r \<and> sr_attempts r + 1 = att + n \<and>
           sr_bytes_sent r = tot + int n * int (length data))) \<and>
     ss_peer_probe_sent s' = (ss_peer_probe_sent s \<or> (v2_ping p \<and> \<not> isl res))"
proof (induction rem arbitrary: s tot att)
  case 0
  obtain s1 r1 where sa: "send_attempt p data tot att s = (s1, r1)" by fastforce
  note f = send_attempt_frame [OF sa]
  from "0.prems" sa f show ?case
    by (subst (asm) attempts_loop.simps)
       (cases r1; auto simp: frame_def Let_def isl_def split: if_splits intro!: exI [of _ 1])
next
  case (Suc rem)
  obtain s1 r1 where sa: "send_attempt p data tot att s = (s1, r1)" by fastforce
  note f = send_attempt_frame [OF sa]
  show ?case
  proof (cases "\<exists>e. r1 = Inl e \<and> is_timeout e")
    case False
    with Suc.prems sa f show ?thesis
      by (subst (asm) attempts_loop.simps)
         (cases r1; auto simp: frame_def Let_def isl_def split: if_splits intro!: exI [of _ 1])
  next
    case True
    then obtain e where e: "r1 = Inl e" "is_timeout e" by blast
    let ?st = "(ss_stats s1)\<lparr> cs_result_timeouts := cs_result_timeouts (ss_stats s1) + 1,
        cs_last_error := Some (exn_msg e) \<rparr>"
    let ?s2 = "s1\<lparr> ss_stats := ?st\<lparr> cs_retries := cs_retries ?st + 1 \<rparr> \<rparr>"
    have loop: "attempts_loop p data rem (tot + int (length data)) (att + 1) ?s2 = (s', res)"
      using Suc.prems sa e by (subst (asm) attempts_loop.simps) (simp add: Let_def)
    from Suc.IH [OF loop] obtain n where n: "1 \<le> n" "n \<le> rem + 1"
        "ss_wire s' = ss_wire ?s2 @ replicate n data"
        "\<forall>r. res = Inr r \<longrightarrow> attempt_result p r \<and> sr_attempts r + 1 = (att + 1) + n \<and>
           sr_bytes_sent r = (tot + int (length data)) + int n * int (length data)"
      and fr: "frame ?s2 s'" "ss_peer_probe_sent s' = (ss_peer_probe_sent ?s2 \<or> (v2_ping p \<and> \<not> isl res))"
      by blast
    have "ss_wire s' = ss_wire s @ replicate (Suc n) data" using f n(3) by simp
    moreover have "\<forall>r. res = Inr r \<longrightarrow> attempt_result p r \<and> sr_attempts r + 1 = att + Suc n \<and>
           sr_bytes_sent r = tot + int (Suc n) * int (length data)"
      using n(4) by (auto simp: algebra_simps)
    moreover have "frame s s'" "ss_peer_probe_sent s' = (ss_peer_probe_sent s \<or> (v2_ping p \<and> \<not> isl res))"
      using f fr e by (auto simp: frame_def)
    moreover have "1 \<le> Suc n" "Suc n \<le> Suc rem + 1" using n by auto
    ultimately show ?thesis by blast
  qed
qed

definition max_attempts :: "session \<Rightarrow> command_packet \<Rightarrow> nat" where
  "max_attempts s p = 1 + (if expects_result p then nat (cl_retries (ss_config s)) else 0)"

lemma send_unprobed_frame:
  assumes "send_unprobed p data s = (s', res)"
  obtains n where "1 \<le> n" "n \<le> max_attempts s p" "ss_wire s' = ss_wire s @ replicate n data"
    "frame s s'" "ss_peer_probe_sent s' = (ss_peer_probe_sent s \<or> (v2_ping p \<and> \<not> isl res))"
    "\<And>r. res = Inr r \<Longrightarrow> attempt_result p r \<and> sr_attempts r = n \<and>
       sr_bytes_sent r = int n * int (length data)"
  using attempts_loop_frame [OF assms [unfolded send_unprobed_def]] that
  by (auto simp: max_attempts_def)

lemma probe_packet_valid:
  assumes "command_valid p"
  shows "command_valid (probe_packet p)" "v2_ping (probe_packet p)" "\<not> expects_result (probe_packet p)"
proof -
  have "0 \<le> (cp_seq p - 1) AND MAX_U32" "(cp_seq p - 1) AND MAX_U32 < 2 ^ 32"
    by (simp_all add: MAX_U32_def and_mask32)
  then show "command_valid (probe_packet p)"
    by (auto simp: command_valid_def validate_command_packet_def probe_packet_def command_type_id
        result_simps COMMAND_VERSIONS_SUPPORTED_def COMMAND_VERSION_V1_def COMMAND_VERSION_V2_def
        version_types validate_command_args_def)
  show "v2_ping (probe_packet p)" "\<not> expects_result (probe_packet p)"
    by (simp_all add: v2_ping_def probe_packet_def expects_result_def)
qed

text \<open>
  The datagrams of one \<^verbatim>\<open>send_packet\<close>: an optional PING, then copies of the request, and the request only
  once a PING has been answered.
\<close>

lemma send_packet_frame:
  assumes "send_packet p s = (s', res)"
  obtains (invalid) e where "s' = s" "res = Inl e" "\<not> command_valid p"
  | (sent) data ping n where "command_valid p" "command_to_bytes p = Inr data"
      "command_to_bytes (probe_packet p) = Inr ping"
      "ss_wire s' = ss_wire s @ (if expects_result p \<and> \<not> ss_peer_probe_sent s then [ping] else [])
         @ replicate n data"
      "n \<le> max_attempts s p" "n = 0 \<or> \<not> expects_result p \<or> ss_peer_probe_sent s'" "frame s s'"
      "ss_peer_probe_sent s' \<longrightarrow> ss_peer_probe_sent s \<or> v2_ping p \<and> n \<noteq> 0 \<or> expects_result p"
      "\<And>r. res = Inr r \<Longrightarrow> attempt_result p r \<and> sr_attempts r = n \<and> 1 \<le> n \<and>
         sr_bytes_sent r = int n * int (length data)"
proof (cases "command_valid p")
  case False
  then obtain e where "command_to_bytes p = Inl e"
    by (cases "command_to_bytes p") (auto simp: command_to_bytes_iff)
  with assms False show ?thesis by (intro invalid) (auto simp: send_packet_def action_defs)
next
  case True
  obtain data where data: "command_to_bytes p = Inr data" using command.enc_total [OF True] by blast
  obtain pg where pg: "command_to_bytes (probe_packet p) = Inr pg"
    using command.enc_total [OF probe_packet_valid(1) [OF True]] by blast
  show ?thesis
  proof (cases "expects_result p \<and> \<not> ss_peer_probe_sent s")
    case False
    then have "send_unprobed p data s = (s', res)"
      using assms data by (auto simp: send_packet_def action_defs ensure_peer_probe_def)
    then obtain n where n: "1 \<le> n" "n \<le> max_attempts s p" "ss_wire s' = ss_wire s @ replicate n data"
      "frame s s'" "ss_peer_probe_sent s' = (ss_peer_probe_sent s \<or> (v2_ping p \<and> \<not> isl res))"
      "\<And>r. res = Inr r \<Longrightarrow> attempt_result p r \<and> sr_attempts r = n \<and>
         sr_bytes_sent r = int n * int (length data)"
      by (rule send_unprobed_frame) blast
    show ?thesis
      by (rule sent [OF True data pg, of n]) (use n False in auto)
  next
    case probe: True
    obtain s1 r1 where su: "send_unprobed (probe_packet p) pg s = (s1, r1)" by fastforce
    from su obtain k where k: "1 \<le> k" "k \<le> max_attempts s (probe_packet p)"
        "ss_wire s1 = ss_wire s @ replicate k pg" "frame s s1"
        "ss_peer_probe_sent s1 = (ss_peer_probe_sent s \<or> (v2_ping (probe_packet p) \<and> \<not> isl r1))"
      by (rule send_unprobed_frame) blast
    then have one: "k = 1" and w1: "ss_wire s1 = ss_wire s @ [pg]"
      using probe_packet_valid(3) [OF True] by (auto simp: max_attempts_def)
    show ?thesis
    proof (cases r1)
      case (Inl e)
      have "s' = s1 \<and> res = Inl e"
        using assms data pg probe su Inl by (auto simp: send_packet_def action_defs ensure_peer_probe_def)
      then show ?thesis
        by (intro sent [OF True data pg, of 0]) (use probe w1 k(4) in auto)
    next
      case (Inr r)
      then have up: "ss_peer_probe_sent s1" using k(5) probe_packet_valid(2) [OF True] by simp
      have "send_unprobed p data s1 = (s', res)"
        using assms data pg probe su Inr by (auto simp: send_packet_def action_defs ensure_peer_probe_def)
      then obtain n where n: "1 \<le> n" "n \<le> max_attempts s1 p" "ss_wire s' = ss_wire s1 @ replicate n data"
        "frame s1 s'" "ss_peer_probe_sent s' = (ss_peer_probe_sent s1 \<or> (v2_ping p \<and> \<not> isl res))"
        "\<And>r. res = Inr r \<Longrightarrow> attempt_result p r \<and> sr_attempts r = n \<and>
           sr_bytes_sent r = int n * int (length data)"
        by (rule send_unprobed_frame) blast
      have "max_attempts s1 p = max_attempts s p" using k(4) by (simp add: max_attempts_def frame_def)
      then show ?thesis
        by (intro sent [OF True data pg, of n])
           (use n probe w1 up frame_trans [OF k(4) n(4)] in auto)
    qed
  qed
qed


section \<open>The session rule\<close>

fun probe_before :: "bool \<Rightarrow> bytes list \<Rightarrow> bool" where
  "probe_before seen [] = True"
| "probe_before seen (b # bs) =
     (case command_from_bytes b of
        Inl _ \<Rightarrow> False
      | Inr p \<Rightarrow> (expects_result p \<longrightarrow> seen) \<and> probe_before (seen \<or> v2_ping p) bs)"

definition is_ping_bytes :: "bytes \<Rightarrow> bool" where
  "is_ping_bytes b \<longleftrightarrow> (case command_from_bytes b of Inl _ \<Rightarrow> False | Inr p \<Rightarrow> v2_ping p)"

lemma probe_before_mono: "probe_before seen w \<Longrightarrow> seen \<longrightarrow> seen' \<Longrightarrow> probe_before seen' w"
  by (induction seen w arbitrary: seen' rule: probe_before.induct) (auto split: sum.splits)

lemma probe_before_append:
  "probe_before seen (xs @ ys) \<longleftrightarrow>
     probe_before seen xs \<and> probe_before (seen \<or> list_ex is_ping_bytes xs) ys"
  by (induction seen xs rule: probe_before.induct) (auto simp: is_ping_bytes_def split: sum.splits)

lemma probe_before_replicate:
  assumes "command_from_bytes b = Inr p" "n = 0 \<or> \<not> expects_result p \<or> seen"
  shows "probe_before seen (replicate n b)"
  using assms(2)
proof (induction n arbitrary: seen)
  case (Suc n)
  then show ?case using assms(1) by auto
qed simp

definition session_ok :: "session \<Rightarrow> bool" where
  "session_ok s \<longleftrightarrow> probe_before False (ss_wire s) \<and>
     (ss_peer_probe_sent s \<longrightarrow> list_ex is_ping_bytes (ss_wire s))"

lemma send_packet_ok:
  assumes "session_ok s"
  shows "session_ok (fst (send_packet p s))"
proof -
  obtain s' res where sp: "send_packet p s = (s', res)" by fastforce
  have "session_ok s'"
    using sp
  proof (cases rule: send_packet_frame)
    case (invalid e)
    with assms show ?thesis by simp
  next
    case (sent data pg n)
    have dec: "command_from_bytes data = Inr p" "command_from_bytes pg = Inr (probe_packet p)"
      using command.dec_enc sent(1-3) probe_packet_valid(1) by blast+
    have ping: "is_ping_bytes pg" "\<not> expects_result (probe_packet p)"
      using dec(2) probe_packet_valid(2,3) [OF sent(1)] by (simp_all add: is_ping_bytes_def)
    have data: "v2_ping p \<Longrightarrow> is_ping_bytes data" using dec(1) by (simp add: is_ping_bytes_def)
    let ?probing = "expects_result p \<and> \<not> ss_peer_probe_sent s"
    have old: "probe_before False (ss_wire s)" "ss_peer_probe_sent s \<longrightarrow> list_ex is_ping_bytes (ss_wire s)"
      using assms by (simp_all add: session_ok_def)
    have "probe_before (list_ex is_ping_bytes (ss_wire s) \<or> ?probing) (replicate n data)"
      using sent(6,8) old(2) by (intro probe_before_replicate [OF dec(1)]) auto
    then have "probe_before False (ss_wire s')"
      unfolding sent(4) probe_before_append using old ping dec by auto
    moreover have "ss_peer_probe_sent s' \<longrightarrow> list_ex is_ping_bytes (ss_wire s')"
      using sent(4,8) old(2) ping(1) data by (cases n) auto
    ultimately show ?thesis by (simp add: session_ok_def)
  qed
  with sp show ?thesis by simp
qed

text \<open>Every method is built from \<^verbatim>\<open>send_packet\<close> and steps that leave the socket alone.\<close>

definition keeps :: "'a action \<Rightarrow> bool" where
  "keeps m \<longleftrightarrow> (\<forall>s. session_ok s \<longrightarrow> session_ok (fst (m s)))"

lemma keeps_sbind: "keeps m \<Longrightarrow> (\<And>x. keeps (f x)) \<Longrightarrow> keeps (sbind m f)"
  by (fastforce simp: keeps_def sbind_def split: prod.splits sum.splits)

lemma keeps_pure: "keeps (lift r)" "keeps (sreturn x)" "keeps (sraise e)"
  by (simp_all add: keeps_def lift_def sreturn_def sraise_def)

lemma keeps_send_packet: "keeps (send_packet p)"
  by (simp add: keeps_def send_packet_ok)

lemma keeps_next_seq: "keeps (next_seq q)"
  by (simp add: keeps_def next_seq_def session_ok_def split: option.splits)

lemma keeps_build: "keeps (build c q a0 a1 a2 v)"
proof -
  have "keeps (\<lambda>s. (s, f s))" for f :: "session \<Rightarrow> 'b result" by (simp add: keeps_def)
  then show ?thesis
    unfolding build_def by (intro keeps_sbind keeps_pure keeps_next_seq) (simp add: Let_def)
qed

lemma keeps_send_ref: "keeps first \<Longrightarrow> keeps (send_ref first c q a0 a1 a2)"
  unfolding send_ref_def
  by (intro keeps_sbind keeps_pure keeps_build keeps_send_packet) (auto simp: keeps_def)

lemma keeps_send_command: "keeps (send_command c q a0 a1 a2)"
  unfolding send_command_def ping_def by (intro keeps_send_ref keeps_sbind keeps_pure)

text \<open>What a program can do with a client, as events.\<close>

datatype client_call = Send command_ref "int option" int int int | SendPacket command_packet

definition client_step :: "session \<Rightarrow> client_call \<Rightarrow> session" where
  "client_step s call =
     (case call of
        Send c q a0 a1 a2 \<Rightarrow> fst (send_command c q a0 a1 a2 s)
      | SendPacket p \<Rightarrow> fst (send_packet p s))"

interpretation client_inv: step_invariant client_step session_ok
proof
  fix s call
  assume "session_ok s"
  then show "session_ok (client_step s call)"
    using keeps_send_command by (cases call) (auto simp: client_step_def keeps_def send_packet_ok)
qed

text \<open>
  C8: no version-2 command reaches the network before the peer has been probed. Whatever calls a program
  makes on a fresh client and however the network answers, drops or corrupts the replies, every datagram the
  client hands to the socket is a well-formed request, and every request that expects a result is preceded on
  the wire by a version-2 PING; the client believes the peer probed only when such a PING was sent.
\<close>

theorem ping_before_commands:
  assumes "CommandClient config resolved sends recvs = Inr s"
  shows "probe_before False (ss_wire (foldl client_step s calls)) \<and>
    (ss_peer_probe_sent (foldl client_step s calls) \<longrightarrow>
       list_ex is_ping_bytes (ss_wire (foldl client_step s calls)))"
proof -
  have "session_ok s" using assms by (auto simp: CommandClient_def rbind_Inr_iff session_ok_def)
  then have "session_ok (foldl client_step s calls)" by (rule client_inv.run_inv)
  then show ?thesis by (simp add: session_ok_def)
qed

section \<open>A silent network\<close>

lemma send_attempt_silent:
  assumes "expects_result p" "ss_recvs s = []" "ss_sends s = []"
  shows "\<exists>s'. send_attempt p data tot att s = (s', Inl (Exn SocketTimeout ''timed out'')) \<and>
    ss_recvs s' = [] \<and> ss_sends s' = [] \<and> ss_wire s' = ss_wire s @ [data] \<and>
    cs_result_timeouts (ss_stats s') = cs_result_timeouts (ss_stats s) \<and>
    cs_retries (ss_stats s') = cs_retries (ss_stats s)"
  using assms
  by (auto simp: send_attempt_def send_datagram_def client_open_def sendto_def action_defs Let_def
      receive_correlated_def expects_result_def)

lemma attempts_loop_silent:
  "expects_result p \<Longrightarrow> ss_recvs s = [] \<Longrightarrow> ss_sends s = [] \<Longrightarrow>
   \<exists>s'. attempts_loop p data rem tot att s = (s', Inl (cerr ''timed out waiting for correlated result'')) \<and>
     ss_wire s' = ss_wire s @ replicate (rem + 1) data \<and>
     cs_result_timeouts (ss_stats s') = cs_result_timeouts (ss_stats s) + int rem + 1 \<and>
     cs_retries (ss_stats s') = cs_retries (ss_stats s) + int rem"
proof (induction rem arbitrary: s tot att)
  case 0
  from send_attempt_silent [OF 0, of data tot att] show ?case
    by (subst attempts_loop.simps) (auto simp: Let_def is_timeout_def handled_by_def)
next
  case (Suc rem)
  obtain s1 where s1: "send_attempt p data tot att s = (s1, Inl (Exn SocketTimeout ''timed out''))"
    "ss_recvs s1 = []" "ss_sends s1 = []" "ss_wire s1 = ss_wire s @ [data]"
    "cs_result_timeouts (ss_stats s1) = cs_result_timeouts (ss_stats s)"
    "cs_retries (ss_stats s1) = cs_retries (ss_stats s)"
    using send_attempt_silent [OF Suc.prems] by blast
  let ?st = "(ss_stats s1)\<lparr> cs_result_timeouts := cs_result_timeouts (ss_stats s1) + 1,
      cs_last_error := Some ''timed out'' \<rparr>"
  let ?s2 = "s1\<lparr> ss_stats := ?st\<lparr> cs_retries := cs_retries ?st + 1 \<rparr> \<rparr>"
  have "attempts_loop p data (Suc rem) tot att s =
      attempts_loop p data rem (tot + int (length data)) (att + 1) ?s2"
    using s1(1) by (subst attempts_loop.simps) (simp add: Let_def is_timeout_def handled_by_def)
  moreover have "\<exists>s'. attempts_loop p data rem (tot + int (length data)) (att + 1) ?s2 =
        (s', Inl (cerr ''timed out waiting for correlated result'')) \<and>
      ss_wire s' = ss_wire ?s2 @ replicate (rem + 1) data \<and>
      cs_result_timeouts (ss_stats s') = cs_result_timeouts (ss_stats ?s2) + int rem + 1 \<and>
      cs_retries (ss_stats s') = cs_retries (ss_stats ?s2) + int rem"
    using Suc.prems s1(2,3) by (intro Suc.IH) simp_all
  ultimately show ?case using s1(4-6) by auto
qed

text \<open>
  A silent peer is given up on after exactly the configured effort. For a valid version-2 request other
  than PING on a probed session, if no reply ever comes, \<^verbatim>\<open>send_packet\<close> raises \<^verbatim>\<open>CommandClientError\<close> after
  sending the identical datagram \<open>1 + retries\<close> times, and the statistics show that many timeouts and
  \<open>retries\<close> retries.
\<close>

theorem silent_peer_gives_up:
  assumes "command_to_bytes p = Inr data" "expects_result p" "ss_peer_probe_sent s"
    and "ss_recvs s = []" "ss_sends s = []" "0 \<le> cl_retries (ss_config s)"
  shows "\<exists>s'. send_packet p s = (s', Inl (cerr ''timed out waiting for correlated result'')) \<and>
    ss_wire s' = ss_wire s @ replicate (nat (cl_retries (ss_config s)) + 1) data \<and>
    cs_result_timeouts (ss_stats s') = cs_result_timeouts (ss_stats s) + cl_retries (ss_config s) + 1 \<and>
    cs_retries (ss_stats s') = cs_retries (ss_stats s) + cl_retries (ss_config s)"
  using attempts_loop_silent [OF assms(2,4,5), of data "nat (cl_retries (ss_config s))" 0 1] assms
  by (simp add: send_packet_def ensure_peer_probe_def send_unprobed_def action_defs)

section \<open>Sequence numbers\<close>

fun draw_seqs :: "nat \<Rightarrow> session \<Rightarrow> int list" where
  "draw_seqs 0 s = []"
| "draw_seqs (Suc n) s =
     (case next_seq None s of (s', Inr q) \<Rightarrow> q # draw_seqs n s' | (s', Inl _) \<Rightarrow> [])"

lemma draw_seqs_eq:
  "0 \<le> ss_next_seq s \<Longrightarrow> ss_next_seq s < 2 ^ 32 \<Longrightarrow>
   draw_seqs n s = map (\<lambda>i. (ss_next_seq s + int i) mod 2 ^ 32) [0..<n]"
proof (induction n arbitrary: s)
  case (Suc n)
  let ?s = "s\<lparr> ss_next_seq := (ss_next_seq s + 1) AND MAX_U32 \<rparr>"
  have nx: "ss_next_seq ?s = (ss_next_seq s + 1) mod 2 ^ 32" by (simp add: MAX_U32_def and_mask32)
  have "draw_seqs n ?s = map (\<lambda>i. ((ss_next_seq s + 1) mod 2 ^ 32 + int i) mod 2 ^ 32) [0..<n]"
    using Suc.IH [of ?s] nx by simp
  also have "\<dots> = map (\<lambda>i. (ss_next_seq s + int i) mod 2 ^ 32) [1..<Suc n]"
    by (simp add: map_Suc_upt [symmetric] mod_add_left_eq add.assoc del: upt_Suc)
  finally show ?case
    using Suc.prems by (simp add: next_seq_def upt_conv_Cons del: upt_Suc)
qed simp

text \<open>
  Automatic sequence numbers. From a fresh client the numbers drawn without an explicit sequence are the
  configured start and its successors modulo \<open>2 ^ 32\<close>; they always fit the request field and no number
  repeats within \<open>2 ^ 32\<close> draws.
\<close>

theorem sequence_numbers_fresh:
  assumes "CommandClient config resolved sends recvs = Inr s" "int n \<le> 2 ^ 32"
  shows "draw_seqs n s = map (\<lambda>i. (cl_sequence_start config + int i) mod 2 ^ 32) [0..<n] \<and>
    distinct (draw_seqs n s)"
proof -
  have start: "0 \<le> cl_sequence_start config" "cl_sequence_start config < 2 ^ 32"
      "ss_next_seq s = cl_sequence_start config"
    using assms(1)
    by (auto simp: CommandClient_def validate_client_config_def result_simps MAX_U32_def and_mask32)
  then have eq: "draw_seqs n s = map (\<lambda>i. (cl_sequence_start config + int i) mod 2 ^ 32) [0..<n]"
    using draw_seqs_eq [of s n] by simp
  have "inj_on (\<lambda>i. (cl_sequence_start config + int i) mod 2 ^ 32) {0..<n}"
  proof (rule inj_onI)
    fix i j
    assume ij: "i \<in> {0..<n}" "j \<in> {0..<n}"
      and "(cl_sequence_start config + int i) mod 2 ^ 32 = (cl_sequence_start config + int j) mod 2 ^ 32"
    then have "2 ^ 32 dvd int i - int j" by (simp add: mod_eq_dvd_iff)
    then obtain k where "int i - int j = 2 ^ 32 * k" by blast
    moreover have "\<bar>int i - int j\<bar> < 2 ^ 32" using ij assms(2) by auto
    ultimately have "k = 0" by (auto simp: abs_mult)
    with \<open>int i - int j = 2 ^ 32 * k\<close> show "i = j" by simp
  qed
  with eq show ?thesis by (simp add: distinct_map)
qed

section \<open>Witnesses\<close>

definition example_request :: command_packet where
  "example_request =
     \<lparr> cp_cmd_type = 14, cp_seq = 5, cp_arg0 = 0, cp_arg1 = 0, cp_arg2 = 0, cp_crc32 = 0, cp_version = 2 \<rparr>"

definition example_reply :: command_result where
  "example_reply =
     \<lparr> cr_cmd_type = 14, cr_seq = 5, cr_disposition = 1, cr_reject_reason = 0, cr_fpga_status = 3,
       cr_csr_version = 0x10008, cr_crc32 = 0 \<rparr>"

definition example_session :: "recv_outcome list \<Rightarrow> session" where
  "example_session script =
     \<lparr> ss_config = default_client_config, ss_stats = client_stats_init, ss_open = True, ss_next_seq = 1,
       ss_peer_probe_sent = True, ss_expected_source_host = ''10.0.0.2'', ss_resolved_host = ''10.0.0.2'',
       ss_sends = [], ss_recvs = script, ss_wire = [], ss_sent_packets = [] \<rparr>"

lemma example_request_valid: "command_valid example_request" "expects_result example_request"
  by (simp_all add: command_valid_def validate_command_packet_def example_request_def command_type_id
      checks.simps COMMAND_VERSIONS_SUPPORTED_def COMMAND_VERSION_V1_def COMMAND_VERSION_V2_def version_types
      check_u32_def MAX_U32_def validate_command_args_def require_zero_def expects_result_def)

lemma example_reply_valid: "result_valid example_reply"
  by (simp add: result_valid_def validate_command_result_def example_reply_def command_type_id checks.simps
      check_u32_def MAX_U32_def COMMAND_DISPOSITION_NAMES_def COMMAND_DISPOSITIONS_def
      COMMAND_REJECT_REASON_NAMES_def COMMAND_REJECT_REASONS_def)


lemma default_client_ok: "\<exists>s. CommandClient default_client_config ''10.0.0.2'' [] [] = Inr s"
  by (simp add: CommandClient_def validate_client_config_def default_client_config_def checks.simps
      COMMAND_VERSIONS_SUPPORTED_def COMMAND_VERSION_CURRENT_def check_u32_def MAX_U32_def)

theorem ping_before_commands_witness:
  "\<exists>s. CommandClient default_client_config ''10.0.0.2'' [] [] = Inr s \<and>
     probe_before False (ss_wire (foldl client_step s
       [Send (CmdName ''CLEAR_METRICS'') None 0 0 0, SendPacket example_request]))"
proof -
  obtain s where s: "CommandClient default_client_config ''10.0.0.2'' [] [] = Inr s"
    using default_client_ok by blast
  from ping_before_commands [OF s] s show ?thesis by blast
qed

theorem silent_peer_gives_up_witness:
  "\<exists>s' data. command_to_bytes example_request = Inr data \<and>
     send_packet example_request (example_session []) =
       (s', Inl (cerr ''timed out waiting for correlated result'')) \<and>
     ss_wire s' = [data, data, data]"
proof -
  obtain data where data: "command_to_bytes example_request = Inr data"
    using command.enc_total [OF example_request_valid(1)] by blast
  have env: "ss_peer_probe_sent (example_session [])" "ss_recvs (example_session []) = []"
    "ss_sends (example_session []) = []" "0 \<le> cl_retries (ss_config (example_session []))"
    by (simp_all add: example_session_def default_client_config_def)
  from silent_peer_gives_up [OF data example_request_valid(2) env] data show ?thesis
    by (auto simp: example_session_def default_client_config_def numeral_eq_Suc)
qed

theorem sequence_numbers_fresh_witness:
  "\<exists>s. CommandClient default_client_config ''10.0.0.2'' [] [] = Inr s \<and> draw_seqs 3 s = [1, 2, 3]"
proof -
  obtain s where s: "CommandClient default_client_config ''10.0.0.2'' [] [] = Inr s"
    using default_client_ok by blast
  from sequence_numbers_fresh [OF s, of 3] s show ?thesis
    by (auto simp: default_client_config_def upt_rec)
qed

end
