(* ===== verification/Live_Commands.thy ===== *)
theory Live_Commands
  imports Command_Client "HOL-Library.Multiset" "HOL-Library.Sublist"
begin

text \<open>
  The live command controller, \<^verbatim>\<open>LiveCommandController\<close> of \<^verbatim>\<open>sw/pc_dashboard/trecap_dashboard/dashboard.py\<close>: a
  bounded request queue filled by the user-interface thread and served by one worker thread that owns a
  \<open>Command_Client.session\<close>, and a bounded queue of outcomes that drops its oldest entry when full.

  \<open>controller\<close> is the object; \<open>lc_worker\<close> is the program counter of the worker thread. Two fields are logs that
  no operation reads: \<open>lc_submitted\<close> has the request of every \<^verbatim>\<open>submit\<close> call and \<open>lc_published\<close> every outcome
  handed to \<^verbatim>\<open>_publish\<close>. Readings of \<^verbatim>\<open>time.time_ns()\<close> are arguments. \<open>lc_step\<close> is the interleaving of the two
  threads: the worker's steps and the user-interface calls, where the parts of \<^verbatim>\<open>stop\<close>, which waits for the worker
  in between, are steps of their own. The sections under a lock and the queue operations are atomic; a client call is one
  step, and what a socket closed under it would raise is one of the outcomes of the session's receive script.
\<close>

section \<open>Requests and outcomes\<close>

datatype ui_value = UNone | UInt int | UStr string | UBool bool

record live_request =
  lq_action :: string
  lq_value :: ui_value
  lq_requested_time_ns :: int

record live_outcome =
  lo_request :: live_request
  lo_ok :: bool
  lo_summary :: string
  lo_completed_time_ns :: int
  lo_send_result :: "send_result option"
  lo_state :: string

definition is_terminal :: "live_outcome \<Rightarrow> bool" where
  "is_terminal out \<longleftrightarrow> lo_state out \<in> {''completed'', ''failed''}"

definition failed_outcome :: "live_request \<Rightarrow> string \<Rightarrow> int \<Rightarrow> live_outcome" where
  "failed_outcome request summary now =
     \<lparr> lo_request = request, lo_ok = False, lo_summary = summary, lo_completed_time_ns = now,
       lo_send_result = None, lo_state = ''failed'' \<rparr>"

definition running_outcome :: "live_request \<Rightarrow> int \<Rightarrow> live_outcome" where
  "running_outcome request now =
     \<lparr> lo_request = request, lo_ok = True, lo_summary = lq_action request @ '' running'',
       lo_completed_time_ns = now, lo_send_result = None, lo_state = ''running'' \<rparr>"

definition worker_request :: "int \<Rightarrow> live_request" where
  "worker_request now = \<lparr> lq_action = ''WORKER'', lq_value = UNone, lq_requested_time_ns = now \<rparr>"

section \<open>Dispatch to the client\<close>

definition NO_VALUE_ACTIONS :: "(string \<times> string) list" where
  "NO_VALUE_ACTIONS =
     [(''PING'', ''ping''), (''CLEAR_METRICS'', ''clear_metrics''),
      (''CONFIGURE_DDR_RING'', ''configure_ddr_ring''), (''RESET_TRANSPORT'', ''reset_transport''),
      (''CLEAR_COUNTERS'', ''clear_counters''), (''START_BRAM_REPLAY'', ''start_bram_replay''),
      (''READ_STATUS_VERSION'', ''read_status_version'')]"

definition VALUE_ACTIONS :: "(string \<times> string) list" where
  "VALUE_ACTIONS =
     [(''SET_THR2'', ''set_thr2''), (''SET_SOURCE_MODE'', ''set_source_mode''),
      (''SET_PACKET_ENABLE'', ''set_packet_enable''), (''SET_WAVE_DECIM'', ''set_wave_decim''),
      (''SET_SPEC_SHIFT'', ''set_spec_shift''), (''SET_SPEC_MODE'', ''set_spec_mode''),
      (''SET_TELEMETRY_ENABLE'', ''set_telemetry_enable'')]"

definition supported :: "string \<Rightarrow> bool" where
  "supported action \<longleftrightarrow> map_of NO_VALUE_ACTIONS action \<noteq> None \<or> map_of VALUE_ACTIONS action \<noteq> None"

text \<open>\<^verbatim>\<open>int(value)\<close>, which every client method applies to its argument.\<close>

definition py_int :: "ui_value \<Rightarrow> int result" where
  "py_int v =
     (case v of
        UInt i \<Rightarrow> Inr i
      | UBool b \<Rightarrow> Inr (of_bool b)
      | UStr s \<Rightarrow> (case py_int10 s of Some i \<Rightarrow> Inr i
                 | None \<Rightarrow> Inl (Exn ValueError ''invalid literal for int() with base 10''))
      | UNone \<Rightarrow> Inl (Exn TypeError ''int() argument must be a string or a number''))"

definition with_int :: "(int \<Rightarrow> int option \<Rightarrow> send_result action) \<Rightarrow> ui_value \<Rightarrow> send_result action" where
  "with_int m v = sbind (lift (py_int v)) (\<lambda>i. m i None)"

text \<open>\<^verbatim>\<open>set_packet_enable\<close> takes an integer as a mask and anything else as names.\<close>

definition set_packet_enable_value :: "ui_value \<Rightarrow> send_result action" where
  "set_packet_enable_value v =
     (case v of UStr s \<Rightarrow> set_packet_enable_names s None | _ \<Rightarrow> with_int set_packet_enable v)"

definition no_value_methods :: "(string \<times> send_result action) list" where
  "no_value_methods =
     [(''ping'', ping None 0 0 0), (''clear_metrics'', clear_metrics None),
      (''configure_ddr_ring'', configure_ddr_ring None), (''reset_transport'', reset_transport None),
      (''clear_counters'', clear_counters None), (''start_bram_replay'', start_bram_replay None),
      (''read_status_version'', read_status_version None)]"

definition value_methods :: "(string \<times> (ui_value \<Rightarrow> send_result action)) list" where
  "value_methods =
     [(''set_thr2'', with_int set_thr2), (''set_source_mode'', with_int set_source_mode),
      (''set_packet_enable'', set_packet_enable_value), (''set_wave_decim'', with_int set_wave_decim),
      (''set_spec_shift'', with_int set_spec_shift), (''set_spec_mode'', with_int set_spec_mode),
      (''set_telemetry_enable'', with_int set_telemetry_enable)]"

definition py_getattr :: "(string \<times> 'm) list \<Rightarrow> string \<Rightarrow> 'm result" where
  "py_getattr ms name =
     (case map_of ms name of Some m \<Rightarrow> Inr m | None \<Rightarrow> Inl (Exn AttributeError name))"

definition py_lookup :: "(string \<times> 'm) list \<Rightarrow> string \<Rightarrow> 'm result" where
  "py_lookup d key = (case map_of d key of Some m \<Rightarrow> Inr m | None \<Rightarrow> Inl (Exn KeyError key))"

text \<open>The body of the \<^verbatim>\<open>try\<close> of \<^verbatim>\<open>_execute\<close>.\<close>

definition call_client :: "live_request \<Rightarrow> send_result action" where
  "call_client request =
     (if map_of NO_VALUE_ACTIONS (lq_action request) \<noteq> None
      then
        if lq_value request \<noteq> UNone
        then sraise (Exn ValueError (lq_action request @ '' does not accept a value''))
        else
          sbind (lift (py_lookup NO_VALUE_ACTIONS (lq_action request))) (\<lambda>name.
          sbind (lift (py_getattr no_value_methods name)) (\<lambda>m. m))
      else
        if lq_value request = UNone
        then sraise (Exn ValueError (lq_action request @ '' requires a value''))
        else
          sbind (lift (py_lookup VALUE_ACTIONS (lq_action request))) (\<lambda>name.
          sbind (lift (py_getattr value_methods name)) (\<lambda>m. m (lq_value request))))"

definition command_result_succeeded :: "send_result \<Rightarrow> bool" where
  "command_result_succeeded sr = (case sr_result sr of None \<Rightarrow> True | Some r \<Rightarrow> succeeded r)"

text \<open>
  The one-line summary. Packets and results that reach it were validated, so their names exist and the
  hexadecimal fields have eight digits.
\<close>

definition format_command_result :: "send_result \<Rightarrow> string" where
  "format_command_result sr =
     (let command_name = (case command_name (CmdId (cp_cmd_type (sr_packet sr))) of Inr n \<Rightarrow> n | Inl _ \<Rightarrow> ''command'');
          seq = py_str_int (cp_seq (sr_packet sr)); attempts = py_str_int (int (sr_attempts sr)) in
      case sr_diagnostic_status sr of
        Some diagnostic \<Rightarrow>
          command_name @ '' seq='' @ seq @ '' diagnostic STATUS bytes='' @ py_str_int (int (length diagnostic))
      | None \<Rightarrow>
          (case sr_result sr of
             None \<Rightarrow>
               command_name @ '' seq='' @ seq @ (if sr_dry_run sr then '' dry-run'' else '' sent/unconfirmed'') @
               '' attempts='' @ attempts
           | Some r \<Rightarrow>
               command_name @ '' seq='' @ seq @ '' '' @
               (case map_of COMMAND_DISPOSITION_NAMES (cr_disposition r) of Some n \<Rightarrow> n | None \<Rightarrow> ''UNKNOWN'') @
               '' reason='' @
               (case map_of COMMAND_REJECT_REASON_NAMES (cr_reject_reason r) of Some n \<Rightarrow> n | None \<Rightarrow> ''UNKNOWN'') @
               '' status=0x'' @ hex_fixed 8 (cr_fpga_status r) @ '' version=0x'' @ hex_fixed 8 (cr_csr_version r) @
               '' attempts='' @ attempts))"

section \<open>The controller\<close>

text \<open>
  Where the worker thread is: before \<^verbatim>\<open>client.open()\<close>, at the loop test, in \<^verbatim>\<open>requests.get\<close>, in a client call, and in
  the three statements of the \<^verbatim>\<open>finally\<close> block.
\<close>

datatype worker = NoThread | Starting | Looping | Waiting | Running live_request
  | Finalising | Draining | Closing | Finished

record controller =
  lc_client :: session
  lc_requests :: "live_request list"
  lc_requests_max :: nat
  lc_outcomes :: "live_outcome list"
  lc_outcomes_max :: nat
  lc_stop_event :: bool
  lc_thread :: bool
  lc_worker :: worker
  lc_client_closed :: bool
  lc_accepting :: bool
  lc_queue_drop_count :: int
  lc_submitted :: "live_request list"
  lc_published :: "live_outcome list"

definition LiveCommandController :: "session \<Rightarrow> int \<Rightarrow> controller result" where
  "LiveCommandController client queue_size =
     (if queue_size < 1 then Inl (Exn ValueError ''command queue_size must be >= 1'')
      else Inr \<lparr> lc_client = client, lc_requests = [], lc_requests_max = nat queue_size,
        lc_outcomes = [], lc_outcomes_max = nat (max 8 (queue_size * 2)), lc_stop_event = False,
        lc_thread = False, lc_worker = NoThread, lc_client_closed = False, lc_accepting = False,
        lc_queue_drop_count = 0, lc_submitted = [], lc_published = [] \<rparr>)"

definition is_alive :: "worker \<Rightarrow> bool" where
  "is_alive w \<longleftrightarrow> w \<noteq> NoThread \<and> w \<noteq> Finished"

definition is_running :: "controller \<Rightarrow> bool" where
  "is_running c \<longleftrightarrow> lc_thread c \<and> is_alive (lc_worker c)"

text \<open>\<^verbatim>\<open>_publish\<close>: put, or drop the oldest outcome and try once more.\<close>

definition publish :: "live_outcome \<Rightarrow> controller \<Rightarrow> controller" where
  "publish out c =
     (let q = lc_outcomes c;
          q = (if length q < lc_outcomes_max c then q @ [out]
               else let q = tl q in if length q < lc_outcomes_max c then q @ [out] else q) in
      c\<lparr> lc_outcomes := q, lc_published := lc_published c @ [out] \<rparr>)"

definition controller_start :: "bool \<Rightarrow> controller \<Rightarrow> controller \<times> exn option" where
  "controller_start spawned c =
     (if is_running c then (c, None)
      else
        let c = c\<lparr> lc_stop_event := False, lc_client_closed := False, lc_thread := True, lc_accepting := True \<rparr> in
        if spawned then (c\<lparr> lc_worker := Starting \<rparr>, None)
        else (c\<lparr> lc_accepting := False, lc_thread := False \<rparr>, Some (Exn RuntimeError ''can't start new thread'')))"

definition submit :: "int \<Rightarrow> int \<Rightarrow> string \<Rightarrow> ui_value \<Rightarrow> controller \<Rightarrow> controller \<times> bool" where
  "submit requested now action v c =
     (let request = \<lparr> lq_action = normalize_name action, lq_value = v, lq_requested_time_ns = requested \<rparr>;
          c = c\<lparr> lc_submitted := lc_submitted c @ [request] \<rparr> in
      if \<not> supported (normalize_name action)
      then (publish (failed_outcome request (''unsupported live command: '' @ normalize_name action) now) c, False)
      else if lc_accepting c \<and> lc_thread c \<and> is_alive (lc_worker c)
      then
        if length (lc_requests c) < lc_requests_max c
        then (c\<lparr> lc_requests := lc_requests c @ [request] \<rparr>, True)
        else
          (publish (failed_outcome request ''command queue full; request not sent'' now)
             (c\<lparr> lc_queue_drop_count := lc_queue_drop_count c + 1 \<rparr>), False)
      else (publish (failed_outcome request ''command worker unavailable; request not sent'' now) c, False))"

definition poll :: "int \<Rightarrow> controller \<Rightarrow> controller \<times> live_outcome list result" where
  "poll max_items c =
     (if max_items < 1 then (c, Inl (Exn ValueError ''max_items must be >= 1''))
      else (c\<lparr> lc_outcomes := drop (nat max_items) (lc_outcomes c) \<rparr>,
            Inr (take (nat max_items) (lc_outcomes c))))"

text \<open>\<^verbatim>\<open>_execute\<close> in its two halves: the announcement, and the client call with its outcome.\<close>

definition announce :: "int \<Rightarrow> live_request \<Rightarrow> controller \<Rightarrow> controller" where
  "announce now request = publish (running_outcome request now)"

definition complete :: "int \<Rightarrow> live_request \<Rightarrow> controller \<Rightarrow> controller" where
  "complete now request c =
     (case call_client request (lc_client c) of
        (s, Inr sent) \<Rightarrow>
          publish \<lparr> lo_request = request, lo_ok = command_result_succeeded sent,
                    lo_summary = format_command_result sent, lo_completed_time_ns = now,
                    lo_send_result = Some sent, lo_state = ''completed'' \<rparr> (c\<lparr> lc_client := s \<rparr>)
      | (s, Inl e) \<Rightarrow>
          publish (failed_outcome request (lq_action request @ '' failed: '' @ exn_msg e) now)
            (c\<lparr> lc_client := s \<rparr>))"

definition execute :: "int \<Rightarrow> int \<Rightarrow> live_request \<Rightarrow> controller \<Rightarrow> controller" where
  "execute now later request c = complete later request (announce now request c)"

definition STOPPED :: string where
  "STOPPED = ''command worker stopped before request was sent''"

text \<open>One iteration of \<^verbatim>\<open>_fail_pending\<close>, and the loop, which ends with the queue empty.\<close>

definition fail_one :: "int \<Rightarrow> string \<Rightarrow> controller \<Rightarrow> controller" where
  "fail_one now summary c =
     (case lc_requests c of
        [] \<Rightarrow> c
      | r # rs \<Rightarrow> publish (failed_outcome r summary now) (c\<lparr> lc_requests := rs \<rparr>))"

definition client_close :: "session \<Rightarrow> session" where
  "client_close s = s\<lparr> ss_open := False \<rparr>"

definition close_client_once :: "controller \<Rightarrow> controller" where
  "close_client_once c =
     (if lc_client_closed c then c
      else c\<lparr> lc_client := client_close (lc_client c), lc_client_closed := True \<rparr>)"

text \<open>One step of the worker thread; \<open>open_error\<close> is what \<^verbatim>\<open>client.open()\<close> raises, if it does.\<close>

definition worker_step :: "string option \<Rightarrow> int \<Rightarrow> controller \<Rightarrow> controller" where
  "worker_step open_error now c =
     (case lc_worker c of
        NoThread \<Rightarrow> c
      | Starting \<Rightarrow>
          (case open_error of
             None \<Rightarrow> c\<lparr> lc_client := fst (client_open (lc_client c)), lc_worker := Looping \<rparr>
           | Some msg \<Rightarrow>
               publish (failed_outcome (worker_request now) (''command worker failed: '' @ msg) now)
                 (c\<lparr> lc_worker := Finalising \<rparr>))
      | Looping \<Rightarrow> c\<lparr> lc_worker := (if lc_stop_event c then Finalising else Waiting) \<rparr>
      | Waiting \<Rightarrow>
          (case lc_requests c of
             [] \<Rightarrow> c\<lparr> lc_worker := Looping \<rparr>
           | r # rs \<Rightarrow> announce now r (c\<lparr> lc_requests := rs, lc_worker := Running r \<rparr>))
      | Running r \<Rightarrow> complete now r (c\<lparr> lc_worker := Looping \<rparr>)
      | Finalising \<Rightarrow> c\<lparr> lc_accepting := False, lc_worker := Draining \<rparr>
      | Draining \<Rightarrow>
          if lc_requests c = [] then c\<lparr> lc_worker := Closing \<rparr> else fail_one now STOPPED c
      | Closing \<Rightarrow> (close_client_once c)\<lparr> lc_worker := Finished \<rparr>
      | Finished \<Rightarrow> c)"

text \<open>The parts of \<^verbatim>\<open>stop\<close>.\<close>

definition stop_signal :: "controller \<Rightarrow> controller" where
  "stop_signal c = c\<lparr> lc_stop_event := True, lc_accepting := False \<rparr>"

definition forget_thread :: "controller \<Rightarrow> controller" where
  "forget_thread c = (if is_alive (lc_worker c) then c else c\<lparr> lc_thread := False \<rparr>)"

definition report_stuck :: "int \<Rightarrow> controller \<Rightarrow> controller" where
  "report_stuck now c =
     (if is_alive (lc_worker c)
      then publish (failed_outcome (worker_request now) ''command worker did not stop before the shutdown deadline'' now) c
      else c)"

inductive lc_step :: "controller \<Rightarrow> controller \<Rightarrow> bool" where
  worker: "lc_step c (worker_step open_error now c)"
| start: "lc_step c (fst (controller_start spawned c))"
| submit: "lc_step c (fst (submit requested now action v c))"
| poll: "lc_step c (fst (poll max_items c))"
| stop: "lc_step c (stop_signal c)"
| stop_fail: "lc_stop_event c \<Longrightarrow> lc_step c (fail_one now STOPPED c)"
| stop_close: "lc_stop_event c \<Longrightarrow> lc_step c (close_client_once c)"
| stop_forget: "lc_stop_event c \<Longrightarrow> lc_step c (forget_thread c)"
| stop_report: "lc_stop_event c \<Longrightarrow> lc_step c (report_stuck now c)"

section \<open>What a client call keeps\<close>

lemmas keeps_intros = keeps_sbind keeps_pure keeps_send_command

lemma keeps_read_status_version: "keeps (read_status_version q)"
  unfolding read_status_version_def by (intro keeps_intros) (auto simp: keeps_pure)

lemma keeps_set_methods:
  "keeps (set_thr2 i q)" "keeps (set_source_mode i q)" "keeps (set_packet_enable i q)" "keeps (set_wave_decim i q)"
  "keeps (set_spec_shift i q)" "keeps (set_spec_mode i q)" "keeps (set_telemetry_enable i q)"
  "keeps (set_packet_enable_names n q)"
  unfolding set_thr2_def set_source_mode_def set_packet_enable_def set_wave_decim_def set_spec_shift_def
    set_spec_mode_def set_telemetry_enable_def set_packet_enable_names_def
  by (intro keeps_intros | simp add: keeps_intros split: prod.splits)+

lemma keeps_ping: "keeps (ping q a0 a1 a2)"
  unfolding ping_def by (intro keeps_send_ref keeps_pure)

lemma keeps_no_value: "m \<in> snd ` set no_value_methods \<Longrightarrow> keeps m"
  by (auto simp: no_value_methods_def keeps_ping keeps_read_status_version clear_metrics_def configure_ddr_ring_def
      reset_transport_def clear_counters_def start_bram_replay_def keeps_send_command)

lemma keeps_with_int: "(\<And>i q. keeps (m i q)) \<Longrightarrow> keeps (with_int m v)"
  unfolding with_int_def by (intro keeps_intros) 

lemma keeps_value: "m \<in> snd ` set value_methods \<Longrightarrow> keeps (m v)"
  by (auto simp: value_methods_def set_packet_enable_value_def keeps_with_int keeps_set_methods split: ui_value.splits)

lemma keeps_getattr:
  assumes "\<And>m. m \<in> snd ` set ms \<Longrightarrow> keeps (f m)"
  shows "keeps (sbind (lift (py_getattr ms name)) f)"
proof (cases "map_of ms name")
  case (Some m)
  then have "m \<in> snd ` set ms" by (auto dest: map_of_SomeD intro: rev_image_eqI)
  with assms Some show ?thesis by (simp add: keeps_def sbind_def lift_def py_getattr_def)
qed (simp add: keeps_def sbind_def lift_def py_getattr_def)

lemma keeps_call_client: "keeps (call_client r)"
proof -
  have "keeps (sbind (lift x) (\<lambda>name. sbind (lift (py_getattr no_value_methods name)) (\<lambda>m. m)))" for x
    by (intro keeps_sbind keeps_pure keeps_getattr keeps_no_value)
  moreover have "keeps (sbind (lift x) (\<lambda>name. sbind (lift (py_getattr value_methods name)) (\<lambda>m. m v)))" for x v
    by (rule keeps_sbind [OF keeps_pure(1)], rule keeps_getattr, rule keeps_value)
  ultimately show ?thesis by (simp add: call_client_def keeps_pure)
qed

section \<open>The invariant\<close>

definition in_flight :: "controller \<Rightarrow> live_request list" where
  "in_flight c = (case lc_worker c of Running r \<Rightarrow> [r] | _ \<Rightarrow> [])"

text \<open>Requests with a terminal outcome and requests announced as running, in the order of their outcomes.\<close>

definition settled :: "live_outcome list \<Rightarrow> live_request list" where
  "settled outs = map lo_request (filter is_terminal outs)"

definition started :: "live_outcome list \<Rightarrow> live_request list" where
  "started outs = map lo_request (filter (\<lambda>out. lo_state out = ''running'') outs)"

text \<open>The controller's own failure reports carry the pseudo-action \<^verbatim>\<open>WORKER\<close>, which no request can have.\<close>

definition from_user :: "live_request \<Rightarrow> bool" where
  "from_user r \<longleftrightarrow> lq_action r \<noteq> ''WORKER''"

definition users :: "live_request list \<Rightarrow> live_request multiset" where
  "users rs = mset (filter from_user rs)"

definition accounted :: "controller \<Rightarrow> bool" where
  "accounted c \<longleftrightarrow> users (settled (lc_published c)) + users (in_flight c) + users (lc_requests c) = users (lc_submitted c)"

definition serial :: "controller \<Rightarrow> bool" where
  "serial c \<longleftrightarrow> subseq (started (lc_published c) @ lc_requests c) (lc_submitted c)"

definition phase_ok :: "controller \<Rightarrow> bool" where
  "phase_ok c \<longleftrightarrow>
     (is_alive (lc_worker c) \<longrightarrow> lc_thread c) \<and>
     (lc_worker c \<in> {NoThread, Draining, Closing, Finished} \<longrightarrow> \<not> lc_accepting c) \<and>
     (lc_worker c \<in> {NoThread, Closing, Finished} \<longrightarrow> lc_requests c = [])"

definition queues_ok :: "controller \<Rightarrow> bool" where
  "queues_ok c \<longleftrightarrow>
     length (lc_requests c) \<le> lc_requests_max c \<and> 8 \<le> lc_outcomes_max c \<and>
     length (lc_outcomes c) \<le> lc_outcomes_max c \<and> suffix (lc_outcomes c) (lc_published c)"

definition controller_ok :: "controller \<Rightarrow> bool" where
  "controller_ok c \<longleftrightarrow> accounted c \<and> serial c \<and> phase_ok c \<and> queues_ok c \<and> session_ok (lc_client c)"

lemma users_simps [simp]:
  "users [] = {#}" "users (xs @ ys) = users xs + users ys"
  "users (r # rs) = (if from_user r then {#r#} else {#}) + users rs"
  by (simp_all add: users_def)

lemma settled_simps [simp]:
  "settled [] = []" "settled (outs @ outs') = settled outs @ settled outs'"
  "settled [failed_outcome r m t] = [r]" "settled [running_outcome r t] = []"
  by (simp_all add: settled_def is_terminal_def failed_outcome_def running_outcome_def)

lemma started_simps [simp]:
  "started [] = []" "started (outs @ outs') = started outs @ started outs'"
  "started [failed_outcome r m t] = []" "started [running_outcome r t] = [r]"
  by (simp_all add: started_def failed_outcome_def running_outcome_def)

lemma worker_request_not_user [simp]: "\<not> from_user (worker_request t)"
  by (simp add: worker_request_def from_user_def)

text \<open>What publishing changes: the log grows by one outcome and the queue stays a bounded suffix of it.\<close>

lemma publish_fields [simp]:
  "lc_published (publish out c) = lc_published c @ [out]" "lc_requests (publish out c) = lc_requests c"
  "lc_worker (publish out c) = lc_worker c" "lc_submitted (publish out c) = lc_submitted c"
  "lc_client (publish out c) = lc_client c" "lc_accepting (publish out c) = lc_accepting c"
  "lc_thread (publish out c) = lc_thread c" "lc_requests_max (publish out c) = lc_requests_max c"
  "lc_stop_event (publish out c) = lc_stop_event c" "lc_client_closed (publish out c) = lc_client_closed c"
  "lc_outcomes_max (publish out c) = lc_outcomes_max c" "in_flight (publish out c) = in_flight c"
  by (simp_all add: publish_def Let_def in_flight_def)

lemma suffix_snoc: "suffix xs ys \<Longrightarrow> suffix (xs @ [y]) (ys @ [y])"
  by (auto simp: suffix_def)

lemma suffix_tl: "suffix xs ys \<Longrightarrow> suffix (tl xs) ys"
  by (meson suffix_order.trans suffix_tl)

lemma queues_publish: "queues_ok c \<Longrightarrow> queues_ok (publish out c)"
proof -
  assume ok: "queues_ok c"
  then have q: "length (lc_outcomes c) \<le> lc_outcomes_max c" "8 \<le> lc_outcomes_max c"
      "suffix (lc_outcomes c) (lc_published c)"
    by (simp_all add: queues_ok_def)
  have "lc_outcomes (publish out c) =
      (if length (lc_outcomes c) < lc_outcomes_max c then lc_outcomes c else tl (lc_outcomes c)) @ [out]"
    using q by (simp add: publish_def Let_def)
  with q have "length (lc_outcomes (publish out c)) \<le> lc_outcomes_max c \<and>
      suffix (lc_outcomes (publish out c)) (lc_published c @ [out])"
    by (auto intro!: suffix_snoc suffix_tl)
  with ok show ?thesis by (simp add: queues_ok_def)
qed

lemma submitted_field [simp]: "in_flight (c\<lparr> lc_submitted := rs \<rparr>) = in_flight c"
  "in_flight (c\<lparr> lc_queue_drop_count := n \<rparr>) = in_flight c" "in_flight (c\<lparr> lc_requests := rs \<rparr>) = in_flight c"
  "in_flight (c\<lparr> lc_client := s \<rparr>) = in_flight c" "in_flight (c\<lparr> lc_outcomes := os \<rparr>) = in_flight c"
  "in_flight (c\<lparr> lc_accepting := b \<rparr>) = in_flight c" "in_flight (c\<lparr> lc_client_closed := b \<rparr>) = in_flight c"
  "in_flight (c\<lparr> lc_stop_event := b \<rparr>) = in_flight c" "in_flight (c\<lparr> lc_thread := b \<rparr>) = in_flight c"
  "in_flight (c\<lparr> lc_worker := w \<rparr>) = (case w of Running r \<Rightarrow> [r] | _ \<Rightarrow> [])"
  by (simp_all add: in_flight_def)

lemma controller_ok_simps:
  "controller_ok c \<longleftrightarrow> accounted c \<and> serial c \<and> phase_ok c \<and> queues_ok c \<and> session_ok (lc_client c)"
  by (simp add: controller_ok_def)

lemmas ok_defs = accounted_def serial_def phase_ok_def

lemma subseq_drop_middle: "subseq (xs @ y # ys) zs \<Longrightarrow> subseq (xs @ ys) zs"
proof -
  have "subseq (xs @ ys) (xs @ [y] @ ys)" 
    by (intro list_emb_append_mono subseq_order.refl list_emb_append2)
  then have "subseq (xs @ ys) (xs @ y # ys)" by simp
  then show "subseq (xs @ y # ys) zs \<Longrightarrow> ?thesis" by (rule subseq_order.trans)
qed

lemma subseq_snoc: "subseq xs ys \<Longrightarrow> subseq (xs @ [z]) (ys @ [z])"
  by (simp add: list_emb_append_mono)

lemma subseq_more: "subseq xs ys \<Longrightarrow> subseq xs (ys @ zs)"
  using list_emb_append_mono [of "(=)" xs ys "[]" zs] by simp

lemma new_controller_ok:
  "LiveCommandController client n = Inr c \<Longrightarrow> session_ok client \<Longrightarrow> controller_ok c"
  by (auto simp: LiveCommandController_def controller_ok_def ok_defs queues_ok_def in_flight_def is_alive_def
      split: if_splits)

lemma queues_of_fields:
  "queues_ok c \<Longrightarrow> lc_requests c' = lc_requests c \<Longrightarrow> lc_requests_max c' = lc_requests_max c \<Longrightarrow>
   lc_outcomes_max c' = lc_outcomes_max c \<Longrightarrow> lc_outcomes c' = lc_outcomes c \<Longrightarrow>
   lc_published c' = lc_published c \<Longrightarrow> queues_ok c'"
  by (simp add: queues_ok_def)

lemma fail_one_ok: "controller_ok c \<Longrightarrow> controller_ok (fail_one now m c)"
proof (cases "lc_requests c")
  case (Cons r rs)
  assume ok: "controller_ok c"
  then have "queues_ok (c\<lparr> lc_requests := rs \<rparr>)" using Cons by (auto simp: controller_ok_def queues_ok_def)
  with ok Cons show ?thesis
    by (auto simp: fail_one_def controller_ok_def ok_defs queues_publish ac_simps dest: subseq_drop_middle)
qed (simp add: fail_one_def)

lemma submit_ok: "controller_ok c \<Longrightarrow> controller_ok (fst (submit t now a v c))"
proof -
  assume ok: "controller_ok c"
  define r where "r = \<lparr> lq_action = normalize_name a, lq_value = v, lq_requested_time_ns = t \<rparr>"
  define c1 where "c1 = c\<lparr> lc_submitted := lc_submitted c @ [r] \<rparr>"
  have drop: "controller_ok (publish (failed_outcome r m now) (c1\<lparr> lc_queue_drop_count := n \<rparr>))" for m n
  proof -
    have "queues_ok (c1\<lparr> lc_queue_drop_count := n \<rparr>)"
      using ok by (simp add: controller_ok_def queues_ok_def c1_def)
    then show ?thesis
      using ok by (simp add: controller_ok_def ok_defs queues_publish subseq_more ac_simps c1_def)
  qed
  have refuse: "controller_ok (publish (failed_outcome r m now) c1)" for m
    using drop [of m "lc_queue_drop_count c1"] by simp
  have "controller_ok (c1\<lparr> lc_requests := lc_requests c @ [r] \<rparr>)"
    if "length (lc_requests c) < lc_requests_max c" "lc_accepting c" "is_alive (lc_worker c)"
    using that ok
    by (auto simp: controller_ok_def ok_defs queues_ok_def c1_def is_alive_def add.assoc [symmetric]
        simp flip: append_assoc intro!: subseq_snoc)
  with refuse drop show ?thesis
    by (simp add: submit_def Let_def r_def [symmetric] c1_def [symmetric]) (simp add: c1_def)
qed

lemma complete_fields:
  obtains out where "complete now r c = publish out (c\<lparr> lc_client := fst (call_client r (lc_client c)) \<rparr>)"
    "settled [out] = [r]" "started [out] = []"
proof (cases "call_client r (lc_client c)")
  case (Pair s res)
  then show ?thesis
    by (cases res; intro that)
       (auto simp: complete_def settled_def started_def is_terminal_def failed_outcome_def)
qed

lemma close_client_once_fields [simp]:
  "lc_published (close_client_once c) = lc_published c" "lc_requests (close_client_once c) = lc_requests c"
  "lc_worker (close_client_once c) = lc_worker c" "lc_submitted (close_client_once c) = lc_submitted c"
  "lc_accepting (close_client_once c) = lc_accepting c" "lc_thread (close_client_once c) = lc_thread c"
  "lc_outcomes (close_client_once c) = lc_outcomes c" "lc_requests_max (close_client_once c) = lc_requests_max c"
  "lc_outcomes_max (close_client_once c) = lc_outcomes_max c" "in_flight (close_client_once c) = in_flight c"
  "session_ok (lc_client (close_client_once c)) = session_ok (lc_client c)"
  by (simp_all add: close_client_once_def client_close_def session_ok_def)

lemma worker_step_ok: "controller_ok c \<Longrightarrow> controller_ok (worker_step e now c)"
proof (cases "lc_worker c")
  case Starting
  assume ok: "controller_ok c"
  show ?thesis
  proof (cases e)
    case None
    have "session_ok (fst (client_open s)) = session_ok s" for s
      by (simp add: client_open_def modify_def session_ok_def)
    with ok Starting None show ?thesis
      by (auto simp: worker_step_def controller_ok_def ok_defs in_flight_def is_alive_def intro: queues_of_fields)
  next
    case (Some msg)
    with ok Starting show ?thesis
      by (auto simp: worker_step_def controller_ok_def ok_defs is_alive_def in_flight_def ac_simps
          intro!: queues_publish intro: queues_of_fields)
  qed
next
  case Waiting
  assume ok: "controller_ok c"
  show ?thesis
  proof (cases "lc_requests c")
    case Nil
    with ok Waiting show ?thesis
      by (auto simp: worker_step_def controller_ok_def ok_defs in_flight_def is_alive_def intro: queues_of_fields)
  next
    case (Cons r rs)
    then have "queues_ok (c\<lparr> lc_requests := rs, lc_worker := Running r \<rparr>)"
      using ok by (auto simp: controller_ok_def queues_ok_def)
    with ok Waiting Cons show ?thesis
      by (auto simp: worker_step_def announce_def controller_ok_def ok_defs in_flight_def is_alive_def ac_simps
          queues_publish)
  qed
next
  case (Running r)
  assume ok: "controller_ok c"
  obtain out where out: "complete now r (c\<lparr> lc_worker := Looping \<rparr>) =
      publish out (c\<lparr> lc_worker := Looping, lc_client := fst (call_client r (lc_client c)) \<rparr>)"
      "settled [out] = [r]" "started [out] = []"
    by (rule complete_fields [of now r "c\<lparr> lc_worker := Looping \<rparr>"]) simp
  have "session_ok (fst (call_client r (lc_client c)))"
    using ok keeps_call_client by (simp add: controller_ok_def keeps_def)
  with ok Running out show ?thesis
    by (auto simp: worker_step_def controller_ok_def ok_defs in_flight_def is_alive_def ac_simps
        intro!: queues_publish intro: queues_of_fields)
next
  case Draining
  assume ok: "controller_ok c"
  then show ?thesis
    using Draining fail_one_ok [OF ok]
    by (auto simp: worker_step_def controller_ok_def ok_defs in_flight_def is_alive_def intro: queues_of_fields)
qed (auto simp: worker_step_def controller_ok_def ok_defs in_flight_def is_alive_def intro: queues_of_fields)

lemma lc_step_ok: "lc_step c c' \<Longrightarrow> controller_ok c \<Longrightarrow> controller_ok c'"
proof (induction rule: lc_step.induct)
  case (start c spawned)
  then show ?case
    by (auto simp: controller_start_def Let_def is_running_def controller_ok_def ok_defs in_flight_def is_alive_def
        queues_ok_def)
next
  case (poll c k)
  have "suffix (drop j xs) ys" if "suffix xs ys" for j and xs ys :: "live_outcome list"
    using that suffix_drop suffix_order.trans by blast
  with poll show ?case
    by (auto simp: poll_def controller_ok_def ok_defs queues_ok_def in_flight_def)
next
  case (stop_report c now)
  then show ?case
    by (auto simp: report_stuck_def controller_ok_def ok_defs queues_publish ac_simps)
next
  case (stop c)
  then show ?case by (simp add: stop_signal_def controller_ok_def ok_defs queues_ok_def)
next
  case (stop_close c)
  then show ?case by (simp add: controller_ok_def ok_defs queues_ok_def)
next
  case (stop_forget c)
  then show ?case by (simp add: forget_thread_def controller_ok_def ok_defs queues_ok_def)
qed (simp_all add: worker_step_ok submit_ok fail_one_ok)

lemma reachable_ok:
  assumes "CommandClient config resolved sends recvs = Inr client" "LiveCommandController client n = Inr c0"
    "lc_step\<^sup>*\<^sup>* c0 c"
  shows "controller_ok c"
  using assms(3)
proof (induction rule: rtranclp_induct)
  case base
  have "session_ok client" using assms(1) by (auto simp: CommandClient_def rbind_Inr_iff session_ok_def)
  with assms(2) show ?case by (rule new_controller_ok)
qed (rule lc_step_ok)


text \<open>
  Live commands are executed one at a time and in the order they were submitted, and the client the worker drives
  never puts a version-2 command on the wire before a version-2 PING.
\<close>

theorem live_commands_serial:
  assumes "CommandClient config resolved sends recvs = Inr client" "LiveCommandController client n = Inr c0"
    "lc_step\<^sup>*\<^sup>* c0 c"
  shows "subseq (started (lc_published c)) (lc_submitted c) \<and> probe_before False (ss_wire (lc_client c))"
proof -
  have "subseq (started (lc_published c)) (started (lc_published c) @ lc_requests c)"
    by (rule subseq_more) simp
  with reachable_ok [OF assms] show ?thesis
    by (auto simp: controller_ok_def serial_def session_ok_def intro: subseq_order.trans)
qed

section \<open>Shutdown\<close>

text \<open>How many steps the worker still needs once the stop event is set.\<close>

definition work_left :: "controller \<Rightarrow> nat" where
  "work_left c =
     (case lc_worker c of
        NoThread \<Rightarrow> 0 | Finished \<Rightarrow> 0 | Closing \<Rightarrow> 1
      | Draining \<Rightarrow> length (lc_requests c) + 2
      | Finalising \<Rightarrow> length (lc_requests c) + 3
      | Looping \<Rightarrow> length (lc_requests c) + 4
      | _ \<Rightarrow> length (lc_requests c) + 5)"

lemma complete_frame [simp]:
  "lc_worker (complete t r c) = lc_worker c" "lc_requests (complete t r c) = lc_requests c"
  "lc_stop_event (complete t r c) = lc_stop_event c" "lc_client_closed (complete t r c) = lc_client_closed c"
  by (simp_all add: complete_def split: prod.splits sum.splits)

lemma close_client_once_stop [simp]:
  "lc_stop_event (close_client_once c) = lc_stop_event c" "lc_client_closed (close_client_once c)"
  by (simp_all add: close_client_once_def)

lemma worker_step_progress:
  assumes "lc_stop_event c"
  shows "lc_stop_event (worker_step e t c) \<and> work_left (worker_step e t c) \<le> work_left c - 1"
  using assms
  by (cases "lc_worker c")
     (auto simp: worker_step_def work_left_def announce_def fail_one_def split: option.splits list.splits)

lemma worker_step_closed:
  assumes "lc_worker c = Finished \<longrightarrow> lc_client_closed c" "lc_worker c \<noteq> NoThread"
  shows "(lc_worker (worker_step e t c) = Finished \<longrightarrow> lc_client_closed (worker_step e t c)) \<and>
    lc_worker (worker_step e t c) \<noteq> NoThread"
  using assms
  by (cases "lc_worker c")
     (auto simp: worker_step_def announce_def fail_one_def split: option.splits list.splits)

definition worker_run :: "controller \<Rightarrow> (string option \<times> int) list \<Rightarrow> controller" where
  "worker_run = foldl (\<lambda>c (e, t). worker_step e t c)"

lemma worker_run_progress:
  "lc_stop_event c \<Longrightarrow> lc_worker c = Finished \<longrightarrow> lc_client_closed c \<Longrightarrow> lc_worker c \<noteq> NoThread \<Longrightarrow>
   work_left (worker_run c env) \<le> work_left c - length env \<and>
   (lc_worker (worker_run c env) = Finished \<longrightarrow> lc_client_closed (worker_run c env)) \<and>
   lc_worker (worker_run c env) \<noteq> NoThread"
proof (induction env arbitrary: c)
  case (Cons et env)
  obtain e t where et: "et = (e, t)" by (cases et)
  let ?d = "worker_step e t c"
  have d: "lc_stop_event ?d" "work_left ?d \<le> work_left c - 1"
    using worker_step_progress [OF Cons.prems(1)] by simp_all
  have "lc_worker ?d = Finished \<longrightarrow> lc_client_closed ?d" "lc_worker ?d \<noteq> NoThread"
    using worker_step_closed [OF Cons.prems(2,3)] by simp_all
  note IH = Cons.IH [OF d(1) this]
  have "worker_run c (et # env) = worker_run ?d env" by (simp add: worker_run_def et)
  with IH d(2) show ?case by auto
qed (simp add: worker_run_def)

lemma worker_run_reach: "lc_step\<^sup>*\<^sup>* c (worker_run c env)"
proof (induction env rule: rev_induct)
  case (snoc et env)
  then show ?case
    by (auto simp: worker_run_def split: prod.splits intro: rtranclp.rtrancl_into_rtrancl lc_step.worker)
qed (simp add: worker_run_def)


section \<open>A socket that stays open\<close>

text \<open>
  \<^verbatim>\<open>stop\<close> gives up on a worker that is still in a client call after the join timeout and closes the client. The call may
  then open the socket again for its next datagram, and the worker's own \<^verbatim>\<open>_close_client_once\<close> finds the client already
  marked closed: the worker ends and its socket stays open.
\<close>

definition leak_client :: session where
  "leak_client = projr (CommandClient default_client_config ''10.0.0.2'' [] [])"

definition leak_start :: controller where
  "leak_start = projr (LiveCommandController leak_client 4)"

definition leak_running :: controller where
  "leak_running = worker_run (fst (submit 0 0 ''ping'' UNone (fst (controller_start True leak_start)))) (replicate 3 (None, 0))"

definition leak_stopped :: controller where
  "leak_stopped = close_client_once (stop_signal leak_running)"

lemma leak_new:
  "CommandClient default_client_config ''10.0.0.2'' [] [] = Inr leak_client"
  "LiveCommandController leak_client 4 = Inr leak_start"
  by (simp_all add: leak_client_def leak_start_def LiveCommandController_def CommandClient_def validate_client_config_def
      default_client_config_def COMMAND_VERSIONS_SUPPORTED_def COMMAND_VERSION_CURRENT_def check_u32_def MAX_U32_def
      COMMAND_VERSION_V1_def COMMAND_VERSION_V2_def checks.simps)

lemma leak_reach: "lc_step\<^sup>*\<^sup>* leak_start leak_stopped"
proof -
  have "lc_step\<^sup>*\<^sup>* leak_start (fst (submit 0 0 ''ping'' UNone (fst (controller_start True leak_start))))"
    by (meson lc_step.start lc_step.submit r_into_rtranclp rtranclp_trans)
  then have "lc_step\<^sup>*\<^sup>* leak_start leak_running"
    unfolding leak_running_def using worker_run_reach by (rule rtranclp_trans)
  moreover have "lc_step leak_running (stop_signal leak_running)" by (rule lc_step.stop)
  moreover have "lc_step (stop_signal leak_running) leak_stopped"
    unfolding leak_stopped_def by (rule lc_step.stop_close) (simp add: stop_signal_def)
  ultimately show ?thesis by auto
qed

lemma leak_state:
  "lc_worker leak_stopped = Running \<lparr> lq_action = ''PING'', lq_value = UNone, lq_requested_time_ns = 0 \<rparr> \<and>
   lc_stop_event leak_stopped \<and> lc_requests leak_stopped = [] \<and> \<not> ss_open (lc_client leak_stopped)"
  by code_simp

lemma stop_can_leak_socket:
  "\<exists>c. lc_step\<^sup>*\<^sup>* leak_start c \<and> lc_worker c = Finished \<and> lc_client_closed c \<and> ss_open (lc_client c)"
proof (intro exI conjI)
  let ?c = "worker_run leak_stopped (replicate 5 (None, 0))"
  show "lc_step\<^sup>*\<^sup>* leak_start ?c" using leak_reach worker_run_reach by (rule rtranclp_trans)
  show "lc_worker ?c = Finished" "lc_client_closed ?c" "ss_open (lc_client ?c)" by code_simp+
qed

section \<open>Witnesses\<close>


theorem live_commands_serial_witness: "subseq (started (lc_published leak_stopped)) (lc_submitted leak_stopped)"
  using live_commands_serial [OF leak_new leak_reach] by blast


end
