(* ===== verification/Dashboard_App.thy ===== *)
theory Dashboard_App
  imports Ring_Buffers Udp_Receiver Live_Commands Packet_Examples
begin

text \<open>
  The dashboard application, \<^verbatim>\<open>TelemetryDashboardApp\<close> of \<^verbatim>\<open>sw/pc_dashboard/trecap_dashboard/dashboard.py\<close>, which joins the
  components of the PC side: the background receiver of \<open>Udp_Receiver\<close>, the display buffers of \<open>Ring_Buffers\<close> and the
  command controller of \<open>Live_Commands\<close>.

  \<open>app\<close> is the object. Clock readings, the contents of the capture file that is replayed and the socket events that happen
  while an iteration of the loop sleeps are arguments. The live loop is that of the text mode, which has no command controller;
  the graphical loop does the same work on the same state and draws. Drawing and printing are not modelled.
\<close>

section \<open>Configuration\<close>

record plot_config =
  pl_wave_points :: int
  pl_metrics_points :: int
  pl_spectrogram_frames :: int
  pl_spectrum_bins :: int
  pl_status_lines :: int

definition validate_plot_config :: "plot_config \<Rightarrow> unit result" where
  "validate_plot_config c = checks
     [(1 \<le> pl_wave_points c, Exn ValueError ''wave_points must be >= 1''),
      (1 \<le> pl_metrics_points c, Exn ValueError ''metrics_points must be >= 1''),
      (1 \<le> pl_spectrogram_frames c, Exn ValueError ''spectrogram_frames must be >= 1''),
      (1 \<le> pl_spectrum_bins c, Exn ValueError ''spectrum_bins must be >= 1''),
      (1 \<le> pl_status_lines c, Exn ValueError ''status_lines must be >= 1'')]"

record runtime_config =
  rc_bind_port :: int
  rc_expected_source :: "string option"
  rc_capture_write :: "string option"
  rc_capture_read :: "string option"
  rc_capture_append :: bool
  rc_allow_wrap :: bool
  rc_enforce_udp_limit :: bool
  rc_text_only :: bool
  rc_refresh_hz :: rat
  rc_text_refresh_hz :: rat
  rc_queue_size :: int
  rc_max_packets :: "int option"
  rc_duration_s :: "rat option"
  rc_event_budget_per_refresh :: int
  rc_quiet :: bool
  rc_buffer_config :: "ring_buffer_config option"
  rc_plot_config :: "plot_config option"
  rc_command_config :: "client_config option"
  rc_live_controls :: bool
  rc_command_queue_size :: int

definition default_runtime_config :: runtime_config where
  "default_runtime_config =
     \<lparr> rc_bind_port = 5005, rc_expected_source = Some ''192.168.10.2'', rc_capture_write = None,
       rc_capture_read = None, rc_capture_append = False, rc_allow_wrap = False,
       rc_enforce_udp_limit = True, rc_text_only = False, rc_refresh_hz = 20, rc_text_refresh_hz = 2,
       rc_queue_size = 4096, rc_max_packets = None, rc_duration_s = None,
       rc_event_budget_per_refresh = 2048, rc_quiet = False, rc_buffer_config = None, rc_plot_config = None,
       rc_command_config = None, rc_live_controls = False, rc_command_queue_size = 16 \<rparr>"

definition validate_some :: "('a \<Rightarrow> unit result) \<Rightarrow> 'a option \<Rightarrow> unit result" where
  "validate_some f v = (case v of None \<Rightarrow> Inr () | Some x \<Rightarrow> f x)"

definition validate_runtime_config :: "runtime_config \<Rightarrow> unit result" where
  "validate_runtime_config c =
     rbind (checks
       [(1 \<le> rc_bind_port c \<and> rc_bind_port c \<le> 65535, Exn ValueError ''bind_port must be in range 1..65535''),
        (\<not> (rc_capture_write c \<noteq> None \<and> rc_capture_read c \<noteq> None),
          Exn ValueError ''capture_write and capture_read cannot both be set''),
        (\<not> rc_refresh_hz c \<le> 0, Exn ValueError ''refresh_hz must be > 0''),
        (\<not> rc_text_refresh_hz c \<le> 0, Exn ValueError ''text_refresh_hz must be > 0''),
        (\<not> rc_queue_size c < 1, Exn ValueError ''queue_size must be >= 1''),
        (case rc_max_packets c of None \<Rightarrow> True | Some n \<Rightarrow> \<not> n < 1, Exn ValueError ''max_packets must be >= 1''),
        (case rc_duration_s c of None \<Rightarrow> True | Some t \<Rightarrow> \<not> t \<le> 0, Exn ValueError ''duration_s must be > 0''),
        (\<not> rc_event_budget_per_refresh c < 1, Exn ValueError ''event_budget_per_refresh must be >= 1''),
        (\<not> rc_command_queue_size c < 1, Exn ValueError ''command_queue_size must be >= 1''),
        (\<not> (rc_live_controls c \<and> rc_command_config c = None),
          Exn ValueError ''live_controls require command_config'')]) (\<lambda>_.
     rbind (validate_some validate_ring_config (rc_buffer_config c)) (\<lambda>_.
     rbind (validate_some validate_plot_config (rc_plot_config c)) (\<lambda>_.
     validate_some validate_client_config (rc_command_config c))))"

text \<open>\<^verbatim>\<open>_receiver_config\<close>; an empty source string disables the filter like a missing one.\<close>

definition receiver_config :: "runtime_config \<Rightarrow> udp_receiver_config result" where
  "receiver_config c =
     rbind (case rc_expected_source c of
              None \<Rightarrow> Inr None
            | Some src \<Rightarrow> if src = [] then Inr None else rbind (endpoint_parse src) (\<lambda>e. Inr (Some e))) (\<lambda>expected.
     Inr (default_rx_config\<lparr> rx_bind_port := rc_bind_port c, rx_expected_source := expected,
       rx_allow_wrap := rc_allow_wrap c, rx_enforce_udp_limit := rc_enforce_udp_limit c,
       rx_capture_append := rc_capture_append c \<rparr>))"

section \<open>The application object\<close>

record app =
  ap_config :: runtime_config
  ap_background :: "background option"
  ap_buffers :: dashboard
  ap_stop_requested :: bool
  ap_packets_ingested :: int
  ap_parse_errors :: int
  ap_receiver_queue_drops :: int
  ap_last_capture_time_ns :: "int option"
  ap_command_failures :: int
  ap_last_command_status :: string
  ap_controller :: "controller option"

definition controls_active :: "runtime_config \<Rightarrow> bool" where
  "controls_active c \<longleftrightarrow> rc_live_controls c \<and> \<not> rc_text_only c \<and> rc_capture_read c = None"

text \<open>The constructor; \<open>new_client\<close> is the client given by the caller or made from the command configuration.\<close>

definition TelemetryDashboardApp :: "runtime_config \<Rightarrow> session result \<Rightarrow> app result" where
  "TelemetryDashboardApp c new_client =
     rbind (validate_runtime_config c) (\<lambda>_.
     rbind (rbind (receiver_config c) validate_rx_config) (\<lambda>_.
     rbind (DashboardRingBuffers (case rc_buffer_config c of None \<Rightarrow> default_ring_config | Some b \<Rightarrow> b)) (\<lambda>buffers.
     rbind (if controls_active c
            then rbind new_client (\<lambda>client.
                 rbind (LiveCommandController client (rc_command_queue_size c)) (\<lambda>k. Inr (Some k)))
            else Inr None) (\<lambda>controller.
     Inr \<lparr> ap_config = c, ap_background = None, ap_buffers = buffers, ap_stop_requested = False,
           ap_packets_ingested = 0, ap_parse_errors = 0, ap_receiver_queue_drops = 0,
           ap_last_capture_time_ns = None, ap_command_failures = 0,
           ap_last_command_status = (if controls_active c then ''live controls ready'' else ''live controls disabled''),
           ap_controller = controller \<rparr>))))"

definition request_stop :: "app \<Rightarrow> app" where
  "request_stop a = a\<lparr> ap_stop_requested := True \<rparr>"

text \<open>
  \<^verbatim>\<open>snapshot\<close>, taken at the last replayed receive time when a capture is read and at \<open>clock_ns\<close> otherwise; it prunes
  the packet-rate window of the buffers.
\<close>

definition app_snapshot :: "int \<Rightarrow> app \<Rightarrow> app \<times> dashboard_snapshot" where
  "app_snapshot clock_ns a =
     (let now_ns = (if rc_capture_read (ap_config a) \<noteq> None then ap_last_capture_time_ns a else None) in
      case dashboard_snapshot_of (ap_buffers a) (case now_ns of None \<Rightarrow> clock_ns | Some t \<Rightarrow> t) of
        (d, shot) \<Rightarrow> (a\<lparr> ap_buffers := d \<rparr>, shot))"

definition print_snapshot :: "bool \<Rightarrow> int \<Rightarrow> app \<Rightarrow> app" where
  "print_snapshot force clock_ns a =
     (if rc_quiet (ap_config a) \<and> \<not> force then a else fst (app_snapshot clock_ns a))"

definition submit_live_command :: "int \<Rightarrow> int \<Rightarrow> string \<Rightarrow> ui_value \<Rightarrow> app \<Rightarrow> app \<times> bool" where
  "submit_live_command requested now action v a =
     (case ap_controller a of
        None \<Rightarrow> (a\<lparr> ap_last_command_status := ''live controls unavailable'' \<rparr>, False)
      | Some k \<Rightarrow>
          (case submit requested now action v k of (k, accepted) \<Rightarrow>
             (a\<lparr> ap_controller := Some k,
                 ap_last_command_status :=
                   py_upper action @ (if accepted then '' queued'' else '' not queued'') \<rparr>, accepted)))"

section \<open>Events\<close>

text \<open>
  \<^verbatim>\<open>_handle_event\<close>. Ingestion does not raise (\<open>Ring_Buffers.ingest_no_error\<close>); \<open>clock_ns\<close> is the reading it would
  take if the event had no receive time.
\<close>

definition handle_event :: "int \<Rightarrow> app \<Rightarrow> receiver_event \<Rightarrow> app" where
  "handle_event clock_ns a event =
     (if event_ok event \<and> re_packet event \<noteq> None
      then a\<lparr> ap_buffers := fst (ingest clock_ns (ap_buffers a) (the (re_packet event))
                (Some (rd_recv_time_ns (re_datagram event)))),
              ap_packets_ingested := ap_packets_ingested a + 1 \<rparr>
      else a\<lparr> ap_parse_errors := ap_parse_errors a + 1 \<rparr>)"

text \<open>\<^verbatim>\<open>_drain_events\<close>: at most \<^verbatim>\<open>event_budget_per_refresh\<close> events.\<close>

fun drain_loop :: "nat \<Rightarrow> app \<Rightarrow> app" where
  "drain_loop 0 a = a"
| "drain_loop (Suc n) a =
     (case ap_background a of
        None \<Rightarrow> a
      | Some b \<Rightarrow>
          (case bg_queue b of
             [] \<Rightarrow> a
           | event # q \<Rightarrow>
               drain_loop n (handle_event 0 (a\<lparr> ap_background := Some (b\<lparr> bg_queue := q \<rparr>) \<rparr>) event)))"

definition drain_events :: "app \<Rightarrow> app" where
  "drain_events a = drain_loop (nat (rc_event_budget_per_refresh (ap_config a))) a"

definition note_outcome :: "app \<Rightarrow> live_outcome \<Rightarrow> app" where
  "note_outcome a out =
     a\<lparr> ap_last_command_status := lo_summary out,
        ap_command_failures := ap_command_failures a + (if is_terminal out \<and> \<not> lo_ok out then 1 else 0) \<rparr>"

definition poll_command_outcomes :: "app \<Rightarrow> app" where
  "poll_command_outcomes a =
     (case ap_controller a of
        None \<Rightarrow> a
      | Some k \<Rightarrow>
          (case poll 32 k of
             (k, Inl _) \<Rightarrow> a
           | (k, Inr outs) \<Rightarrow> foldl note_outcome (a\<lparr> ap_controller := Some k \<rparr>) outs))"

section \<open>Replaying a capture\<close>

definition replay_parser :: "runtime_config \<Rightarrow> parser_config" where
  "replay_parser c =
     \<lparr> allow_wrap = rc_allow_wrap c, enforce_udp_limit = rc_enforce_udp_limit c, exact_length = True \<rparr>"

fun replay_records :: "parser_config \<Rightarrow> capture_record list \<Rightarrow> app \<Rightarrow> app \<times> exn option" where
  "replay_records parser [] a = (a, None)"
| "replay_records parser ((recv_time_ns, host, port, datagram) # rs) a =
     (case parse_datagram parser datagram of
        Inl e \<Rightarrow>
          (a, Some (if handled_by (exn_class e) PacketParserError
                    then Exn RuntimeError ''failed to parse capture record'' else e))
      | Inr packet \<Rightarrow>
          replay_records parser rs
            (a\<lparr> ap_buffers := fst (ingest 0 (ap_buffers a) packet (Some recv_time_ns)),
                ap_last_capture_time_ns := Some recv_time_ns,
                ap_packets_ingested := ap_packets_ingested a + 1 \<rparr>))"

definition load_capture :: "bytes \<Rightarrow> app \<Rightarrow> app \<times> exn option" where
  "load_capture contents a =
     (case iter_capture_datagrams contents of (records, err) \<Rightarrow>
        (case replay_records (replay_parser (ap_config a)) records a of
           (a, Some e) \<Rightarrow> (a, Some e)
         | (a, None) \<Rightarrow>
             (a, map_option (\<lambda>e. if handled_by (exn_class e) PacketParserError
                                then Exn RuntimeError ''failed to parse capture'' else e) err)))"

text \<open>\<^verbatim>\<open>_run_capture_replay\<close>: the load, and the snapshot that is printed or drawn at the end.\<close>

definition run_capture_replay :: "int \<Rightarrow> bytes \<Rightarrow> app \<Rightarrow> app \<times> exn option" where
  "run_capture_replay clock_ns contents a =
     (case load_capture contents a of
        (a, Some e) \<Rightarrow> (a, Some e)
      | (a, None) \<Rightarrow> (fst (app_snapshot clock_ns a), None))"

section \<open>The live loop\<close>

definition keep_running :: "rat \<Rightarrow> app \<Rightarrow> bool result" where
  "keep_running elapsed_seconds a =
     (if ap_stop_requested a then Inr False
      else if (case rc_max_packets (ap_config a) of None \<Rightarrow> False | Some n \<Rightarrow> ap_packets_ingested a \<ge> n) then Inr False
      else if (case rc_duration_s (ap_config a) of None \<Rightarrow> False | Some t \<Rightarrow> elapsed_seconds \<ge> t) then Inr False
      else if (case ap_background a of None \<Rightarrow> False | Some b \<Rightarrow> bg_thread_error b \<noteq> None)
      then Inl (Exn RuntimeError ''UDP receiver thread failed'')
      else Inr True)"

text \<open>The receiver thread's work while the loop sleeps.\<close>

definition receive_events :: "sock_event list \<Rightarrow> app \<Rightarrow> app" where
  "receive_events evs a =
     a\<lparr> ap_background := map_option (\<lambda>b. foldl (bg_run_step (\<lambda>_. None)) b evs) (ap_background a) \<rparr>"

text \<open>
  \<^verbatim>\<open>_run_text_loop\<close>. Each entry is an iteration: the elapsed time \<^verbatim>\<open>_keep_running\<close> reads, the clock reading of the snapshot
  when one is due, and the socket events of the sleep. After the last one the process is asked to stop; \<open>final_ns\<close> is the reading
  of the final snapshot.
\<close>

definition maybe_print :: "int option \<Rightarrow> app \<Rightarrow> app" where
  "maybe_print due a = (case due of None \<Rightarrow> a | Some clock_ns \<Rightarrow> print_snapshot False clock_ns a)"

type_synonym iteration = "rat \<times> int option \<times> sock_event list"

fun text_loop :: "int \<Rightarrow> iteration list \<Rightarrow> app \<Rightarrow> app \<times> exn option" where
  "text_loop final_ns [] a = (print_snapshot True final_ns (drain_events (request_stop a)), None)"
| "text_loop final_ns ((elapsed, due, evs) # iterations) a =
     (case keep_running elapsed a of
        Inl e \<Rightarrow> (a, Some e)
      | Inr False \<Rightarrow> (print_snapshot True final_ns (drain_events a), None)
      | Inr True \<Rightarrow> text_loop final_ns iterations (receive_events evs (maybe_print due (drain_events a))))"

text \<open>\<^verbatim>\<open>start\<close> with an opened receiver, \<^verbatim>\<open>stop\<close>, and \<^verbatim>\<open>_run_live\<close> in text mode.\<close>

definition app_start :: "udp_receiver \<Rightarrow> app \<Rightarrow> app" where
  "app_start r a =
     (case ap_background a of
        Some _ \<Rightarrow> a
      | None \<Rightarrow> a\<lparr> ap_background := Some \<lparr> bg_receiver = r, bg_queue = [], bg_maxsize = nat (rc_queue_size (ap_config a)),
          bg_queue_drop_count = 0, bg_thread_error = None, bg_stopped = False \<rparr> \<rparr>)"

definition app_stop :: "app \<Rightarrow> app" where
  "app_stop a =
     (case ap_background a of
        None \<Rightarrow> a
      | Some b \<Rightarrow> a\<lparr> ap_receiver_queue_drops := int (bg_queue_drop_count b), ap_background := None \<rparr>)"

definition run_live_text :: "int \<Rightarrow> udp_receiver \<Rightarrow> iteration list \<Rightarrow> app \<Rightarrow> app \<times> exn option" where
  "run_live_text final_ns r iterations a =
     (case text_loop final_ns iterations (app_start r a) of (a, err) \<Rightarrow> (app_stop a, err))"

record run_summary =
  sm_packets_ingested :: int
  sm_parse_errors :: int
  sm_receiver_queue_drops :: int
  sm_sequence_gaps :: int
  sm_missing_sequences :: int
  sm_packets_by_type :: "string \<Rightarrow> int option"
  sm_command_queue_drops :: int
  sm_command_failures :: int

definition app_summary :: "int \<Rightarrow> app \<Rightarrow> app \<times> run_summary" where
  "app_summary clock_ns a =
     (case app_snapshot clock_ns a of (a, shot) \<Rightarrow>
        (a, \<lparr> sm_packets_ingested = ap_packets_ingested a, sm_parse_errors = ap_parse_errors a,
              sm_receiver_queue_drops = ap_receiver_queue_drops a,
              sm_sequence_gaps = bs_total_sequence_gaps (sn_stats shot),
              sm_missing_sequences = bs_total_missing_sequences (sn_stats shot),
              sm_packets_by_type = bs_packets_by_type (sn_stats shot),
              sm_command_queue_drops = (case ap_controller a of None \<Rightarrow> 0 | Some k \<Rightarrow> lc_queue_drop_count k),
              sm_command_failures = ap_command_failures a \<rparr>))"

section \<open>What the loop does to the counters\<close>

text \<open>The packets a list of events carries.\<close>

definition event_packets :: "receiver_event list \<Rightarrow> parsed_packet list" where
  "event_packets es = map (\<lambda>e. the (re_packet e)) (filter event_ok es)"

text \<open>The part of the application the accounting is about.\<close>

record app_obs =
  ob_ingested :: int
  ob_errors :: int
  ob_total :: int
  ob_serial :: serial_state

definition app_obs :: "app \<Rightarrow> app_obs" where
  "app_obs a = \<lparr> ob_ingested = ap_packets_ingested a, ob_errors = ap_parse_errors a,
     ob_total = bs_total_packets (db_stats (ap_buffers a)), ob_serial = dash_obs (ap_buffers a) \<rparr>"

definition obs_events :: "app_obs \<Rightarrow> receiver_event list \<Rightarrow> app_obs" where
  "obs_events ob es =
     (let n = int (length (event_packets es)) in
      \<lparr> ob_ingested = ob_ingested ob + n, ob_errors = ob_errors ob + (int (length es) - n),
        ob_total = ob_total ob + n, ob_serial = foldl serial_step (ob_serial ob) (map packet_seq (event_packets es)) \<rparr>)"

lemma event_packets_simps [simp]:
  "event_packets [] = []" "event_packets (es @ es') = event_packets es @ event_packets es'"
  "event_packets (e # es) = (if event_ok e then [the (re_packet e)] else []) @ event_packets es"
  by (simp_all add: event_packets_def)

lemma obs_events_Nil [simp]: "obs_events ob [] = ob"
  by (simp add: obs_events_def)

lemma obs_events_append: "obs_events ob (es @ es') = obs_events (obs_events ob es) es'"
  by (simp add: obs_events_def Let_def)

lemma ingest_total: "bs_total_packets (db_stats (fst (ingest c d p rt))) = bs_total_packets (db_stats d) + 1"
  by (cases "pp_payload p") (simp_all add: ingest_defs)

lemma handle_event_obs: "app_obs (handle_event c a e) = obs_events (app_obs a) [e]"
  by (auto simp: handle_event_def app_obs_def obs_events_def ingest_total ingest_obs event_ok_def)

lemma snapshot_obs [simp]: "dash_obs (fst (dashboard_snapshot_of d t)) = dash_obs d"
  "db_stats (fst (dashboard_snapshot_of d t)) = db_stats d"
  by (simp_all add: snapshot_state packet_rate_hz_def dash_obs_def Let_def)

lemma app_snapshot_eq: "\<exists>t'. fst (app_snapshot t a) = a\<lparr> ap_buffers := fst (dashboard_snapshot_of (ap_buffers a) t') \<rparr>"
  by (simp add: app_snapshot_def Let_def case_prod_unfold) blast

lemma app_snapshot_frame [simp]:
  "app_obs (fst (app_snapshot t a)) = app_obs a" "ap_background (fst (app_snapshot t a)) = ap_background a"
  "ap_config (fst (app_snapshot t a)) = ap_config a"
proof -
  obtain t' where "fst (app_snapshot t a) = a\<lparr> ap_buffers := fst (dashboard_snapshot_of (ap_buffers a) t') \<rparr>"
    using app_snapshot_eq by blast
  then show "app_obs (fst (app_snapshot t a)) = app_obs a" "ap_background (fst (app_snapshot t a)) = ap_background a"
      "ap_config (fst (app_snapshot t a)) = ap_config a"
    by (simp_all add: app_obs_def)
qed

lemma print_snapshot_frame [simp]:
  "app_obs (print_snapshot force t a) = app_obs a" "ap_background (print_snapshot force t a) = ap_background a"
  "app_obs (maybe_print due a) = app_obs a" "ap_background (maybe_print due a) = ap_background a"
  by (simp_all add: print_snapshot_def maybe_print_def split: option.splits)

text \<open>
  A stretch of the loop: the background receiver goes through socket calls and reads of its queue, and the application
  has handled exactly the events read.
\<close>

definition traced :: "app \<Rightarrow> app \<Rightarrow> bool" where
  "traced a a' \<longleftrightarrow>
     (\<forall>b. ap_background a = Some b \<longrightarrow>
        (\<exists>acts b' produced taken. bg_trace (\<lambda>_. None) b acts = (b', produced, taken) \<and>
           ap_background a' = Some b' \<and> app_obs a' = obs_events (app_obs a) taken))"

lemma bg_trace_append:
  "bg_trace f b (xs @ ys) =
     (case bg_trace f b xs of (b1, p1, t1) \<Rightarrow>
        case bg_trace f b1 ys of (b2, p2, t2) \<Rightarrow> (b2, p1 @ p2, t1 @ t2))"
  by (induction xs arbitrary: b) (simp_all add: Let_def case_prod_unfold)

lemma traced_quiet: "ap_background a' = ap_background a \<Longrightarrow> app_obs a' = app_obs a \<Longrightarrow> traced a a'"
  unfolding traced_def by (auto intro: exI [of _ "[]"])

lemma traced_trans: "traced a a' \<Longrightarrow> traced a' a'' \<Longrightarrow> traced a a''"
proof -
  assume aa: "traced a a'" and bb: "traced a' a''"
  show ?thesis
    unfolding traced_def
  proof (intro allI impI)
    fix b
    assume "ap_background a = Some b"
    with aa obtain acts b1 p1 t1 where 1: "bg_trace (\<lambda>_. None) b acts = (b1, p1, t1)" "ap_background a' = Some b1"
        "app_obs a' = obs_events (app_obs a) t1"
      unfolding traced_def by blast
    with bb obtain acts' b2 p2 t2 where 2: "bg_trace (\<lambda>_. None) b1 acts' = (b2, p2, t2)" "ap_background a'' = Some b2"
        "app_obs a'' = obs_events (app_obs a') t2"
      unfolding traced_def by blast
    from 1 2 show "\<exists>acts b' produced taken. bg_trace (\<lambda>_. None) b acts = (b', produced, taken) \<and>
        ap_background a'' = Some b' \<and> app_obs a'' = obs_events (app_obs a) taken"
      by (intro exI [of _ "acts @ acts'"] exI [of _ b2] exI [of _ "p1 @ p2"] exI [of _ "t1 @ t2"])
         (simp add: bg_trace_append obs_events_append)
  qed
qed

lemma handle_event_background [simp]: "ap_background (handle_event c a e) = ap_background a"
  by (simp add: handle_event_def)

lemma app_obs_background [simp]:
  "app_obs (a\<lparr> ap_background := b \<rparr>) = app_obs a" "app_obs (a\<lparr> ap_stop_requested := t \<rparr>) = app_obs a"
  by (simp_all add: app_obs_def)

lemma traced_drain_loop: "traced a (drain_loop n a)"
proof (induction n arbitrary: a)
  case 0
  show ?case by (simp add: traced_quiet)
next
  case (Suc n)
  show ?case
  proof (cases "ap_background a")
    case None
    then show ?thesis by (simp add: traced_def)
  next
    case b: (Some b)
    show ?thesis
    proof (cases "bg_queue b")
      case Nil
      with b show ?thesis by (simp add: traced_quiet)
    next
      case (Cons e q)
      let ?a = "handle_event 0 (a\<lparr> ap_background := Some (b\<lparr> bg_queue := q \<rparr>) \<rparr>) e"
      have "bg_trace (\<lambda>_. None) b [Take] = (b\<lparr> bg_queue := q \<rparr>, [], [e])"
        using Cons by (simp add: bg_step_def Let_def)
      then have "traced a ?a"
        unfolding traced_def using b
        by (intro allI impI exI [of _ "[Take]"]) (simp add: handle_event_obs)
      moreover have "traced ?a (drain_loop n ?a)" by (rule Suc.IH)
      ultimately show ?thesis using b Cons by (simp add: traced_trans)
    qed
  qed
qed

lemma traced_receive: "traced a (receive_events evs a)"
proof -
  have "\<exists>produced. bg_trace (\<lambda>_. None) b (map Sock evs) = (foldl (bg_run_step (\<lambda>_. None)) b evs, produced, [])" for b
  proof (induction evs arbitrary: b)
    case (Cons ev evs)
    show ?case using Cons.IH [of "bg_run_step (\<lambda>_. None) b ev"] by (auto simp: Let_def bg_step_def)
  qed simp
  then show ?thesis
    unfolding traced_def receive_events_def by (fastforce intro: exI [of _ "map Sock evs"])
qed

lemma traced_text_loop: "traced a (fst (text_loop final_ns its a))"
proof (induction final_ns its a rule: text_loop.induct)
  case (1 final_ns a)
  have "traced a (request_stop a)" by (simp add: traced_quiet request_stop_def)
  moreover have "traced (request_stop a) (drain_events (request_stop a))"
    by (simp add: drain_events_def traced_drain_loop)
  ultimately have "traced a (drain_events (request_stop a))" by (rule traced_trans)
  then have "traced a (print_snapshot True final_ns (drain_events (request_stop a)))"
    by (rule traced_trans [OF _ traced_quiet]) simp_all
  then show ?case by simp
next
  case (2 final_ns elapsed due evs its a)
  have drain: "traced a (drain_events a)" by (simp add: drain_events_def traced_drain_loop)
  have due: "traced a (maybe_print due (drain_events a))" by (rule traced_trans [OF drain traced_quiet]) simp_all
  have rest: "traced a (receive_events evs (maybe_print due (drain_events a)))" by (rule traced_trans [OF due traced_receive])
  have stop: "traced a (print_snapshot True final_ns (drain_events a))"
    by (rule traced_trans [OF drain traced_quiet]) simp_all
  show ?case
  proof (cases "keep_running elapsed a")
    case (Inl e)
    then show ?thesis by (simp add: traced_quiet)
  next
    case (Inr go)
    with 2 stop rest show ?thesis by (cases go) (auto intro: traced_trans)
  qed
qed

section \<open>The receiver's side of the account\<close>

lemma rx_obs_frame:
  "receive_datagram r ev = (r', res) \<Longrightarrow>
   rx_obs (rv_stats r') = rx_obs (rv_stats r) \<and> us_packets_parsed (rv_stats r') = us_packets_parsed (rv_stats r)"
  by (cases ev)
     (auto simp: receive_datagram_def rx_obs_def note_seen_def Let_def split: if_splits option.splits prod.splits)

lemma receive_event_account:
  assumes "receive_event r ev = (r', res)"
  shows "rx_obs (rv_stats r') = foldl serial_step (rx_obs (rv_stats r))
      (case res of Inr (Some e) \<Rightarrow> map packet_seq (event_packets [e]) | _ \<Rightarrow> []) \<and>
    us_packets_parsed (rv_stats r') = us_packets_parsed (rv_stats r) +
      (case res of Inr (Some e) \<Rightarrow> int (length (event_packets [e])) | _ \<Rightarrow> 0)"
proof -
  obtain r1 d where d: "receive_datagram r ev = (r1, d)" by fastforce
  have parsed: "us_packets_parsed (note_parsed_packet st p t) = us_packets_parsed st + 1" for st p t
    by (simp add: note_parsed_packet_def Let_def split: option.splits)
  have err: "rx_obs (st\<lparr> us_parse_errors := n \<rparr>) = rx_obs st" "rx_obs (st\<lparr> us_last_error := x \<rparr>) = rx_obs st"
      "rx_obs (st\<lparr> us_last_error_kind := x \<rparr>) = rx_obs st" for st n x
    by (simp_all add: rx_obs_def)
  show ?thesis
    using assms rx_obs_frame [OF d] d
    by (auto simp: receive_event_def Let_def note_parsed_packet_obs parsed event_ok_def err
        split: sum.splits option.splits if_splits)
qed

lemma bg_trace_receiver:
  "bg_trace (\<lambda>_. None) b acts = (b', produced, taken) \<Longrightarrow>
   rx_obs (rv_stats (bg_receiver b')) =
     foldl serial_step (rx_obs (rv_stats (bg_receiver b))) (map packet_seq (event_packets produced)) \<and>
   us_packets_parsed (rv_stats (bg_receiver b')) =
     us_packets_parsed (rv_stats (bg_receiver b)) + int (length (event_packets produced))"
proof (induction acts arbitrary: b produced taken)
  case (Cons act acts)
  obtain ps ts where rest: "bg_trace (\<lambda>_. None) (bg_step (\<lambda>_. None) b act) acts = (b', ps, ts)"
    using Cons.prems by (auto simp: Let_def split: prod.splits)
  note IH = Cons.IH [OF rest]
  show ?case
  proof (cases act)
    case (Sock ev)
    obtain r1 res where re: "receive_event (bg_receiver b) ev = (r1, res)" by fastforce
    show ?thesis
    proof (cases "bg_stopped b")
      case True
      then show ?thesis using Cons.prems rest IH Sock by (simp add: Let_def bg_step_def bg_run_step_def)
    next
      case False
      have recv: "bg_receiver (bg_step (\<lambda>_. None) b act) = r1"
        using False Sock re by (simp add: bg_step_def bg_run_step_def split: sum.splits option.splits)
      have "produced = (case res of Inr (Some e) \<Rightarrow> [e] | _ \<Rightarrow> []) @ ps"
        using Cons.prems rest Sock False re by (auto simp: Let_def split: sum.splits option.splits)
      then show ?thesis
        using IH recv receive_event_account [OF re] by (auto split: sum.splits option.splits)
    qed
  qed (use Cons.prems rest IH in \<open>auto simp: Let_def bg_step_def\<close>)
qed simp

lemma subseq_filter_length:
  "subseq xs ys \<Longrightarrow>
   length (filter P xs) \<le> length (filter P ys) \<and>
   length (filter P ys) + length xs \<le> length (filter P xs) + length ys"
  by (induction rule: list_emb.induct) auto

lemma app_start_background:
  "TelemetryDashboardApp c client = Inr a \<Longrightarrow>
   \<exists>b. ap_background (app_start r a) = Some b \<and> bg_receiver b = r \<and> bg_queue b = [] \<and> bg_queue_drop_count b = 0"
  by (auto simp: TelemetryDashboardApp_def app_start_def rbind_Inr_iff)

lemma new_app_obs:
  assumes "TelemetryDashboardApp c client = Inr a"
  shows "app_obs (app_start r a) = \<lparr> ob_ingested = 0, ob_errors = 0, ob_total = 0, ob_serial = serial_init \<rparr>"
proof -
  obtain cfg where "DashboardRingBuffers cfg = Inr (ap_buffers a)" "ap_packets_ingested a = 0" "ap_parse_errors a = 0"
    using assms by (auto simp: TelemetryDashboardApp_def rbind_Inr_iff)
  then show ?thesis
    using new_dashboard_state [of cfg "ap_buffers a"]
    by (simp add: app_start_def app_obs_def dash_obs_def serial_init_def buffer_stats_clear_def split: option.splits)
qed


section \<open>Replaying what was captured\<close>

lemma capture_write_Inr:
  assumes "cw_open w" "cw_file w = Some f" "capture_write w d = (w', None)"
  shows "capturable d \<and> cw_open w' \<and> cw_file w' = Some (f @ frame_of d)"
  using assms
  by (auto simp: capture_write_def Let_def struct_pack_def frame_of_def capturable_def CAPTURE_RECORD_STRUCT_def
      split: if_splits)

text \<open>What an event says of its datagram, for the parser configuration \<open>P\<close>.\<close>

definition event_spec :: "parser_config \<Rightarrow> receiver_event \<Rightarrow> bool" where
  "event_spec P e \<longleftrightarrow>
     (if rd_truncated (re_datagram e) then \<not> event_ok e
      else capturable (re_datagram e) \<and>
        (case parse_datagram P (rd_data (re_datagram e)) of
           Inr p \<Rightarrow> re_packet e = Some p \<and> event_ok e
         | Inl _ \<Rightarrow> re_error_kind e = Some ''parse_error'' \<and> \<not> event_ok e))"

definition captured_frame :: "receiver_event \<Rightarrow> bytes" where
  "captured_frame e = (if rd_truncated (re_datagram e) then [] else frame_of (re_datagram e))"

lemma receive_datagram_capture:
  assumes "receive_datagram r ev = (r1, Inr x)" "rv_capture r = Some w" "cw_open w" "cw_file w = Some f"
  shows "rv_config r1 = rv_config r \<and> (\<exists>w1. rv_capture r1 = Some w1 \<and> cw_open w1 \<and>
    (case x of None \<Rightarrow> cw_file w1 = Some f
     | Some d \<Rightarrow> cw_file w1 = Some (f @ (if rd_truncated d then [] else frame_of d)) \<and> (\<not> rd_truncated d \<longrightarrow> capturable d)))"
proof (cases ev)
  case (SockData data flagged host port now fault)
  show ?thesis
    using assms SockData
    by (auto simp: receive_datagram_def Let_def split: if_splits option.splits prod.splits
        dest!: capture_write_Inr [OF assms(3,4)])
qed (use assms in \<open>auto simp: receive_datagram_def Let_def split: if_splits\<close>)

lemma receive_event_capture:
  assumes "receive_event r ev = (r1, Inr x)" "rv_capture r = Some w" "cw_open w" "cw_file w = Some f"
  shows "rv_config r1 = rv_config r \<and> (\<exists>w1. rv_capture r1 = Some w1 \<and> cw_open w1 \<and>
    cw_file w1 = Some (f @ (case x of None \<Rightarrow> [] | Some e \<Rightarrow> captured_frame e))) \<and>
    (\<forall>e. x = Some e \<longrightarrow> event_spec (rv_parser r) e)"
proof -
  obtain r0 y where d: "receive_datagram r ev = (r0, Inr y)"
    using assms(1) by (auto simp: receive_event_def split: prod.splits sum.splits)
  note cap = receive_datagram_capture [OF d assms(2-4)]
  then have parser: "rv_parser r0 = rv_parser r" by (simp add: rv_parser_def)
  show ?thesis
  proof (cases y)
    case None
    with d assms(1) cap show ?thesis by (auto simp: receive_event_def)
  next
    case (Some dg)
    show ?thesis
    proof (cases "rd_truncated dg")
      case True
      with d Some assms(1) cap show ?thesis
        by (auto simp: receive_event_def event_spec_def captured_frame_def event_ok_def Let_def)
    next
      case False
      with d Some assms(1) cap show ?thesis
        by (auto simp: receive_event_def event_spec_def captured_frame_def event_ok_def parser Let_def
            split: sum.splits if_splits)
    qed
  qed
qed

lemma iter_events_capture:
  assumes "iter_events None r evs = (r', outs, None)" "rv_capture r = Some w" "cw_open w" "cw_file w = Some f"
  shows "(\<exists>w'. rv_capture r' = Some w' \<and> cw_file w' = Some (f @ concat (map captured_frame outs))) \<and>
    list_all (event_spec (rv_parser r)) outs"
  using assms
proof (induction evs arbitrary: r w f outs)
  case (Cons ev evs)
  obtain r1 x where re: "receive_event r ev = (r1, Inr x)"
    using Cons.prems(1) by (auto split: prod.splits sum.splits)
  obtain w1 where w1: "rv_config r1 = rv_config r" "rv_capture r1 = Some w1" "cw_open w1"
      "cw_file w1 = Some (f @ (case x of None \<Rightarrow> [] | Some e \<Rightarrow> captured_frame e))"
      "\<And>e. x = Some e \<Longrightarrow> event_spec (rv_parser r) e"
    using receive_event_capture [OF re Cons.prems(2-4)] by blast
  have parser: "rv_parser r1 = rv_parser r" using w1(1) by (simp add: rv_parser_def)
  obtain outs1 where rest: "iter_events None r1 evs = (r', outs1, None)"
      "outs = (case x of None \<Rightarrow> [] | Some e \<Rightarrow> [e]) @ outs1"
    using Cons.prems(1) re by (auto split: option.splits prod.splits)
  from Cons.IH [OF rest(1) w1(2-4)] rest(2) w1(5) show ?case
    by (auto simp: parser split: option.splits)
qed simp

text \<open>Without parse errors the captured datagrams are those of the events the dashboard ingests.\<close>

definition clean :: "receiver_event list \<Rightarrow> bool" where
  "clean es \<longleftrightarrow> list_all (\<lambda>e. re_error_kind e \<noteq> Some ''parse_error'') es"

lemma clean_event:
  assumes "event_spec P e" "re_error_kind e \<noteq> Some ''parse_error''"
  obtains (truncated) "\<not> event_ok e" "captured_frame e = []"
  | (packet) p where "event_ok e" "captured_frame e = frame_of (re_datagram e)" "capturable (re_datagram e)"
      "re_packet e = Some p" "parse_datagram P (rd_data (re_datagram e)) = Inr p"
  using assms by (auto simp: event_spec_def captured_frame_def split: if_splits sum.splits)

lemma captured_records:
  "list_all (event_spec P) es \<Longrightarrow> clean es \<Longrightarrow>
   iter_records (concat (map captured_frame es)) = (map (record_of \<circ> re_datagram) (filter event_ok es), None)"
proof (induction es)
  case (Cons e es)
  then have IH: "iter_records (concat (map captured_frame es)) = (map (record_of \<circ> re_datagram) (filter event_ok es), None)"
    and e: "event_spec P e" "re_error_kind e \<noteq> Some ''parse_error''"
    by (simp_all add: clean_def)
  from e show ?case
    by (cases rule: clean_event) (simp_all add: IH iter_records_frame)
qed simp

definition same_display :: "app \<Rightarrow> app \<Rightarrow> bool" where
  "same_display a a' \<longleftrightarrow> ap_buffers a = ap_buffers a' \<and> ap_packets_ingested a = ap_packets_ingested a'"

lemma handle_event_display:
  "same_display a a' \<Longrightarrow> same_display (handle_event 0 a e) (if event_ok e then handle_event 0 a' e else a')"
  by (simp add: same_display_def handle_event_def event_ok_def)

lemma replay_clean:
  "list_all (event_spec P) es \<Longrightarrow> clean es \<Longrightarrow> same_display live a \<Longrightarrow>
   \<exists>a'. replay_records P (map (record_of \<circ> re_datagram) (filter event_ok es)) a = (a', None) \<and>
     same_display (foldl (handle_event 0) live es) a'"
proof (induction es arbitrary: live a)
  case (Cons e es)
  then have es: "list_all (event_spec P) es" "clean es" and e: "event_spec P e" "re_error_kind e \<noteq> Some ''parse_error''"
    by (simp_all add: clean_def)
  from e show ?case
  proof (cases rule: clean_event)
    case truncated
    then have "same_display (handle_event 0 live e) a" using handle_event_display [OF Cons.prems(3), of e] by simp
    from Cons.IH [OF es this] truncated show ?thesis by simp
  next
    case (packet p)
    let ?t = "rd_recv_time_ns (re_datagram e)"
    let ?a = "a\<lparr> ap_buffers := fst (ingest 0 (ap_buffers a) p (Some ?t)), ap_last_capture_time_ns := Some ?t,
      ap_packets_ingested := ap_packets_ingested a + 1 \<rparr>"
    have "same_display (handle_event 0 live e) ?a"
      using packet Cons.prems(3) by (simp add: same_display_def handle_event_def)
    from Cons.IH [OF es this] packet show ?thesis by (simp add: record_of_def)
  qed
qed simp


section \<open>Witnesses\<close>

definition text_config :: runtime_config where
  "text_config = default_runtime_config\<lparr> rc_text_only := True \<rparr>"

definition no_client :: "session result" where
  "no_client = Inl (Exn RuntimeError ''no client'')"

definition example_app :: app where
  "example_app = projr (TelemetryDashboardApp text_config no_client)"

lemma example_app_new: "TelemetryDashboardApp text_config no_client = Inr example_app"
proof -
  have "\<not> isl (TelemetryDashboardApp text_config no_client)" by code_simp
  then show ?thesis by (simp add: example_app_def)
qed


definition capturing_receiver :: udp_receiver where
  "capturing_receiver = example_receiver\<lparr> rv_capture := Some (projr (capture_open new_writer)) \<rparr>"

definition example_events :: "sock_event list" where
  "example_events = [SockTimeout, SockData metrics_example False ''10.0.0.2'' 5005 3 None, SockData [1] True ''10.0.0.2'' 5005 4 None]"

definition listening :: "udp_receiver \<Rightarrow> bool" where
  "listening r \<longleftrightarrow> rv_open r \<and> rv_has_recvmsg r \<and> rv_config r = default_rx_config"

lemma listening_timeout:
  "listening r \<Longrightarrow> \<exists>r'. receive_event r SockTimeout = (r', Inr None) \<and> listening r' \<and> rv_capture r' = rv_capture r"
  by (simp add: listening_def receive_event_def receive_datagram_def Let_def)

lemma listening_packet:
  assumes "listening r" "rv_capture r = Some w" "parse_datagram default_parser data = Inr p"
    and "capture_write w \<lparr> rd_recv_time_ns = now, rd_source_host = host, rd_source_port = port, rd_data = data,
      rd_truncated = False \<rparr> = (w1, None)"
  shows "\<exists>r' e. receive_event r (SockData data False host port now None) = (r', Inr (Some e)) \<and> listening r' \<and>
    event_ok e \<and> re_error_kind e = None"
proof -
  have "rv_parser (r\<lparr> rv_stats := st, rv_capture := c \<rparr>) = default_parser" for st c
    using assms(1) by (simp add: listening_def rv_parser_def default_rx_config_def default_parser_def)
  with assms show ?thesis
    by (simp add: listening_def receive_event_def receive_datagram_def socket_truncated_def event_ok_def Let_def)
       (simp add: default_rx_config_def)
qed

lemma listening_truncated:
  "listening r \<Longrightarrow> \<exists>r' e. receive_event r (SockData data True host port now None) = (r', Inr (Some e)) \<and>
     \<not> event_ok e \<and> re_error_kind e = Some ''socket_truncated''"
  by (simp add: listening_def receive_event_def receive_datagram_def socket_truncated_def event_ok_def Let_def)
     (simp add: default_rx_config_def)

lemma example_events_run:
  "\<exists>r' outs. iter_events None capturing_receiver example_events = (r', outs, None) \<and> length (event_packets outs) = 1 \<and> clean outs"
proof -
  obtain p where p: "parse_datagram default_parser metrics_example = Inr p"
    using metrics_example_accepted by (cases "parse_datagram default_parser metrics_example") auto
  have len: "length metrics_example = 88"
    by (simp add: metrics_example_def length_pack_fields TELEMETRY_HEADER_STRUCT_def)
  define w where "w = projr (capture_open new_writer)"
  define d where "d = \<lparr> rd_recv_time_ns = 3, rd_source_host = ''10.0.0.2'', rd_source_port = 5005, rd_data = metrics_example,
    rd_truncated = False \<rparr>"
  have "length (utf8_encode ''10.0.0.2'') = 8" by code_simp
  then have "capturable d" by (simp add: capturable_def d_def len)
  moreover have "cw_open w" "cw_file w = Some CAPTURE_MAGIC" by (simp_all add: w_def capture_open_def new_writer_def)
  ultimately obtain w1 where w1: "capture_write w d = (w1, None)" using capture_write_ok by metis
  have "listening capturing_receiver" "rv_capture capturing_receiver = Some w"
    by (simp_all add: listening_def capturing_receiver_def example_receiver_def w_def)
  then obtain r1 where r1: "receive_event capturing_receiver SockTimeout = (r1, Inr None)" "listening r1" "rv_capture r1 = Some w"
    using listening_timeout by metis
  obtain r2 e2 where r2: "receive_event r1 (SockData metrics_example False ''10.0.0.2'' 5005 3 None) = (r2, Inr (Some e2))"
      "listening r2" "event_ok e2" "re_error_kind e2 = None"
    using listening_packet [OF r1(2,3) p w1 [unfolded d_def]] by blast
  obtain r3 e3 where r3: "receive_event r2 (SockData [1] True ''10.0.0.2'' 5005 4 None) = (r3, Inr (Some e3))"
      "\<not> event_ok e3" "re_error_kind e3 = Some ''socket_truncated''"
    using listening_truncated [OF r2(2)] by blast
  show ?thesis by (simp add: example_events_def r1 r2 r3 clean_def)
qed


end
