(* ===== verification/Memh.thy ===== *)
theory Memh
  imports Py_Strings
begin

text \<open>
  The canonical \<^verbatim>\<open>.memh\<close> artifact format,
  \<^verbatim>\<open>sw/reference_model/python/trecap_golden/artifacts/memh.py\<close>, with the constants it reads from
  \<^verbatim>\<open>generated/_core_constants.py\<close>. File access is left out: \<open>read_memh\<close> works on the bytes of the file.
  The codec locale of the prelude is interpreted on \<open>canonical_text\<close>/\<open>parse_text\<close>: the parser accepts
  exactly the serialisations of in-range values.
\<close>

section \<open>Frozen configuration\<close>

definition cfg_N :: int where "cfg_N = 12"
definition cfg_L :: int where "cfg_L = 256"
definition cfg_W_Qw :: int where "cfg_W_Qw = 16"
definition cfg_W_tw :: int where "cfg_W_tw = 17"

section \<open>Contracts and values\<close>

abbreviation merr :: "string \<Rightarrow> exn" where
  "merr msg \<equiv> Exn MemhError msg"

record memh_contract =
  mc_width_bits :: int
  mc_signed :: bool
  mc_rows :: "int option"
  mc_kind :: "string option"

definition hex_digits :: "int \<Rightarrow> int result" where
  "hex_digits width_bits =
     (if width_bits \<le> 0 then Inl (merr ''memh width must be positive'')
      else Inr ((width_bits + 3) div 4))"

definition memh_signed_bounds :: "int \<Rightarrow> (int \<times> int) result" where
  "memh_signed_bounds width_bits =
     (if width_bits \<le> 0 then Inl (merr ''signed width must be positive'')
      else Inr (- push_bit (nat (width_bits - 1)) 1, push_bit (nat (width_bits - 1)) 1 - 1))"

definition unsigned_bound :: "int \<Rightarrow> int result" where
  "unsigned_bound width_bits =
     (if width_bits \<le> 0 then Inl (merr ''unsigned width must be positive'')
      else Inr (push_bit (nat width_bits) 1))"

definition encode_value :: "int \<Rightarrow> memh_contract \<Rightarrow> string result" where
  "encode_value value c =
     rbind
       (if mc_signed c
        then rbind (memh_signed_bounds (mc_width_bits c)) (\<lambda>(lo, hi).
          if value < lo \<or> hi < value then Inl (merr ''signed value does not fit'')
          else Inr (value AND (push_bit (nat (mc_width_bits c)) 1 - 1)))
        else if value < 0 then Inl (merr ''unsigned value does not fit'')
        else rbind (unsigned_bound (mc_width_bits c)) (\<lambda>bound.
          if bound \<le> value then Inl (merr ''unsigned value does not fit'') else Inr value))
       (\<lambda>encoded. rbind (hex_digits (mc_width_bits c)) (\<lambda>digits.
          Inr (hex_fixed (nat digits) encoded)))"

definition decode_token :: "string \<Rightarrow> memh_contract \<Rightarrow> int result" where
  "decode_token token c =
     (if \<not> (token \<noteq> [] \<and> list_all is_lower_hex token)
      then Inl (merr ''noncanonical token; expected lowercase hex only'')
      else rbind (hex_digits (mc_width_bits c)) (\<lambda>digits.
        if int (length token) \<noteq> digits then Inl (merr ''wrong number of hex digits'')
        else
          let raw = the (int_digits 16 False 0 token) in
          if push_bit (nat (mc_width_bits c)) 1 \<le> raw then Inl (merr ''token exceeds range'')
          else if mc_signed c \<and> raw AND push_bit (nat (mc_width_bits c - 1)) 1 \<noteq> 0
          then Inr (raw - push_bit (nat (mc_width_bits c)) 1)
          else Inr raw))"

definition canonical_text :: "int list \<Rightarrow> memh_contract \<Rightarrow> string result" where
  "canonical_text values c =
     (if mc_rows c \<noteq> None \<and> int (length values) \<noteq> the (mc_rows c)
      then Inl (merr ''unexpected number of rows'')
      else rbind (rmapM (\<lambda>v. encode_value v c) values) (\<lambda>lines.
        Inr (concat (map (\<lambda>l. l @ [CHR 0x0A]) lines))))"

definition canonical_bytes :: "int list \<Rightarrow> memh_contract \<Rightarrow> bytes result" where
  "canonical_bytes values c = rbind (canonical_text values c) (\<lambda>t. Inr (map (\<lambda>ch. of_nat (code ch)) t))"

definition parse_text :: "string \<Rightarrow> memh_contract \<Rightarrow> int list result" where
  "parse_text text c =
     (if CHR 0x0D \<in> set text then Inl (merr ''CRLF or carriage return is not canonical memh'')
      else if text \<noteq> [] \<and> last text \<noteq> CHR 0x0A
      then Inl (merr ''canonical memh must end every value with LF'')
      else
        let lines = py_splitlines text in
        if \<exists>line \<in> set lines. line = [] then Inl (merr ''blank lines are not canonical memh'')
        else rbind (rmapM (\<lambda>line. decode_token line c) lines) (\<lambda>values.
          if mc_rows c \<noteq> None \<and> int (length values) \<noteq> the (mc_rows c)
          then Inl (merr ''unexpected number of rows'')
          else rbind (canonical_text values (c\<lparr> mc_rows := Some (int (length values)) \<rparr>)) (\<lambda>t.
            if text \<noteq> t then Inl (merr ''memh is not in canonical serialization'')
            else Inr values)))"

text \<open>\<^verbatim>\<open>read_memh\<close> on the bytes of an existing file: a strict ASCII decode, then \<^verbatim>\<open>parse_text\<close>.\<close>

definition read_memh :: "bytes option \<Rightarrow> memh_contract \<Rightarrow> int list result" where
  "read_memh file c =
     (case file of
        None \<Rightarrow> Inl (merr ''missing memh file'')
      | Some raw \<Rightarrow>
          if \<exists>b \<in> set raw. 128 \<le> unat b then Inl (merr ''memh must be ASCII'')
          else parse_text (map (\<lambda>b. char_of (unat b)) raw) c)"

definition contract_for_kind :: "string \<Rightarrow> int option \<Rightarrow> memh_contract result" where
  "contract_for_kind kind rows =
     (let normalized = py_replace_char (CHR ''-'') (CHR ''_'') (py_lower (py_strip kind)) in
      if normalized \<in> {''sample'', ''stream'', ''x'', ''x_in'', ''y'', ''y_out''}
      then Inr \<lparr> mc_width_bits = cfg_N, mc_signed = True, mc_rows = rows, mc_kind = Some normalized \<rparr>
      else if normalized \<in> {''window'', ''window_qw''}
      then Inr \<lparr> mc_width_bits = cfg_W_Qw, mc_signed = False,
                 mc_rows = Some (case rows of None \<Rightarrow> cfg_L | Some r \<Rightarrow> r), mc_kind = Some ''window_qw'' \<rparr>
      else if normalized \<in>
        {''twiddle'', ''twiddle_re'', ''twiddle_im'', ''twiddle_inv_re'', ''twiddle_inv_im''}
      then Inr \<lparr> mc_width_bits = cfg_W_tw, mc_signed = True,
                 mc_rows = Some (case rows of None \<Rightarrow> cfg_L | Some r \<Rightarrow> r), mc_kind = Some normalized \<rparr>
      else Inl (merr ''unknown memh kind''))"

text \<open>\<^verbatim>\<open>infer_contract\<close> on a file name; the stem of the names it accepts is the name without its suffix.\<close>

definition infer_contract :: "string \<Rightarrow> int option \<Rightarrow> memh_contract result" where
  "infer_contract name rows =
     (let stem = take (length name - 5) name in
      if name \<in> {''x_in.memh'', ''y_out.memh''} then contract_for_kind stem rows
      else if name = ''window_qw.memh'' then contract_for_kind ''window_qw'' rows
      else if take 7 name = ''twiddle'' \<and> drop (length name - 5) name = ''.memh''
      then contract_for_kind stem rows
      else Inl (merr ''cannot infer memh contract''))"

record memh_summary =
  ms_rows :: nat
  ms_min :: "int option"
  ms_max :: "int option"
  ms_sum :: int
  ms_sum_abs :: int
  ms_sum_sq :: int
  ms_zero_count :: nat
  ms_positive_count :: nat
  ms_negative_count :: nat
  ms_max_abs :: int

definition numeric_summary :: "int list \<Rightarrow> memh_summary" where
  "numeric_summary values =
     (if values = []
      then \<lparr> ms_rows = 0, ms_min = None, ms_max = None, ms_sum = 0, ms_sum_abs = 0, ms_sum_sq = 0,
             ms_zero_count = 0, ms_positive_count = 0, ms_negative_count = 0, ms_max_abs = 0 \<rparr>
      else \<lparr> ms_rows = length values, ms_min = Some (foldl min (hd values) (tl values)),
             ms_max = Some (foldl max (hd values) (tl values)), ms_sum = sum_list values,
             ms_sum_abs = sum_list (map abs values), ms_sum_sq = sum_list (map (\<lambda>v. v * v) values),
             ms_zero_count = length (filter (\<lambda>v. v = 0) values),
             ms_positive_count = length (filter (\<lambda>v. v > 0) values),
             ms_negative_count = length (filter (\<lambda>v. v < 0) values),
             ms_max_abs = foldl max \<bar>hd values\<bar> (map abs (tl values)) \<rparr>)"

section \<open>One value\<close>

definition in_range :: "memh_contract \<Rightarrow> int \<Rightarrow> bool" where
  "in_range c v \<longleftrightarrow> 0 < mc_width_bits c \<and>
     (if mc_signed c
      then - (2 ^ nat (mc_width_bits c - 1)) \<le> v \<and> v < 2 ^ nat (mc_width_bits c - 1)
      else 0 \<le> v \<and> v < 2 ^ nat (mc_width_bits c))"

definition digits_of :: "memh_contract \<Rightarrow> nat" where
  "digits_of c = nat ((mc_width_bits c + 3) div 4)"

text \<open>A value of \<open>w\<close> bits fits in the digits the width needs.\<close>

lemma width_digits:
  assumes "0 < mc_width_bits c"
  shows "(2 :: int) ^ nat (mc_width_bits c) \<le> 16 ^ digits_of c" and "0 < digits_of c"
proof -
  have "nat (mc_width_bits c) \<le> 4 * digits_of c" unfolding digits_of_def using assms by linarith
  then have "(2 :: int) ^ nat (mc_width_bits c) \<le> 2 ^ (4 * digits_of c)"
    by (rule power_increasing) simp
  then show "(2 :: int) ^ nat (mc_width_bits c) \<le> 16 ^ digits_of c"
    by (simp add: power_mult)
  show "0 < digits_of c" unfolding digits_of_def using assms by linarith
qed

definition raw_of :: "memh_contract \<Rightarrow> int \<Rightarrow> int" where
  "raw_of c v = (if mc_signed c then v mod 2 ^ nat (mc_width_bits c) else v)"

lemma raw_of_range: "in_range c v \<Longrightarrow> 0 \<le> raw_of c v \<and> raw_of c v < 2 ^ nat (mc_width_bits c)"
  by (auto simp: in_range_def raw_of_def split: if_splits)

lemma encode_value_iff:
  "encode_value v c = Inr s \<longleftrightarrow> in_range c v \<and> s = hex_fixed (digits_of c) (raw_of c v)"
  by (auto simp: encode_value_def in_range_def raw_of_def digits_of_def memh_signed_bounds_def
      unsigned_bound_def hex_digits_def push_bit_eq_mult and_mask_mod result_simps split: if_splits)

text \<open>Testing the sign bit of a raw value is comparing it with half the range.\<close>

lemma top_bit_iff:
  assumes "0 < w" "0 \<le> x" "x < 2 ^ w"
  shows "(x :: int) AND push_bit (w - 1) 1 \<noteq> 0 \<longleftrightarrow> 2 ^ (w - 1) \<le> x"
proof -
  have two: "(2 :: int) ^ w = 2 * 2 ^ (w - 1)" using assms(1) by (simp add: power_eq_if)
  have odd: "x AND push_bit (w - 1) 1 \<noteq> 0 \<longleftrightarrow> odd (x div 2 ^ (w - 1))"
    by (metis bit_iff_and_push_bit_not_eq_0 bit_iff_odd)
  show ?thesis
  proof (cases "2 ^ (w - 1) \<le> x")
    case True
    have "x div 2 ^ (w - 1) = (x - 2 ^ (w - 1)) div 2 ^ (w - 1) + 1"
      by (simp add: div_add_self2 [symmetric] flip: diff_add_cancel)
    also have "\<dots> = 1" using True assms two by (simp add: div_pos_pos_trivial)
    finally show ?thesis using True unfolding odd by simp
  next
    case False
    then have "x div 2 ^ (w - 1) = 0" using assms by simp
    with False show ?thesis unfolding odd by simp
  qed
qed

definition value_of_raw :: "memh_contract \<Rightarrow> int \<Rightarrow> int" where
  "value_of_raw c raw = (if mc_signed c then to_signed (nat (mc_width_bits c)) raw else raw)"

lemma decode_token_iff:
  "decode_token token c = Inr v \<longleftrightarrow>
     0 < mc_width_bits c \<and> list_all is_lower_hex token \<and> length token = digits_of c \<and>
     hex_value token < 2 ^ nat (mc_width_bits c) \<and> v = value_of_raw c (hex_value token)"
proof (cases "token \<noteq> [] \<and> list_all is_lower_hex token \<and> 0 < mc_width_bits c")
  case True
  then have hex: "the (int_digits 16 False 0 token) = hex_value token"
    by (simp add: int_digits_hex hex_value_def)
  have pos: "0 \<le> hex_value token" using True hex_value_bounds by blast
  have nat: "nat (mc_width_bits c - 1) = nat (mc_width_bits c) - 1" using True by simp
  have len: "int (length token) = (mc_width_bits c + 3) div 4 \<longleftrightarrow> length token = digits_of c"
    using True by (auto simp: digits_of_def)
  show ?thesis
    using True pos top_bit_iff [of "nat (mc_width_bits c)" "hex_value token"]
    by (auto simp: decode_token_def hex_digits_def hex Let_def len nat value_of_raw_def to_signed_def
        push_bit_eq_mult split: if_splits)
next
  case False
  moreover have "0 < mc_width_bits c \<Longrightarrow> 0 < digits_of c" by (rule width_digits)
  ultimately show ?thesis
    by (auto simp: decode_token_def hex_digits_def)
qed

lemma value_of_raw_range:
  "0 < mc_width_bits c \<Longrightarrow> 0 \<le> raw \<Longrightarrow> raw < 2 ^ nat (mc_width_bits c) \<Longrightarrow> in_range c (value_of_raw c raw)"
  using to_signed_range [of "nat (mc_width_bits c)" raw]
  by (auto simp: in_range_def value_of_raw_def nat_diff_distrib)

lemma value_of_raw_of: "in_range c v \<Longrightarrow> value_of_raw c (raw_of c v) = v"
  using to_signed_mod [of "nat (mc_width_bits c)" v]
  by (auto simp: in_range_def value_of_raw_def raw_of_def nat_diff_distrib split: if_splits)

lemma decode_encode: "encode_value v c = Inr s \<Longrightarrow> decode_token s c = Inr v"
proof -
  assume "encode_value v c = Inr s"
  then have v: "in_range c v" and s: "s = hex_fixed (digits_of c) (raw_of c v)"
    by (simp_all add: encode_value_iff)
  have w: "0 < mc_width_bits c" using v by (simp add: in_range_def)
  have "raw_of c v < 16 ^ digits_of c" using raw_of_range [OF v] width_digits(1) [OF w] by linarith
  with raw_of_range [OF v] have "hex_value s = raw_of c v" by (simp add: s hex_value_fixed)
  then show ?thesis
    using w raw_of_range [OF v] value_of_raw_of [OF v] by (simp add: decode_token_iff s hex_fixed_lower)
qed

lemma decode_token_range: "decode_token t c = Inr v \<Longrightarrow> in_range c v"
  using hex_value_bounds [of t] by (auto simp: decode_token_iff value_of_raw_range)

section \<open>Whole artifacts\<close>

definition memh_valid :: "memh_contract \<Rightarrow> int list \<Rightarrow> bool" where
  "memh_valid c values \<longleftrightarrow>
     (mc_rows c = None \<or> mc_rows c = Some (int (length values))) \<and> list_all (in_range c) values"

definition memh_lines :: "memh_contract \<Rightarrow> int list \<Rightarrow> string list" where
  "memh_lines c values = map (\<lambda>v. hex_fixed (digits_of c) (raw_of c v)) values"

abbreviation join_lines :: "string list \<Rightarrow> string" where
  "join_lines lines \<equiv> concat (map (\<lambda>l. l @ [CHR 0x0A]) lines)"

lemma encode_lines:
  "rmapM (\<lambda>v. encode_value v c) values = Inr lines \<longleftrightarrow>
     list_all (in_range c) values \<and> lines = memh_lines c values"
  unfolding rmapM_Inr_iff encode_value_iff
  by (auto simp: memh_lines_def list_all2_conv_all_nth list_all_length intro: nth_equalityI)

lemma canonical_text_iff:
  "canonical_text values c = Inr t \<longleftrightarrow> memh_valid c values \<and> t = join_lines (memh_lines c values)"
  by (cases "mc_rows c") (auto simp: canonical_text_def memh_valid_def rbind_Inr_iff encode_lines)

lemma memh_lines_ok:
  assumes "memh_valid c values"
  shows "list_all (list_all is_lower_hex) (memh_lines c values)"
    and "[] \<notin> set (memh_lines c values)"
    and "rmapM (\<lambda>l. decode_token l c) (memh_lines c values) = Inr values"
proof -
  have ok: "in_range c v" if "v \<in> set values" for v
    using assms that by (auto simp: memh_valid_def list_all_iff)
  then show "list_all (list_all is_lower_hex) (memh_lines c values)"
    using raw_of_range hex_fixed_lower by (fastforce simp: memh_lines_def list_all_iff)
  have "0 < digits_of c" if "v \<in> set values" for v
    using ok [OF that] width_digits(2) by (auto simp: in_range_def)
  then show "[] \<notin> set (memh_lines c values)"
    by (auto simp: memh_lines_def) (metis length_hex_fixed list.size(3) less_irrefl)
  have "decode_token (hex_fixed (digits_of c) (raw_of c v)) c = Inr v" if "v \<in> set values" for v
    using ok [OF that] decode_encode [of v c] by (simp add: encode_value_iff)
  then show "rmapM (\<lambda>l. decode_token l c) (memh_lines c values) = Inr values"
    by (auto simp: memh_lines_def rmapM_Inr_iff list_all2_conv_all_nth)
qed

lemma mc_rows_update [simp]:
  "memh_lines (c\<lparr> mc_rows := r \<rparr>) values = memh_lines c values"
  "in_range (c\<lparr> mc_rows := r \<rparr>) = in_range c"
  by (simp_all add: memh_lines_def raw_of_def [abs_def] digits_of_def in_range_def [abs_def])

lemma lower_hex_ascii: "is_lower_hex c \<Longrightarrow> code c < 128"
  by (auto simp: is_lower_hex_def py_isdigit_def)

lemma lower_hex_not_cr: "is_lower_hex c \<Longrightarrow> c \<noteq> CHR 0x0D"
  by (auto simp: is_lower_hex_def py_isdigit_def code_def)

lemma parse_canonical: "canonical_text values c = Inr t \<Longrightarrow> parse_text t c = Inr values"
proof -
  assume "canonical_text values c = Inr t"
  then have valid: "memh_valid c values" and t: "t = join_lines (memh_lines c values)"
    by (simp_all add: canonical_text_iff)
  note lines = memh_lines_ok [OF valid]
  have split: "py_splitlines t = memh_lines c values"
    unfolding t using lines(1) by (intro splitlines_lines) (auto simp: list_all_iff lower_hex_no_line_end)
  have "CHR 0x0D \<notin> set t"
    using lines(1) by (auto simp: t list_all_iff dest!: bspec lower_hex_not_cr)
  moreover have "t \<noteq> [] \<longrightarrow> last t = CHR 0x0A"
    by (cases "memh_lines c values" rule: rev_cases) (simp_all add: t)
  moreover have "canonical_text values (c\<lparr> mc_rows := Some (int (length values)) \<rparr>) = Inr t"
    using valid by (simp add: canonical_text_iff memh_valid_def t)
  ultimately show ?thesis
    using valid lines(2,3) by (auto simp: parse_text_def Let_def split memh_valid_def)
qed

lemma parse_text_Inr:
  assumes "parse_text t c = Inr values"
  shows "memh_valid c values" and "canonical_text values c = Inr t"
proof -
  from assms have dec: "rmapM (\<lambda>line. decode_token line c) (py_splitlines t) = Inr values"
    and rows: "mc_rows c = None \<or> mc_rows c = Some (int (length values))"
    and can: "canonical_text values (c\<lparr> mc_rows := Some (int (length values)) \<rparr>) = Inr t"
    by (cases "mc_rows c"; auto simp: parse_text_def Let_def rbind_Inr_iff split: if_splits)+
  have "list_all (in_range c) values"
    using dec by (auto simp: rmapM_Inr_iff list_all2_conv_all_nth list_all_length dest: decode_token_range)
  with rows show valid: "memh_valid c values" by (simp add: memh_valid_def)
  then show "canonical_text values c = Inr t"
    using can by (simp add: canonical_text_iff)
qed

interpretation memh: strict_codec "memh_valid c" "\<lambda>vs. canonical_text vs c" "\<lambda>t. parse_text t c" for c
  by unfold_locales (auto simp: canonical_text_iff parse_text_Inr intro: parse_canonical)

text \<open>
  The memh parser is the inverse of the serialiser and accepts nothing else. For every contract,
  \<^verbatim>\<open>parse_text\<close> returns a list of values exactly on the canonical text of that list, which exists exactly
  when the row count matches and every value fits the declared width and signedness; so each list of values
  has one text and each accepted text one meaning.
\<close>

theorem parse_text_exact:
  "parse_text t c = Inr values \<longleftrightarrow> memh_valid c values \<and> canonical_text values c = Inr t"
  by (rule memh.dec_iff)

lemma read_canonical_bytes:
  assumes "canonical_bytes values c = Inr raw"
  shows "read_memh (Some raw) c = Inr values"
proof -
  from assms obtain t where t: "canonical_text values c = Inr t"
    and raw: "raw = map (\<lambda>ch. of_nat (code ch)) t"
    by (auto simp: canonical_bytes_def result_simps)
  have valid: "memh_valid c values" and tl: "t = join_lines (memh_lines c values)"
    using t by (simp_all add: canonical_text_iff)
  have ascii: "code ch < 128" if "ch \<in> set t" for ch
    using that memh_lines_ok(1) [OF valid]
    by (auto simp: tl list_all_iff split: if_splits dest: lower_hex_ascii) (simp add: code_def)
  have "unat (of_nat (code ch) :: byte) = code ch" if "ch \<in> set t" for ch
    using ascii [OF that] by (simp add: unat_of_nat)
  then have "map (\<lambda>b. char_of (unat b)) raw = t"
    and "\<forall>b \<in> set raw. unat b < 128"
    using ascii by (auto simp: raw code_def intro: map_idI)
  then show ?thesis
    using parse_canonical [OF t] by (fastforce simp: read_memh_def)
qed

text \<open>
  A file written by \<^verbatim>\<open>write_memh\<close> is read back. Whatever list of values \<^verbatim>\<open>canonical_bytes\<close> serialises
  under a contract, \<^verbatim>\<open>read_memh\<close> accepts those bytes under the same contract and returns the same values;
  the ASCII check, the CR check, the final LF and the row count cannot reject them.
\<close>

theorem memh_file_round_trip:
  assumes "canonical_bytes values c = Inr raw"
  shows "read_memh (Some raw) c = Inr values"
  using assms by (rule read_canonical_bytes)

definition sample_contract :: memh_contract where
  "sample_contract = \<lparr> mc_width_bits = 12, mc_signed = True, mc_rows = Some 3, mc_kind = None \<rparr>"

theorem memh_file_round_trip_witness:
  "\<exists>raw. canonical_bytes [-1, 5, 2047] sample_contract = Inr raw \<and>
         read_memh (Some raw) sample_contract = Inr [-1, 5, 2047]"
proof -
  have "memh_valid sample_contract [-1, 5, 2047]"
    by (simp add: memh_valid_def sample_contract_def in_range_def)
  then obtain raw where "canonical_bytes [-1, 5, 2047] sample_contract = Inr raw"
    by (auto simp: canonical_bytes_def result_simps canonical_text_iff)
  with memh_file_round_trip [OF this] show ?thesis by blast
qed

text \<open>The kinds the project names have positive widths, and the coefficient files their 256 rows.\<close>

lemma contract_for_kind_width:
  "contract_for_kind kind rows = Inr c \<Longrightarrow> mc_width_bits c \<in> {12, 16, 17}"
  by (auto simp: contract_for_kind_def Let_def cfg_N_def cfg_W_Qw_def cfg_W_tw_def split: if_splits)

lemma infer_contract_standard:
  "infer_contract ''x_in.memh'' None =
     Inr \<lparr> mc_width_bits = 12, mc_signed = True, mc_rows = None, mc_kind = Some ''x_in'' \<rparr>"
  "infer_contract ''twiddle_inv_re.memh'' None =
     Inr \<lparr> mc_width_bits = 17, mc_signed = True, mc_rows = Some 256, mc_kind = Some ''twiddle_inv_re'' \<rparr>"
  by (simp_all add: infer_contract_def contract_for_kind_def py_strip_def py_lower_def lower_char_def
      py_replace_char_def py_isspace_def code_def cfg_N_def cfg_W_tw_def cfg_L_def)

text \<open>Every value is counted once by its sign, and the sums are consistent.\<close>

lemma numeric_summary_counts:
  "ms_rows (numeric_summary vs) =
     ms_zero_count (numeric_summary vs) + ms_positive_count (numeric_summary vs) +
     ms_negative_count (numeric_summary vs)"
  "\<bar>ms_sum (numeric_summary vs)\<bar> \<le> ms_sum_abs (numeric_summary vs)"
proof -
  have "length vs = length (filter (\<lambda>v. v = 0) vs) + length (filter (\<lambda>v. v > 0) vs) +
      length (filter (\<lambda>v. v < 0) vs)"
    by (induction vs) simp_all
  then show "ms_rows (numeric_summary vs) =
     ms_zero_count (numeric_summary vs) + ms_positive_count (numeric_summary vs) +
     ms_negative_count (numeric_summary vs)" by (simp add: numeric_summary_def)
  show "\<bar>ms_sum (numeric_summary vs)\<bar> \<le> ms_sum_abs (numeric_summary vs)"
    by (cases "vs = []") (simp_all add: numeric_summary_def sum_list_abs)
qed

end
