(* ===== verification/Ddr_Ring.thy ===== *)
theory Ddr_Ring
  imports Prelude
begin

text \<open>
  The DDR ring ownership model, \<^verbatim>\<open>scripts/sim/check_step12_ddr_ring_model.py\<close>: the record scheduler with
  its WRAP decision and the ring state shared by the FPGA (which owns the write pointer) and the HPS (which
  owns the read pointer). The script exhausts small rings; the theorems here hold for every ring sz,
  pointer and length. \<open>require\<close> is an \<^verbatim>\<open>AssertionError\<close> in the result type.
\<close>

section \<open>The scheduler\<close>

definition ALIGN :: int where "ALIGN = 64"
definition GUARD :: int where "GUARD = 64"

definition require :: "bool \<Rightarrow> string \<Rightarrow> unit result" where
  "require c msg = (if c then Inr () else Inl (Exn AssertionError msg))"

definition aligned :: "int \<Rightarrow> bool" where
  "aligned value \<longleftrightarrow> 0 \<le> value \<and> value mod ALIGN = 0"

definition power_of_two :: "int \<Rightarrow> bool" where
  "power_of_two value \<longleftrightarrow> 0 < value \<and> value AND (value - 1) = 0"

record schedule =
  sc_legal :: bool
  sc_fits :: bool
  sc_needs_wrap :: bool
  sc_offset :: int
  sc_tail :: int
  sc_normal_bytes :: int
  sc_required_bytes :: int
  sc_free_bytes :: int
  sc_wrap_address :: int
  sc_normal_address :: int

definition ring_configured :: "int \<Rightarrow> int \<Rightarrow> int \<Rightarrow> bool" where
  "ring_configured base ring_size guard \<longleftrightarrow>
     aligned base \<and> power_of_two ring_size \<and> aligned ring_size \<and> aligned guard \<and>
     ALIGN \<le> guard \<and> guard < ring_size"

definition make_schedule :: "int \<Rightarrow> int \<Rightarrow> int \<Rightarrow> int \<Rightarrow> int \<Rightarrow> int \<Rightarrow> schedule" where
  "make_schedule base ring_size guard wr rd len =
     (let configured = ring_configured base ring_size guard;
          pointers_valid = (configured \<and> rd \<le> wr \<and> wr - rd \<le> ring_size);
          length_legal = (pointers_valid \<and> aligned len \<and> ALIGN \<le> len \<and> len \<le> ring_size);
          off = (if configured then wr AND (ring_size - 1) else 0);
          tl = (if configured then ring_size - off else 0);
          wrap = (length_legal \<and> off + len > ring_size);
          required = (if length_legal then (if wrap then tl + len else len) else 0);
          free = (if pointers_valid then max (ring_size - (wr - rd) - guard) 0 else 0) in
      \<lparr> sc_legal = length_legal, sc_fits = (length_legal \<and> free \<ge> required), sc_needs_wrap = wrap,
        sc_offset = off, sc_tail = tl, sc_normal_bytes = len, sc_required_bytes = required, sc_free_bytes = free,
        sc_wrap_address = base + off, sc_normal_address = (if wrap then base else base + off) \<rparr>)"

section \<open>The ring state\<close>

record ring_state =
  rs_base :: int
  rs_size :: int
  rs_guard :: int
  rs_wr :: int
  rs_rd :: int
  rs_sequence :: int
  rs_configured :: bool
  rs_rd_epoch_valid :: bool
  rs_telemetry_enable :: bool
  rs_writer_enable :: bool
  rs_busy :: bool

definition RingState :: ring_state where
  "RingState =
     \<lparr> rs_base = 0, rs_size = 0, rs_guard = GUARD, rs_wr = 0, rs_rd = 0, rs_sequence = 0,
       rs_configured = False, rs_rd_epoch_valid = False, rs_telemetry_enable = False,
       rs_writer_enable = False, rs_busy = False \<rparr>"

definition hard_reset :: "ring_state \<Rightarrow> ring_state" where
  "hard_reset s =
     s\<lparr> rs_base := 0, rs_size := 0, rs_wr := 0, rs_rd := 0, rs_sequence := 0,
        rs_configured := False, rs_rd_epoch_valid := False, rs_telemetry_enable := False,
        rs_writer_enable := False, rs_busy := False \<rparr>"

definition soft_reset_transport :: "ring_state \<Rightarrow> ring_state" where
  "soft_reset_transport s =
     s\<lparr> rs_base := 0, rs_size := 0, rs_wr := 0, rs_sequence := 0,
        rs_configured := False, rs_rd_epoch_valid := False, rs_telemetry_enable := False,
        rs_writer_enable := False, rs_busy := False \<rparr>"

definition effective_rd :: "ring_state \<Rightarrow> int" where
  "effective_rd s = (if rs_configured s \<and> rs_rd_epoch_valid s then rs_rd s else 0)"

definition write_config_shadow_allowed :: "ring_state \<Rightarrow> bool" where
  "write_config_shadow_allowed s \<longleftrightarrow>
     \<not> rs_telemetry_enable s \<and> \<not> rs_writer_enable s \<and> \<not> rs_busy s"

definition commit_config :: "int \<Rightarrow> int \<Rightarrow> ring_state \<Rightarrow> ring_state \<times> bool" where
  "commit_config base sz s =
     (let legal = (write_config_shadow_allowed s \<and> aligned base \<and> power_of_two sz \<and>
                   sz \<ge> 4 * ALIGN \<and> aligned sz) in
      if \<not> legal then (s, False)
      else (s\<lparr> rs_base := base, rs_size := sz, rs_wr := 0, rs_sequence := 0,
               rs_configured := True, rs_rd_epoch_valid := False \<rparr>, True))"

definition commit_rd :: "int \<Rightarrow> ring_state \<Rightarrow> ring_state \<times> bool" where
  "commit_rd value s =
     (let legal = (rs_configured s \<and> aligned value \<and>
            ((\<not> rs_rd_epoch_valid s \<and> value = 0) \<or>
             (rs_rd_epoch_valid s \<and> rs_rd s \<le> value \<and> value \<le> rs_wr s \<and>
              rs_wr s - value \<le> rs_size s))) in
      (if legal then s\<lparr> rs_rd := value, rs_rd_epoch_valid := True \<rparr> else s, legal))"

definition enable :: "ring_state \<Rightarrow> ring_state \<times> bool" where
  "enable s =
     (let legal = (rs_configured s \<and> rs_rd_epoch_valid s \<and> rs_rd s \<le> rs_wr s) in
      (if legal then s\<lparr> rs_writer_enable := True, rs_telemetry_enable := True \<rparr> else s, legal))"

definition current_schedule :: "int \<Rightarrow> ring_state \<Rightarrow> schedule" where
  "current_schedule len s =
     make_schedule (rs_base s) (rs_size s) (rs_guard s) (rs_wr s) (effective_rd s) len"

definition commit_wrap :: "schedule \<Rightarrow> bool \<Rightarrow> ring_state \<Rightarrow> ring_state \<times> bool" where
  "commit_wrap planned responses_ok s =
     (let legal = (rs_configured s \<and> rs_rd_epoch_valid s \<and> sc_fits planned \<and> sc_needs_wrap planned \<and>
            sc_tail planned = rs_size s - (rs_wr s AND (rs_size s - 1)) \<and> responses_ok) in
      (if legal then s\<lparr> rs_wr := rs_wr s + sc_tail planned \<rparr> else s, legal))"

definition commit_normal :: "int \<Rightarrow> bool \<Rightarrow> ring_state \<Rightarrow> ring_state \<times> bool" where
  "commit_normal len responses_ok s =
     (let planned = current_schedule len s;
          legal = (rs_configured s \<and> rs_rd_epoch_valid s \<and> sc_fits planned \<and> \<not> sc_needs_wrap planned \<and>
            responses_ok) in
      (if legal
       then s\<lparr> rs_wr := rs_wr s + len, rs_sequence := (rs_sequence s + 1) AND 0xFFFFFFFF \<rparr>
       else s, legal))"

text \<open>
  \<^verbatim>\<open>deterministic_trace\<close>: the directed run, with its assertions, as the events it records.
\<close>

type_synonym trace_event = "string \<times> int \<times> int \<times> int"

definition event_of :: "string \<Rightarrow> ring_state \<Rightarrow> trace_event" where
  "event_of name s = (name, rs_wr s, effective_rd s, rs_sequence s)"

definition asserting :: "ring_state \<times> bool \<Rightarrow> string \<Rightarrow> ring_state result" where
  "asserting r msg = rbind (require (snd r) msg) (\<lambda>_. Inr (fst r))"

fun trace_normals :: "nat \<Rightarrow> ring_state \<Rightarrow> (ring_state \<times> trace_event list) result" where
  "trace_normals 0 s = Inr (s, [])"
| "trace_normals (Suc n) s =
     rbind (asserting (commit_normal 128 True s) ''trace normal rejected'') (\<lambda>s1.
     rbind (trace_normals n s1) (\<lambda>(s2, evs). Inr (s2, event_of ''normal'' s1 # evs)))"

definition deterministic_trace :: "ring_state \<Rightarrow> (ring_state \<times> trace_event list) result" where
  "deterministic_trace s0 =
     rbind (asserting (commit_config 0x10000000 512 s0) ''trace config rejected'') (\<lambda>s1.
     rbind (asserting (commit_rd 0 s1) ''trace Rd=0 rejected'') (\<lambda>s2.
     rbind (asserting (enable s2) ''trace enable rejected'') (\<lambda>s3.
     rbind (trace_normals 3 s3) (\<lambda>(s4, normals).
     rbind (asserting (commit_rd 192 s4) ''trace forward Rd rejected'') (\<lambda>s5.
     rbind (asserting (commit_normal 64 True s5) ''trace 64-byte normal rejected'') (\<lambda>s6.
     let crossing = current_schedule 128 s6 in
     rbind (require (sc_needs_wrap crossing \<and> sc_fits crossing) ''trace crossing schedule mismatch'') (\<lambda>_.
     rbind (asserting (commit_wrap crossing True s6) ''trace WRAP commit rejected'') (\<lambda>s7.
     rbind (require (rs_sequence s7 = rs_sequence s6) ''WRAP consumed a sequence number'') (\<lambda>_.
     rbind (asserting (commit_normal 128 True s7) ''trace post-WRAP normal rejected'') (\<lambda>s8.
     Inr (s8, [event_of ''config'' s1] @ normals @
              [event_of ''rd'' s5, event_of ''normal64'' s6, event_of ''wrap'' s7,
               event_of ''normal'' s8])))))))))))"

section \<open>Powers of two\<close>

lemma power_of_two_pow: "power_of_two v \<Longrightarrow> \<exists>k. v = 2 ^ k"
proof (induction "nat v" arbitrary: v rule: less_induct)
  case less
  then have pos: "0 < v" and z: "v AND (v - 1) = 0" by (simp_all add: power_of_two_def)
  show ?case
  proof (cases "v = 1")
    case True
    then show ?thesis by (intro exI [of _ 0]) simp
  next
    case False
    then have big: "2 \<le> v" using pos by linarith
    have rec: "v AND (v - 1) = of_bool (odd v \<and> odd (v - 1)) + 2 * (v div 2 AND (v - 1) div 2)"
      by (rule and_int_rec)
    show ?thesis
    proof (cases "even v")
      case True
      then obtain m where m: "v = 2 * m" by blast
      then have "(v - 1) div 2 = m - 1" by simp
      with rec z m have "m AND (m - 1) = 0" by simp
      moreover have "0 < m" "m < v" using m big by linarith+
      ultimately obtain k where "m = 2 ^ k" using less(1) [of m] by (auto simp: power_of_two_def)
      with m show ?thesis by (intro exI [of _ "Suc k"]) simp
    next
      case False
      then obtain m where m: "v = 2 * m + 1" by (metis oddE)
      then have "v div 2 = m" "(v - 1) div 2 = m" by simp_all
      with rec z have "m = 0" by simp
      with m big show ?thesis by simp
    qed
  qed
qed

lemma power_of_two_mask: "power_of_two v \<Longrightarrow> x AND (v - 1) = x mod v"
  using power_of_two_pow and_mask_mod by blast

section \<open>What a schedule promises\<close>

lemma aligned_dvd: "aligned v \<longleftrightarrow> 0 \<le> v \<and> 64 dvd v"
  by (auto simp: aligned_def ALIGN_def mod_eq_0_iff_dvd)

lemma make_schedule_offset:
  assumes "ring_configured base rsz guard"
  shows "sc_offset (make_schedule base rsz guard wr rd len) = wr mod rsz"
    and "sc_tail (make_schedule base rsz guard wr rd len) = rsz - wr mod rsz"
  using assms power_of_two_mask [of rsz wr]
  by (simp_all add: make_schedule_def Let_def ring_configured_def)

lemma make_schedule_legal:
  "sc_legal (make_schedule base rsz guard wr rd len) \<longleftrightarrow>
     ring_configured base rsz guard \<and> rd \<le> wr \<and> wr - rd \<le> rsz \<and>
     aligned len \<and> ALIGN \<le> len \<and> len \<le> rsz"
  by (auto simp: make_schedule_def Let_def)

text \<open>The physical segments a record occupies, as offsets and lengths inside the ring.\<close>

definition segments :: "schedule \<Rightarrow> (int \<times> int) list" where
  "segments p = (if sc_needs_wrap p then [(sc_offset p, sc_tail p), (0, sc_normal_bytes p)]
                 else [(sc_offset p, sc_normal_bytes p)])"

lemma make_schedule_correct:
  fixes base rsz guard wr rd len :: int
  defines "p \<equiv> make_schedule base rsz guard wr rd len"
  assumes "sc_legal p"
  shows "sc_offset p = wr mod rsz \<and> sc_tail p = rsz - wr mod rsz \<and>
    sc_needs_wrap p = (wr mod rsz + len > rsz) \<and>
    sc_required_bytes p = sum_list (map snd (segments p)) \<and>
    list_all (\<lambda>(a, l). 0 \<le> a \<and> 0 < l \<and> a + l \<le> rsz) (segments p) \<and>
    sc_fits p = (wr + sc_required_bytes p - rd \<le> rsz - guard) \<and>
    sc_normal_address p = base + fst (last (segments p))"
proof -
  have conf: "ring_configured base rsz guard" "rd \<le> wr" "wr - rd \<le> rsz" "64 \<le> len" "len \<le> rsz"
    "aligned len"
    using assms by (simp_all add: make_schedule_legal ALIGN_def)
  then have pos: "0 < rsz" by (simp add: ring_configured_def power_of_two_def)
  have off: "sc_offset p = wr mod rsz" "sc_tail p = rsz - wr mod rsz"
    using make_schedule_offset [OF conf(1)] by (simp_all add: p_def)
  have mask: "wr AND (rsz - 1) = wr mod rsz"
    using conf(1) power_of_two_mask by (simp add: ring_configured_def)
  have lens: "sc_normal_bytes p = len" by (simp add: p_def make_schedule_def Let_def)
  have wrap: "sc_needs_wrap p = (wr mod rsz + len > rsz)"
    using conf by (simp add: p_def make_schedule_def Let_def mask ALIGN_def)
  have req: "sc_required_bytes p = (if sc_needs_wrap p then rsz - wr mod rsz + len else len)"
    using conf wrap by (simp add: p_def make_schedule_def Let_def mask ALIGN_def)
  have rng: "0 \<le> wr mod rsz" "wr mod rsz < rsz" using pos by simp_all
  then have "0 < sc_required_bytes p" using req conf(4) by auto
  moreover have "sc_fits p = (sc_required_bytes p \<le> max (rsz - (wr - rd) - guard) 0)"
    using conf by (simp add: p_def make_schedule_def Let_def ALIGN_def)
  ultimately have fit: "sc_fits p = (wr + sc_required_bytes p - rd \<le> rsz - guard)"
    unfolding le_max_iff_disj by linarith
  have addr: "sc_normal_address p = base + fst (last (segments p))"
    using wrap conf by (simp add: p_def make_schedule_def Let_def mask segments_def ALIGN_def)
  from rng have "list_all (\<lambda>(a, l). 0 \<le> a \<and> 0 < l \<and> a + l \<le> rsz) (segments p)"
    using conf off wrap lens by (auto simp: segments_def)
  with off wrap req fit addr lens show ?thesis by (simp add: segments_def)
qed

text \<open>
  The scheduler is right on every ring, not only on the sizes the script enumerates. For any legal
  request the offset is the write pointer modulo the ring size, a WRAP is planned exactly when the record
  would cross the ring end, the required bytes are the lengths of the physical segments, each segment lies
  inside the ring, and the record is admitted exactly when those bytes are free above the guard.
\<close>

theorem schedule_correct:
  fixes base rsz guard wr rd len :: int
  defines "p \<equiv> make_schedule base rsz guard wr rd len"
  assumes "sc_legal p"
  shows "sc_offset p = wr mod rsz \<and> sc_tail p = rsz - wr mod rsz \<and>
    sc_needs_wrap p = (wr mod rsz + len > rsz) \<and>
    sc_required_bytes p = sum_list (map snd (segments p)) \<and>
    list_all (\<lambda>(a, l). 0 \<le> a \<and> 0 < l \<and> a + l \<le> rsz) (segments p) \<and>
    sc_fits p = (wr + sc_required_bytes p - rd \<le> rsz - guard) \<and>
    sc_normal_address p = base + fst (last (segments p))"
  using assms(2) unfolding p_def by (rule make_schedule_correct)

section \<open>The invariant of the ring\<close>

definition ring_inv :: "ring_state \<Rightarrow> bool" where
  "ring_inv s \<longleftrightarrow>
     rs_guard s = GUARD \<and> 0 \<le> rs_sequence s \<and> rs_sequence s < 2 ^ 32 \<and>
     (rs_configured s \<longrightarrow>
        aligned (rs_base s) \<and> power_of_two (rs_size s) \<and> 4 * ALIGN \<le> rs_size s \<and>
        aligned (rs_size s) \<and> aligned (rs_wr s)) \<and>
     (rs_configured s \<and> rs_rd_epoch_valid s \<longrightarrow>
        aligned (rs_rd s) \<and> rs_rd s \<le> rs_wr s \<and> rs_wr s - rs_rd s \<le> rs_size s - GUARD) \<and>
     (\<not> (rs_configured s \<and> rs_rd_epoch_valid s) \<longrightarrow> rs_wr s = 0) \<and>
     (rs_telemetry_enable s \<or> rs_writer_enable s \<longrightarrow> rs_configured s \<and> rs_rd_epoch_valid s)"

datatype ring_op = HardReset | SoftReset | Config int int | Rd int | Enable | Normal int bool
  | Wrap int bool

text \<open>\<open>Wrap len ok\<close> commits the WRAP planned for a record of \<open>len\<close> bytes in the current state.\<close>

definition ring_step :: "ring_state \<Rightarrow> ring_op \<Rightarrow> ring_state" where
  "ring_step s op =
     (case op of
        HardReset \<Rightarrow> hard_reset s
      | SoftReset \<Rightarrow> soft_reset_transport s
      | Config base sz \<Rightarrow> fst (commit_config base sz s)
      | Rd v \<Rightarrow> fst (commit_rd v s)
      | Enable \<Rightarrow> fst (enable s)
      | Normal len ok \<Rightarrow> fst (commit_normal len ok s)
      | Wrap len ok \<Rightarrow> fst (commit_wrap (current_schedule len s) ok s))"

lemma current_schedule_facts:
  assumes "ring_inv s" "rs_configured s" "rs_rd_epoch_valid s" "sc_fits (current_schedule len s)"
  shows "aligned len" "64 \<le> len" "len \<le> rs_size s"
    "sc_needs_wrap (current_schedule len s) = (rs_wr s mod rs_size s + len > rs_size s)"
    "rs_wr s AND (rs_size s - 1) = rs_wr s mod rs_size s"
    "sc_tail (current_schedule len s) = rs_size s - rs_wr s mod rs_size s"
    "rs_wr s + (if rs_wr s mod rs_size s + len > rs_size s then rs_size s - rs_wr s mod rs_size s + len
       else len) - rs_rd s \<le> rs_size s - GUARD"
proof -
  let ?p = "current_schedule len s"
  have "sc_legal ?p" using assms(4) by (simp add: current_schedule_def make_schedule_def Let_def)
  then have leg: "sc_legal (make_schedule (rs_base s) (rs_size s) (rs_guard s) (rs_wr s) (rs_rd s) len)"
    using assms(2,3) by (simp add: current_schedule_def effective_rd_def)
  note c = make_schedule_correct [OF leg]
  have p: "?p = make_schedule (rs_base s) (rs_size s) (rs_guard s) (rs_wr s) (rs_rd s) len"
    using assms(2,3) by (simp add: current_schedule_def effective_rd_def)
  show "aligned len" "64 \<le> len" "len \<le> rs_size s"
    using leg by (simp_all add: make_schedule_legal ALIGN_def)
  show "sc_needs_wrap ?p = (rs_wr s mod rs_size s + len > rs_size s)"
    "sc_tail ?p = rs_size s - rs_wr s mod rs_size s"
    using c by (simp_all add: p)
  show "rs_wr s AND (rs_size s - 1) = rs_wr s mod rs_size s"
    using assms(1,2) power_of_two_mask by (simp add: ring_inv_def)
  have "sc_normal_bytes ?p = len" by (simp add: p make_schedule_def Let_def)
  then show "rs_wr s + (if rs_wr s mod rs_size s + len > rs_size s then rs_size s - rs_wr s mod rs_size s + len
       else len) - rs_rd s \<le> rs_size s - GUARD"
    using c assms(1,4) by (auto simp: p segments_def ring_inv_def split: if_splits)
qed

lemma aligned_add: "aligned a \<Longrightarrow> aligned b \<Longrightarrow> aligned (a + b)"
  by (simp add: aligned_dvd)

text \<open>The tail up to the ring end of an aligned pointer is aligned.\<close>

lemma aligned_tail: "aligned w \<Longrightarrow> aligned z \<Longrightarrow> 0 < z \<Longrightarrow> aligned (z - w mod z)"
  by (simp add: aligned_dvd dvd_mod le_diff_eq less_imp_le)

lemma commit_normal_inv:
  assumes "ring_inv s"
  shows "ring_inv (fst (commit_normal len ok s))"
proof (cases "snd (commit_normal len ok s)")
  case True
  then have c: "rs_configured s" "rs_rd_epoch_valid s" "sc_fits (current_schedule len s)"
      "\<not> sc_needs_wrap (current_schedule len s)"
    by (auto simp: commit_normal_def Let_def)
  note f = current_schedule_facts [OF assms c(1-3)]
  have "rs_wr s + len - rs_rd s \<le> rs_size s - GUARD" using f(4,7) c(4) by simp
  moreover have "rs_rd s \<le> rs_wr s + len" using assms c f(2) by (simp add: ring_inv_def)
  ultimately show ?thesis
    using True assms c f(1) aligned_add
    by (auto simp: commit_normal_def Let_def ring_inv_def and_mask32)
next
  case False
  then have "fst (commit_normal len ok s) = s" by (auto simp: commit_normal_def Let_def)
  with assms show ?thesis by simp
qed

lemma commit_wrap_inv:
  assumes "ring_inv s"
  shows "ring_inv (fst (commit_wrap (current_schedule len s) ok s))"
proof (cases "snd (commit_wrap (current_schedule len s) ok s)")
  case True
  then have c: "rs_configured s" "rs_rd_epoch_valid s" "sc_fits (current_schedule len s)"
      "sc_needs_wrap (current_schedule len s)"
    by (auto simp: commit_wrap_def Let_def)
  note f = current_schedule_facts [OF assms c(1-3)]
  let ?t = "rs_size s - rs_wr s mod rs_size s"
  have pos: "0 < rs_size s" using assms c(1) by (simp add: ring_inv_def power_of_two_def)
  then have "0 < ?t" by simp
  moreover have "rs_wr s + (?t + len) - rs_rd s \<le> rs_size s - GUARD" using f(4,7) c(4) by simp
  moreover have "aligned ?t" using assms c(1) pos aligned_tail by (simp add: ring_inv_def)
  moreover have "fst (commit_wrap (current_schedule len s) ok s) = s\<lparr> rs_wr := rs_wr s + ?t \<rparr>"
    using True f(6) by (simp add: commit_wrap_def Let_def split: if_splits)
  ultimately show ?thesis
    using assms c f(2) aligned_add by (auto simp: ring_inv_def)
next
  case False
  then have "fst (commit_wrap (current_schedule len s) ok s) = s" by (auto simp: commit_wrap_def Let_def)
  with assms show ?thesis by simp
qed

lemma aligned_0 [simp]: "aligned 0"
  by (simp add: aligned_def)

lemma commit_config_inv: "ring_inv s \<Longrightarrow> ring_inv (fst (commit_config base sz s))"
  by (auto simp: commit_config_def ring_inv_def write_config_shadow_allowed_def Let_def)

lemma commit_rd_inv:
  assumes "ring_inv s"
  shows "ring_inv (fst (commit_rd v s))"
proof -
  have "rs_size s \<ge> 256" if "rs_configured s" using assms that by (simp add: ring_inv_def ALIGN_def)
  then show ?thesis
    using assms by (auto simp: commit_rd_def ring_inv_def Let_def GUARD_def)
qed

interpretation ring_inv: step_invariant ring_step ring_inv
proof
  fix s op
  assume inv: "ring_inv s"
  then show "ring_inv (ring_step s op)"
    using commit_config_inv commit_rd_inv commit_normal_inv commit_wrap_inv
    by (cases op)
       (auto simp: ring_step_def, auto simp: ring_inv_def hard_reset_def soft_reset_transport_def enable_def
        Let_def)
qed


text \<open>
  A reserved WRAP is never wasted. In every reachable state, when a record that needs a WRAP is admitted
  and its WRAP is committed, the record itself then fits at the ring base without another WRAP, and its commit
  succeeds and advances the sequence by one; the WRAP consumes none.
\<close>

theorem wrap_then_normal:
  assumes "ring_inv s" "commit_wrap (current_schedule len s) True s = (s1, True)"
  shows "rs_wr s1 mod rs_size s1 = 0 \<and> rs_sequence s1 = rs_sequence s \<and>
    \<not> sc_needs_wrap (current_schedule len s1) \<and>
    commit_normal len True s1 =
      (s1\<lparr> rs_wr := rs_wr s1 + len, rs_sequence := (rs_sequence s1 + 1) mod 2 ^ 32 \<rparr>, True)"
proof -
  have c: "rs_configured s" "rs_rd_epoch_valid s" "sc_fits (current_schedule len s)"
      "sc_needs_wrap (current_schedule len s)"
    using assms(2) by (auto simp: commit_wrap_def Let_def)
  note f = current_schedule_facts [OF assms(1) c(1-3)]
  let ?t = "rs_size s - rs_wr s mod rs_size s"
  have s1: "s1 = s\<lparr> rs_wr := rs_wr s + ?t \<rparr>"
    using assms(2) f(6) by (auto simp: commit_wrap_def Let_def split: if_splits)
  have wr: "rs_wr s + ?t = rs_size s * (rs_wr s div rs_size s + 1)"
    by (simp add: algebra_simps minus_mod_eq_mult_div [symmetric])
  then have zero: "rs_wr s1 mod rs_size s1 = 0" by (simp add: s1)
  have room: "rs_wr s1 + len - rs_rd s1 \<le> rs_size s1 - GUARD" using f(4,7) c(4) by (simp add: s1)
  have inv: "ring_inv s1" using commit_wrap_inv [OF assms(1), of len True] assms(2) by simp
  let ?p = "current_schedule len s1"
  have p: "?p = make_schedule (rs_base s1) (rs_size s1) (rs_guard s1) (rs_wr s1) (rs_rd s1) len"
    using c by (simp add: current_schedule_def effective_rd_def s1)
  have leg: "sc_legal (make_schedule (rs_base s1) (rs_size s1) (rs_guard s1) (rs_wr s1) (rs_rd s1) len)"
    using inv c f(1-3) by (simp add: make_schedule_legal ring_inv_def ring_configured_def s1 ALIGN_def
        GUARD_def aligned_def)
  note m = make_schedule_correct [OF leg]
  have "sc_needs_wrap ?p = (rs_wr s1 mod rs_size s1 + len > rs_size s1)"
    and fit: "sc_fits ?p = (rs_wr s1 + sc_required_bytes ?p - rs_rd s1 \<le> rs_size s1 - rs_guard s1)"
    and req: "sc_required_bytes ?p = sum_list (map snd (segments ?p))"
    using m by (simp_all only: p)
  then have nw: "\<not> sc_needs_wrap ?p" using f(3) unfolding zero by (simp add: s1)
  have "sc_normal_bytes ?p = len" by (simp add: p make_schedule_def Let_def)
  with req nw have "sc_required_bytes ?p = len" by (simp add: segments_def)
  with fit room inv have "sc_fits ?p" by (simp add: ring_inv_def)
  with nw c have "commit_normal len True s1 =
      (s1\<lparr> rs_wr := rs_wr s1 + len, rs_sequence := (rs_sequence s1 + 1) mod 2 ^ 32 \<rparr>, True)"
    by (simp add: commit_normal_def Let_def s1 and_mask32)
  with zero nw show ?thesis by (simp add: s1)
qed

text \<open>
  No unread byte is overwritten. When a record is committed in a reachable state, the ring cells it is
  written to are disjoint from the cells of everything the HPS has not yet read.
\<close>

theorem no_overwrite:
  assumes "ring_inv s" "commit_normal len ok s = (s1, True)"
    and "rs_rd s \<le> a" "a < rs_wr s" "rs_wr s \<le> b" "b < rs_wr s1"
  shows "a mod rs_size s \<noteq> b mod rs_size s"
proof
  assume "a mod rs_size s = b mod rs_size s"
  then have "rs_size s dvd b - a" by (metis mod_eq_dvd_iff)
  moreover have "0 < b - a" using assms(4,5) by simp
  ultimately have "rs_size s \<le> b - a" by (simp add: zdvd_imp_le)
  moreover have "ring_inv s1" using commit_normal_inv [OF assms(1), of len ok] assms(2) by simp
  moreover have "rs_configured s" "rs_rd_epoch_valid s" "rs_size s1 = rs_size s" "rs_rd s1 = rs_rd s"
      "rs_configured s1" "rs_rd_epoch_valid s1"
    using assms(2) by (auto simp: commit_normal_def Let_def split: if_splits)
  ultimately show False using assms(3,6) by (simp add: ring_inv_def GUARD_def)
qed

section \<open>The directed trace\<close>

lemma power_of_two_512: "power_of_two 512"
  by (simp add: power_of_two_def)

text \<open>The trace from a ring that only has an old read pointer, as a transport reset leaves it.\<close>

lemma trace_from_reset:
  assumes "rs_guard s = GUARD"
  shows "\<exists>s'. deterministic_trace (soft_reset_transport s) = Inr (s',
    [(''config'', 0, 0, 0), (''normal'', 128, 0, 1), (''normal'', 256, 0, 2), (''normal'', 384, 0, 3),
     (''rd'', 384, 192, 3), (''normal64'', 448, 192, 4), (''wrap'', 512, 192, 4),
     (''normal'', 640, 192, 5)])"
  using assms
  by (simp add: deterministic_trace_def soft_reset_transport_def asserting_def require_def
      commit_config_def commit_rd_def enable_def commit_normal_def commit_wrap_def current_schedule_def
      make_schedule_def ring_configured_def effective_rd_def event_of_def write_config_shadow_allowed_def
      aligned_def ALIGN_def GUARD_def power_of_two_512 numeral_3_eq_3 Let_def)

text \<open>
  Reconfiguration is deterministic. After a transport reset, whatever the ring held and wherever the
  HPS-owned read pointer was left, the directed run passes every one of its assertions and records the same
  eight events; the reset itself never writes the read pointer.
\<close>

theorem reset_trace_deterministic:
  assumes "rs_guard s = GUARD" "rs_guard t = GUARD"
  shows "map_sum id snd (deterministic_trace (soft_reset_transport s)) =
      map_sum id snd (deterministic_trace (soft_reset_transport t)) \<and>
    \<not> isl (deterministic_trace (soft_reset_transport s)) \<and>
    rs_rd (soft_reset_transport s) = rs_rd s"
  using trace_from_reset [OF assms(1)] trace_from_reset [OF assms(2)]
  by (auto simp: soft_reset_transport_def)

section \<open>Witnesses\<close>

definition ready_ring :: ring_state where
  "ready_ring =
     \<lparr> rs_base = 0x1000, rs_size = 256, rs_guard = GUARD, rs_wr = 192, rs_rd = 192, rs_sequence = 3,
       rs_configured = True, rs_rd_epoch_valid = True, rs_telemetry_enable = True,
       rs_writer_enable = True, rs_busy = False \<rparr>"

lemma ready_ring_inv: "ring_inv ready_ring"
  by (simp add: ring_inv_def ready_ring_def GUARD_def ALIGN_def aligned_def power_of_two_def)

theorem schedule_correct_witness:
  "sc_legal (make_schedule 0x1000 256 64 192 64 128) \<and>
   sc_needs_wrap (make_schedule 0x1000 256 64 192 64 128) \<and>
   sc_required_bytes (make_schedule 0x1000 256 64 192 64 128) = 192"
proof -
  have leg: "sc_legal (make_schedule 0x1000 256 64 192 64 128)"
    by (simp add: make_schedule_legal ring_configured_def aligned_def ALIGN_def power_of_two_def)
  from schedule_correct [OF leg] leg show ?thesis
    by (simp add: segments_def) (simp add: make_schedule_def Let_def)
qed

theorem wrap_then_normal_witness:
  "\<exists>s1. commit_wrap (current_schedule 128 ready_ring) True ready_ring = (s1, True) \<and>
        snd (commit_normal 128 True s1)"
proof -
  obtain s1 where s1: "commit_wrap (current_schedule 128 ready_ring) True ready_ring = (s1, True)"
    by (simp add: commit_wrap_def current_schedule_def make_schedule_def ring_configured_def ready_ring_def
        effective_rd_def aligned_def ALIGN_def GUARD_def power_of_two_def Let_def)
  from wrap_then_normal [OF ready_ring_inv s1] s1 show ?thesis by simp
qed

theorem no_overwrite_witness:
  "(170 :: int) mod 256 \<noteq> 260 mod 256"
proof -
  define s where "s = ready_ring\<lparr> rs_wr := 256, rs_rd := 128 \<rparr>"
  have inv: "ring_inv s"
    by (simp add: s_def ring_inv_def ready_ring_def GUARD_def ALIGN_def aligned_def power_of_two_def)
  obtain s1 where s1: "commit_normal 64 True s = (s1, True)" "rs_wr s1 = 320"
    by (simp add: s_def commit_normal_def current_schedule_def make_schedule_def ring_configured_def
        ready_ring_def effective_rd_def aligned_def ALIGN_def GUARD_def power_of_two_def Let_def)
  from no_overwrite [OF inv s1(1), of 170 260] s1(2) show ?thesis
    by (simp add: s_def ready_ring_def)
qed

theorem reset_trace_deterministic_witness:
  "\<not> isl (deterministic_trace (soft_reset_transport (ready_ring\<lparr> rs_rd := 12345 \<rparr>)))"
  using reset_trace_deterministic [of "ready_ring\<lparr> rs_rd := 12345 \<rparr>" ready_ring]
  by (simp add: ready_ring_def)

end
