(* ===== verification/Rounding.thy ===== *)
theory Rounding
  imports Prelude
begin

text \<open>
  The contract of the project's rounding mode, nearest integer with ties away from zero, for a right shift by
  \<open>k\<close> bits. Several components implement it with different arithmetic; the contract determines the value
  (\<open>unique\<close>), so they agree, and the bounds the fixed-point code relies on are proved once.
\<close>

definition is_rounding :: "int \<Rightarrow> nat \<Rightarrow> int \<Rightarrow> bool" where
  "is_rounding v k r \<longleftrightarrow>
     2 * \<bar>v - 2 ^ k * r\<bar> \<le> 2 ^ k \<and> (2 * \<bar>v - 2 ^ k * r\<bar> = 2 ^ k \<longrightarrow> \<bar>v\<bar> \<le> 2 ^ k * \<bar>r\<bar>)"

text \<open>Two neighbouring multiples cannot both be roundings.\<close>

lemma tie_absurd:
  fixes d v x :: int
  assumes "0 < d" "2 * \<bar>v - x\<bar> \<le> d" "2 * \<bar>v - (x + d)\<bar> \<le> d" "0 \<le> x \<or> x + d \<le> 0"
    and "2 * \<bar>v - x\<bar> = d \<Longrightarrow> \<bar>v\<bar> \<le> \<bar>x\<bar>" "2 * \<bar>v - (x + d)\<bar> = d \<Longrightarrow> \<bar>v\<bar> \<le> \<bar>x + d\<bar>"
  shows False
proof -
  have "2 * (v - x) = d" using assms(1-3) by arith
  then have "\<bar>v\<bar> \<le> \<bar>x\<bar>" "\<bar>v\<bar> \<le> \<bar>x + d\<bar>" using assms(1,5,6) by simp_all
  with \<open>2 * (v - x) = d\<close> assms(1,4) show False by arith
qed

lemma is_rounding_unique:
  assumes "is_rounding v k r" "is_rounding v k t"
  shows "r = t"
proof (rule ccontr)
  assume "r \<noteq> t"
  define d where "d = (2 :: int) ^ k"
  have d: "0 < d" by (simp add: d_def)
  have abs_d: "d * \<bar>x\<bar> = \<bar>d * x\<bar>" for x using d by (simp add: abs_mult)
  have near: "2 * \<bar>v - d * r\<bar> \<le> d" "2 * \<bar>v - d * t\<bar> \<le> d"
    using assms by (simp_all add: is_rounding_def d_def)
  have away: "2 * \<bar>v - d * r\<bar> = d \<Longrightarrow> \<bar>v\<bar> \<le> d * \<bar>r\<bar>" "2 * \<bar>v - d * t\<bar> = d \<Longrightarrow> \<bar>v\<bar> \<le> d * \<bar>t\<bar>"
    using assms by (simp_all add: is_rounding_def d_def)
  have "d * \<bar>r - t\<bar> \<le> d"
  proof -
    have "d * \<bar>r - t\<bar> = \<bar>d * (r - t)\<bar>" using d by (simp add: abs_mult)
    also have "\<dots> = \<bar>(v - d * t) - (v - d * r)\<bar>" by (simp add: algebra_simps)
    also have "\<dots> \<le> \<bar>v - d * t\<bar> + \<bar>v - d * r\<bar>" by (rule abs_triangle_ineq4)
    finally have le: "d * \<bar>r - t\<bar> \<le> \<bar>v - d * t\<bar> + \<bar>v - d * r\<bar>" .
    have "x \<le> a + b \<Longrightarrow> 2 * b \<le> d \<Longrightarrow> 2 * a \<le> d \<Longrightarrow> x \<le> d" for x a b :: int by linarith
    from this [OF le near] show ?thesis .
  qed
  then have "\<bar>r - t\<bar> \<le> 1" using d by simp
  with \<open>r \<noteq> t\<close> consider "t = r + 1" | "r = t + 1" by linarith
  then show False
  proof cases
    case 1
    have "0 \<le> r \<or> r + 1 \<le> 0" by linarith
    then have "0 \<le> d * r \<or> d * r + d \<le> 0"
      using d by (auto simp: mult_le_0_iff zero_le_mult_iff simp flip: distrib_left [of d r 1, simplified])
    moreover have "d * t = d * r + d" using 1 by (simp add: algebra_simps)
    ultimately show False using tie_absurd [of d v "d * r"] near away d by (simp add: abs_d)
  next
    case 2
    have "0 \<le> t \<or> t + 1 \<le> 0" by linarith
    then have "0 \<le> d * t \<or> d * t + d \<le> 0"
      using d by (auto simp: mult_le_0_iff zero_le_mult_iff simp flip: distrib_left [of d t 1, simplified])
    moreover have "d * r = d * t + d" using 2 by (simp add: algebra_simps)
    ultimately show False using tie_absurd [of d v "d * t"] near away d by (simp add: abs_d)
  qed
qed

lemma is_rounding_neg: "is_rounding v k r \<Longrightarrow> is_rounding (- v) k (- r)"
proof -
  have "\<bar>- v - 2 ^ k * - r\<bar> = \<bar>v - 2 ^ k * r\<bar>" using abs_minus_commute [of v "2 ^ k * r"] by simp
  then show "is_rounding v k r \<Longrightarrow> is_rounding (- v) k (- r)" by (simp add: is_rounding_def)
qed

lemma is_rounding_exact: "is_rounding (2 ^ k * r) k r"
  by (simp add: is_rounding_def)

locale round_ties_away =
  fixes rnd :: "int \<Rightarrow> nat \<Rightarrow> int"
  assumes rounding: "is_rounding v k (rnd v k)"
begin

lemma unique: "is_rounding v k r \<Longrightarrow> rnd v k = r"
  using rounding is_rounding_unique by blast

lemma neg: "rnd (- v) k = - rnd v k"
  by (rule unique) (rule is_rounding_neg, rule rounding)

lemma exact: "rnd (2 ^ k * r) k = r"
  by (rule unique) (rule is_rounding_exact)

lemma zero: "rnd 0 k = 0"
  using exact [of k 0] by simp

lemma shift_zero: "rnd v 0 = v"
  using exact [of 0 v] by simp

text \<open>A bound by a multiple of the divisor survives rounding.\<close>

lemma bound: "v \<le> 2 ^ k * b \<Longrightarrow> rnd v k \<le> b"
proof (rule ccontr)
  assume v: "v \<le> 2 ^ k * b" and "\<not> rnd v k \<le> b"
  then have "b + 1 \<le> rnd v k" by simp
  define d where "d = (2 :: int) ^ k"
  have d: "0 < d" by (simp add: d_def)
  have "d * b + d \<le> d * rnd v k"
    using mult_left_mono [OF \<open>b + 1 \<le> rnd v k\<close>, of d] d by (simp add: algebra_simps)
  moreover have "2 * \<bar>v - d * rnd v k\<bar> \<le> d" using rounding [of v k] by (simp add: is_rounding_def d_def)
  moreover have "d * rnd v k - v \<le> \<bar>v - d * rnd v k\<bar>" using abs_ge_minus_self [of "v - d * rnd v k"] by simp
  moreover have "v \<le> d * b" using v by (simp add: d_def)
  moreover have "x + d \<le> y \<Longrightarrow> 2 * a \<le> d \<Longrightarrow> y - v \<le> a \<Longrightarrow> v \<le> x \<Longrightarrow> False" for x y a :: int
    using d by linarith
  ultimately show False by blast
qed

lemma lower_bound: "2 ^ k * b \<le> v \<Longrightarrow> b \<le> rnd v k"
  using bound [of "- v" k "- b"] by (simp add: neg)

lemma mono: "v \<le> w \<Longrightarrow> rnd v k \<le> rnd w k"
proof (rule ccontr)
  assume le: "v \<le> w" and "\<not> rnd v k \<le> rnd w k"
  then have lt: "rnd w k + 1 \<le> rnd v k" by simp
  define d where "d = (2 :: int) ^ k"
  have "0 < d" by (simp add: d_def)
  then have "d * rnd w k + d \<le> d * rnd v k"
    using mult_left_mono [OF lt, of d] by (simp add: algebra_simps)
  moreover have "2 * \<bar>v - d * rnd v k\<bar> \<le> d" "2 * \<bar>w - d * rnd w k\<bar> \<le> d"
    using rounding [of v k] rounding [of w k] by (simp_all add: is_rounding_def d_def)
  moreover have "x + d \<le> y \<Longrightarrow> 2 * \<bar>v - y\<bar> \<le> d \<Longrightarrow> 2 * \<bar>w - x\<bar> \<le> d \<Longrightarrow> w \<le> v" for x y by arith
  ultimately have "w \<le> v" by blast
  with le lt show False by simp
qed

end

text \<open>Two implementations of the contract are the same function.\<close>

lemma round_ties_away_agree:
  "round_ties_away f \<Longrightarrow> round_ties_away g \<Longrightarrow> f v k = g v k"
  using is_rounding_unique by (meson round_ties_away.rounding)

end
