(* ===== verification/Integer_Oracle.thy ===== *)
theory Integer_Oracle
  imports Rounding
begin

text \<open>
  The independent integer oracle of the STFT/WOLA datapath, \<^verbatim>\<open>scripts/verification/reference_integer_oracle.py\<close>:
  rounding, width checks, the recursive fixed-point FFT and IFFT, Hermitian canonicalisation, the threshold
  mask with its statistics, and the overlap-add run over a finite stream. The dictionary of records that
  \<^verbatim>\<open>run\<close> returns is a record here, one field per kind of key. Configuration fields and shifts are natural
  numbers, so the check for a negative shift is vacuous; a hop of zero, for which the source's scan would not
  end, finds no frame here, and the run then raises for having no active frame.
\<close>

section \<open>Scalar arithmetic\<close>

record oracle_config =
  oc_N :: nat
  oc_L :: nat
  oc_H :: nat
  oc_F :: nat
  oc_G :: nat
  oc_D :: nat

definition Config :: oracle_config where
  "Config = \<lparr> oc_N = 12, oc_L = 256, oc_H = 128, oc_F = 15, oc_G = 128, oc_D = 384 \<rparr>"

definition rounded :: "int \<Rightarrow> nat \<Rightarrow> int" where
  "rounded value shift =
     (let divisor = push_bit shift 1;
          quotient = \<bar>value\<bar> div divisor; remainder = \<bar>value\<bar> mod divisor;
          magnitude = quotient + of_bool (2 * remainder \<ge> divisor) in
      if value < 0 then - magnitude else magnitude)"

definition fit :: "int \<Rightarrow> nat \<Rightarrow> int result" where
  "fit value width =
     (if - push_bit (width - 1) 1 \<le> value \<and> value < push_bit (width - 1) 1 then Inr value
      else Inl (Exn ValueError ''internal signed overflow''))"

definition saturated :: "int \<Rightarrow> nat \<Rightarrow> int" where
  "saturated value width =
     min (push_bit (width - 1) 1 - 1) (max (- push_bit (width - 1) 1) value)"

section \<open>The transforms\<close>

type_synonym cint = "int \<times> int"

fun evens :: "'a list \<Rightarrow> 'a list" where
  "evens [] = []"
| "evens [x] = [x]"
| "evens (x # y # xs) = x # evens xs"

definition odds :: "'a list \<Rightarrow> 'a list" where
  "odds xs = evens (tl xs)"

lemma length_evens: "length (evens xs) = (length xs + 1) div 2"
  by (induction xs rule: evens.induct) auto

lemma length_odds: "length (odds xs) = length xs div 2"
  by (cases xs) (simp_all add: odds_def length_evens)

text \<open>One butterfly: the rounded twiddle product and the two outputs, each checked against the width.\<close>

definition butterfly ::
    "bool \<Rightarrow> nat \<Rightarrow> cint \<Rightarrow> cint \<Rightarrow> cint \<Rightarrow> (cint \<times> cint) result" where
  "butterfly is_inv F a b w =
     (case (a, b, w) of ((ar, ai), (br, bi), (wr, wi)) \<Rightarrow>
      let tr = rounded (br * wr - bi * wi) F; ti = rounded (br * wi + bi * wr) F;
          width = (if is_inv then 36 else 28); shift = (if is_inv then 0 else 1) in
      rbind (fit tr width) (\<lambda>_.
      rbind (fit ti width) (\<lambda>_.
      rbind (fit (rounded (ar + tr) shift) width) (\<lambda>lr.
      rbind (fit (rounded (ai + ti) shift) width) (\<lambda>li.
      rbind (fit (rounded (ar - tr) shift) width) (\<lambda>hr.
      rbind (fit (rounded (ai - ti) shift) width) (\<lambda>hi.
      Inr ((lr, li), (hr, hi)))))))))"

text \<open>\<^verbatim>\<open>recurse\<close>: a list of one element is returned; the source never calls it on an empty list.\<close>

function recurse :: "bool \<Rightarrow> oracle_config \<Rightarrow> cint list \<Rightarrow> cint list \<Rightarrow> cint list result" where
  "recurse is_inv cfg table items =
     (let n = length items in
      if n \<le> 1 then Inr items
      else
        rbind (recurse is_inv cfg table (evens items)) (\<lambda>ev.
        rbind (recurse is_inv cfg table (odds items)) (\<lambda>od.
        rbind (rmapM (\<lambda>(k, a, b). butterfly is_inv (oc_F cfg) a b (table ! (k * oc_L cfg div n)))
                 (zip [0..<length ev] (zip ev od))) (\<lambda>pairs.
        Inr (map fst pairs @ map snd pairs)))))"
  by pat_completeness auto
termination
  by (relation "measure (\<lambda>(_, _, _, items). length items)") (auto simp: length_evens length_odds)

declare recurse.simps [simp del]

definition transform :: "cint list \<Rightarrow> cint list \<Rightarrow> bool \<Rightarrow> oracle_config \<Rightarrow> cint list result" where
  "transform values table is_inv cfg =
     (if length values \<noteq> oc_L cfg \<or> length table \<noteq> oc_L cfg
      then Inl (Exn ValueError ''transform/table length'')
      else
        let input_width = (if is_inv then 28 else 27) in
        rbind (rmapM (\<lambda>(re, im).
            rbind (fit re input_width) (\<lambda>_.
            rbind (fit im input_width) (\<lambda>_.
            if \<not> is_inv \<and> im \<noteq> 0 then Inl (Exn ValueError ''public forward interface is real-only'')
            else Inr ()))) values) (\<lambda>_.
        recurse is_inv cfg table values))"

definition canonical_pair :: "cint \<Rightarrow> cint \<Rightarrow> cint result" where
  "canonical_pair a b =
     (let re = rounded (fst a + fst b) 1; im = rounded (snd a - snd b) 1 in
      rbind (fit re 28) (\<lambda>_.
      rbind (fit im 28) (\<lambda>_.
      rbind (fit re 28) (\<lambda>_.
      rbind (fit (- im) 28) (\<lambda>_.
      Inr (re, im))))))"

definition canonical :: "cint list \<Rightarrow> oracle_config \<Rightarrow> cint list result" where
  "canonical values cfg =
     (let L = oc_L cfg in
      rbind (rmapM (\<lambda>k. canonical_pair (values ! k) (values ! (L - k))) [1..<L div 2]) (\<lambda>pairs.
      Inr (map (\<lambda>i. if i = 0 then (fst (values ! 0), 0)
                    else if i = L div 2 then (fst (values ! (L div 2)), 0)
                    else if i < L div 2 then pairs ! (i - 1)
                    else if L - i < L div 2 then (fst (pairs ! (L - i - 1)), - snd (pairs ! (L - i - 1)))
                    else (0, 0)) [0..<L])))"

section \<open>The mask\<close>

record oracle_bin =
  ob_frame :: nat
  ob_k :: nat
  ob_re :: int
  ob_im :: int
  ob_mag2 :: int
  ob_eligible :: bool
  ob_pre :: bool
  ob_mask :: bool

record oracle_stats =
  os_unique_bins :: int
  os_unique_suppressed_bins :: int
  os_eligible_unique_bins :: int
  os_eligible_suppressed_bins :: int
  os_eligible_kept_mag2 :: int
  os_eligible_total_mag2 :: int

definition make_bin :: "int \<Rightarrow> nat \<Rightarrow> nat \<Rightarrow> cint \<Rightarrow> oracle_bin" where
  "make_bin threshold frame k value =
     (case value of (re, im) \<Rightarrow>
      let magnitude = re * re + im * im; eligible = (k \<noteq> 0); preliminary = (magnitude < threshold) in
      \<lparr> ob_frame = frame, ob_k = k, ob_re = re, ob_im = im, ob_mag2 = magnitude,
        ob_eligible = eligible, ob_pre = preliminary, ob_mask = (preliminary \<and> eligible) \<rparr>)"

definition bin_weight :: "oracle_config \<Rightarrow> nat \<Rightarrow> int" where
  "bin_weight cfg k = ([1] @ replicate (oc_L cfg div 2 - 1) 2 @ [1]) ! k"

definition mask_bins :: "cint list \<Rightarrow> int \<Rightarrow> nat \<Rightarrow> oracle_config \<Rightarrow> oracle_bin list" where
  "mask_bins values threshold frame cfg =
     map (\<lambda>(k, v). make_bin threshold frame k v)
       (zip [0..<oc_L cfg div 2 + 1] (take (oc_L cfg div 2 + 1) values))"

definition mask_stats :: "oracle_config \<Rightarrow> oracle_bin list \<Rightarrow> oracle_stats" where
  "mask_stats cfg bins =
     \<lparr> os_unique_bins = int (length bins),
       os_unique_suppressed_bins = (\<Sum>b\<leftarrow>bins. of_bool (ob_mask b)),
       os_eligible_unique_bins = (\<Sum>b\<leftarrow>bins. of_bool (ob_eligible b)),
       os_eligible_suppressed_bins = (\<Sum>b\<leftarrow>bins. of_bool (ob_mask b) * of_bool (ob_eligible b)),
       os_eligible_kept_mag2 =
         (\<Sum>b\<leftarrow>bins. if ob_eligible b \<and> \<not> ob_mask b then bin_weight cfg (ob_k b) * ob_mag2 b else 0),
       os_eligible_total_mag2 =
         (\<Sum>b\<leftarrow>bins. if ob_eligible b then bin_weight cfg (ob_k b) * ob_mag2 b else 0) \<rparr>"

definition mask_spectrum :: "cint list \<Rightarrow> int \<Rightarrow> nat \<Rightarrow> oracle_config \<Rightarrow>
    (oracle_bin list \<times> oracle_stats \<times> cint list) result" where
  "mask_spectrum values threshold frame cfg =
     (if \<not> (0 \<le> threshold \<and> threshold < push_bit 56 1) then Inl (Exn ValueError ''THR2 out of range'')
      else
        let bins = mask_bins values threshold frame cfg;
            masked = map (\<lambda>(k, value). if \<not> ob_mask (bins ! min k (oc_L cfg - k)) then value else (0, 0))
              (zip [0..<length values] values) in
        Inr (bins, mask_stats cfg bins, masked))"

section \<open>The run\<close>

text \<open>The loop that finds the active frames by the support of the window.\<close>

definition frame_active :: "int list \<Rightarrow> int list \<Rightarrow> oracle_config \<Rightarrow> nat \<Rightarrow> bool" where
  "frame_active samples window cfg tau \<longleftrightarrow>
     (\<exists>i \<in> set [0..<oc_L cfg]. window ! i \<noteq> 0 \<and>
        0 \<le> int tau - int (oc_L cfg) + int i \<and>
        int tau - int (oc_L cfg) + int i < int (length samples))"

function active_taus :: "int list \<Rightarrow> int list \<Rightarrow> oracle_config \<Rightarrow> nat \<Rightarrow> nat list" where
  "active_taus samples window cfg tau =
     (if oc_H cfg = 0 \<or> \<not> int tau - int (oc_L cfg) < int (length samples) then []
      else (if frame_active samples window cfg tau then [tau] else []) @
           active_taus samples window cfg (tau + oc_H cfg))"
  by pat_completeness auto
termination
  by (relation "measure (\<lambda>(samples, window, cfg, tau). length samples + oc_L cfg - tau)") auto

declare active_taus.simps [simp del]

record oracle_frame =
  of_analysis :: "cint list"
  of_fft :: "cint list"
  of_canonical :: "cint list"
  of_masked :: "cint list"
  of_ifft :: "cint list"
  of_z :: "int list"
  of_bins :: "oracle_bin list"
  of_stats :: oracle_stats

definition source_at :: "int list \<Rightarrow> int \<Rightarrow> int" where
  "source_at samples n = (if 0 \<le> n \<and> n < int (length samples) then samples ! nat n else 0)"

definition run_frame ::
    "int list \<Rightarrow> int \<Rightarrow> int list \<Rightarrow> cint list \<Rightarrow> cint list \<Rightarrow> oracle_config \<Rightarrow>
     nat \<Rightarrow> nat \<Rightarrow> oracle_frame result" where
  "run_frame samples threshold window forward inv_table cfg frame tau =
     (let source = map (\<lambda>i. source_at samples (int tau - int (oc_L cfg) + int i)) [0..<oc_L cfg] in
      rbind (rmapM (\<lambda>(x, w). rbind (fit (x * w) 27) (\<lambda>v. Inr (v, 0 :: int))) (zip source window))
        (\<lambda>analysis.
      rbind (transform analysis forward False cfg) (\<lambda>raw.
      rbind (canonical raw cfg) (\<lambda>can.
      rbind (mask_spectrum can threshold frame cfg) (\<lambda>(bins, stats, masked).
      rbind (transform masked inv_table True cfg) (\<lambda>time.
      rbind (rmapM (\<lambda>((re, im), w). fit (rounded (re * w) (oc_F cfg)) 36) (zip time window)) (\<lambda>z.
      Inr \<lparr> of_analysis = analysis, of_fft = raw, of_canonical = can, of_masked = masked,
            of_ifft = time, of_z = z, of_bins = bins, of_stats = stats \<rparr>)))))))"

text \<open>Overlap-add by absolute output index, each accumulation checked against 37 bits.\<close>

fun overlap_add :: "(nat \<Rightarrow> int) \<Rightarrow> nat \<Rightarrow> int list \<Rightarrow> (nat \<Rightarrow> int) result" where
  "overlap_add contributions target [] = Inr contributions"
| "overlap_add contributions target (v # vs) =
     rbind (fit (contributions target + v) 37) (\<lambda>c.
       overlap_add (contributions(target := c)) (target + 1) vs)"

fun run_frames ::
    "int list \<Rightarrow> int \<Rightarrow> int list \<Rightarrow> cint list \<Rightarrow> cint list \<Rightarrow> oracle_config \<Rightarrow>
     nat \<Rightarrow> nat list \<Rightarrow> (nat \<Rightarrow> int) \<Rightarrow> (oracle_frame list \<times> (nat \<Rightarrow> int)) result" where
  "run_frames samples threshold window forward inv_table cfg frame [] contributions =
     Inr ([], contributions)"
| "run_frames samples threshold window forward inv_table cfg frame (tau # taus) contributions =
     rbind (run_frame samples threshold window forward inv_table cfg frame tau) (\<lambda>f.
     rbind (overlap_add contributions (tau + oc_G cfg) (of_z f)) (\<lambda>contributions.
     rbind (run_frames samples threshold window forward inv_table cfg (frame + 1) taus contributions)
       (\<lambda>(fs, contributions). Inr (f # fs, contributions))))"

record oracle_run =
  or_samples :: nat
  or_taus :: "nat list"
  or_ny :: nat
  or_frames :: "oracle_frame list"
  or_y :: "int list"
  or_totals :: "int list"
  or_sum_abs_err :: int
  or_sum_sq_err :: int
  or_max_abs_err :: int

definition stats_list :: "oracle_stats \<Rightarrow> int list" where
  "stats_list st =
     [os_unique_bins st, os_unique_suppressed_bins st, os_eligible_unique_bins st,
      os_eligible_suppressed_bins st, os_eligible_kept_mag2 st, os_eligible_total_mag2 st]"

definition run ::
    "int list \<Rightarrow> int \<Rightarrow> int list \<Rightarrow> cint list \<Rightarrow> cint list \<Rightarrow> oracle_config \<Rightarrow> oracle_run result" where
  "run samples threshold window forward inv_table cfg =
     (if samples = [] \<or> length window \<noteq> oc_L cfg
      then Inl (Exn ValueError ''empty stream or invalid window'')
      else
        rbind (rmapM (\<lambda>s. fit s (oc_N cfg)) samples) (\<lambda>_.
        if \<exists>w \<in> set window. \<not> (0 \<le> w \<and> w \<le> push_bit (oc_F cfg) 1)
        then Inl (Exn ValueError ''window domain'')
        else
          let taus = active_taus samples window cfg (oc_H cfg) in
          if taus = [] then Inl (Exn ValueError ''no active frame'')
          else
            let ny = last taus + oc_G cfg + oc_L cfg in
            rbind (run_frames samples threshold window forward inv_table cfg 0 taus (\<lambda>_. 0))
              (\<lambda>(fs, contributions).
            let y = map (\<lambda>n. saturated (rounded (contributions n) (oc_F cfg)) (oc_N cfg)) [0..<ny];
                errors = map (\<lambda>n. source_at samples (int n - int (oc_D cfg)) - y ! n) [0..<ny];
                totals = foldl (map2 (+)) (replicate 6 0) (map (\<lambda>f. stats_list (of_stats f)) fs) in
            Inr \<lparr> or_samples = length samples, or_taus = taus, or_ny = ny, or_frames = fs, or_y = y,
                  or_totals = totals, or_sum_abs_err = sum_list (map abs errors),
                  or_sum_sq_err = sum_list (map (\<lambda>e. e * e) errors),
                  or_max_abs_err = foldl max 0 (map abs errors) \<rparr>)))"

section \<open>Rounding and widths\<close>

lemma rounded_nonneg:
  assumes "0 \<le> v"
  shows "is_rounding v k (rounded v k)"
proof -
  define d where "d = (2 :: int) ^ k"
  define q where "q = v div d"
  define m where "m = v mod d"
  have d: "0 < d" by (simp add: d_def)
  have v: "v = d * q + m" "0 \<le> m" "m < d" "0 \<le> q" using d assms by (simp_all add: q_def m_def pos_imp_zdiv_nonneg_iff)
  have r: "rounded v k = q + of_bool (2 * m \<ge> d)"
    using assms by (simp add: rounded_def Let_def d_def q_def m_def)
  show ?thesis
  proof (cases "2 * m \<ge> d")
    case True
    have "d * (q + 1) = d * q + d" by (simp add: algebra_simps)
    then have "v - d * (q + 1) = m - d" "\<bar>v\<bar> \<le> d * \<bar>q + 1\<bar>" using v by auto
    with r True v show ?thesis by (auto simp: is_rounding_def d_def [symmetric])
  next
    case False
    with r v show ?thesis by (auto simp: is_rounding_def d_def [symmetric])
  qed
qed

interpretation orc: round_ties_away rounded
proof
  fix v k
  show "is_rounding v k (rounded v k)"
  proof (cases "0 \<le> v")
    case True
    then show ?thesis by (rule rounded_nonneg)
  next
    case False
    then have "rounded v k = - rounded (- v) k" by (simp add: rounded_def Let_def)
    with is_rounding_neg [OF rounded_nonneg, of "- v" k] False show ?thesis by simp
  qed
qed

text \<open>
  The oracle rounds to nearest with ties away from zero. The result is at most half a unit from the exact
  quotient, on an exact tie it is the neighbour of larger magnitude, and it is the only integer with these two
  properties, whichever sign the value has and however large it is.
\<close>

theorem rounded_correct:
  "2 * \<bar>v - 2 ^ k * r\<bar> \<le> 2 ^ k \<and> (2 * \<bar>v - 2 ^ k * r\<bar> = 2 ^ k \<longrightarrow> \<bar>v\<bar> \<le> 2 ^ k * \<bar>r\<bar>) \<longleftrightarrow>
   rounded v k = r"
  using orc.rounding [of v k] orc.unique [of v k r] by (auto simp: is_rounding_def)

lemma fit_Inr [result_simps]:
  "fit v w = Inr x \<longleftrightarrow> x = v \<and> - (2 ^ (w - 1)) \<le> v \<and> v < 2 ^ (w - 1)"
  by (auto simp: fit_def)

lemma fit_0 [simp]: "fit 0 w = Inr 0"
  by (simp add: fit_def)

lemma saturated_range: "- (2 ^ (w - 1)) \<le> saturated v w \<and> saturated v w < 2 ^ (w - 1)"
proof -
  have "(0 :: int) < 2 ^ (w - 1)" by simp
  then show ?thesis unfolding saturated_def push_bit_of_1 min_def max_def by auto
qed

lemma saturated_id: "- (2 ^ (w - 1)) \<le> v \<Longrightarrow> v < 2 ^ (w - 1) \<Longrightarrow> saturated v w = v"
  by (simp add: saturated_def)

section \<open>Spectra\<close>

definition fits_width :: "nat \<Rightarrow> cint \<Rightarrow> bool" where
  "fits_width w z \<longleftrightarrow> - (2 ^ (w - 1)) \<le> fst z \<and> fst z < 2 ^ (w - 1) \<and>
     - (2 ^ (w - 1)) \<le> snd z \<and> snd z < 2 ^ (w - 1)"

lemma butterfly_fits:
  "butterfly is_inv F a b w = Inr (x, y) \<Longrightarrow>
     fits_width (if is_inv then 36 else 28) x \<and> fits_width (if is_inv then 36 else 28) y"
  by (auto simp: butterfly_def fits_width_def result_simps Let_def split: prod.splits)

text \<open>A transform of a power-of-two length keeps the length, and every output fits its stage width.\<close>

lemma recurse_fits:
  "recurse is_inv cfg table items = Inr out \<Longrightarrow> length items = 2 ^ n \<Longrightarrow>
     length out = length items \<and> (0 < n \<longrightarrow> list_all (fits_width (if is_inv then 36 else 28)) out)"
proof (induction n arbitrary: items out)
  case 0
  then show ?case by (subst (asm) recurse.simps) (simp add: Let_def)
next
  case (Suc n)
  have half: "length (evens items) = 2 ^ n" "length (odds items) = 2 ^ n"
    using Suc.prems(2) by (simp_all add: length_evens length_odds)
  have "length items = 2 * 2 ^ n" "(1 :: nat) \<le> 2 ^ n" using Suc.prems(2) by simp_all
  then have big: "\<not> length items \<le> 1" by linarith
  obtain ev od pairs where rec: "recurse is_inv cfg table (evens items) = Inr ev"
      "recurse is_inv cfg table (odds items) = Inr od"
    and pairs: "rmapM (\<lambda>(k, a, b). butterfly is_inv (oc_F cfg) a b (table ! (k * oc_L cfg div length items)))
        (zip [0..<length ev] (zip ev od)) = Inr pairs"
    and out: "out = map fst pairs @ map snd pairs"
    using Suc.prems(1) big by (subst (asm) recurse.simps) (auto simp: Let_def rbind_Inr_iff)
  have len: "length ev = 2 ^ n" "length od = 2 ^ n"
    using Suc.IH [OF rec(1) half(1)] Suc.IH [OF rec(2) half(2)] half by simp_all
  have "length pairs = 2 ^ n" using rmapM_length [OF pairs] len by simp
  moreover have "fits_width (if is_inv then 36 else 28) (fst p) \<and> fits_width (if is_inv then 36 else 28) (snd p)"
    if p: "p \<in> set pairs" for p
  proof -
    obtain i where i: "i < length pairs" "p = pairs ! i" using p by (auto simp: in_set_conv_nth)
    then have "butterfly is_inv (oc_F cfg) (ev ! i) (od ! i) (table ! (i * oc_L cfg div length items)) =
        Inr (fst p, snd p)"
      using pairs len by (simp add: rmapM_Inr_iff list_all2_conv_all_nth)
    then show ?thesis by (rule butterfly_fits)
  qed
  ultimately show ?case
    using Suc.prems(2) by (auto simp: out list_all_iff)
qed

text \<open>
  C20: The transforms are width-safe. Whatever a transform of a power-of-two length returns has the length of
  its input, and every real and imaginary part fits the declared stage width, 28 bits forward and 36 bits
  inverse; an overflow is an exception, never a wrapped value.
\<close>

theorem transform_width_safe:
  assumes "transform values table is_inv cfg = Inr out" "oc_L cfg = 2 ^ n" "0 < n"
  shows "length out = oc_L cfg \<and> list_all (fits_width (if is_inv then 36 else 28)) out"
  using assms recurse_fits [of is_inv cfg table "values" out n]
  by (auto simp: transform_def Let_def rbind_Inr_iff split: if_splits)

definition hermitian :: "oracle_config \<Rightarrow> cint list \<Rightarrow> bool" where
  "hermitian cfg zs \<longleftrightarrow> length zs = oc_L cfg \<and> snd (zs ! 0) = 0 \<and> snd (zs ! (oc_L cfg div 2)) = 0 \<and>
     (\<forall>k. 0 < k \<longrightarrow> k < oc_L cfg \<longrightarrow> zs ! (oc_L cfg - k) = (fst (zs ! k), - snd (zs ! k)))"

lemma canonical_hermitian:
  assumes "canonical values cfg = Inr out" "even (oc_L cfg)" "0 < oc_L cfg"
  shows "hermitian cfg out"
proof -
  define L where "L = oc_L cfg"
  have "\<exists>pairs. out = map (\<lambda>i. if i = 0 then (fst (values ! 0), 0)
        else if i = L div 2 then (fst (values ! (L div 2)), 0)
        else if i < L div 2 then pairs ! (i - 1)
        else if L - i < L div 2 then (fst (pairs ! (L - i - 1)), - snd (pairs ! (L - i - 1)))
        else (0, 0)) [0..<L]"
    using assms(1) unfolding canonical_def Let_def rbind_Inr_iff L_def by blast
  then obtain pairs where out: "out = map (\<lambda>i. if i = 0 then (fst (values ! 0), 0)
        else if i = L div 2 then (fst (values ! (L div 2)), 0)
        else if i < L div 2 then pairs ! (i - 1)
        else if L - i < L div 2 then (fst (pairs ! (L - i - 1)), - snd (pairs ! (L - i - 1)))
        else (0, 0)) [0..<L]" ..
  obtain m where m: "L = 2 * m" "0 < m" using assms(2,3) by (auto simp: L_def)
  have "out ! (L - k) = (fst (out ! k), - snd (out ! k))" if "0 < k" "k < L" for k
  proof -
    consider "k < m" | "k = m" | "m < k" by linarith
    then show ?thesis using that m by cases (auto simp: out)
  qed
  then show ?thesis
    using m by (simp add: hermitian_def L_def [symmetric] out)
qed

section \<open>The mask keeps the DC bin and the symmetry\<close>

definition mag2 :: "cint \<Rightarrow> int" where
  "mag2 z = fst z * fst z + snd z * snd z"

lemma mag2_nonneg [simp]: "0 \<le> mag2 z"
  by (simp add: mag2_def)

lemma mag2_mirror: "hermitian cfg zs \<Longrightarrow> 0 < k \<Longrightarrow> k < oc_L cfg \<Longrightarrow> mag2 (zs ! (oc_L cfg - k)) = mag2 (zs ! k)"
  by (simp add: hermitian_def mag2_def)

lemma make_bin_fields:
  "ob_mag2 (make_bin thr frame k v) = mag2 v" "ob_eligible (make_bin thr frame k v) \<longleftrightarrow> k \<noteq> 0"
  "ob_mask (make_bin thr frame k v) \<longleftrightarrow> mag2 v < thr \<and> k \<noteq> 0" "ob_k (make_bin thr frame k v) = k"
  by (simp_all add: make_bin_def mag2_def Let_def split: prod.splits)

lemma mask_bins_nth:
  assumes "length vs = oc_L cfg" "0 < oc_L cfg" "k \<le> oc_L cfg div 2"
  shows "mask_bins vs thr frame cfg ! k = make_bin thr frame k (vs ! k)"
proof -
  have "oc_L cfg div 2 < oc_L cfg" using assms(2) by simp
  then show ?thesis using assms by (simp add: mask_bins_def del: upt_Suc)
qed

lemma length_mask_bins:
  "length vs = oc_L cfg \<Longrightarrow> 0 < oc_L cfg \<Longrightarrow> length (mask_bins vs thr frame cfg) = oc_L cfg div 2 + 1"
  by (auto simp: mask_bins_def min_def)

lemma mask_spectrum_values:
  assumes "mask_spectrum vs thr frame cfg = Inr (bins, stats, masked)" "hermitian cfg vs" "k < oc_L cfg"
  shows "length masked = oc_L cfg \<and> masked ! k = (if k \<noteq> 0 \<and> mag2 (vs ! k) < thr then (0, 0) else vs ! k)"
proof -
  have len: "length vs = oc_L cfg" using assms(2) by (simp add: hermitian_def)
  have masked: "masked = map (\<lambda>(k, v). if \<not> ob_mask (mask_bins vs thr frame cfg ! min k (oc_L cfg - k)) then v else (0, 0))
      (zip [0..<length vs] vs)"
    using assms(1) by (auto simp: mask_spectrum_def Let_def split: if_splits)
  have "min k (oc_L cfg - k) \<le> oc_L cfg div 2" by (simp add: min_def) linarith
  then have bin: "mask_bins vs thr frame cfg ! min k (oc_L cfg - k) =
      make_bin thr frame (min k (oc_L cfg - k)) (vs ! min k (oc_L cfg - k))"
    using assms(3) len by (simp add: mask_bins_nth)
  have "mag2 (vs ! min k (oc_L cfg - k)) = mag2 (vs ! k)"
    using mag2_mirror [OF assms(2), of k] assms(3) by (cases "k = 0") (simp_all add: min_def)
  with bin show ?thesis using assms(3) len by (simp add: masked make_bin_fields)
qed

lemma sum_list_weighted_nonneg:
  "(\<And>b. b \<in> set bs \<Longrightarrow> (0 :: int) \<le> f b) \<Longrightarrow> 0 \<le> sum_list (map f bs)"
  by (induction bs) auto

lemma bin_weight_nonneg: "k \<le> oc_L cfg div 2 \<Longrightarrow> 0 \<le> bin_weight cfg k"
  by (cases "k = oc_L cfg div 2") (auto simp: bin_weight_def nth_Cons nth_append split: nat.splits)

lemma in_mask_bins:
  "b \<in> set (mask_bins vs thr frame cfg) \<Longrightarrow> ob_k b \<le> oc_L cfg div 2 \<and> 0 \<le> ob_mag2 b"
  by (auto simp: mask_bins_def in_set_zip make_bin_fields simp del: upt_Suc)

lemma mask_stats_ordered:
  fixes cfg vs thr frame
  defines "st \<equiv> mask_stats cfg (mask_bins vs thr frame cfg)"
  shows "0 \<le> os_eligible_suppressed_bins st \<and> os_eligible_suppressed_bins st \<le> os_eligible_unique_bins st \<and>
    os_eligible_unique_bins st \<le> os_unique_bins st \<and>
    0 \<le> os_eligible_kept_mag2 st \<and> os_eligible_kept_mag2 st \<le> os_eligible_total_mag2 st"
proof -
  have w: "0 \<le> bin_weight cfg (ob_k b) * ob_mag2 b" if "b \<in> set (mask_bins vs thr frame cfg)" for b
    using in_mask_bins [OF that] bin_weight_nonneg [of "ob_k b" cfg] by simp
  have "(\<Sum>b\<leftarrow>bs. of_bool (ob_eligible b)) \<le> int (length bs)" for bs :: "oracle_bin list"
    by (induction bs) auto
  then show ?thesis
    unfolding st_def mask_stats_def
    by (auto intro!: sum_list_weighted_nonneg sum_list_mono simp: w)
qed

text \<open>
  C21: Masking a canonical spectrum suppresses exactly the bins, other than DC, whose squared magnitude is below
  the threshold, leaves every other bin untouched and keeps the Hermitian symmetry the inverse transform needs;
  the frame statistics are ordered (suppressed within eligible within all bins, kept energy within total energy).
\<close>

theorem mask_spectrum_correct:
  assumes "mask_spectrum vs thr frame cfg = Inr (bins, stats, masked)" "hermitian cfg vs" "even (oc_L cfg)" "0 < oc_L cfg"
  shows "hermitian cfg masked \<and>
    (\<forall>k < oc_L cfg. masked ! k = (if k \<noteq> 0 \<and> mag2 (vs ! k) < thr then (0, 0) else vs ! k)) \<and>
    0 \<le> os_eligible_suppressed_bins stats \<and> os_eligible_suppressed_bins stats \<le> os_eligible_unique_bins stats \<and>
    os_eligible_unique_bins stats \<le> os_unique_bins stats \<and> os_unique_bins stats = int (oc_L cfg div 2 + 1) \<and>
    0 \<le> os_eligible_kept_mag2 stats \<and> os_eligible_kept_mag2 stats \<le> os_eligible_total_mag2 stats"
proof -
  note nth = mask_spectrum_values [OF assms(1,2)]
  have "hermitian cfg masked"
    unfolding hermitian_def
  proof (intro conjI allI impI)
    show "length masked = oc_L cfg" using nth [OF assms(4)] ..
    show "snd (masked ! 0) = 0" "snd (masked ! (oc_L cfg div 2)) = 0"
      using nth [OF assms(4)] nth [of "oc_L cfg div 2"] assms(2,4) by (simp_all add: hermitian_def)
    fix k assume k: "0 < k" "k < oc_L cfg"
    then have "vs ! (oc_L cfg - k) = (fst (vs ! k), - snd (vs ! k))" using assms(2) by (simp add: hermitian_def)
    then show "masked ! (oc_L cfg - k) = (fst (masked ! k), - snd (masked ! k))"
      using nth [of k] nth [of "oc_L cfg - k"] mag2_mirror [OF assms(2) k] k by simp
  qed
  moreover have "stats = mask_stats cfg (mask_bins vs thr frame cfg)" "length vs = oc_L cfg"
    using assms(1,2) by (auto simp: mask_spectrum_def Let_def hermitian_def split: if_splits)
  ultimately show ?thesis
    using nth mask_stats_ordered [of cfg vs thr frame] length_mask_bins [of vs cfg thr frame] assms(4)
    by (simp add: mask_stats_def)
qed

section \<open>Frames and outputs of a run\<close>

text \<open>The window of the project is zero at its first tap only (periodic Hann).\<close>

definition hann_support :: "oracle_config \<Rightarrow> int list \<Rightarrow> bool" where
  "hann_support cfg window \<longleftrightarrow> length window = oc_L cfg \<and> window ! 0 = 0 \<and>
     (\<forall>i \<in> {1..<oc_L cfg}. window ! i \<noteq> 0)"

lemma frame_active_iff:
  assumes "hann_support cfg window" "2 \<le> oc_L cfg" "samples \<noteq> []" "0 < tau"
  shows "frame_active samples window cfg tau \<longleftrightarrow> tau + 2 \<le> length samples + oc_L cfg"
proof
  assume "frame_active samples window cfg tau"
  then obtain i where i: "i < oc_L cfg" "window ! i \<noteq> 0" "int tau - int (oc_L cfg) + int i < int (length samples)"
    by (auto simp: frame_active_def)
  then have "i \<noteq> 0" using assms(1) by (auto simp: hann_support_def intro: gr0I)
  with i show "tau + 2 \<le> length samples + oc_L cfg" by linarith
next
  assume le: "tau + 2 \<le> length samples + oc_L cfg"
  define i where "i = max 1 (oc_L cfg - tau)"
  have i: "1 \<le> i" "i < oc_L cfg" "0 \<le> int tau - int (oc_L cfg) + int i"
      "int tau - int (oc_L cfg) + int i < int (length samples)"
    using assms(2-4) le by (auto simp: i_def max_def of_nat_diff Suc_le_eq)
  then have "window ! i \<noteq> 0" using assms(1) by (simp add: hann_support_def)
  with i show "frame_active samples window cfg tau" by (auto simp: frame_active_def)
qed

lemma active_taus_unfold:
  assumes "0 < oc_H cfg"
  shows "active_taus samples window cfg tau =
     (if tau < length samples + oc_L cfg
      then (if frame_active samples window cfg tau then [tau] else []) @
           active_taus samples window cfg (tau + oc_H cfg)
      else [])"
proof -
  have "int tau - int (oc_L cfg) < int (length samples) \<longleftrightarrow> tau < length samples + oc_L cfg" by linarith
  with assms show ?thesis by (subst active_taus.simps) simp
qed

text \<open>Scanning the window support finds exactly the multiples of the hop up to the batch formula's frame count.\<close>

lemma active_taus_geometry:
  assumes "hann_support cfg window" "2 \<le> oc_L cfg" "samples \<noteq> []" "0 < oc_H cfg"
  shows "0 < k \<Longrightarrow> active_taus samples window cfg (k * oc_H cfg) =
    map (\<lambda>j. j * oc_H cfg) [k..<(length samples + oc_L cfg - 2) div oc_H cfg + 1]"
proof (induction "length samples + oc_L cfg - k" arbitrary: k rule: less_induct)
  case less
  define S where "S = length samples + oc_L cfg"
  have S: "3 \<le> S" using assms(2,3) by (cases samples) (simp_all add: S_def)
  have in_range: "k \<le> (S - 2) div oc_H cfg \<longleftrightarrow> k * oc_H cfg + 2 \<le> S"
    using assms(4) S by (auto simp: less_eq_div_iff_mult_less_eq)
  have act: "frame_active samples window cfg (k * oc_H cfg) \<longleftrightarrow> k * oc_H cfg + 2 \<le> S"
    using frame_active_iff [OF assms(1-3), of "k * oc_H cfg"] less.prems assms(4) by (simp add: S_def)
  show ?case
  proof (cases "k * oc_H cfg < S")
    case False
    with in_range assms(4) show ?thesis
      by (subst active_taus_unfold) (auto simp: S_def [symmetric])
  next
    case True
    have "k \<le> k * oc_H cfg" using assms(4) by simp
    with True have "S - (k + 1) < S - k" by linarith
    then have IH: "active_taus samples window cfg ((k + 1) * oc_H cfg) =
        map (\<lambda>j. j * oc_H cfg) [k + 1..<(S - 2) div oc_H cfg + 1]"
      using less.hyps [of "k + 1"] by (simp add: S_def del: upt_Suc)
    have "active_taus samples window cfg (k * oc_H cfg) =
        (if k * oc_H cfg + 2 \<le> S then [k * oc_H cfg] else []) @
        active_taus samples window cfg ((k + 1) * oc_H cfg)"
      using True assms(4) act by (subst active_taus_unfold) (simp_all add: S_def algebra_simps)
    with IH in_range show ?thesis
      by (auto simp: S_def [symmetric] upt_conv_Cons simp del: upt_Suc)
  qed
qed

lemma run_cases:
  assumes "run samples thr window fwd ivt cfg = Inr r"
  obtains fs c where "or_taus r = active_taus samples window cfg (oc_H cfg)" "or_taus r \<noteq> []"
    "or_ny r = last (or_taus r) + oc_G cfg + oc_L cfg" "or_samples r = length samples" "samples \<noteq> []"
    "run_frames samples thr window fwd ivt cfg 0 (or_taus r) (\<lambda>_. 0) = Inr (fs, c)" "or_frames r = fs"
    "or_y r = map (\<lambda>n. saturated (rounded (c n) (oc_F cfg)) (oc_N cfg)) [0..<or_ny r]"
proof -
  from assms show thesis
    unfolding run_def Let_def
    by (auto simp: rbind_Inr_iff split: if_splits intro!: that)
qed

lemma run_frames_length:
  "run_frames samples thr window fwd ivt cfg frame taus c = Inr (fs, d) \<Longrightarrow> length fs = length taus"
  by (induction samples thr window fwd ivt cfg frame taus c arbitrary: fs d rule: run_frames.induct)
    (auto simp: rbind_Inr_iff)

lemma run_geometry_facts:
  assumes "run samples thr window fwd ivt cfg = Inr r" "hann_support cfg window" "2 \<le> oc_L cfg" "0 < oc_H cfg"
  defines "nframes \<equiv> (length samples + oc_L cfg - 2) div oc_H cfg"
  shows "or_taus r = map (\<lambda>j. j * oc_H cfg) [1..<nframes + 1] \<and> length (or_frames r) = nframes \<and> 0 < nframes \<and>
    or_ny r = nframes * oc_H cfg + oc_G cfg + oc_L cfg \<and> length (or_y r) = or_ny r \<and>
    (\<forall>y \<in> set (or_y r). - (2 ^ (oc_N cfg - 1)) \<le> y \<and> y < 2 ^ (oc_N cfg - 1))"
  using assms(1)
proof (rule run_cases)
  fix fs c
  assume r: "or_taus r = active_taus samples window cfg (oc_H cfg)" "or_taus r \<noteq> []"
    "or_ny r = last (or_taus r) + oc_G cfg + oc_L cfg" "samples \<noteq> []"
    "run_frames samples thr window fwd ivt cfg 0 (or_taus r) (\<lambda>_. 0) = Inr (fs, c)" "or_frames r = fs"
    "or_y r = map (\<lambda>n. saturated (rounded (c n) (oc_F cfg)) (oc_N cfg)) [0..<or_ny r]"
  have taus: "or_taus r = map (\<lambda>j. j * oc_H cfg) [1..<nframes + 1]"
    using active_taus_geometry [OF assms(2,3) r(4) assms(4), of 1] r(1) by (simp add: nframes_def del: upt_Suc)
  have pos: "0 < nframes" using r(2) taus by (cases nframes) auto
  then have "last (or_taus r) = nframes * oc_H cfg" by (simp add: taus last_map)
  moreover have "length (or_frames r) = nframes" using run_frames_length [OF r(5)] r(6) taus by simp
  moreover have "length (or_y r) = or_ny r" using r(7) by simp
  moreover have "\<forall>y \<in> set (or_y r). - (2 ^ (oc_N cfg - 1)) \<le> y \<and> y < 2 ^ (oc_N cfg - 1)"
    using r(7) saturated_range by auto
  ultimately show ?thesis using taus pos r(3) by (simp del: upt_Suc)
qed

text \<open>
  A run with a window supported like the project's Hann window produces the frames and outputs of the batch
  formula. The frame anchors found by scanning the window support are the multiples \<open>H, 2H, \<dots>\<close> of the hop, as
  many as \<open>(Ns + L - 2) div H\<close>; there is one frame record for each; the number of outputs is the last anchor
  plus \<open>G + L\<close>; every output lies in the N-bit range.
\<close>

theorem run_geometry:
  assumes "run samples thr window fwd ivt cfg = Inr r" "hann_support cfg window" "2 \<le> oc_L cfg" "0 < oc_H cfg"
  defines "nframes \<equiv> (length samples + oc_L cfg - 2) div oc_H cfg"
  shows "or_taus r = map (\<lambda>j. j * oc_H cfg) [1..<nframes + 1] \<and> length (or_frames r) = nframes \<and> 0 < nframes \<and>
    or_ny r = nframes * oc_H cfg + oc_G cfg + oc_L cfg \<and> length (or_y r) = or_ny r \<and>
    (\<forall>y \<in> set (or_y r). - (2 ^ (oc_N cfg - 1)) \<le> y \<and> y < 2 ^ (oc_N cfg - 1))"
  using run_geometry_facts [OF assms(1-4)] unfolding nframes_def .

section \<open>Silence\<close>

lemma rounded_0 [simp]: "rounded 0 k = 0"
  by (rule orc.zero)

lemma butterfly_zero [simp]: "butterfly is_inv F (0, 0) (0, 0) w = Inr ((0, 0), (0, 0))"
  by (simp add: butterfly_def Let_def split: prod.splits)

lemma set_evens: "set (evens xs) \<subseteq> set xs"
  by (induction xs rule: evens.induct) auto

lemma evens_replicate: "evens (replicate n z) = replicate ((n + 1) div 2) z"
  using set_evens [of "replicate n z"] by (intro replicate_eqI) (auto simp: length_evens)

lemma odds_replicate: "odds (replicate n z) = replicate (n div 2) z"
  by (cases n) (simp_all add: odds_def evens_replicate)

lemma rmapM_const: "(\<And>x. x \<in> set xs \<Longrightarrow> f x = Inr z) \<Longrightarrow> rmapM f xs = Inr (replicate (length xs) z)"
  by (subst rmapM_Inr_map [where g = "\<lambda>_. z"]) (simp_all add: map_replicate_const)

lemma recurse_zero: "recurse is_inv cfg table (replicate (2 ^ n) (0, 0)) = Inr (replicate (2 ^ n) (0, 0))"
proof (induction n)
  case 0
  show ?case by (subst recurse.simps) simp
next
  case (Suc n)
  have ev: "evens (replicate (2 ^ Suc n) (0 :: int, 0 :: int)) = replicate (2 ^ n) (0, 0)"
    and od: "odds (replicate (2 ^ Suc n) (0 :: int, 0 :: int)) = replicate (2 ^ n) (0, 0)"
    by (simp_all add: evens_replicate odds_replicate)
  have "2 ^ Suc n = 2 * (2 :: nat) ^ n" "(1 :: nat) \<le> 2 ^ n" by simp_all
  then have big: "\<not> (2 :: nat) ^ Suc n \<le> 1" by linarith
  have "rmapM (\<lambda>(k, a, b). butterfly is_inv (oc_F cfg) a b (table ! (k * oc_L cfg div 2 ^ Suc n)))
      (zip [0..<2 ^ n] (zip (replicate (2 ^ n) (0, 0)) (replicate (2 ^ n) (0, 0)))) =
      Inr (replicate (2 ^ n) ((0, 0), (0, 0)))"
    by (subst rmapM_const [where z = "((0, 0), (0, 0))"]) (auto simp: set_zip)
  with big show ?case
    by (subst recurse.simps) (simp add: ev od Suc.IH Let_def flip: replicate_add mult_2 del: power_Suc, simp)
qed

abbreviation silent_spectrum :: "oracle_config \<Rightarrow> cint list" where
  "silent_spectrum cfg \<equiv> replicate (oc_L cfg) (0, 0)"

lemma transform_zero:
  assumes "oc_L cfg = 2 ^ n" "length table = oc_L cfg"
  shows "transform (silent_spectrum cfg) table is_inv cfg = Inr (silent_spectrum cfg)"
proof -
  have "rmapM (\<lambda>(re, im). rbind (fit re w) (\<lambda>_. rbind (fit im w) (\<lambda>_.
      if \<not> is_inv \<and> im \<noteq> 0 then Inl e else Inr ()))) (silent_spectrum cfg) = Inr (replicate (oc_L cfg) ())" for w e
    by (subst rmapM_const [where z = "()"]) auto
  then show ?thesis using assms recurse_zero [of is_inv cfg table n] by (simp add: transform_def)
qed

lemma canonical_zero: "canonical (silent_spectrum cfg) cfg = Inr (silent_spectrum cfg)"
proof -
  have "rmapM (\<lambda>k. canonical_pair (silent_spectrum cfg ! k) (silent_spectrum cfg ! (oc_L cfg - k))) [1..<oc_L cfg div 2]
      = Inr (replicate (oc_L cfg div 2 - 1) (0, 0))"
    by (subst rmapM_const [where z = "(0, 0)"]) (auto simp: canonical_pair_def)
  then show ?thesis by (auto simp: canonical_def Let_def intro!: nth_equalityI)
qed

lemma mask_zero:
  assumes "0 \<le> thr" "thr < 2 ^ 56"
  shows "\<exists>bins stats. mask_spectrum (silent_spectrum cfg) thr frame cfg = Inr (bins, stats, silent_spectrum cfg)"
proof -
  have "map (\<lambda>(k, v). if P k then v else (0, 0)) (zip [0..<oc_L cfg] (silent_spectrum cfg)) = silent_spectrum cfg" for P
    by (auto intro!: nth_equalityI)
  then show ?thesis using assms by (simp add: mask_spectrum_def Let_def)
qed

definition run_params_ok :: "int \<Rightarrow> int list \<Rightarrow> cint list \<Rightarrow> cint list \<Rightarrow> oracle_config \<Rightarrow> bool" where
  "run_params_ok thr window fwd ivt cfg \<longleftrightarrow> 0 \<le> thr \<and> thr < 2 ^ 56 \<and> length window = oc_L cfg \<and>
     (\<forall>w \<in> set window. 0 \<le> w \<and> w \<le> 2 ^ oc_F cfg) \<and> length fwd = oc_L cfg \<and> length ivt = oc_L cfg"

lemma run_frame_zero:
  assumes "run_params_ok thr window fwd ivt cfg" "oc_L cfg = 2 ^ n"
  shows "\<exists>f. run_frame (replicate ns 0) thr window fwd ivt cfg frame tau = Inr f \<and> of_z f = replicate (oc_L cfg) 0"
proof -
  have src: "map (\<lambda>i. source_at (replicate ns 0) (int tau - int (oc_L cfg) + int i)) [0..<oc_L cfg] = replicate (oc_L cfg) 0"
    by (auto simp: source_at_def intro!: nth_equalityI)
  have "length window = oc_L cfg" using assms(1) by (simp add: run_params_ok_def)
  then have an: "rmapM (\<lambda>(x, w). rbind (fit (x * w) 27) (\<lambda>v. Inr (v, 0 :: int))) (zip (replicate (oc_L cfg) 0) window) =
      Inr (silent_spectrum cfg)"
    and z: "rmapM (\<lambda>((re, im), w). fit (rounded (re * w) (oc_F cfg)) 36) (zip (silent_spectrum cfg) window) =
      Inr (replicate (oc_L cfg) 0)"
    by (subst rmapM_const, auto simp: set_zip)+
  obtain bins stats where "mask_spectrum (silent_spectrum cfg) thr frame cfg = Inr (bins, stats, silent_spectrum cfg)"
    using mask_zero assms(1) unfolding run_params_ok_def by blast
  moreover have "transform (silent_spectrum cfg) fwd False cfg = Inr (silent_spectrum cfg)"
      "transform (silent_spectrum cfg) ivt True cfg = Inr (silent_spectrum cfg)"
    using transform_zero [OF assms(2)] assms(1) by (simp_all only: run_params_ok_def)
  ultimately show ?thesis
    by (simp add: run_frame_def src an z canonical_zero Let_def)
qed

lemma overlap_add_zero: "overlap_add (\<lambda>_. 0) target (replicate k 0) = Inr (\<lambda>_. 0)"
proof (induction k arbitrary: target)
  case (Suc k)
  have "(\<lambda>_. 0 :: int)(target := 0) = (\<lambda>_. 0)" by (rule ext) simp
  with Suc show ?case by simp
qed simp

lemma run_frames_zero:
  assumes "run_params_ok thr window fwd ivt cfg" "oc_L cfg = 2 ^ n"
  shows "\<exists>fs. run_frames (replicate ns 0) thr window fwd ivt cfg frame taus (\<lambda>_. 0) = Inr (fs, \<lambda>_. 0)"
proof (induction taus arbitrary: frame)
  case (Cons tau taus)
  obtain f fs where "run_frame (replicate ns 0) thr window fwd ivt cfg frame tau = Inr f" "of_z f = replicate (oc_L cfg) 0"
      "run_frames (replicate ns 0) thr window fwd ivt cfg (frame + 1) taus (\<lambda>_. 0) = Inr (fs, \<lambda>_. 0)"
    using run_frame_zero [OF assms] Cons.IH by blast
  then show ?case by (simp add: overlap_add_zero)
qed simp

lemma run_silent:
  assumes "run_params_ok thr window fwd ivt cfg" "hann_support cfg window" "oc_L cfg = 2 ^ n" "0 < n"
    "0 < oc_H cfg" "oc_H cfg < oc_L cfg" "0 < ns"
  shows "\<exists>r. run (replicate ns 0) thr window fwd ivt cfg = Inr r \<and> or_y r = replicate (or_ny r) 0 \<and>
    or_sum_abs_err r = 0 \<and> or_sum_sq_err r = 0 \<and> or_max_abs_err r = 0"
proof -
  have L: "2 \<le> oc_L cfg" using assms(5,6) by linarith
  define taus where "taus = active_taus (replicate ns 0) window cfg (oc_H cfg)"
  have "oc_H cfg \<le> ns + oc_L cfg - 2" using assms(6,7) L by linarith
  then have "1 \<le> (ns + oc_L cfg - 2) div oc_H cfg" using assms(5) by (simp add: less_eq_div_iff_mult_less_eq)
  then have taus: "taus \<noteq> []"
    using active_taus_geometry [OF assms(2) L _ assms(5), of "replicate ns 0" 1] assms(7) by (simp add: taus_def)
  obtain fs where fs: "run_frames (replicate ns 0) thr window fwd ivt cfg 0 taus (\<lambda>_. 0) = Inr (fs, \<lambda>_. 0)"
    using run_frames_zero [OF assms(1,3)] by blast
  have chk: "rmapM (\<lambda>s. fit s (oc_N cfg)) (replicate ns 0) = Inr (replicate ns 0)"
    by (subst rmapM_const [where z = 0]) auto
  have win: "\<not> (\<exists>w \<in> set window. \<not> (0 \<le> w \<and> w \<le> 2 ^ oc_F cfg))" "length window = oc_L cfg"
    using assms(1) by (auto simp: run_params_ok_def)
  have src: "source_at (replicate ns 0) i = 0" for i by (auto simp: source_at_def)
  have sat: "saturated 0 w = 0" for w by (rule saturated_id) simp_all
  have mx: "foldl max 0 (replicate k (0 :: int)) = 0" for k by (induction k) simp_all
  have err: "map (f \<circ> (\<lambda>n. - replicate k 0 ! n)) [0..<k] = replicate k (f 0)" for f :: "int \<Rightarrow> int" and k
    by (auto intro!: nth_equalityI)
  show ?thesis
    using assms(7) taus fs chk win
    by (simp add: run_def Let_def taus_def [symmetric] src sat mx err map_replicate_const sum_list_replicate)
qed

text \<open>
  The oracle completes on silence and is silent. For every power-of-two transform length, every valid window,
  threshold and table, and every positive number of zero samples, the run returns, all outputs are zero and
  every error metric is zero.
\<close>

theorem silence_in_silence_out:
  assumes "run_params_ok thr window fwd ivt cfg" "hann_support cfg window" "oc_L cfg = 2 ^ n" "0 < n"
    "0 < oc_H cfg" "oc_H cfg < oc_L cfg" "0 < ns"
  shows "\<exists>r. run (replicate ns 0) thr window fwd ivt cfg = Inr r \<and> or_y r = replicate (or_ny r) 0 \<and>
    or_sum_abs_err r = 0 \<and> or_sum_sq_err r = 0 \<and> or_max_abs_err r = 0"
  using assms by (rule run_silent)

section \<open>Witnesses\<close>

text \<open>A four-point configuration with exact twiddles.\<close>

definition tiny_config :: oracle_config where
  "tiny_config = \<lparr> oc_N = 12, oc_L = 4, oc_H = 2, oc_F = 1, oc_G = 2, oc_D = 6 \<rparr>"

definition tiny_window :: "int list" where
  "tiny_window = [0, 1, 2, 1]"

definition tiny_forward :: "cint list" where
  "tiny_forward = [(2, 0), (0, -2), (-2, 0), (0, 2)]"

definition tiny_inverse :: "cint list" where
  "tiny_inverse = [(2, 0), (0, 2), (-2, 0), (0, -2)]"

lemma tiny_params:
  "run_params_ok 10 tiny_window tiny_forward tiny_inverse tiny_config" "hann_support tiny_config tiny_window"
  by (simp_all add: run_params_ok_def hann_support_def tiny_config_def tiny_window_def tiny_forward_def tiny_inverse_def
      nth_Cons' atLeastLessThan_nat_numeral)

lemma tiny_run: "\<exists>r. run [5, -3, 900] 10 tiny_window tiny_forward tiny_inverse tiny_config = Inr r"
proof -
  have "case run [5, -3, 900] 10 tiny_window tiny_forward tiny_inverse tiny_config of Inl _ \<Rightarrow> False | Inr _ \<Rightarrow> True"
    by code_simp
  then show ?thesis by (simp split: sum.splits)
qed

theorem rounded_correct_witness: "rounded (-5) 1 = -3"
  using rounded_correct [of "-5" 1 "-3"] by simp

theorem transform_width_safe_witness:
  "length [(3, 0), (-2, -3), (2, 0), (-2, 3)] = oc_L tiny_config \<and>
   list_all (fits_width 28) [(3 :: int, 0 :: int), (-2, -3), (2, 0), (-2, 3)]"
proof -
  have "transform [(1, 0), (6, 0), (8, 0), (-5, 0)] tiny_forward False tiny_config =
      Inr [(3, 0), (-2, -3), (2, 0), (-2, 3)]"
    by code_simp
  from transform_width_safe [OF this, of 2] show ?thesis by (simp add: tiny_config_def)
qed

theorem mask_spectrum_correct_witness:
  "hermitian tiny_config [(1, 0), (0, 0), (3, 0), (0, 0)]"
proof -
  let ?vs = "[(1, 0), (1, 2), (3, 0), (1, -2)] :: cint list"
  have "mask_spectrum ?vs 8 0 tiny_config = Inr (mask_bins ?vs 8 0 tiny_config,
      mask_stats tiny_config (mask_bins ?vs 8 0 tiny_config), [(1, 0), (0, 0), (3, 0), (0, 0)])"
    by code_simp
  moreover have "hermitian tiny_config ?vs"
  proof -
    have "?vs ! (4 - k) = (fst (?vs ! k), - snd (?vs ! k))" if k: "0 < k" "k < 4" for k :: nat
    proof -
      consider "k = 1" | "k = 2" | "k = 3" using k by linarith
      then show ?thesis by cases simp_all
    qed
    then show ?thesis by (simp add: hermitian_def tiny_config_def)
  qed
  ultimately show ?thesis using mask_spectrum_correct [of ?vs 8 0 tiny_config] 
    by (simp add: tiny_config_def)
qed

theorem run_geometry_witness:
  "\<exists>r. run [5, -3, 900] 10 tiny_window tiny_forward tiny_inverse tiny_config = Inr r \<and> or_taus r = [2, 4] \<and> or_ny r = 10"
proof -
  obtain r where r: "run [5, -3, 900] 10 tiny_window tiny_forward tiny_inverse tiny_config = Inr r"
    using tiny_run by blast
  have "or_taus r = [2, 4] \<and> or_ny r = 10"
    using run_geometry [OF r tiny_params(2)] by (simp add: tiny_config_def upt_rec)
  with r show ?thesis by blast
qed

theorem silence_in_silence_out_witness:
  "\<exists>r. run (replicate 3 0) 10 tiny_window tiny_forward tiny_inverse tiny_config = Inr r \<and> or_y r = replicate (or_ny r) 0"
  using silence_in_silence_out [OF tiny_params, of 2 3] by (auto simp: tiny_config_def)

end
