(* ===== verification/Completion.thy ===== *)
theory Completion
  imports Integer_Oracle
begin

text \<open>
  The exact-completion contract of a finite replay, \<^verbatim>\<open>scripts/sim/check_c0_exact_completion_model.py\<close>: the
  frame geometry of a stream, the admission of a start, and the completion machine with its self-checks.
  A call that raises leaves the object unchanged, so the step relation has no transition for it.
\<close>

section \<open>Geometry and admission\<close>

definition cm_L :: int where
  "cm_L = 256"

definition cm_H :: int where
  "cm_H = 128"

definition cm_G :: int where
  "cm_G = 128"

definition cm_D :: int where
  "cm_D = cm_G + cm_L"

lemmas cm_defs = cm_L_def cm_H_def cm_G_def cm_D_def

definition require :: "bool \<Rightarrow> string \<Rightarrow> unit result" where
  "require condition message = (if condition then Inr () else Inl (Exn RuntimeError message))"

definition geometry :: "int \<Rightarrow> (int \<times> int \<times> int) result" where
  "geometry ns =
     (if ns \<le> 0 then Inl (Exn ValueError ''Revision-J finite replay requires Ns > 0'')
      else
        let nframes = (ns + cm_L - 2) div cm_H; tau_last = nframes * cm_H; ny = tau_last + cm_D in
        Inr (nframes, tau_last, ny))"

record start_inputs =
  si_rst_n :: bool
  si_clear :: bool
  si_config_valid :: bool
  si_structural_busy :: bool
  si_run_inflight :: bool
  si_replay_done :: bool
  si_done :: bool
  si_restart_allowed :: bool

definition start_allowed :: "start_inputs \<Rightarrow> bool" where
  "start_allowed s \<longleftrightarrow>
     si_rst_n s \<and> \<not> si_clear s \<and> si_config_valid s \<and> \<not> si_structural_busy s \<and> \<not> si_run_inflight s \<and>
     ((\<not> si_replay_done s \<and> \<not> si_done s) \<or> (si_restart_allowed s \<and> si_done s))"

section \<open>The completion machine\<close>

record completion =
  cs_expected_outputs :: int
  cs_run_inflight :: bool
  cs_done :: bool
  cs_done_pulses :: int
  cs_public_outputs :: int
  cs_error :: bool

definition new_completion :: "int \<Rightarrow> completion" where
  "new_completion expected_outputs =
     \<lparr> cs_expected_outputs = expected_outputs, cs_run_inflight = False, cs_done = False,
       cs_done_pulses = 0, cs_public_outputs = 0, cs_error = False \<rparr>"

definition busy :: "completion \<Rightarrow> bool" where
  "busy s = cs_run_inflight s"

definition completion_start :: "completion \<Rightarrow> completion result" where
  "completion_start s =
     rbind (require (\<not> cs_run_inflight s) ''start accepted while a run is already in flight'') (\<lambda>_.
     Inr (s\<lparr> cs_run_inflight := True, cs_done := False, cs_public_outputs := 0, cs_error := False \<rparr>))"

definition accept_output :: "completion \<Rightarrow> int \<Rightarrow> completion" where
  "accept_output s sample_idx =
     (let invalid = (\<not> cs_run_inflight s \<or> cs_public_outputs s \<ge> cs_expected_outputs s \<or>
                     sample_idx \<noteq> cs_public_outputs s);
          s1 = (if invalid then s\<lparr> cs_error := True, cs_done := False \<rparr> else s) in
      if cs_run_inflight s1 \<and> cs_public_outputs s1 < cs_expected_outputs s1
      then s1\<lparr> cs_public_outputs := cs_public_outputs s1 + 1 \<rparr> else s1)"

record quiescence =
  q_replay_outputs :: int
  q_wola_outputs :: int
  q_analysis_samples :: int
  q_frames :: int
  q_expected_analysis_samples :: int
  q_expected_frames :: int

definition exact_counts :: "int \<Rightarrow> quiescence \<Rightarrow> bool" where
  "exact_counts expected q \<longleftrightarrow>
     q_replay_outputs q = expected \<and> q_wola_outputs q = expected \<and>
     q_analysis_samples q = q_expected_analysis_samples q \<and> q_frames q = q_expected_frames q"

definition observe_quiescence :: "completion \<Rightarrow> quiescence \<Rightarrow> completion" where
  "observe_quiescence s q =
     (if \<not> cs_run_inflight s then s
      else
        let exact = (cs_public_outputs s = cs_expected_outputs s \<and> exact_counts (cs_expected_outputs s) q) in
        if exact \<and> \<not> cs_error s
        then s\<lparr> cs_run_inflight := False, cs_done := True, cs_done_pulses := cs_done_pulses s + 1 \<rparr>
        else s\<lparr> cs_error := True \<rparr>)"

section \<open>Traces\<close>

datatype completion_event =
    StartEv
  | OutputEv int
  | QuiesceEv quiescence

text \<open>The states a fresh machine reaches, with the sequence of calls that led there.\<close>

inductive reached :: "int \<Rightarrow> completion_event list \<Rightarrow> completion \<Rightarrow> bool" for n where
  Fresh: "reached n [] (new_completion n)"
| Start: "reached n es s \<Longrightarrow> completion_start s = Inr t \<Longrightarrow> reached n (es @ [StartEv]) t"
| Output: "reached n es s \<Longrightarrow> reached n (es @ [OutputEv i]) (accept_output s i)"
| Quiesce: "reached n es s \<Longrightarrow> reached n (es @ [QuiesceEv q]) (observe_quiescence s q)"

inductive_cases reached_NilE: "reached n [] s"

text \<open>The calls of one run that completed: in-order outputs, one exact observation, harmless later ones.\<close>

definition exact_run :: "int \<Rightarrow> quiescence \<Rightarrow> quiescence list \<Rightarrow> completion_event list" where
  "exact_run n q qs = StartEv # map OutputEv [0..n - 1] @ QuiesceEv q # map QuiesceEv qs"

definition trace_inv :: "int \<Rightarrow> completion_event list \<Rightarrow> completion \<Rightarrow> bool" where
  "trace_inv n es s \<longleftrightarrow>
     cs_expected_outputs s = n \<and> 0 \<le> cs_public_outputs s \<and> (cs_public_outputs s \<le> n \<or> cs_public_outputs s = 0) \<and>
     (cs_done s \<longrightarrow> \<not> cs_run_inflight s \<and> \<not> cs_error s \<and>
        (\<exists>pre q qs. es = pre @ exact_run n q qs \<and> exact_counts n q)) \<and>
     (cs_run_inflight s \<and> \<not> cs_error s \<longrightarrow>
        (\<exists>pre. es = pre @ StartEv # map OutputEv [0..cs_public_outputs s - 1])) \<and>
     cs_done_pulses s + of_bool (cs_run_inflight s) \<le> int (length (filter (\<lambda>e. e = StartEv) es))"

lemma start_facts:
  "completion_start s = Inr t \<longleftrightarrow> \<not> cs_run_inflight s \<and>
     t = s\<lparr> cs_run_inflight := True, cs_done := False, cs_public_outputs := 0, cs_error := False \<rparr>"
  by (auto simp: completion_start_def require_def)

lemma accept_output_cases:
  obtains (counted) "cs_run_inflight s" "cs_public_outputs s < cs_expected_outputs s" "i = cs_public_outputs s"
      "accept_output s i = s\<lparr> cs_public_outputs := cs_public_outputs s + 1 \<rparr>"
  | (rejected) "accept_output s i = s\<lparr> cs_error := True, cs_done := False,
        cs_public_outputs := cs_public_outputs s +
          of_bool (cs_run_inflight s \<and> cs_public_outputs s < cs_expected_outputs s) \<rparr>"
proof (cases "cs_run_inflight s \<and> cs_public_outputs s < cs_expected_outputs s")
  case True
  then show thesis
    using counted rejected by (cases "i = cs_public_outputs s") (simp_all add: accept_output_def)
next
  case False
  then have "accept_output s i = s\<lparr> cs_error := True, cs_done := False \<rparr>" by (auto simp: accept_output_def Let_def)
  then show thesis using False by (intro rejected) (cases s, simp)
qed

lemma accept_output_inv:
  assumes "trace_inv n es s"
  shows "trace_inv n (es @ [OutputEv i]) (accept_output s i)"
proof (cases rule: accept_output_cases [of s i])
  case counted
  have "\<not> cs_done s" using assms counted(1) by (auto simp: trace_inv_def)
  moreover have "[0..cs_public_outputs s] = [0..cs_public_outputs s - 1] @ [cs_public_outputs s]"
    using assms by (intro upto_rec2) (simp add: trace_inv_def)
  ultimately show ?thesis using assms counted by (auto simp: trace_inv_def)
next
  case rejected
  with assms show ?thesis by (auto simp: trace_inv_def)
qed

lemma observe_quiescence_inv:
  assumes "trace_inv n es s"
  shows "trace_inv n (es @ [QuiesceEv q]) (observe_quiescence s q)"
proof (cases "cs_run_inflight s")
  case False
  then have "observe_quiescence s q = s" by (simp add: observe_quiescence_def)
  moreover have "\<exists>pre r rs. es @ [QuiesceEv q] = pre @ exact_run n r rs \<and> exact_counts n r" if "cs_done s"
  proof -
    obtain pre r rs where "es = pre @ exact_run n r rs" "exact_counts n r"
      using assms \<open>cs_done s\<close> by (auto simp: trace_inv_def)
    then have "es @ [QuiesceEv q] = pre @ exact_run n r (rs @ [q]) \<and> exact_counts n r"
      by (simp add: exact_run_def)
    then show ?thesis by blast
  qed
  ultimately show ?thesis using assms False by (simp add: trace_inv_def)
next
  case True
  show ?thesis
  proof (cases "cs_public_outputs s = n \<and> exact_counts n q \<and> \<not> cs_error s")
    case True
    then obtain pre where "es = pre @ StartEv # map OutputEv [0..n - 1]"
      using assms \<open>cs_run_inflight s\<close> by (auto simp: trace_inv_def)
    then have "es @ [QuiesceEv q] = pre @ exact_run n q []" by (simp add: exact_run_def)
    moreover have "cs_done_pulses s + 1 \<le> int (length (filter (\<lambda>e. e = StartEv) (es @ [QuiesceEv q])))"
      using assms \<open>cs_run_inflight s\<close> by (simp add: trace_inv_def)
    moreover have "cs_expected_outputs s = n" "0 \<le> n" using assms True by (simp_all add: trace_inv_def)
    ultimately show ?thesis
      using True \<open>cs_run_inflight s\<close>
      by (simp add: trace_inv_def observe_quiescence_def del: filter_append length_append append_assoc) blast
  next
    case False
    with assms \<open>cs_run_inflight s\<close> show ?thesis by (auto simp: trace_inv_def observe_quiescence_def Let_def)
  qed
qed

lemma reached_inv: "reached n es s \<Longrightarrow> trace_inv n es s"
proof (induction rule: reached.induct)
  case Fresh
  show ?case by (simp add: trace_inv_def new_completion_def)
next
  case (Start es s t)
  then show ?case by (auto simp: trace_inv_def start_facts)
qed (rule accept_output_inv observe_quiescence_inv, assumption)+

text \<open>
  C10: done means exactly done. Whenever a reachable completion machine reports done, the calls since the last
  start are the outputs \<open>0, 1, \<dots>, n - 1\<close> in this order with nothing missing, repeated or extra, then an
  observation whose replay, WOLA, sample and frame counts are all exact; the run is no longer in flight, no error is
  flagged, and there has been at most one done pulse per start.
\<close>

theorem done_means_exact:
  assumes "reached n es s" "cs_done s"
  shows "\<not> busy s \<and> \<not> cs_error s \<and> cs_done_pulses s \<le> int (length (filter (\<lambda>e. e = StartEv) es)) \<and>
    (\<exists>pre q qs. es = pre @ exact_run n q qs \<and> exact_counts n q)"
  using reached_inv [OF assms(1)] assms(2) by (auto simp: trace_inv_def busy_def)

section \<open>Exact runs complete, faulty runs never do\<close>

definition completion_apply :: "completion \<Rightarrow> completion_event \<Rightarrow> completion" where
  "completion_apply s e =
     (case e of
        StartEv \<Rightarrow> (case completion_start s of Inl _ \<Rightarrow> s | Inr t \<Rightarrow> t)
      | OutputEv i \<Rightarrow> accept_output s i
      | QuiesceEv q \<Rightarrow> observe_quiescence s q)"

lemma outputs_in_order:
  assumes "0 \<le> k" "cs_run_inflight s" "k \<le> cs_expected_outputs s" "cs_public_outputs s = 0"
  shows "foldl accept_output s [0..k - 1] = s\<lparr> cs_public_outputs := k \<rparr>"
  using assms
proof (induction k rule: int_ge_induct)
  case base
  then show ?case by (cases s) simp
next
  case (step k)
  then have "[0..k] = [0..k - 1] @ [k]" by (intro upto_rec2)
  with step show ?case by (simp add: accept_output_def)
qed

lemma foldl_OutputEv: "foldl completion_apply s (map OutputEv is) = foldl accept_output s is"
  by (induction "is" arbitrary: s) (simp_all add: completion_apply_def)

text \<open>
  An exact run completes. From any idle machine, also one that failed or completed before, a start, the
  outputs \<open>0, \<dots>, n - 1\<close> in order and one exact observation end with done set, the machine idle, no error and
  exactly one more done pulse; up to the observation the machine stays busy and not done.
\<close>

theorem exact_run_completes:
  assumes "\<not> cs_run_inflight s" "0 \<le> cs_expected_outputs s" "exact_counts (cs_expected_outputs s) q"
  defines "n \<equiv> cs_expected_outputs s"
  defines "t \<equiv> foldl completion_apply s (StartEv # map OutputEv [0..n - 1])"
    and "u \<equiv> foldl completion_apply s (exact_run n q [])"
  shows "busy t \<and> \<not> cs_done t \<and> \<not> cs_error t \<and> cs_public_outputs t = n \<and>
    cs_done u \<and> \<not> busy u \<and> \<not> cs_error u \<and> cs_done_pulses u = cs_done_pulses s + 1"
proof -
  define r where "r = s\<lparr> cs_run_inflight := True, cs_done := False, cs_public_outputs := 0, cs_error := False \<rparr>"
  have "completion_start s = Inr r" using assms(1) by (simp add: start_facts r_def)
  then have start: "completion_apply s StartEv = r" by (simp add: completion_apply_def)
  have "foldl accept_output r [0..n - 1] = r\<lparr> cs_public_outputs := n \<rparr>"
    by (rule outputs_in_order) (use assms(2) in \<open>simp_all add: r_def n_def\<close>)
  then have t: "t = r\<lparr> cs_public_outputs := n \<rparr>" by (simp add: t_def start foldl_OutputEv)
  have "u = observe_quiescence t q"
    by (simp add: u_def t_def exact_run_def) (simp add: completion_apply_def)
  then show ?thesis using assms(3) by (simp add: t r_def observe_quiescence_def busy_def n_def)
qed

text \<open>
  The machine fails closed. Once an error is flagged, no sequence of outputs and observations sets done or
  clears the error or ends the run; only a new start does.
\<close>

theorem fail_closed:
  assumes "cs_error s" "\<not> cs_done s" "StartEv \<notin> set es"
  shows "cs_error (foldl completion_apply s es) \<and> \<not> cs_done (foldl completion_apply s es) \<and>
    busy (foldl completion_apply s es) = busy s"
  using assms
proof (induction es arbitrary: s)
  case (Cons e es)
  define t where "t = completion_apply s e"
  have "cs_error t \<and> \<not> cs_done t \<and> busy t = busy s"
  proof (cases e)
    case (OutputEv i)
    have "cs_error (accept_output s i) \<and> \<not> cs_done (accept_output s i) \<and> busy (accept_output s i) = busy s"
      using Cons.prems by (cases rule: accept_output_cases [of s i]) (simp_all add: busy_def)
    then show ?thesis by (simp add: t_def completion_apply_def OutputEv)
  next
    case (QuiesceEv q)
    then show ?thesis using Cons.prems
      by (simp add: t_def completion_apply_def observe_quiescence_def busy_def Let_def)
  qed (use Cons.prems in simp)
  with Cons.IH [of t] Cons.prems show ?case by (simp add: t_def)
qed simp

section \<open>Geometry\<close>

text \<open>
  The geometry of a nonempty stream. The last anchor reaches the end of the stream and the flush is shorter than
  a window; one frame fewer would not cover the stream's support; the output count exceeds the stream length by
  at least the delay minus one; and an empty or negative stream is refused.
\<close>

theorem geometry_correct:
  "case geometry ns of Inl e \<Rightarrow> ns \<le> 0 \<and> exn_class e = ValueError
   | Inr (nframes, tau_last, ny) \<Rightarrow> 0 < ns \<and> 0 < nframes \<and> ns - 1 \<le> tau_last \<and> tau_last - ns < cm_L \<and>
       tau_last = nframes * cm_H \<and> ns + cm_L - 2 < tau_last + cm_H \<and> tau_last \<le> ns + cm_L - 2 \<and>
       ns + cm_D - 1 \<le> ny \<and> ny = tau_last + cm_D"
proof -
  define k where "k = (ns + 254) div 128"
  have k: "128 * k \<le> ns + 254" "ns + 254 < 128 * k + 128" unfolding k_def by linarith+
  show ?thesis
  proof (cases "ns \<le> 0")
    case False
    with k have "0 < k" by linarith
    moreover have "geometry ns = Inr (k, k * 128, k * 128 + 384)"
      using False by (simp add: geometry_def cm_defs k_def Let_def add.commute)
    ultimately show ?thesis using False k by (simp add: cm_defs k_def [symmetric])
  qed (simp add: geometry_def)
qed

lemma geometry_oracle:
  assumes "run samples thr window fwd ivt Config = Inr r" "hann_support Config window"
  shows "geometry (int (length samples)) =
    Inr (int (length (or_frames r)), int (last (or_taus r)), int (or_ny r))"
proof -
  define k where "k = (254 + length samples) div 128"
  have facts: "or_taus r = map (\<lambda>j. j * 128) [1..<k + 1]" "length (or_frames r) = k" "0 < k"
      "or_ny r = k * 128 + 128 + 256"
    using run_geometry_facts [OF assms] by (simp_all add: Config_def k_def del: upt_Suc)
  have "last (or_taus r) = k * 128" using facts(1,3) by (simp add: last_map)
  moreover have "samples \<noteq> []" using assms(1) by (rule run_cases)
  moreover have "int k = (254 + int (length samples)) div 128" by (simp add: k_def zdiv_int)
  ultimately show ?thesis using facts by (simp add: geometry_def cm_defs Let_def)
qed

text \<open>
  The closed-form geometry of the completion model agrees with the oracle, which finds its frames by scanning
  the window support: for every stream the oracle accepts, frame count, last anchor and output count are equal.
\<close>

theorem geometry_matches_oracle:
  assumes "run samples thr window fwd ivt Config = Inr r" "hann_support Config window"
  shows "geometry (int (length samples)) =
    Inr (int (length (or_frames r)), int (last (or_taus r)), int (or_ny r))"
  using assms by (rule geometry_oracle)

section \<open>The self-checks\<close>

definition exact_observation :: "int \<Rightarrow> int \<Rightarrow> int \<Rightarrow> quiescence" where
  "exact_observation ny tau_last nframes =
     \<lparr> q_replay_outputs = ny, q_wola_outputs = ny, q_analysis_samples = tau_last, q_frames = nframes,
       q_expected_analysis_samples = tau_last, q_expected_frames = nframes \<rparr>"

fun require_all :: "(bool \<times> string) list \<Rightarrow> unit result" where
  "require_all [] = Inr ()"
| "require_all ((c, m) # rest) = rbind (require c m) (\<lambda>_. require_all rest)"

definition check_normal_final_stall :: "unit result" where
  "check_normal_final_stall =
     rbind (geometry 1024) (\<lambda>(nframes, tau_last, ny).
     rbind (completion_start (new_completion ny)) (\<lambda>s0.
     let s1 = foldl accept_output s0 [0..ny - 1 - 1] in
     rbind (require_all
       [(cs_public_outputs s1 = ny - 1, ''final stall did not stop at Ny-1''),
        (busy s1, ''busy dropped during the final-output stall''),
        (\<not> cs_done s1, ''done asserted during the final-output stall''),
        (\<not> cs_error s1, ''normal run raised an error before final output'')]) (\<lambda>_.
     let s2 = accept_output s1 (ny - 1) in
     rbind (require_all
       [(cs_public_outputs s2 = ny, ''final public output was not counted''),
        (busy s2, ''busy dropped on the final handshake edge''),
        (\<not> cs_done s2, ''done asserted on the final handshake edge'')]) (\<lambda>_.
     let s3 = observe_quiescence s2 (exact_observation ny tau_last nframes) in
     require_all
       [(\<not> busy s3, ''busy remained high after exact quiescence''),
        (cs_done s3, ''done did not assert after exact quiescence''),
        (cs_done_pulses s3 = 1, ''normal run did not produce exactly one done pulse''),
        (\<not> cs_error s3, ''normal exact completion raised an error'')]))))"

definition check_fail_closed_faults :: "unit result" where
  "check_fail_closed_faults =
     rbind (geometry 1024) (\<lambda>(nframes, tau_last, ny).
     let q = exact_observation ny tau_last nframes in
     rbind (completion_start (new_completion ny)) (\<lambda>u0.
     let undercount = observe_quiescence (foldl accept_output u0 [0..ny - 1 - 1]) q in
     rbind (require_all
       [(busy undercount, ''undercount did not remain fail-closed busy''),
        (\<not> cs_done undercount, ''undercount produced false done''),
        (cs_error undercount, ''undercount did not set completion error'')]) (\<lambda>_.
     rbind (completion_start (new_completion ny)) (\<lambda>w0.
     let w1 = accept_output w0 1 in
     rbind (require_all
       [(cs_public_outputs w1 = 1, ''wrong-index beat was not counted''),
        (cs_error w1, ''wrong-index beat did not set completion error'')]) (\<lambda>_.
     let w2 = observe_quiescence w1 q in
     rbind (require_all
       [(busy w2, ''wrong-index run did not remain fail-closed busy''),
        (\<not> cs_done w2, ''wrong-index run produced false done'')]) (\<lambda>_.
     rbind (completion_start (new_completion ny)) (\<lambda>e0.
     let e1 = observe_quiescence (foldl accept_output e0 [0..ny - 1]) q in
     rbind (require_all [(cs_done e1, ''exact run did not complete before extra-output injection'')]) (\<lambda>_.
     let e2 = accept_output e1 ny in
     require_all
       [(\<not> cs_done e2, ''extra output failed to revoke done''),
        (cs_error e2, ''extra output did not set completion error'')]))))))))"

definition check_geometry_boundaries :: "unit result" where
  "check_geometry_boundaries =
     rbind (rmapM (\<lambda>ns. rbind (geometry ns) (\<lambda>(nframes, tau_last, ny).
       require_all
         [(nframes > 0, ''nonpositive frame count''),
          (tau_last \<ge> ns - 1, ''tau_last precedes stream''),
          (tau_last - ns < cm_L, ''active flush is too long''),
          (ny = tau_last + cm_D, ''Ny geometry mismatch'')]))
       [1, 2, 127, 128, 129, 1024, 4096]) (\<lambda>_. Inr ())"

definition admission_initial :: start_inputs where
  "admission_initial = \<lparr> si_rst_n = True, si_clear = False, si_config_valid = True, si_structural_busy = False,
     si_run_inflight = False, si_replay_done = False, si_done = False, si_restart_allowed = False \<rparr>"

definition check_start_admission :: "unit result" where
  "check_start_admission =
     (let i = admission_initial; restart = i\<lparr> si_replay_done := True, si_done := True \<rparr> in
      require_all
       [(start_allowed i, ''valid initial start was rejected''),
        (\<not> start_allowed (i\<lparr> si_clear := True \<rparr>), ''start was admitted while clear was asserted''),
        (\<not> start_allowed (i\<lparr> si_structural_busy := True \<rparr>), ''start was admitted while structural_busy was asserted''),
        (\<not> start_allowed (i\<lparr> si_run_inflight := True \<rparr>), ''start was admitted while run_inflight was asserted''),
        (\<not> start_allowed (i\<lparr> si_config_valid := False \<rparr>), ''invalid configuration admitted a start''),
        (\<not> start_allowed (i\<lparr> si_rst_n := False \<rparr>), ''reset admitted a start''),
        (\<not> start_allowed restart, ''disabled restart was admitted''),
        (start_allowed (restart\<lparr> si_restart_allowed := True \<rparr>), ''enabled post-done restart was rejected'')])"

definition completion_main :: "unit result" where
  "completion_main =
     rbind check_geometry_boundaries (\<lambda>_.
     rbind check_start_admission (\<lambda>_.
     rbind check_normal_final_stall (\<lambda>_.
     check_fail_closed_faults)))"

lemma geometry_1024: "geometry 1024 = Inr (9, 1152, 1536)"
  by (simp add: geometry_def cm_defs)

abbreviation running :: "int \<Rightarrow> int \<Rightarrow> completion" where
  "running ny k \<equiv> \<lparr> cs_expected_outputs = ny, cs_run_inflight = True, cs_done = False,
     cs_done_pulses = 0, cs_public_outputs = k, cs_error = False \<rparr>"

lemma start_new: "completion_start (new_completion ny) = Inr (running ny 0)"
  by (simp add: start_facts new_completion_def)

lemma outputs_running: "0 \<le> k \<Longrightarrow> k \<le> ny \<Longrightarrow> foldl accept_output (running ny 0) [0..k - 1] = running ny k"
  using outputs_in_order [of k "running ny 0"] by simp

lemmas outputs_1536 = outputs_running [of 1535 1536, simplified] outputs_running [of 1536 1536, simplified]

lemma require_True [simp]: "require True m = Inr ()"
  by (simp add: require_def)

text \<open>
  The script's self-checks all pass: boundary geometries, start admission, the stall on the last output
  of a 1024-sample replay, and the three injected faults (undercount, wrong index, extra output).
\<close>

theorem completion_main_passes: "completion_main = Inr ()"
proof -
  have 1: "check_geometry_boundaries = Inr ()"
    by (simp add: check_geometry_boundaries_def geometry_def cm_defs)
  have 2: "check_start_admission = Inr ()"
    by (simp add: check_start_admission_def admission_initial_def start_allowed_def)
  have 3: "check_normal_final_stall = Inr ()"
    by (simp add: check_normal_final_stall_def geometry_1024 start_new outputs_1536 busy_def accept_output_def
        observe_quiescence_def exact_counts_def exact_observation_def)
  have 4: "check_fail_closed_faults = Inr ()"
    by (simp add: check_fail_closed_faults_def geometry_1024 start_new outputs_1536 busy_def accept_output_def
        observe_quiescence_def exact_counts_def exact_observation_def)
  show ?thesis unfolding completion_main_def 1 2 3 4 rbind.simps ..
qed

section \<open>Witnesses\<close>

theorem done_means_exact_witness:
  "\<exists>s. reached 1 [StartEv, OutputEv 0, QuiesceEv (exact_observation 1 1 1)] s \<and> \<not> busy s \<and> \<not> cs_error s"
proof -
  let ?q = "exact_observation 1 1 1"
  define s where "s = observe_quiescence (accept_output (running 1 0) 0) ?q"
  have "reached 1 ((([] @ [StartEv]) @ [OutputEv 0]) @ [QuiesceEv ?q]) s"
    unfolding s_def by (rule reached.Quiesce reached.Output reached.Start reached.Fresh start_new)+
  then have r: "reached 1 [StartEv, OutputEv 0, QuiesceEv ?q] s" by simp
  moreover have "cs_done s"
    by (simp add: s_def accept_output_def observe_quiescence_def exact_counts_def exact_observation_def)
  ultimately show ?thesis using done_means_exact [OF r] by blast
qed

theorem exact_run_completes_witness:
  "cs_done (foldl completion_apply (new_completion 1536) (exact_run 1536 (exact_observation 1536 1152 9) []))"
  using exact_run_completes [of "new_completion 1536" "exact_observation 1536 1152 9"]
  by (simp add: new_completion_def exact_counts_def exact_observation_def)

theorem fail_closed_witness:
  "\<not> cs_done (foldl completion_apply (accept_output (running 2 0) 1) [OutputEv 1, QuiesceEv (exact_observation 2 1 1)])"
  using fail_closed [of "accept_output (running 2 0) 1" "[OutputEv 1, QuiesceEv (exact_observation 2 1 1)]"]
  by (simp add: accept_output_def)

theorem geometry_matches_oracle_witness:
  "geometry 1 = Inr (1, 128, 512) \<and>
   (\<exists>r. run [0] 0 (0 # replicate 255 1) (replicate 256 (0, 0)) (replicate 256 (0, 0)) Config = Inr r \<and>
     int (or_ny r) = 512)"
proof -
  let ?w = "0 # replicate 255 (1 :: int)" and ?t = "replicate 256 (0 :: int, 0 :: int)"
  have hann: "hann_support Config ?w" by (auto simp: hann_support_def Config_def nth_Cons')
  have "run_params_ok 0 ?w ?t ?t Config" by (simp add: run_params_ok_def Config_def)
  then obtain r where r: "run [0] 0 ?w ?t ?t Config = Inr r"
    using run_silent [OF _ hann, of 0 ?t ?t 8 1] by (auto simp: Config_def)
  have "geometry 1 = Inr (1, 128, 512)" by (simp add: geometry_def cm_defs)
  with r geometry_matches_oracle [OF r hann] show ?thesis by auto
qed

end
