(* ===== verification/Generators.thy ===== *)
theory Generators
  imports Memh
begin

text \<open>
  The input-vector generators of \<^verbatim>\<open>sw/reference_model/python/trecap_golden/generators\<close>. Generator parameters are
  the values a JSON object can hold without floats. The floating-point evaluation of a tone (\<^verbatim>\<open>math.sin\<close>,
  \<^verbatim>\<open>math.cos\<close> and \<^verbatim>\<open>qcoef\<close> of a float) and the \<^verbatim>\<open>Decimal\<close> parser are parameters of the model, collected in
  \<open>float_env\<close>; each may raise.
\<close>

section \<open>Parameter values\<close>

datatype pyval =
    VNone
  | VInt int
  | VBool bool
  | VStr string
  | VList "pyval list"
  | VDict "(string \<times> pyval) list"

definition GenErr :: "string \<Rightarrow> exn" where
  "GenErr message = Exn GeneratorError message"

definition py_get :: "(string \<times> pyval) list \<Rightarrow> string \<Rightarrow> pyval \<Rightarrow> pyval" where
  "py_get d key dflt = (case map_of d key of None \<Rightarrow> dflt | Some v \<Rightarrow> v)"

definition py_index :: "(string \<times> pyval) list \<Rightarrow> string \<Rightarrow> pyval result" where
  "py_index d key = (case map_of d key of None \<Rightarrow> Inl (Exn KeyError key) | Some v \<Rightarrow> Inr v)"

text \<open>The pattern \<^verbatim>\<open>a if a is not None else b\<close>.\<close>

definition or_else :: "pyval \<Rightarrow> pyval \<Rightarrow> pyval" where
  "or_else a b = (if a \<noteq> VNone then a else b)"

section \<open>Shared helpers\<close>

definition validate_ns :: "int \<Rightarrow> int result" where
  "validate_ns ns = (if ns \<le> 0 then Inl (GenErr ''Revision J signoff vectors require Ns > 0'') else Inr ns)"

definition validate_sample_width :: "int \<Rightarrow> int result" where
  "validate_sample_width width =
     (if width \<le> 0 then Inl (GenErr ''sample width must be positive'') else Inr width)"

definition signed_bounds :: "int \<Rightarrow> (int \<times> int) result" where
  "signed_bounds width =
     rbind (validate_sample_width width) (\<lambda>checked.
     Inr (- push_bit (nat (checked - 1)) 1, push_bit (nat (checked - 1)) 1 - 1))"

definition satn :: "int \<Rightarrow> int \<Rightarrow> int result" where
  "satn value width =
     rbind (signed_bounds width) (\<lambda>(lo, hi).
     Inr (if value < lo then lo else if value > hi then hi else value))"

definition coerce_int :: "pyval \<Rightarrow> string \<Rightarrow> int result" where
  "coerce_int value name =
     (case value of
        VBool _ \<Rightarrow> Inl (GenErr (name @ '' must be an integer, not bool''))
      | VInt i \<Rightarrow> Inr i
      | VStr s \<Rightarrow> (case py_int10 s of Some i \<Rightarrow> Inr i | None \<Rightarrow> Inl (GenErr (name @ '' must be an integer'')))
      | _ \<Rightarrow> Inl (GenErr (name @ '' must be an integer'')))"

definition validate_frequency :: "pyval \<Rightarrow> pyval \<Rightarrow> string \<Rightarrow> (int \<times> int) result" where
  "validate_frequency f_num f_den name =
     rbind (coerce_int f_num (name @ ''.f_num'')) (\<lambda>numerator.
     rbind (coerce_int f_den (name @ ''.f_den'')) (\<lambda>denominator.
     if denominator \<le> 0 then Inl (GenErr (name @ ''.f_den must be positive''))
     else Inr (numerator, denominator)))"

definition frequency_from_parameters :: "(string \<times> pyval) list \<Rightarrow> bool \<Rightarrow> (int \<times> int) result" where
  "frequency_from_parameters parameters exact_bin =
     (if exact_bin \<or> map_of parameters ''bin'' \<noteq> None \<or> map_of parameters ''k'' \<noteq> None
      then
        rbind (coerce_int (py_get parameters ''bin'' (py_get parameters ''k'' (VInt 0))) ''bin'') (\<lambda>k.
        if k < 0 \<or> k > cfg_L div 2
        then Inl (GenErr ''exact-bin index must satisfy 0 <= k <= L/2'')
        else Inr (k, cfg_L))
      else if map_of parameters ''f_num'' = None \<or> map_of parameters ''f_den'' = None
      then Inl (GenErr ''frequency parameters must include f_num and f_den'')
      else
        rbind (py_index parameters ''f_num'') (\<lambda>f_num.
        rbind (py_index parameters ''f_den'') (\<lambda>f_den.
        validate_frequency f_num f_den ''frequency'')))"

definition ensure_samples :: "int list \<Rightarrow> int \<Rightarrow> int list result" where
  "ensure_samples values width =
     rbind (signed_bounds width) (\<lambda>(lo, hi).
     if \<exists>v \<in> set values. v < lo \<or> v > hi then Inl (GenErr ''sample exceeds signed range'')
     else Inr values)"

section \<open>Constant, impulse and step\<close>

definition constant_generate :: "int \<Rightarrow> pyval \<Rightarrow> int \<Rightarrow> int list result" where
  "constant_generate ns value width =
     rbind (validate_ns ns) (\<lambda>checked_ns.
     rbind (coerce_int value ''value'') (\<lambda>v.
     rbind (satn v width) (\<lambda>sample.
     Inr (replicate (nat checked_ns) sample))))"

definition impulse_generate :: "int \<Rightarrow> pyval \<Rightarrow> pyval \<Rightarrow> pyval \<Rightarrow> pyval \<Rightarrow> int \<Rightarrow> int list result" where
  "impulse_generate ns index n0 amplitude A width =
     rbind (validate_ns ns) (\<lambda>checked_ns.
     rbind (coerce_int (or_else (or_else index n0) (VInt 0)) ''index'') (\<lambda>idx.
     if idx < 0 \<or> idx \<ge> checked_ns
     then Inl (GenErr ''impulse index must satisfy 0 <= index < Ns'')
     else
       rbind (coerce_int (or_else (or_else amplitude A) (VInt 0)) ''amplitude'') (\<lambda>a.
       rbind (satn a width) (\<lambda>amp.
       Inr (map (\<lambda>n. if n = idx then amp else 0) [0..checked_ns - 1])))))"

definition step_generate :: "int \<Rightarrow> pyval \<Rightarrow> pyval \<Rightarrow> pyval \<Rightarrow> pyval \<Rightarrow> int \<Rightarrow> int list result" where
  "step_generate ns index n0 amplitude A width =
     rbind (validate_ns ns) (\<lambda>checked_ns.
     rbind (coerce_int (or_else (or_else index n0) (VInt 0)) ''index'') (\<lambda>idx.
     if idx < 0 \<or> idx > checked_ns
     then Inl (GenErr ''step index must satisfy 0 <= index <= Ns'')
     else
       rbind (coerce_int (or_else (or_else amplitude A) (VInt 0)) ''amplitude'') (\<lambda>a.
       rbind (satn a width) (\<lambda>amp.
       Inr (map (\<lambda>n. if n < idx then 0 else amp) [0..checked_ns - 1])))))"

section \<open>Tones\<close>

record 'p float_env =
  fe_phase :: "pyval \<Rightarrow> 'p result"
  fe_sine :: "int \<Rightarrow> int \<Rightarrow> int \<Rightarrow> 'p \<Rightarrow> int \<Rightarrow> int result"
  fe_cosine :: "int \<Rightarrow> int \<Rightarrow> int \<Rightarrow> 'p \<Rightarrow> int \<Rightarrow> int result"
  fe_sum :: "(int \<times> int \<times> int \<times> 'p) list \<Rightarrow> int \<Rightarrow> int result"

definition parse_phase_decimal :: "'p float_env \<Rightarrow> pyval \<Rightarrow> 'p result" where
  "parse_phase_decimal env value =
     (case value of
        VStr text \<Rightarrow>
          if CHR ''/'' \<in> set text
          then Inl (GenErr ''phase_rad must be a decimal string, not a fraction string'')
          else fe_phase env value
      | _ \<Rightarrow> fe_phase env value)"

text \<open>The dictionary of the keyword arguments that are not None.\<close>

definition given :: "(string \<times> pyval) list \<Rightarrow> (string \<times> pyval) list" where
  "given = filter (\<lambda>(k, v). v \<noteq> VNone)"

definition tone_generate ::
    "'p float_env \<Rightarrow> (int \<Rightarrow> int \<Rightarrow> int \<Rightarrow> 'p \<Rightarrow> int \<Rightarrow> int result) \<Rightarrow> int \<Rightarrow> pyval \<Rightarrow>
     (string \<times> pyval) list \<Rightarrow> pyval \<Rightarrow> bool \<Rightarrow> int \<Rightarrow> int list result" where
  "tone_generate env wave ns amplitude args phase_rad exact_bin width =
     rbind (validate_ns ns) (\<lambda>checked_ns.
     rbind (frequency_from_parameters (given args) exact_bin) (\<lambda>(freq_num, freq_den).
     rbind (coerce_int amplitude ''amplitude'') (\<lambda>amp.
     rbind (parse_phase_decimal env phase_rad) (\<lambda>phase.
     rmapM (\<lambda>n. rbind (wave amp freq_num freq_den phase n) (\<lambda>q. satn q width)) [0..checked_ns - 1]))))"

definition sine_generate ::
    "'p float_env \<Rightarrow> int \<Rightarrow> pyval \<Rightarrow> pyval \<Rightarrow> pyval \<Rightarrow> pyval \<Rightarrow> pyval \<Rightarrow> pyval \<Rightarrow> bool \<Rightarrow> int \<Rightarrow> int list result" where
  "sine_generate env ns amplitude f_num f_den phase_rad bin k exact_bin width =
     tone_generate env (fe_sine env) ns amplitude
       [(''f_num'', f_num), (''f_den'', f_den), (''bin'', bin), (''k'', k)] phase_rad exact_bin width"

definition sine_generate_exact_bin ::
    "'p float_env \<Rightarrow> int \<Rightarrow> pyval \<Rightarrow> pyval \<Rightarrow> pyval \<Rightarrow> pyval \<Rightarrow> int \<Rightarrow> int list result" where
  "sine_generate_exact_bin env ns amplitude bin k phase_rad width =
     sine_generate env ns amplitude VNone VNone phase_rad bin k True width"

definition cosine_generate ::
    "'p float_env \<Rightarrow> int \<Rightarrow> pyval \<Rightarrow> pyval \<Rightarrow> pyval \<Rightarrow> pyval \<Rightarrow> pyval \<Rightarrow> pyval \<Rightarrow> bool \<Rightarrow> int \<Rightarrow> int list result" where
  "cosine_generate env ns amplitude f_num f_den phase_rad bin k exact_bin width =
     tone_generate env (fe_cosine env) ns amplitude
       [(''f_num'', f_num), (''f_den'', f_den), (''bin'', bin), (''k'', k)] phase_rad exact_bin width"

definition cosine_generate_exact_bin ::
    "'p float_env \<Rightarrow> int \<Rightarrow> pyval \<Rightarrow> pyval \<Rightarrow> pyval \<Rightarrow> pyval \<Rightarrow> int \<Rightarrow> int list result" where
  "cosine_generate_exact_bin env ns amplitude bin k phase_rad width =
     cosine_generate env ns amplitude VNone VNone phase_rad bin k True width"

text \<open>The test \<^verbatim>\<open>key in tone\<close>: key, member, substring, or no containment at all.\<close>

definition py_contains :: "string \<Rightarrow> pyval \<Rightarrow> bool result" where
  "py_contains key value =
     (case value of
        VDict d \<Rightarrow> Inr (map_of d key \<noteq> None)
      | VList l \<Rightarrow> Inr (VStr key \<in> set l)
      | VStr s \<Rightarrow> Inr (\<exists>i \<in> set [0..<length s + 1]. take (length key) (drop i s) = key)
      | _ \<Rightarrow> Inl (Exn TypeError ''argument is not iterable''))"

definition py_subscript :: "string \<Rightarrow> pyval \<Rightarrow> pyval result" where
  "py_subscript key value =
     (case value of VDict d \<Rightarrow> py_index d key | _ \<Rightarrow> Inl (Exn TypeError ''indices must be integers''))"

definition tone_get :: "string \<Rightarrow> pyval \<Rightarrow> pyval \<Rightarrow> pyval result" where
  "tone_get key dflt value =
     (case value of VDict d \<Rightarrow> Inr (py_get d key dflt) | _ \<Rightarrow> Inl (Exn TypeError ''object has no attribute get''))"

definition tone_fields :: "'p float_env \<Rightarrow> pyval \<Rightarrow> (int \<times> int \<times> int \<times> 'p) result" where
  "tone_fields env tone =
     rbind (py_contains ''amplitude'' tone) (\<lambda>has_amp.
     if \<not> has_amp then Inl (GenErr ''tone missing amplitude'')
     else
       rbind (py_subscript ''amplitude'' tone) (\<lambda>a.
       rbind (coerce_int a ''tone.amplitude'') (\<lambda>amp.
       rbind (py_contains ''f_num'' tone) (\<lambda>has_num.
       rbind (py_contains ''f_den'' tone) (\<lambda>has_den.
       if \<not> has_num \<or> \<not> has_den then Inl (GenErr ''tone must include f_num and f_den'')
       else
         rbind (py_subscript ''f_num'' tone) (\<lambda>num.
         rbind (py_subscript ''f_den'' tone) (\<lambda>den.
         rbind (validate_frequency num den ''tone'') (\<lambda>(f_num, f_den).
         rbind (tone_get ''phase_rad'' (VStr ''0'') tone) (\<lambda>ph.
         rbind (parse_phase_decimal env ph) (\<lambda>phase.
         Inr (amp, f_num, f_den, phase)))))))))))"

definition multitone_generate :: "'p float_env \<Rightarrow> int \<Rightarrow> pyval \<Rightarrow> int \<Rightarrow> int list result" where
  "multitone_generate env ns tones width =
     rbind (validate_ns ns) (\<lambda>checked_ns.
     case tones of
       VList ts \<Rightarrow>
         rbind (rmapM (tone_fields env) ts) (\<lambda>parsed.
         if parsed = [] then Inl (GenErr ''multitone_sine_sum requires at least one tone'')
         else rmapM (\<lambda>n. rbind (fe_sum env parsed n) (\<lambda>q. satn q width)) [0..checked_ns - 1])
     | _ \<Rightarrow> Inl (GenErr ''tones must be a sequence of tone objects''))"

section \<open>Uniform noise\<close>

definition xorshift_update :: "int \<Rightarrow> int" where
  "xorshift_update state =
     (let s1 = state XOR (push_bit 13 state AND 0xFFFFFFFF);
          s2 = s1 XOR drop_bit 17 s1;
          s3 = s2 XOR (push_bit 5 s2 AND 0xFFFFFFFF) in
      s3 AND 0xFFFFFFFF)"

text \<open>The loop: the states after each update, in order.\<close>

fun xorshift_states :: "nat \<Rightarrow> int \<Rightarrow> int list" where
  "xorshift_states 0 state = []"
| "xorshift_states (Suc n) state = (let s = xorshift_update state in s # xorshift_states n s)"

definition xorshift32_generate :: "int \<Rightarrow> pyval \<Rightarrow> pyval \<Rightarrow> pyval \<Rightarrow> int \<Rightarrow> int list result" where
  "xorshift32_generate ns seed B bit_width width =
     rbind (validate_ns ns) (\<lambda>checked_ns.
     rbind (coerce_int seed ''seed'') (\<lambda>sd.
     let state = sd AND 0xFFFFFFFF in
     if state = 0 then Inl (GenErr ''xorshift32 seed must be nonzero after 32-bit masking'')
     else
       rbind (coerce_int (or_else (or_else B bit_width) (VInt width)) ''B'') (\<lambda>b.
       if b \<le> 0 \<or> b > 32 then Inl (GenErr ''xorshift32 B must satisfy 1 <= B <= 32'')
       else
         let msk = (if b = 32 then 0xFFFFFFFF else push_bit (nat b) 1 - 1);
             offset = push_bit (nat (b - 1)) 1 in
         rmapM (\<lambda>s. satn ((s AND msk) - offset) width) (xorshift_states (nat checked_ns) state))))"

section \<open>Dispatch\<close>

definition SUPPORTED_GENERATORS :: "string list" where
  "SUPPORTED_GENERATORS =
     [''constant'', ''impulse'', ''step'', ''sine'', ''exact_bin_sine'', ''cosine'', ''exact_bin_cosine'',
      ''multitone_sine_sum'', ''uniform_noise_xorshift32'']"

definition gen_parameters :: "pyval \<Rightarrow> (string \<times> pyval) list result" where
  "gen_parameters parameters =
     (case parameters of
        VNone \<Rightarrow> Inr []
      | VDict d \<Rightarrow> Inr d
      | _ \<Rightarrow> Inl (GenErr ''generator parameters must be a mapping''))"

definition generate_samples ::
    "'p float_env \<Rightarrow> string \<Rightarrow> int \<Rightarrow> pyval \<Rightarrow> int \<Rightarrow> int list result" where
  "generate_samples env generator ns parameters sample_width =
     (let name = py_strip generator in
      rbind (gen_parameters parameters) (\<lambda>p.
      let opt = (\<lambda>key. py_get p key VNone) in
      if name = ''constant'' then constant_generate ns (py_get p ''value'' (VInt 0)) sample_width
      else if name = ''impulse'' then
        impulse_generate ns (opt ''index'') (opt ''n0'') (opt ''amplitude'') (opt ''A'') sample_width
      else if name = ''step'' then
        step_generate ns (opt ''index'') (opt ''n0'') (opt ''amplitude'') (opt ''A'') sample_width
      else if name = ''sine'' then
        rbind (py_index p ''amplitude'') (\<lambda>a.
        sine_generate env ns a (opt ''f_num'') (opt ''f_den'') (py_get p ''phase_rad'' (VStr ''0''))
          VNone VNone False sample_width)
      else if name = ''exact_bin_sine'' then
        rbind (py_index p ''amplitude'') (\<lambda>a.
        sine_generate_exact_bin env ns a (opt ''bin'') (opt ''k'') (py_get p ''phase_rad'' (VStr ''0'')) sample_width)
      else if name = ''cosine'' then
        rbind (py_index p ''amplitude'') (\<lambda>a.
        cosine_generate env ns a (opt ''f_num'') (opt ''f_den'') (py_get p ''phase_rad'' (VStr ''0''))
          VNone VNone False sample_width)
      else if name = ''exact_bin_cosine'' then
        rbind (py_index p ''amplitude'') (\<lambda>a.
        cosine_generate_exact_bin env ns a (opt ''bin'') (opt ''k'') (py_get p ''phase_rad'' (VStr ''0'')) sample_width)
      else if name = ''multitone_sine_sum'' then
        multitone_generate env ns (py_get p ''tones'' (VList [])) sample_width
      else if name = ''uniform_noise_xorshift32'' then
        rbind (py_index p ''seed'') (\<lambda>sd.
        xorshift32_generate ns sd (opt ''B'') (opt ''bit_width'') sample_width)
      else Inl (GenErr (''unsupported generator '' @ name))))"

section \<open>Range and length\<close>

definition in_samples :: "int \<Rightarrow> int list \<Rightarrow> bool" where
  "in_samples width xs \<longleftrightarrow> (\<forall>x \<in> set xs. - (2 ^ nat (width - 1)) \<le> x \<and> x < 2 ^ nat (width - 1))"

lemma validate_ns_Inr [result_simps]: "validate_ns ns = Inr m \<longleftrightarrow> m = ns \<and> 0 < ns"
  by (auto simp: validate_ns_def)

lemma satn_Inr [result_simps]:
  "satn v w = Inr x \<longleftrightarrow> 0 < w \<and> x = max (- (2 ^ nat (w - 1))) (min (2 ^ nat (w - 1) - 1) v)"
proof -
  define P where "P = (2 :: int) ^ nat (w - 1)"
  have "0 < P" by (simp add: P_def)
  then show ?thesis
    by (auto simp: satn_def signed_bounds_def validate_sample_width_def P_def [symmetric])
qed

lemma satn_range:
  assumes "satn v w = Inr x"
  shows "- (2 ^ nat (w - 1)) \<le> x \<and> x < 2 ^ nat (w - 1)"
proof -
  define P where "P = (2 :: int) ^ nat (w - 1)"
  have "0 < P" by (simp add: P_def)
  with assms show ?thesis by (auto simp: satn_Inr P_def [symmetric])
qed

lemma constant_ok:
  "constant_generate ns v w = Inr xs \<Longrightarrow> 0 < ns \<and> length xs = nat ns \<and> in_samples w xs"
  by (auto simp: constant_generate_def rbind_Inr_iff validate_ns_Inr in_samples_def dest: satn_range)

lemma impulse_ok:
  "impulse_generate ns i n0 a A w = Inr xs \<Longrightarrow> 0 < ns \<and> length xs = nat ns \<and> in_samples w xs"
  by (auto simp: impulse_generate_def rbind_Inr_iff validate_ns_Inr in_samples_def dest: satn_range split: if_splits)

lemma step_ok:
  "step_generate ns i n0 a A w = Inr xs \<Longrightarrow> 0 < ns \<and> length xs = nat ns \<and> in_samples w xs"
  by (auto simp: step_generate_def rbind_Inr_iff validate_ns_Inr in_samples_def dest: satn_range split: if_splits)

lemma rmapM_satn:
  assumes "rmapM (\<lambda>n. rbind (f n) (\<lambda>q. satn q w)) ns = Inr xs"
  shows "in_samples w xs \<and> length xs = length ns"
proof -
  have "- (2 ^ nat (w - 1)) \<le> x \<and> x < 2 ^ nat (w - 1)" if "x \<in> set xs" for x
    using that assms by (auto simp: rmapM_Inr_iff list_all2_conv_all_nth in_set_conv_nth rbind_Inr_iff dest!: satn_range)
  then show ?thesis using rmapM_length [OF assms] by (simp add: in_samples_def)
qed

lemma tone_ok:
  "tone_generate env wave ns a args ph ex w = Inr xs \<Longrightarrow> 0 < ns \<and> length xs = nat ns \<and> in_samples w xs"
  by (auto simp: tone_generate_def rbind_Inr_iff validate_ns_Inr dest!: rmapM_satn)

lemma multitone_ok:
  "multitone_generate env ns tones w = Inr xs \<Longrightarrow> 0 < ns \<and> length xs = nat ns \<and> in_samples w xs"
  by (auto simp: multitone_generate_def rbind_Inr_iff validate_ns_Inr dest!: rmapM_satn split: pyval.splits if_splits)

lemma length_xorshift_states [simp]: "length (xorshift_states n s) = n"
  by (induction n arbitrary: s) (simp_all add: Let_def)

lemma xorshift_ok:
  assumes "xorshift32_generate ns seed B bw w = Inr xs"
  shows "0 < ns \<and> length xs = nat ns \<and> in_samples w xs"
proof -
  obtain g s where ns: "0 < ns" and "rmapM (\<lambda>s. satn (g s) w) (xorshift_states (nat ns) s) = Inr xs"
    using assms by (auto simp: xorshift32_generate_def rbind_Inr_iff validate_ns_Inr Let_def split: if_splits)
  then have "rmapM (\<lambda>s. rbind (Inr (g s)) (\<lambda>q. satn q w)) (xorshift_states (nat ns) s) = Inr xs" by simp
  from rmapM_satn [OF this] ns show ?thesis by simp
qed

lemmas generators_ok = constant_ok impulse_ok step_ok tone_ok multitone_ok xorshift_ok

lemma generate_samples_ok:
  assumes "generate_samples env g ns p w = Inr xs"
  shows "0 < ns \<and> length xs = nat ns \<and> in_samples w xs \<and> py_strip g \<in> set SUPPORTED_GENERATORS"
proof -
  have "py_strip g \<in> set SUPPORTED_GENERATORS"
    using assms by (auto simp: generate_samples_def SUPPORTED_GENERATORS_def Let_def rbind_Inr_iff split: if_splits)
  moreover have "0 < ns \<and> length xs = nat ns \<and> in_samples w xs"
    using assms unfolding generate_samples_def Let_def rbind_Inr_iff sine_generate_def cosine_generate_def
      sine_generate_exact_bin_def cosine_generate_exact_bin_def
    by (elim exE conjE) (simp split: if_splits, (elim exE conjE)?; (erule generators_ok | (simp add: rbind_Inr_iff, elim exE conjE, erule generators_ok)))
  ultimately show ?thesis by blast
qed

section \<open>The xorshift recurrence\<close>

definition state32 :: "int \<Rightarrow> bool" where
  "state32 s \<longleftrightarrow> 0 \<le> s \<and> s < 4294967296"

lemma state32_take_bit: "state32 s \<longleftrightarrow> take_bit 32 s = s"
  by (auto simp: state32_def take_bit_int_eq_self_iff)

lemma state32_id: "state32 s \<Longrightarrow> take_bit 32 s = s"
  by (simp add: state32_take_bit)

lemma and_mask32_take_bit: "(x :: int) AND 0xFFFFFFFF = take_bit 32 x"
  by (simp add: and_mask32 take_bit_eq_mod)

lemma bit_state32: "state32 s \<Longrightarrow> bit s n \<Longrightarrow> n < 32"
  by (metis bit_take_bit_iff state32_take_bit)

definition shl_stage :: "nat \<Rightarrow> int \<Rightarrow> int" where
  "shl_stage k x = x XOR take_bit 32 (push_bit k x)"

definition shr_stage :: "nat \<Rightarrow> int \<Rightarrow> int" where
  "shr_stage k x = x XOR drop_bit k x"

lemma update_stages: "xorshift_update s = take_bit 32 (shl_stage 5 (shr_stage 17 (shl_stage 13 s)))"
  by (simp add: xorshift_update_def shl_stage_def shr_stage_def and_mask32_take_bit Let_def)

lemma stage_state32: "state32 s \<Longrightarrow> state32 (shl_stage k s)" "state32 s \<Longrightarrow> state32 (shr_stage k s)"
proof -
  assume s: "state32 s"
  then show "state32 (shl_stage k s)" unfolding state32_take_bit shl_stage_def by (simp add: take_bit_xor)
  have "bit (shr_stage k s) n \<Longrightarrow> n < 32" for n
    using bit_state32 [OF s, of n] bit_state32 [OF s, of "k + n"]
    by (auto simp: shr_stage_def bit_xor_iff bit_drop_bit_eq)
  then show "state32 (shr_stage k s)"
    unfolding state32_take_bit by (intro bit_eqI) (auto simp: bit_take_bit_iff)
qed

text \<open>Each stage is injective: its bits determine the argument's bits one after the other.\<close>

lemma shl_stage_inj:
  assumes "shl_stage k x = shl_stage k y" "0 < k"
  shows "take_bit 32 x = take_bit 32 y"
proof -
  have "n < 32 \<Longrightarrow> bit x n = bit y n" for n
  proof (induction n rule: less_induct)
    case (less n)
    have "bit (shl_stage k x) n = bit (shl_stage k y) n" using assms(1) by simp
    moreover have "k \<le> n \<Longrightarrow> bit x (n - k) = bit y (n - k)" using less assms(2) by simp
    ultimately show ?case
      using less.prems by (auto simp: shl_stage_def bit_xor_iff bit_take_bit_iff bit_push_bit_iff)
  qed
  then show ?thesis by (intro bit_eqI) (auto simp: bit_take_bit_iff)
qed

lemma shr_stage_inj:
  assumes "shr_stage k x = shr_stage k y" "0 < k" "state32 x" "state32 y"
  shows "x = y"
proof (rule bit_eqI)
  fix n
  show "bit x n = bit y n"
  proof (induction "32 - n" arbitrary: n rule: less_induct)
    case less
    show ?case
    proof (cases "n < 32")
      case True
      then have "bit x (k + n) = bit y (k + n)" using assms(2) by (intro less) simp
      moreover have "bit (shr_stage k x) n = bit (shr_stage k y) n" using assms(1) by simp
      ultimately show ?thesis by (auto simp: shr_stage_def bit_xor_iff bit_drop_bit_eq)
    next
      case False
      then show ?thesis using assms(3,4) bit_state32 by blast
    qed
  qed
qed

lemma update_state32: "state32 (xorshift_update s)"
  unfolding update_stages state32_take_bit by simp

lemma update_inj:
  assumes "xorshift_update s = xorshift_update t" "state32 s" "state32 t"
  shows "s = t"
proof -
  define a b where "a = shl_stage 13 s" and "b = shl_stage 13 t"
  have ab: "state32 a" "state32 b" using assms(2,3) stage_state32 by (simp_all add: a_def b_def)
  then have cd: "state32 (shr_stage 17 a)" "state32 (shr_stage 17 b)" by (simp_all add: stage_state32)
  then have "state32 (shl_stage 5 (shr_stage 17 a))" "state32 (shl_stage 5 (shr_stage 17 b))"
    by (simp_all add: stage_state32)
  then have "shl_stage 5 (shr_stage 17 a) = shl_stage 5 (shr_stage 17 b)"
    using assms(1) by (simp only: update_stages a_def [symmetric] b_def [symmetric] state32_id)
  then have "take_bit 32 (shr_stage 17 a) = take_bit 32 (shr_stage 17 b)" by (rule shl_stage_inj) simp
  then have "shr_stage 17 a = shr_stage 17 b" using cd by (simp only: state32_id)
  then have "a = b" by (rule shr_stage_inj [OF _ _ ab]) simp
  then have "take_bit 32 s = take_bit 32 t" unfolding a_def b_def by (rule shl_stage_inj) simp
  then show ?thesis using assms(2,3) by (simp only: state32_id)
qed

lemma update_zero: "xorshift_update 0 = 0"
  by (simp add: xorshift_update_def)

lemma update_nonzero: "state32 s \<Longrightarrow> s \<noteq> 0 \<Longrightarrow> xorshift_update s \<noteq> 0"
  using update_inj [of s 0] update_zero by (auto simp: state32_def)

lemma update_bij: "bij_betw xorshift_update {1..<4294967296} {1..<4294967296}"
proof -
  have st: "s \<in> {1..<4294967296} \<longleftrightarrow> state32 s \<and> s \<noteq> 0" for s
    by (auto simp: state32_def)
  have inj: "inj_on xorshift_update {1..<4294967296}"
    by (rule inj_onI) (use update_inj st in blast)
  moreover have "xorshift_update ` {1..<4294967296} \<subseteq> {1..<4294967296}"
    using update_state32 update_nonzero st by blast
  ultimately show ?thesis unfolding bij_betw_def by (metis endo_inj_surj finite_atLeastLessThan_int)
qed

lemma funpow_bij: "bij_betw f A A \<Longrightarrow> bij_betw (f ^^ n) A A"
proof (induction n)
  case (Suc n)
  then have "bij_betw (f \<circ> f ^^ n) A A" by (intro bij_betw_trans [of "f ^^ n" A A f A]) simp_all
  then show ?case by (simp add: comp_def)
qed (simp add: bij_betw_def)

text \<open>
  The noise recurrence permutes the nonzero 32-bit states. Any number of updates is a bijection of
  \<open>1, \<dots>, 2\<^sup>32 - 1\<close> onto itself, so different seeds give different states forever and the generator never reaches
  the all-zero state, which the recurrence fixes and the seed check excludes.
\<close>

theorem xorshift_permutation:
  "bij_betw (xorshift_update ^^ n) {1..<4294967296} {1..<4294967296} \<and> xorshift_update 0 = 0"
  using funpow_bij [OF update_bij] update_zero by blast

text \<open>
  C22: Every generated vector is a valid input vector. Whatever generator name and parameters are given and however
  the floating-point tones evaluate, a vector that is returned belongs to a supported generator, has exactly \<open>Ns > 0\<close>
  samples, and every sample lies in the signed range of the sample width.
\<close>

theorem generated_vector_valid:
  assumes "generate_samples env generator ns parameters width = Inr xs" "0 < width"
  shows "0 < ns \<and> int (length xs) = ns \<and> py_strip generator \<in> set SUPPORTED_GENERATORS \<and>
    ensure_samples xs width = Inr xs"
  using generate_samples_ok [OF assms(1)] assms(2)
  by (auto simp: ensure_samples_def signed_bounds_def validate_sample_width_def in_samples_def)

text \<open>
  A generated input vector survives its file. The vector of any generator at the project's sample width is
  serialised under the \<^verbatim>\<open>x_in\<close> contract without an error, and reading the file back under the same contract
  returns the same samples.
\<close>

theorem generated_vector_file_round_trip:
  assumes "generate_samples env generator ns parameters cfg_N = Inr xs" "contract_for_kind ''x_in'' (Some ns) = Inr c"
  shows "\<exists>raw. canonical_bytes xs c = Inr raw \<and> read_memh (Some raw) c = Inr xs"
proof -
  have c: "c = \<lparr> mc_width_bits = 12, mc_signed = True, mc_rows = Some ns, mc_kind = Some ''x_in'' \<rparr>"
    using assms(2) by (auto simp: contract_for_kind_def py_strip_def py_lower_def lower_char_def
      py_replace_char_def py_isspace_def code_def cfg_N_def)
  have "memh_valid c xs"
    using generate_samples_ok [OF assms(1)]
    by (simp add: memh_valid_def c in_range_def list_all_iff in_samples_def cfg_N_def)
  then obtain raw where "canonical_bytes xs c = Inr raw"
    by (auto simp: canonical_bytes_def result_simps canonical_text_iff)
  with read_canonical_bytes [OF this] show ?thesis by blast
qed

lemma xorshift_states_funpow:
  "xorshift_states n s = map (\<lambda>i. (xorshift_update ^^ (i + 1)) s) [0..<n]"
proof (induction n arbitrary: s)
  case (Suc n)
  have "[0..<Suc n] = 0 # map Suc [0..<n]" by (simp add: upt_conv_Cons map_Suc_upt del: upt_Suc)
  with Suc show ?case by (simp add: Let_def funpow_swap1 del: upt_Suc)
qed simp

lemma satn_small: "0 < w \<Longrightarrow> - (2 ^ nat (w - 1)) \<le> v \<Longrightarrow> v < 2 ^ nat (w - 1) \<Longrightarrow> satn v w = Inr v"
  by (simp add: satn_Inr)

lemma satn_centred:
  assumes "1 \<le> b" "b \<le> w"
  shows "satn (v mod 2 ^ nat b - 2 ^ nat (b - 1)) w = Inr (v mod 2 ^ nat b - 2 ^ nat (b - 1))"
proof -
  define P where "P = (2 :: int) ^ nat (b - 1)"
  have "nat b = Suc (nat (b - 1))" using assms(1) by simp
  then have two: "(2 :: int) ^ nat b = 2 * P" by (simp add: P_def)
  have mod: "0 \<le> v mod (2 * P)" "v mod (2 * P) < 2 * P" by (simp_all add: P_def)
  have le: "P \<le> 2 ^ nat (w - 1)" unfolding P_def using assms by (intro power_increasing) simp_all
  show ?thesis
    unfolding two P_def [symmetric] by (rule satn_small) (use assms mod le in linarith)+
qed

text \<open>
  Centred noise that fits the sample width is not clipped. With \<open>B\<close> at most the sample width, sample \<open>i\<close> is
  the low \<open>B\<close> bits of the state after \<open>i + 1\<close> updates of the masked seed, minus \<open>2\<^sup>B\<^sup>-\<^sup>1\<close>; the call cannot fail.
\<close>

theorem noise_exact:
  assumes "0 < ns" "seed AND 0xFFFFFFFF \<noteq> 0" "1 \<le> b" "b \<le> 32" "b \<le> width"
  shows "xorshift32_generate ns (VInt seed) (VInt b) VNone width =
    Inr (map (\<lambda>i. (xorshift_update ^^ (i + 1)) (seed mod 4294967296) mod 2 ^ nat b - 2 ^ nat (b - 1)) [0..<nat ns])"
proof -
  define msk :: int where "msk = (if b = 32 then 0xFFFFFFFF else push_bit (nat b) 1 - 1)"
  have "x AND msk = x mod 2 ^ nat b" for x :: int
    using and_mask_mod [of x "nat b"] by (simp add: and_mask32 msk_def)
  then have "rmapM (\<lambda>s. satn ((s AND msk) - push_bit (nat (b - 1)) 1) width) ss =
      Inr (map (\<lambda>s. s mod 2 ^ nat b - 2 ^ nat (b - 1)) ss)" for ss
    by (intro rmapM_Inr_map) (simp only: push_bit_of_1 satn_centred [OF assms(3,5)])
  then show ?thesis
    using assms unfolding xorshift32_generate_def Let_def
    by (simp add: validate_ns_def coerce_int_def or_else_def xorshift_states_funpow and_mask32 comp_def
        flip: msk_def)
qed

text \<open>
  An impulse is the difference of two steps. For every position inside the vector the impulse is the step at
  that position minus the step one later, sample by sample, with the same saturated amplitude.
\<close>

theorem impulse_is_step_difference:
  assumes "0 \<le> i" "i < ns" "0 < width"
  shows "\<exists>u v. step_generate ns (VInt i) VNone (VInt a) VNone width = Inr u \<and>
    step_generate ns (VInt (i + 1)) VNone (VInt a) VNone width = Inr v \<and>
    impulse_generate ns (VInt i) VNone (VInt a) VNone width = Inr (map2 (-) u v)"
proof -
  obtain s where s: "satn a width = Inr s" using assms(3) by (simp add: satn_Inr)
  have z: "zip (map f xs) (map g xs) = map (\<lambda>n. (f n, g n)) xs" for f g :: "int \<Rightarrow> int" and xs
    by (induction xs) simp_all
  show ?thesis
    using assms s
    by (auto simp: step_generate_def impulse_generate_def coerce_int_def or_else_def validate_ns_def z)
qed

section \<open>Witnesses\<close>

definition square_env :: "int float_env" where
  "square_env = \<lparr> fe_phase = (\<lambda>_. Inr 0),
     fe_sine = (\<lambda>amp num den ph n. Inr (if 2 * (n * num mod den) < den then amp else - amp)),
     fe_cosine = (\<lambda>amp num den ph n. Inr (if 4 * (n * num mod den) < den then amp else - amp)),
     fe_sum = (\<lambda>ts n. Inr (\<Sum>(amp, _)\<leftarrow>ts. amp)) \<rparr>"

definition sine_parameters :: pyval where
  "sine_parameters = VDict [(''amplitude'', VStr '' 3000 ''), (''f_num'', VInt 1), (''f_den'', VInt 4)]"

lemma sine_example: "generate_samples square_env '' sine'' 4 sine_parameters 12 = Inr [2047, 2047, -2048, -2048]"
  by code_simp

theorem generated_vector_valid_witness: "ensure_samples [2047, 2047, -2048, -2048] 12 = Inr [2047, 2047, -2048, -2048]"
  using generated_vector_valid [OF sine_example] by simp

theorem generated_vector_file_round_trip_witness:
  "\<exists>c raw. contract_for_kind ''x_in'' (Some 4) = Inr c \<and> canonical_bytes [2047, 2047, -2048, -2048] c = Inr raw \<and>
     read_memh (Some raw) c = Inr [2047, 2047, -2048, -2048]"
proof -
  obtain c where c: "contract_for_kind ''x_in'' (Some 4) = Inr c"
    by (auto simp: contract_for_kind_def py_strip_def py_lower_def lower_char_def
      py_replace_char_def py_isspace_def code_def)
  show ?thesis using generated_vector_file_round_trip [OF sine_example [folded cfg_N_def] c] c by blast
qed

theorem noise_exact_witness: "xorshift32_generate 1 (VInt 1) (VInt 8) VNone 12 = Inr [-95]"
proof -
  have "xorshift_update 1 = 270369" by code_simp
  with noise_exact [of 1 1 8 12] show ?thesis by simp
qed

theorem impulse_is_step_difference_witness:
  "impulse_generate 3 (VInt 1) VNone (VInt 9) VNone 12 = Inr [0, 9, 0]"
proof -
  have "step_generate 3 (VInt 1) VNone (VInt 9) VNone 12 = Inr [0, 9, 9]"
    "step_generate 3 (VInt (1 + 1)) VNone (VInt 9) VNone 12 = Inr [0, 0, 9]"
    by code_simp+
  with impulse_is_step_difference [of 1 3 12 9] show ?thesis by auto
qed

end
