(* ===== verification/Delay_History.thy ===== *)
theory Delay_History
  imports Integer_Oracle
begin

text \<open>
  The delayed-input history with its streaming error metrics, \<^verbatim>\<open>scripts/sim/check_c0_delay_history_model.py\<close>.
  The object is a record; a method that mutates it and returns a flag is a function to a pair. The abstract
  specification is the pair of accepted input and output streams: \<open>dh_of\<close> is the state they determine, and every
  operation on such a state is an operation on the streams or a hard fault.
\<close>

section \<open>The object\<close>

definition DH_L :: int where "DH_L = 256"
definition DH_H :: int where "DH_H = 128"
definition DH_G :: int where "DH_G = 128"
definition DH_D :: int where "DH_D = DH_L + DH_G"
definition DH_DEPTH :: int where "DH_DEPTH = 1024"
definition MASK64 :: int where "MASK64 = push_bit 64 1 - 1"

lemmas dh_consts = DH_L_def DH_H_def DH_G_def DH_D_def DH_DEPTH_def

definition require :: "bool \<Rightarrow> string \<Rightarrow> unit result" where
  "require condition message = (if condition then Inr () else Inl (Exn RuntimeError message))"

definition x_value :: "int \<Rightarrow> int" where
  "x_value index = (index * 37 + 11) mod 3001 - 1500"

definition y_value :: "int \<Rightarrow> int" where
  "y_value index = (index * 19 + 7) mod 2801 - 1400"

record delay_history =
  dh_depth :: int
  dh_delay :: int
  dh_history :: "(int \<times> int) list"
  dh_next_x :: int
  dh_next_y :: int
  dh_next_retire :: int
  dh_metric_count :: int
  dh_sum_abs_lo :: int
  dh_sum_sq_lo :: int
  dh_max_abs :: int
  dh_metric_overflow :: bool
  dh_fail_stop :: bool

definition DelayHistory :: "int \<Rightarrow> int \<Rightarrow> delay_history" where
  "DelayHistory depth delay =
     \<lparr> dh_depth = depth, dh_delay = delay, dh_history = [], dh_next_x = 0, dh_next_y = 0, dh_next_retire = 0,
       dh_metric_count = 0, dh_sum_abs_lo = 0, dh_sum_sq_lo = 0, dh_max_abs = 0,
       dh_metric_overflow = False, dh_fail_stop = False \<rparr>"

definition dh_busy :: "delay_history \<Rightarrow> bool" where
  "dh_busy s \<longleftrightarrow> dh_history s \<noteq> [] \<or> dh_fail_stop s"

definition x_ready :: "delay_history \<Rightarrow> bool" where
  "x_ready s \<longleftrightarrow> \<not> dh_fail_stop s \<and> int (length (dh_history s)) < dh_depth s"

definition push_x :: "int \<Rightarrow> int \<Rightarrow> delay_history \<Rightarrow> delay_history \<times> bool" where
  "push_x index sample s =
     (if dh_fail_stop s then (s, False)
      else if index \<noteq> dh_next_x s \<or> dh_next_x s = MASK64 then (s\<lparr> dh_fail_stop := True \<rparr>, False)
      else if int (length (dh_history s)) = dh_depth s then (s, False)
      else (s\<lparr> dh_history := dh_history s @ [(index, sample)], dh_next_x := dh_next_x s + 1 \<rparr>, True))"

text \<open>The metric update at the end of \<^verbatim>\<open>take_y\<close>.\<close>

definition measure_error :: "int \<Rightarrow> int \<Rightarrow> delay_history \<Rightarrow> delay_history" where
  "measure_error delayed sample s =
     (let error = delayed - sample; absolute = \<bar>error\<bar>; square = absolute * absolute;
          abs_extended = dh_sum_abs_lo s + absolute; sq_extended = dh_sum_sq_lo s + square in
      s\<lparr> dh_sum_abs_lo := abs_extended AND MASK64, dh_sum_sq_lo := sq_extended AND MASK64,
         dh_metric_overflow := (dh_metric_overflow s \<or> abs_extended > MASK64 \<or> sq_extended > MASK64),
         dh_max_abs := max (dh_max_abs s) absolute, dh_metric_count := dh_metric_count s + 1,
         dh_next_y := dh_next_y s + 1 \<rparr>)"

definition take_y :: "int \<Rightarrow> int \<Rightarrow> delay_history \<Rightarrow> delay_history \<times> bool" where
  "take_y index sample s =
     (if dh_fail_stop s then (s, False)
      else if index \<noteq> dh_next_y s \<or> dh_next_y s = MASK64 then (s\<lparr> dh_fail_stop := True \<rparr>, False)
      else if index \<ge> dh_delay s then
        let xref = index - dh_delay s in
        case dh_history s of
          [] \<Rightarrow> (if xref < dh_next_x s then s\<lparr> dh_fail_stop := True \<rparr> else s, False)
        | (head_index, delayed) # rest \<Rightarrow>
            if head_index \<noteq> xref \<or> dh_next_retire s \<noteq> xref then (s\<lparr> dh_fail_stop := True \<rparr>, False)
            else (measure_error delayed sample
                    (s\<lparr> dh_history := rest, dh_next_retire := dh_next_retire s + 1 \<rparr>), True)
      else (measure_error 0 sample s, True))"

definition clear_sticky :: "delay_history \<Rightarrow> delay_history" where
  "clear_sticky s = s"

definition clear_metrics :: "delay_history \<Rightarrow> delay_history" where
  "clear_metrics s = s\<lparr> dh_metric_count := 0, dh_sum_abs_lo := 0, dh_sum_sq_lo := 0, dh_max_abs := 0,
     dh_metric_overflow := False \<rparr>"

definition dh_clear :: "delay_history \<Rightarrow> delay_history" where
  "dh_clear s = s\<lparr> dh_history := [], dh_next_x := 0, dh_next_y := 0, dh_next_retire := 0,
     dh_metric_count := 0, dh_sum_abs_lo := 0, dh_sum_sq_lo := 0, dh_max_abs := 0,
     dh_metric_overflow := False, dh_fail_stop := False \<rparr>"

definition check_invariant :: "delay_history \<Rightarrow> unit result" where
  "check_invariant s =
     (let consumed = max (dh_next_y s - dh_delay s) 0 in
      rbind (require (dh_next_retire s = consumed) ''retire mismatch'') (\<lambda>_.
      rbind (require (int (length (dh_history s)) = dh_next_x s - dh_next_retire s)
        ''occupancy does not equal accepted-x minus retired-x'') (\<lambda>_.
      require (0 \<le> int (length (dh_history s)) \<and> int (length (dh_history s)) \<le> dh_depth s)
        ''occupancy outside depth'')))"

section \<open>The streams a state stands for\<close>

definition stream_errors :: "int \<Rightarrow> int list \<Rightarrow> int list \<Rightarrow> int list" where
  "stream_errors delay xs ys = map (\<lambda>n. source_at xs (int n - delay) - ys ! n) [0..<length ys]"

definition retired :: "int \<Rightarrow> int list \<Rightarrow> nat" where
  "retired delay ys = nat (int (length ys) - delay)"

definition tagged :: "int \<Rightarrow> int list \<Rightarrow> int list \<Rightarrow> (int \<times> int) list" where
  "tagged delay xs ys = map (\<lambda>n. (int n, xs ! n)) [retired delay ys..<length xs]"

definition dh_of :: "int \<Rightarrow> int \<Rightarrow> int list \<Rightarrow> int list \<Rightarrow> delay_history" where
  "dh_of depth delay xs ys =
     (let es = stream_errors delay xs ys; sa = sum_list (map abs es); sq = sum_list (map (\<lambda>e. e * e) es) in
      \<lparr> dh_depth = depth, dh_delay = delay, dh_history = tagged delay xs ys,
        dh_next_x = int (length xs), dh_next_y = int (length ys), dh_next_retire = int (retired delay ys),
        dh_metric_count = int (length ys), dh_sum_abs_lo = sa mod 2 ^ 64, dh_sum_sq_lo = sq mod 2 ^ 64,
        dh_max_abs = foldl max 0 (map abs es), dh_metric_overflow = (2 ^ 64 \<le> sa \<or> 2 ^ 64 \<le> sq),
        dh_fail_stop = False \<rparr>)"

text \<open>The streams in step: nothing retired that was not accepted, and the difference fits the memory.\<close>

definition in_step :: "int \<Rightarrow> int \<Rightarrow> int list \<Rightarrow> int list \<Rightarrow> bool" where
  "in_step depth delay xs ys \<longleftrightarrow> 0 \<le> delay \<and> retired delay ys \<le> length xs \<and>
     int (length xs) - int (retired delay ys) \<le> depth"

lemma length_stream_errors [simp]: "length (stream_errors delay xs ys) = length ys"
  by (simp add: stream_errors_def)

lemma stream_errors_snoc:
  "stream_errors delay xs (ys @ [y]) = stream_errors delay xs ys @ [source_at xs (int (length ys) - delay) - y]"
  by (simp add: stream_errors_def nth_append)

lemma stream_errors_push:
  assumes "retired delay ys \<le> length xs"
  shows "stream_errors delay (xs @ [x]) ys = stream_errors delay xs ys"
proof -
  have "source_at (xs @ [x]) (int n - delay) = source_at xs (int n - delay)" if "n < length ys" for n
  proof -
    have "int n - delay < int (length xs)" using assms that by (simp add: retired_def)
    then show ?thesis by (auto simp: source_at_def nth_append nat_less_iff)
  qed
  then show ?thesis by (simp add: stream_errors_def)
qed

lemma tagged_push: "retired delay ys \<le> length xs \<Longrightarrow> tagged delay (xs @ [x]) ys = tagged delay xs ys @ [(int (length xs), x)]"
  by (auto simp: tagged_def nth_append)

lemma length_tagged: "retired delay ys \<le> length xs \<Longrightarrow> int (length (tagged delay xs ys)) = int (length xs) - int (retired delay ys)"
  by (simp add: tagged_def of_nat_diff)

lemma tagged_take:
  assumes "delay \<le> int (length ys)" "0 \<le> delay"
  shows "tagged delay xs ys =
    (if retired delay ys < length xs
     then (int (length ys) - delay, xs ! retired delay ys) # tagged delay xs (ys @ [y]) else [])"
proof -
  have "int (retired delay ys) = int (length ys) - delay" using assms(1) by (simp add: retired_def)
  moreover from this have "retired delay (ys @ [y]) = Suc (retired delay ys)"
    using assms(1) unfolding retired_def by (simp add: nat_eq_iff)
  ultimately show ?thesis unfolding tagged_def by (simp add: upt_conv_Cons del: upt_Suc)
qed

lemma tagged_early: "int (length ys) < delay \<Longrightarrow> tagged delay xs (ys @ [y]) = tagged delay xs ys"
  by (simp add: tagged_def retired_def)

lemma sum_list_abs_nonneg: "0 \<le> sum_list (map (abs :: int \<Rightarrow> int) es)"
  by (induction es) auto

lemma sum_list_sq_nonneg: "0 \<le> (\<Sum>e\<leftarrow>es. e * e :: int)"
  by (induction es) auto

text \<open>One more term in a wrapping sum, and when the wrap is noticed.\<close>

lemma wrap_sum:
  fixes t a :: int
  assumes "0 \<le> t" "0 \<le> a"
  shows "(t mod 2 ^ 64 + a) AND MASK64 = (t + a) mod 2 ^ 64"
    and "2 ^ 64 \<le> t \<or> t mod 2 ^ 64 + a > MASK64 \<longleftrightarrow> 2 ^ 64 \<le> t + a"
proof -
  show "(t mod 2 ^ 64 + a) AND MASK64 = (t + a) mod 2 ^ 64"
    using and_mask_mod [of "t mod 2 ^ 64 + a" 64] by (simp add: MASK64_def mod_add_left_eq)
  show "2 ^ 64 \<le> t \<or> t mod 2 ^ 64 + a > MASK64 \<longleftrightarrow> 2 ^ 64 \<le> t + a"
  proof (cases "2 ^ 64 \<le> t")
    case False
    then have "t mod 2 ^ 64 = t" using assms(1) by simp
    with False show ?thesis by (auto simp: MASK64_def)
  qed (use assms in auto)
qed

text \<open>Measuring one more output sample is appending it to the stream.\<close>

lemma measure_error_dh_of:
  assumes "d = source_at xs (int (length ys) - delay)"
  shows "measure_error d y (dh_of depth delay xs ys\<lparr> dh_history := tagged delay xs (ys @ [y]),
      dh_next_retire := int (retired delay (ys @ [y])) \<rparr>) = dh_of depth delay xs (ys @ [y])"
proof -
  define es where "es = stream_errors delay xs ys"
  have "stream_errors delay xs (ys @ [y]) = es @ [d - y]" by (simp add: stream_errors_snoc es_def assms)
  moreover note wrap_sum [OF sum_list_abs_nonneg [of es], of "\<bar>d - y\<bar>"]
    wrap_sum [OF sum_list_sq_nonneg [of es], of "(d - y) * (d - y)"]
  moreover have "\<bar>d - y\<bar> * \<bar>d - y\<bar> = (d - y) * (d - y)" by (rule abs_mult_self_eq)
  ultimately show ?thesis
    unfolding measure_error_def dh_of_def Let_def es_def [symmetric] by auto
qed

lemma dh_of_fields [simp]:
  "dh_fail_stop (dh_of depth delay xs ys) = False" "dh_next_x (dh_of depth delay xs ys) = int (length xs)"
  "dh_next_y (dh_of depth delay xs ys) = int (length ys)" "dh_depth (dh_of depth delay xs ys) = depth"
  "dh_delay (dh_of depth delay xs ys) = delay" "dh_history (dh_of depth delay xs ys) = tagged delay xs ys"
  "dh_next_retire (dh_of depth delay xs ys) = int (retired delay ys)"
  "dh_metric_count (dh_of depth delay xs ys) = int (length ys)"
  by (simp_all add: dh_of_def Let_def)

lemma dh_of_fresh: "DelayHistory depth delay = dh_of depth delay [] []" if "0 \<le> delay"
  using that by (simp add: DelayHistory_def dh_of_def Let_def tagged_def retired_def stream_errors_def)

lemma push_x_refines:
  assumes "in_step depth delay xs ys" "int (length xs) < MASK64"
  shows "push_x i v (dh_of depth delay xs ys) =
    (if i \<noteq> int (length xs) then ((dh_of depth delay xs ys)\<lparr> dh_fail_stop := True \<rparr>, False)
     else if int (length xs) - int (retired delay ys) = depth then (dh_of depth delay xs ys, False)
     else (dh_of depth delay (xs @ [v]) ys, True))"
proof -
  have r: "retired delay ys \<le> length xs" using assms(1) by (simp add: in_step_def)
  have "dh_of depth delay (xs @ [v]) ys =
      (dh_of depth delay xs ys)\<lparr> dh_history := tagged delay xs ys @ [(int (length xs), v)], dh_next_x := int (length xs) + 1 \<rparr>"
    by (simp add: dh_of_def Let_def stream_errors_push [OF r] tagged_push [OF r])
  then show ?thesis using assms(2) by (simp add: push_x_def length_tagged [OF r])
qed

lemma take_y_refines:
  assumes "in_step depth delay xs ys" "int (length ys) < MASK64"
  shows "take_y i v (dh_of depth delay xs ys) =
    (if i \<noteq> int (length ys) then ((dh_of depth delay xs ys)\<lparr> dh_fail_stop := True \<rparr>, False)
     else if int (length ys) - delay \<ge> int (length xs) \<and> delay \<le> int (length ys) then (dh_of depth delay xs ys, False)
     else (dh_of depth delay xs (ys @ [v]), True))"
proof -
  let ?s = "dh_of depth delay xs ys"
  have d: "0 \<le> delay" and r: "retired delay ys \<le> length xs" using assms(1) by (simp_all add: in_step_def)
  show ?thesis
  proof (cases "delay \<le> int (length ys)")
    case False
    then have "source_at xs (int (length ys) - delay) = 0" by (simp add: source_at_def)
    moreover have "?s\<lparr> dh_history := tagged delay xs (ys @ [v]), dh_next_retire := int (retired delay (ys @ [v])) \<rparr> = ?s"
      using False by (simp add: tagged_early retired_def dh_of_def Let_def)
    ultimately have "measure_error 0 v ?s = dh_of depth delay xs (ys @ [v])"
      using measure_error_dh_of [of 0 xs ys delay v depth] by simp
    then show ?thesis using False assms(2) by (simp add: take_y_def)
  next
    case True
    then have ri: "int (retired delay ys) = int (length ys) - delay" by (simp add: retired_def)
    have ri1: "int (retired delay (ys @ [v])) = int (retired delay ys) + 1"
      using True by (simp add: retired_def)
    show ?thesis
    proof (cases "retired delay ys < length xs")
      case True
      have src: "xs ! retired delay ys = source_at xs (int (length ys) - delay)"
        using True ri by (simp add: source_at_def) (simp flip: ri)
      have "?s\<lparr> dh_history := tagged delay xs (ys @ [v]), dh_next_retire := int (retired delay ys) + 1 \<rparr> =
          ?s\<lparr> dh_history := tagged delay xs (ys @ [v]), dh_next_retire := int (retired delay (ys @ [v])) \<rparr>"
        by (simp add: ri1)
      with measure_error_dh_of [OF src, of v depth] tagged_take [OF \<open>delay \<le> int (length ys)\<close> d, of xs v]
      show ?thesis using True ri \<open>delay \<le> int (length ys)\<close> assms(2) by (auto simp: take_y_def Let_def)
    next
      case False
      with r have "length xs = retired delay ys" by simp
      with tagged_take [OF \<open>delay \<le> int (length ys)\<close> d, of xs v] ri \<open>delay \<le> int (length ys)\<close> assms(2)
      show ?thesis by (simp add: take_y_def Let_def)
    qed
  qed
qed

lemma in_step_push:
  "in_step depth delay xs ys \<Longrightarrow> int (length xs) - int (retired delay ys) \<noteq> depth \<Longrightarrow> in_step depth delay (xs @ [v]) ys"
  by (simp add: in_step_def)

lemma in_step_take:
  "in_step depth delay xs ys \<Longrightarrow> \<not> (int (length ys) - delay \<ge> int (length xs) \<and> delay \<le> int (length ys)) \<Longrightarrow>
     in_step depth delay xs (ys @ [v])"
  by (auto simp: in_step_def retired_def split: if_splits)

section \<open>Refinement\<close>

datatype dh_op = PushX int int | TakeY int int | ClearSticky | ClearAll

definition dh_step :: "delay_history \<Rightarrow> dh_op \<Rightarrow> delay_history \<times> bool" where
  "dh_step s op =
     (case op of
        PushX i v \<Rightarrow> push_x i v s
      | TakeY i v \<Rightarrow> take_y i v s
      | ClearSticky \<Rightarrow> (clear_sticky s, True)
      | ClearAll \<Rightarrow> (dh_clear s, True))"

text \<open>
  The specification: the accepted streams, or nothing after a hard fault. An input waits while the memory is full,
  an output waits for the input it is compared with, and an index out of order is a fault that only a full clear ends.
\<close>

type_synonym streams = "(int list \<times> int list) option"

definition spec_step :: "int \<Rightarrow> int \<Rightarrow> streams \<Rightarrow> dh_op \<Rightarrow> streams \<times> bool" where
  "spec_step depth delay st op =
     (case (op, st) of
        (ClearAll, _) \<Rightarrow> (Some ([], []), True)
      | (ClearSticky, _) \<Rightarrow> (st, True)
      | (_, None) \<Rightarrow> (None, False)
      | (PushX i v, Some (xs, ys)) \<Rightarrow>
          if i \<noteq> int (length xs) then (None, False)
          else if int (length xs) - int (retired delay ys) = depth then (st, False)
          else (Some (xs @ [v], ys), True)
      | (TakeY i v, Some (xs, ys)) \<Rightarrow>
          if i \<noteq> int (length ys) then (None, False)
          else if delay \<le> int (length ys) \<and> int (length xs) \<le> int (length ys) - delay then (st, False)
          else (Some (xs, ys @ [v]), True))"

definition refines :: "int \<Rightarrow> int \<Rightarrow> nat \<Rightarrow> delay_history \<Rightarrow> streams \<Rightarrow> bool" where
  "refines depth delay n s st \<longleftrightarrow>
     dh_depth s = depth \<and> dh_delay s = delay \<and>
     (case st of None \<Rightarrow> dh_fail_stop s
      | Some (xs, ys) \<Rightarrow> s = dh_of depth delay xs ys \<and> in_step depth delay xs ys \<and> length xs \<le> n \<and> length ys \<le> n)"

lemma failed_step: "dh_fail_stop s \<Longrightarrow> push_x i v s = (s, False)" "dh_fail_stop s \<Longrightarrow> take_y i v s = (s, False)"
  by (simp_all add: push_x_def take_y_def)

lemma step_refines:
  assumes "refines depth delay n s st" "0 \<le> delay" "0 \<le> depth" "int n < MASK64"
  shows "refines depth delay (Suc n) (fst (dh_step s op)) (fst (spec_step depth delay st op)) \<and>
    snd (dh_step s op) = snd (spec_step depth delay st op)"
proof (cases op)
  case ClearSticky
  then show ?thesis using assms(1) by (auto simp: refines_def dh_step_def spec_step_def clear_sticky_def split: option.splits)
next
  case ClearAll
  have "dh_clear s = DelayHistory (dh_depth s) (dh_delay s)" by (simp add: dh_clear_def DelayHistory_def)
  moreover have "in_step depth delay [] []" using assms(2,3) by (simp add: in_step_def retired_def)
  ultimately show ?thesis
    using assms ClearAll by (simp add: refines_def dh_step_def spec_step_def dh_of_fresh)
next
  case (PushX i v)
  show ?thesis
  proof (cases st)
    case None
    with assms(1) PushX show ?thesis by (simp add: refines_def dh_step_def spec_step_def failed_step)
  next
    case (Some z)
    then obtain xs ys where st: "st = Some (xs, ys)" and s: "s = dh_of depth delay xs ys"
        and sync: "in_step depth delay xs ys" and len: "length xs \<le> n" "length ys \<le> n"
      using assms(1) by (cases z) (simp add: refines_def)
    have "int (length xs) < MASK64" using len assms(4) by simp
    from push_x_refines [OF sync this, of i v] in_step_push [OF sync, of v] sync len st s PushX
    show ?thesis by (simp add: refines_def dh_step_def spec_step_def)
  qed
next
  case (TakeY i v)
  show ?thesis
  proof (cases st)
    case None
    with assms(1) TakeY show ?thesis by (simp add: refines_def dh_step_def spec_step_def failed_step)
  next
    case (Some z)
    then obtain xs ys where st: "st = Some (xs, ys)" and s: "s = dh_of depth delay xs ys"
        and sync: "in_step depth delay xs ys" and len: "length xs \<le> n" "length ys \<le> n"
      using assms(1) by (cases z) (simp add: refines_def)
    have "int (length ys) < MASK64" using len assms(4) by simp
    from take_y_refines [OF sync this, of i v] in_step_take [OF sync, of v] sync len st s TakeY
    show ?thesis by (auto simp: refines_def dh_step_def spec_step_def)
  qed
qed

lemma run_refines:
  assumes "refines depth delay n s st" "0 \<le> delay" "0 \<le> depth" "int (n + length ops) \<le> MASK64"
  shows "refines depth delay (n + length ops) (fst (run_ops dh_step s ops)) (fst (run_ops (spec_step depth delay) st ops)) \<and>
    snd (run_ops dh_step s ops) = snd (run_ops (spec_step depth delay) st ops)"
  using assms(1,4)
proof (induction ops arbitrary: n s st)
  case (Cons op ops)
  have "int n < MASK64" using Cons.prems(2) by simp
  note one = step_refines [OF Cons.prems(1) assms(2,3) this, of op]
  then show ?case
    using Cons.IH [of "Suc n" "fst (dh_step s op)" "fst (spec_step depth delay st op)"] Cons.prems(2)
    by (auto simp: split_beta)
qed simp

lemma fresh_refines: "0 \<le> delay \<Longrightarrow> 0 \<le> depth \<Longrightarrow> refines depth delay 0 (DelayHistory depth delay) (Some ([], []))"
  by (simp add: refines_def dh_of_fresh in_step_def retired_def)

lemma run_from_fresh:
  assumes "0 \<le> delay" "0 \<le> depth" "int (length ops) \<le> MASK64"
  defines "c \<equiv> run_ops dh_step (DelayHistory depth delay) ops"
    and "a \<equiv> run_ops (spec_step depth delay) (Some ([], [])) ops"
  shows "snd c = snd a \<and>
    (case fst a of None \<Rightarrow> dh_fail_stop (fst c) | Some (xs, ys) \<Rightarrow> fst c = dh_of depth delay xs ys)"
  using run_refines [OF fresh_refines [OF assms(1,2)] assms(1,2), of ops] assms(3)
  by (auto simp: refines_def c_def a_def split: option.splits)


section \<open>The streaming metrics are the oracle's\<close>

lemma source_at_zeros: "source_at (xs @ replicate k 0) n = source_at xs n"
  by (auto simp: source_at_def nth_append nat_less_iff)

lemma run_metrics:
  assumes "run samples thr window fwd ivt cfg = Inr r"
  defines "es \<equiv> stream_errors (int (oc_D cfg)) samples (or_y r)"
  shows "or_sum_abs_err r = sum_list (map abs es) \<and> or_sum_sq_err r = sum_list (map (\<lambda>e. e * e) es) \<and>
    or_max_abs_err r = foldl max 0 (map abs es) \<and> length (or_y r) = or_ny r"
  using assms(1) unfolding run_def Let_def es_def stream_errors_def
  by (auto simp: rbind_Inr_iff split: if_splits)

text \<open>
  C23: the streaming metrics agree with the batch oracle. Let the oracle accept a stream. However the input samples
  (extended by any number of zeros) and the oracle's outputs were interleaved when the delay history accepted exactly
  these two streams, its sums are the oracle's error sums modulo \<open>2\<^sup>64\<close>, its maximum and its count are the
  oracle's, and without the overflow flag the sums are the exact ones.
\<close>

theorem streaming_metrics_match_oracle:
  assumes "run samples thr window fwd ivt cfg = Inr r"
    and "fst (run_ops (spec_step depth (int (oc_D cfg))) (Some ([], [])) ops) = Some (samples @ replicate k 0, or_y r)"
    and "0 \<le> depth" "int (length ops) \<le> MASK64"
  defines "s \<equiv> fst (run_ops dh_step (DelayHistory depth (int (oc_D cfg))) ops)"
  shows "dh_sum_abs_lo s = or_sum_abs_err r mod 2 ^ 64 \<and> dh_sum_sq_lo s = or_sum_sq_err r mod 2 ^ 64 \<and>
    dh_max_abs s = or_max_abs_err r \<and> dh_metric_count s = int (or_ny r) \<and>
    (\<not> dh_metric_overflow s \<longrightarrow> dh_sum_abs_lo s = or_sum_abs_err r \<and> dh_sum_sq_lo s = or_sum_sq_err r)"
proof -
  define D where "D = int (oc_D cfg)"
  define es where "es = stream_errors D samples (or_y r)"
  have "s = dh_of depth D (samples @ replicate k 0) (or_y r)"
    using run_from_fresh [of D depth ops] assms(2-4) by (simp add: s_def D_def)
  moreover have "stream_errors D (samples @ replicate k 0) (or_y r) = es"
    by (simp add: stream_errors_def source_at_zeros es_def)
  moreover have "0 \<le> sum_list (map abs es)" "0 \<le> (\<Sum>e\<leftarrow>es. e * e)"
    by (rule sum_list_abs_nonneg sum_list_sq_nonneg)+
  ultimately show ?thesis
    using run_metrics [OF assms(1)] by (simp add: dh_of_def Let_def D_def [symmetric] es_def [symmetric])
qed

section \<open>Driving a stream\<close>

text \<open>
  \<^verbatim>\<open>drive_stream\<close>: the loop that fills the history, and the loop that alternates a take with a push. The second
  loop has no bound of its own, so it is run with fuel; a run that uses up the fuel is an error.
\<close>

record drive =
  dr_model :: delay_history
  dr_next_x :: int
  dr_next_y :: int
  dr_abs :: int
  dr_sq :: int
  dr_max :: int

function fill_history :: "int \<Rightarrow> delay_history \<Rightarrow> int \<Rightarrow> (delay_history \<times> int) result" where
  "fill_history limit model next_x =
     (if next_x < limit then
        case push_x next_x (x_value next_x) model of (model1, ok) \<Rightarrow>
        rbind (require ok ''history fill rejected legal x'') (\<lambda>_.
        fill_history limit model1 (next_x + 1))
      else Inr (model, next_x))"
  by pat_completeness auto
termination
  by (relation "measure (\<lambda>(limit, _, next_x). nat (limit - next_x))") auto

declare fill_history.simps [simp del]

definition drive_iteration :: "int \<Rightarrow> drive \<Rightarrow> drive result" where
  "drive_iteration x_samples d =
     (case take_y (dr_next_y d) (y_value (dr_next_y d)) (dr_model d) of (m1, accepted) \<Rightarrow>
      let delayed = (if dr_next_y d < DH_D then 0 else x_value (dr_next_y d - DH_D));
          absolute = \<bar>delayed - y_value (dr_next_y d)\<bar>;
          d1 = (if accepted
                then d\<lparr> dr_model := m1, dr_abs := (dr_abs d + absolute) AND MASK64,
                        dr_sq := (dr_sq d + absolute * absolute) AND MASK64,
                        dr_max := max (dr_max d) absolute, dr_next_y := dr_next_y d + 1 \<rparr>
                else d\<lparr> dr_model := m1 \<rparr>) in
      rbind (if dr_next_x d1 < x_samples \<and> x_ready (dr_model d1)
             then case push_x (dr_next_x d1) (x_value (dr_next_x d1)) (dr_model d1) of (m2, ok) \<Rightarrow>
               rbind (require ok ''legal wrapped x was rejected'') (\<lambda>_.
               Inr (d1\<lparr> dr_model := m2, dr_next_x := dr_next_x d1 + 1 \<rparr>))
             else Inr d1) (\<lambda>d2.
      rbind (require (accepted \<or> dr_next_x d2 < x_samples) ''stream deadlocked without a future x sample'') (\<lambda>_.
      rbind (check_invariant (dr_model d2)) (\<lambda>_.
      Inr d2))))"

fun drive_loop :: "nat \<Rightarrow> int \<Rightarrow> int \<Rightarrow> drive \<Rightarrow> drive result" where
  "drive_loop fuel x_samples y_samples d =
     (if dr_next_y d < y_samples then
        (case fuel of 0 \<Rightarrow> Inl (Exn RuntimeError ''fuel'')
         | Suc fuel \<Rightarrow> rbind (drive_iteration x_samples d) (drive_loop fuel x_samples y_samples))
      else Inr d)"

declare drive_loop.simps [simp del]

definition drive_stream :: "nat \<Rightarrow> delay_history \<Rightarrow> int \<Rightarrow> (delay_history \<times> int \<times> int \<times> int) result" where
  "drive_stream fuel model x_samples =
     (let y_samples = x_samples + DH_D in
      rbind (fill_history (min x_samples (dh_depth model)) model 0) (\<lambda>(m1, next_x).
      rbind (require (int (length (dh_history m1)) = dh_depth m1) ''history did not become full'') (\<lambda>_.
      case push_x next_x (x_value next_x) m1 of (m2, ok) \<Rightarrow>
      rbind (require (\<not> ok) ''full history accepted an overwrite'') (\<lambda>_.
      rbind (drive_loop fuel x_samples y_samples
        \<lparr> dr_model = m2, dr_next_x = next_x, dr_next_y = 0, dr_abs = 0, dr_sq = 0, dr_max = 0 \<rparr>) (\<lambda>d.
      let m = dr_model d in
      rbind (checks
        [(dr_next_x d = x_samples, Exn RuntimeError ''not all x samples were accepted''),
         (dh_metric_count m = y_samples, Exn RuntimeError ''not all y samples were measured''),
         (dh_history m = [], Exn RuntimeError ''final history was not empty''),
         (dh_sum_abs_lo m = dr_abs d, Exn RuntimeError ''nonzero sum_abs mismatch''),
         (dh_sum_sq_lo m = dr_sq d, Exn RuntimeError ''nonzero sum_sq mismatch''),
         (dh_max_abs m = dr_max d, Exn RuntimeError ''nonzero max_abs mismatch''),
         (\<not> dh_metric_overflow m, Exn RuntimeError ''unexpected metric overflow''),
         (\<not> dh_fail_stop m, Exn RuntimeError ''legal stream entered fail-stop'')]) (\<lambda>_.
      Inr (m, dr_abs d, dr_sq d, dr_max d)))))))"

text \<open>The state of the driver after \<open>j\<close> accepted outputs: the input is as far ahead as the memory allows.\<close>

abbreviation x_stream :: "nat \<Rightarrow> int list" where
  "x_stream n \<equiv> map (\<lambda>i. x_value (int i)) [0..<n]"

abbreviation y_stream :: "nat \<Rightarrow> int list" where
  "y_stream n \<equiv> map (\<lambda>i. y_value (int i)) [0..<n]"

definition ahead :: "nat \<Rightarrow> nat \<Rightarrow> nat \<Rightarrow> nat" where
  "ahead depth total_x j = min total_x (depth + (j - 384))"

definition drive_model :: "nat \<Rightarrow> nat \<Rightarrow> nat \<Rightarrow> delay_history" where
  "drive_model depth total_x j = dh_of (int depth) DH_D (x_stream (ahead depth total_x j)) (y_stream j)"

definition drive_state :: "nat \<Rightarrow> nat \<Rightarrow> nat \<Rightarrow> drive" where
  "drive_state depth total_x j =
     (let m = drive_model depth total_x j in
      \<lparr> dr_model = m, dr_next_x = int (ahead depth total_x j), dr_next_y = int j,
        dr_abs = dh_sum_abs_lo m, dr_sq = dh_sum_sq_lo m, dr_max = dh_max_abs m \<rparr>)"

lemma DH_D_384: "DH_D = 384"
  by (simp add: dh_consts)

lemma retired_y_stream: "retired 384 (y_stream j) = j - 384"
  by (simp add: retired_def nat_minus_as_int)

lemma ahead_in_step:
  assumes "1 \<le> depth" "j \<le> total_x + 384" "n = ahead depth total_x j \<or> n = ahead depth total_x (j - 1) \<and> j \<le> total_x + 384"
  shows "in_step (int depth) DH_D (x_stream n) (y_stream j)"
  using assms by (auto simp: in_step_def retired_y_stream DH_D_384 ahead_def)

lemma check_invariant_dh_of: "in_step depth delay xs ys \<Longrightarrow> check_invariant (dh_of depth delay xs ys) = Inr ()"
  by (auto simp: check_invariant_def require_def in_step_def length_tagged retired_def Let_def)

text \<open>The driver's own sums follow the same recurrence as the object's.\<close>

lemma dh_of_sums_snoc:
  fixes xs ys :: "int list" and delay depth y :: int
  defines "a \<equiv> \<bar>source_at xs (int (length ys) - delay) - y\<bar>"
  shows "dh_sum_abs_lo (dh_of depth delay xs (ys @ [y])) = (dh_sum_abs_lo (dh_of depth delay xs ys) + a) AND MASK64"
    "dh_sum_sq_lo (dh_of depth delay xs (ys @ [y])) = (dh_sum_sq_lo (dh_of depth delay xs ys) + a * a) AND MASK64"
    "dh_max_abs (dh_of depth delay xs (ys @ [y])) = max (dh_max_abs (dh_of depth delay xs ys)) a"
  unfolding measure_error_dh_of [OF refl, symmetric] a_def by (simp_all add: measure_error_def Let_def)

lemma dh_of_sums_push:
  assumes "retired delay ys \<le> length xs"
  shows "dh_sum_abs_lo (dh_of depth delay (xs @ [x]) ys) = dh_sum_abs_lo (dh_of depth delay xs ys)"
    "dh_sum_sq_lo (dh_of depth delay (xs @ [x]) ys) = dh_sum_sq_lo (dh_of depth delay xs ys)"
    "dh_max_abs (dh_of depth delay (xs @ [x]) ys) = dh_max_abs (dh_of depth delay xs ys)"
  by (simp_all add: dh_of_def Let_def stream_errors_push [OF assms])

lemma source_at_x_stream: "j - 384 < n \<Longrightarrow>
   source_at (x_stream n) (int j - DH_D) = (if int j < DH_D then 0 else x_value (int j - DH_D))"
  by (auto simp: source_at_def DH_D_384 nat_less_iff)

lemma min_unchanged:
  fixes d t r q :: nat
  assumes "1 \<le> d" "r \<le> q" "min t (d + r) = t \<or> d \<le> min t (d + r) - q"
  shows "min t (d + q) = min t (d + r)"
  using assms by (cases "t \<le> d + r") auto

lemma drive_iteration_ok:
  assumes "1 \<le> depth" "j < total_x + 384" "int total_x + 384 < MASK64" "1 \<le> total_x"
  shows "drive_iteration (int total_x) (drive_state depth total_x j) = Inr (drive_state depth total_x (Suc j))"
proof -
  define n where "n = ahead depth total_x j"
  let ?m = "dh_of (int depth) DH_D (x_stream n) (y_stream j)" and ?m1 = "dh_of (int depth) DH_D (x_stream n) (y_stream (Suc j))"
  have sync: "in_step (int depth) DH_D (x_stream n) (y_stream j)"
    using assms by (intro ahead_in_step [of depth j total_x]) (simp_all add: n_def)
  have sync1: "in_step (int depth) DH_D (x_stream n) (y_stream (Suc j))"
    using assms by (intro ahead_in_step [of depth "Suc j" total_x]) (simp_all add: n_def)
  have n: "j - 384 < n" "n \<le> total_x" "n \<le> depth + (j - 384)" using assms by (auto simp: n_def ahead_def)
  have "int (length (y_stream j)) < MASK64" "int (length (x_stream n)) < MASK64" using assms(2,3) n(2) by simp_all
  note bounds = this
  have y1: "y_stream (Suc j) = y_stream j @ [y_value (int j)]" by simp
  have take: "take_y (int j) (y_value (int j)) ?m = (?m1, True)"
    using take_y_refines [OF sync bounds(1), of "int j" "y_value (int j)"] n(1) by (auto simp: DH_D_384)
  define d1 where "d1 = \<lparr> dr_model = ?m1, dr_next_x = int n, dr_next_y = int (Suc j),
      dr_abs = dh_sum_abs_lo ?m1, dr_sq = dh_sum_sq_lo ?m1, dr_max = dh_max_abs ?m1 \<rparr>"
  have ex: "drive_iteration (int total_x) (drive_state depth total_x j) =
      rbind (if dr_next_x d1 < int total_x \<and> x_ready ?m1
             then case push_x (int n) (x_value (int n)) ?m1 of (m2, ok) \<Rightarrow>
               rbind (require ok ''legal wrapped x was rejected'') (\<lambda>_.
               Inr (d1\<lparr> dr_model := m2, dr_next_x := int n + 1 \<rparr>))
             else Inr d1) (\<lambda>d2.
      rbind (require True ''stream deadlocked without a future x sample'') (\<lambda>_.
      rbind (check_invariant (dr_model d2)) (\<lambda>_. Inr d2)))"
    using take source_at_x_stream [OF n(1)] unfolding y1
    by (simp add: drive_iteration_def drive_state_def drive_model_def n_def [symmetric] d1_def dh_of_sums_snoc Let_def add.commute)
  have full: "x_ready ?m1 \<longleftrightarrow> n - (Suc j - 384) < depth"
    using sync1 by (auto simp: x_ready_def length_tagged in_step_def DH_D_384 retired_y_stream simp del: upt_Suc)
  show ?thesis
  proof (cases "n < total_x \<and> x_ready ?m1")
    case True
    then have nx: "ahead depth total_x (Suc j) = Suc n" and room: "int n - int (retired DH_D (y_stream (Suc j))) \<noteq> int depth"
      using full by (auto simp: n_def ahead_def DH_D_384 retired_y_stream simp del: upt_Suc)
    have le: "retired DH_D (y_stream (Suc j)) \<le> length (x_stream n)" using sync1 by (simp add: in_step_def)
    have x1: "x_stream n @ [x_value (int n)] = x_stream (Suc n)" by simp
    have push: "push_x (int n) (x_value (int n)) ?m1 = (dh_of (int depth) DH_D (x_stream (Suc n)) (y_stream (Suc j)), True)"
      using push_x_refines [OF sync1, of "int n" "x_value (int n)"] bounds(2) room by (simp del: upt_Suc add: x1)
    have "in_step (int depth) DH_D (x_stream (Suc n)) (y_stream (Suc j))"
      using in_step_push [OF sync1, of "x_value (int n)"] room by (simp del: upt_Suc add: x1)
    note inv = check_invariant_dh_of [OF this]
    show ?thesis
      unfolding ex using True dh_of_sums_push [OF le, of "int depth" "x_value (int n)"]
      by (simp add: push inv require_def drive_state_def drive_model_def nx d1_def Let_def x1 del: upt_Suc)
  next
    case False
    then have "n = total_x \<or> depth \<le> n - (Suc j - 384)" using full n(2) by linarith
    then have "ahead depth total_x (Suc j) = n"
      unfolding n_def ahead_def by (intro min_unchanged [OF assms(1)]) simp_all
    moreover have "\<not> (dr_next_x d1 < int total_x \<and> x_ready ?m1)" using False by (simp add: d1_def del: upt_Suc)
    ultimately show ?thesis
      unfolding ex using check_invariant_dh_of [OF sync1]
      by (simp only: if_not_P) (simp add: require_def drive_state_def drive_model_def d1_def Let_def del: upt_Suc)
  qed
qed

lemma drive_loop_ok:
  assumes "1 \<le> depth" "1 \<le> total_x" "int total_x + 384 < MASK64"
  shows "total_x + 384 \<le> j + fuel \<Longrightarrow> j \<le> total_x + 384 \<Longrightarrow>
    drive_loop fuel (int total_x) (int total_x + DH_D) (drive_state depth total_x j) =
      Inr (drive_state depth total_x (total_x + 384))"
proof (induction fuel arbitrary: j)
  case 0
  then show ?case by (subst drive_loop.simps) (simp add: drive_state_def DH_D_384 Let_def)
next
  case (Suc fuel)
  show ?case
  proof (cases "j = total_x + 384")
    case True
    then show ?thesis by (subst drive_loop.simps) (simp add: drive_state_def DH_D_384 Let_def)
  next
    case False
    then have lt: "int j < int total_x + DH_D" using Suc.prems by (simp add: DH_D_384)
    have "drive_iteration (int total_x) (drive_state depth total_x j) = Inr (drive_state depth total_x (Suc j))"
      using Suc.prems False by (intro drive_iteration_ok [OF assms(1) _ assms(3,2)]) simp
    with lt Suc False show ?thesis
      by (subst drive_loop.simps) (simp add: drive_state_def [of depth total_x j] Let_def)
  qed
qed

lemma fill_history_ok:
  assumes "int depth < MASK64"
  shows "n \<le> depth \<Longrightarrow> fill_history (int depth) (dh_of (int depth) DH_D (x_stream n) []) (int n) =
    Inr (dh_of (int depth) DH_D (x_stream depth) [], int depth)"
proof (induction "depth - n" arbitrary: n)
  case 0
  then show ?case by (subst fill_history.simps) simp
next
  case (Suc k)
  have "in_step (int depth) DH_D (x_stream n) []" using Suc.prems by (simp add: in_step_def retired_def DH_D_384)
  moreover have "int n \<noteq> int depth" "int (length (x_stream n)) < MASK64" using Suc assms by auto
  ultimately have "push_x (int n) (x_value (int n)) (dh_of (int depth) DH_D (x_stream n) []) =
      (dh_of (int depth) DH_D (x_stream (Suc n)) [], True)"
    using push_x_refines [of "int depth" DH_D "x_stream n" "[]" "int n" "x_value (int n)"]
    by (simp add: retired_def DH_D_384)
  moreover have "fill_history (int depth) (dh_of (int depth) DH_D (x_stream (Suc n)) []) (int (Suc n)) =
      Inr (dh_of (int depth) DH_D (x_stream depth) [], int depth)"
    using Suc by (intro Suc.hyps(1)) simp_all
  ultimately show ?case
    using Suc by (subst fill_history.simps) (simp add: require_def add.commute del: upt_Suc)
qed

lemma value_bounds: "\<bar>x_value i\<bar> \<le> 1500" "\<bar>y_value i\<bar> \<le> 1400"
proof -
  have "0 \<le> (i * 37 + 11) mod 3001" "(i * 37 + 11) mod 3001 < 3001"
    "0 \<le> (i * 19 + 7) mod 2801" "(i * 19 + 7) mod 2801 < 2801" by simp_all
  then show "\<bar>x_value i\<bar> \<le> 1500" "\<bar>y_value i\<bar> \<le> 1400" by (simp_all add: x_value_def y_value_def)
qed

lemma sum_list_bound: "(\<And>e. e \<in> set es \<Longrightarrow> f e \<le> (b :: int)) \<Longrightarrow> sum_list (map f es) \<le> b * int (length es)"
  by (induction es) (auto simp: algebra_simps add_mono)

lemma drive_no_overflow:
  assumes "total_x + 384 \<le> 2 ^ 40"
  shows "\<not> dh_metric_overflow (drive_model depth total_x (total_x + 384))"
proof -
  let ?xs = "x_stream (ahead depth total_x (total_x + 384))"
  define es where "es = stream_errors DH_D ?xs (y_stream (total_x + 384))"
  have e: "\<bar>e\<bar> \<le> 2900" if "e \<in> set es" for e
  proof -
    have "\<exists>n < total_x + 384. e = source_at ?xs (int n - DH_D) - y_stream (total_x + 384) ! n"
      using that unfolding es_def stream_errors_def by (auto simp del: upt_Suc nth_map)
    then obtain n where n: "e = source_at ?xs (int n - DH_D) - y_value (int n)" by auto
    have "\<bar>source_at ?xs (int n - DH_D)\<bar> \<le> 1500" using value_bounds(1) by (auto simp: source_at_def)
    then show ?thesis using value_bounds(2) [of "int n"] n by linarith
  qed
  then have sq: "e * e \<le> 8410000" if "e \<in> set es" for e
    using that abs_le_square_iff [of e 2900] by (auto simp: power2_eq_square)
  have "int (length es) \<le> 2 ^ 40" using assms by (simp add: es_def)
  moreover have "sum_list (map abs es) \<le> 2900 * int (length es)" "(\<Sum>e\<leftarrow>es. e * e) \<le> 8410000 * int (length es)"
    using e sq by (intro sum_list_bound, simp)+
  ultimately show ?thesis by (simp add: drive_model_def dh_of_def Let_def es_def [symmetric])
qed

lemma drive_final:
  "depth \<le> total_x \<Longrightarrow> drive_model depth total_x (total_x + 384) =
     dh_of (int depth) DH_D (x_stream total_x) (y_stream (total_x + 384))"
  by (simp add: drive_model_def ahead_def)

lemma drive_stream_ok:
  assumes "1 \<le> depth" "depth \<le> total_x" "total_x + 384 \<le> 2 ^ 40" "total_x + 384 \<le> fuel"
  defines "m \<equiv> dh_of (int depth) DH_D (x_stream total_x) (y_stream (total_x + 384))"
  shows "drive_stream fuel (DelayHistory (int depth) DH_D) (int total_x) =
    Inr (m, dh_sum_abs_lo m, dh_sum_sq_lo m, dh_max_abs m)"
proof -
  have small: "int depth < MASK64" "int total_x + 384 < MASK64" using assms(2,3) by (simp_all add: MASK64_def)
  have fresh: "DelayHistory (int depth) DH_D = dh_of (int depth) DH_D (x_stream 0) []" by (simp add: dh_of_fresh DH_D_384)
  have fill: "fill_history (min (int total_x) (int depth)) (DelayHistory (int depth) DH_D) 0 =
      Inr (dh_of (int depth) DH_D (x_stream depth) [], int depth)"
    using fill_history_ok [OF small(1), of 0] assms(2) unfolding fresh by (simp add: min_def)
  have depth: "dh_depth (DelayHistory (int depth) DH_D) = int depth" by (simp add: DelayHistory_def)
  have sync: "in_step (int depth) DH_D (x_stream depth) []" by (simp add: in_step_def retired_def DH_D_384)
  have refused: "push_x (int depth) v (dh_of (int depth) DH_D (x_stream depth) []) =
      (dh_of (int depth) DH_D (x_stream depth) [], False)" for v
    using push_x_refines [OF sync, of "int depth" v] small(1) by (simp add: retired_def DH_D_384)
  have full: "int (length (tagged DH_D (x_stream depth) [])) = int depth" by (simp add: tagged_def retired_def DH_D_384)
  have start: "\<lparr> dr_model = dh_of (int depth) DH_D (x_stream depth) [], dr_next_x = int depth, dr_next_y = 0,
      dr_abs = 0, dr_sq = 0, dr_max = 0 \<rparr> = drive_state depth total_x 0"
    using assms(2) by (simp add: drive_state_def drive_model_def ahead_def min_def dh_of_def stream_errors_def Let_def)
  have loop: "drive_loop fuel (int total_x) (int total_x + DH_D) (drive_state depth total_x 0) =
      Inr (drive_state depth total_x (total_x + 384))"
    using assms(1,2,4) small(2) by (intro drive_loop_ok) simp_all
  have final: "drive_model depth total_x (total_x + 384) = m" using drive_final [OF assms(2)] by (simp add: m_def)
  have empty: "dh_history m = []" by (simp add: m_def tagged_def DH_D_384 retired_y_stream del: upt_Suc)
  have "\<not> dh_metric_overflow m" using drive_no_overflow [OF assms(3), of depth] final by simp
  moreover have "dh_metric_count m = int total_x + DH_D" "\<not> dh_fail_stop m" by (simp_all add: m_def DH_D_384)
  moreover have "ahead depth total_x (total_x + 384) = total_x" using assms(2) by (simp add: ahead_def)
  ultimately show ?thesis
    unfolding drive_stream_def Let_def depth fill rbind.simps split
    by (simp add: full refused require_def start loop) (simp add: drive_state_def Let_def final empty checks.simps)
qed


text \<open>
  No deadlock. In every state the specification reaches, an input or an output in order is accepted at once, whatever
  the memory depth: a full memory always has the input its next output needs.
\<close>

theorem delay_history_progress:
  assumes "fst (run_ops (spec_step depth delay) (Some ([], [])) ops) = Some (xs, ys)" "1 \<le> depth" "0 \<le> delay"
    "int (length ops) < MASK64"
  defines "s \<equiv> fst (run_ops dh_step (DelayHistory depth delay) ops)"
  shows "snd (push_x (int (length xs)) v s) \<or> snd (take_y (int (length ys)) w s)"
proof -
  have "refines depth delay (0 + length ops) s (Some (xs, ys))"
    using run_refines [OF fresh_refines, of delay depth ops] assms by (simp add: s_def)
  then have s: "s = dh_of depth delay xs ys" and sync: "in_step depth delay xs ys"
      and "length xs \<le> length ops" "length ys \<le> length ops"
    by (simp_all add: refines_def)
  then have "int (length xs) < MASK64" "int (length ys) < MASK64" using assms(4) by simp_all
  from push_x_refines [OF sync this(1), of "int (length xs)" v] take_y_refines [OF sync this(2), of "int (length ys)" w]
  show ?thesis using sync assms(2) by (auto simp: s in_step_def retired_def)
qed

section \<open>The script's checks\<close>

definition demonstrate_legacy_alias :: "unit result" where
  "demonstrate_legacy_alias =
     (let slots = (Map.empty :: int \<rightharpoonup> int \<times> int)(0 mod DH_D \<mapsto> (0, -2048), DH_D mod DH_D \<mapsto> (DH_D, 123)) in
      case slots 0 of
        None \<Rightarrow> Inl (Exn KeyError ''0'')
      | Some (tag, sample) \<Rightarrow>
          rbind (require (tag = DH_D \<and> sample = 123) ''legacy modulo-D alias was not reproduced'') (\<lambda>_.
          require ((tag, sample) \<noteq> (0, -2048)) ''legacy implementation unexpectedly preserved x[0]''))"

fun startup_takes :: "int list \<Rightarrow> delay_history \<Rightarrow> delay_history result" where
  "startup_takes [] s = Inr s"
| "startup_takes (i # is) s =
     (case take_y i 0 s of (t, ok) \<Rightarrow> rbind (require ok ''startup y was rejected'') (\<lambda>_. startup_takes is t))"

definition check_startup_and_extremes :: "unit result" where
  "check_startup_and_extremes =
     rbind (startup_takes [0..DH_D - 1] (DelayHistory DH_DEPTH DH_D)) (\<lambda>m0.
     case take_y DH_D 2047 m0 of (m1, ok1) \<Rightarrow>
     rbind (require (\<not> ok1) ''y[D] accepted before x[0]'') (\<lambda>_.
     rbind (require (\<not> dh_fail_stop m1) ''normal producer lag raised a hard fault'') (\<lambda>_.
     case push_x 0 (-2048) m1 of (m2, ok2) \<Rightarrow>
     rbind (require ok2 ''x[0] was rejected'') (\<lambda>_.
     case take_y DH_D 2047 m2 of (m3, ok3) \<Rightarrow>
     rbind (checks
       [(ok3, Exn RuntimeError ''y[D] was not accepted after x[0]''),
        (dh_sum_abs_lo m3 = 4095, Exn RuntimeError ''extreme sum_abs mismatch''),
        (dh_sum_sq_lo m3 = 16769025, Exn RuntimeError ''extreme sum_sq mismatch''),
        (dh_max_abs m3 = 4095, Exn RuntimeError ''extreme max_abs mismatch''),
        (dh_metric_count m3 = DH_D + 1, Exn RuntimeError ''extreme metric count mismatch''),
        (dh_history m3 = [], Exn RuntimeError ''x[0] was not retired'')]) (\<lambda>_.
     check_invariant m3)))))"

text \<open>Both streams are driven with the number of outputs as fuel.\<close>

definition check_wrap_full_and_restart :: "unit result" where
  "check_wrap_full_and_restart =
     rbind (drive_stream 2688 (DelayHistory DH_DEPTH DH_D) 2304) (\<lambda>(m1, _).
     rbind (require (dh_next_x m1 > 2 * dh_depth m1) ''test did not cross two write-pointer wraps'') (\<lambda>_.
     let m2 = dh_clear m1 in
     rbind (require (\<not> dh_busy m2 \<and> dh_history m2 = []) ''clear did not empty history'') (\<lambda>_.
     rbind (require (dh_next_x m2 = 0 \<and> dh_next_y m2 = 0) ''clear did not reset indices'') (\<lambda>_.
     rbind (drive_stream 1536 m2 1152) (\<lambda>(m3, _).
     require (dh_metric_count m3 = 1536) ''Revision-J C0 metric count mismatch'')))))"

definition check_fail_stop_and_metric_wrap :: "unit result" where
  "check_fail_stop_and_metric_wrap =
     (case push_x 1 7 (DelayHistory DH_DEPTH DH_D) of (m1, ok1) \<Rightarrow>
      rbind (require (\<not> ok1) ''bad initial x index was accepted'') (\<lambda>_.
      rbind (require (dh_fail_stop m1 \<and> dh_busy m1) ''bad index did not fail-stop'') (\<lambda>_.
      let m2 = clear_sticky m1 in
      rbind (require (dh_fail_stop m2 \<and> dh_busy m2) ''sticky clear hid fail-stop'') (\<lambda>_.
      rbind (require (snd (push_x 0 7 (dh_clear m2))) ''clear did not recover index zero'') (\<lambda>_.
      let w0 = (DelayHistory DH_DEPTH DH_D)\<lparr> dh_sum_abs_lo := MASK64 - 2, dh_sum_sq_lo := MASK64 - 10,
                 dh_history := [(0, 5)], dh_next_x := 1 \<rparr> in
      case take_y 0 0 w0 of (w1, ok2) \<Rightarrow>
      rbind (require ok2 ''startup metric sample failed'') (\<lambda>_.
      case take_y 1 (-5) w1 of (w2, ok3) \<Rightarrow>
      rbind (require ok3 ''metric overflow sample failed'') (\<lambda>_.
      rbind (require (dh_sum_abs_lo w2 = 2) ''sum_abs low word did not wrap'') (\<lambda>_.
      rbind (require (dh_metric_overflow w2) ''metric overflow was not latched'') (\<lambda>_.
      rbind (require (dh_metric_overflow (clear_sticky w2)) ''sticky clear erased truncated metric status'') (\<lambda>_.
      let w3 = clear_metrics (clear_sticky w2) in
      require (dh_sum_abs_lo w3 = 0 \<and> dh_sum_sq_lo w3 = 0 \<and> \<not> dh_metric_overflow w3)
        ''metric clear did not start a trustworthy metric epoch''))))))))))"

definition delay_history_main :: "unit result" where
  "delay_history_main =
     rbind demonstrate_legacy_alias (\<lambda>_.
     rbind check_startup_and_extremes (\<lambda>_.
     rbind check_wrap_full_and_restart (\<lambda>_.
     check_fail_stop_and_metric_wrap)))"

lemma startup_takes_ok:
  "k + n = 384 \<Longrightarrow> startup_takes [int k..383] (dh_of 1024 384 [] (replicate k 0)) = Inr (dh_of 1024 384 [] (replicate 384 0))"
proof (induction n arbitrary: k)
  case (Suc n)
  have "in_step 1024 384 [] (replicate k 0)" using Suc.prems by (simp add: in_step_def retired_def)
  from take_y_refines [OF this, of "int k" 0] Suc.prems
  have "take_y (int k) 0 (dh_of 1024 384 [] (replicate k 0)) = (dh_of 1024 384 [] (replicate (Suc k) 0), True)"
    by (simp add: MASK64_def replicate_append_same)
  moreover have "[int k..383] = int k # [int (Suc k)..383]" using Suc.prems by (simp add: upto_rec1 add.commute)
  ultimately show ?case using Suc.IH [of "Suc k"] Suc.prems by (simp add: require_def del: replicate_Suc)
qed simp

lemma startup_errors: "stream_errors 384 [] (replicate n 0) = replicate n 0"
  by (auto simp: stream_errors_def source_at_def intro!: nth_equalityI)

lemma check_startup_passes: "check_startup_and_extremes = Inr ()"
proof -
  let ?y = "replicate 384 (0 :: int)"
  define m0 m2 m3 where "m0 = dh_of 1024 384 [] ?y" and "m2 = dh_of 1024 384 [-2048] ?y" and "m3 = dh_of 1024 384 [-2048] (?y @ [2047])"
  have start: "startup_takes [0..DH_D - 1] (DelayHistory DH_DEPTH DH_D) = Inr m0"
    using startup_takes_ok [of 0 384] by (simp add: DH_D_384 DH_DEPTH_def dh_of_fresh m0_def)
  have s0: "in_step 1024 384 [] ?y" and s2: "in_step 1024 384 [-2048] ?y" and s3: "in_step 1024 384 [-2048] (?y @ [2047])"
    by (simp_all add: in_step_def retired_def)
  have t1: "take_y 384 2047 m0 = (m0, False)" and p2: "push_x 0 (-2048) m0 = (m2, True)" and t3: "take_y 384 2047 m2 = (m3, True)"
    using take_y_refines [OF s0, of 384 2047] push_x_refines [OF s0, of 0 "-2048"] take_y_refines [OF s2, of 384 2047]
    by (simp_all add: m0_def m2_def m3_def MASK64_def retired_def)
  have "stream_errors 384 [-2048] (?y @ [2047]) = replicate 384 0 @ [-4095]"
    using stream_errors_push [of 384 ?y "[]" "-2048"] startup_errors [of 384]
    by (simp add: stream_errors_snoc retired_def source_at_def)
  moreover have "foldl max 0 (replicate n (0 :: int)) = 0" for n by (induction n) simp_all
  ultimately have "dh_sum_abs_lo m3 = 4095" "dh_sum_sq_lo m3 = 16769025" "dh_max_abs m3 = 4095" "dh_metric_count m3 = 385" "dh_history m3 = []"
    by (simp_all add: m3_def dh_of_def Let_def tagged_def retired_def sum_list_replicate)
  moreover have "\<not> dh_fail_stop m0" by (simp add: m0_def)
  moreover have "check_invariant m3 = Inr ()" unfolding m3_def by (rule check_invariant_dh_of [OF s3])
  ultimately show ?thesis
    unfolding check_startup_and_extremes_def start rbind.simps by (simp add: DH_D_384 t1 p2 t3 require_def checks.simps)
qed

lemma check_wrap_passes: "check_wrap_full_and_restart = Inr ()"
proof -
  let ?m = "\<lambda>n. dh_of (int 1024) DH_D (x_stream n) (y_stream (n + 384))"
  have clear: "dh_clear (?m n) = DelayHistory 1024 DH_D" for n
    by (simp add: dh_clear_def DelayHistory_def dh_of_def Let_def)
  have "drive_stream 2688 (DelayHistory (int 1024) DH_D) (int 2304) =
      Inr (?m 2304, dh_sum_abs_lo (?m 2304), dh_sum_sq_lo (?m 2304), dh_max_abs (?m 2304))"
    by (rule drive_stream_ok) simp_all
  moreover have "drive_stream 1536 (DelayHistory (int 1024) DH_D) (int 1152) =
      Inr (?m 1152, dh_sum_abs_lo (?m 1152), dh_sum_sq_lo (?m 1152), dh_max_abs (?m 1152))"
    by (rule drive_stream_ok) simp_all
  ultimately obtain a b where d: "drive_stream 2688 (DelayHistory 1024 DH_D) 2304 = Inr (?m 2304, a)"
      "drive_stream 1536 (DelayHistory 1024 DH_D) 1152 = Inr (?m 1152, b)"
    by (simp only: of_nat_numeral)
  have "require (dh_next_x (?m 2304) > 2 * dh_depth (?m 2304)) msg = Inr ()"
      "require (dh_metric_count (?m 1152) = 1536) msg = Inr ()" for msg
    by (simp_all add: require_def)
  moreover have "require (\<not> dh_busy (DelayHistory 1024 DH_D) \<and> dh_history (DelayHistory 1024 DH_D) = []) msg = Inr ()"
      "require (dh_next_x (DelayHistory 1024 DH_D) = 0 \<and> dh_next_y (DelayHistory 1024 DH_D) = 0) msg = Inr ()" for msg
    by (simp_all add: require_def dh_busy_def DelayHistory_def)
  ultimately show ?thesis
    unfolding check_wrap_full_and_restart_def DH_DEPTH_def Let_def d rbind.simps split clear by (simp only: rbind.simps d split)
qed

lemma check_fail_stop_passes: "check_fail_stop_and_metric_wrap = Inr ()"
proof -
  have "(MASK64 - 2) AND MASK64 = MASK64 - 2" "(MASK64 - 10) AND MASK64 = MASK64 - 10" "(MASK64 - 2 + 5) AND MASK64 = 2"
    by (simp_all add: MASK64_def and_mask64)
  moreover have "(0 :: int) \<noteq> MASK64" "(1 :: int) \<noteq> MASK64" "MASK64 < MASK64 - 2 + 5" by (simp_all add: MASK64_def)
  ultimately show ?thesis
    unfolding check_fail_stop_and_metric_wrap_def
    by (simp add: push_x_def take_y_def DelayHistory_def DH_D_384 DH_DEPTH_def require_def clear_sticky_def dh_clear_def
        dh_busy_def measure_error_def clear_metrics_def Let_def)
qed

text \<open>All four checks of the script pass.\<close>

lemma delay_history_main_passes: "delay_history_main = Inr ()"
proof -
  have legacy: "demonstrate_legacy_alias = Inr ()" by (simp add: demonstrate_legacy_alias_def require_def DH_D_384)
  show ?thesis
    unfolding delay_history_main_def legacy check_startup_passes check_wrap_passes check_fail_stop_passes rbind.simps ..
qed

section \<open>Witnesses\<close>

definition example_ops :: "dh_op list" where
  "example_ops = [TakeY 0 3, PushX 0 10, TakeY 1 4, PushX 5 1, TakeY 2 0, ClearAll, TakeY 0 3, PushX 0 10, TakeY 1 4]"

lemma example_ops_spec: "run_ops (spec_step 2 1) (Some ([], [])) example_ops =
    (Some ([10], [3, 4]), [True, True, True, False, False, True, True, True, True])"
  by (simp add: example_ops_def spec_step_def retired_def)


theorem delay_history_progress_witness:
  "snd (push_x 1 7 (fst (run_ops dh_step (DelayHistory 2 1) example_ops))) \<or>
   snd (take_y 2 8 (fst (run_ops dh_step (DelayHistory 2 1) example_ops)))"
  using delay_history_progress [of 2 1 example_ops "[10]" "[3, 4]" 7 8] example_ops_spec by (simp add: example_ops_def MASK64_def)


definition silent_ops :: "dh_op list" where
  "silent_ops = [PushX 0 0, TakeY 0 0, TakeY 1 0, TakeY 2 0, TakeY 3 0, PushX 1 0, TakeY 4 0, TakeY 5 0, TakeY 6 0, TakeY 7 0]"

lemma silent_ops_spec: "fst (run_ops (spec_step 4 6) (Some ([], [])) silent_ops) = Some ([0, 0], replicate 8 0)"
  by (simp add: silent_ops_def spec_step_def retired_def eval_nat_numeral)

theorem streaming_metrics_match_oracle_witness:
  "\<exists>r. run [0] 10 tiny_window tiny_forward tiny_inverse tiny_config = Inr r \<and>
     dh_sum_abs_lo (fst (run_ops dh_step (DelayHistory 4 6) silent_ops)) = or_sum_abs_err r mod 2 ^ 64"
proof -
  obtain r where r: "run [0] 10 tiny_window tiny_forward tiny_inverse tiny_config = Inr r" "or_y r = replicate (or_ny r) 0"
    using run_silent [OF tiny_params, of 2 1] by (auto simp: tiny_config_def)
  have "or_ny r = 8" using run_geometry_facts [OF r(1) tiny_params(2)] by (simp add: tiny_config_def)
  then show ?thesis
    using streaming_metrics_match_oracle [OF r(1), of 4 silent_ops 1] silent_ops_spec r
    by (auto simp: tiny_config_def silent_ops_def MASK64_def)
qed

end
