(* ===== verification/Audio_Model.thy ===== *)
theory Audio_Model
  imports Integer_Oracle
begin

text \<open>
  The LINE-IN audio model, \<^verbatim>\<open>scripts/sim/check_step16_audio_model.py\<close>: WM8731 control words, the I2C
  initialisation with its per-register retry policy, I2S slots, the 16-bit to 12-bit scaling, saturating counters and
  the two clock-crossing FIFOs. The ACK oracle is an argument, as in the source. A failed \<^verbatim>\<open>require\<close> is an
  \<^verbatim>\<open>AssertionError\<close>.
\<close>

section \<open>Control words\<close>

definition REF_CLK_HZ :: int where "REF_CLK_HZ = 50000000"
definition AUDIO_MCLK_HZ :: int where "AUDIO_MCLK_HZ = 12288000"
definition SAMPLE_RATE_HZ :: int where "SAMPLE_RATE_HZ = 48000"
definition BCLK_HZ :: int where "BCLK_HZ = 3072000"
definition I2C_ADDRESS :: int where "I2C_ADDRESS = 0x1A"
definition AUDIO_WIDTH :: nat where "AUDIO_WIDTH = 16"
definition CORE_WIDTH :: nat where "CORE_WIDTH = 12"
definition I2S_SLOT_BITS :: nat where "I2S_SLOT_BITS = 32"
definition MAX_RETRIES :: nat where "MAX_RETRIES = 3"
definition UINT64_MAX :: int where "UINT64_MAX = push_bit 64 1 - 1"

definition REGISTER_SEQUENCE :: "(int \<times> int) list" where
  "REGISTER_SEQUENCE =
     [(15, 0x000), (9, 0x000), (0, 0x017), (1, 0x017), (2, 0x079), (3, 0x079), (4, 0x012), (5, 0x000),
      (6, 0x002), (7, 0x042), (8, 0x000), (9, 0x001)]"

definition require :: "bool \<Rightarrow> string \<Rightarrow> unit result" where
  "require condition message = (if condition then Inr () else Inl (Exn AssertionError message))"

definition encode_control_word :: "int \<Rightarrow> int \<Rightarrow> int result" where
  "encode_control_word reg value =
     rbind (require (0 \<le> reg \<and> reg < 128) ''WM8731 register index is not seven-bit'') (\<lambda>_.
     rbind (require (0 \<le> value \<and> value < 512) ''WM8731 register value is not nine-bit'') (\<lambda>_.
     Inr (push_bit 9 reg OR value)))"

definition encode_i2c_transaction :: "int \<Rightarrow> int \<Rightarrow> (int \<times> int \<times> int) result" where
  "encode_i2c_transaction reg value =
     rbind (encode_control_word reg value) (\<lambda>word.
     Inr (push_bit 1 I2C_ADDRESS OR 0, drop_bit 8 word AND 0xFF, word AND 0xFF))"

section \<open>I2C initialisation\<close>

record i2c_result =
  ir_done :: bool
  ir_error :: bool
  ir_ack_error_count :: nat
  ir_retry_count :: nat
  ir_register_write_count :: nat
  ir_transactions :: "(int \<times> int \<times> int) list"

definition I2CResult :: i2c_result where
  "I2CResult = \<lparr> ir_done = False, ir_error = False, ir_ack_error_count = 0, ir_retry_count = 0,
     ir_register_write_count = 0, ir_transactions = [] \<rparr>"

type_synonym ack_function = "nat \<Rightarrow> nat \<Rightarrow> nat \<Rightarrow> int \<Rightarrow> bool"

text \<open>The byte loop of one attempt: it stops at the first byte that is not acknowledged.\<close>

definition all_bytes_acked :: "ack_function \<Rightarrow> nat \<Rightarrow> nat \<Rightarrow> int \<times> int \<times> int \<Rightarrow> bool" where
  "all_bytes_acked ack reg_index attempt transaction =
     (case transaction of (b0, b1, b2) \<Rightarrow>
      ack reg_index attempt 0 b0 \<and> ack reg_index attempt 1 b1 \<and> ack reg_index attempt 2 b2)"

fun attempt_loop :: "ack_function \<Rightarrow> nat \<Rightarrow> int \<times> int \<times> int \<Rightarrow> nat list \<Rightarrow> i2c_result \<Rightarrow> i2c_result \<times> bool" where
  "attempt_loop ack reg_index transaction [] r = (r, False)"
| "attempt_loop ack reg_index transaction (attempt # attempts) r =
     (let r1 = r\<lparr> ir_transactions := ir_transactions r @ [transaction] \<rparr> in
      if all_bytes_acked ack reg_index attempt transaction
      then (r1\<lparr> ir_register_write_count := ir_register_write_count r1 + 1 \<rparr>, True)
      else
        let r2 = r1\<lparr> ir_ack_error_count := ir_ack_error_count r1 + 1 \<rparr>;
            r3 = (if attempt < MAX_RETRIES then r2\<lparr> ir_retry_count := ir_retry_count r2 + 1 \<rparr> else r2) in
        attempt_loop ack reg_index transaction attempts r3)"

fun init_loop :: "ack_function \<Rightarrow> (nat \<times> int \<times> int) list \<Rightarrow> i2c_result \<Rightarrow> i2c_result result" where
  "init_loop ack [] r = Inr (r\<lparr> ir_done := True \<rparr>)"
| "init_loop ack ((reg_index, reg, value) # rest) r =
     rbind (encode_i2c_transaction reg value) (\<lambda>transaction.
     case attempt_loop ack reg_index transaction [0..<MAX_RETRIES + 1] r of (r1, accepted) \<Rightarrow>
     if \<not> accepted then Inr (r1\<lparr> ir_error := True \<rparr>) else init_loop ack rest r1)"

definition run_i2c_init :: "ack_function \<Rightarrow> i2c_result result" where
  "run_i2c_init ack = init_loop ack (zip [0..<length REGISTER_SEQUENCE] REGISTER_SEQUENCE) I2CResult"

section \<open>I2S slots\<close>

definition word_bits :: "int \<Rightarrow> nat \<Rightarrow> int list" where
  "word_bits value width =
     (let encoded = value AND (push_bit width 1 - 1) in
      map (\<lambda>shift. drop_bit shift encoded AND 1) (rev [0..<width]))"

definition encode_i2s_slot :: "int \<Rightarrow> int list result" where
  "encode_i2s_slot value =
     (let padding = int I2S_SLOT_BITS - 1 - int AUDIO_WIDTH in
      rbind (require (padding \<ge> 0) ''I2S slot is narrower than delay plus audio word'') (\<lambda>_.
      Inr ([0] @ word_bits value AUDIO_WIDTH @ replicate (nat padding) 0)))"

fun decode_payload :: "int \<Rightarrow> int list \<Rightarrow> int result" where
  "decode_payload encoded [] = Inr encoded"
| "decode_payload encoded (b # bits) =
     rbind (require (b = 0 \<or> b = 1) ''I2S bit is not binary'') (\<lambda>_.
     decode_payload (push_bit 1 encoded OR b) bits)"

definition decode_i2s_slot :: "int list \<Rightarrow> int result" where
  "decode_i2s_slot slot =
     rbind (require (length slot = I2S_SLOT_BITS) ''I2S slot length mismatch'') (\<lambda>_.
     rbind (decode_payload 0 (take AUDIO_WIDTH (drop 1 slot))) (\<lambda>encoded.
     let sign_bit = push_bit (AUDIO_WIDTH - 1) 1 in
     Inr (if encoded AND sign_bit \<noteq> 0 then encoded - push_bit AUDIO_WIDTH 1 else encoded)))"

section \<open>Scaling\<close>

definition round_shift_ties_away_from_zero :: "int \<Rightarrow> nat \<Rightarrow> int" where
  "round_shift_ties_away_from_zero value shift =
     (if shift = 0 then value
      else
        let rounded_magnitude = drop_bit shift (\<bar>value\<bar> + push_bit (shift - 1) 1) in
        if value < 0 then - rounded_magnitude else rounded_magnitude)"

definition saturate_signed :: "int \<Rightarrow> nat \<Rightarrow> int" where
  "saturate_signed value width =
     (let minimum = - push_bit (width - 1) 1; maximum = push_bit (width - 1) 1 - 1 in
      min (max value minimum) maximum)"

definition audio16_to_core12 :: "int \<Rightarrow> (int \<times> bool \<times> bool) result" where
  "audio16_to_core12 value =
     rbind (require (- push_bit 15 1 \<le> value \<and> value < push_bit 15 1) ''input is outside signed 16-bit range'') (\<lambda>_.
     let r = round_shift_ties_away_from_zero value (AUDIO_WIDTH - CORE_WIDTH);
         minimum = - push_bit (CORE_WIDTH - 1) 1; maximum = push_bit (CORE_WIDTH - 1) 1 - 1 in
     Inr (saturate_signed r CORE_WIDTH, r > maximum, r < minimum))"

section \<open>The clock-crossing FIFOs\<close>

definition increment :: "int \<Rightarrow> int" where
  "increment value = (if value < UINT64_MAX then value + 1 else value)"

type_synonym frame = "int \<times> int"

record audio_cdc =
  ac_rx_depth :: int
  ac_tx_depth :: int
  ac_rx_fifo :: "frame list"
  ac_tx_fifo :: "frame list"
  ac_rx_overflow :: int
  ac_tx_overflow :: int
  ac_tx_underflow :: int
  ac_tx_primed :: bool

definition AudioCdcModel :: "int \<Rightarrow> int \<Rightarrow> audio_cdc result" where
  "AudioCdcModel rx_depth tx_depth =
     rbind (require (rx_depth \<ge> 2) ''RX FIFO depth must be at least two'') (\<lambda>_.
     rbind (require (tx_depth \<ge> 2) ''TX FIFO depth must be at least two'') (\<lambda>_.
     Inr \<lparr> ac_rx_depth = rx_depth, ac_tx_depth = tx_depth, ac_rx_fifo = [], ac_tx_fifo = [],
       ac_rx_overflow = 0, ac_tx_overflow = 0, ac_tx_underflow = 0, ac_tx_primed = False \<rparr>))"

definition receive_frame :: "frame \<Rightarrow> bool \<Rightarrow> audio_cdc \<Rightarrow> audio_cdc \<times> bool" where
  "receive_frame frame capture_enabled s =
     (if \<not> capture_enabled then (s, False)
      else if int (length (ac_rx_fifo s)) \<ge> ac_rx_depth s
      then (s\<lparr> ac_rx_overflow := increment (ac_rx_overflow s) \<rparr>, False)
      else (s\<lparr> ac_rx_fifo := ac_rx_fifo s @ [frame] \<rparr>, True))"

definition fabric_rx_tick :: "bool \<Rightarrow> audio_cdc \<Rightarrow> audio_cdc \<times> frame option" where
  "fabric_rx_tick capture_enabled s =
     (case ac_rx_fifo s of
        [] \<Rightarrow> (s, None)
      | frame # rest \<Rightarrow> (s\<lparr> ac_rx_fifo := rest \<rparr>, if capture_enabled then Some frame else None))"

definition submit_lineout :: "frame \<Rightarrow> bool \<Rightarrow> audio_cdc \<Rightarrow> audio_cdc \<times> bool" where
  "submit_lineout frame lineout_enabled s =
     (if \<not> lineout_enabled then (s, False)
      else if int (length (ac_tx_fifo s)) \<ge> ac_tx_depth s
      then (s\<lparr> ac_tx_overflow := increment (ac_tx_overflow s) \<rparr>, False)
      else (s\<lparr> ac_tx_fifo := ac_tx_fifo s @ [frame] \<rparr>, True))"

definition dac_frame_boundary :: "bool \<Rightarrow> audio_cdc \<Rightarrow> audio_cdc \<times> frame" where
  "dac_frame_boundary lineout_enabled s =
     (if \<not> lineout_enabled then (s\<lparr> ac_tx_primed := False \<rparr>, (0, 0))
      else case ac_tx_fifo s of
        [] \<Rightarrow> (if ac_tx_primed s then s\<lparr> ac_tx_underflow := increment (ac_tx_underflow s) \<rparr> else s, (0, 0))
      | frame # rest \<Rightarrow> (s\<lparr> ac_tx_primed := True, ac_tx_fifo := rest \<rparr>, frame))"

definition clear_counters :: "audio_cdc \<Rightarrow> audio_cdc" where
  "clear_counters s = s\<lparr> ac_rx_overflow := 0, ac_tx_overflow := 0, ac_tx_underflow := 0 \<rparr>"

section \<open>Rounding and scaling\<close>

lemma round_shift_nonneg:
  assumes "0 \<le> v"
  shows "round_shift_ties_away_from_zero v k = rounded v k"
proof (cases k)
  case 0
  then show ?thesis using orc.shift_zero by (simp add: round_shift_ties_away_from_zero_def)
next
  case (Suc j)
  define d where "d = (2 :: int) ^ j"
  define q where "q = v div (2 * d)"
  define m where "m = v mod (2 * d)"
  have d: "0 < d" by (simp add: d_def)
  have v: "v = 2 * d * q + m" "0 \<le> m" "m < 2 * d" using d by (simp_all add: q_def m_def)
  have "(v + d) div (2 * d) = q + of_bool (2 * m \<ge> 2 * d)"
  proof -
    have "(v + d) div (2 * d) = (m + d + q * (2 * d)) div (2 * d)" by (simp add: v(1) algebra_simps)
    also have "\<dots> = q + (m + d) div (2 * d)" using d by (intro div_mult_self1) simp
    also have "(m + d) div (2 * d) = of_bool (2 * m \<ge> 2 * d)"
    proof (cases "d \<le> m")
      case True
      then have "(m + d) div (2 * d) = 1" using v by (intro int_div_pos_eq [of _ _ _ "m - d"]) auto
      with True show ?thesis by simp
    next
      case False
      then show ?thesis using v d by (simp add: div_pos_pos_trivial)
    qed
    finally show ?thesis by simp
  qed
  then show ?thesis
    using assms Suc d by (simp add: round_shift_ties_away_from_zero_def rounded_def Let_def drop_bit_eq_div
        d_def q_def m_def)
qed

lemma round_shift_neg: "v < 0 \<Longrightarrow> round_shift_ties_away_from_zero v k = - round_shift_ties_away_from_zero (- v) k"
  by (simp add: round_shift_ties_away_from_zero_def Let_def)

lemma round_shift_is_rounded: "round_shift_ties_away_from_zero v k = rounded v k"
  using round_shift_nonneg [of v k] round_shift_nonneg [of "- v" k] round_shift_neg [of v k] orc.neg [of v k]
  by (cases "0 \<le> v") simp_all

interpretation audio: round_ties_away round_shift_ties_away_from_zero
  by unfold_locales (simp add: round_shift_is_rounded orc.rounding)

lemma saturate_is_saturated: "saturate_signed v w = saturated v w"
proof -
  define P where "P = (2 :: int) ^ (w - 1)"
  have "0 < P" by (simp add: P_def)
  then show ?thesis unfolding saturate_signed_def saturated_def push_bit_of_1 Let_def P_def [symmetric] by linarith
qed

lemma audio16_eq:
  assumes "-32768 \<le> v" "v < 32768"
  shows "audio16_to_core12 v = Inr (saturated (rounded v 4) 12, 32760 \<le> v, False) \<and>
    (v < 32760 \<longrightarrow> 2 * \<bar>v - 16 * saturated (rounded v 4) 12\<bar> \<le> 16)"
proof -
  define r where "r = rounded v 4"
  have near: "2 * \<bar>v - 16 * r\<bar> \<le> 16" "2 * \<bar>v - 16 * r\<bar> = 16 \<longrightarrow> \<bar>v\<bar> \<le> 16 * \<bar>r\<bar>"
    using orc.rounding [of v 4] by (simp_all add: is_rounding_def r_def)
  have low: "\<not> r < -2048" using near(1) assms(1) by arith
  have high: "2047 < r \<longleftrightarrow> 32760 \<le> v"
  proof
    assume "2047 < r"
    then show "32760 \<le> v" using near(1) by arith
  next
    assume v: "32760 \<le> v"
    show "2047 < r"
    proof (rule ccontr)
      assume "\<not> 2047 < r"
      then have "v = 32760" "r = 2047" using near(1) v by arith+
      with near(2) show False by simp
    qed
  qed
  have "saturated r 12 = r" if "v < 32760" using that low high by (intro saturated_id) simp_all
  with near low high assms show ?thesis
    by (simp add: audio16_to_core12_def require_def AUDIO_WIDTH_def CORE_WIDTH_def round_shift_is_rounded
        saturate_is_saturated Let_def r_def [symmetric])
qed

text \<open>
  The audio scaling and the integer oracle round and saturate alike, although one shifts a biased magnitude and the
  other divides with remainder. For every signed 16-bit sample the scaled value is the oracle's rounding by four bits,
  saturated to twelve; it clips only upward, exactly for the eight samples from 32760, so the mapping loses no more than
  half a step anywhere else.
\<close>

theorem audio_scaling_matches_oracle:
  assumes "-32768 \<le> v" "v < 32768"
  shows "audio16_to_core12 v = Inr (saturated (rounded v 4) 12, 32760 \<le> v, False) \<and>
    (v < 32760 \<longrightarrow> 2 * \<bar>v - 16 * saturated (rounded v 4) 12\<bar> \<le> 16)"
  using assms by (rule audio16_eq)

section \<open>I2S round trip\<close>

interpretation payload: serial_decoder decode_payload
proof
  fix acc c bits
  show "decode_payload acc (of_bool c # bits) = decode_payload (2 * acc + of_bool c) bits"
    using shift_in [of acc c] by (simp add: require_def del: push_bit_of_1)
qed simp

lemma encode_slot:
  "encode_i2s_slot v = Inr ([0] @ map (\<lambda>k. drop_bit k (v mod 65536) AND 1) (rev [0..<16]) @ replicate 15 0)"
  using and_mask_mod [of v 16]
  by (simp add: encode_i2s_slot_def word_bits_def require_def I2S_SLOT_BITS_def AUDIO_WIDTH_def Let_def)

lemma decode_encode_slot:
  assumes "-32768 \<le> v" "v < 32768"
  shows "rbind (encode_i2s_slot v) decode_i2s_slot = Inr v"
proof -
  let ?x = "v mod 65536"
  have pay: "decode_payload 0 (map (\<lambda>k. drop_bit k ?x AND 1) (rev [0..<16])) = Inr ?x"
    using payload.dec_bits [of ?x 16 0] by simp
  have "?x AND 32768 \<noteq> 0 \<longleftrightarrow> odd (?x div 32768)"
    using and_exp_eq_0_iff_not_bit [of ?x 15] by (simp add: bit_iff_odd)
  moreover have "?x div 32768 = (if 32768 \<le> ?x then 1 else 0)"
    using pos_mod_bound [of 65536 v] pos_mod_sign [of 65536 v] by auto
  ultimately have sign: "?x AND 32768 \<noteq> 0 \<longleftrightarrow> 32768 \<le> ?x" by simp
  have "(if ?x AND 32768 \<noteq> 0 then ?x - 65536 else ?x) = v"
    using to_signed_mod [of 16 v] assms by (simp only: sign) (simp add: to_signed_def split: if_splits)
  with pay show ?thesis
    by (simp add: encode_slot decode_i2s_slot_def require_def I2S_SLOT_BITS_def AUDIO_WIDTH_def Let_def del: upt_Suc split: if_splits)
qed

text \<open>A slot is recognised by the decoder exactly when it has 32 bits and a binary payload.\<close>

interpretation i2s: codec "\<lambda>v. -32768 \<le> v \<and> v < 32768" encode_i2s_slot decode_i2s_slot
proof
  fix v w
  show "-32768 \<le> v \<and> v < 32768 \<Longrightarrow> \<exists>w. encode_i2s_slot v = Inr w" by (simp add: encode_slot)
  show "-32768 \<le> v \<and> v < 32768 \<Longrightarrow> encode_i2s_slot v = Inr w \<Longrightarrow> decode_i2s_slot w = Inr v"
    using decode_encode_slot [of v] by simp
qed

text \<open>
  I2S slots round-trip. Every signed 16-bit sample is encoded without error into 32 bits, the first of which is the
  delay bit, decoding the slot gives the sample back, and two samples with the same slot are equal.
\<close>

theorem i2s_round_trip:
  assumes "-32768 \<le> v" "v < 32768"
  shows "\<exists>slot. encode_i2s_slot v = Inr slot \<and> length slot = 32 \<and> slot ! 0 = 0 \<and> decode_i2s_slot slot = Inr v \<and>
    (\<forall>u. -32768 \<le> u \<and> u < 32768 \<and> encode_i2s_slot u = Inr slot \<longrightarrow> u = v)"
  using assms i2s.round_trip [of v] i2s.enc_inj [of _ v] by (auto simp: encode_slot)

section \<open>The retry policy\<close>

definition tx_of :: "int \<times> int \<Rightarrow> int \<times> int \<times> int" where
  "tx_of rv = (case rv of (reg, value) \<Rightarrow>
     (52, drop_bit 8 (push_bit 9 reg OR value) AND 0xFF, (push_bit 9 reg OR value) AND 0xFF))"

definition reg_ok :: "ack_function \<Rightarrow> nat \<Rightarrow> int \<times> int \<Rightarrow> bool" where
  "reg_ok ack i rv \<longleftrightarrow> (\<exists>attempt \<in> set [0..<4]. all_bytes_acked ack i attempt (tx_of rv))"

lemma attempt_loop_spec:
  fixes ack i tx as r
  defines "bad \<equiv> takeWhile (\<lambda>a. \<not> all_bytes_acked ack i a tx) as"
  shows "attempt_loop ack i tx as r =
    (r\<lparr> ir_transactions := ir_transactions r @ replicate (length bad + of_bool (bad \<noteq> as)) tx,
        ir_ack_error_count := ir_ack_error_count r + length bad,
        ir_retry_count := ir_retry_count r + length (filter (\<lambda>a. a < MAX_RETRIES) bad),
        ir_register_write_count := ir_register_write_count r + of_bool (bad \<noteq> as) \<rparr>, bad \<noteq> as)"
  unfolding bad_def
  by (induction as arbitrary: r) (simp_all add: Let_def)

lemma take_while_upt: "takeWhile P [0..<4] = [0..<length (takeWhile P [0..<4])]" for P :: "nat \<Rightarrow> bool"
proof -
  have "takeWhile P [0..<4] = take (length (takeWhile P [0..<4])) [0..<4]" by (rule takeWhile_eq_take)
  then show ?thesis by (simp add: take_upt length_takeWhile_le [THEN le_trans])
qed

lemma four_attempts:
  fixes ack i tx r
  defines "k \<equiv> length (takeWhile (\<lambda>a. \<not> all_bytes_acked ack i a tx) [0..<4])"
  defines "ok \<equiv> \<exists>attempt \<in> set [0..<4]. all_bytes_acked ack i attempt tx"
  shows "attempt_loop ack i tx [0..<MAX_RETRIES + 1] r =
      (r\<lparr> ir_transactions := ir_transactions r @ replicate (k + of_bool ok) tx,
          ir_ack_error_count := ir_ack_error_count r + k, ir_retry_count := ir_retry_count r + min 3 k,
          ir_register_write_count := ir_register_write_count r + of_bool ok \<rparr>, ok) \<and>
    (if ok then k \<le> 3 else k = 4)"
proof -
  let ?P = "\<lambda>a. \<not> all_bytes_acked ack i a tx"
  have neq: "takeWhile ?P [0..<4] \<noteq> [0..<4] \<longleftrightarrow> ok"
    unfolding ok_def takeWhile_eq_all_conv by simp
  have k4: "k \<le> 4" using length_takeWhile_le [of ?P "[0..<4]"] by (simp add: k_def)
  have bad: "takeWhile ?P [0..<4] = [0..<k]" unfolding k_def by (rule take_while_upt)
  have filt: "length (filter (\<lambda>a. a < MAX_RETRIES) [0..<k]) = min 3 k"
    unfolding MAX_RETRIES_def
    by (induction k) auto
  have "[0..<k] = [0..<4] \<longleftrightarrow> k = 4" by (metis length_upt minus_nat.diff_0)
  then have "if ok then k \<le> 3 else k = 4" using neq k4 by (auto simp: bad)
  moreover have four: "MAX_RETRIES + 1 = 4" by (simp add: MAX_RETRIES_def)
  have "attempt_loop ack i tx [0..<MAX_RETRIES + 1] r =
      (r\<lparr> ir_transactions := ir_transactions r @ replicate (k + of_bool ok) tx,
          ir_ack_error_count := ir_ack_error_count r + k, ir_retry_count := ir_retry_count r + min 3 k,
          ir_register_write_count := ir_register_write_count r + of_bool ok \<rparr>, ok)"
    unfolding four attempt_loop_spec neq unfolding bad filt by (simp only: length_upt minus_nat.diff_0)
  ultimately show ?thesis by blast
qed

text \<open>What the register loop adds to the counters, for any list of encodable registers.\<close>

definition i2c_account :: "ack_function \<Rightarrow> (nat \<times> int \<times> int) list \<Rightarrow> i2c_result \<Rightarrow> i2c_result \<Rightarrow> bool" where
  "i2c_account ack rs r0 r \<longleftrightarrow>
     (let written = length (takeWhile (\<lambda>(i, rv). reg_ok ack i rv) rs); errs = ir_ack_error_count r - ir_ack_error_count r0 in
      ir_done r = list_all (\<lambda>(i, rv). reg_ok ack i rv) rs \<and> ir_error r = (\<not> ir_done r) \<and>
      ir_register_write_count r = ir_register_write_count r0 + written \<and>
      ir_ack_error_count r0 \<le> ir_ack_error_count r \<and>
      length (ir_transactions r) = length (ir_transactions r0) + written + errs \<and>
      ir_retry_count r + of_bool (ir_error r) = ir_retry_count r0 + errs \<and>
      errs \<le> 3 * written + 4 * of_bool (ir_error r))"

definition encodable :: "int \<times> int \<Rightarrow> bool" where
  "encodable rv \<longleftrightarrow> 0 \<le> fst rv \<and> fst rv < 128 \<and> 0 \<le> snd rv \<and> snd rv < 512"

lemma encode_tx: "encodable (reg, value) \<Longrightarrow> encode_i2c_transaction reg value = Inr (tx_of (reg, value))"
  by (simp add: encodable_def encode_i2c_transaction_def encode_control_word_def require_def tx_of_def I2C_ADDRESS_def)

lemma init_loop_account:
  assumes "list_all (\<lambda>(i, rv). encodable rv) rs" "\<not> ir_done r0" "\<not> ir_error r0"
  shows "\<exists>r. init_loop ack rs r0 = Inr r \<and> i2c_account ack rs r0 r"
  using assms
proof (induction rs arbitrary: r0)
  case (Cons x rs)
  obtain i reg v where x: "x = (i, reg, v)" by (cases x)
  define tx where "tx = tx_of (reg, v)"
  define k where "k = length (takeWhile (\<lambda>a. \<not> all_bytes_acked ack i a tx) [0..<4])"
  define ok where "ok = reg_ok ack i (reg, v)"
  define r1 where "r1 = r0\<lparr> ir_transactions := ir_transactions r0 @ replicate (k + of_bool ok) tx,
      ir_ack_error_count := ir_ack_error_count r0 + k, ir_retry_count := ir_retry_count r0 + min 3 k,
      ir_register_write_count := ir_register_write_count r0 + of_bool ok \<rparr>"
  have "attempt_loop ack i tx [0..<MAX_RETRIES + 1] r0 = (r1, ok) \<and> (if ok then k \<le> 3 else k = 4)"
    unfolding r1_def k_def ok_def reg_ok_def tx_def by (rule four_attempts)
  then have att: "attempt_loop ack i tx [0..<MAX_RETRIES + 1] r0 = (r1, ok)" and k: "if ok then k \<le> 3 else k = 4"
    by blast+
  have enc: "encode_i2c_transaction reg v = Inr tx" using Cons.prems(1) encode_tx by (simp add: x tx_def)
  show ?case
  proof (cases ok)
    case False
    with k att enc Cons.prems show ?thesis
      by (simp add: x i2c_account_def ok_def [symmetric] r1_def Let_def del: upt_Suc)
  next
    case True
    have "\<exists>r. init_loop ack rs r1 = Inr r \<and> i2c_account ack rs r1 r"
      using Cons.prems by (intro Cons.IH) (simp_all add: r1_def)
    then obtain r where r: "init_loop ack rs r1 = Inr r" "i2c_account ack rs r1 r" by blast
    then have "i2c_account ack (x # rs) r0 r"
      using True k by (auto simp: i2c_account_def x ok_def [symmetric] r1_def Let_def)
    with r True att enc show ?thesis by (simp add: x del: upt_Suc)
  qed
qed (simp add: i2c_account_def)

abbreviation codec_registers :: "(nat \<times> int \<times> int) list" where
  "codec_registers \<equiv> zip [0..<length REGISTER_SEQUENCE] REGISTER_SEQUENCE"

text \<open>
  C25: The codec initialisation under every ACK behaviour. It always returns; it is done exactly when each of the twelve
  registers is acknowledged within four attempts and reports an error otherwise, never both; the registers written are
  those before the first one that fails four times, in order; every transaction on the bus is a write or a counted
  error; every error but a final one is followed by a counted retry; and the errors are bounded by three per
  written register plus four.
\<close>

theorem i2c_policy:
  "\<exists>r. run_i2c_init ack = Inr r \<and>
     ir_done r = list_all (\<lambda>(i, rv). reg_ok ack i rv) codec_registers \<and> ir_error r = (\<not> ir_done r) \<and>
     ir_register_write_count r = length (takeWhile (\<lambda>(i, rv). reg_ok ack i rv) codec_registers) \<and>
     length (ir_transactions r) = ir_register_write_count r + ir_ack_error_count r \<and>
     ir_retry_count r + of_bool (ir_error r) = ir_ack_error_count r \<and>
     ir_ack_error_count r \<le> 3 * ir_register_write_count r + 4 * of_bool (ir_error r)"
proof -
  have "list_all (\<lambda>(i, rv). encodable rv) codec_registers"
    by (simp add: REGISTER_SEQUENCE_def encodable_def)
  then obtain r where "run_i2c_init ack = Inr r" "i2c_account ack codec_registers I2CResult r"
    using init_loop_account [of codec_registers I2CResult ack] unfolding run_i2c_init_def by (auto simp: I2CResult_def)
  then show ?thesis
    unfolding i2c_account_def Let_def I2CResult_def by (intro exI [of _ r] conjI) (elim conjE; simp)+
qed

section \<open>FIFOs and counters\<close>

interpretation counter64: saturating_counter increment UINT64_MAX
  by unfold_locales (simp_all add: increment_def UINT64_MAX_def)

datatype cdc_op =
    Receive frame bool
  | FabricTick bool
  | Submit frame bool
  | DacBoundary bool
  | ClearCounters

definition cdc_step :: "audio_cdc \<Rightarrow> cdc_op \<Rightarrow> audio_cdc" where
  "cdc_step s op =
     (case op of
        Receive f e \<Rightarrow> fst (receive_frame f e s)
      | FabricTick e \<Rightarrow> fst (fabric_rx_tick e s)
      | Submit f e \<Rightarrow> fst (submit_lineout f e s)
      | DacBoundary e \<Rightarrow> fst (dac_frame_boundary e s)
      | ClearCounters \<Rightarrow> clear_counters s)"

text \<open>
  History of the two queues: what the queue accepted, what left it (delivered or discarded), and how many frames were
  refused since the counters were cleared.
\<close>

record cdc_log =
  lg_rx_in :: "frame list"
  lg_rx_out :: "frame list"
  lg_rx_lost :: nat
  lg_tx_in :: "frame list"
  lg_tx_out :: "frame list"
  lg_tx_lost :: nat

definition log_step :: "audio_cdc \<Rightarrow> cdc_log \<Rightarrow> cdc_op \<Rightarrow> cdc_log" where
  "log_step s lg op =
     (case op of
        Receive f e \<Rightarrow>
          if snd (receive_frame f e s) then lg\<lparr> lg_rx_in := lg_rx_in lg @ [f] \<rparr>
          else if e then lg\<lparr> lg_rx_lost := lg_rx_lost lg + 1 \<rparr> else lg
      | FabricTick e \<Rightarrow> lg\<lparr> lg_rx_out := lg_rx_out lg @ take 1 (ac_rx_fifo s) \<rparr>
      | Submit f e \<Rightarrow>
          if snd (submit_lineout f e s) then lg\<lparr> lg_tx_in := lg_tx_in lg @ [f] \<rparr>
          else if e then lg\<lparr> lg_tx_lost := lg_tx_lost lg + 1 \<rparr> else lg
      | DacBoundary e \<Rightarrow>
          if e \<and> ac_tx_fifo s \<noteq> [] then lg\<lparr> lg_tx_out := lg_tx_out lg @ [snd (dac_frame_boundary e s)] \<rparr> else lg
      | ClearCounters \<Rightarrow> lg\<lparr> lg_rx_lost := 0, lg_tx_lost := 0 \<rparr>)"

definition logged_step :: "audio_cdc \<times> cdc_log \<Rightarrow> cdc_op \<Rightarrow> audio_cdc \<times> cdc_log" where
  "logged_step p op = (case p of (s, lg) \<Rightarrow> (cdc_step s op, log_step s lg op))"

definition cdc_inv :: "audio_cdc \<times> cdc_log \<Rightarrow> bool" where
  "cdc_inv p \<longleftrightarrow> (case p of (s, lg) \<Rightarrow>
     2 \<le> ac_rx_depth s \<and> 2 \<le> ac_tx_depth s \<and>
     int (length (ac_rx_fifo s)) \<le> ac_rx_depth s \<and> int (length (ac_tx_fifo s)) \<le> ac_tx_depth s \<and>
     lg_rx_in lg = lg_rx_out lg @ ac_rx_fifo s \<and> lg_tx_in lg = lg_tx_out lg @ ac_tx_fifo s \<and>
     ac_rx_overflow s = min UINT64_MAX (int (lg_rx_lost lg)) \<and>
     ac_tx_overflow s = min UINT64_MAX (int (lg_tx_lost lg)) \<and>
     0 \<le> ac_tx_underflow s \<and> ac_tx_underflow s \<le> UINT64_MAX)"

lemma increment_lost: "increment (min UINT64_MAX (int n)) = min UINT64_MAX (int (n + 1))"
  by (simp add: increment_def UINT64_MAX_def)

interpretation cdc: step_invariant logged_step cdc_inv
proof
  fix p op
  assume inv: "cdc_inv p"
  obtain s lg where p: "p = (s, lg)" by (cases p)
  show "cdc_inv (logged_step p op)"
  proof (cases op)
    case (Receive f e)
    then show ?thesis using inv
      by (simp add: p cdc_inv_def logged_step_def cdc_step_def log_step_def receive_frame_def increment_lost)
  next
    case (FabricTick e)
    then show ?thesis using inv
      by (cases "ac_rx_fifo s") (simp_all add: p cdc_inv_def logged_step_def cdc_step_def log_step_def fabric_rx_tick_def)
  next
    case (Submit f e)
    then show ?thesis using inv
      by (simp add: p cdc_inv_def logged_step_def cdc_step_def log_step_def submit_lineout_def increment_lost)
  next
    case (DacBoundary e)
    have "0 \<le> ac_tx_underflow s \<Longrightarrow> ac_tx_underflow s \<le> UINT64_MAX \<Longrightarrow>
        0 \<le> increment (ac_tx_underflow s) \<and> increment (ac_tx_underflow s) \<le> UINT64_MAX"
      using counter64.incr_bounds [of "ac_tx_underflow s"] by linarith
    with DacBoundary inv show ?thesis
      by (cases "ac_tx_fifo s") (simp_all add: p cdc_inv_def logged_step_def cdc_step_def log_step_def dac_frame_boundary_def)
  next
    case ClearCounters
    then show ?thesis using inv
      by (simp add: p cdc_inv_def logged_step_def cdc_step_def log_step_def clear_counters_def UINT64_MAX_def)
  qed
qed

definition empty_log :: cdc_log where
  "empty_log = \<lparr> lg_rx_in = [], lg_rx_out = [], lg_rx_lost = 0, lg_tx_in = [], lg_tx_out = [], lg_tx_lost = 0 \<rparr>"

text \<open>
  The clock-crossing FIFOs lose nothing silently. For every depth the constructor accepts and every sequence of calls,
  what entered each queue is what left it followed by what it still holds, in order; no queue exceeds its depth; and the
  overflow counters are the number of refused frames since the last clear, saturated at \<open>2\<^sup>64 - 1\<close>.
\<close>

theorem fifo_conservation:
  assumes "AudioCdcModel rx_depth tx_depth = Inr s0"
  shows "cdc_inv (foldl logged_step (s0, empty_log) ops)"
proof (rule cdc.run_inv)
  show "cdc_inv (s0, empty_log)"
    using assms by (auto simp: AudioCdcModel_def require_def cdc_inv_def empty_log_def UINT64_MAX_def split: if_splits)
qed

text \<open>
  No frame crosses a source epoch. Once the fabric side has ticked with capture disabled as often as the queue holds
  frames, the queue is empty and each of those ticks returned nothing; the first frame captured afterwards is the first
  one delivered.
\<close>

theorem no_stale_epoch:
  fixes s :: audio_cdc
  defines "n \<equiv> length (ac_rx_fifo s)"
  defines "t \<equiv> ((\<lambda>s. fst (fabric_rx_tick False s)) ^^ n) s"
  assumes "2 \<le> ac_rx_depth s"
  shows "ac_rx_fifo t = [] \<and> (\<forall>k. snd (fabric_rx_tick False (((\<lambda>s. fst (fabric_rx_tick False s)) ^^ k) s)) = None) \<and>
    snd (fabric_rx_tick True (fst (receive_frame f True t))) = Some f"
proof -
  have silent: "snd (fabric_rx_tick False u) = None" for u by (simp add: fabric_rx_tick_def split: list.splits)
  have drain: "((\<lambda>s. fst (fabric_rx_tick False s)) ^^ k) u = u\<lparr> ac_rx_fifo := drop k (ac_rx_fifo u) \<rparr>" for k u
  proof (induction k arbitrary: u)
    case (Suc k)
    have "fst (fabric_rx_tick False u) = u\<lparr> ac_rx_fifo := tl (ac_rx_fifo u) \<rparr>"
      by (cases "ac_rx_fifo u") (simp_all add: fabric_rx_tick_def)
    then show ?case using Suc by (simp add: funpow_Suc_right drop_Suc del: funpow.simps)
  qed simp
  have "t = s\<lparr> ac_rx_fifo := [] \<rparr>" by (simp add: t_def n_def drain)
  with silent assms(3) show ?thesis by (simp add: receive_frame_def fabric_rx_tick_def)
qed

section \<open>The script's checks\<close>

text \<open>A comparison of two fractions is the comparison of the cross products; the denominators are positive.\<close>

definition fraction_eq :: "int \<Rightarrow> int \<Rightarrow> int \<Rightarrow> int \<Rightarrow> bool" where
  "fraction_eq a b c d \<longleftrightarrow> a * d = c * b"

fun phase_loop :: "nat \<Rightarrow> int \<Rightarrow> int \<Rightarrow> int \<times> int" where
  "phase_loop 0 phase edges = (phase, edges)"
| "phase_loop (Suc n) phase edges =
     (let phase1 = phase + 2 * AUDIO_MCLK_HZ in
      if phase1 \<ge> REF_CLK_HZ then phase_loop n (phase1 - REF_CLK_HZ) (edges + 1) else phase_loop n phase1 edges)"

definition check_clock_contract :: "unit result" where
  "check_clock_contract =
     rbind (require (fraction_eq AUDIO_MCLK_HZ SAMPLE_RATE_HZ 256 1) ''MCLK/Fs is not 256'') (\<lambda>_.
     rbind (require (fraction_eq BCLK_HZ SAMPLE_RATE_HZ 64 1) ''BCLK/Fs is not 64'') (\<lambda>_.
     rbind (require (fraction_eq AUDIO_MCLK_HZ REF_CLK_HZ 768 3125) ''50 MHz to 12.288 MHz ratio drifted'') (\<lambda>_.
     case phase_loop 3125 0 0 of (phase, edges) \<Rightarrow>
     rbind (require (edges = 1536) ''phase model edge count'') (\<lambda>_.
     require (phase = 0) ''phase model does not close after the rational period''))))"

text \<open>A Python \<^verbatim>\<open>dict\<close> built from pairs keeps the last value of a repeated key.\<close>

definition dict_lookup :: "(int \<times> int) list \<Rightarrow> int \<Rightarrow> int option" where
  "dict_lookup kvs = map_of (rev kvs)"

definition i2c_checks :: "ack_function \<Rightarrow> (i2c_result \<Rightarrow> (bool \<times> string) list) \<Rightarrow> unit result" where
  "i2c_checks ack conds =
     rbind (run_i2c_init ack) (\<lambda>r. checks (map (\<lambda>(c, m). (c, Exn AssertionError m)) (conds r)))"

definition check_codec_words_and_i2c :: "unit result" where
  "check_codec_words_and_i2c =
     rbind (checks (map (\<lambda>(c, m). (c, Exn AssertionError m))
       [(length REGISTER_SEQUENCE = 12, ''codec register sequence length drifted''),
        (last REGISTER_SEQUENCE = (9, 0x001), ''codec ACTIVE write is not last''),
        (the (dict_lookup REGISTER_SEQUENCE 7) AND 3 = 2, ''codec interface is not I2S''),
        (drop_bit 2 (the (dict_lookup REGISTER_SEQUENCE 7)) AND 3 = 0, ''codec word width is not 16-bit''),
        (drop_bit 6 (the (dict_lookup REGISTER_SEQUENCE 7)) AND 1 = 1, ''codec is not serial-clock master''),
        (the (dict_lookup REGISTER_SEQUENCE 8) = 0, ''codec 48 kHz normal-mode sampling register drifted''),
        (the (dict_lookup REGISTER_SEQUENCE 6) = 0x002, ''codec microphone power-down policy drifted''),
        (encode_i2c_transaction 7 0x042 = Inr (0x34, 0x0E, 0x42), ''I2S transaction encoding mismatch''),
        (encode_i2c_transaction 8 0x000 = Inr (0x34, 0x10, 0x00), ''sampling transaction encoding mismatch''),
        (encode_i2c_transaction 9 0x001 = Inr (0x34, 0x12, 0x01), ''ACTIVE transaction encoding mismatch'')])) (\<lambda>_.
     rbind (i2c_checks (\<lambda>_ _ _ _. True) (\<lambda>r.
       [(ir_done r \<and> \<not> ir_error r, ''all-ACK codec initialization did not finish''),
        (ir_register_write_count r = 12, ''all-ACK write count mismatch''),
        (ir_retry_count r = 0 \<and> ir_ack_error_count r = 0, ''all-ACK counters changed'')])) (\<lambda>_.
     rbind (i2c_checks (\<lambda>reg attempt byte _. \<not> (reg = 9 \<and> attempt = 0 \<and> byte = 1)) (\<lambda>r.
       [(ir_done r \<and> \<not> ir_error r, ''transient NACK did not recover''),
        (ir_retry_count r = 1, ''transient NACK retry count mismatch''),
        (ir_ack_error_count r = 1, ''transient NACK ACK-error count mismatch''),
        (ir_register_write_count r = 12, ''transient NACK lost a register write'')])) (\<lambda>_.
     i2c_checks (\<lambda>reg _ _ _. reg \<noteq> 4) (\<lambda>r.
       [(\<not> ir_done r \<and> ir_error r, ''persistent NACK did not fail closed''),
        (ir_retry_count r = MAX_RETRIES, ''persistent NACK retry bound mismatch''),
        (ir_ack_error_count r = MAX_RETRIES + 1, ''persistent NACK attempt count mismatch''),
        (ir_register_write_count r = 4, ''writes after persistent NACK were accepted'')]))))"

lemma check_codec_passes: "check_codec_words_and_i2c = Inr ()"
  by code_simp

lemma phase_loop_closed:
  "phase_loop n phase edges = (p, e) \<Longrightarrow> 0 \<le> phase \<Longrightarrow> phase < REF_CLK_HZ \<Longrightarrow>
    p + REF_CLK_HZ * e = phase + REF_CLK_HZ * edges + int n * (2 * AUDIO_MCLK_HZ) \<and> 0 \<le> p \<and> p < REF_CLK_HZ"
proof (induction n arbitrary: phase edges)
  case (Suc n)
  define q where "q = phase + 2 * AUDIO_MCLK_HZ"
  have q: "0 \<le> q" "q < 2 * REF_CLK_HZ" using Suc.prems by (simp_all add: q_def AUDIO_MCLK_HZ_def REF_CLK_HZ_def)
  show ?case
  proof (cases "REF_CLK_HZ \<le> q")
    case True
    then have "phase_loop n (q - REF_CLK_HZ) (edges + 1) = (p, e)" using Suc.prems(1) by (simp add: q_def Let_def)
    from Suc.IH [OF this] True q show ?thesis by (simp add: q_def algebra_simps)
  next
    case False
    then have "phase_loop n q edges = (p, e)" using Suc.prems(1) by (simp add: q_def Let_def)
    from Suc.IH [OF this] False q show ?thesis by (simp add: q_def algebra_simps)
  qed
qed simp

text \<open>The accumulator closes after one rational period, without running its 3125 steps.\<close>

lemma check_clock_passes: "check_clock_contract = Inr ()"
proof -
  obtain p e where pe: "phase_loop 3125 0 0 = (p, e)" by (cases "phase_loop 3125 0 0")
  have "p + 50000000 * e = 3125 * 24576000" "0 \<le> p" "p < 50000000"
    using phase_loop_closed [OF pe] by (simp_all add: REF_CLK_HZ_def AUDIO_MCLK_HZ_def)
  then have "e \<le> 1536" "1536 < e + 1" by linarith+
  then have "e = 1536" "p = 0" using \<open>p + 50000000 * e = 3125 * 24576000\<close> by simp_all
  with pe show ?thesis
    by (simp add: check_clock_contract_def require_def fraction_eq_def AUDIO_MCLK_HZ_def SAMPLE_RATE_HZ_def BCLK_HZ_def REF_CLK_HZ_def)
qed

definition check_i2s :: "unit result" where
  "check_i2s =
     rbind (rmapM (\<lambda>v. rbind (encode_i2s_slot v) (\<lambda>slot.
       rbind (require (length slot = 32) ''I2S slot is not 32 bits'') (\<lambda>_.
       rbind (require (slot ! 0 = 0) ''I2S delay bit is not present'') (\<lambda>_.
       rbind (decode_i2s_slot slot) (\<lambda>u. require (u = v) ''I2S round trip failed'')))))
       [-32768, -23131, -1, 0, 1, 23130, 32767]) (\<lambda>_.
     rbind (rmapM (\<lambda>(v, raw, m). rbind (encode_i2s_slot v) (\<lambda>slot.
       require (take 16 (drop 1 slot) = word_bits raw 16) m))
       [(-32768, 0x8000, ''I2S negative-full-scale bit order mismatch''),
        (0x7FFF, 0x7FFF, ''I2S positive-full-scale bit order mismatch''),
        (-0x5AA6, 0xA55A, ''I2S 0xA55A bit pattern mismatch''),
        (0x5AA5, 0x5AA5, ''I2S 0x5AA5 bit pattern mismatch'')]) (\<lambda>_. Inr ()))"

lemma check_i2s_passes: "check_i2s = Inr ()"
  by code_simp

text \<open>The sweep over all 16-bit samples: range, monotonicity and the two clip counts.\<close>

record sweep =
  sw_cases :: int
  sw_high :: int
  sw_low :: int
  sw_previous :: int

definition sweep_step :: "sweep \<Rightarrow> int \<Rightarrow> sweep result" where
  "sweep_step s value =
     rbind (audio16_to_core12 value) (\<lambda>(scaled, clip_hi, clip_lo).
     rbind (require (- push_bit 11 1 \<le> scaled \<and> scaled \<le> push_bit 11 1 - 1) ''scaled sample escaped 12-bit range'') (\<lambda>_.
     rbind (require (scaled \<ge> sw_previous s) ''audio scale mapping is not monotonic'') (\<lambda>_.
     Inr \<lparr> sw_cases = sw_cases s + 1, sw_high = sw_high s + of_bool clip_hi, sw_low = sw_low s + of_bool clip_lo,
           sw_previous = scaled \<rparr>)))"

fun sweep_loop :: "sweep \<Rightarrow> int list \<Rightarrow> sweep result" where
  "sweep_loop s [] = Inr s"
| "sweep_loop s (v # vs) = rbind (sweep_step s v) (\<lambda>t. sweep_loop t vs)"

definition check_audio_scaling :: "int result" where
  "check_audio_scaling =
     rbind (sweep_loop \<lparr> sw_cases = 0, sw_high = 0, sw_low = 0, sw_previous = - push_bit (CORE_WIDTH - 1) 1 \<rparr>
       [- push_bit 15 1..push_bit 15 1 - 1]) (\<lambda>s.
     rbind (checks (map (\<lambda>(c, m). (c, Exn AssertionError m))
       [(sw_cases s = 65536, ''exhaustive audio scaling case count mismatch''),
        (sw_high s = 8, ''unexpected positive clipping population''),
        (sw_low s = 0, ''unexpected negative clipping population''),
        (map_sum id fst (audio16_to_core12 7) = Inr 0, ''+7 rounding mismatch''),
        (map_sum id fst (audio16_to_core12 8) = Inr 1, ''+8 tie-away rounding mismatch''),
        (map_sum id fst (audio16_to_core12 (-7)) = Inr 0, ''-7 rounding mismatch''),
        (map_sum id fst (audio16_to_core12 (-8)) = Inr (-1), ''-8 tie-away rounding mismatch''),
        (audio16_to_core12 32759 = Inr (2047, False, False), ''positive boundary mismatch''),
        (audio16_to_core12 32760 = Inr (2047, True, False), ''positive clip boundary mismatch''),
        (audio16_to_core12 (-32768) = Inr (-2048, False, False), ''negative full-scale mismatch'')])) (\<lambda>_.
     Inr (sw_cases s)))"

text \<open>Rounding and saturation are monotone, so the sweep needs no enumeration.\<close>

abbreviation scale :: "int \<Rightarrow> int" where
  "scale v \<equiv> saturated (rounded v 4) 12"

lemma scale_mono: "u \<le> v \<Longrightarrow> scale u \<le> scale v"
  using orc.mono [of u v 4] by (auto simp: saturated_def)

lemma sweep_loop_spec:
  assumes "-32768 \<le> k" "k \<le> 32768" "\<forall>v \<in> {k..<32768}. p \<le> scale v"
  shows "\<exists>q. sweep_loop \<lparr> sw_cases = c, sw_high = h, sw_low = l, sw_previous = p \<rparr> [k..32767] =
    Inr \<lparr> sw_cases = c + (32768 - k), sw_high = h + min 8 (32768 - k), sw_low = l, sw_previous = q \<rparr>"
  using assms
proof (induction "nat (32768 - k)" arbitrary: k c h p)
  case 0
  then show ?case by simp
next
  case (Suc n)
  then have k: "k < 32768" "-32768 \<le> k" by simp_all
  then have "[k..32767] = k # [k + 1..32767]" by (simp add: upto_rec1)
  moreover have "sweep_step \<lparr> sw_cases = c, sw_high = h, sw_low = l, sw_previous = p \<rparr> k =
      Inr \<lparr> sw_cases = c + 1, sw_high = h + of_bool (32760 \<le> k), sw_low = l, sw_previous = scale k \<rparr>"
    using audio16_eq [OF k(2,1)] saturated_range [of 12 "rounded k 4"] Suc.prems(3) k
    by (simp add: sweep_step_def require_def)
  moreover have "\<exists>q. sweep_loop \<lparr> sw_cases = c + 1, sw_high = h + of_bool (32760 \<le> k), sw_low = l, sw_previous = scale k \<rparr>
      [k + 1..32767] = Inr \<lparr> sw_cases = c + 1 + (32768 - (k + 1)),
        sw_high = h + of_bool (32760 \<le> k) + min 8 (32768 - (k + 1)), sw_low = l, sw_previous = q \<rparr>"
    using Suc k scale_mono [of k] by (intro Suc.hyps(1)) auto
  moreover have "of_bool (32760 \<le> k) + min 8 (32768 - (k + 1)) = min 8 (32768 - k)" by auto
  ultimately show ?case by (auto simp: add.assoc)
qed

lemma check_audio_scaling_passes: "check_audio_scaling = Inr 65536"
proof -
  have "- 2048 \<le> scale v" for v using saturated_range [of 12 "rounded v 4"] by simp
  then obtain q where "sweep_loop \<lparr> sw_cases = 0, sw_high = 0, sw_low = 0, sw_previous = - 2048 \<rparr> [- 32768..32767] =
      Inr \<lparr> sw_cases = 65536, sw_high = 8, sw_low = 0, sw_previous = q \<rparr>"
    using sweep_loop_spec [of "-32768" "-2048" 0 0 0] by (auto simp del: upto_rec_numeral)
  moreover have "map_sum id fst (audio16_to_core12 7) = Inr 0" "map_sum id fst (audio16_to_core12 8) = Inr 1"
    "map_sum id fst (audio16_to_core12 (-7)) = Inr 0" "map_sum id fst (audio16_to_core12 (-8)) = Inr (-1)"
    "audio16_to_core12 32759 = Inr (2047, False, False)" "audio16_to_core12 32760 = Inr (2047, True, False)"
    "audio16_to_core12 (-32768) = Inr (-2048, False, False)"
    by (simp_all add: audio16_eq rounded_def saturated_def)
  ultimately show ?thesis by (simp add: check_audio_scaling_def CORE_WIDTH_def checks.simps del: upto_rec_numeral)
qed

definition call :: "'s \<times> 'a \<Rightarrow> ('a \<Rightarrow> bool) \<Rightarrow> string \<Rightarrow> 's result" where
  "call sa ok message = rbind (require (ok (snd sa)) message) (\<lambda>_. Inr (fst sa))"

definition check_fifo_and_counters :: "unit result" where
  "check_fifo_and_counters =
     rbind (AudioCdcModel 2 2) (\<lambda>s.
     rbind (call (dac_frame_boundary True s) (\<lambda>f. f = (0, 0)) ''initial TX empty did not mute'') (\<lambda>s.
     rbind (require (ac_tx_underflow s = 0) ''unprimed TX silence was counted as underflow'') (\<lambda>_.
     rbind (call (receive_frame (1, -1) True s) id ''RX first enqueue failed'') (\<lambda>s.
     rbind (call (receive_frame (2, -2) True s) id ''RX second enqueue failed'') (\<lambda>s.
     rbind (call (receive_frame (3, -3) True s) Not ''RX full enqueue succeeded'') (\<lambda>s.
     rbind (require (ac_rx_overflow s = 1) ''RX overflow did not count exactly once'') (\<lambda>_.
     rbind (call (receive_frame (4, -4) False s) Not ''disabled RX was queued'') (\<lambda>s.
     rbind (require (ac_rx_overflow s = 1) ''disabled RX changed overflow count'') (\<lambda>_.
     rbind (call (fabric_rx_tick False s) (\<lambda>r. r = None) ''disabled RX leaked old frame'') (\<lambda>s.
     rbind (call (fabric_rx_tick False s) (\<lambda>r. r = None) ''disabled RX leaked old frame'') (\<lambda>s.
     rbind (call (receive_frame (100, -100) True s) id ''new-epoch RX enqueue failed'') (\<lambda>s.
     rbind (call (fabric_rx_tick True s) (\<lambda>r. r = Some (100, -100)) ''stale RX frame crossed epoch'') (\<lambda>s.
     rbind (call (submit_lineout (10, 10) True s) id ''TX first enqueue failed'') (\<lambda>s.
     rbind (call (submit_lineout (11, 11) True s) id ''TX second enqueue failed'') (\<lambda>s.
     rbind (call (submit_lineout (12, 12) True s) Not ''TX full enqueue succeeded'') (\<lambda>s.
     rbind (require (ac_tx_overflow s = 1) ''TX overflow did not count exactly once'') (\<lambda>_.
     rbind (call (submit_lineout (13, 13) False s) Not ''disabled TX was queued'') (\<lambda>s.
     rbind (require (ac_tx_overflow s = 1) ''disabled TX changed overflow count'') (\<lambda>_.
     rbind (call (dac_frame_boundary True s) (\<lambda>f. f = (10, 10)) ''TX order mismatch'') (\<lambda>s.
     rbind (call (dac_frame_boundary True s) (\<lambda>f. f = (11, 11)) ''TX order mismatch'') (\<lambda>s.
     rbind (call (dac_frame_boundary True s) (\<lambda>f. f = (0, 0)) ''TX empty did not mute'') (\<lambda>s.
     rbind (require (ac_tx_underflow s = 1) ''TX underflow did not count exactly once'') (\<lambda>_.
     rbind (call (dac_frame_boundary False s) (\<lambda>f. f = (0, 0)) ''disabled TX did not mute'') (\<lambda>s.
     rbind (require (ac_tx_underflow s = 1) ''disabled TX changed underflow count'') (\<lambda>_.
     let s = s\<lparr> ac_rx_overflow := increment (increment (UINT64_MAX - 1)) \<rparr> in
     rbind (require (ac_rx_overflow s = UINT64_MAX) ''64-bit counter did not saturate'') (\<lambda>_.
     let s = clear_counters s in
     require ((ac_rx_overflow s, ac_tx_overflow s, ac_tx_underflow s) = (0, 0, 0))
       ''audio counter clear did not clear all three counters''))))))))))))))))))))))))))"

lemma check_fifo_passes: "check_fifo_and_counters = Inr ()"
  by code_simp

definition audio_main :: "int result" where
  "audio_main =
     rbind check_clock_contract (\<lambda>_.
     rbind check_codec_words_and_i2c (\<lambda>_.
     rbind check_i2s (\<lambda>_.
     rbind check_fifo_and_counters (\<lambda>_.
     rbind check_audio_scaling (\<lambda>_.
     Inr 0)))))"

lemma audio_main_passes: "audio_main = Inr 0"
  unfolding audio_main_def check_clock_passes check_codec_passes check_i2s_passes check_fifo_passes
    check_audio_scaling_passes rbind.simps ..

section \<open>Witnesses\<close>

theorem audio_scaling_matches_oracle_witness: "audio16_to_core12 (-8) = Inr (-1, False, False)"
  using audio_scaling_matches_oracle [of "-8"] by (simp add: rounded_def saturated_def)

theorem i2s_round_trip_witness: "\<exists>slot. encode_i2s_slot (-23131) = Inr slot \<and> decode_i2s_slot slot = Inr (-23131)"
  using i2s_round_trip [of "-23131"] by auto

theorem fifo_conservation_witness:
  "\<exists>s. AudioCdcModel 2 3 = Inr s \<and>
     cdc_inv (foldl logged_step (s, empty_log) [Receive (1, 2) True, FabricTick False, Submit (3, 4) True, DacBoundary True])"
proof -
  obtain s where s: "AudioCdcModel 2 3 = Inr s" by (simp add: AudioCdcModel_def require_def)
  with fifo_conservation [OF s] show ?thesis by blast
qed

theorem no_stale_epoch_witness:
  "\<exists>s. AudioCdcModel 2 2 = Inr s \<and> snd (fabric_rx_tick True (fst (receive_frame (7, 8) True s))) = Some (7, 8)"
proof -
  obtain s where s: "AudioCdcModel 2 2 = Inr s" "2 \<le> ac_rx_depth s" "ac_rx_fifo s = []"
    by (simp add: AudioCdcModel_def require_def)
  with no_stale_epoch [of s "(7, 8)"] show ?thesis by simp
qed

end
