(* ===== verification/Adc_Model.thy ===== *)
theory Adc_Model
  imports Py_Strings
begin

text \<open>
  The LTC2308 converter model, \<^verbatim>\<open>scripts/sim/check_step17_adc_model.py\<close>: channel commands and serial frames, the timing
  budget, the protocol wrapper with its priming, recovery and sticky faults, the source adapter with its counters, the
  synchroniser and all checks of the script. A method that raises does so before it changes the object, except for a
  counter outside its range, which the invariants exclude; fields the checks assign directly are updated in place.
\<close>

section \<open>Constants and counters\<close>

definition FABRIC_CLOCK_HZ :: int where "FABRIC_CLOCK_HZ = 50000000"
definition FABRIC_PERIOD_NS :: int where "FABRIC_PERIOD_NS = 20"
definition ADC_SAMPLE_RATE_HZ :: int where "ADC_SAMPLE_RATE_HZ = 100000"
definition NON_ADC_SAMPLE_RATE_HZ :: int where "NON_ADC_SAMPLE_RATE_HZ = 48000"
definition SCLK_HALF_DIV :: int where "SCLK_HALF_DIV = 10"
definition SCLK_HZ :: int where "SCLK_HZ = 2500000"
definition ADC_BITS :: nat where "ADC_BITS = 12"
definition COMMAND_BITS :: nat where "COMMAND_BITS = 6"
definition DOUT_SYNC_STAGES :: int where "DOUT_SYNC_STAGES = 2"
definition CONVST_PULSE_CYCLES :: int where "CONVST_PULSE_CYCLES = 2"
definition CONVERSION_WAIT_CYCLES :: int where "CONVERSION_WAIT_CYCLES = 80"
definition ACQUISITION_GUARD_CYCLES :: int where "ACQUISITION_GUARD_CYCLES = 12"

definition REENTRY_RECOVERY_CYCLES :: int where
  "REENTRY_RECOVERY_CYCLES = CONVST_PULSE_CYCLES + CONVERSION_WAIT_CYCLES + SCLK_HALF_DIV"

definition DROP_COUNT_W :: nat where "DROP_COUNT_W = 32"
definition UINT64_MAX :: int where "UINT64_MAX = push_bit 64 1 - 1"
definition DROP_COUNT_MAX :: int where "DROP_COUNT_MAX = push_bit DROP_COUNT_W 1 - 1"

definition CHANNEL_COMMANDS :: "int list" where
  "CHANNEL_COMMANDS = [0x22, 0x32, 0x26, 0x36, 0x2A, 0x3A, 0x2E, 0x3E]"

lemmas adc_consts = FABRIC_CLOCK_HZ_def FABRIC_PERIOD_NS_def ADC_SAMPLE_RATE_HZ_def NON_ADC_SAMPLE_RATE_HZ_def
  SCLK_HALF_DIV_def SCLK_HZ_def ADC_BITS_def COMMAND_BITS_def DOUT_SYNC_STAGES_def CONVST_PULSE_CYCLES_def
  CONVERSION_WAIT_CYCLES_def ACQUISITION_GUARD_CYCLES_def REENTRY_RECOVERY_CYCLES_def DROP_COUNT_W_def
  UINT64_MAX_def DROP_COUNT_MAX_def

definition require :: "bool \<Rightarrow> string \<Rightarrow> unit result" where
  "require condition message = (if condition then Inr () else Inl (Exn AssertionError message))"

definition sat_inc64 :: "int \<Rightarrow> int result" where
  "sat_inc64 value =
     rbind (require (0 \<le> value \<and> value \<le> UINT64_MAX) ''counter escaped unsigned 64-bit range'') (\<lambda>_.
     Inr (if value = UINT64_MAX then value else value + 1))"

definition wrap_inc64 :: "int \<Rightarrow> int result" where
  "wrap_inc64 value =
     rbind (require (0 \<le> value \<and> value \<le> UINT64_MAX) ''counter escaped unsigned 64-bit range'') (\<lambda>_.
     Inr ((value + 1) AND UINT64_MAX))"

definition sat_inc_width :: "int \<Rightarrow> nat \<Rightarrow> int result" where
  "sat_inc_width value width =
     rbind (require (width > 0) ''counter width must be positive'') (\<lambda>_.
     let maximum = push_bit width 1 - 1 in
     rbind (require (0 \<le> value \<and> value \<le> maximum) ''counter escaped declared width'') (\<lambda>_.
     Inr (if value = maximum then value else value + 1)))"

section \<open>Commands and serial frames\<close>

definition ltc2308_command :: "int \<Rightarrow> int result" where
  "ltc2308_command channel =
     rbind (require (0 \<le> channel \<and> channel < 8) ''LTC2308 channel must be 0..7'') (\<lambda>_.
     Inr (push_bit 5 1 OR push_bit 4 (channel AND 1) OR push_bit 1 (channel AND 4) OR push_bit 1 (channel AND 2) OR push_bit 1 1))"

definition command_supported :: "int \<Rightarrow> bool" where
  "command_supported command \<longleftrightarrow>
     0 \<le> command \<and> command < push_bit COMMAND_BITS 1 \<and> command AND 0x23 = 0x22"

definition bits_msb_first :: "int \<Rightarrow> nat \<Rightarrow> int list result" where
  "bits_msb_first value width =
     rbind (require (width > 0 \<and> 0 \<le> value \<and> value < push_bit width 1) ''value does not fit bit width'') (\<lambda>_.
     Inr (map (\<lambda>shift. drop_bit shift value AND 1) (rev [0..<width])))"

definition din_frame :: "int \<Rightarrow> int list result" where
  "din_frame command =
     rbind (require (command_supported command) ''unsupported LTC2308 input command'') (\<lambda>_.
     rbind (bits_msb_first command COMMAND_BITS) (\<lambda>bits.
     Inr (bits @ replicate (ADC_BITS - COMMAND_BITS) 0)))"

fun decode_bits :: "int \<Rightarrow> int list \<Rightarrow> int result" where
  "decode_bits value [] = Inr value"
| "decode_bits value (b # bits) =
     rbind (require (b = 0 \<or> b = 1) ''serial symbol is not binary'') (\<lambda>_.
     decode_bits (push_bit 1 value OR b) bits)"

definition decode_msb_first :: "int list \<Rightarrow> int result" where
  "decode_msb_first bits = decode_bits 0 bits"

section \<open>The timing budget\<close>

record adc_params =
  pm_clock_hz :: int
  pm_sample_rate_hz :: int
  pm_sclk_half_div :: int
  pm_adc_bits :: int
  pm_command_bits :: int
  pm_dout_sync_stages :: int
  pm_convst_cycles :: int
  pm_conversion_wait_cycles :: int
  pm_acquisition_guard_cycles :: int
  pm_default_command :: int

definition default_params :: adc_params where
  "default_params =
     \<lparr> pm_clock_hz = FABRIC_CLOCK_HZ, pm_sample_rate_hz = ADC_SAMPLE_RATE_HZ, pm_sclk_half_div = SCLK_HALF_DIV,
       pm_adc_bits = int ADC_BITS, pm_command_bits = int COMMAND_BITS, pm_dout_sync_stages = DOUT_SYNC_STAGES,
       pm_convst_cycles = CONVST_PULSE_CYCLES, pm_conversion_wait_cycles = CONVERSION_WAIT_CYCLES,
       pm_acquisition_guard_cycles = ACQUISITION_GUARD_CYCLES, pm_default_command = CHANNEL_COMMANDS ! 0 \<rparr>"

definition transaction_cycles :: "adc_params \<Rightarrow> int" where
  "transaction_cycles p =
     pm_convst_cycles p + pm_conversion_wait_cycles p + 2 * pm_adc_bits p * pm_sclk_half_div p +
     pm_acquisition_guard_cycles p"

definition acquisition_from_seventh :: "adc_params \<Rightarrow> int" where
  "acquisition_from_seventh p = ((pm_adc_bits p - 7) * 2 + 1) * pm_sclk_half_div p + pm_acquisition_guard_cycles p"

definition protocol_supported :: "adc_params \<Rightarrow> bool" where
  "protocol_supported p =
     (if foldl min (pm_clock_hz p) [pm_sample_rate_hz p, pm_sclk_half_div p, pm_convst_cycles p,
           pm_conversion_wait_cycles p, pm_acquisition_guard_cycles p] \<le> 0 then False
      else if pm_adc_bits p \<noteq> 12 \<or> pm_command_bits p \<noteq> 6 \<or> pm_dout_sync_stages p < 2 then False
      else if \<not> command_supported (pm_default_command p) then False
      else if pm_sclk_half_div p < pm_dout_sync_stages p + 1 \<or> pm_sample_rate_hz p \<ge> pm_clock_hz p then False
      else
        let convst_high_scaled = pm_convst_cycles p * 1000000000 in
        if \<not> (pm_clock_hz p * 20 \<le> convst_high_scaled \<and> convst_high_scaled \<le> pm_clock_hz p * 40) then False
        else
          let first_sclk_cycles = pm_convst_cycles p + pm_conversion_wait_cycles p + pm_sclk_half_div p in
          if first_sclk_cycles * 1000000000 < pm_clock_hz p * 1600 then False
          else if pm_clock_hz p > pm_sclk_half_div p * 80000000 then False
          else if acquisition_from_seventh p * 1000000000 < pm_clock_hz p * 240 then False
          else transaction_cycles p < pm_clock_hz p div pm_sample_rate_hz p)"

section \<open>The protocol wrapper\<close>

record protocol_result =
  pr_published :: bool
  pr_raw_sample :: "int option"
  pr_shifted_command :: "int option"
  pr_pins_idle :: bool

record adc_protocol =
  am_supported :: bool
  am_enabled :: bool
  am_busy :: bool
  am_configured_command :: "int option"
  am_sample_count :: int
  am_request_overrun_sticky :: bool
  am_protocol_error_sticky :: bool
  am_reentry_recovery_remaining :: int
  am_reentry_ready :: bool

definition AdcProtocolModel :: "bool \<Rightarrow> bool \<Rightarrow> adc_protocol" where
  "AdcProtocolModel is_supported is_enabled =
     \<lparr> am_supported = is_supported, am_enabled = is_enabled, am_busy = False, am_configured_command = None,
       am_sample_count = 0, am_request_overrun_sticky = False, am_protocol_error_sticky = False,
       am_reentry_recovery_remaining = 0, am_reentry_ready = False \<rparr>"

definition set_enabled :: "bool \<Rightarrow> adc_protocol \<Rightarrow> adc_protocol" where
  "set_enabled enabled s =
     (let entering = enabled \<and> \<not> am_enabled s; s = s\<lparr> am_enabled := enabled \<rparr> in
      if \<not> enabled
      then s\<lparr> am_busy := False, am_configured_command := None, am_reentry_recovery_remaining := 0,
              am_reentry_ready := False \<rparr>
      else if entering
      then s\<lparr> am_reentry_recovery_remaining := REENTRY_RECOVERY_CYCLES, am_reentry_ready := False \<rparr>
      else s)"

definition elapse_reentry_recovery :: "int \<Rightarrow> adc_protocol \<Rightarrow> adc_protocol result" where
  "elapse_reentry_recovery cycles s =
     rbind (require (cycles \<ge> 0) ''negative recovery interval'') (\<lambda>_.
     if \<not> am_enabled s \<or> am_reentry_ready s then Inr s
     else
       let left = max 0 (am_reentry_recovery_remaining s - cycles) in
       Inr (s\<lparr> am_reentry_recovery_remaining := left, am_reentry_ready := (left = 0) \<rparr>))"

definition request_while_busy :: "adc_protocol \<Rightarrow> adc_protocol" where
  "request_while_busy s =
     (if am_enabled s \<and> am_supported s \<and> am_busy s then s\<lparr> am_request_overrun_sticky := True \<rparr> else s)"

definition rejected :: "bool \<Rightarrow> protocol_result" where
  "rejected idle = \<lparr> pr_published = False, pr_raw_sample = None, pr_shifted_command = None, pr_pins_idle = idle \<rparr>"

definition transact :: "int \<Rightarrow> int \<Rightarrow> adc_protocol \<Rightarrow> (adc_protocol \<times> protocol_result) result" where
  "transact requested_command previous_result s =
     rbind (require (0 \<le> requested_command \<and> requested_command < push_bit COMMAND_BITS 1) ''command width mismatch'') (\<lambda>_.
     rbind (require (0 \<le> previous_result \<and> previous_result < push_bit ADC_BITS 1) ''sample width mismatch'') (\<lambda>_.
     if \<not> am_supported s
     then Inr (if am_enabled s then s\<lparr> am_protocol_error_sticky := True \<rparr> else s, rejected True)
     else if \<not> am_enabled s then Inr (s, rejected True)
     else
       let command_ok = command_supported requested_command;
           s = (if \<not> command_ok then s\<lparr> am_protocol_error_sticky := True \<rparr> else s) in
       if \<not> am_reentry_ready s then Inr (s\<lparr> am_request_overrun_sticky := True \<rparr>, rejected True)
       else if am_busy s then Inr (s\<lparr> am_request_overrun_sticky := True \<rparr>, rejected False)
       else if \<not> command_ok then Inr (s, rejected True)
       else
         let eligible = (am_configured_command s = Some requested_command);
             s = s\<lparr> am_configured_command := Some requested_command, am_busy := False \<rparr> in
         if \<not> eligible
         then Inr (s, (rejected True)\<lparr> pr_shifted_command := Some requested_command \<rparr>)
         else
           rbind (sat_inc64 (am_sample_count s)) (\<lambda>n.
           Inr (s\<lparr> am_sample_count := n \<rparr>,
                \<lparr> pr_published = True, pr_raw_sample = Some previous_result,
                  pr_shifted_command = Some requested_command, pr_pins_idle = True \<rparr>))))"

definition abort :: "adc_protocol \<Rightarrow> adc_protocol" where
  "abort s = s\<lparr> am_busy := False, am_configured_command := None,
     am_reentry_recovery_remaining := REENTRY_RECOVERY_CYCLES, am_reentry_ready := False \<rparr>"

definition illegal_state_fault :: "adc_protocol \<Rightarrow> adc_protocol result" where
  "illegal_state_fault s =
     rbind (require (am_enabled s \<and> am_supported s) ''illegal-state fault requires an active wrapper'') (\<lambda>_.
     Inr ((abort s)\<lparr> am_protocol_error_sticky := True \<rparr>))"

definition adc_clear_sticky :: "adc_protocol \<Rightarrow> adc_protocol" where
  "adc_clear_sticky s = s\<lparr> am_request_overrun_sticky := False, am_protocol_error_sticky := False \<rparr>"

section \<open>The source adapter\<close>

record adc_adapter =
  ad_pending :: "int option"
  ad_dropped_count :: int
  ad_overflow_sticky :: bool
  ad_samples_seen :: int
  ad_samples_admitted :: int
  ad_samples_accepted :: int

definition AdapterModel :: adc_adapter where
  "AdapterModel = \<lparr> ad_pending = None, ad_dropped_count = 0, ad_overflow_sticky = False, ad_samples_seen = 0,
     ad_samples_admitted = 0, ad_samples_accepted = 0 \<rparr>"

definition adapter_tick :: "bool \<Rightarrow> adc_adapter \<Rightarrow> (adc_adapter \<times> int option) result" where
  "adapter_tick core_ready s =
     (if ad_pending s = None \<or> \<not> core_ready then Inr (s, None)
      else
        rbind (wrap_inc64 (ad_samples_accepted s)) (\<lambda>n.
        Inr (s\<lparr> ad_pending := None, ad_samples_accepted := n \<rparr>, ad_pending s)))"

text \<open>\<^verbatim>\<open>submit\<close>; its first step, which emits the pending sample, is the one of \<^verbatim>\<open>tick\<close>.\<close>

definition adapter_submit :: "int \<Rightarrow> bool \<Rightarrow> bool \<Rightarrow> adc_adapter \<Rightarrow> (adc_adapter \<times> int option) result" where
  "adapter_submit raw enabled core_ready s =
     rbind (require (0 \<le> raw \<and> raw < push_bit ADC_BITS 1) ''adapter input width mismatch'') (\<lambda>_.
     rbind (wrap_inc64 (ad_samples_seen s)) (\<lambda>seen.
     let s = s\<lparr> ad_samples_seen := seen \<rparr> in
     rbind (if ad_pending s \<noteq> None \<and> core_ready
            then rbind (wrap_inc64 (ad_samples_accepted s)) (\<lambda>n.
                 Inr (s\<lparr> ad_pending := None, ad_samples_accepted := n \<rparr>, ad_pending s))
            else Inr (s, None)) (\<lambda>(s, emitted).
     if \<not> enabled \<or> ad_pending s \<noteq> None
     then
       rbind (sat_inc_width (ad_dropped_count s) DROP_COUNT_W) (\<lambda>n.
       Inr (s\<lparr> ad_dropped_count := n, ad_overflow_sticky := (ad_overflow_sticky s \<or> enabled) \<rparr>, emitted))
     else
       rbind (wrap_inc64 (ad_samples_admitted s)) (\<lambda>n.
       Inr (s\<lparr> ad_pending := Some (raw - push_bit (ADC_BITS - 1) 1), ad_samples_admitted := n \<rparr>, emitted)))))"

section \<open>Synchroniser, multiplexer and telemetry rate\<close>

fun shift_chain :: "nat \<Rightarrow> int \<Rightarrow> int list \<Rightarrow> int list" where
  "shift_chain 0 b chain = chain"
| "shift_chain (Suc n) b chain = shift_chain n b (b # butlast chain)"

definition synchronize_dout_bit :: "int \<Rightarrow> int \<Rightarrow> nat \<Rightarrow> int result" where
  "synchronize_dout_bit b stages stable_cycles =
     rbind (require (b = 0 \<or> b = 1) ''DOUT bit is not binary'') (\<lambda>_.
     rbind (require (stages \<ge> 2) ''DOUT synchronizer must contain at least two stages'') (\<lambda>_.
     Inr (last (shift_chain stable_cycles b (replicate (nat stages) (1 - b))))))"

definition mux_select :: "string \<Rightarrow> (string \<times> int option) list \<Rightarrow> (int option \<times> (string \<times> bool) list) result" where
  "mux_select mode values =
     rbind (require (map_of values mode \<noteq> None) ''unknown source mode'') (\<lambda>_.
     Inr (the (map_of values mode), map (\<lambda>(name, _). (name, name = mode)) values))"

definition telemetry_rate :: "string \<Rightarrow> int" where
  "telemetry_rate mode = (if mode = ''adc_live'' then ADC_SAMPLE_RATE_HZ else NON_ADC_SAMPLE_RATE_HZ)"

section \<open>Serial round trips\<close>

interpretation serial: serial_decoder decode_bits
proof
  fix acc c bits
  show "decode_bits acc (of_bool c # bits) = decode_bits (2 * acc + of_bool c) bits"
    using shift_in [of acc c] by (simp add: require_def del: push_bit_of_1)
qed simp

lemma bits_msb_first_eq:
  "0 < w \<Longrightarrow> 0 \<le> v \<Longrightarrow> v < 2 ^ w \<Longrightarrow> bits_msb_first v w = Inr (map (\<lambda>k. drop_bit k v AND 1) (rev [0..<w]))"
  by (simp add: bits_msb_first_def require_def push_bit_eq_mult)

interpretation msb: codec "\<lambda>v. 0 < w \<and> 0 \<le> v \<and> v < 2 ^ w" "\<lambda>v. bits_msb_first v w" decode_msb_first for w
proof
  fix v bits
  show "0 < w \<and> 0 \<le> v \<and> v < 2 ^ w \<Longrightarrow> \<exists>bs. bits_msb_first v w = Inr bs" by (simp add: bits_msb_first_eq)
  show "0 < w \<and> 0 \<le> v \<and> v < 2 ^ w \<Longrightarrow> bits_msb_first v w = Inr bits \<Longrightarrow> decode_msb_first bits = Inr v"
    using serial.dec_bits [of v w 0] by (auto simp: bits_msb_first_eq decode_msb_first_def)
qed

lemma channel_cases:
  assumes "0 \<le> channel" "channel < (8 :: int)"
  obtains "channel = 0" | "channel = 1" | "channel = 2" | "channel = 3" | "channel = 4" | "channel = 5" | "channel = 6"
    | "channel = 7"
  using assms by linarith

text \<open>The command formula and the table of commands agree, and every command passes the filter.\<close>

lemma channel_command:
  assumes "0 \<le> channel" "channel < 8"
  shows "ltc2308_command channel = Inr (CHANNEL_COMMANDS ! nat channel) \<and> command_supported (CHANNEL_COMMANDS ! nat channel) \<and>
    0 \<le> CHANNEL_COMMANDS ! nat channel \<and> CHANNEL_COMMANDS ! nat channel < 64"
  using assms
  by (cases rule: channel_cases)
     (simp_all add: ltc2308_command_def require_def CHANNEL_COMMANDS_def command_supported_def COMMAND_BITS_def)

text \<open>
  The filter admits exactly the eight single-ended, unipolar, awake commands, one for each channel.
\<close>

lemma command_supported_iff: "command_supported c \<longleftrightarrow> c \<in> set CHANNEL_COMMANDS"
proof -
  have "command_supported c \<longleftrightarrow> c \<in> set (filter command_supported (map int [0..<64]))"
    by (auto simp: command_supported_def COMMAND_BITS_def image_iff intro!: bexI [of _ "nat c"])
  also have "filter command_supported (map int [0..<64]) = [0x22, 0x26, 0x2A, 0x2E, 0x32, 0x36, 0x3A, 0x3E]"
    by code_simp
  finally show ?thesis by (auto simp: CHANNEL_COMMANDS_def)
qed

lemma decode_bits_append: "decode_bits acc (xs @ ys) = rbind (decode_bits acc xs) (\<lambda>v. decode_bits v ys)"
  by (induction xs arbitrary: acc) (simp_all add: rbind_assoc)

lemma decode_zeros: "decode_bits acc (replicate n 0) = Inr (acc * 2 ^ n)"
  by (induction n arbitrary: acc) (simp_all add: require_def push_bit_eq_mult mult.assoc)

text \<open>
  Channel commands are exact on the wire. Every channel has its own command, the one of the frozen table; the frame
  shifted out is the command followed by six zeros and decodes to it; the wrapper's filter admits these eight commands and no other.
\<close>

theorem channel_commands_exact:
  assumes "0 \<le> channel" "channel < 8"
  shows "\<exists>c bits. ltc2308_command channel = Inr c \<and> c = CHANNEL_COMMANDS ! nat channel \<and>
    din_frame c = Inr (bits @ replicate 6 0) \<and> decode_msb_first bits = Inr c \<and>
    decode_msb_first (bits @ replicate 6 0) = Inr (64 * c) \<and>
    (\<forall>c'. command_supported c' \<longleftrightarrow> (\<exists>ch. 0 \<le> ch \<and> ch < 8 \<and> ltc2308_command ch = Inr c'))"
proof -
  define c where "c = CHANNEL_COMMANDS ! nat channel"
  have c: "ltc2308_command channel = Inr c" "command_supported c" "0 \<le> c" "c < 64"
    using channel_command [OF assms] by (simp_all add: c_def)
  obtain bits where bits: "bits_msb_first c 6 = Inr bits" using msb.enc_total [of 6 c] c by auto
  then have dec: "decode_msb_first bits = Inr c" using msb.dec_enc [of 6 c bits] c by simp
  have "din_frame c = Inr (bits @ replicate 6 0)"
    using bits c(2) by (simp add: din_frame_def require_def COMMAND_BITS_def ADC_BITS_def)
  moreover have "decode_msb_first (bits @ replicate 6 0) = Inr (64 * c)"
    using dec by (simp add: decode_msb_first_def decode_bits_append decode_zeros)
  moreover have "command_supported c' \<longleftrightarrow> (\<exists>ch. 0 \<le> ch \<and> ch < 8 \<and> ltc2308_command ch = Inr c')" for c'
  proof
    assume "command_supported c'"
    then obtain i where "i < length CHANNEL_COMMANDS" "c' = CHANNEL_COMMANDS ! i"
      unfolding command_supported_iff in_set_conv_nth by blast
    then have "i < 8" "c' = CHANNEL_COMMANDS ! i" by (simp_all add: CHANNEL_COMMANDS_def)
    then show "\<exists>ch. 0 \<le> ch \<and> ch < 8 \<and> ltc2308_command ch = Inr c'"
      using channel_command [of "int i"] by (intro exI [of _ "int i"]) simp
  qed (use channel_command in fastforce)
  ultimately show ?thesis using c(1) dec c_def by blast
qed

section \<open>Calls on the wrapper\<close>

datatype adc_op = SetEnabled bool | Elapse int | RequestBusy | Transact int int | Abort | Fault | ClearSticky | HoldBusy bool

datatype adc_answer = Raised | Completed | Answer protocol_result

text \<open>
  One call, with what it returns. \<open>HoldBusy\<close> is the assignment to \<^verbatim>\<open>busy\<close> by which the script stands for a transaction in progress.
\<close>

definition adc_step :: "adc_protocol \<Rightarrow> adc_op \<Rightarrow> adc_protocol \<times> adc_answer" where
  "adc_step s op =
     (case op of
        SetEnabled b \<Rightarrow> (set_enabled b s, Completed)
      | Elapse k \<Rightarrow> (case elapse_reentry_recovery k s of Inl _ \<Rightarrow> (s, Raised) | Inr t \<Rightarrow> (t, Completed))
      | RequestBusy \<Rightarrow> (request_while_busy s, Completed)
      | Transact c v \<Rightarrow> (case transact c v s of Inl _ \<Rightarrow> (s, Raised) | Inr (t, r) \<Rightarrow> (t, Answer r))
      | Abort \<Rightarrow> (abort s, Completed)
      | Fault \<Rightarrow> (case illegal_state_fault s of Inl _ \<Rightarrow> (s, Raised) | Inr t \<Rightarrow> (t, Completed))
      | ClearSticky \<Rightarrow> (adc_clear_sticky s, Completed)
      | HoldBusy b \<Rightarrow> (s\<lparr> am_busy := b \<rparr>, Completed))"

text \<open>
  The specification: whether the wrapper is enabled, the cycles waited since it was last armed, the command the converter was
  last given, and how many samples were published.
\<close>

record adc_spec =
  sp_enabled :: bool
  sp_busy :: bool
  sp_waited :: int
  sp_last :: "int option"
  sp_published :: nat

definition adc_spec_init :: adc_spec where
  "adc_spec_init = \<lparr> sp_enabled = False, sp_busy = False, sp_waited = 0, sp_last = None, sp_published = 0 \<rparr>"

definition invalidate :: "adc_spec \<Rightarrow> adc_spec" where
  "invalidate t = t\<lparr> sp_busy := False, sp_waited := 0, sp_last := None \<rparr>"

definition spec_transact :: "bool \<Rightarrow> int \<Rightarrow> int \<Rightarrow> adc_spec \<Rightarrow> adc_spec \<times> adc_answer" where
  "spec_transact is_supported c v t =
     (if \<not> (0 \<le> c \<and> c < 64 \<and> 0 \<le> v \<and> v < 4096) then (t, Raised)
      else if \<not> (is_supported \<and> sp_enabled t \<and> 92 \<le> sp_waited t) then (t, Answer (rejected True))
      else if sp_busy t then (t, Answer (rejected False))
      else if c \<notin> set CHANNEL_COMMANDS then (t, Answer (rejected True))
      else if sp_last t = Some c
      then (t\<lparr> sp_published := sp_published t + 1 \<rparr>,
            Answer \<lparr> pr_published = True, pr_raw_sample = Some v, pr_shifted_command = Some c, pr_pins_idle = True \<rparr>)
      else (t\<lparr> sp_last := Some c \<rparr>, Answer ((rejected True)\<lparr> pr_shifted_command := Some c \<rparr>)))"

definition adc_spec_step :: "bool \<Rightarrow> adc_spec \<Rightarrow> adc_op \<Rightarrow> adc_spec \<times> adc_answer" where
  "adc_spec_step is_supported t op =
     (case op of
        SetEnabled b \<Rightarrow>
          (if \<not> b then (invalidate t)\<lparr> sp_enabled := False \<rparr>
           else if sp_enabled t then t else t\<lparr> sp_enabled := True, sp_waited := 0 \<rparr>, Completed)
      | Elapse k \<Rightarrow>
          if k < 0 then (t, Raised)
          else (if sp_enabled t then t\<lparr> sp_waited := sp_waited t + k \<rparr> else t, Completed)
      | RequestBusy \<Rightarrow> (t, Completed)
      | Transact c v \<Rightarrow> spec_transact is_supported c v t
      | Abort \<Rightarrow> (invalidate t, Completed)
      | Fault \<Rightarrow> if sp_enabled t \<and> is_supported then (invalidate t, Completed) else (t, Raised)
      | ClearSticky \<Rightarrow> (t, Completed)
      | HoldBusy b \<Rightarrow> (t\<lparr> sp_busy := b \<rparr>, Completed))"

definition adc_sim :: "bool \<Rightarrow> adc_protocol \<Rightarrow> adc_spec \<Rightarrow> bool" where
  "adc_sim is_supported s t \<longleftrightarrow>
     am_supported s = is_supported \<and> am_enabled s = sp_enabled t \<and> am_busy s = sp_busy t \<and>
     am_configured_command s = sp_last t \<and> am_sample_count s = min UINT64_MAX (int (sp_published t)) \<and> 0 \<le> sp_waited t \<and>
     (sp_enabled t \<longrightarrow>
        am_reentry_recovery_remaining s = max 0 (92 - sp_waited t) \<and> (am_reentry_ready s \<longleftrightarrow> 92 \<le> sp_waited t))"

lemma recovery_92: "REENTRY_RECOVERY_CYCLES = 92"
  by (simp add: adc_consts)

lemma sat_inc64_min: "sat_inc64 (min UINT64_MAX (int n)) = Inr (min UINT64_MAX (int (n + 1)))"
  by (auto simp: sat_inc64_def require_def UINT64_MAX_def min_def)

lemma transact_sim:
  assumes "adc_sim b s t"
  shows "snd (adc_step s (Transact c v)) = snd (spec_transact b c v t) \<and>
    adc_sim b (fst (adc_step s (Transact c v))) (fst (spec_transact b c v t))"
proof (cases "0 \<le> c \<and> c < 64 \<and> 0 \<le> v \<and> v < 4096")
  case False
  then show ?thesis
    using assms by (auto simp: adc_step_def transact_def spec_transact_def require_def COMMAND_BITS_def ADC_BITS_def)
next
  case True
  note widths = require_def COMMAND_BITS_def ADC_BITS_def
  show ?thesis
  proof (cases "b \<and> sp_enabled t \<and> 92 \<le> sp_waited t \<and> \<not> sp_busy t \<and> command_supported c")
    case adm: True
    then have st: "am_supported s" "am_enabled s" "am_reentry_ready s" "\<not> am_busy s" "am_configured_command s = sp_last t"
        "am_sample_count s = min UINT64_MAX (int (sp_published t))"
      using assms by (simp_all add: adc_sim_def)
    show ?thesis
      using assms adm st True
      by (simp add: adc_step_def transact_def spec_transact_def widths command_supported_iff [symmetric] sat_inc64_min Let_def)
         (simp add: adc_sim_def)
  next
    case False
    then show ?thesis
      using assms True
      by (auto simp: adc_step_def transact_def spec_transact_def widths command_supported_iff [symmetric] adc_sim_def Let_def)
  qed
qed

interpretation adc: simulation adc_step "adc_spec_step b" "adc_sim b" for b
proof
  fix s t op
  assume sim: "adc_sim b s t"
  have both: "snd (adc_step s op) = snd (adc_spec_step b t op) \<and> adc_sim b (fst (adc_step s op)) (fst (adc_spec_step b t op))"
  proof (cases op)
    case (Transact c v)
    with transact_sim [OF sim, of c v] show ?thesis by (simp add: adc_spec_step_def)
  qed (use sim in \<open>auto simp: adc_step_def adc_spec_step_def adc_sim_def set_enabled_def elapse_reentry_recovery_def
      request_while_busy_def abort_def illegal_state_fault_def adc_clear_sticky_def invalidate_def require_def recovery_92 Let_def\<close>)
  then show "snd (adc_step s op) = snd (adc_spec_step b t op)" by simp
  from both show "adc_sim b (fst (adc_step s op)) (fst (adc_spec_step b t op))" by simp
qed

lemma fresh_sim: "adc_sim b (AdcProtocolModel b False) adc_spec_init"
  by (simp add: adc_sim_def AdcProtocolModel_def adc_spec_init_def UINT64_MAX_def)

text \<open>
  C28: the protocol wrapper implements its specification. For every sequence of calls on a fresh wrapper, supported or not, every call
  answers as the specification does: nothing is shifted or published before 92 cycles have been waited since the wrapper was last
  enabled, aborted or faulted, a sample is published exactly when the converter was last given the same command with no such
  event since, and the sample counter is the number of published samples, saturated at \<open>2\<^sup>64 - 1\<close>.
\<close>

theorem adc_protocol_refines:
  fixes ops :: "adc_op list" and is_supported :: bool
  defines "c \<equiv> run_ops adc_step (AdcProtocolModel is_supported False) ops"
    and "a \<equiv> run_ops (adc_spec_step is_supported) adc_spec_init ops"
  shows "snd c = snd a \<and> am_configured_command (fst c) = sp_last (fst a) \<and>
    am_sample_count (fst c) = min UINT64_MAX (int (sp_published (fst a)))"
  using adc.run_sim [OF fresh_sim, of is_supported ops] by (simp add: c_def a_def adc_sim_def)

section \<open>The adapter conserves samples\<close>

datatype adapter_op = Submit int bool bool | Tick bool

definition adapter_step :: "adc_adapter \<Rightarrow> adapter_op \<Rightarrow> (adc_adapter \<times> int option) result" where
  "adapter_step s op =
     (case op of Submit raw enabled ready \<Rightarrow> adapter_submit raw enabled ready s | Tick ready \<Rightarrow> adapter_tick ready s)"

text \<open>The samples that entered and left, and the number of submissions, beside the adapter.\<close>

record adapter_log =
  al_ins :: "int list"
  al_outs :: "int list"
  al_seen :: nat

definition adapter_log_step :: "adc_adapter \<times> adapter_log \<Rightarrow> adapter_op \<Rightarrow> adc_adapter \<times> adapter_log" where
  "adapter_log_step p op =
     (case p of (s, l) \<Rightarrow>
        case adapter_step s op of
          Inl _ \<Rightarrow> (s, l)
        | Inr (s', emitted) \<Rightarrow>
            (s', l\<lparr> al_outs := al_outs l @ (case emitted of None \<Rightarrow> [] | Some v \<Rightarrow> [v]),
                   al_ins := al_ins l @
                     (case op of
                        Submit raw enabled ready \<Rightarrow> if enabled \<and> (ad_pending s = None \<or> ready) then [raw - 2048] else []
                      | Tick _ \<Rightarrow> []),
                   al_seen := al_seen l + (case op of Submit _ _ _ \<Rightarrow> 1 | Tick _ \<Rightarrow> 0) \<rparr>))"

definition adapter_inv :: "adc_adapter \<times> adapter_log \<Rightarrow> bool" where
  "adapter_inv p \<longleftrightarrow>
     (case p of (s, l) \<Rightarrow>
        al_outs l @ (case ad_pending s of None \<Rightarrow> [] | Some v \<Rightarrow> [v]) = al_ins l \<and>
        list_all (\<lambda>v. -2048 \<le> v \<and> v \<le> 2047) (al_ins l) \<and> length (al_ins l) \<le> al_seen l \<and>
        ad_samples_seen s = int (al_seen l) mod 2 ^ 64 \<and>
        ad_samples_admitted s = int (length (al_ins l)) mod 2 ^ 64 \<and>
        ad_samples_accepted s = int (length (al_outs l)) mod 2 ^ 64 \<and>
        ad_dropped_count s = min DROP_COUNT_MAX (int (al_seen l - length (al_ins l))))"

lemma wrap_inc64_mod: "wrap_inc64 (int n mod 18446744073709551616) = Inr (int (Suc n) mod 18446744073709551616)"
proof -
  have "0 \<le> int n mod 18446744073709551616" "int n mod 18446744073709551616 < 18446744073709551616" by simp_all
  then have "0 \<le> int n mod 18446744073709551616 \<and> int n mod 18446744073709551616 \<le> 18446744073709551615" by linarith
  moreover have "(int n mod 18446744073709551616 + 1) mod 18446744073709551616 = int (Suc n) mod 18446744073709551616"
    by (simp add: mod_simps add.commute)
  ultimately show ?thesis
    using and_mask64 [of "int n mod 18446744073709551616 + 1"] by (simp add: wrap_inc64_def require_def UINT64_MAX_def)
qed

lemma sat_inc_drop: "sat_inc_width (min DROP_COUNT_MAX (int n)) DROP_COUNT_W = Inr (min DROP_COUNT_MAX (int (Suc n)))"
  by (auto simp: sat_inc_width_def require_def DROP_COUNT_MAX_def DROP_COUNT_W_def min_def)

lemma adapter_step_inv:
  assumes "adapter_inv (s, l)"
  shows "adapter_inv (adapter_log_step (s, l) op)"
proof (cases op)
  case (Tick ready)
  show ?thesis
  proof (cases "ad_pending s")
    case None
    with assms Tick show ?thesis
      by (simp add: adapter_log_step_def adapter_step_def adapter_tick_def)
  next
    case (Some v)
    with assms have ins: "al_ins l = al_outs l @ [v]" and acc: "ad_samples_accepted s = int (length (al_outs l)) mod 18446744073709551616"
      by (auto simp: adapter_inv_def)
    show ?thesis
      using assms Tick Some ins
      by (cases ready) (auto simp: adapter_log_step_def adapter_step_def adapter_tick_def acc wrap_inc64_mod adapter_inv_def)
  qed
next
  case (Submit raw enabled ready)
  show ?thesis
  proof (cases "0 \<le> raw \<and> raw < 4096")
    case False
    with assms Submit show ?thesis
      by (auto simp: adapter_log_step_def adapter_step_def adapter_submit_def require_def ADC_BITS_def)
  next
    case raw: True
    have cnt: "ad_samples_accepted s = int (length (al_outs l)) mod 18446744073709551616"
        "ad_samples_seen s = int (al_seen l) mod 18446744073709551616"
        "ad_samples_admitted s = int (length (al_ins l)) mod 18446744073709551616"
        "ad_dropped_count s = min DROP_COUNT_MAX (int (al_seen l - length (al_ins l)))" "length (al_ins l) \<le> al_seen l"
      using assms by (simp_all add: adapter_inv_def)
    have full: "length (al_ins l) = Suc (length (al_outs l))" if "ad_pending s = Some v" for v
      using assms that by (simp add: adapter_inv_def) (metis length_append_singleton)
    have drop: "Suc (al_seen l) - length (al_ins l) = Suc (al_seen l - length (al_ins l))" using cnt(5) by simp
    show ?thesis
      using assms raw
      by (cases "ad_pending s"; cases ready; cases enabled)
         (auto simp: Submit adapter_log_step_def adapter_step_def adapter_submit_def require_def ADC_BITS_def cnt(1-4) wrap_inc64_mod
            sat_inc_drop drop full adapter_inv_def simp del: of_nat_Suc of_nat_diff)
  qed
qed

interpretation adapter: step_invariant adapter_log_step adapter_inv
proof
  fix p op
  assume "adapter_inv p"
  then show "adapter_inv (adapter_log_step p op)" using adapter_step_inv by (cases p) simp
qed

text \<open>
  The source adapter loses no sample silently. Over every sequence of submissions and ticks, the samples it emitted followed by the
  one it holds are exactly the admitted ones, centred and in order; the three lifetime counters are the numbers of submitted,
  admitted and emitted samples modulo \<open>2\<^sup>64\<close>, and the drop counter is the number of submissions not admitted, saturated at
  \<open>2\<^sup>32 - 1\<close>.
\<close>

theorem adapter_conserves: "adapter_inv (foldl adapter_log_step (AdapterModel, \<lparr> al_ins = [], al_outs = [], al_seen = 0 \<rparr>) ops)"
proof (rule adapter.run_inv)
  show "adapter_inv (AdapterModel, \<lparr> al_ins = [], al_outs = [], al_seen = 0 \<rparr>)"
    by (simp add: adapter_inv_def AdapterModel_def DROP_COUNT_MAX_def)
qed

section \<open>The synchroniser\<close>

lemma shift_chain_eq: "chain \<noteq> [] \<Longrightarrow> shift_chain n b chain = take (length chain) (replicate n b @ chain)"
proof (induction n arbitrary: chain)
  case (Suc n)
  then have "shift_chain (Suc n) b chain = take (length chain) (replicate n b @ b # butlast chain)"
    by (simp add: Suc.IH)
  moreover have "replicate n b @ b # butlast chain = replicate (Suc n) b @ butlast chain"
    by (simp add: replicate_app_Cons_same)
  moreover have "take (length chain) (replicate (Suc n) b @ butlast chain) = take (length chain) (replicate (Suc n) b @ chain)"
    using Suc.prems by (simp add: butlast_conv_take take_Cons' min_def)
  ultimately show ?case by simp
qed simp

text \<open>
  A bit that is stable for at least as many cycles as the chain has stages is captured, and with fewer cycles the stale
  value is still at the output.
\<close>

lemma last_take: "0 < k \<Longrightarrow> k \<le> length xs \<Longrightarrow> last (take k xs) = xs ! (k - 1)"
  by (subst last_conv_nth) auto

lemma synchronizer_latency:
  assumes "b = 0 \<or> b = 1" "2 \<le> stages"
  shows "synchronize_dout_bit b stages n = Inr (if int n \<ge> stages then b else 1 - b)"
proof -
  let ?k = "nat stages"
  have "last (take ?k (replicate n b @ replicate ?k (1 - b))) = (replicate n b @ replicate ?k (1 - b)) ! (?k - 1)"
    using assms by (intro last_take) auto
  also have "\<dots> = (if int n \<ge> stages then b else 1 - b)" using assms(2) by (auto simp: nth_append)
  finally show ?thesis
    using assms by (simp add: synchronize_dout_bit_def require_def shift_chain_eq del: take_append)
qed

section \<open>The script's checks\<close>

text \<open>The keyword overrides of the negative timing cases, as Python prints them.\<close>

definition negative_cases :: "(string \<times> int \<times> adc_params) list" where
  "negative_cases =
     [(''dout_sync_stages'', 1, default_params\<lparr> pm_dout_sync_stages := 1 \<rparr>),
      (''sclk_half_div'', 2, default_params\<lparr> pm_sclk_half_div := 2 \<rparr>),
      (''convst_cycles'', 0, default_params\<lparr> pm_convst_cycles := 0 \<rparr>),
      (''convst_cycles'', 3, default_params\<lparr> pm_convst_cycles := 3 \<rparr>),
      (''conversion_wait_cycles'', 1, default_params\<lparr> pm_conversion_wait_cycles := 1 \<rparr>),
      (''adc_bits'', 11, default_params\<lparr> pm_adc_bits := 11 \<rparr>),
      (''command_bits'', 5, default_params\<lparr> pm_command_bits := 5 \<rparr>),
      (''default_command'', 0x23, default_params\<lparr> pm_default_command := 0x23 \<rparr>),
      (''sample_rate_hz'', 10000000, default_params\<lparr> pm_sample_rate_hz := 10000000 \<rparr>)]"

definition requires :: "(bool \<times> string) list \<Rightarrow> unit result" where
  "requires conds = checks (map (\<lambda>(c, m). (c, Exn AssertionError m)) conds)"

definition check_timing :: "unit result" where
  "check_timing =
     (let acquisition_cycles = acquisition_from_seventh default_params; cycles = transaction_cycles default_params in
      requires
        ([(protocol_supported default_params, ''frozen LTC2308 timing is unsupported''),
          (FABRIC_CLOCK_HZ div (2 * SCLK_HALF_DIV) = SCLK_HZ, ''SCLK rate mismatch''),
          (CONVST_PULSE_CYCLES * FABRIC_PERIOD_NS = 40, ''CONVST pulse mismatch''),
          ((CONVST_PULSE_CYCLES + CONVERSION_WAIT_CYCLES + SCLK_HALF_DIV) * FABRIC_PERIOD_NS = 1840,
            ''CONVST-to-first-SCLK timing mismatch''),
          (acquisition_cycles = 122, ''seventh-rise acquisition cycle count mismatch''),
          (acquisition_cycles * FABRIC_PERIOD_NS = 2440, ''acquisition time mismatch''),
          (cycles = 334, ''transaction cycle count mismatch''),
          (cycles * FABRIC_PERIOD_NS = 6680, ''transaction time mismatch''),
          (REENTRY_RECOVERY_CYCLES = 92, ''re-entry recovery interval mismatch''),
          (REENTRY_RECOVERY_CYCLES * FABRIC_PERIOD_NS = 1840, ''re-entry recovery time mismatch''),
          (FABRIC_CLOCK_HZ div ADC_SAMPLE_RATE_HZ = 500, ''sample cadence mismatch''),
          (cycles < 500, ''transaction does not fit 100-kS/s cadence'')] @
         map (\<lambda>(name, v, p). (\<not> protocol_supported p, ''bad configuration did not fail closed: {'' @ [CHR 0x27] @ name @
            [CHR 0x27] @ '': '' @ py_str_int v @ ''}'')) negative_cases))"

definition check_channel :: "int \<times> int \<Rightarrow> unit result" where
  "check_channel ce =
     (case ce of (channel, expected) \<Rightarrow>
        let failed = (\<lambda>m. ''channel '' @ py_str_int channel @ m) in
        rbind (ltc2308_command channel) (\<lambda>command.
        rbind (require (command = expected) (failed '' command mismatch'')) (\<lambda>_.
        rbind (bits_msb_first command COMMAND_BITS) (\<lambda>bits.
        rbind (decode_msb_first bits) (\<lambda>decoded.
        rbind (requires
          [(decoded = command, failed '' serial round trip failed''), (bits ! 0 = 1, ''S/D is not single-ended''),
           (bits ! 4 = 1, ''UNI is not unipolar''), (bits ! 5 = 0, ''SLP is not awake'')]) (\<lambda>_.
        rbind (din_frame command) (\<lambda>frame.
        require (frame = bits @ replicate 6 0) (failed '' DIN frame mismatch''))))))))"

definition check_round_trip :: "int \<Rightarrow> unit result" where
  "check_round_trip raw =
     rbind (bits_msb_first raw ADC_BITS) (\<lambda>bits.
     rbind (decode_msb_first bits) (\<lambda>v. require (v = raw) ''result serial round trip failed''))"

definition check_commands_and_serial :: "unit result" where
  "check_commands_and_serial =
     rbind (rmapM check_channel (zip [0..int (length CHANNEL_COMMANDS) - 1] CHANNEL_COMMANDS)) (\<lambda>_.
     rbind (rmapM check_round_trip [0x000, 0x001, 0x5A5, 0x800, 0xFFE, 0xFFF]) (\<lambda>_. Inr ()))"

text \<open>A call whose answer is required to satisfy a condition.\<close>

definition expect :: "('s \<times> 'a) result \<Rightarrow> ('a \<Rightarrow> bool) \<Rightarrow> string \<Rightarrow> 's result" where
  "expect m ok message = rbind m (\<lambda>(s, a). rbind (require (ok a) message) (\<lambda>_. Inr s))"

definition check_active :: "int \<Rightarrow> int \<Rightarrow> unit result" where
  "check_active ch0 ch1 =
     (let silent = (\<lambda>r. \<not> pr_published r); m = set_enabled True (AdcProtocolModel True False) in
      rbind (expect (transact ch0 0x000 m) (\<lambda>r. \<not> pr_published r \<and> pr_pins_idle r) ''re-entry recovery emitted traffic'') (\<lambda>m.
      rbind (require (am_request_overrun_sticky m) ''recovery request did not set sticky fault'') (\<lambda>_.
      rbind (elapse_reentry_recovery (REENTRY_RECOVERY_CYCLES - 1) (adc_clear_sticky m)) (\<lambda>m.
      rbind (expect (transact ch0 0x001 m) silent ''request one cycle before recovery completion was admitted'') (\<lambda>m.
      rbind (elapse_reentry_recovery 1 (adc_clear_sticky m)) (\<lambda>m.
      rbind (expect (transact ch0 0x111 m) silent ''first old-configuration result was published'') (\<lambda>m.
      rbind (expect (transact ch0 0x222 m) (\<lambda>r. pr_published r \<and> pr_raw_sample r = Some 0x222)
        ''primed channel-0 result missing'') (\<lambda>m.
      rbind (expect (transact ch1 0x333 m) silent ''old channel-0 result was mislabeled as channel 1'') (\<lambda>m.
      rbind (expect (transact ch1 0x444 m) (\<lambda>r. pr_published r \<and> pr_raw_sample r = Some 0x444)
        ''primed channel-1 result missing'') (\<lambda>m.
      rbind (require (am_sample_count m = 2) ''published sample counter mismatch'') (\<lambda>_.
      rbind (expect (transact ch1 0x555 (abort m)) silent ''post-abort recovery admitted early'') (\<lambda>m.
      rbind (require (am_request_overrun_sticky m) ''post-abort recovery rejection was not sticky'') (\<lambda>_.
      rbind (elapse_reentry_recovery REENTRY_RECOVERY_CYCLES (adc_clear_sticky m)) (\<lambda>m.
      rbind (expect (transact ch1 0x556 m) silent ''post-abort result was not re-primed'') (\<lambda>m.
      rbind (expect (transact ch1 0x666 m) pr_published ''post-abort primed result missing'') (\<lambda>m.
      rbind (expect (transact ch1 0x777 (set_enabled False m)) silent ''disabled ADC published a result'') (\<lambda>m.
      rbind (elapse_reentry_recovery REENTRY_RECOVERY_CYCLES (set_enabled True m)) (\<lambda>m.
      let m = request_while_busy (m\<lparr> am_busy := True \<rparr>) in
      rbind (require (am_request_overrun_sticky m) ''busy request did not set overrun sticky'') (\<lambda>_.
      let lifetime = am_sample_count m; m = adc_clear_sticky m in
      rbind (require (\<not> am_request_overrun_sticky m) ''sticky clear failed'') (\<lambda>_.
      rbind (require (am_sample_count m = lifetime) ''sticky clear erased lifetime sample count'') (\<lambda>_.
      let m = m\<lparr> am_sample_count := UINT64_MAX - 1, am_busy := False, am_configured_command := Some ch1 \<rparr> in
      rbind (expect (transact ch1 0x123 m) pr_published ''counter saturation transaction failed'') (\<lambda>m.
      rbind (expect (transact ch1 0x124 m) pr_published ''saturated transaction failed'') (\<lambda>m.
      require (am_sample_count m = UINT64_MAX) ''sample count did not saturate'')))))))))))))))))))))))"

text \<open>A wrapper that is enabled and has waited for the recovery interval.\<close>

definition recovered :: "adc_protocol result" where
  "recovered = elapse_reentry_recovery REENTRY_RECOVERY_CYCLES (set_enabled True (AdcProtocolModel True False))"

definition check_faults :: "int \<Rightarrow> unit result" where
  "check_faults ch0 =
     (let quiet = (\<lambda>r. \<not> pr_published r \<and> pr_pins_idle r); silent = (\<lambda>r. \<not> pr_published r) in
      rbind (expect (transact ch0 0xABC (AdcProtocolModel False True)) quiet ''unsupported config emitted traffic/sample'') (\<lambda>unsupported.
      rbind (require (am_protocol_error_sticky unsupported) ''unsupported config did not set protocol fault'') (\<lambda>_.
      rbind recovered (\<lambda>invalid_command.
      rbind (expect (transact 0x23 0x111 invalid_command) quiet ''sleep command emitted traffic/sample'') (\<lambda>invalid_command.
      rbind (require (am_protocol_error_sticky invalid_command) ''invalid command did not set protocol fault'') (\<lambda>_.
      rbind (expect (transact 0x23 0x112 (set_enabled True (AdcProtocolModel True False))) quiet
        ''recovery invalid command emitted traffic'') (\<lambda>invalid_during_recovery.
      rbind (require (am_request_overrun_sticky invalid_during_recovery \<and> am_protocol_error_sticky invalid_during_recovery)
        ''recovery invalid command did not set both overrun and protocol faults'') (\<lambda>_.
      rbind recovered (\<lambda>invalid_while_busy.
      rbind (expect (transact 0x23 0x113 (invalid_while_busy\<lparr> am_busy := True \<rparr>)) silent
        ''busy invalid command published a sample'') (\<lambda>invalid_while_busy.
      rbind (require (am_request_overrun_sticky invalid_while_busy \<and> am_protocol_error_sticky invalid_while_busy)
        ''busy invalid command did not set both overrun and protocol faults'') (\<lambda>_.
      rbind recovered (\<lambda>illegal_state.
      rbind (illegal_state_fault (illegal_state\<lparr> am_configured_command := Some ch0, am_busy := True \<rparr>)) (\<lambda>illegal_state.
      rbind (requires
        [(am_protocol_error_sticky illegal_state, ''illegal state did not set protocol fault''),
         (\<not> am_reentry_ready illegal_state \<and> am_configured_command illegal_state = None,
          ''illegal state did not invalidate configuration and re-arm recovery'')]) (\<lambda>_.
      rbind (expect (transact ch0 0x114 illegal_state) silent ''illegal-state recovery admitted a request early'') (\<lambda>illegal_state.
      require (am_request_overrun_sticky illegal_state) ''illegal-state recovery rejection was not sticky'')))))))))))))))"

definition check_pipeline_and_faults :: "unit result" where
  "check_pipeline_and_faults =
     rbind (ltc2308_command 0) (\<lambda>ch0.
     rbind (ltc2308_command 1) (\<lambda>ch1.
     rbind (check_active ch0 ch1) (\<lambda>_.
     check_faults ch0)))"

definition check_cdc :: "unit result" where
  "check_cdc =
     rbind (require (SCLK_HALF_DIV \<ge> DOUT_SYNC_STAGES + 1) ''DOUT synchronizer has no half-cycle margin'') (\<lambda>_.
     rbind (bits_msb_first 0xA5B ADC_BITS) (\<lambda>pattern.
     rbind (rmapM (\<lambda>b. synchronize_dout_bit b DOUT_SYNC_STAGES (nat SCLK_HALF_DIV)) pattern) (\<lambda>captured.
     rbind (require (captured = pattern) ''synchronized DOUT pattern changed'') (\<lambda>_.
     rbind (decode_msb_first captured) (\<lambda>v.
     require (v = 0xA5B) ''synchronized sample assembly mismatch'')))))"

fun format_loop :: "int \<Rightarrow> int \<Rightarrow> int list \<Rightarrow> int result" where
  "format_loop previous cases [] = Inr cases"
| "format_loop previous cases (raw # raws) =
     (let centered = raw - 2048 in
      rbind (requires
        [(-2048 \<le> centered \<and> centered \<le> 2047, ''centered sample escaped signed 12-bit range''),
         (centered \<ge> previous, ''straight-binary centering is not monotonic''),
         (centered + 2048 = raw, ''centering is not reversible'')]) (\<lambda>_.
      format_loop centered (cases + 1) raws))"

definition check_sample_format :: "int result" where
  "check_sample_format =
     rbind (format_loop (-2048) 0 [0..push_bit ADC_BITS 1 - 1]) (\<lambda>cases.
     rbind (requires
       [(0 - 2048 = (-2048 :: int), ''zero-code endpoint mismatch''),
        (2048 - 2048 = (0 :: int), ''midscale zero mismatch''),
        (4095 - 2048 = (2047 :: int), ''full-scale endpoint mismatch'')]) (\<lambda>_.
     Inr cases))"

definition mux_values :: "(string \<times> int option) list" where
  "mux_values = [(''bram_replay'', Some 11), (''adc_live'', Some 22), (''audio_wrapper'', Some 33), (''diagnostic_source'', Some 44)]"

definition check_adapter_mux_and_metadata :: "unit result" where
  "check_adapter_mux_and_metadata =
     rbind (expect (adapter_submit 2048 True False AdapterModel) (\<lambda>r. r = None) ''first adapter submit emitted early'') (\<lambda>a.
     rbind (require (ad_pending a = Some 0) ''midscale did not center to zero'') (\<lambda>_.
     rbind (expect (adapter_submit 4095 True False a) (\<lambda>r. r = None) ''full adapter did not drop'') (\<lambda>a.
     rbind (require (ad_dropped_count a = 1 \<and> ad_overflow_sticky a) ''adapter drop fault mismatch'') (\<lambda>_.
     rbind (expect (adapter_tick True a) (\<lambda>r. r = Some 0) ''adapter pending sample mismatch'') (\<lambda>a.
     rbind (expect (adapter_submit 0 False True a) (\<lambda>r. r = None) ''disabled adapter emitted'') (\<lambda>a.
     rbind (adapter_submit 1 False True (a\<lparr> ad_dropped_count := DROP_COUNT_MAX - 1 \<rparr>)) (\<lambda>(a, _).
     rbind (adapter_submit 1 False True a) (\<lambda>(a, _).
     rbind (require (ad_dropped_count a = DROP_COUNT_MAX) ''32-bit adapter drop count did not saturate'') (\<lambda>_.
     rbind (mux_select ''adc_live'' mux_values) (\<lambda>(adc_value, ready).
     rbind (requires
       [(adc_value = Some 22, ''ADC mux value mismatch''),
        (ready = [(''bram_replay'', False), (''adc_live'', True), (''audio_wrapper'', False), (''diagnostic_source'', False)],
         ''ADC mux ready isolation mismatch'')]) (\<lambda>_.
     rbind (mux_select ''bram_replay'' mux_values) (\<lambda>(bram_value, ready).
     requires
       ([(bram_value = Some 11 \<and> map_of ready ''bram_replay'' = Some True \<and> map_of ready ''adc_live'' \<noteq> Some True,
          ''ADC path blocked BRAM replay''),
         (telemetry_rate ''adc_live'' = 100000, ''ADC telemetry rate mismatch'')] @
        map (\<lambda>mode. (telemetry_rate mode = 48000, ''non-ADC telemetry rate mismatch for '' @ mode))
          [''bram_replay'', ''audio_wrapper'', ''diagnostic_source''])))))))))))))"

definition adc_main :: "int result" where
  "adc_main =
     rbind check_timing (\<lambda>_.
     rbind check_commands_and_serial (\<lambda>_.
     rbind check_pipeline_and_faults (\<lambda>_.
     rbind check_cdc (\<lambda>_.
     rbind check_sample_format (\<lambda>sample_cases.
     rbind check_adapter_mux_and_metadata (\<lambda>_.
     Inr 0))))))"

lemma check_timing_passes: "check_timing = Inr ()"
  by (simp add: check_timing_def requires_def checks_Inr_iff negative_cases_def protocol_supported_def default_params_def
      transaction_cycles_def acquisition_from_seventh_def command_supported_def CHANNEL_COMMANDS_def adc_consts Let_def)

lemma check_commands_passes: "check_commands_and_serial = Inr ()"
  by code_simp

lemma check_pipeline_passes: "check_pipeline_and_faults = Inr ()"
  by code_simp

lemma check_cdc_passes: "check_cdc = Inr ()"
  by code_simp

lemma check_adapter_passes: "check_adapter_mux_and_metadata = Inr ()"
  by code_simp

lemma format_loop_spec:
  assumes "0 \<le> k" "k \<le> 4096" "p \<le> k - 2048"
  shows "format_loop p c [k..4095] = Inr (c + (4096 - k))"
  using assms
proof (induction "nat (4096 - k)" arbitrary: k c p)
  case 0
  then show ?case by simp
next
  case (Suc n)
  then have k: "k < 4096" by simp
  then have "[k..4095] = k # [k + 1..4095]" by (simp add: upto_rec1)
  moreover have "format_loop (k - 2048) (c + 1) [k + 1..4095] = Inr (c + 1 + (4096 - (k + 1)))"
    using Suc k by (intro Suc.hyps(1)) auto
  ultimately show ?case using Suc.prems k by (simp add: requires_def checks.simps Let_def)
qed

lemma check_sample_format_passes: "check_sample_format = Inr 4096"
  using format_loop_spec [of 0 "-2048" 0]
  by (simp add: check_sample_format_def requires_def checks.simps ADC_BITS_def del: upto_rec_numeral)

lemma adc_main_passes: "adc_main = Inr 0"
  unfolding adc_main_def check_timing_passes check_commands_passes check_pipeline_passes check_cdc_passes
    check_sample_format_passes check_adapter_passes rbind.simps ..

section \<open>Witnesses\<close>

theorem channel_commands_exact_witness: "ltc2308_command 5 = Inr 0x3A"
  using channel_commands_exact [of 5] by (auto simp: CHANNEL_COMMANDS_def)

end
