(* ===== verification/Flow_Control.thy ===== *)
theory Flow_Control
  imports Prelude
begin

text \<open>
  The cycle-level admission model of the input ring, \<^verbatim>\<open>scripts/sim/check_c0_flow_control_model.py\<close>. The frame
  length \<open>L\<close> and the hop \<open>H\<close>, which the script reads from a generated RTL package, the number of samples and the
  ready signal of the downstream consumer are arguments; the script's values are instances. The local variables of
  \<^verbatim>\<open>run_model\<close> are the fields of one record and one iteration of its loop is \<open>fc_step\<close>.
\<close>

record fc_params =
  fp_L :: int
  fp_H :: int
  fp_target :: int
  fp_gate :: bool
  fp_ready :: "nat \<Rightarrow> bool"

record fc_state =
  source_idx :: int
  ring_accept_pulse :: bool
  ring_accept_idx :: int
  ring_active :: bool
  ring_out_valid :: bool
  ring_out_last :: bool
  ring_offset :: int
  scheduler_valid :: bool
  scheduler_frame_idx :: int
  scheduler_trigger_idx :: int
  scheduler_accepted_samples :: int
  scheduler_generated_frames :: int
  due_frames :: int
  accepted_frame_requests :: int
  completed_frames :: int
  completed_frame_beats :: int
  dropped_frames :: int
  accepts_while_ring_reserved :: int
  awaiting_frame_request :: bool
  post_boundary_lookahead :: int
  max_post_boundary_lookahead :: int
  directed_frame_stall_cycles :: int
  triggers :: "int list"

definition fc_init :: fc_state where
  "fc_init =
     \<lparr> source_idx = 0, ring_accept_pulse = False, ring_accept_idx = 0, ring_active = False, ring_out_valid = False,
       ring_out_last = False, ring_offset = 0, scheduler_valid = False, scheduler_frame_idx = 0,
       scheduler_trigger_idx = 0, scheduler_accepted_samples = 0, scheduler_generated_frames = 0, due_frames = 0,
       accepted_frame_requests = 0, completed_frames = 0, completed_frame_beats = 0, dropped_frames = 0,
       accepts_while_ring_reserved = 0, awaiting_frame_request = False, post_boundary_lookahead = 0,
       max_post_boundary_lookahead = 0, directed_frame_stall_cycles = 0, triggers = [] \<rparr>"

definition downstream_ready :: "nat \<Rightarrow> bool" where
  "downstream_ready cycle \<longleftrightarrow> \<not> (180 \<le> cycle \<and> cycle < 900) \<and> cycle mod 5 \<noteq> 0"

text \<open>The combinational signals of one cycle.\<close>

definition ring_reserved :: "fc_state \<Rightarrow> bool" where
  "ring_reserved s \<longleftrightarrow> scheduler_valid s \<or> ring_active s \<or> ring_out_valid s"

definition source_accept :: "fc_params \<Rightarrow> fc_state \<Rightarrow> bool" where
  "source_accept p s \<longleftrightarrow> source_idx s < fp_target p \<and> (if fp_gate p then \<not> ring_reserved s else True)"

definition frame_req_ready :: "fc_state \<Rightarrow> bool" where
  "frame_req_ready s \<longleftrightarrow> \<not> ring_active s \<and> \<not> ring_out_valid s"

definition frame_req_accept :: "fc_state \<Rightarrow> bool" where
  "frame_req_accept s \<longleftrightarrow> scheduler_valid s \<and> frame_req_ready s"

definition frame_sample_accept :: "bool \<Rightarrow> fc_state \<Rightarrow> bool" where
  "frame_sample_accept ready s \<longleftrightarrow> ring_out_valid s \<and> ready"

definition load_next_beat :: "bool \<Rightarrow> fc_state \<Rightarrow> bool" where
  "load_next_beat ready s \<longleftrightarrow> ring_active s \<and> (\<not> ring_out_valid s \<or> ready)"

definition frame_due :: "fc_params \<Rightarrow> fc_state \<Rightarrow> bool" where
  "frame_due p s \<longleftrightarrow> ring_accept_pulse s \<and> (scheduler_accepted_samples s + 1) mod fp_H p = 0"

definition fc_step :: "fc_params \<Rightarrow> nat \<Rightarrow> fc_state \<Rightarrow> fc_state" where
  "fc_step p cycle s =
     (let ready = fp_ready p cycle;
          accept = source_accept p s; req = frame_req_accept s; beat = frame_sample_accept ready s;
          load = load_next_beat ready s; due = frame_due p s;
          boundary = (accept \<and> (source_idx s + 1) mod fp_H p = 0);
          lookahead = (accept \<and> \<not> boundary \<and> awaiting_frame_request s);
          post = (if boundary then 0 else if lookahead then post_boundary_lookahead s + 1 else post_boundary_lookahead s);
          drop = (due \<and> scheduler_valid s \<and> \<not> frame_req_ready s);
          gen = (due \<and> \<not> drop);
          last_beat = (ring_offset s = fp_L p - 1) in
      \<lparr> source_idx = (if accept then source_idx s + 1 else source_idx s),
        ring_accept_pulse = accept,
        ring_accept_idx = (if accept then source_idx s else ring_accept_idx s),
        ring_active = (if load \<and> last_beat then False else if req then True else ring_active s),
        ring_out_valid = (if load then True else if beat then False else ring_out_valid s),
        ring_out_last = (if load then last_beat else if beat then False else ring_out_last s),
        ring_offset = (if load then (if last_beat then 0 else ring_offset s + 1) else if req then 0 else ring_offset s),
        scheduler_valid = (if gen then True else if req then False else scheduler_valid s),
        scheduler_frame_idx = (if gen then scheduler_generated_frames s else scheduler_frame_idx s),
        scheduler_trigger_idx = (if gen then ring_accept_idx s else scheduler_trigger_idx s),
        scheduler_accepted_samples =
          (if ring_accept_pulse s then scheduler_accepted_samples s + 1 else scheduler_accepted_samples s),
        scheduler_generated_frames =
          (if gen then scheduler_generated_frames s + 1 else scheduler_generated_frames s),
        due_frames = (if due then due_frames s + 1 else due_frames s),
        accepted_frame_requests = (if req then accepted_frame_requests s + 1 else accepted_frame_requests s),
        completed_frames = (if beat \<and> ring_out_last s then completed_frames s + 1 else completed_frames s),
        completed_frame_beats = (if beat then completed_frame_beats s + 1 else completed_frame_beats s),
        dropped_frames = (if drop then dropped_frames s + 1 else dropped_frames s),
        accepts_while_ring_reserved =
          (if accept \<and> ring_reserved s then accepts_while_ring_reserved s + 1 else accepts_while_ring_reserved s),
        awaiting_frame_request = (if req then False else if boundary then True else awaiting_frame_request s),
        post_boundary_lookahead = post,
        max_post_boundary_lookahead =
          (if lookahead then max (max_post_boundary_lookahead s) post else max_post_boundary_lookahead s),
        directed_frame_stall_cycles =
          (if 180 \<le> cycle \<and> cycle < 900 \<and> ring_out_valid s \<and> \<not> ready
           then directed_frame_stall_cycles s + 1 else directed_frame_stall_cycles s),
        triggers = (if req then triggers s @ [scheduler_trigger_idx s] else triggers s) \<rparr>)"

definition drained :: "fc_params \<Rightarrow> fc_state \<Rightarrow> bool" where
  "drained p s \<longleftrightarrow> source_idx s = fp_target p \<and> \<not> ring_accept_pulse s \<and> \<not> scheduler_valid s \<and>
     \<not> ring_active s \<and> \<not> ring_out_valid s"

text \<open>
  The loop: the number of remaining cycles of the watchdog and the cycle counter; the final state is paired with the
  number of cycles.
\<close>

fun fc_loop :: "fc_params \<Rightarrow> nat \<Rightarrow> nat \<Rightarrow> fc_state \<Rightarrow> (fc_state \<times> nat) result" where
  "fc_loop p 0 cycle s = Inl (Exn RuntimeError ''C0 flow-control model watchdog expired'')"
| "fc_loop p (Suc n) cycle s =
     (let t = fc_step p cycle s in if drained p t then Inr (t, cycle + 1) else fc_loop p n (cycle + 1) t)"

definition MAX_CYCLES :: nat where
  "MAX_CYCLES = 20000"

definition run_model :: "fc_params \<Rightarrow> (fc_state \<times> nat) result" where
  "run_model p = fc_loop p MAX_CYCLES 0 fc_init"

section \<open>Safety of the conservative gate\<close>

definition fc_ok :: "fc_params \<Rightarrow> bool" where
  "fc_ok p \<longleftrightarrow> 2 \<le> fp_H p \<and> 1 \<le> fp_L p \<and> 0 \<le> fp_target p \<and> fp_gate p"

text \<open>The source, the scheduler and the frame counters.\<close>

definition sched_inv :: "fc_params \<Rightarrow> fc_state \<Rightarrow> bool" where
  "sched_inv p s \<longleftrightarrow>
     0 \<le> source_idx s \<and> source_idx s \<le> fp_target p \<and> 0 \<le> scheduler_accepted_samples s \<and>
     scheduler_accepted_samples s + of_bool (ring_accept_pulse s) = source_idx s \<and>
     (ring_accept_pulse s \<longrightarrow> ring_accept_idx s = scheduler_accepted_samples s) \<and>
     scheduler_generated_frames s = scheduler_accepted_samples s div fp_H p \<and>
     due_frames s = scheduler_generated_frames s \<and> dropped_frames s = 0 \<and> accepts_while_ring_reserved s = 0 \<and>
     accepted_frame_requests s + of_bool (scheduler_valid s) = scheduler_generated_frames s \<and>
     (ring_reserved s \<and> ring_accept_pulse s \<longrightarrow> scheduler_valid s \<and> scheduler_accepted_samples s mod fp_H p = 0)"

text \<open>The trigger index of every request: the last sample of its hop.\<close>

definition trig_inv :: "fc_params \<Rightarrow> fc_state \<Rightarrow> bool" where
  "trig_inv p s \<longleftrightarrow> 0 \<le> accepted_frame_requests s \<and>
     (scheduler_valid s \<longrightarrow> scheduler_trigger_idx s = (accepted_frame_requests s + 1) * fp_H p - 1) \<and>
     triggers s = map (\<lambda>k. (k + 1) * fp_H p - 1) [0..accepted_frame_requests s - 1]"

text \<open>The ring that plays out one frame.\<close>

definition play_inv :: "fc_params \<Rightarrow> fc_state \<Rightarrow> bool" where
  "play_inv p s \<longleftrightarrow>
     0 \<le> ring_offset s \<and> ring_offset s < fp_L p \<and> (\<not> ring_active s \<longrightarrow> ring_offset s = 0) \<and>
     (ring_active s \<longrightarrow> ring_out_valid s = (0 < ring_offset s)) \<and>
     ring_out_last s = (ring_out_valid s \<and> \<not> ring_active s) \<and>
     completed_frames s + of_bool (ring_active s \<or> ring_out_valid s) = accepted_frame_requests s \<and>
     completed_frame_beats s + (if ring_active s then fp_L p - ring_offset s else 0) + of_bool (ring_out_valid s) =
       accepted_frame_requests s * fp_L p"

text \<open>The look-ahead after a frame boundary.\<close>

definition look_inv :: "fc_params \<Rightarrow> fc_state \<Rightarrow> bool" where
  "look_inv p s \<longleftrightarrow>
     0 \<le> max_post_boundary_lookahead s \<and> max_post_boundary_lookahead s \<le> 1 \<and>
     (frame_due p s \<longrightarrow> awaiting_frame_request s) \<and>
     (awaiting_frame_request s \<longrightarrow>
        (frame_due p s \<and> \<not> ring_reserved s \<and> post_boundary_lookahead s = 0) \<or> scheduler_valid s) \<and>
     (0 < scheduler_generated_frames s \<and> fp_H p < fp_target p \<longrightarrow> max_post_boundary_lookahead s = 1)"

lemma not_due_reserved:
  assumes "fc_ok p" "sched_inv p s" "ring_reserved s"
  shows "\<not> frame_due p s"
proof
  assume due: "frame_due p s"
  then have "scheduler_accepted_samples s mod fp_H p = 0" using assms(2,3) by (auto simp: sched_inv_def frame_due_def)
  then have "(scheduler_accepted_samples s + 1) mod fp_H p = 1 mod fp_H p" by (metis add_0 mod_add_left_eq)
  with due assms(1) show False by (auto simp: frame_due_def fc_ok_def)
qed

text \<open>A cycle in which the ring is reserved: no sample is accepted and no frame falls due.\<close>

lemma reserved_signals:
  assumes "fc_ok p" "sched_inv p s" "ring_reserved s"
  shows "\<not> source_accept p s" "\<not> frame_due p s"
  using assms not_due_reserved by (auto simp: source_accept_def fc_ok_def)

text \<open>A cycle in which it is free: the ring does nothing.\<close>

lemma free_signals:
  assumes "\<not> ring_reserved s"
  shows "\<not> frame_req_accept s" "\<not> frame_sample_accept r s" "\<not> load_next_beat r s" "\<not> scheduler_valid s"
    "\<not> ring_active s" "\<not> ring_out_valid s"
  using assms by (auto simp: ring_reserved_def frame_req_accept_def frame_sample_accept_def load_next_beat_def)

lemma div_next: "0 < h \<Longrightarrow> 0 \<le> a \<Longrightarrow> (a + 1) div h = (if (a + 1) mod h = 0 then a div h + 1 else (a :: int) div h)"
proof -
  assume h: "0 < h" "0 \<le> a"
  define q r where "q = a div h" and "r = a mod h"
  have a: "a = h * q + r" "0 \<le> r" "r < h" using h by (simp_all add: q_def r_def)
  show ?thesis
  proof (cases "r + 1 = h")
    case True
    then have "a + 1 = h * (q + 1)" using a(1) by (simp add: algebra_simps)
    then show ?thesis using h by (simp add: q_def)
  next
    case False
    then have "(a + 1) div h = q" "(a + 1) mod h = r + 1" using a h
      by (auto intro: int_div_pos_eq int_mod_pos_eq simp: algebra_simps)
    then show ?thesis using a(2) by (simp add: q_def)
  qed
qed

lemma sched_inv_reserved:
  assumes "fc_ok p" "sched_inv p s" "ring_reserved s"
  shows "sched_inv p (fc_step p c s)"
proof -
  note sig = reserved_signals [OF assms]
  have pos: "0 < fp_H p" using assms(1) by (simp add: fc_ok_def)
  have gen: "source_idx s div fp_H p = scheduler_accepted_samples s div fp_H p"
    using sig(2) assms(2) div_next [OF pos, of "scheduler_accepted_samples s"]
    by (cases "ring_accept_pulse s") (auto simp: sched_inv_def frame_due_def)
  from sig gen assms(2) show ?thesis
    by (cases "ring_accept_pulse s"; cases "frame_req_accept s")
      (auto simp: sched_inv_def fc_step_def Let_def frame_req_accept_def)
qed

lemma sched_inv_free:
  assumes "fc_ok p" "sched_inv p s" "\<not> ring_reserved s"
  shows "sched_inv p (fc_step p c s)"
proof -
  note sig = free_signals [OF assms(3)]
  have pos: "0 < fp_H p" using assms(1) by (simp add: fc_ok_def)
  have n: "0 \<le> scheduler_accepted_samples s" using assms(2) by (simp add: sched_inv_def)
  have acc: "source_accept p s = (source_idx s < fp_target p)" using assms by (simp add: source_accept_def)
  show ?thesis
  proof (cases "frame_due p s")
    case True
    then have pulse: "ring_accept_pulse s" and m: "(scheduler_accepted_samples s + 1) mod fp_H p = 0"
      by (simp_all add: frame_due_def)
    have "(scheduler_accepted_samples s + 1) div fp_H p * fp_H p = scheduler_accepted_samples s + 1"
      using m by (metis add.right_neutral div_mult_mod_eq)
    then show ?thesis
      using True sig pulse m n acc assms(2,3) div_next [OF pos n]
      by (simp add: sched_inv_def fc_step_def Let_def)
  next
    case False
    have "(if ring_accept_pulse s then scheduler_accepted_samples s + 1 else scheduler_accepted_samples s) div fp_H p =
        scheduler_accepted_samples s div fp_H p"
      using False div_next [OF pos n] by (auto simp: frame_due_def)
    then show ?thesis
      using False sig n acc assms(2,3)
      by (auto simp: sched_inv_def fc_step_def Let_def ring_reserved_def)
  qed
qed

lemma sched_inv_step: "fc_ok p \<Longrightarrow> sched_inv p s \<Longrightarrow> sched_inv p (fc_step p c s)"
  using sched_inv_reserved sched_inv_free by blast

lemma trig_inv_step:
  assumes "fc_ok p" "sched_inv p s" "trig_inv p s"
  shows "trig_inv p (fc_step p c s)"
proof (cases "ring_reserved s")
  case True
  have "[0..accepted_frame_requests s] = [0..accepted_frame_requests s - 1] @ [accepted_frame_requests s]"
    using assms(3) by (intro upto_rec2) (simp add: trig_inv_def)
  with reserved_signals [OF assms(1,2) True] assms(3) show ?thesis
    by (cases "frame_req_accept s") (simp_all add: trig_inv_def fc_step_def Let_def frame_req_accept_def)
next
  case False
  note sig = free_signals [OF False]
  have "ring_accept_idx s = (accepted_frame_requests s + 1) * fp_H p - 1" if due: "frame_due p s"
  proof -
    let ?a = "scheduler_accepted_samples s"
    have pulse: "ring_accept_pulse s" and m: "(?a + 1) mod fp_H p = 0" using due by (simp_all add: frame_due_def)
    have "(?a + 1) div fp_H p * fp_H p = ?a + 1" using m by (metis add.right_neutral div_mult_mod_eq)
    moreover have "(?a + 1) div fp_H p = ?a div fp_H p + 1"
      using div_next [of "fp_H p" ?a] m assms(1,2) by (simp add: fc_ok_def sched_inv_def)
    ultimately show ?thesis using pulse sig(4) assms(2) by (simp add: sched_inv_def)
  qed
  with sig assms(3) show ?thesis by (auto simp: trig_inv_def fc_step_def Let_def)
qed

lemma play_inv_step:
  assumes "fc_ok p" "play_inv p s"
  shows "play_inv p (fc_step p c s)"
proof (cases "ring_active s")
  case True
  show ?thesis
  proof (cases "load_next_beat (fp_ready p c) s")
    case load: True
    with True assms show ?thesis
      by (cases "ring_offset s = fp_L p - 1"; cases "ring_out_valid s")
        (auto simp: play_inv_def fc_step_def Let_def fc_ok_def frame_req_accept_def frame_req_ready_def
          frame_sample_accept_def load_next_beat_def algebra_simps)
  next
    case False
    with True assms show ?thesis
      by (auto simp: play_inv_def fc_step_def Let_def frame_req_accept_def frame_req_ready_def frame_sample_accept_def load_next_beat_def)
  qed
next
  case False
  with False assms show ?thesis
    by (cases "ring_out_valid s"; cases "scheduler_valid s"; cases "fp_ready p c")
      (auto simp: play_inv_def fc_step_def Let_def fc_ok_def frame_req_accept_def frame_req_ready_def
        frame_sample_accept_def load_next_beat_def algebra_simps)
qed

lemma boundary_not_due:
  assumes "fc_ok p" "sched_inv p s" "frame_due p s"
  shows "(source_idx s + 1) mod fp_H p \<noteq> 0"
proof -
  have "source_idx s mod fp_H p = 0" using assms(2,3) by (auto simp: sched_inv_def frame_due_def)
  then have "(source_idx s + 1) mod fp_H p = 1 mod fp_H p" by (metis add_0 mod_add_left_eq)
  with assms(1) show ?thesis by (simp add: fc_ok_def)
qed

lemma look_inv_step:
  assumes "fc_ok p" "sched_inv p s" "look_inv p s"
  shows "look_inv p (fc_step p c s)"
proof (cases "ring_reserved s")
  case True
  from reserved_signals [OF assms(1,2) this] assms(3) show ?thesis
    by (auto simp: look_inv_def fc_step_def Let_def frame_due_def)
next
  case False
  note sig = free_signals [OF False]
  let ?t = "fc_step p c s"
  have acc: "source_accept p s \<longleftrightarrow> source_idx s < fp_target p" using assms(1) False by (simp add: source_accept_def)
  have samples: "scheduler_accepted_samples ?t = source_idx s"
    using assms(2) by (cases "ring_accept_pulse s") (simp_all add: sched_inv_def fc_step_def Let_def)
  have due': "frame_due p ?t \<longleftrightarrow> source_accept p s \<and> (source_idx s + 1) mod fp_H p = 0"
    unfolding frame_due_def samples by (simp add: fc_step_def Let_def)
  have res': "ring_reserved ?t = frame_due p s"
    using sig by (auto simp: ring_reserved_def fc_step_def Let_def)
  have valid': "scheduler_valid ?t = frame_due p s" using sig by (simp add: fc_step_def Let_def)
  have wait: "awaiting_frame_request s = frame_due p s" "frame_due p s \<Longrightarrow> post_boundary_lookahead s = 0"
    using assms(3) sig(4) by (auto simp: look_inv_def)
  have first: "source_accept p s" if "frame_due p s" "scheduler_generated_frames s = 0" "fp_H p < fp_target p"
  proof -
    have a: "scheduler_accepted_samples s + 1 = source_idx s" "0 \<le> scheduler_accepted_samples s"
      "scheduler_accepted_samples s div fp_H p = 0"
      using that assms(2) by (auto simp: sched_inv_def frame_due_def)
    moreover have "(scheduler_accepted_samples s + 1) mod fp_H p = 0" using that by (simp add: frame_due_def)
    moreover have "scheduler_accepted_samples s < fp_H p"
      using a(2,3) assms(1) by (auto simp: fc_ok_def zdiv_eq_0_iff)
    ultimately have "source_idx s = fp_H p" using assms(1) zmod_trivial_iff [of "source_idx s" "fp_H p"] by (cases "source_idx s < fp_H p") auto
    then show ?thesis using that(3) acc by simp
  qed
  note nb = boundary_not_due [OF assms(1,2)]
  have max': "max_post_boundary_lookahead ?t = (if source_accept p s \<and> frame_due p s then 1 else max_post_boundary_lookahead s)"
    using wait nb assms(3) by (auto simp: fc_step_def Let_def look_inv_def)
  have gen': "scheduler_generated_frames ?t = scheduler_generated_frames s + of_bool (frame_due p s)"
    using sig by (simp add: fc_step_def Let_def)
  have wait': "awaiting_frame_request ?t \<longleftrightarrow> frame_due p ?t \<or> frame_due p s"
  proof -
    have "awaiting_frame_request ?t = (source_accept p s \<and> (source_idx s + 1) mod fp_H p = 0 \<or> awaiting_frame_request s)"
      using sig by (auto simp: fc_step_def Let_def)
    then show ?thesis using wait(1) due' by simp
  qed
  have post': "frame_due p ?t \<Longrightarrow> post_boundary_lookahead ?t = 0"
    unfolding due' by (simp add: fc_step_def Let_def)
  have "0 \<le> scheduler_generated_frames s"
    using assms(1,2) by (simp add: sched_inv_def fc_ok_def pos_imp_zdiv_nonneg_iff)
  then show ?thesis
    using max' gen' wait' post' res' valid' first nb due' assms(3) unfolding look_inv_def by (auto split: if_splits)
qed

definition fc_inv :: "fc_params \<Rightarrow> fc_state \<Rightarrow> bool" where
  "fc_inv p s \<longleftrightarrow> sched_inv p s \<and> trig_inv p s \<and> play_inv p s \<and> look_inv p s"

lemma fc_inv_step: "fc_ok p \<Longrightarrow> fc_inv p s \<Longrightarrow> fc_inv p (fc_step p c s)"
  by (simp add: fc_inv_def sched_inv_step trig_inv_step play_inv_step look_inv_step)

lemma fc_inv_init: "fc_ok p \<Longrightarrow> fc_inv p fc_init"
  by (simp add: fc_inv_def sched_inv_def trig_inv_def play_inv_def look_inv_def fc_init_def fc_ok_def frame_due_def
      ring_reserved_def)

text \<open>The state after each cycle, whatever the consumer does.\<close>

fun fc_trace :: "fc_params \<Rightarrow> nat \<Rightarrow> fc_state" where
  "fc_trace p 0 = fc_init"
| "fc_trace p (Suc n) = fc_step p n (fc_trace p n)"

lemma fc_trace_inv: "fc_ok p \<Longrightarrow> fc_inv p (fc_trace p n)"
  by (induction n) (simp_all add: fc_inv_init fc_inv_step)

text \<open>
  C9: The conservative admission gate is safe in every cycle. For every frame length, every hop of at least two, every
  stream length and every behaviour of the consumer, no frame request is ever dropped, no sample is accepted while the
  ring is reserved, frames fall due exactly once per hop of processed samples, every request carries the index of
  the last sample of its hop, at most one sample is accepted past a frame boundary, and the beats delivered are those of
  the completed frames plus a part of the current one.
\<close>

theorem gate_safe:
  fixes p n
  assumes "fc_ok p"
  defines "s \<equiv> fc_trace p n"
  shows "dropped_frames s = 0 \<and> accepts_while_ring_reserved s = 0 \<and>
    due_frames s = scheduler_accepted_samples s div fp_H p \<and>
    triggers s = map (\<lambda>k. (k + 1) * fp_H p - 1) [0..accepted_frame_requests s - 1] \<and>
    accepted_frame_requests s \<le> due_frames s \<and> due_frames s \<le> accepted_frame_requests s + 1 \<and>
    max_post_boundary_lookahead s \<le> 1 \<and>
    completed_frames s * fp_L p \<le> completed_frame_beats s \<and> completed_frame_beats s \<le> accepted_frame_requests s * fp_L p"
proof -
  have inv: "sched_inv p s" "trig_inv p s" "play_inv p s" "look_inv p s"
    using fc_trace_inv [OF assms(1), of n] by (simp_all add: fc_inv_def s_def)
  define left_over where "left_over = (if ring_active s then fp_L p - ring_offset s else 0) + of_bool (ring_out_valid s)"
  have sum: "completed_frame_beats s + left_over = accepted_frame_requests s * fp_L p"
    using inv(3) by (simp add: play_inv_def left_over_def)
  have pos: "0 \<le> left_over" using inv(3) by (auto simp: play_inv_def left_over_def)
  then have "completed_frame_beats s \<le> accepted_frame_requests s * fp_L p" using sum by linarith
  moreover have "completed_frames s * fp_L p \<le> completed_frame_beats s"
  proof (cases "ring_active s \<or> ring_out_valid s")
    case True
    then have "accepted_frame_requests s = completed_frames s + 1" using inv(3) by (simp add: play_inv_def)
    then have "accepted_frame_requests s * fp_L p = completed_frames s * fp_L p + fp_L p" by (simp add: algebra_simps)
    moreover have "left_over \<le> fp_L p"
      using True inv(3) assms(1) by (auto simp: play_inv_def left_over_def fc_ok_def)
    ultimately show ?thesis using sum by linarith
  next
    case False
    then have "left_over = 0" "completed_frames s = accepted_frame_requests s"
      using inv(3) by (simp_all add: left_over_def play_inv_def)
    then show ?thesis using sum by simp
  qed
  moreover have "dropped_frames s = 0" "accepts_while_ring_reserved s = 0" "due_frames s = scheduler_accepted_samples s div fp_H p"
      "accepted_frame_requests s + of_bool (scheduler_valid s) = due_frames s"
    using inv(1) by (simp_all add: sched_inv_def)
  moreover from this(4) have "accepted_frame_requests s \<le> due_frames s" "due_frames s \<le> accepted_frame_requests s + 1"
    by (cases "scheduler_valid s", simp_all)+
  moreover have "triggers s = map (\<lambda>k. (k + 1) * fp_H p - 1) [0..accepted_frame_requests s - 1]"
    using inv(2) by (simp add: trig_inv_def)
  moreover have "max_post_boundary_lookahead s \<le> 1" using inv(4) by (simp add: look_inv_def)
  ultimately show ?thesis by blast
qed

section \<open>Every run drains\<close>

definition work :: "fc_params \<Rightarrow> fc_state \<Rightarrow> int" where
  "work p s =
     2 * (fp_target p - source_idx s) + of_bool (ring_accept_pulse s) +
     (fp_target p div fp_H p - scheduler_generated_frames s) * (fp_L p + 3) +
     (if scheduler_valid s then fp_L p + 2 else 0) + (if ring_active s then fp_L p - ring_offset s else 0) +
     of_bool (ring_active s \<or> ring_out_valid s)"

lemma work_nonneg:
  assumes "fc_ok p" "fc_inv p s"
  shows "0 \<le> work p s"
proof -
  have "scheduler_accepted_samples s \<le> fp_target p"
    using assms(2) by (cases "ring_accept_pulse s") (simp_all add: fc_inv_def sched_inv_def)
  then have "scheduler_generated_frames s \<le> fp_target p div fp_H p"
    using assms by (simp add: fc_inv_def sched_inv_def fc_ok_def zdiv_mono1)
  then have "0 \<le> (fp_target p div fp_H p - scheduler_generated_frames s) * (fp_L p + 3)"
    using assms(1) by (simp add: fc_ok_def)
  then show ?thesis using assms by (auto simp: work_def fc_inv_def sched_inv_def play_inv_def fc_ok_def)
qed

lemma work_reserved:
  assumes "fc_ok p" "sched_inv p s" "play_inv p s" "ring_reserved s"
  shows "work p (fc_step p c s) + of_bool (fp_ready p c) \<le> work p s"
proof -
  note sig = reserved_signals [OF assms(1,2,4)]
  define base where "base = 2 * (fp_target p - source_idx s) +
      (fp_target p div fp_H p - scheduler_generated_frames s) * (fp_L p + 3)"
  have after: "work p (fc_step p c s) = base + (if scheduler_valid (fc_step p c s) then fp_L p + 2 else 0) +
      (if ring_active (fc_step p c s) then fp_L p - ring_offset (fc_step p c s) else 0) +
      of_bool (ring_active (fc_step p c s) \<or> ring_out_valid (fc_step p c s))"
    using sig by (simp add: work_def base_def) (simp add: fc_step_def Let_def)
  have before: "base + (if scheduler_valid s then fp_L p + 2 else 0) + (if ring_active s then fp_L p - ring_offset s else 0) +
      of_bool (ring_active s \<or> ring_out_valid s) \<le> work p s"
    by (simp add: work_def base_def)
  consider "ring_active s" | "\<not> ring_active s" "ring_out_valid s" | "\<not> ring_active s" "\<not> ring_out_valid s" "scheduler_valid s"
    using assms(4) by (auto simp: ring_reserved_def)
  then show ?thesis
  proof cases
    case 1
    then show ?thesis
      using before assms(3) sig unfolding after
      by (cases "ring_offset s = fp_L p - 1"; cases "ring_out_valid s"; cases "fp_ready p c"; cases "scheduler_valid s")
        (simp_all add: fc_step_def Let_def frame_req_accept_def frame_req_ready_def frame_sample_accept_def
          load_next_beat_def play_inv_def)
  next
    case 2
    then show ?thesis
      using before sig unfolding after
      by (cases "fp_ready p c"; cases "scheduler_valid s")
        (simp_all add: fc_step_def Let_def frame_req_accept_def frame_req_ready_def frame_sample_accept_def load_next_beat_def)
  next
    case 3
    then show ?thesis
      using before sig unfolding after
      by (simp add: fc_step_def Let_def frame_req_accept_def frame_req_ready_def frame_sample_accept_def load_next_beat_def)
  qed
qed

lemma work_free:
  assumes "fc_ok p" "sched_inv p s" "\<not> ring_reserved s" "\<not> drained p s"
  shows "work p (fc_step p c s) + 1 \<le> work p s"
proof -
  note sig = free_signals [OF assms(3)]
  have acc: "source_accept p s \<longleftrightarrow> source_idx s < fp_target p" using assms(1,3) by (simp add: source_accept_def)
  have busy: "source_accept p s \<or> ring_accept_pulse s"
    using assms(2,4) sig acc by (auto simp: drained_def sched_inv_def)
  define k where "k = fp_target p div fp_H p - scheduler_generated_frames s"
  have split: "(fp_target p div fp_H p - (scheduler_generated_frames s + 1)) * (fp_L p + 3) = k * (fp_L p + 3) - (fp_L p + 3)"
    by (simp add: k_def algebra_simps)
  show ?thesis
  proof (cases "frame_due p s")
    case True
    then have "ring_accept_pulse s" by (simp add: frame_due_def)
    then show ?thesis
      using True sig split
      by (cases "source_accept p s") (simp_all add: work_def fc_step_def Let_def k_def [symmetric])
  next
    case False
    then show ?thesis
      using sig busy by (cases "source_accept p s"; cases "ring_accept_pulse s") (simp_all add: work_def fc_step_def Let_def)
  qed
qed

lemma work_step:
  assumes "fc_ok p" "fc_inv p s" "\<not> drained p s"
  shows "work p (fc_step p c s) + of_bool (fp_ready p c) \<le> work p s"
  using work_reserved [OF assms(1), of s c] work_free [OF assms(1), of s c] assms(2,3)
  by (cases "ring_reserved s") (auto simp: fc_inv_def)

fun readies :: "(nat \<Rightarrow> bool) \<Rightarrow> nat \<Rightarrow> nat \<Rightarrow> int" where
  "readies f c 0 = 0"
| "readies f c (Suc n) = of_bool (f c) + readies f (Suc c) n"

lemma drained_step: "drained p s \<Longrightarrow> drained p (fc_step p c s)"
  by (simp add: drained_def fc_step_def Let_def source_accept_def frame_req_accept_def frame_req_ready_def
      frame_sample_accept_def load_next_beat_def frame_due_def)

lemma fc_loop_returns:
  assumes "fc_ok p"
  shows "fc_inv p s \<Longrightarrow> work p s < readies (fp_ready p) c n \<Longrightarrow>
    \<exists>t k. fc_loop p n c s = Inr (t, k) \<and> fc_inv p t \<and> drained p t \<and> k \<le> c + n"
proof (induction n arbitrary: c s)
  case 0
  then show ?case using work_nonneg [OF assms, of s] by simp
next
  case (Suc n)
  define t where "t = fc_step p c s"
  have inv: "fc_inv p t" using fc_inv_step [OF assms Suc.prems(1)] by (simp add: t_def)
  show ?case
  proof (cases "drained p t")
    case True
    with inv show ?thesis by (simp add: t_def [symmetric])
  next
    case False
    then have "\<not> drained p s" using drained_step by (auto simp: t_def)
    then have "work p t + of_bool (fp_ready p c) \<le> work p s" using work_step [OF assms Suc.prems(1)] by (simp add: t_def)
    then have "work p t < readies (fp_ready p) (Suc c) n" using Suc.prems(2) by simp
    from Suc.IH [OF inv this] False show ?thesis by (auto simp: t_def [symmetric])
  qed
qed

lemma drained_counts:
  assumes "fc_ok p" "fc_inv p t" "drained p t"
  defines "f \<equiv> fp_target p div fp_H p"
  shows "due_frames t = f \<and> accepted_frame_requests t = f \<and> completed_frames t = f \<and>
    completed_frame_beats t = f * fp_L p \<and> dropped_frames t = 0 \<and> accepts_while_ring_reserved t = 0 \<and>
    triggers t = map (\<lambda>k. (k + 1) * fp_H p - 1) [0..f - 1] \<and>
    (fp_H p < fp_target p \<longrightarrow> max_post_boundary_lookahead t = 1)"
proof -
  have s: "sched_inv p t" and g: "trig_inv p t" and y: "play_inv p t" and l: "look_inv p t"
    using assms(2) by (simp_all add: fc_inv_def)
  have gen: "scheduler_generated_frames t = f" "due_frames t = f" "accepted_frame_requests t = f" "dropped_frames t = 0"
      "accepts_while_ring_reserved t = 0"
    using s assms(3) by (simp_all add: sched_inv_def drained_def f_def)
  have "completed_frames t = f" "completed_frame_beats t = f * fp_L p"
    using y assms(3) gen(3) by (simp_all add: play_inv_def drained_def)
  moreover have "triggers t = map (\<lambda>k. (k + 1) * fp_H p - 1) [0..f - 1]" using g gen(3) by (simp add: trig_inv_def)
  moreover have "max_post_boundary_lookahead t = 1" if "fp_H p < fp_target p"
  proof -
    have "0 < f" using that assms(1) zdiv_mono1 [of "fp_H p" "fp_target p" "fp_H p"] by (simp add: f_def fc_ok_def)
    with that l gen(1) show ?thesis by (simp add: look_inv_def)
  qed
  ultimately show ?thesis using gen by blast
qed

lemma work_init: "work p fc_init = 2 * fp_target p + fp_target p div fp_H p * (fp_L p + 3)"
  by (simp add: work_def fc_init_def)

text \<open>
  C26: under the conservative gate every run drains before the watchdog when the consumer is ready often enough, twice the
  number of samples plus \<open>L + 3\<close> per frame in any pattern of stalls; then every frame that fell due was requested and
  completed with all its beats, none was dropped, and the look-ahead bound of one is reached.
\<close>

theorem run_model_drains:
  assumes "fc_ok p"
    and "2 * fp_target p + fp_target p div fp_H p * (fp_L p + 3) < readies (fp_ready p) 0 MAX_CYCLES"
  defines "f \<equiv> fp_target p div fp_H p"
  shows "\<exists>t k. run_model p = Inr (t, k) \<and> k \<le> MAX_CYCLES \<and> source_idx t = fp_target p \<and>
    due_frames t = f \<and> accepted_frame_requests t = f \<and> completed_frames t = f \<and>
    completed_frame_beats t = f * fp_L p \<and> dropped_frames t = 0 \<and> accepts_while_ring_reserved t = 0 \<and>
    triggers t = map (\<lambda>k. (k + 1) * fp_H p - 1) [0..f - 1] \<and>
    (fp_H p < fp_target p \<longrightarrow> max_post_boundary_lookahead t = 1)"
proof -
  obtain t k where t: "run_model p = Inr (t, k)" "fc_inv p t" "drained p t" "k \<le> MAX_CYCLES"
    using fc_loop_returns [OF assms(1) fc_inv_init [OF assms(1)], of 0 MAX_CYCLES] assms(2)
    by (auto simp: work_init run_model_def)
  moreover have "source_idx t = fp_target p" using t(3) by (simp add: drained_def)
  ultimately show ?thesis using drained_counts [OF assms(1) t(2,3)] unfolding f_def by blast
qed

section \<open>The script's runs\<close>

definition script_params :: "bool \<Rightarrow> fc_params" where
  "script_params gate = \<lparr> fp_L = 256, fp_H = 128, fp_target = 6 * 128, fp_gate = gate, fp_ready = downstream_ready \<rparr>"

lemma readies_add: "readies f c (m + n) = readies f c m + readies f (c + m) n"
  by (induction m arbitrary: c) simp_all

lemma readies_nonneg: "0 \<le> readies f c n"
  by (induction n arbitrary: c) simp_all

text \<open>After the long stall, four of every five cycles are ready.\<close>

lemma readies_blocks: "900 \<le> c \<Longrightarrow> c mod 5 = 0 \<Longrightarrow> readies downstream_ready c (5 * n) = 4 * int n"
proof (induction n arbitrary: c)
  case (Suc n)
  have five: "5 * Suc n = 5 + 5 * n" by simp
  have "downstream_ready (c + 1)" "downstream_ready (c + 2)" "downstream_ready (c + 3)" "downstream_ready (c + 4)"
      "\<not> downstream_ready c"
    using Suc.prems by (auto simp: downstream_ready_def) presburger+
  then have "readies downstream_ready c 5 = 4" by (simp add: eval_nat_numeral)
  moreover have "readies downstream_ready (c + 5) (5 * n) = 4 * int n" using Suc.prems by (intro Suc.IH) simp_all
  ultimately show ?case by (simp only: five readies_add) simp
qed simp

lemma script_ready: "3090 < readies downstream_ready 0 MAX_CYCLES"
proof -
  have "readies downstream_ready 900 (5 * 3820) = 4 * int 3820" by (rule readies_blocks) simp_all
  moreover have "MAX_CYCLES = 900 + 5 * 3820" by (simp add: MAX_CYCLES_def)
  ultimately have "readies downstream_ready 0 MAX_CYCLES = readies downstream_ready 0 900 + 15280"
    using readies_add [of downstream_ready 0 900 "5 * 3820"] by (simp del: readies.simps)
  then show ?thesis using readies_nonneg [of downstream_ready 0 900] by linarith
qed

text \<open>The fixed run of the script.\<close>

theorem run_model_drains_witness:
  "\<exists>t k. run_model (script_params True) = Inr (t, k) \<and> completed_frames t = 6 \<and> completed_frame_beats t = 1536 \<and>
     dropped_frames t = 0 \<and> triggers t = [127, 255, 383, 511, 639, 767] \<and> max_post_boundary_lookahead t = 1"
proof -
  have "fc_ok (script_params True)" by (simp add: fc_ok_def script_params_def)
  moreover have "2 * fp_target (script_params True) + fp_target (script_params True) div fp_H (script_params True) *
      (fp_L (script_params True) + 3) < readies (fp_ready (script_params True)) 0 MAX_CYCLES"
    using script_ready by (simp add: script_params_def)
  moreover have p: "fp_target (script_params True) = 768" "fp_H (script_params True) = 128" "fp_L (script_params True) = 256"
    by (simp_all add: script_params_def)
  ultimately obtain t k where "run_model (script_params True) = Inr (t, k)" "completed_frames t = 6"
      "completed_frame_beats t = 1536" "dropped_frames t = 0" "triggers t = map (\<lambda>k. (k + 1) * 128 - 1) [0..5]"
      "max_post_boundary_lookahead t = 1"
    using run_model_drains [of "script_params True"] unfolding p by auto
  then show ?thesis by (intro exI [of _ t] exI [of _ k]) (simp add: upto_rec1)
qed

theorem gate_safe_witness: "dropped_frames (fc_trace (script_params True) 5000) = 0"
  using gate_safe [of "script_params True" 5000] by (simp add: fc_ok_def script_params_def)

text \<open>Without the gate a stalled consumer makes a due frame overwrite a pending request.\<close>

definition legacy_params :: "bool \<Rightarrow> fc_params" where
  "legacy_params gate = \<lparr> fp_L = 2, fp_H = 2, fp_target = 6, fp_gate = gate, fp_ready = (\<lambda>c. 9 \<le> c) \<rparr>"

lemma legacy_drops:
  "dropped_frames (fc_trace (legacy_params False) 9) = 1" "dropped_frames (fc_trace (legacy_params True) 9) = 0"
  by code_simp+

end
