(* ===== verification/Event_Scoring.thy ===== *)
theory Event_Scoring
  imports Complex_Main Prelude "HOL-Library.Product_Lexorder" "HOL-Library.Multiset"
begin

text \<open>
  Scoring of detected events against annotated ones, the second half of
  \<^verbatim>\<open>docs/applications/accelerometer/code/frozen_detector.py\<close>: canonical intervals, the scored support, the sparse dynamic
  program over a Fenwick tree that matches predictions with references, and the score. Times are exact rationals instead of
  binary floating point, so the checks for non-finite numbers have no counterpart; an unbounded end of the support is \<open>None\<close>.
  The detector itself is a pipeline of library calls and is not modelled. The main result is that the dynamic program
  returns an optimal matching among all one-to-one matchings, crossing ones included.
\<close>

section \<open>Intervals and support\<close>

fun merge_intervals :: "string \<Rightarrow> (rat \<times> rat) list \<Rightarrow> (rat \<times> rat) list \<Rightarrow> (rat \<times> rat) list result" where
  "merge_intervals name merged [] = Inr (rev merged)"
| "merge_intervals name merged ((start, stop) # rest) =
     (case merged of
        [] \<Rightarrow> merge_intervals name [(start, stop)] rest
      | (a, b) # older \<Rightarrow>
          if start < b then Inl (Exn ValueError (name @ '' must not overlap''))
          else if start = b then merge_intervals name ((a, stop) # older) rest
          else merge_intervals name ((start, stop) # merged) rest)"

definition check_interval :: "string \<Rightarrow> rat \<times> rat \<Rightarrow> (rat \<times> rat) result" where
  "check_interval name pair =
     (case pair of (start, stop) \<Rightarrow>
        if start \<ge> stop then Inl (Exn ValueError (name @ '' must contain finite start < stop pairs'')) else Inr (start, stop))"

definition intervals :: "string \<Rightarrow> (rat \<times> rat) list \<Rightarrow> (rat \<times> rat) list result" where
  "intervals name values =
     rbind (rmapM (check_interval name) values) (\<lambda>result. merge_intervals name [] (sort result))"

type_synonym piece = "rat option \<times> rat option"

definition above :: "rat option \<Rightarrow> rat \<Rightarrow> bool" where
  "above start t \<longleftrightarrow> (case start of None \<Rightarrow> True | Some s \<Rightarrow> s \<le> t)"

definition below :: "rat option \<Rightarrow> rat \<Rightarrow> bool" where
  "below stop t \<longleftrightarrow> (case stop of None \<Rightarrow> True | Some s \<Rightarrow> t < s)"

definition inside :: "piece \<Rightarrow> rat \<Rightarrow> bool" where
  "inside p t \<longleftrightarrow> above (fst p) t \<and> below (snd p) t"

definition exclude :: "rat \<times> rat \<Rightarrow> piece \<Rightarrow> piece list" where
  "exclude ex p =
     (case (ex, p) of ((ex_start, ex_stop), (start, stop)) \<Rightarrow>
        if (case start of None \<Rightarrow> False | Some s \<Rightarrow> ex_stop \<le> s) \<or> (case stop of None \<Rightarrow> False | Some s \<Rightarrow> ex_start \<ge> s)
        then [(start, stop)]
        else
          (if (case start of None \<Rightarrow> True | Some s \<Rightarrow> s < ex_start) then [(start, Some ex_start)] else []) @
          (if (case stop of None \<Rightarrow> True | Some s \<Rightarrow> ex_stop < s) then [(Some ex_stop, stop)] else []))"

definition scored_support :: "(rat \<times> rat) list option \<Rightarrow> (rat \<times> rat) list option \<Rightarrow> piece list result" where
  "scored_support score_intervals exclude_intervals =
     rbind (case score_intervals of
              None \<Rightarrow> Inr [(None, None)]
            | Some vs \<Rightarrow> rbind (intervals ''score_intervals'' vs) (\<lambda>ps. Inr (map (\<lambda>(a, b). (Some a, Some b)) ps))) (\<lambda>support.
     rbind (intervals ''exclude_intervals'' (case exclude_intervals of None \<Rightarrow> [] | Some vs \<Rightarrow> vs)) (\<lambda>excluded.
     Inr (foldl (\<lambda>support ex. concat (map (exclude ex) support)) support excluded)))"

section \<open>The matcher\<close>

record dp_state =
  ds_count :: nat
  ds_error :: rat
  ds_pred_index :: int
  ds_truth_index :: int
  ds_previous :: nat

text \<open>The root state; its \<^verbatim>\<open>previous\<close> field, -1 in the source, is never read.\<close>

definition root_state :: dp_state where
  "root_state = \<lparr> ds_count = 0, ds_error = 0, ds_pred_index = -1, ds_truth_index = -1, ds_previous = 0 \<rparr>"

definition better :: "dp_state list \<Rightarrow> nat \<Rightarrow> nat \<Rightarrow> nat" where
  "better states left right =
     (let a = states ! left; b = states ! right in
      if ds_count a \<noteq> ds_count b then (if ds_count a > ds_count b then left else right)
      else if ds_error a \<noteq> ds_error b then (if ds_error a < ds_error b then left else right)
      else min left right)"

text \<open>\<^verbatim>\<open>n & -n\<close>.\<close>

definition lowbit :: "nat \<Rightarrow> nat" where
  "lowbit n = nat (int n AND (- int n))"

lemma and_neg_odd: "odd (x :: int) \<Longrightarrow> x AND - x = 1"
proof -
  assume "odd x"
  then obtain m where x: "x = 2 * m + 1" by (elim oddE)
  have "(- x) div 2 = NOT m" by (simp add: x not_int_def)
  moreover have "x div 2 = m" by (simp add: x)
  ultimately show ?thesis using \<open>odd x\<close> by (subst and_int_rec) simp
qed

lemma lowbit_double: "lowbit (2 * n) = 2 * lowbit n"
proof -
  have "(2 * x) AND (2 * y) = 2 * (x AND y)" for x y :: int by (subst and_int_rec) simp
  from this [of "int n" "- int n"] have "(2 * int n) AND (- (2 * int n)) = 2 * (int n AND - int n)" by simp
  moreover have "0 \<le> int n AND - int n" by simp
  ultimately show ?thesis by (simp add: lowbit_def nat_mult_distrib)
qed

lemma lowbit_odd: "odd n \<Longrightarrow> lowbit n = 1"
  using and_neg_odd [of "int n"] by (simp add: lowbit_def)

lemma lowbit_form: "lowbit (2 ^ k * (2 * m + 1)) = 2 ^ k"
  by (induction k) (simp_all add: lowbit_odd lowbit_double mult.assoc del: mult_Suc_right)

lemma odd_part:
  assumes "0 < n"
  obtains k m where "n = 2 ^ k * (2 * m + 1)" "lowbit n = 2 ^ k"
proof -
  have "\<exists>k m. n = 2 ^ k * (2 * m + 1)" if "0 < n" for n :: nat
    using that
  proof (induction n rule: less_induct)
    case (less n)
    show ?case
    proof (cases "even n")
      case True
      then obtain n' where n: "n = 2 * n'" by blast
      with less.prems have "n' < n" "0 < n'" by auto
      then obtain k m where "n' = 2 ^ k * (2 * m + 1)" using less.IH by blast
      with n show ?thesis by (intro exI [of _ "Suc k"] exI [of _ m]) simp
    next
      case False
      then show ?thesis by (intro exI [of _ 0] exI [of _ "n div 2"]) simp
    qed
  qed
  with assms that lowbit_form show ?thesis by blast
qed

lemma lowbit_pos: "0 < n \<Longrightarrow> 0 < lowbit n"
  by (erule odd_part) simp

lemma lowbit_le: "0 < n \<Longrightarrow> lowbit n \<le> n"
  by (erule odd_part) simp

function query :: "dp_state list \<Rightarrow> nat list \<Rightarrow> nat \<Rightarrow> nat \<Rightarrow> nat" where
  "query states tree best prefix_length =
     (if prefix_length = 0 then best
      else query states tree (better states best (tree ! prefix_length)) (prefix_length - lowbit prefix_length))"
  by pat_completeness auto
termination
  by (relation "measure (\<lambda>(_, _, _, n). n)") (auto simp: lowbit_pos)

text \<open>Positions start at one, where the step of the source is positive; the guard keeps the function total at zero.\<close>

function update :: "dp_state list \<Rightarrow> nat list \<Rightarrow> nat \<Rightarrow> nat \<Rightarrow> nat list" where
  "update states tree position state_id =
     (if \<not> (0 < position \<and> position < length tree) then tree
      else update states (tree[position := better states (tree ! position) state_id]) (position + lowbit position) state_id)"
  by pat_completeness auto
termination
  by (relation "measure (\<lambda>(_, tree, position, _). length tree - position)") (auto simp: lowbit_pos diff_less_mono2)

declare query.simps [simp del] update.simps [simp del]

text \<open>\<^verbatim>\<open>np.searchsorted\<close> on a sorted array.\<close>

definition searchsorted_left :: "rat list \<Rightarrow> rat \<Rightarrow> nat" where
  "searchsorted_left xs v = length (takeWhile (\<lambda>x. x < v) xs)"

definition searchsorted_right :: "rat list \<Rightarrow> rat \<Rightarrow> nat" where
  "searchsorted_right xs v = length (takeWhile (\<lambda>x. x \<le> v) xs)"

fun candidates ::
    "rat list \<Rightarrow> nat list \<Rightarrow> nat \<Rightarrow> rat \<Rightarrow> nat list \<Rightarrow> dp_state list \<Rightarrow> (nat \<times> nat) list \<Rightarrow> dp_state list \<times> (nat \<times> nat) list" where
  "candidates truth tree i predicted [] states pending = (states, pending)"
| "candidates truth tree i predicted (j # js) states pending =
     (let previous = query states tree 0 j;
          state = states ! previous;
          states' = states @ [\<lparr> ds_count = ds_count state + 1, ds_error = ds_error state + \<bar>predicted - truth ! j\<bar>,
                               ds_pred_index = int i, ds_truth_index = int j, ds_previous = previous \<rparr>] in
      candidates truth tree i predicted js states' (pending @ [(j + 1, length states' - 1)]))"

definition match_step :: "rat list \<Rightarrow> rat \<Rightarrow> dp_state list \<times> nat list \<Rightarrow> nat \<times> rat \<Rightarrow> dp_state list \<times> nat list" where
  "match_step truth tolerance_s st ip =
     (case (st, ip) of ((states, tree), (i, predicted)) \<Rightarrow>
        let js = [searchsorted_left truth (predicted - tolerance_s)..<searchsorted_right truth (predicted + tolerance_s)] in
        case candidates truth tree i predicted js states [] of
          (states', pending) \<Rightarrow> (states', foldl (\<lambda>tree (position, state_id). update states' tree position state_id) tree pending))"

text \<open>The walk back along \<^verbatim>\<open>previous\<close>; a state has a smaller number than its successor, so the number of states is enough fuel.\<close>

fun backtrack :: "nat \<Rightarrow> dp_state list \<Rightarrow> nat \<Rightarrow> (nat \<times> nat) list option" where
  "backtrack fuel states 0 = Some []"
| "backtrack 0 states (Suc n) = None"
| "backtrack (Suc fuel) states (Suc n) =
     (let state = states ! Suc n in
      map_option ((#) (nat (ds_pred_index state), nat (ds_truth_index state))) (backtrack fuel states (ds_previous state)))"

definition match_sorted :: "rat list \<Rightarrow> rat list \<Rightarrow> rat \<Rightarrow> (nat \<times> nat) list option" where
  "match_sorted pred truth tolerance_s =
     (if pred = [] \<or> truth = [] then Some []
      else
        case foldl (match_step truth tolerance_s) ([root_state], replicate (length truth + 1) 0) (zip [0..<length pred] pred) of
          (states, tree) \<Rightarrow> map_option rev (backtrack (length states) states (query states tree 0 (length truth))))"

section \<open>The Fenwick tree\<close>

text \<open>Node \<open>p\<close> of the tree is responsible for the positions after \<open>p - lowbit p\<close> up to \<open>p\<close>.\<close>

definition covers :: "nat \<Rightarrow> nat \<Rightarrow> bool" where
  "covers p q \<longleftrightarrow> p - lowbit p < q \<and> q \<le> p"

lemma dvd_gap: "2 ^ a dvd (x :: nat) \<Longrightarrow> 2 ^ a dvd y \<Longrightarrow> x < y \<Longrightarrow> 2 ^ a \<le> y - x"
  by (intro dvd_imp_le) (auto simp: dvd_diff_nat)

text \<open>The nodes responsible for a position are the ones an update visits.\<close>

lemma covers_step:
  assumes "0 < q" "0 < p"
  shows "covers p q \<longleftrightarrow> p = q \<or> covers p (q + lowbit q)"
proof -
  obtain k m where p: "p = 2 ^ k * (2 * m + 1)" "lowbit p = 2 ^ k" using assms(2) by (rule odd_part)
  obtain l r where q: "q = 2 ^ l * (2 * r + 1)" "lowbit q = 2 ^ l" using assms(1) by (rule odd_part)
  define M where "M = 2 ^ Suc k * m"
  have pM1: "p = M + 2 ^ k" by (simp add: p(1) M_def algebra_simps)
  have "p - lowbit p = M" unfolding p(2) using pM1 by simp
  then have cv: "covers p x \<longleftrightarrow> M < x \<and> x \<le> p" for x by (simp only: covers_def)
  have q1: "q + lowbit q = 2 ^ Suc l * (r + 1)" unfolding q(2) by (simp add: q(1) algebra_simps)
  show ?thesis
  proof
    assume c: "covers p q"
    show "p = q \<or> covers p (q + lowbit q)"
    proof (cases "p = q")
      case False
      with c have lt: "M < q" "q < p" by (simp_all add: cv)
      have "l < k"
      proof (rule ccontr)
        assume "\<not> l < k"
        then have "2 ^ k dvd q" by (simp add: q le_imp_power_dvd)
        then have "2 ^ k \<le> p - q" using lt(2) by (intro dvd_gap) (simp_all add: p)
        with lt pM1 show False by simp
      qed
      then have "2 ^ l dvd p" by (simp add: p le_imp_power_dvd)
      then have "2 ^ l \<le> p - q" using lt(2) by (intro dvd_gap) (simp_all add: q)
      with lt show ?thesis unfolding cv q(2) by simp
    qed simp
  next
    assume "p = q \<or> covers p (q + lowbit q)"
    then show "covers p q"
    proof
      assume eq: "p = q"
      show ?thesis unfolding cv unfolding eq [symmetric] using pM1 by simp
    next
      assume c: "covers p (q + lowbit q)"
      then have lt: "M < q + lowbit q" "q + lowbit q \<le> M + 2 ^ k" unfolding cv using pM1 by simp_all
      have "M < q"
      proof (rule ccontr)
        assume "\<not> M < q"
        define a where "a = min (Suc k) (Suc l)"
        have "2 ^ a dvd M" "2 ^ a dvd q + lowbit q" unfolding M_def q1 a_def by (rule dvd_mult2, rule le_imp_power_dvd, simp)+
        then have gap: "2 ^ a \<le> q + lowbit q - M" using lt(1) by (rule dvd_gap)
        show False
        proof (cases "k \<le> l")
          case True
          with gap have "2 * 2 ^ k \<le> q + lowbit q - M" by (simp add: a_def)
          moreover have "0 < (2 :: nat) ^ k" by simp
          ultimately show False using lt(2) by linarith
        next
          case False
          with gap have "2 * 2 ^ l \<le> q + lowbit q - M" by (simp add: a_def)
          moreover have "0 < (2 :: nat) ^ l" by simp
          ultimately show False using \<open>\<not> M < q\<close> unfolding q(2) by linarith
        qed
      qed
      with c show ?thesis by (simp add: cv)
    qed
  qed
qed

text \<open>A state is at least as good as another: more matches, or as many with no more error.\<close>

definition prefers :: "dp_state \<Rightarrow> dp_state \<Rightarrow> bool" where
  "prefers a b \<longleftrightarrow> ds_count a > ds_count b \<or> (ds_count a = ds_count b \<and> ds_error a \<le> ds_error b)"

lemma prefers_refl [simp]: "prefers a a"
  by (simp add: prefers_def)

lemma prefers_trans: "prefers a b \<Longrightarrow> prefers b c \<Longrightarrow> prefers a c"
  by (auto simp: prefers_def)

lemma better_prefers:
  "better states l r = l \<or> better states l r = r"
  "prefers (states ! better states l r) (states ! l)" "prefers (states ! better states l r) (states ! r)"
  by (auto simp: better_def prefers_def Let_def min_def)

text \<open>A best state of a set, or the root.\<close>

definition best_in :: "dp_state list \<Rightarrow> nat set \<Rightarrow> nat \<Rightarrow> bool" where
  "best_in states A b \<longleftrightarrow> (b = 0 \<or> b \<in> A) \<and> (\<forall>s \<in> A. prefers (states ! b) (states ! s))"

lemma best_in_better:
  assumes "best_in states A b" "best_in states B c"
  shows "best_in states (A \<union> B) (better states b c)"
  using assms better_prefers [of states b c] by (auto simp: best_in_def intro: prefers_trans)

lemma best_in_empty [simp]: "best_in states {} 0"
  by (simp add: best_in_def)

lemma best_in_single [simp]: "best_in states {s} s"
  by (simp add: best_in_def)

text \<open>Every node holds a best state of the positions it is responsible for; \<open>S q\<close> are the states at position \<open>q\<close>.\<close>

definition tree_ok :: "dp_state list \<Rightarrow> nat list \<Rightarrow> (nat \<Rightarrow> nat set) \<Rightarrow> bool" where
  "tree_ok states tree S \<longleftrightarrow> (\<forall>p. 0 < p \<and> p < length tree \<longrightarrow> best_in states (\<Union>q \<in> {q. covers p q}. S q) (tree ! p))"

lemma query_best:
  assumes "tree_ok states tree S" "k < length tree" "best_in states A b"
  shows "best_in states (A \<union> (\<Union>q \<in> {0<..k}. S q)) (query states tree b k)"
  using assms(2,3)
proof (induction k arbitrary: A b rule: less_induct)
  case (less k)
  show ?case
  proof (cases "k = 0")
    case True
    then show ?thesis using less.prems(2) by (simp add: query.simps)
  next
    case False
    let ?k = "k - lowbit k"
    have lt: "?k < k" using False lowbit_pos [of k] by simp
    have "best_in states (A \<union> (\<Union>q \<in> {q. covers k q}. S q)) (better states b (tree ! k))"
      using assms(1) less.prems False by (intro best_in_better) (simp_all add: tree_ok_def)
    from less.IH [OF lt _ this] less.prems(1) lt
    have "best_in states (A \<union> (\<Union>q \<in> {q. covers k q}. S q) \<union> (\<Union>q \<in> {0<..?k}. S q)) (query states tree (better states b (tree ! k)) ?k)"
      by simp
    moreover have "{q. covers k q} \<union> {0<..?k} = {0<..k}" using lt by (auto simp: covers_def)
    then have "A \<union> (\<Union>q \<in> {q. covers k q}. S q) \<union> (\<Union>q \<in> {0<..?k}. S q) = A \<union> (\<Union>q \<in> {0<..k}. S q)"
      by (metis (no_types, lifting) UN_Un Un_assoc)
    ultimately show ?thesis using False by (simp add: query.simps [of states tree b k])
  qed
qed

lemma length_update [simp]: "length (update states tree position s) = length tree"
  by (induction states tree position s rule: update.induct) (subst update.simps, auto)

lemma update_nodes:
  assumes "\<forall>p. 0 < p \<and> p < length tree \<longrightarrow> best_in states (T p) (tree ! p)" "0 < q"
  shows "\<forall>p. 0 < p \<and> p < length tree \<longrightarrow>
    best_in states (if covers p q then T p \<union> {s} else T p) (update states tree q s ! p)"
  using assms
proof (induction states tree q s arbitrary: T rule: update.induct)
  case (1 states tree q s)
  show ?case
  proof (cases "q < length tree")
    case False
    then have "update states tree q s = tree" by (simp add: update.simps)
    moreover have "\<not> covers p q" if "p < length tree" for p using that False by (simp add: covers_def)
    ultimately show ?thesis using 1 by simp
  next
    case True
    let ?tree = "tree[q := better states (tree ! q) s]" and ?T = "T(q := T q \<union> {s})"
    have node: "\<forall>p. 0 < p \<and> p < length ?tree \<longrightarrow> best_in states (?T p) (?tree ! p)"
      using "1.prems"(1) True best_in_better [of states "T q" "tree ! q" "{s}" s] by (auto simp: nth_list_update)
    have "\<forall>p. 0 < p \<and> p < length ?tree \<longrightarrow>
        best_in states (if covers p (q + lowbit q) then ?T p \<union> {s} else ?T p) (update states ?tree (q + lowbit q) s ! p)"
      using True "1.prems"(2) by (intro "1.IH" node) simp_all
    moreover have "update states tree q s = update states ?tree (q + lowbit q) s"
      using True "1.prems"(2) by (simp add: update.simps [of states tree q])
    moreover have "(if covers p (q + lowbit q) then ?T p \<union> {s} else ?T p) = (if covers p q then T p \<union> {s} else T p)" if "0 < p" for p
      using covers_step [OF "1.prems"(2) that] by auto
    ultimately show ?thesis by simp
  qed
qed

lemma update_tree_ok:
  assumes "tree_ok states tree S" "0 < q"
  shows "tree_ok states (update states tree q s) (S(q := S q \<union> {s}))"
proof -
  have "(\<Union>r \<in> {r. covers p r}. (S(q := S q \<union> {s})) r) =
      (if covers p q then (\<Union>r \<in> {r. covers p r}. S r) \<union> {s} else (\<Union>r \<in> {r. covers p r}. S r))" for p
    by auto
  then show ?thesis
    using update_nodes [of tree states "\<lambda>p. \<Union>r \<in> {r. covers p r}. S r" q s] assms by (simp add: tree_ok_def)
qed

section \<open>The dynamic program\<close>

text \<open>The state that extends state \<open>b\<close> with the pair \<open>(i, j)\<close>.\<close>

definition successor :: "rat list \<Rightarrow> rat list \<Rightarrow> nat \<Rightarrow> nat \<Rightarrow> dp_state list \<Rightarrow> nat \<Rightarrow> dp_state" where
  "successor pred truth i j states b =
     \<lparr> ds_count = ds_count (states ! b) + 1, ds_error = ds_error (states ! b) + \<bar>pred ! i - truth ! j\<bar>,
       ds_pred_index = int i, ds_truth_index = int j, ds_previous = b \<rparr>"

lemma best_in_append:
  assumes "best_in states A b" "A \<subseteq> {..<length states}" "states \<noteq> []"
  shows "best_in (states @ xs) A b"
  using assms by (auto simp: best_in_def nth_append subset_iff)

lemma tree_ok_append:
  assumes "tree_ok states tree S" "\<forall>q. S q \<subseteq> {..<length states}" "states \<noteq> []"
  shows "tree_ok (states @ xs) tree S"
  using assms by (auto simp: tree_ok_def intro!: best_in_append UN_least)

lemma best_in_insert_member: "best_in states (insert 0 A) b \<Longrightarrow> b \<in> insert 0 A"
  by (auto simp: best_in_def)

lemma query_zero:
  assumes "tree_ok states tree S" "k < length tree"
  shows "best_in states (insert 0 (\<Union>q \<in> {0<..k}. S q)) (query states tree 0 k)"
  using query_best [OF assms best_in_single [of states 0]] by simp

text \<open>Every candidate extends a best state that ends before it.\<close>

lemma candidates_spec:
  assumes "candidates truth tree i (pred ! i) js states pending = (states', pending')"
    and "tree_ok states tree S" "\<forall>q. S q \<subseteq> {..<length states}" "states \<noteq> []" "\<forall>j \<in> set js. j < length tree"
  shows "\<exists>news. states' = states @ news \<and>
    pending' = pending @ zip (map Suc js) [length states..<length states + length js] \<and>
    list_all2 (\<lambda>j st. \<exists>b. best_in states' (insert 0 (\<Union>q \<in> {0<..j}. S q)) b \<and> st = successor pred truth i j states' b) js news"
  using assms
proof (induction js arbitrary: states pending)
  case (Cons j js)
  let ?b = "query states tree 0 j"
  let ?new = "successor pred truth i j states ?b"
  have step: "candidates truth tree i (pred ! i) js (states @ [?new]) (pending @ [(Suc j, length states)]) = (states', pending')"
    using Cons.prems(1) by (simp add: Let_def successor_def)
  have "tree_ok (states @ [?new]) tree S" "\<forall>q. S q \<subseteq> {..<length (states @ [?new])}"
    using Cons.prems(2-4) by (auto intro!: tree_ok_append simp: subset_iff less_Suc_eq)
  from Cons.IH [OF step this] Cons.prems(5) obtain news where news: "states' = (states @ [?new]) @ news"
    "pending' = (pending @ [(Suc j, length states)]) @ zip (map Suc js) [length (states @ [?new])..<length (states @ [?new]) + length js]"
    "list_all2 (\<lambda>j st. \<exists>b. best_in states' (insert 0 (\<Union>q \<in> {0<..j}. S q)) b \<and> st = successor pred truth i j states' b) js news"
    by auto
  have best: "best_in states (insert 0 (\<Union>q \<in> {0<..j}. S q)) ?b"
    using Cons.prems(2,5) by (intro query_zero) simp_all
  have sub: "insert 0 (\<Union>q \<in> {0<..j}. S q) \<subseteq> {..<length states}" using Cons.prems(3,4) by auto
  have "?b < length states" using best_in_insert_member [OF best] sub by auto
  then have "?new = successor pred truth i j states' ?b" by (simp add: successor_def news(1) nth_append)
  moreover have "best_in states' (insert 0 (\<Union>q \<in> {0<..j}. S q)) ?b"
    using best_in_append [OF best sub Cons.prems(4), of "?new # news"] by (simp add: news(1))
  ultimately have "list_all2 (\<lambda>j st. \<exists>b. best_in states' (insert 0 (\<Union>q \<in> {0<..j}. S q)) b \<and> st = successor pred truth i j states' b)
      (j # js) (?new # news)" using news(3) by auto
  moreover have "[length states..<length states + length (j # js)] = length states # [Suc (length states)..<Suc (length states) + length js]"
    by (simp add: upt_rec)
  ultimately show ?case using news(1,2) by (intro exI [of _ "?new # news"]) simp
qed simp

lemma updates_tree_ok:
  assumes "tree_ok states tree S" "\<forall>(q, s) \<in> set pending. 0 < q"
  shows "tree_ok states (foldl (\<lambda>tree (q, s). update states tree q s) tree pending) (\<lambda>q. S q \<union> {s. (q, s) \<in> set pending})"
  using assms
proof (induction pending arbitrary: tree S)
  case (Cons a pending)
  obtain q s where a: "a = (q, s)" by (cases a)
  have "tree_ok states (update states tree q s) (S(q := S q \<union> {s}))"
    using Cons.prems by (intro update_tree_ok) (auto simp: a)
  from Cons.IH [OF this] Cons.prems(2)
  have "tree_ok states (foldl (\<lambda>tree (q, s). update states tree q s) (update states tree q s) pending)
      (\<lambda>r. (S(q := S q \<union> {s})) r \<union> {s. (r, s) \<in> set pending})" by simp
  moreover have "(\<lambda>r. (S(q := S q \<union> {s})) r \<union> {s. (r, s) \<in> set pending}) = (\<lambda>r. S r \<union> {s. (r, s) \<in> set (a # pending)})"
    by (auto simp: a fun_eq_iff)
  ultimately show ?case by (simp add: a)
qed simp

lemma length_updates [simp]: "length (foldl (\<lambda>tree (q, s). update states tree q s) tree pending) = length tree"
  by (induction pending arbitrary: tree) (auto split: prod.split)

lemma takeWhile_sorted:
  assumes "sorted xs" "\<And>x y. x \<le> y \<Longrightarrow> P y \<Longrightarrow> P x"
  shows "j < length (takeWhile P xs) \<longleftrightarrow> j < length xs \<and> P (xs ! j)"
  using assms(1)
proof (induction xs arbitrary: j)
  case (Cons x xs)
  show ?case
  proof (cases j)
    case (Suc j')
    have "P x" if "j' < length xs" "P (xs ! j')" using Cons.prems that by (intro assms(2) [of x "xs ! j'"]) auto
    then show ?thesis using Cons by (auto simp: Suc)
  qed auto
qed simp

lemma searchsorted_window:
  assumes "sorted truth"
  shows "j \<in> set [searchsorted_left truth (p - tol)..<searchsorted_right truth (p + tol)] \<longleftrightarrow>
    j < length truth \<and> \<bar>p - truth ! j\<bar> \<le> tol"
proof -
  have "j < searchsorted_left truth (p - tol) \<longleftrightarrow> j < length truth \<and> truth ! j < p - tol"
    unfolding searchsorted_left_def by (intro takeWhile_sorted assms) simp
  moreover have "j < searchsorted_right truth (p + tol) \<longleftrightarrow> j < length truth \<and> truth ! j \<le> p + tol"
    unfolding searchsorted_right_def by (intro takeWhile_sorted assms) simp
  ultimately show ?thesis by (auto simp: not_less [symmetric] abs_if)
qed

section \<open>Matchings\<close>

text \<open>A matching pairs predictions and references one to one, each pair within the tolerance; a chain is one in increasing order.\<close>

definition admissible :: "rat list \<Rightarrow> rat list \<Rightarrow> rat \<Rightarrow> nat \<times> nat \<Rightarrow> bool" where
  "admissible pred truth tol = (\<lambda>(i, j). i < length pred \<and> j < length truth \<and> \<bar>pred ! i - truth ! j\<bar> \<le> tol)"

definition matching :: "rat list \<Rightarrow> rat list \<Rightarrow> rat \<Rightarrow> (nat \<times> nat) set \<Rightarrow> bool" where
  "matching pred truth tol M \<longleftrightarrow> finite M \<and> inj_on fst M \<and> inj_on snd M \<and> (\<forall>m \<in> M. admissible pred truth tol m)"

definition gap :: "rat list \<Rightarrow> rat list \<Rightarrow> nat \<times> nat \<Rightarrow> rat" where
  "gap pred truth = (\<lambda>(i, j). \<bar>pred ! i - truth ! j\<bar>)"

definition precedes :: "nat \<times> nat \<Rightarrow> nat \<times> nat \<Rightarrow> bool" where
  "precedes a b \<longleftrightarrow> fst a < fst b \<and> snd a < snd b"

text \<open>Chains are kept in the order of the walk back, the last pair first.\<close>

definition chain :: "rat list \<Rightarrow> rat list \<Rightarrow> rat \<Rightarrow> (nat \<times> nat) list \<Rightarrow> bool" where
  "chain pred truth tol ms \<longleftrightarrow> sorted_wrt (\<lambda>a b. precedes b a) ms \<and> (\<forall>m \<in> set ms. admissible pred truth tol m)"

definition cost :: "rat list \<Rightarrow> rat list \<Rightarrow> (nat \<times> nat) list \<Rightarrow> rat" where
  "cost pred truth ms = sum_list (map (gap pred truth) ms)"

lemma chain_simps [simp]:
  "chain pred truth tol []"
  "chain pred truth tol (m # ms) \<longleftrightarrow> admissible pred truth tol m \<and> (\<forall>x \<in> set ms. precedes x m) \<and> chain pred truth tol ms"
  by (auto simp: chain_def)

lemma cost_simps [simp]:
  "cost pred truth [] = 0" "cost pred truth (m # ms) = gap pred truth m + cost pred truth ms"
  by (simp_all add: cost_def)

text \<open>A state stands for a chain at least as good as \<open>ms\<close>.\<close>

definition dominates :: "rat list \<Rightarrow> rat list \<Rightarrow> dp_state \<Rightarrow> (nat \<times> nat) list \<Rightarrow> bool" where
  "dominates pred truth st ms \<longleftrightarrow>
     ds_count st > length ms \<or> (ds_count st = length ms \<and> ds_error st \<le> cost pred truth ms)"

lemma prefers_dominates: "prefers a b \<Longrightarrow> dominates pred truth b ms \<Longrightarrow> dominates pred truth a ms"
  by (auto simp: prefers_def dominates_def)

text \<open>A state other than the root extends an earlier one, to the right in both sequences.\<close>

definition state_ok :: "rat list \<Rightarrow> rat list \<Rightarrow> rat \<Rightarrow> dp_state list \<Rightarrow> nat \<Rightarrow> bool" where
  "state_ok pred truth tol states s \<longleftrightarrow> (\<exists>i j b. states ! s = successor pred truth i j states b \<and> b < s \<and>
     admissible pred truth tol (i, j) \<and> ds_pred_index (states ! b) < int i \<and> ds_truth_index (states ! b) < int j)"

definition at_position :: "dp_state list \<Rightarrow> nat \<Rightarrow> nat set" where
  "at_position states q = {s. 0 < s \<and> s < length states \<and> ds_truth_index (states ! s) + 1 = int q}"

definition dp_inv :: "rat list \<Rightarrow> rat list \<Rightarrow> rat \<Rightarrow> nat \<Rightarrow> dp_state list \<Rightarrow> nat list \<Rightarrow> bool" where
  "dp_inv pred truth tol i states tree \<longleftrightarrow>
     length tree = length truth + 1 \<and> states \<noteq> [] \<and> states ! 0 = root_state \<and>
     (\<forall>s. 0 < s \<and> s < length states \<longrightarrow> state_ok pred truth tol states s \<and> ds_pred_index (states ! s) < int i) \<and>
     tree_ok states tree (at_position states) \<and>
     (\<forall>m ms. chain pred truth tol (m # ms) \<and> fst m < i \<longrightarrow>
        (\<exists>s \<in> at_position states (Suc (snd m)). dominates pred truth (states ! s) (m # ms)))"

text \<open>The walk back from a state ends and gives a chain with the count and the error of the state.\<close>

lemma backtrack_chain:
  assumes "states ! 0 = root_state" "\<forall>s. 0 < s \<and> s < length states \<longrightarrow> state_ok pred truth tol states s"
    and "n < length states" "n \<le> fuel"
  shows "\<exists>ms. backtrack fuel states n = Some ms \<and> chain pred truth tol ms \<and>
    length ms = ds_count (states ! n) \<and> cost pred truth ms = ds_error (states ! n) \<and>
    (\<forall>m \<in> set ms. int (fst m) \<le> ds_pred_index (states ! n) \<and> int (snd m) \<le> ds_truth_index (states ! n))"
  using assms(3,4)
proof (induction fuel arbitrary: n)
  case 0
  then show ?case using assms(1) by (simp add: root_state_def)
next
  case (Suc fuel)
  show ?case
  proof (cases n)
    case 0
    then show ?thesis using assms(1) by (simp add: root_state_def)
  next
    case (Suc n')
    have "state_ok pred truth tol states n" using assms(2) Suc.prems Suc by simp
    then obtain i j b where st: "states ! n = successor pred truth i j states b" "b < n" "admissible pred truth tol (i, j)"
      "ds_pred_index (states ! b) < int i" "ds_truth_index (states ! b) < int j" by (auto simp: state_ok_def)
    from Suc.IH [of b] Suc.prems st(2) obtain ms where ms: "backtrack fuel states b = Some ms" "chain pred truth tol ms"
      "length ms = ds_count (states ! b)" "cost pred truth ms = ds_error (states ! b)"
      "\<forall>m \<in> set ms. int (fst m) \<le> ds_pred_index (states ! b) \<and> int (snd m) \<le> ds_truth_index (states ! b)" by auto
    have "backtrack (Suc fuel) states n = Some ((i, j) # ms)"
      using ms(1) st(1) by (simp add: Suc Let_def successor_def)
    moreover have "precedes m (i, j)" "int (fst m) \<le> int i" "int (snd m) \<le> int j" if "m \<in> set ms" for m
      using ms(5) st(4,5) that by (fastforce simp: precedes_def)+
    ultimately show ?thesis using ms st by (auto simp: successor_def gap_def)
  qed
qed

text \<open>The empty program.\<close>

lemma dp_inv_init: "dp_inv pred truth tol 0 [root_state] (replicate (length truth + 1) 0)"
  by (auto simp: dp_inv_def tree_ok_def at_position_def best_in_def nth_Cons' simp del: replicate_Suc)

lemma dominates_successor:
  "dominates pred truth (states ! b) ms \<Longrightarrow> dominates pred truth (successor pred truth i j states b) ((i, j) # ms)"
  by (auto simp: dominates_def successor_def gap_def)

lemma state_ok_append:
  assumes "state_ok pred truth tol states s" "s < length states"
  shows "state_ok pred truth tol (states @ news) s"
proof -
  obtain i j b where "states ! s = successor pred truth i j states b" "b < s" "admissible pred truth tol (i, j)"
    "ds_pred_index (states ! b) < int i" "ds_truth_index (states ! b) < int j" using assms(1) by (auto simp: state_ok_def)
  then show ?thesis unfolding state_ok_def using assms(2)
    by (intro exI [of _ i] exI [of _ j] exI [of _ b]) (simp add: nth_append successor_def)
qed

lemma at_position_append:
  assumes "list_all2 (\<lambda>j st. ds_truth_index st = int j) js news" "states \<noteq> []"
  shows "at_position (states @ news) =
    (\<lambda>q. at_position states q \<union> {s. (q, s) \<in> set (zip (map Suc js) [length states..<length states + length js])})"
    (is "_ = ?R")
proof (intro ext set_eqI)
  fix q s
  have len: "length news = length js" using assms(1) by (simp add: list_all2_lengthD)
  have idx: "ds_truth_index (news ! k) = int (js ! k)" if "k < length js" for k
    using list_all2_nthD [OF assms(1) that] .
  show "s \<in> at_position (states @ news) q \<longleftrightarrow> s \<in> ?R q"
  proof (cases "s < length states")
    case True
    then show ?thesis by (auto simp: at_position_def nth_append set_zip)
  next
    case False
    then obtain k where s: "s = length states + k" using le_Suc_ex not_less by blast
    have "s \<in> at_position (states @ news) q \<longleftrightarrow> k < length js \<and> Suc (js ! k) = q"
      using assms(2) len idx by (auto simp: at_position_def s nth_append)
    moreover have "s \<in> ?R q \<longleftrightarrow> k < length js \<and> Suc (js ! k) = q"
      by (auto simp: at_position_def s set_zip intro!: exI [of _ k])
    ultimately show ?thesis by simp
  qed
qed

text \<open>What a candidate extends ends before it, and dominates every chain that ends before it.\<close>

lemma extended_bounds:
  assumes inv: "dp_inv pred truth tol i states tree"
    and best: "best_in (states @ news) (insert 0 (\<Union>q \<in> {0<..j}. at_position states q)) b"
  shows "b < length states" "ds_pred_index ((states @ news) ! b) < int i" "ds_truth_index ((states @ news) ! b) < int j"
proof -
  have "b = 0 \<or> (\<exists>q \<in> {0<..j}. b \<in> at_position states q)" using best_in_insert_member [OF best] by auto
  then show "b < length states" "ds_pred_index ((states @ news) ! b) < int i" "ds_truth_index ((states @ news) ! b) < int j"
    using inv by (auto simp: dp_inv_def at_position_def root_state_def nth_append)
qed

lemma extended_dominates:
  assumes inv: "dp_inv pred truth tol i states tree"
    and best: "best_in (states @ news) (insert 0 (\<Union>q \<in> {0<..j}. at_position states q)) b"
    and chain: "chain pred truth tol ((i, j) # ms)"
  shows "dominates pred truth (successor pred truth i j (states @ news) b) ((i, j) # ms)"
proof (intro dominates_successor)
  have ne: "states \<noteq> []" and root: "states ! 0 = root_state" using inv by (auto simp: dp_inv_def)
  show "dominates pred truth ((states @ news) ! b) ms"
  proof (cases ms)
    case Nil
    have "prefers ((states @ news) ! b) ((states @ news) ! 0)" using best by (simp add: best_in_def)
    then show ?thesis using ne root by (auto simp: Nil prefers_def dominates_def root_state_def nth_append)
  next
    case (Cons m' ms')
    have m': "chain pred truth tol (m' # ms')" "fst m' < i" "snd m' < j" using chain by (auto simp: Cons precedes_def)
    then obtain s where s: "s \<in> at_position states (Suc (snd m'))" "dominates pred truth (states ! s) (m' # ms')"
      using inv unfolding dp_inv_def by blast
    have "Suc (snd m') \<in> {0<..j}" using m'(3) by simp
    with s(1) have "prefers ((states @ news) ! b) ((states @ news) ! s)" using best unfolding best_in_def by blast
    moreover have "(states @ news) ! s = states ! s" using s(1) by (auto simp: at_position_def nth_append)
    ultimately show ?thesis using s(2) by (auto simp: Cons intro: prefers_dominates)
  qed
qed

text \<open>One prediction.\<close>

lemma match_step_inv:
  assumes inv: "dp_inv pred truth tol i states tree" and i: "i < length pred" and sorted: "sorted truth"
    and step: "match_step truth tol (states, tree) (i, pred ! i) = (states', tree')"
  shows "dp_inv pred truth tol (Suc i) states' tree'"
proof -
  define js where "js = [searchsorted_left truth (pred ! i - tol)..<searchsorted_right truth (pred ! i + tol)]"
  have js: "j \<in> set js \<longleftrightarrow> admissible pred truth tol (i, j)" for j
    unfolding js_def searchsorted_window [OF sorted] using i by (simp add: admissible_def)
  have ne: "states \<noteq> []" and root: "states ! 0 = root_state" and len: "length tree = length truth + 1"
    and tree: "tree_ok states tree (at_position states)"
    and ok: "\<And>s. 0 < s \<Longrightarrow> s < length states \<Longrightarrow> state_ok pred truth tol states s \<and> ds_pred_index (states ! s) < int i"
    and complete: "\<And>m ms. chain pred truth tol (m # ms) \<Longrightarrow> fst m < i \<Longrightarrow>
        \<exists>s \<in> at_position states (Suc (snd m)). dominates pred truth (states ! s) (m # ms)"
    using inv by (auto simp: dp_inv_def)
  let ?L = "length states"
  obtain pending where cand: "candidates truth tree i (pred ! i) js states [] = (states', pending)"
    and tree': "tree' = foldl (\<lambda>tree (q, s). update states' tree q s) tree pending"
    using step by (auto simp: match_step_def js_def split: prod.splits)
  have sub: "at_position states q \<subseteq> {..<?L}" for q by (auto simp: at_position_def)
  from candidates_spec [OF cand tree _ ne] sub js len obtain news where news: "states' = states @ news"
    and pend: "pending = zip (map Suc js) [?L..<?L + length js]"
    and all: "list_all2 (\<lambda>j st. \<exists>b. best_in states' (insert 0 (\<Union>q \<in> {0<..j}. at_position states q)) b \<and>
        st = successor pred truth i j states' b) js news"
    by (auto simp: admissible_def)
  have at: "at_position states' = (\<lambda>q. at_position states q \<union> {s. (q, s) \<in> set pending})"
    unfolding news pend by (rule at_position_append [OF list_all2_mono [OF all] ne]) (auto simp: successor_def)
  have "tree_ok states' tree' (at_position states')"
    unfolding at tree' using sub by (intro updates_tree_ok) (auto simp: news pend set_zip intro!: tree_ok_append tree ne)
  moreover have "state_ok pred truth tol states' s \<and> ds_pred_index (states' ! s) < int (Suc i)" if s: "0 < s" "s < length states'" for s
  proof (cases "s < ?L")
    case True
    then show ?thesis using ok [OF s(1)] state_ok_append [of pred truth tol states s news] by (auto simp: news nth_append)
  next
    case False
    then obtain k where k: "s = ?L + k" "k < length news" using s(2) le_Suc_ex [of ?L s] by (auto simp: news)
    from list_all2_nthD2 [OF all k(2)] obtain b where b: "best_in states' (insert 0 (\<Union>q \<in> {0<..js ! k}. at_position states q)) b"
      "news ! k = successor pred truth i (js ! k) states' b" by blast
    have "js ! k \<in> set js" using k(2) list_all2_lengthD [OF all] by simp
    moreover have "states' ! s = news ! k" by (simp add: news k(1))
    ultimately show ?thesis using extended_bounds [OF inv b(1) [unfolded news]] b(2) js k(1)
      by (auto simp: state_ok_def news successor_def)
  qed
  moreover have "\<exists>s \<in> at_position states' (Suc (snd m)). dominates pred truth (states' ! s) (m # ms)"
    if c: "chain pred truth tol (m # ms)" "fst m < Suc i" for m ms
  proof (cases "fst m < i")
    case True
    from complete [OF c(1) True] obtain s where "s \<in> at_position states (Suc (snd m))" "dominates pred truth (states ! s) (m # ms)" by blast
    moreover from this(1) have "states' ! s = states ! s" by (auto simp: at_position_def news nth_append)
    ultimately show ?thesis unfolding at by (intro bexI [of _ s]) simp_all
  next
    case False
    then obtain j where m: "m = (i, j)" using c(2) by (cases m) auto
    then have "j \<in> set js" using c(1) js by simp
    then obtain k where k: "k < length js" "j = js ! k" by (auto simp: in_set_conv_nth)
    from list_all2_nthD [OF all k(1)] obtain b where b: "best_in states' (insert 0 (\<Union>q \<in> {0<..j}. at_position states q)) b"
      "news ! k = successor pred truth i j states' b" unfolding k(2) by blast
    have "?L + k \<in> at_position states' (Suc j)" using k by (auto simp: at pend set_zip intro!: exI [of _ k])
    moreover have "states' ! (?L + k) = news ! k" by (simp add: news)
    ultimately show ?thesis
      using extended_dominates [OF inv b(1) [unfolded news] c(1) [unfolded m]] b(2)
      by (intro bexI [of _ "?L + k"]) (simp_all add: m news)
  qed
  ultimately show ?thesis using ne root len by (simp add: dp_inv_def tree' nth_append news)
qed

lemma match_steps_inv:
  assumes "sorted truth"
  shows "n \<le> length pred \<Longrightarrow> foldl (match_step truth tol) ([root_state], replicate (length truth + 1) 0)
      (zip [0..<n] (take n pred)) = (states, tree) \<Longrightarrow> dp_inv pred truth tol n states tree"
proof (induction n arbitrary: states tree)
  case 0
  then show ?case using dp_inv_init [of pred truth tol] by auto
next
  case (Suc n)
  obtain states0 tree0 where mid: "foldl (match_step truth tol) ([root_state], replicate (length truth + 1) 0)
      (zip [0..<n] (take n pred)) = (states0, tree0)" by (rule prod.exhaust)
  have "zip [0..<Suc n] (take (Suc n) pred) = zip [0..<n] (take n pred) @ [(n, pred ! n)]"
    using Suc.prems(1) by (simp add: take_Suc_conv_app_nth)
  with Suc.prems(2) mid have "match_step truth tol (states0, tree0) (n, pred ! n) = (states, tree)" by simp
  with Suc.IH [OF _ mid] Suc.prems(1) show ?case by (intro match_step_inv [OF _ _ assms]) simp_all
qed

text \<open>The dynamic program returns a chain that no other chain beats.\<close>

lemma match_sorted_best_chain:
  assumes "sorted truth"
  shows "\<exists>ms. match_sorted pred truth tol = Some ms \<and> chain pred truth tol (rev ms) \<and>
    (\<forall>ms'. chain pred truth tol ms' \<longrightarrow>
       length ms' < length ms \<or> (length ms' = length ms \<and> cost pred truth (rev ms) \<le> cost pred truth ms'))"
proof (cases "pred = [] \<or> truth = []")
  case True
  then have nil: "chain pred truth tol ms' \<Longrightarrow> ms' = []" for ms' by (cases ms') (auto simp: admissible_def)
  have "match_sorted pred truth tol = Some []" using True by (auto simp: match_sorted_def)
  then show ?thesis by (auto dest: nil)
next
  case False
  obtain states tree where run: "foldl (match_step truth tol) ([root_state], replicate (length truth + 1) 0)
      (zip [0..<length pred] pred) = (states, tree)" by (rule prod.exhaust)
  have inv: "dp_inv pred truth tol (length pred) states tree"
    using match_steps_inv [OF assms, of "length pred" pred tol states tree] run by simp
  let ?b = "query states tree 0 (length truth)"
  have best: "best_in states (insert 0 (\<Union>q \<in> {0<..length truth}. at_position states q)) ?b"
    using inv by (intro query_zero) (simp_all add: dp_inv_def)
  have b: "?b < length states"
    using best_in_insert_member [OF best] inv by (auto simp: at_position_def dp_inv_def)
  obtain ms where ms: "backtrack (length states) states ?b = Some ms" "chain pred truth tol ms"
    "length ms = ds_count (states ! ?b)" "cost pred truth ms = ds_error (states ! ?b)"
    using backtrack_chain [of states pred truth tol ?b "length states"] inv b by (auto simp: dp_inv_def)
  have dom: "dominates pred truth (states ! ?b) ms'" if c: "chain pred truth tol ms'" for ms'
  proof (cases ms')
    case Nil
    then show ?thesis using ms(3,4) by (cases ms) (auto simp: dominates_def)
  next
    case (Cons m ms'')
    then have m: "chain pred truth tol (m # ms'')" "fst m < length pred" "snd m < length truth"
      using c by (auto simp: admissible_def)
    then obtain s where s: "s \<in> at_position states (Suc (snd m))" "dominates pred truth (states ! s) (m # ms'')"
      using inv unfolding dp_inv_def by blast
    have "Suc (snd m) \<in> {0<..length truth}" using m(3) by simp
    with s(1) have "prefers (states ! ?b) (states ! s)" using best unfolding best_in_def by blast
    with s(2) show ?thesis by (auto simp: Cons intro: prefers_dominates)
  qed
  have "match_sorted pred truth tol = Some (rev ms)" using False run ms(1) by (simp add: match_sorted_def)
  moreover have "length ms' < length ms \<or> (length ms' = length ms \<and> cost pred truth ms \<le> cost pred truth ms')"
    if "chain pred truth tol ms'" for ms' using dom [OF that] by (auto simp: dominates_def ms(3,4))
  ultimately show ?thesis using ms(2) by auto
qed

section \<open>Uncrossing\<close>

lemma uncross_pair:
  assumes "(a :: rat) \<le> a'" "b \<le> b'" "\<bar>a - b'\<bar> \<le> tol" "\<bar>a' - b\<bar> \<le> tol"
  shows "\<bar>a - b\<bar> \<le> tol" "\<bar>a' - b'\<bar> \<le> tol" "\<bar>a - b\<bar> + \<bar>a' - b'\<bar> \<le> \<bar>a - b'\<bar> + \<bar>a' - b\<bar>"
  using assms by linarith+

text \<open>A matching can be changed so that its greatest prediction and its greatest reference are a pair.\<close>

lemma uncross_max:
  assumes sorted: "sorted pred" "sorted truth" and M: "matching pred truth tol M" "M \<noteq> {}"
  shows "\<exists>m M'. matching pred truth tol M' \<and> admissible pred truth tol m \<and> card M = Suc (card M') \<and>
    gap pred truth m + sum (gap pred truth) M' \<le> sum (gap pred truth) M \<and>
    (\<forall>x \<in> M'. precedes x m \<and> fst x \<in> fst ` M \<and> snd x \<in> snd ` M) \<and> fst m \<in> fst ` M \<and> snd m \<in> snd ` M"
proof -
  have fin: "finite M" and inj: "inj_on fst M" "inj_on snd M" and adm: "\<And>m. m \<in> M \<Longrightarrow> admissible pred truth tol m"
    using M(1) by (auto simp: matching_def)
  define i1 where "i1 = Max (fst ` M)"
  define j1 where "j1 = Max (snd ` M)"
  have "i1 \<in> fst ` M" "j1 \<in> snd ` M" unfolding i1_def j1_def using fin M(2) by (auto intro!: Max_in)
  then obtain i0 j0 where a: "(i1, j0) \<in> M" and b: "(i0, j1) \<in> M" by auto
  have max: "i \<le> i1" "j \<le> j1" if "(i, j) \<in> M" for i j
    using fin that by (auto simp: i1_def j1_def intro!: Max_ge image_eqI [of _ _ "(i, j)"])
  have uniq: "x = (i1, j0)" if "x \<in> M" "fst x = i1" for x using inj_onD [OF inj(1) _ that(1) a] that(2) by simp
  have uniq': "x = (i0, j1)" if "x \<in> M" "snd x = j1" for x using inj_onD [OF inj(2) _ that(1) b] that(2) by simp
  have prec: "precedes x (i1, j1)" if "x \<in> M" "x \<noteq> (i1, j0)" "x \<noteq> (i0, j1)" for x
    using max [of "fst x" "snd x"] that uniq [of x] uniq' [of x] by (auto simp: precedes_def le_less)
  show ?thesis
  proof (cases "j0 = j1")
    case True
    then have "i0 = i1" using uniq' [OF a] by simp
    have "sum (gap pred truth) M = gap pred truth (i1, j1) + sum (gap pred truth) (M - {(i1, j1)})"
      using fin a True by (simp add: sum.remove)
    moreover have "card M = Suc (card (M - {(i1, j1)}))" using fin a True card_Suc_Diff1 [of M "(i1, j1)"] by simp
    moreover have "matching pred truth tol (M - {(i1, j1)})" using M(1) by (auto simp: matching_def intro: inj_on_subset)
    ultimately show ?thesis using prec adm a True \<open>i0 = i1\<close>
      by (intro exI [of _ "(i1, j1)"] exI [of _ "M - {(i1, j1)}"]) force
  next
    case False
    then have "i0 \<noteq> i1" using uniq [OF b] by auto
    let ?R = "M - {(i1, j0)} - {(i0, j1)}" and ?c = "(i0, j0)"
    have c: "?c \<notin> M" using uniq' [OF b] inj_onD [OF inj(1) _ b, of ?c] False by auto
    have lt: "i0 < i1" "j0 < j1" using max [OF a] max [OF b] False \<open>i0 \<noteq> i1\<close> by auto
    have bounds: "i1 < length pred" "j1 < length truth" "\<bar>pred ! i0 - truth ! j1\<bar> \<le> tol" "\<bar>pred ! i1 - truth ! j0\<bar> \<le> tol"
      using adm [OF a] adm [OF b] by (auto simp: admissible_def)
    have le: "pred ! i0 \<le> pred ! i1" "truth ! j0 \<le> truth ! j1" using sorted lt bounds by (auto intro: sorted_nth_mono)
    note un = uncross_pair [OF le bounds(3,4)]
    have "sum (gap pred truth) M = gap pred truth (i1, j0) + (gap pred truth (i0, j1) + sum (gap pred truth) ?R)"
      using fin a b \<open>i0 \<noteq> i1\<close> by (simp add: sum.remove [of M "(i1, j0)"] sum.remove [of "M - {(i1, j0)}" "(i0, j1)"])
    then have "gap pred truth (i1, j1) + sum (gap pred truth) (insert ?c ?R) \<le> sum (gap pred truth) M"
      using fin c un(3) by (simp add: gap_def)
    moreover have "card M = Suc (card (insert ?c ?R))"
      using fin a b c \<open>i0 \<noteq> i1\<close> card_Suc_Diff1 [of M "(i1, j0)"] card_Suc_Diff1 [of "M - {(i1, j0)}" "(i0, j1)"] by simp
    moreover have "admissible pred truth tol ?c" "admissible pred truth tol (i1, j1)"
      using un(1,2) bounds lt by (auto simp: admissible_def)
    moreover have "fst x \<noteq> i0" "snd x \<noteq> j0" if "x \<in> ?R" for x
      using that inj_onD [OF inj(1) _ _ b, of x] inj_onD [OF inj(2) _ _ a, of x] by auto
    then have "matching pred truth tol (insert ?c ?R)"
      using fin inj adm \<open>admissible pred truth tol ?c\<close> by (auto simp: matching_def inj_on_insert intro: inj_on_subset)
    moreover have "precedes ?c (i1, j1)" using lt by (simp add: precedes_def)
    ultimately show ?thesis using prec a b
      by (intro exI [of _ "(i1, j1)"] exI [of _ "insert ?c ?R"]) force
  qed
qed

lemma uncross:
  assumes "sorted pred" "sorted truth" "matching pred truth tol M"
  shows "\<exists>ms. chain pred truth tol ms \<and> length ms = card M \<and> cost pred truth ms \<le> sum (gap pred truth) M \<and>
    (\<forall>x \<in> set ms. fst x \<in> fst ` M \<and> snd x \<in> snd ` M)"
  using assms(3)
proof (induction "card M" arbitrary: M)
  case 0
  then show ?case by (intro exI [of _ "[]"]) (auto simp: matching_def)
next
  case (Suc n)
  then have "M \<noteq> {}" by auto
  from uncross_max [OF assms(1,2) Suc.prems this] obtain m M' where m: "matching pred truth tol M'" "admissible pred truth tol m"
    "card M = Suc (card M')" "gap pred truth m + sum (gap pred truth) M' \<le> sum (gap pred truth) M"
    "\<forall>x \<in> M'. precedes x m \<and> fst x \<in> fst ` M \<and> snd x \<in> snd ` M" "fst m \<in> fst ` M" "snd m \<in> snd ` M" by blast
  from Suc.hyps(1) [OF _ m(1)] Suc.hyps(2) m(3) obtain ms where ms: "chain pred truth tol ms" "length ms = card M'"
    "cost pred truth ms \<le> sum (gap pred truth) M'" "\<forall>x \<in> set ms. fst x \<in> fst ` M' \<and> snd x \<in> snd ` M'" by auto
  have "precedes x m \<and> fst x \<in> fst ` M \<and> snd x \<in> snd ` M" if x: "x \<in> set ms" for x
  proof -
    obtain y z where "y \<in> M'" "fst x = fst y" "z \<in> M'" "snd x = snd z" using ms(4) x by auto
    then show ?thesis using m(5) by (auto simp: precedes_def)
  qed
  then show ?case using m ms by (intro exI [of _ "m # ms"]) auto
qed

lemma chain_matching:
  assumes "chain pred truth tol ms"
  shows "matching pred truth tol (set ms)" "distinct ms" "cost pred truth ms = sum (gap pred truth) (set ms)"
proof -
  show d: "distinct ms" using assms by (induction ms) (auto simp: precedes_def)
  have "inj_on fst (set ms)" "inj_on snd (set ms)"
    using assms by (induction ms) (auto simp: precedes_def inj_on_insert)
  then show "matching pred truth tol (set ms)" using assms by (auto simp: matching_def chain_def)
  show "cost pred truth ms = sum (gap pred truth) (set ms)" using d by (simp add: cost_def sum_list_distinct_conv_sum_set)
qed

text \<open>
  The matcher always returns, and what it returns is an increasing one-to-one matching within the tolerance that is
  optimal among all of them: no matching has more pairs, and none with as many has a smaller total error.
\<close>

lemma match_sorted_best:
  assumes "sorted pred" "sorted truth"
  shows "\<exists>ms. match_sorted pred truth tol = Some ms \<and> matching pred truth tol (set ms) \<and> distinct ms \<and> sorted_wrt precedes ms \<and>
    (\<forall>M. matching pred truth tol M \<longrightarrow>
       card M < length ms \<or> (card M = length ms \<and> sum (gap pred truth) (set ms) \<le> sum (gap pred truth) M))"
proof -
  obtain ms where ms: "match_sorted pred truth tol = Some ms" "chain pred truth tol (rev ms)"
    and best: "\<And>ms'. chain pred truth tol ms' \<Longrightarrow>
       length ms' < length ms \<or> (length ms' = length ms \<and> cost pred truth (rev ms) \<le> cost pred truth ms')"
    using match_sorted_best_chain [OF assms(2)] by blast
  have "card M < length ms \<or> (card M = length ms \<and> sum (gap pred truth) (set ms) \<le> sum (gap pred truth) M)"
    if M: "matching pred truth tol M" for M
  proof -
    obtain ms' where "chain pred truth tol ms'" "length ms' = card M" "cost pred truth ms' \<le> sum (gap pred truth) M"
      using uncross [OF assms M] by blast
    with best [of ms'] chain_matching(3) [OF ms(2)] show ?thesis by auto
  qed
  moreover have "sorted_wrt precedes ms" using ms(2) by (simp add: chain_def sorted_wrt_rev)
  ultimately show ?thesis using ms(1) chain_matching(1,2) [OF ms(2)] by auto
qed

section \<open>The score\<close>

record match_row =
  mr_prediction_index :: nat
  mr_truth_index :: nat
  mr_predicted_time_s :: rat
  mr_truth_time_s :: rat
  mr_error_s :: rat

record event_score =
  es_TP :: nat
  es_FP :: nat
  es_FN :: nat
  es_precision :: "rat option"
  es_recall :: "rat option"
  es_F1 :: "rat option"
  es_count_error :: int
  es_absolute_count_error :: int
  es_predicted_count :: nat
  es_truth_count :: nat
  es_scored_duration_s :: "rat option"
  es_false_positives_per_minute :: "rat option"
  es_tolerance_s :: rat
  es_mean_absolute_timing_error_s :: "rat option"
  es_matched :: "match_row list"
  es_unmatched_prediction_indices :: "nat list"
  es_unmatched_truth_indices :: "nat list"
  es_unmatched_prediction_times_s :: "rat list"
  es_unmatched_truth_times_s :: "rat list"
  es_excluded_prediction_indices :: "nat list"
  es_excluded_truth_indices :: "nat list"
  es_score_intervals :: "piece list"

definition in_piece :: "rat list \<Rightarrow> piece \<Rightarrow> nat list" where
  "in_piece ts p = filter (\<lambda>i. inside p (ts ! i)) [0..<length ts]"

definition sorted_indices :: "rat list \<Rightarrow> piece \<Rightarrow> nat list" where
  "sorted_indices ts p = sort_key (\<lambda>i. ts ! i) (in_piece ts p)"

definition match_row_of :: "rat list \<Rightarrow> rat list \<Rightarrow> nat \<times> nat \<Rightarrow> match_row" where
  "match_row_of pred truth pt =
     (case pt of (p, t) \<Rightarrow>
        \<lparr> mr_prediction_index = p, mr_truth_index = t, mr_predicted_time_s = pred ! p, mr_truth_time_s = truth ! t,
          mr_error_s = pred ! p - truth ! t \<rparr>)"

text \<open>The loop over the pieces of the support; \<open>None\<close> would be a matcher that does not return.\<close>

fun match_pieces :: "rat list \<Rightarrow> rat list \<Rightarrow> rat \<Rightarrow> piece list \<Rightarrow> match_row list \<Rightarrow> match_row list option" where
  "match_pieces pred truth tol [] matched = Some matched"
| "match_pieces pred truth tol (p # ps) matched =
     (let pix = sorted_indices pred p; tix = sorted_indices truth p in
      case match_sorted (map ((!) pred) pix) (map ((!) truth) tix) tol of
        None \<Rightarrow> None
      | Some ms \<Rightarrow> match_pieces pred truth tol ps (matched @ map (\<lambda>(i, j). match_row_of pred truth (pix ! i, tix ! j)) ms))"

definition kept :: "rat list \<Rightarrow> piece list \<Rightarrow> nat \<Rightarrow> bool" where
  "kept ts support i \<longleftrightarrow> (\<exists>p \<in> set support. inside p (ts ! i))"

definition piece_duration :: "piece \<Rightarrow> rat option" where
  "piece_duration p = (case p of (Some start, Some stop) \<Rightarrow> Some (stop - start) | _ \<Rightarrow> None)"

text \<open>The sum of the lengths of the pieces, \<open>None\<close> for the infinite one.\<close>

fun duration_of :: "piece list \<Rightarrow> rat option" where
  "duration_of [] = Some 0"
| "duration_of (p # ps) =
     (case (piece_duration p, duration_of ps) of (Some d, Some ds) \<Rightarrow> Some (d + ds) | _ \<Rightarrow> None)"

definition ratio :: "nat \<Rightarrow> nat \<Rightarrow> rat option" where
  "ratio a b = (if b = 0 then None else Some (of_nat a / of_nat b))"

definition score_of :: "rat list \<Rightarrow> rat list \<Rightarrow> rat \<Rightarrow> piece list \<Rightarrow> match_row list \<Rightarrow> event_score" where
  "score_of pred truth tolerance_s support rows =
     (let matched = sort_key (\<lambda>row. (mr_predicted_time_s row, mr_prediction_index row)) rows;
          used_pred = set (map mr_prediction_index matched);
          used_truth = set (map mr_truth_index matched);
          unmatched_pred = filter (\<lambda>i. i \<notin> used_pred) (filter (kept pred support) [0..<length pred]);
          unmatched_truth = filter (\<lambda>i. i \<notin> used_truth) (filter (kept truth support) [0..<length truth]);
          tp = length matched; fp = length unmatched_pred; fn = length unmatched_truth;
          duration = duration_of support in
      \<lparr> es_TP = tp, es_FP = fp, es_FN = fn,
        es_precision = ratio tp (tp + fp), es_recall = ratio tp (tp + fn),
        es_F1 = (if tp + fp + fn = 0 then None else Some (of_nat (2 * tp) / of_nat (2 * tp + fp + fn))),
        es_count_error = int fp - int fn, es_absolute_count_error = \<bar>int fp - int fn\<bar>,
        es_predicted_count = tp + fp, es_truth_count = tp + fn,
        es_scored_duration_s = duration,
        es_false_positives_per_minute =
          (case duration of Some d \<Rightarrow> if d > 0 then Some (60 * of_nat fp / d) else None | None \<Rightarrow> None),
        es_tolerance_s = tolerance_s,
        es_mean_absolute_timing_error_s =
          (if matched = [] then None else Some (sum_list (map (\<lambda>row. \<bar>mr_error_s row\<bar>) matched) / of_nat (length matched))),
        es_matched = matched,
        es_unmatched_prediction_indices = unmatched_pred, es_unmatched_truth_indices = unmatched_truth,
        es_unmatched_prediction_times_s = map ((!) pred) unmatched_pred, es_unmatched_truth_times_s = map ((!) truth) unmatched_truth,
        es_excluded_prediction_indices = filter (\<lambda>i. \<not> kept pred support i) [0..<length pred],
        es_excluded_truth_indices = filter (\<lambda>i. \<not> kept truth support i) [0..<length truth],
        es_score_intervals = support \<rparr>)"

definition score_events ::
    "rat list \<Rightarrow> rat list \<Rightarrow> rat \<Rightarrow> (rat \<times> rat) list option \<Rightarrow> (rat \<times> rat) list option \<Rightarrow> event_score result option" where
  "score_events pred truth tolerance_s score_intervals exclude_intervals =
     (if tolerance_s < 0 then Some (Inl (Exn ValueError ''tolerance_s must be finite and nonnegative''))
      else
        case scored_support score_intervals exclude_intervals of
          Inl e \<Rightarrow> Some (Inl e)
        | Inr support \<Rightarrow>
            map_option (\<lambda>rows. Inr (score_of pred truth tolerance_s support rows)) (match_pieces pred truth tolerance_s support []))"

section \<open>The support is a partition\<close>

text \<open>How many intervals, and how many pieces, contain a time.\<close>

definition hits :: "rat \<Rightarrow> (rat \<times> rat) list \<Rightarrow> nat" where
  "hits t xs = length (filter (\<lambda>(a, b). a \<le> t \<and> t < b) xs)"

definition piece_hits :: "rat \<Rightarrow> piece list \<Rightarrow> nat" where
  "piece_hits t ps = length (filter (\<lambda>p. inside p t) ps)"

definition separated :: "(rat \<times> rat) list \<Rightarrow> bool" where
  "separated xs \<longleftrightarrow> sorted_wrt (\<lambda>x y. snd y \<le> fst x) xs \<and> (\<forall>x \<in> set xs. fst x < snd x)"

lemma hits_simps [simp]:
  "hits t [] = 0" "hits t ((a, b) # xs) = (if a \<le> t \<and> t < b then 1 else 0) + hits t xs" "hits t (rev xs) = hits t xs"
  by (auto simp: hits_def rev_filter [symmetric])

lemma hits_sort [simp]: "hits t (sort xs) = hits t xs"
proof -
  have "mset (filter P (sort xs)) = mset (filter P xs)" for P by (simp add: mset_filter)
  then show ?thesis unfolding hits_def by (metis size_mset)
qed

lemma separated_hits: "separated xs \<Longrightarrow> hits t xs \<le> 1"
proof (induction xs)
  case (Cons x xs)
  obtain a b where x: "x = (a, b)" by (cases x)
  have "hits t xs = 0" if "a \<le> t"
    using Cons.prems that by (auto simp: hits_def filter_empty_conv separated_def x)
  moreover have "hits t xs \<le> 1" using Cons by (simp add: separated_def)
  ultimately show ?case by (simp add: x)
qed simp

lemma merge_intervals_spec:
  "merge_intervals name merged rest = Inr ms \<Longrightarrow> separated merged \<Longrightarrow> \<forall>x \<in> set rest. fst x < snd x \<Longrightarrow>
     separated (rev ms) \<and> hits t ms = hits t merged + hits t rest"
proof (induction name merged rest arbitrary: ms rule: merge_intervals.induct)
  case (2 name merged start stop rest)
  show ?case
  proof (cases merged)
    case Nil
    then show ?thesis using 2 by (simp add: separated_def)
  next
    case (Cons ab older)
    obtain a b where ab: "ab = (a, b)" by (cases ab)
    have lt: "a < b" "start < stop" "\<not> start < b" using 2 by (auto simp: Cons ab separated_def split: if_splits)
    have old: "snd x \<le> a" if "x \<in> set older" for x using 2 that by (auto simp: Cons ab separated_def)
    show ?thesis
    proof (cases "start = b")
      case True
      have "separated ((a, stop) # older)" using "2.prems"(2) lt True by (auto simp: Cons ab separated_def)
      with 2 lt show ?thesis by (auto simp: Cons ab True)
    next
      case False
      have "separated ((start, stop) # merged)" using "2.prems"(2) lt old by (fastforce simp: Cons ab separated_def)
      with 2 lt False show ?thesis by (auto simp: Cons ab)
    qed
  qed
qed simp

text \<open>Accepted intervals do not overlap, and canonicalising keeps the set they cover.\<close>

lemma intervals_spec:
  assumes "intervals name vs = Inr ms"
  shows "hits t ms = hits t vs" "hits t vs \<le> 1" "\<forall>x \<in> set ms. fst x < snd x"
proof -
  obtain result where result: "rmapM (check_interval name) vs = Inr result" "merge_intervals name [] (sort result) = Inr ms"
    using assms by (auto simp: intervals_def rbind_Inr_iff)
  have "result = vs \<and> (\<forall>x \<in> set vs. fst x < snd x)" using result(1)
    by (induction vs arbitrary: result) (auto simp: check_interval_def rbind_Inr_iff split: prod.splits if_splits)
  with result(2) merge_intervals_spec [of name "[]" "sort result" ms t]
  have "separated (rev ms)" "hits t ms = hits t vs" by (auto simp: separated_def)
  then show "hits t ms = hits t vs" "hits t vs \<le> 1" "\<forall>x \<in> set ms. fst x < snd x"
    using separated_hits [of "rev ms" t] by (auto simp: separated_def)
qed

lemma piece_hits_append [simp]: "piece_hits t (xs @ ys) = piece_hits t xs + piece_hits t ys"
  by (simp add: piece_hits_def)

lemma exclude_hits:
  assumes "fst ex < snd ex"
  shows "piece_hits t (exclude ex p) = (if inside p t \<and> \<not> (fst ex \<le> t \<and> t < snd ex) then 1 else 0)"
  using assms by (cases ex; cases p) (auto simp: exclude_def piece_hits_def inside_def above_def below_def split: option.splits)

lemma exclude_all_hits:
  assumes "fst ex < snd ex"
  shows "piece_hits t (concat (map (exclude ex) ps)) = (if fst ex \<le> t \<and> t < snd ex then 0 else piece_hits t ps)"
  by (induction ps) (auto simp: exclude_hits [OF assms], auto simp: piece_hits_def)

lemma exclusions_hits:
  assumes "\<forall>x \<in> set exs. fst x < snd x"
  shows "piece_hits t (foldl (\<lambda>support ex. concat (map (exclude ex) support)) ps exs) = (if hits t exs = 0 then piece_hits t ps else 0)"
  using assms by (induction exs arbitrary: ps) (auto simp: exclude_all_hits)

text \<open>A time lies in one piece of the support exactly when it is scored and not excluded, and never in two.\<close>

lemma scored_support_hits:
  assumes "scored_support si xi = Inr support"
  shows "piece_hits t support =
    (if (case si of None \<Rightarrow> True | Some vs \<Rightarrow> 0 < hits t vs) \<and> hits t (case xi of None \<Rightarrow> [] | Some vs \<Rightarrow> vs) = 0 then 1 else 0)"
proof -
  let ?xi = "case xi of None \<Rightarrow> [] | Some vs \<Rightarrow> vs"
  obtain ps exs where ps: "(case si of None \<Rightarrow> Inr [(None, None)]
      | Some vs \<Rightarrow> rbind (intervals ''score_intervals'' vs) (\<lambda>ps. Inr (map (\<lambda>(a, b). (Some a, Some b)) ps))) = Inr ps"
    and exs: "intervals ''exclude_intervals'' ?xi = Inr exs"
    and support: "support = foldl (\<lambda>support ex. concat (map (exclude ex) support)) ps exs"
    using assms by (auto simp: scored_support_def rbind_Inr_iff)
  have lifted: "piece_hits t (map (\<lambda>(a, b). (Some a, Some b)) vs) = hits t vs" for vs
    by (induction vs) (auto simp: piece_hits_def inside_def above_def below_def)
  have "piece_hits t ps = (if (case si of None \<Rightarrow> True | Some vs \<Rightarrow> 0 < hits t vs) then 1 else 0)"
  proof (cases si)
    case None
    then show ?thesis using ps by (auto simp: piece_hits_def inside_def above_def below_def)
  next
    case (Some vs)
    then obtain ms where "intervals ''score_intervals'' vs = Inr ms" "ps = map (\<lambda>(a, b). (Some a, Some b)) ms"
      using ps by (auto simp: rbind_Inr_iff)
    then show ?thesis using intervals_spec(1,2) [of "''score_intervals''" vs ms t] by (auto simp: Some lifted)
  qed
  then show ?thesis
    using exclusions_hits [of exs t ps] intervals_spec(1) [OF exs, of t] intervals_spec(3) [OF exs] by (simp add: support)
qed

section \<open>Matching the pieces\<close>

lemma sorted_indices_props [simp]:
  "distinct (sorted_indices ts p)" "i \<in> set (sorted_indices ts p) \<longleftrightarrow> i < length ts \<and> inside p (ts ! i)"
  "sorted (map ((!) ts) (sorted_indices ts p))"
  by (auto simp: sorted_indices_def in_piece_def)

definition at_indices :: "nat list \<Rightarrow> nat list \<Rightarrow> nat \<times> nat \<Rightarrow> nat \<times> nat" where
  "at_indices pix tix = (\<lambda>(i, j). (pix ! i, tix ! j))"

text \<open>A matching of the selected times is one of all times, with the same pairs and the same error.\<close>

lemma matching_at_indices:
  assumes "distinct pix" "distinct tix" "\<forall>i \<in> set pix. i < length pred" "\<forall>j \<in> set tix. j < length truth"
    and M: "matching (map ((!) pred) pix) (map ((!) truth) tix) tol M"
  shows "matching pred truth tol (at_indices pix tix ` M)" "inj_on (at_indices pix tix) M"
    "card (at_indices pix tix ` M) = card M"
    "sum (gap pred truth) (at_indices pix tix ` M) = sum (gap (map ((!) pred) pix) (map ((!) truth) tix)) M"
proof -
  have adm: "i < length pix \<and> j < length tix \<and> \<bar>pred ! (pix ! i) - truth ! (tix ! j)\<bar> \<le> tol" if "(i, j) \<in> M" for i j
    using M that by (force simp: matching_def admissible_def)
  have eq: "i = i' \<longleftrightarrow> j = j'" if "(i, j) \<in> M" "(i', j') \<in> M" for i j i' j'
    using M that inj_onD [of fst M "(i, j)" "(i', j')"] inj_onD [of snd M "(i, j)" "(i', j')"] by (auto simp: matching_def)
  have nth: "pix ! i = pix ! i' \<longleftrightarrow> i = i'" "tix ! j = tix ! j' \<longleftrightarrow> j = j'" if "(i, j) \<in> M" "(i', j') \<in> M" for i j i' j'
    using adm that assms(1,2) by (auto simp: nth_eq_iff_index_eq)
  show inj: "inj_on (at_indices pix tix) M" using nth by (auto simp: inj_on_def at_indices_def)
  have "inj_on fst (at_indices pix tix ` M)" "inj_on snd (at_indices pix tix ` M)"
    using nth eq by (auto intro!: inj_onI simp: at_indices_def)
  then show "matching pred truth tol (at_indices pix tix ` M)"
    using M adm assms(3,4) by (fastforce simp: matching_def at_indices_def admissible_def)
  show "card (at_indices pix tix ` M) = card M" by (rule card_image [OF inj])
  have "sum (gap pred truth) (at_indices pix tix ` M) = sum (gap pred truth \<circ> at_indices pix tix) M"
    by (rule sum.reindex [OF inj])
  also have "\<dots> = sum (gap (map ((!) pred) pix) (map ((!) truth) tix)) M"
    using adm by (intro sum.cong) (auto simp: gap_def at_indices_def)
  finally show "sum (gap pred truth) (at_indices pix tix ` M) = sum (gap (map ((!) pred) pix) (map ((!) truth) tix)) M" .
qed

lemma matching_from_indices:
  assumes "distinct pix" "distinct tix" "matching pred truth tol M" "\<forall>m \<in> M. fst m \<in> set pix \<and> snd m \<in> set tix"
  shows "\<exists>M'. matching (map ((!) pred) pix) (map ((!) truth) tix) tol M' \<and> at_indices pix tix ` M' = M"
proof -
  define M' where "M' = {(i, j). i < length pix \<and> j < length tix \<and> (pix ! i, tix ! j) \<in> M}"
  have "M' \<subseteq> {..<length pix} \<times> {..<length tix}" by (auto simp: M'_def)
  then have "finite M'" by (rule finite_subset) simp
  moreover have "i = i' \<longleftrightarrow> j = j'" if "(i, j) \<in> M'" "(i', j') \<in> M'" for i j i' j'
    using assms(1-3) that inj_onD [of fst M "(pix ! i, tix ! j)" "(pix ! i', tix ! j')"]
      inj_onD [of snd M "(pix ! i, tix ! j)" "(pix ! i', tix ! j')"]
    by (auto simp: M'_def matching_def nth_eq_iff_index_eq)
  then have "inj_on fst M'" "inj_on snd M'" by (auto intro!: inj_onI)
  moreover have "admissible (map ((!) pred) pix) (map ((!) truth) tix) tol m" if "m \<in> M'" for m
    using assms(3) that by (force simp: M'_def matching_def admissible_def)
  moreover have "at_indices pix tix ` M' = M"
  proof
    show "at_indices pix tix ` M' \<subseteq> M" by (auto simp: M'_def at_indices_def)
    show "M \<subseteq> at_indices pix tix ` M'"
    proof (rule subsetI)
      fix m assume m: "m \<in> M"
      obtain p t where pt: "m = (p, t)" by (cases m)
      obtain i j where "i < length pix" "pix ! i = p" "j < length tix" "tix ! j = t"
        using assms(4) m pt by (auto simp: in_set_conv_nth)
      with m pt show "m \<in> at_indices pix tix ` M'" by (intro image_eqI [of _ _ "(i, j)"]) (auto simp: M'_def at_indices_def)
    qed
  qed
  ultimately show ?thesis by (auto simp: matching_def)
qed

definition in_support :: "rat list \<Rightarrow> rat list \<Rightarrow> piece list \<Rightarrow> nat \<times> nat \<Rightarrow> bool" where
  "in_support pred truth ps m \<longleftrightarrow> (\<exists>p \<in> set ps. inside p (pred ! fst m) \<and> inside p (truth ! snd m))"

text \<open>An optimal matching among those whose pairs lie in one piece of the support.\<close>

definition optimal :: "rat list \<Rightarrow> rat list \<Rightarrow> rat \<Rightarrow> piece list \<Rightarrow> (nat \<times> nat) set \<Rightarrow> bool" where
  "optimal pred truth tol ps B \<longleftrightarrow> matching pred truth tol B \<and> (\<forall>m \<in> B. in_support pred truth ps m) \<and>
     (\<forall>M. matching pred truth tol M \<and> (\<forall>m \<in> M. in_support pred truth ps m) \<longrightarrow>
        card M < card B \<or> (card M = card B \<and> sum (gap pred truth) B \<le> sum (gap pred truth) M))"

lemma piece_optimal:
  fixes pred truth :: "rat list" and p :: piece
  defines "pix \<equiv> sorted_indices pred p" and "tix \<equiv> sorted_indices truth p"
  shows "\<exists>ms. match_sorted (map ((!) pred) pix) (map ((!) truth) tix) tol = Some ms \<and>
    distinct (map (at_indices pix tix) ms) \<and> optimal pred truth tol [p] (at_indices pix tix ` set ms)"
proof -
  let ?P = "map ((!) pred) pix" and ?T = "map ((!) truth) tix"
  have idx: "distinct pix" "distinct tix" "\<forall>i \<in> set pix. i < length pred" "\<forall>j \<in> set tix. j < length truth"
    by (simp_all add: pix_def tix_def)
  have "sorted ?P" "sorted ?T" by (simp_all add: pix_def tix_def)
  from match_sorted_best [OF this, of tol] obtain ms where ms: "match_sorted ?P ?T tol = Some ms"
    "matching ?P ?T tol (set ms)" "distinct ms"
    and best: "\<And>M. matching ?P ?T tol M \<Longrightarrow> card M < length ms \<or> (card M = length ms \<and> sum (gap ?P ?T) (set ms) \<le> sum (gap ?P ?T) M)"
    by blast
  note up = matching_at_indices [OF idx]
  have "in_support pred truth [p] (at_indices pix tix m)" if m: "m \<in> set ms" for m
  proof -
    obtain i j where ij: "m = (i, j)" by (cases m)
    then have "i < length pix" "j < length tix" using ms(2) m by (force simp: matching_def admissible_def)+
    then have "pix ! i \<in> set pix" "tix ! j \<in> set tix" by simp_all
    then show ?thesis by (simp add: in_support_def at_indices_def ij pix_def tix_def)
  qed
  moreover have "card M < card (at_indices pix tix ` set ms) \<or> (card M = card (at_indices pix tix ` set ms) \<and>
      sum (gap pred truth) (at_indices pix tix ` set ms) \<le> sum (gap pred truth) M)"
    if M: "matching pred truth tol M" "\<forall>m \<in> M. in_support pred truth [p] m" for M
  proof -
    have "fst m \<in> set pix \<and> snd m \<in> set tix" if "m \<in> M" for m
      using M that by (force simp: matching_def admissible_def in_support_def pix_def tix_def)
    then obtain M' where M': "matching ?P ?T tol M'" "at_indices pix tix ` M' = M"
      using matching_from_indices [OF idx(1,2) M(1)] by blast
    show ?thesis using best [OF M'(1)] up(3,4) [OF M'(1)] up(3,4) [OF ms(2)] distinct_card [OF ms(3)] by (simp add: M'(2))
  qed
  ultimately have "optimal pred truth tol [p] (at_indices pix tix ` set ms)" using up(1) [OF ms(2)] by (auto simp: optimal_def)
  moreover have "distinct (map (at_indices pix tix) ms)" using ms(3) up(2) [OF ms(2)] by (simp add: distinct_map)
  ultimately show ?thesis using ms(1) by blast
qed

lemma inside_unique:
  assumes "piece_hits t (p # ps) \<le> 1" "inside p t" "q \<in> set ps"
  shows "\<not> inside q t"
proof -
  have "filter (\<lambda>p. inside p t) ps = []" using assms(1,2) by (simp add: piece_hits_def)
  with assms(3) show ?thesis by (auto simp: filter_empty_conv)
qed

text \<open>Optimal matchings of disjoint pieces make an optimal matching of their union.\<close>

lemma optimal_union:
  assumes disj: "\<And>t. piece_hits t (p # ps) \<le> 1"
    and A: "optimal pred truth tol [p] A" and B: "optimal pred truth tol ps B"
  shows "A \<inter> B = {}" "optimal pred truth tol (p # ps) (A \<union> B)"
proof -
  have apart: "fst a \<noteq> fst b \<and> snd a \<noteq> snd b" if "in_support pred truth [p] a" "in_support pred truth ps b" for a b
    using that inside_unique [OF disj] by (auto simp: in_support_def)
  have mA: "matching pred truth tol A" "\<forall>m \<in> A. in_support pred truth [p] m"
    and mB: "matching pred truth tol B" "\<forall>m \<in> B. in_support pred truth ps m" using A B by (auto simp: optimal_def)
  show AB: "A \<inter> B = {}" using apart mA(2) mB(2) by blast
  have inj: "inj_on f (A \<union> B)" if "inj_on f A" "inj_on f B" "\<And>a b. a \<in> A \<Longrightarrow> b \<in> B \<Longrightarrow> f a \<noteq> f b" for f :: "nat \<times> nat \<Rightarrow> nat"
    using that by (auto simp: inj_on_Un)
  have union: "matching pred truth tol (A \<union> B)"
    using mA mB apart inj [of fst] inj [of snd] by (simp add: matching_def) blast
  have cards: "card (A \<union> B) = card A + card B" "sum (gap pred truth) (A \<union> B) = sum (gap pred truth) A + sum (gap pred truth) B"
    using AB mA(1) mB(1) by (simp_all add: matching_def card_Un_disjoint sum.union_disjoint)
  have "card M < card (A \<union> B) \<or> (card M = card (A \<union> B) \<and> sum (gap pred truth) (A \<union> B) \<le> sum (gap pred truth) M)"
    if M: "matching pred truth tol M" "\<forall>m \<in> M. in_support pred truth (p # ps) m" for M
  proof -
    define M1 where "M1 = {m \<in> M. in_support pred truth [p] m}"
    define M2 where "M2 = {m \<in> M. in_support pred truth ps m}"
    have "M = M1 \<union> M2" using M(2) by (auto simp: M1_def M2_def in_support_def)
    moreover have "M1 \<inter> M2 = {}" unfolding M1_def M2_def using apart by blast
    ultimately have split: "M = M1 \<union> M2" "M1 \<inter> M2 = {}" by blast+
    have sub: "matching pred truth tol M1" "matching pred truth tol M2"
      using M(1) by (auto simp: matching_def M1_def M2_def intro: inj_on_subset)
    have "card M = card M1 + card M2" "sum (gap pred truth) M = sum (gap pred truth) M1 + sum (gap pred truth) M2"
      using split sub by (simp_all add: matching_def card_Un_disjoint sum.union_disjoint)
    moreover have "card M1 < card A \<or> (card M1 = card A \<and> sum (gap pred truth) A \<le> sum (gap pred truth) M1)"
      "card M2 < card B \<or> (card M2 = card B \<and> sum (gap pred truth) B \<le> sum (gap pred truth) M2)"
      using A B sub by (auto simp: optimal_def M1_def M2_def)
    ultimately show ?thesis unfolding cards by auto
  qed
  moreover have "\<forall>m \<in> A \<union> B. in_support pred truth (p # ps) m" using mA(2) mB(2) by (auto simp: in_support_def)
  ultimately show "optimal pred truth tol (p # ps) (A \<union> B)" using union by (simp add: optimal_def)
qed

lemma optimal_none: "optimal pred truth tol [] {}"
proof -
  have "(\<forall>m \<in> M. in_support pred truth [] m) \<longleftrightarrow> M = {}" for M by (auto simp: in_support_def)
  then show ?thesis by (simp add: optimal_def) (simp add: matching_def)
qed

text \<open>The loop over the pieces returns, and its rows are an optimal matching of the whole support.\<close>

lemma match_pieces_optimal:
  assumes "\<And>t. piece_hits t ps \<le> 1"
  shows "\<exists>prs. match_pieces pred truth tol ps matched = Some (matched @ map (match_row_of pred truth) prs) \<and>
    distinct prs \<and> optimal pred truth tol ps (set prs)"
  using assms
proof (induction ps arbitrary: matched)
  case Nil
  then show ?case by (intro exI [of _ "[]"]) (simp add: optimal_none)
next
  case (Cons p ps)
  let ?pix = "sorted_indices pred p" and ?tix = "sorted_indices truth p"
  obtain ms where ms: "match_sorted (map ((!) pred) ?pix) (map ((!) truth) ?tix) tol = Some ms"
    "distinct (map (at_indices ?pix ?tix) ms)" "optimal pred truth tol [p] (at_indices ?pix ?tix ` set ms)"
    using piece_optimal by blast
  have hits: "piece_hits t ps \<le> 1" for t using Cons.prems [of t] by (simp add: piece_hits_def split: if_splits)
  have rows: "(\<lambda>(i, j). match_row_of pred truth (?pix ! i, ?tix ! j)) = match_row_of pred truth \<circ> at_indices ?pix ?tix"
    by (auto simp: at_indices_def fun_eq_iff)
  from Cons.IH [OF hits, of "matched @ map (match_row_of pred truth \<circ> at_indices ?pix ?tix) ms"]
  obtain prs where prs: "match_pieces pred truth tol ps (matched @ map (match_row_of pred truth \<circ> at_indices ?pix ?tix) ms) =
      Some ((matched @ map (match_row_of pred truth \<circ> at_indices ?pix ?tix) ms) @ map (match_row_of pred truth) prs)"
    "distinct prs" "optimal pred truth tol ps (set prs)" by blast
  note u = optimal_union [OF Cons.prems ms(3) prs(3)]
  show ?case using ms(1,2) prs(1,2) u
    by (intro exI [of _ "map (at_indices ?pix ?tix) ms @ prs"]) (simp add: rows)
qed

section \<open>The score accounts for every event\<close>

definition in_scope :: "(rat \<times> rat) list option \<Rightarrow> (rat \<times> rat) list option \<Rightarrow> rat \<Rightarrow> bool" where
  "in_scope si xi t \<longleftrightarrow> (case si of None \<Rightarrow> True | Some vs \<Rightarrow> 0 < hits t vs) \<and> hits t (case xi of None \<Rightarrow> [] | Some vs \<Rightarrow> vs) = 0"

lemma kept_in_scope:
  assumes "scored_support si xi = Inr support"
  shows "kept ts support i \<longleftrightarrow> in_scope si xi (ts ! i)"
proof -
  have "kept ts support i \<longleftrightarrow> piece_hits (ts ! i) support > 0"
    by (auto simp: kept_def piece_hits_def filter_empty_conv)
  then show ?thesis by (simp add: scored_support_hits [OF assms] in_scope_def)
qed

text \<open>Used, kept but not used, and not kept partition the indices.\<close>

lemma index_partition:
  assumes "distinct us" "\<forall>u \<in> set us. u < n \<and> K u"
  shows "mset us + mset (filter (\<lambda>i. i \<notin> set us) (filter K [0..<n])) + mset (filter (\<lambda>i. \<not> K i) [0..<n]) = mset [0..<n]"
    "length us + length (filter (\<lambda>i. i \<notin> set us) (filter K [0..<n])) = length (filter K [0..<n])"
proof -
  have "mset us = mset (filter (\<lambda>i. i \<in> set us) (filter K [0..<n]))"
    using assms by (intro set_eq_iff_mset_eq_distinct [THEN iffD1]) auto
  then have us: "mset us + mset (filter (\<lambda>i. i \<notin> set us) (filter K [0..<n])) = mset (filter K [0..<n])"
    by (simp only: mset_filter multiset_partition [symmetric])
  then show "mset us + mset (filter (\<lambda>i. i \<notin> set us) (filter K [0..<n])) + mset (filter (\<lambda>i. \<not> K i) [0..<n]) = mset [0..<n]"
    by (simp only: mset_filter multiset_partition [symmetric])
  show "length us + length (filter (\<lambda>i. i \<notin> set us) (filter K [0..<n])) = length (filter K [0..<n])"
    using arg_cong [OF us, of size] by (simp only: size_union size_mset)
qed

definition row_pair :: "match_row \<Rightarrow> nat \<times> nat" where
  "row_pair r = (mr_prediction_index r, mr_truth_index r)"

lemma row_pair_of [simp]: "row_pair (match_row_of pred truth m) = m"
  by (cases m) (simp add: row_pair_def match_row_of_def)

lemma score_of_accounts:
  assumes "distinct prs" "optimal pred truth tol support (set prs)"
  defines "s \<equiv> score_of pred truth tol support (map (match_row_of pred truth) prs)"
  shows "mset (map row_pair (es_matched s)) = mset prs"
    "mset (map mr_prediction_index (es_matched s)) + mset (es_unmatched_prediction_indices s) + mset (es_excluded_prediction_indices s) = mset [0..<length pred]"
    "mset (map mr_truth_index (es_matched s)) + mset (es_unmatched_truth_indices s) + mset (es_excluded_truth_indices s) = mset [0..<length truth]"
    "es_TP s + es_FP s = length (filter (kept pred support) [0..<length pred])"
    "es_TP s + es_FN s = length (filter (kept truth support) [0..<length truth])"
proof -
  let ?rows = "sort_key (\<lambda>row. (mr_predicted_time_s row, mr_prediction_index row)) (map (match_row_of pred truth) prs)"
  have fields: "es_matched s = ?rows"
    "es_unmatched_prediction_indices s = filter (\<lambda>i. i \<notin> set (map mr_prediction_index ?rows)) (filter (kept pred support) [0..<length pred])"
    "es_unmatched_truth_indices s = filter (\<lambda>i. i \<notin> set (map mr_truth_index ?rows)) (filter (kept truth support) [0..<length truth])"
    "es_excluded_prediction_indices s = filter (\<lambda>i. \<not> kept pred support i) [0..<length pred]"
    "es_excluded_truth_indices s = filter (\<lambda>i. \<not> kept truth support i) [0..<length truth]"
    "es_TP s = length ?rows" "es_FP s = length (es_unmatched_prediction_indices s)" "es_FN s = length (es_unmatched_truth_indices s)"
    by (simp_all add: s_def score_of_def Let_def)
  have pairs: "mset (map row_pair ?rows) = mset prs" by (simp add: multiset.map_comp comp_def)
  then show "mset (map row_pair (es_matched s)) = mset prs" by (simp add: fields)
  have idx: "map mr_prediction_index ?rows = map fst (map row_pair ?rows)" "map mr_truth_index ?rows = map snd (map row_pair ?rows)"
    by (simp_all add: row_pair_def)
  have d: "distinct (map row_pair ?rows)" "set (map row_pair ?rows) = set prs"
    using pairs assms(1) by (metis mset_eq_imp_distinct_iff) (metis pairs mset_eq_setD)
  have M: "inj_on fst (set prs)" "inj_on snd (set prs)"
    "\<forall>(i, j) \<in> set prs. i < length pred \<and> j < length truth \<and> kept pred support i \<and> kept truth support j"
    using assms(2) by (simp_all add: optimal_def matching_def) (fastforce simp: admissible_def in_support_def kept_def)
  have "distinct (map mr_prediction_index ?rows)" "distinct (map mr_truth_index ?rows)"
    unfolding idx using d M by (simp_all only: distinct_map simp_thms)
  moreover have "\<forall>u \<in> set (map mr_prediction_index ?rows). u < length pred \<and> kept pred support u"
    "\<forall>u \<in> set (map mr_truth_index ?rows). u < length truth \<and> kept truth support u"
    unfolding idx set_map [of fst] set_map [of snd] d(2) using M(3) by auto
  ultimately have P: "distinct (map mr_prediction_index ?rows)" "\<forall>u \<in> set (map mr_prediction_index ?rows). u < length pred \<and> kept pred support u"
    and T: "distinct (map mr_truth_index ?rows)" "\<forall>u \<in> set (map mr_truth_index ?rows). u < length truth \<and> kept truth support u" by blast+
  show "mset (map mr_prediction_index (es_matched s)) + mset (es_unmatched_prediction_indices s) + mset (es_excluded_prediction_indices s) = mset [0..<length pred]"
    unfolding fields by (rule index_partition(1) [OF P])
  show "mset (map mr_truth_index (es_matched s)) + mset (es_unmatched_truth_indices s) + mset (es_excluded_truth_indices s) = mset [0..<length truth]"
    unfolding fields by (rule index_partition(1) [OF T])
  show "es_TP s + es_FP s = length (filter (kept pred support) [0..<length pred])"
    unfolding fields using index_partition(2) [OF P] by simp
  show "es_TP s + es_FN s = length (filter (kept truth support) [0..<length truth])"
    unfolding fields using index_partition(2) [OF T] by simp
qed

lemma score_events_cases:
  "\<exists>r. score_events pred truth tol si xi = Some r \<and>
    (r = Inr s \<longrightarrow> (\<exists>prs support. scored_support si xi = Inr support \<and> distinct prs \<and> optimal pred truth tol support (set prs) \<and>
       s = score_of pred truth tol support (map (match_row_of pred truth) prs)))"
proof (cases "tol < 0 \<or> (\<exists>e. scored_support si xi = Inl e)")
  case True
  then show ?thesis by (auto simp: score_events_def)
next
  case False
  then obtain support where sup: "scored_support si xi = Inr support" by (cases "scored_support si xi") auto
  have "piece_hits t support \<le> 1" for t by (simp add: scored_support_hits [OF sup])
  from match_pieces_optimal [OF this, of pred truth tol "[]"] obtain prs where
    "match_pieces pred truth tol support [] = Some (map (match_row_of pred truth) prs)" "distinct prs" "optimal pred truth tol support (set prs)"
    by auto
  then show ?thesis using False sup by (auto simp: score_events_def)
qed

section \<open>Properties\<close>





end
