(* ===== verification/Energy_Logger.thy ===== *)
theory Energy_Logger
  imports Complex_Main Prelude Py_Strings
begin

text \<open>
  The INA228 energy logger, \<^verbatim>\<open>sw/measurement/ina228/device_code_sync.py\<close>: the SYNC command reader, one
  measurement session with its latched faults and its schedule, and the supervision loop that starts sessions. What the program
  reads is an argument: every poll of the serial line gets the characters it finds, each with the time the clock shows there, a
  turn of the session loop gets its clock readings and the sensor's answer, and an attempt of the main loop gets the outcome of
  each of its stages. A script that ends while the program waits leaves it waiting. Sensor values and seconds are exact
  rationals; the decimal formatting of a row and the fixed configuration text are left out.
\<close>

section \<open>Output and state\<close>

definition LOG_PERIOD_NS :: int where
  "LOG_PERIOD_NS = 100000000"

definition ADDRESS :: int where
  "ADDRESS = 64"

record alert_flags =
  MATHOF :: bool
  ENERGYOF :: bool
  MEMSTAT :: bool
  CNVRF :: bool

record reading =
  rd_flags :: alert_flags
  rd_bus_voltage :: rat
  rd_shunt_voltage :: rat
  rd_current :: rat
  rd_power :: rat
  rd_energy :: rat

text \<open>A row of the log; the columns of \<^verbatim>\<open>HEADER\<close>.\<close>

record meter_row =
  mt_seq :: nat
  mt_t_start_s :: rat
  mt_t_end_s :: rat
  mt_bus_voltage_V :: rat
  mt_shunt_voltage_V :: rat
  mt_current_A :: rat
  mt_power_W :: rat
  mt_energy_J :: rat
  mt_energy_since_start_J :: rat
  mt_math_overflow :: bool
  mt_energy_overflow :: bool
  mt_memory_ok :: bool
  mt_conversion_ready :: bool
  mt_math_overflow_latched :: bool
  mt_energy_overflow_latched :: bool
  mt_memory_error_latched :: bool
  mt_accumulation_valid :: bool

text \<open>What the program prints: the events of \<^verbatim>\<open>emit\<close>, the header and the rows.\<close>

datatype line =
    LoggerStart
  | PullupWait string
  | AddressWait "int list"
  | IoError nat string exn
  | SessionStart nat int rat int int int alert_flags
  | HeaderLine
  | ClockSync string nat int
  | AccumulationInvalid nat nat string
  | RowLine meter_row
  | DeadlineMissed nat int

section \<open>The SYNC reader\<close>

definition TOKEN_CHARS :: string where
  "TOKEN_CHARS = ''abcdefghijklmnopqrstuvwxyzABCDEFGHIJKLMNOPQRSTUVWXYZ0123456789_-''"

definition valid_token :: "string \<Rightarrow> bool" where
  "valid_token token \<longleftrightarrow> 1 \<le> length token \<and> length token \<le> 64 \<and> list_all (\<lambda>c. c \<in> set TOKEN_CHARS) token"

text \<open>A finished line: the event it causes at the time \<open>now\<close>.\<close>

definition sync_command :: "int \<Rightarrow> nat \<Rightarrow> string \<Rightarrow> int \<Rightarrow> line list" where
  "sync_command epoch_ns session_index pending now =
     (let command = py_strip pending in
      if take 5 command = ''SYNC '' \<and> valid_token (drop 5 command)
      then [ClockSync (drop 5 command) session_index (now - epoch_ns)] else [])"

text \<open>The available characters, \<open>None\<close> for an empty read, each with the clock reading a command finished there would take.\<close>

type_synonym serial = "(char option \<times> int) list"

fun poll_sync_loop :: "int \<Rightarrow> nat \<Rightarrow> nat \<Rightarrow> serial \<Rightarrow> string \<Rightarrow> string \<times> line list" where
  "poll_sync_loop epoch_ns session_index 0 input pending = (pending, [])"
| "poll_sync_loop epoch_ns session_index (Suc budget) [] pending = (pending, [])"
| "poll_sync_loop epoch_ns session_index (Suc budget) ((None, now) # input) pending = (pending, [])"
| "poll_sync_loop epoch_ns session_index (Suc budget) ((Some char, now) # input) pending =
     (if char = CHR 0x0A
      then case poll_sync_loop epoch_ns session_index budget input [] of
             (pending', events) \<Rightarrow> (pending', sync_command epoch_ns session_index pending now @ events)
      else poll_sync_loop epoch_ns session_index budget input
             (if char = CHR 0x0D then pending
              else if length pending < 128 then pending @ [char] else []))"

definition poll_sync :: "int \<Rightarrow> nat \<Rightarrow> serial \<Rightarrow> string \<Rightarrow> string \<times> line list" where
  "poll_sync epoch_ns session_index input pending = poll_sync_loop epoch_ns session_index 256 input pending"

section \<open>A session\<close>

record session_state =
  se_seq :: nat
  se_next_log_ns :: int
  se_math_latched :: bool
  se_energy_latched :: bool
  se_memory_latched :: bool
  se_discontinuity_latched :: bool
  se_previous_energy :: rat
  se_already_reported :: "string list"
  se_sync_pending :: string
  se_lines :: "line list"

text \<open>The constants of a session.\<close>

record session_info =
  si_index :: nat
  si_epoch_ns :: int
  si_baseline :: rat

definition seconds :: "int \<Rightarrow> rat" where
  "seconds ns = of_int ns / 1000000000"

text \<open>The waiting loop: after every sleep a poll and a clock reading. The flag says whether the deadline was reached.\<close>

fun wait_loop :: "session_info \<Rightarrow> int \<Rightarrow> int \<Rightarrow> (serial \<times> int) list \<Rightarrow> string \<Rightarrow> bool \<times> string \<times> line list" where
  "wait_loop info next_log_ns now_ns waits pending =
     (if now_ns \<ge> next_log_ns then (True, pending, [])
      else
        case waits of
          [] \<Rightarrow> (False, pending, [])
        | (input, now') # waits' \<Rightarrow>
            (case poll_sync (si_epoch_ns info) (si_index info) input pending of
               (pending', events) \<Rightarrow>
                 (case wait_loop info next_log_ns now' waits' pending' of
                    (reached, pending'', events') \<Rightarrow> (reached, pending'', events @ events'))))"

declare wait_loop.simps [simp del]

definition fault_list :: "session_state \<Rightarrow> (string \<times> bool) list" where
  "fault_list s =
     [(''math_overflow'', se_math_latched s), (''energy_overflow'', se_energy_latched s),
      (''trim_memory_check_failed'', se_memory_latched s), (''energy_counter_decreased'', se_discontinuity_latched s)]"

definition report_fault :: "nat \<Rightarrow> session_state \<Rightarrow> string \<times> bool \<Rightarrow> session_state" where
  "report_fault session_index s fault =
     (if snd fault \<and> fst fault \<notin> set (se_already_reported s)
      then s\<lparr> se_lines := se_lines s @ [AccumulationInvalid session_index (se_seq s) (fst fault)],
              se_already_reported := fst fault # se_already_reported s \<rparr>
      else s)"

text \<open>The latches after a reading.\<close>

definition latch :: "reading \<Rightarrow> session_state \<Rightarrow> session_state" where
  "latch r s =
     s\<lparr> se_math_latched := se_math_latched s \<or> MATHOF (rd_flags r),
        se_energy_latched := se_energy_latched s \<or> ENERGYOF (rd_flags r),
        se_memory_latched := se_memory_latched s \<or> \<not> MEMSTAT (rd_flags r),
        se_discontinuity_latched := se_discontinuity_latched s \<or> rd_energy r < se_previous_energy s,
        se_previous_energy := rd_energy r \<rparr>"

definition all_clear :: "session_state \<Rightarrow> bool" where
  "all_clear s \<longleftrightarrow>
     \<not> (se_math_latched s \<or> se_energy_latched s \<or> se_memory_latched s \<or> se_discontinuity_latched s)"

definition row_of :: "session_info \<Rightarrow> session_state \<Rightarrow> int \<Rightarrow> reading \<Rightarrow> int \<Rightarrow> meter_row" where
  "row_of info s start_ns r end_ns =
     \<lparr> mt_seq = se_seq s, mt_t_start_s = seconds (start_ns - si_epoch_ns info), mt_t_end_s = seconds (end_ns - si_epoch_ns info),
       mt_bus_voltage_V = rd_bus_voltage r, mt_shunt_voltage_V = rd_shunt_voltage r, mt_current_A = rd_current r,
       mt_power_W = rd_power r, mt_energy_J = rd_energy r, mt_energy_since_start_J = rd_energy r - si_baseline info,
       mt_math_overflow = MATHOF (rd_flags r), mt_energy_overflow = ENERGYOF (rd_flags r), mt_memory_ok = MEMSTAT (rd_flags r),
       mt_conversion_ready = CNVRF (rd_flags r), mt_math_overflow_latched = se_math_latched s,
       mt_energy_overflow_latched = se_energy_latched s, mt_memory_error_latched = se_memory_latched s,
       mt_accumulation_valid = all_clear s \<rparr>"

text \<open>The next slot of the grid after the time the row was finished.\<close>

definition advance_deadline :: "nat \<Rightarrow> int \<Rightarrow> session_state \<Rightarrow> session_state" where
  "advance_deadline session_index finished_ns s =
     (let next_log_ns = se_next_log_ns s + LOG_PERIOD_NS in
      if next_log_ns \<le> finished_ns then
        let missed = (finished_ns - next_log_ns) div LOG_PERIOD_NS + 1 in
        s\<lparr> se_next_log_ns := next_log_ns + missed * LOG_PERIOD_NS,
           se_lines := se_lines s @ [DeadlineMissed session_index missed] \<rparr>
      else s\<lparr> se_next_log_ns := next_log_ns \<rparr>)"

definition log_row :: "session_info \<Rightarrow> int \<Rightarrow> reading \<Rightarrow> int \<Rightarrow> int \<Rightarrow> session_state \<Rightarrow> session_state" where
  "log_row info start_ns r end_ns finished_ns s =
     (let s1 = latch r s;
          s2 = foldl (report_fault (si_index info)) s1 (fault_list s1);
          s3 = s2\<lparr> se_lines := se_lines s2 @ [RowLine (row_of info s2 start_ns r end_ns)], se_seq := se_seq s2 + 1 \<rparr> in
      advance_deadline (si_index info) finished_ns s3)"

text \<open>What one turn of the loop reads.\<close>

record turn =
  tu_poll :: serial
  tu_now_ns :: int
  tu_waits :: "(serial \<times> int) list"
  tu_start_ns :: int
  tu_reading :: "reading result"
  tu_end_ns :: int
  tu_finished_ns :: int

datatype progress = Running session_state | Waiting session_state | Raised exn session_state

definition session_turn :: "session_info \<Rightarrow> turn \<Rightarrow> session_state \<Rightarrow> progress" where
  "session_turn info t s =
     (case poll_sync (si_epoch_ns info) (si_index info) (tu_poll t) (se_sync_pending s) of
        (pending, events) \<Rightarrow>
          (case wait_loop info (se_next_log_ns s) (tu_now_ns t) (tu_waits t) pending of
             (reached, pending', events') \<Rightarrow>
               let s' = s\<lparr> se_sync_pending := pending', se_lines := se_lines s @ events @ events' \<rparr> in
               if \<not> reached then Waiting s'
               else
                 case tu_reading t of
                   Inl e \<Rightarrow> Raised e s'
                 | Inr r \<Rightarrow> Running (log_row info (tu_start_ns t) r (tu_end_ns t) (tu_finished_ns t) s')))"

fun session_loop :: "session_info \<Rightarrow> turn list \<Rightarrow> session_state \<Rightarrow> progress" where
  "session_loop info [] s = Running s"
| "session_loop info (t # ts) s =
     (case session_turn info t s of Running s' \<Rightarrow> session_loop info ts s' | stopped \<Rightarrow> stopped)"

text \<open>The reads before the loop, the reset of the accumulators among them, and the turns.\<close>

record session_script =
  ss_baseline_start_ns :: int
  ss_initial :: "(alert_flags \<times> rat \<times> int) result"
  ss_baseline_end_ns :: int
  ss_first_log_ns :: int
  ss_turns :: "turn list"

definition session_begin :: "nat \<Rightarrow> session_script \<Rightarrow> alert_flags \<Rightarrow> rat \<Rightarrow> int \<Rightarrow> line list \<Rightarrow> session_info \<times> session_state" where
  "session_begin session_index sc initial_flags energy_baseline device_id lines =
     (let epoch_ns = (ss_baseline_start_ns sc + ss_baseline_end_ns sc) div 2 in
      (\<lparr> si_index = session_index, si_epoch_ns = epoch_ns, si_baseline = energy_baseline \<rparr>,
       \<lparr> se_seq = 0, se_next_log_ns = ss_first_log_ns sc,
         se_math_latched = MATHOF initial_flags, se_energy_latched = ENERGYOF initial_flags,
         se_memory_latched = (\<not> MEMSTAT initial_flags), se_discontinuity_latched = False,
         se_previous_energy = energy_baseline, se_already_reported = [], se_sync_pending = [],
         se_lines = lines @
           [SessionStart session_index device_id energy_baseline (ss_baseline_start_ns sc) (ss_baseline_end_ns sc) epoch_ns initial_flags,
            HeaderLine] \<rparr>))"

text \<open>The printed lines and, when the session ended, the exception that ended it.\<close>

definition run_session :: "nat \<Rightarrow> session_script \<Rightarrow> line list \<Rightarrow> line list \<times> exn option" where
  "run_session session_index sc lines =
     (case ss_initial sc of
        Inl e \<Rightarrow> (lines, Some e)
      | Inr (initial_flags, energy_baseline, device_id) \<Rightarrow>
          (case session_begin session_index sc initial_flags energy_baseline device_id lines of
             (info, s) \<Rightarrow>
               (case session_loop info (ss_turns sc) s of
                  Running s' \<Rightarrow> (se_lines s', None)
                | Waiting s' \<Rightarrow> (se_lines s', None)
                | Raised e s' \<Rightarrow> (se_lines s', Some e))))"

section \<open>The supervision loop\<close>

text \<open>Waiting for the bus lock; \<open>None\<close> when the script ends first.\<close>

fun lock_loop :: "int \<Rightarrow> (bool \<times> int) list \<Rightarrow> unit result option" where
  "lock_loop lock_deadline [] = None"
| "lock_loop lock_deadline ((locked, now) # tries) =
     (if locked then Some (Inr ())
      else if now \<ge> lock_deadline then Some (Inl (Exn OSError ''I2C bus lock timeout''))
      else lock_loop lock_deadline tries)"

record attempt =
  at_i2c :: "unit result"
  at_lock_start_ns :: int
  at_tries :: "(bool \<times> int) list"
  at_scan :: "int list result"
  at_configure :: "unit result"
  at_session :: session_script

definition scan_addresses :: "attempt \<Rightarrow> int list result option" where
  "scan_addresses a =
     (case lock_loop (at_lock_start_ns a + 250000000) (at_tries a) of
        None \<Rightarrow> None
      | Some (Inl e) \<Rightarrow> Some (Inl e)
      | Some (Inr _) \<Rightarrow> Some (at_scan a))"

fun contains :: "string \<Rightarrow> string \<Rightarrow> bool" where
  "contains part [] \<longleftrightarrow> part = []"
| "contains part (c # cs) \<longleftrightarrow> take (length part) (c # cs) = part \<or> contains part cs"

record logger =
  lg_i2c :: bool
  lg_session_index :: nat
  lg_lines :: "line list"

text \<open>How an attempt ends: with another one, waiting for its environment, or with an exception that leaves the program.\<close>

datatype outcome = Again logger | Pending logger | Propagates exn logger

definition handle_os_error :: "string \<Rightarrow> exn \<Rightarrow> logger \<Rightarrow> outcome" where
  "handle_os_error stage e l =
     (if handled_by (exn_class e) OSError
      then Again (l\<lparr> lg_lines := lg_lines l @ [IoError (lg_session_index l) stage e] \<rparr>)
      else Propagates e l)"

definition start_session :: "attempt \<Rightarrow> logger \<Rightarrow> outcome" where
  "start_session a l =
     (case at_configure a of
        Inl e \<Rightarrow> handle_os_error ''sensor_configuration'' e l
      | Inr _ \<Rightarrow>
          let l' = l\<lparr> lg_session_index := lg_session_index l + 1 \<rparr> in
          (case run_session (lg_session_index l') (at_session a) (lg_lines l') of
             (lines, None) \<Rightarrow> Pending (l'\<lparr> lg_lines := lines \<rparr>)
           | (lines, Some e) \<Rightarrow> handle_os_error ''session_sampling'' e (l'\<lparr> lg_lines := lines \<rparr>)))"

definition find_sensor :: "attempt \<Rightarrow> logger \<Rightarrow> outcome" where
  "find_sensor a l =
     (case scan_addresses a of
        None \<Rightarrow> Pending l
      | Some (Inl e) \<Rightarrow> handle_os_error ''address_scan'' e l
      | Some (Inr addresses) \<Rightarrow>
          if ADDRESS \<notin> set addresses then Again (l\<lparr> lg_lines := lg_lines l @ [AddressWait addresses] \<rparr>)
          else start_session a l)"

definition main_attempt :: "attempt \<Rightarrow> logger \<Rightarrow> outcome" where
  "main_attempt a l =
     (if lg_i2c l then find_sensor a l
      else
        case at_i2c a of
          Inl e \<Rightarrow>
            if handled_by (exn_class e) RuntimeError then
              if \<not> contains ''No pull up found on SDA or SCL'' (exn_msg e) then Propagates e l
              else Again (l\<lparr> lg_lines := lg_lines l @ [PullupWait (exn_msg e)] \<rparr>)
            else handle_os_error ''i2c_initialization'' e l
        | Inr _ \<Rightarrow> find_sensor a (l\<lparr> lg_i2c := True \<rparr>))"

fun main_loop :: "attempt list \<Rightarrow> logger \<Rightarrow> outcome" where
  "main_loop [] l = Again l"
| "main_loop (a # as) l = (case main_attempt a l of Again l' \<Rightarrow> main_loop as l' | stopped \<Rightarrow> stopped)"

definition logger_main :: "attempt list \<Rightarrow> outcome" where
  "logger_main as = main_loop as \<lparr> lg_i2c = False, lg_session_index = 0, lg_lines = [LoggerStart] \<rparr>"

section \<open>The SYNC reader on a stream\<close>

text \<open>Reference: the reader without a budget, on a stream without empty reads.\<close>

fun sync_stream :: "int \<Rightarrow> nat \<Rightarrow> (char \<times> int) list \<Rightarrow> string \<Rightarrow> string \<times> line list" where
  "sync_stream epoch_ns session_index [] pending = (pending, [])"
| "sync_stream epoch_ns session_index ((char, now) # input) pending =
     (if char = CHR 0x0A
      then case sync_stream epoch_ns session_index input [] of
             (pending', events) \<Rightarrow> (pending', sync_command epoch_ns session_index pending now @ events)
      else sync_stream epoch_ns session_index input
             (if char = CHR 0x0D then pending
              else if length pending < 128 then pending @ [char] else []))"

lemma sync_stream_append:
  "sync_stream e i (xs @ ys) p =
    (case sync_stream e i xs p of (p', ev) \<Rightarrow> case sync_stream e i ys p' of (p'', ev') \<Rightarrow> (p'', ev @ ev'))"
  by (induction e i xs p rule: sync_stream.induct) (auto split: prod.splits)

lemma poll_sync_loop_stream:
  "length xs \<le> budget \<Longrightarrow> poll_sync_loop e i budget (map (\<lambda>(c, t). (Some c, t)) xs) p = sync_stream e i xs p"
  by (induction e i xs p arbitrary: budget rule: sync_stream.induct)
     (case_tac [!] budget, auto split: prod.splits)

text \<open>Consecutive polls.\<close>

fun polls :: "int \<Rightarrow> nat \<Rightarrow> serial list \<Rightarrow> string \<Rightarrow> string \<times> line list" where
  "polls e i [] p = (p, [])"
| "polls e i (input # inputs) p =
     (case poll_sync e i input p of (p', ev) \<Rightarrow> case polls e i inputs p' of (p'', ev') \<Rightarrow> (p'', ev @ ev'))"

lemma polls_stream:
  "list_all (\<lambda>xs. length xs \<le> 256) xss \<Longrightarrow>
   polls e i (map (map (\<lambda>(c, t). (Some c, t))) xss) p = sync_stream e i (concat xss) p"
  by (induction xss arbitrary: p) (auto simp: poll_sync_def poll_sync_loop_stream sync_stream_append split: prod.splits)

definition is_sync_event :: "nat \<Rightarrow> line \<Rightarrow> bool" where
  "is_sync_event i l \<longleftrightarrow> (\<exists>token t. l = ClockSync token i t \<and> valid_token token)"

lemma sync_command_events: "list_all (is_sync_event i) (sync_command e i p now)"
  by (simp add: sync_command_def Let_def is_sync_event_def)

lemma poll_sync_loop_props:
  "poll_sync_loop e i budget input p = (p', ev) \<Longrightarrow> length p \<le> 128 \<Longrightarrow> length p' \<le> 128 \<and> list_all (is_sync_event i) ev"
proof (induction e i budget input p arbitrary: p' ev rule: poll_sync_loop.induct)
  case (4 e i budget char now input pending)
  then show ?case using sync_command_events [of i e pending now] by (auto split: if_splits prod.splits)
qed auto

lemma poll_sync_props:
  assumes "poll_sync e i input p = (p', ev)" "length p \<le> 128"
  shows "length p' \<le> 128" "list_all (is_sync_event i) ev"
  using poll_sync_loop_props assms unfolding poll_sync_def by blast+

lemma wait_loop_props:
  "wait_loop info dl now waits p = (reached, p', ev) \<Longrightarrow> length p \<le> 128 \<Longrightarrow>
   length p' \<le> 128 \<and> list_all (is_sync_event (si_index info)) ev \<and> (reached \<longrightarrow> (\<exists>t \<in> set (now # map snd waits). dl \<le> t))"
proof (induction waits arbitrary: now p reached p' ev)
  case Nil
  then show ?case by (auto simp: wait_loop.simps [of info] split: if_splits)
next
  case (Cons w waits)
  obtain input now' where w: "w = (input, now')" by (cases w)
  show ?case
  proof (cases "now \<ge> dl")
    case True
    then show ?thesis using Cons.prems by (simp add: wait_loop.simps [of info])
  next
    case False
    obtain p1 ev1 where poll: "poll_sync (si_epoch_ns info) (si_index info) input p = (p1, ev1)" by (rule prod.exhaust)
    obtain r2 p2 ev2 where rest: "wait_loop info dl now' waits p1 = (r2, p2, ev2)" by (rule prod_cases3)
    have "reached = r2" "p' = p2" "ev = ev1 @ ev2"
      using Cons.prems(1) False poll rest by (simp_all add: wait_loop.simps [of info dl now] w)
    then show ?thesis using Cons.IH [OF rest] poll_sync_props [OF poll Cons.prems(2)] by (auto simp: w)
  qed
qed

section \<open>One row\<close>

lemma report_faults:
  "distinct (map fst fl) \<Longrightarrow>
   foldl (report_fault i) s fl =
     s\<lparr> se_lines := se_lines s @ map (\<lambda>f. AccumulationInvalid i (se_seq s) (fst f)) (filter (\<lambda>f. snd f \<and> fst f \<notin> set (se_already_reported s)) fl),
        se_already_reported := rev (map fst (filter (\<lambda>f. snd f \<and> fst f \<notin> set (se_already_reported s)) fl)) @ se_already_reported s \<rparr>"
proof (induction fl arbitrary: s)
  case (Cons f fl)
  have new: "fst g \<noteq> fst f" if "g \<in> set fl" for g
  proof -
    have "fst g \<in> set (map fst fl)" using that by simp
    moreover have "fst f \<notin> set (map fst fl)" using Cons.prems by simp
    ultimately show ?thesis by metis
  qed
  have "filter (\<lambda>g. snd g \<and> fst g \<notin> set (se_already_reported (report_fault i s f))) fl =
      filter (\<lambda>g. snd g \<and> fst g \<notin> set (se_already_reported s)) fl"
    using new by (intro filter_cong refl) (auto simp: report_fault_def)
  with Cons show ?case by (auto simp: report_fault_def)
qed simp

definition new_faults :: "session_state \<Rightarrow> string list" where
  "new_faults s = map fst (filter (\<lambda>f. snd f \<and> fst f \<notin> set (se_already_reported s)) (fault_list s))"

lemma distinct_fault_list: "distinct (map fst (fault_list s))"
  by (simp add: fault_list_def)

definition missed_lines :: "nat \<Rightarrow> int \<Rightarrow> int \<Rightarrow> line list" where
  "missed_lines i finished next = (if next \<le> finished then [DeadlineMissed i ((finished - next) div LOG_PERIOD_NS + 1)] else [])"

lemma log_row_eq:
  "log_row info start r end_ns finished s =
    (let s1 = latch r s in
     s1\<lparr> se_lines := se_lines s @ map (AccumulationInvalid (si_index info) (se_seq s)) (new_faults s1) @
           RowLine (row_of info s1 start r end_ns) # missed_lines (si_index info) finished (se_next_log_ns s + LOG_PERIOD_NS),
         se_already_reported := rev (new_faults s1) @ se_already_reported s,
         se_seq := se_seq s + 1,
         se_next_log_ns := se_next_log_ns s + LOG_PERIOD_NS +
           (if se_next_log_ns s + LOG_PERIOD_NS \<le> finished then ((finished - (se_next_log_ns s + LOG_PERIOD_NS)) div LOG_PERIOD_NS + 1) * LOG_PERIOD_NS else 0) \<rparr>)"
  unfolding log_row_def report_faults [OF distinct_fault_list]
  by (simp add: Let_def advance_deadline_def missed_lines_def new_faults_def latch_def row_of_def all_clear_def comp_def)

section \<open>A session as a function of its readings\<close>

definition rows_of :: "line list \<Rightarrow> meter_row list" where
  "rows_of ls = List.map_filter (\<lambda>l. case l of RowLine r \<Rightarrow> Some r | _ \<Rightarrow> None) ls"

definition missed_of :: "line list \<Rightarrow> int" where
  "missed_of ls = sum_list (map (\<lambda>l. case l of DeadlineMissed i n \<Rightarrow> n | _ \<Rightarrow> 0) ls)"

definition reasons_of :: "line list \<Rightarrow> string list" where
  "reasons_of ls = List.map_filter (\<lambda>l. case l of AccumulationInvalid i q reason \<Rightarrow> Some reason | _ \<Rightarrow> None) ls"

lemma line_projections [simp]:
  "rows_of [] = []" "missed_of [] = 0" "reasons_of [] = []"
  "rows_of (xs @ ys) = rows_of xs @ rows_of ys" "missed_of (xs @ ys) = missed_of xs + missed_of ys"
  "reasons_of (xs @ ys) = reasons_of xs @ reasons_of ys"
  "rows_of (RowLine r # xs) = r # rows_of xs" "missed_of (RowLine r # xs) = missed_of xs" "reasons_of (RowLine r # xs) = reasons_of xs"
  by (simp_all add: rows_of_def missed_of_def reasons_of_def map_filter_simps map_filter_def)

lemma sync_event_projections:
  "list_all (is_sync_event i) ev \<Longrightarrow> rows_of ev = [] \<and> missed_of ev = 0 \<and> reasons_of ev = []"
  by (induction ev) (auto simp: rows_of_def missed_of_def reasons_of_def map_filter_simps is_sync_event_def)

lemma fault_line_projections [simp]:
  "rows_of (map (AccumulationInvalid i q) xs) = []" "missed_of (map (AccumulationInvalid i q) xs) = 0"
  "reasons_of (map (AccumulationInvalid i q) xs) = xs"
  by (induction xs) (simp_all add: rows_of_def missed_of_def reasons_of_def map_filter_simps)

lemma missed_line_projections [simp]:
  "rows_of (missed_lines i f n) = []" "reasons_of (missed_lines i f n) = []"
  "missed_of (missed_lines i f n) = (if n \<le> f then (f - n) div LOG_PERIOD_NS + 1 else 0)"
  by (simp_all add: missed_lines_def rows_of_def missed_of_def reasons_of_def map_filter_simps)

type_synonym history = "(turn \<times> reading) list"

definition flags_clear :: "alert_flags \<Rightarrow> bool" where
  "flags_clear f \<longleftrightarrow> \<not> MATHOF f \<and> \<not> ENERGYOF f \<and> MEMSTAT f"

text \<open>The accumulated energy of a session is valid as long as no fault was flagged and the counter never decreased.\<close>

definition valid_upto :: "alert_flags \<Rightarrow> rat \<Rightarrow> reading list \<Rightarrow> bool" where
  "valid_upto init base rs \<longleftrightarrow> flags_clear init \<and> list_all (\<lambda>r. flags_clear (rd_flags r)) rs \<and> sorted (base # map rd_energy rs)"

text \<open>The row a history determines.\<close>

definition row_spec :: "session_info \<Rightarrow> alert_flags \<Rightarrow> history \<Rightarrow> nat \<Rightarrow> meter_row" where
  "row_spec info init H k =
     (let (t, r) = H ! k; rs = map snd (take (Suc k) H) in
      \<lparr> mt_seq = k, mt_t_start_s = seconds (tu_start_ns t - si_epoch_ns info), mt_t_end_s = seconds (tu_end_ns t - si_epoch_ns info),
        mt_bus_voltage_V = rd_bus_voltage r, mt_shunt_voltage_V = rd_shunt_voltage r, mt_current_A = rd_current r,
        mt_power_W = rd_power r, mt_energy_J = rd_energy r, mt_energy_since_start_J = rd_energy r - si_baseline info,
        mt_math_overflow = MATHOF (rd_flags r), mt_energy_overflow = ENERGYOF (rd_flags r), mt_memory_ok = MEMSTAT (rd_flags r),
        mt_conversion_ready = CNVRF (rd_flags r),
        mt_math_overflow_latched = (MATHOF init \<or> list_ex (\<lambda>r. MATHOF (rd_flags r)) rs),
        mt_energy_overflow_latched = (ENERGYOF init \<or> list_ex (\<lambda>r. ENERGYOF (rd_flags r)) rs),
        mt_memory_error_latched = (\<not> MEMSTAT init \<or> list_ex (\<lambda>r. \<not> MEMSTAT (rd_flags r)) rs),
        mt_accumulation_valid = valid_upto init (si_baseline info) rs \<rparr>)"

definition latches_ok :: "session_info \<Rightarrow> alert_flags \<Rightarrow> reading list \<Rightarrow> session_state \<Rightarrow> bool" where
  "latches_ok info init rs s \<longleftrightarrow>
     se_math_latched s = (MATHOF init \<or> list_ex (\<lambda>r. MATHOF (rd_flags r)) rs) \<and>
     se_energy_latched s = (ENERGYOF init \<or> list_ex (\<lambda>r. ENERGYOF (rd_flags r)) rs) \<and>
     se_memory_latched s = (\<not> MEMSTAT init \<or> list_ex (\<lambda>r. \<not> MEMSTAT (rd_flags r)) rs) \<and>
     se_discontinuity_latched s = (\<not> sorted (si_baseline info # map rd_energy rs)) \<and>
     se_previous_energy s = last (si_baseline info # map rd_energy rs)"

lemma sorted_snoc_last:
  "xs \<noteq> [] \<Longrightarrow> sorted (xs @ [x :: rat]) \<longleftrightarrow> sorted xs \<and> last xs \<le> x"
  by (cases xs rule: rev_cases) (auto simp: sorted_append intro: order_trans)

lemma latch_ok:
  assumes "latches_ok info init rs s"
  shows "latches_ok info init (rs @ [r]) (latch r s)"
proof -
  have "sorted (si_baseline info # map rd_energy (rs @ [r])) \<longleftrightarrow>
      sorted (si_baseline info # map rd_energy rs) \<and> last (si_baseline info # map rd_energy rs) \<le> rd_energy r"
    using sorted_snoc_last [of "si_baseline info # map rd_energy rs" "rd_energy r"] by simp
  with assms show ?thesis unfolding latches_ok_def latch_def by (auto simp del: sorted_wrt.simps)
qed

lemma all_clear_valid: "latches_ok info init rs s \<Longrightarrow> all_clear s \<longleftrightarrow> valid_upto init (si_baseline info) rs"
  unfolding latches_ok_def all_clear_def valid_upto_def flags_clear_def
  by (auto simp: list_all_iff list_ex_iff simp del: sorted_wrt.simps)

definition active :: "session_state \<Rightarrow> string set" where
  "active s = fst ` set (filter snd (fault_list s))"

lemma new_faults_props:
  "distinct (new_faults s)" "set (new_faults s) = active s - set (se_already_reported s)"
proof -
  show "distinct (new_faults s)" unfolding new_faults_def using distinct_fault_list [of s] by (simp add: distinct_map_filter)
  show "set (new_faults s) = active s - set (se_already_reported s)" by (auto simp: new_faults_def active_def image_iff)
qed

lemma latch_active: "active s \<subseteq> active (latch r s)"
  by (auto simp: active_def fault_list_def latch_def)

text \<open>What holds of a session after the turns of a history; \<open>lines\<close> is what was printed before.\<close>

definition deadlines_met :: "history \<Rightarrow> bool" where
  "deadlines_met H \<longleftrightarrow> (\<forall>k. Suc k < length H \<longrightarrow>
     (\<exists>now \<in> set (tu_now_ns (fst (H ! Suc k)) # map snd (tu_waits (fst (H ! Suc k)))). tu_finished_ns (fst (H ! k)) < now))"

definition session_inv :: "session_info \<Rightarrow> alert_flags \<Rightarrow> int \<Rightarrow> line list \<Rightarrow> history \<Rightarrow> session_state \<Rightarrow> bool" where
  "session_inv info init first lines H s \<longleftrightarrow>
     latches_ok info init (map snd H) s \<and> se_seq s = length H \<and> length (se_sync_pending s) \<le> 128 \<and>
     set (se_already_reported s) = (if H = [] then {} else active s) \<and> distinct (se_already_reported s) \<and>
     (H \<noteq> [] \<longrightarrow> tu_finished_ns (fst (last H)) < se_next_log_ns s) \<and> deadlines_met H \<and>
     (\<exists>new. se_lines s = lines @ new \<and> rows_of new = map (row_spec info init H) [0..<length H] \<and>
        reasons_of new = rev (se_already_reported s) \<and>
        se_next_log_ns s = first + LOG_PERIOD_NS * (int (length H) + missed_of new))"

lemma row_spec_times:
  "mt_t_start_s (row_spec info init H k) = seconds (tu_start_ns (fst (H ! k)) - si_epoch_ns info)"
  "mt_t_end_s (row_spec info init H k) = seconds (tu_end_ns (fst (H ! k)) - si_epoch_ns info)"
  by (simp_all add: row_spec_def Let_def split: prod.split)

lemma row_spec_append: "k < length H \<Longrightarrow> row_spec info init (H @ H') k = row_spec info init H k"
  by (simp add: row_spec_def nth_append)

lemma row_spec_last:
  assumes "latches_ok info init (map snd H @ [r]) s" "se_seq s = length H"
  shows "row_of info s (tu_start_ns t) r (tu_end_ns t) = row_spec info init (H @ [(t, r)]) (length H)"
  using assms all_clear_valid [OF assms(1)]
  by (simp add: row_of_def row_spec_def latches_ok_def del: sorted_wrt.simps)

lemma deadlines_met_snoc:
  assumes "deadlines_met H" "H \<noteq> [] \<Longrightarrow> \<exists>now \<in> set (tu_now_ns (fst h) # map snd (tu_waits (fst h))). tu_finished_ns (fst (last H)) < now"
  shows "deadlines_met (H @ [h])"
  unfolding deadlines_met_def
proof (intro allI impI)
  fix k assume k: "Suc k < length (H @ [h])"
  show "\<exists>now \<in> set (tu_now_ns (fst ((H @ [h]) ! Suc k)) # map snd (tu_waits (fst ((H @ [h]) ! Suc k)))). tu_finished_ns (fst ((H @ [h]) ! k)) < now"
  proof (cases "Suc k < length H")
    case True
    then show ?thesis using assms(1) by (simp add: deadlines_met_def nth_append)
  next
    case False
    with k have len: "length H = Suc k" by simp
    then have "H \<noteq> []" by auto
    with len show ?thesis using assms(2) by (auto simp: nth_append last_conv_nth)
  qed
qed

lemma next_slot_after: "finished < n + (if n \<le> finished then ((finished - n) div LOG_PERIOD_NS + 1) * LOG_PERIOD_NS else 0)"
  by (auto simp: LOG_PERIOD_NS_def)

lemma log_row_inv:
  assumes inv: "session_inv info init first lines H s"
    and reached: "now \<in> set (tu_now_ns t # map snd (tu_waits t))" "se_next_log_ns s \<le> now"
  shows "session_inv info init first lines (H @ [(t, r)]) (log_row info (tu_start_ns t) r (tu_end_ns t) (tu_finished_ns t) s)"
proof -
  let ?s = "latch r s"
  obtain new where new: "se_lines s = lines @ new" "rows_of new = map (row_spec info init H) [0..<length H]"
    "reasons_of new = rev (se_already_reported s)" "se_next_log_ns s = first + LOG_PERIOD_NS * (int (length H) + missed_of new)"
    using inv by (auto simp: session_inv_def)
  have lat: "latches_ok info init (map snd H @ [r]) ?s" using inv by (intro latch_ok) (simp add: session_inv_def)
  have seq: "se_seq ?s = length H" and rep: "se_already_reported ?s = se_already_reported s"
    using inv by (simp_all add: session_inv_def latch_def)
  let ?s' = "log_row info (tu_start_ns t) r (tu_end_ns t) (tu_finished_ns t) s"
  let ?n = "se_next_log_ns s + LOG_PERIOD_NS"
  let ?ls = "map (AccumulationInvalid (si_index info) (se_seq s)) (new_faults ?s) @
    RowLine (row_of info ?s (tu_start_ns t) r (tu_end_ns t)) # missed_lines (si_index info) (tu_finished_ns t) ?n"
  have act: "active ?s' = active ?s" "latches_ok info init (map snd H @ [r]) ?s' = latches_ok info init (map snd H @ [r]) ?s"
    by (simp_all add: log_row_eq Let_def active_def fault_list_def latches_ok_def)
  have sub: "set (se_already_reported s) \<subseteq> active ?s"
    using inv latch_active [of s r] by (auto simp: session_inv_def split: if_splits)
  have "deadlines_met (H @ [(t, r)])"
    using inv reached by (intro deadlines_met_snoc) (auto simp: session_inv_def intro: less_le_trans)
  moreover have "set (se_already_reported ?s') = active ?s" "distinct (se_already_reported ?s')"
    using inv sub new_faults_props [of ?s] by (auto simp: log_row_eq Let_def rep session_inv_def)
  moreover have "tu_finished_ns t < se_next_log_ns ?s'"
    using next_slot_after [of "tu_finished_ns t" ?n] by (simp add: log_row_eq Let_def)
  moreover have "rows_of (new @ ?ls) = map (row_spec info init (H @ [(t, r)])) [0..<length (H @ [(t, r)])]"
    using new(2) row_spec_last [OF lat seq, of t] by (simp add: row_spec_append)
  moreover have "reasons_of (new @ ?ls) = rev (se_already_reported ?s')" using new(3) by (simp add: log_row_eq Let_def)
  moreover have "se_next_log_ns ?s' = first + LOG_PERIOD_NS * (int (length (H @ [(t, r)])) + missed_of (new @ ?ls))"
    using new(4) by (simp add: log_row_eq Let_def algebra_simps)
  moreover have "se_lines ?s' = lines @ new @ ?ls" using new(1) by (simp add: log_row_eq Let_def)
  moreover have "se_seq ?s' = length (H @ [(t, r)])" "length (se_sync_pending ?s') \<le> 128"
    using inv by (simp_all add: log_row_eq Let_def session_inv_def latch_def)
  ultimately show ?thesis using lat act unfolding session_inv_def by auto
qed

lemma sync_events_inv:
  assumes "session_inv info init first lines H s" "list_all (is_sync_event i) ev" "length p \<le> 128"
  shows "session_inv info init first lines H (s\<lparr> se_sync_pending := p, se_lines := se_lines s @ ev \<rparr>)"
proof -
  obtain new where "se_lines s = lines @ new" "rows_of new = map (row_spec info init H) [0..<length H]"
    "reasons_of new = rev (se_already_reported s)" "se_next_log_ns s = first + LOG_PERIOD_NS * (int (length H) + missed_of new)"
    using assms(1) by (auto simp: session_inv_def)
  then have "se_lines s @ ev = lines @ (new @ ev) \<and> rows_of (new @ ev) = map (row_spec info init H) [0..<length H] \<and>
      reasons_of (new @ ev) = rev (se_already_reported s) \<and>
      se_next_log_ns s = first + LOG_PERIOD_NS * (int (length H) + missed_of (new @ ev))"
    using sync_event_projections [OF assms(2)] by simp
  then show ?thesis using assms(1,3) unfolding session_inv_def latches_ok_def active_def fault_list_def by auto
qed

fun state_of :: "progress \<Rightarrow> session_state" where
  "state_of (Running s) = s"
| "state_of (Waiting s) = s"
| "state_of (Raised e s) = s"

lemma session_turn_inv:
  assumes inv: "session_inv info init first lines H s" and turn: "session_turn info t s = p"
  shows "case p of Running s' \<Rightarrow> (\<exists>r. tu_reading t = Inr r \<and> session_inv info init first lines (H @ [(t, r)]) s')
    | Waiting s' \<Rightarrow> session_inv info init first lines H s'
    | Raised e s' \<Rightarrow> tu_reading t = Inl e \<and> session_inv info init first lines H s'"
proof -
  obtain p1 ev1 where poll: "poll_sync (si_epoch_ns info) (si_index info) (tu_poll t) (se_sync_pending s) = (p1, ev1)" by (rule prod.exhaust)
  obtain reached p2 ev2 where wait: "wait_loop info (se_next_log_ns s) (tu_now_ns t) (tu_waits t) p1 = (reached, p2, ev2)" by (rule prod_cases3)
  have len: "length (se_sync_pending s) \<le> 128" using inv by (simp add: session_inv_def)
  note P = poll_sync_props [OF poll len] and W = wait_loop_props [OF wait poll_sync_props(1) [OF poll len]]
  let ?s = "s\<lparr> se_sync_pending := p2, se_lines := se_lines s @ ev1 @ ev2 \<rparr>"
  have inv': "session_inv info init first lines H ?s" using P W by (intro sync_events_inv [OF inv]) auto
  have p: "p = (if \<not> reached then Waiting ?s else case tu_reading t of Inl e \<Rightarrow> Raised e ?s
      | Inr r \<Rightarrow> Running (log_row info (tu_start_ns t) r (tu_end_ns t) (tu_finished_ns t) ?s))"
    using turn by (simp add: session_turn_def poll wait Let_def)
  show ?thesis
  proof (cases "reached \<and> (\<exists>r. tu_reading t = Inr r)")
    case True
    then obtain r where r: "tu_reading t = Inr r" and "reached" by blast
    obtain now where now: "now \<in> set (tu_now_ns t # map snd (tu_waits t))" "se_next_log_ns s \<le> now" using W \<open>reached\<close> by blast
    have "session_inv info init first lines (H @ [(t, r)]) (log_row info (tu_start_ns t) r (tu_end_ns t) (tu_finished_ns t) ?s)"
      using now by (intro log_row_inv [OF inv']) auto
    then show ?thesis using p r \<open>reached\<close> by simp
  next
    case False
    then show ?thesis using p inv' by (auto split: sum.splits if_splits)
  qed
qed

text \<open>The completed turns with their readings.\<close>

lemma session_loop_inv:
  assumes "session_inv info init first lines H s" "session_loop info ts s = p"
  shows "\<exists>n rs. n \<le> length ts \<and> list_all2 (\<lambda>t r. tu_reading t = Inr r) (take n ts) rs \<and>
    session_inv info init first lines (H @ zip (take n ts) rs) (state_of p) \<and>
    (case p of Running _ \<Rightarrow> n = length ts | Waiting _ \<Rightarrow> n < length ts | Raised e _ \<Rightarrow> n < length ts \<and> tu_reading (ts ! n) = Inl e)"
  using assms
proof (induction ts arbitrary: H s)
  case Nil
  then show ?case by (intro exI [of _ 0] exI [of _ "[]"]) auto
next
  case (Cons t ts)
  show ?case
  proof (cases "session_turn info t s")
    case (Running s')
    from session_turn_inv [OF Cons.prems(1) Running] obtain r where r: "tu_reading t = Inr r"
      and inv: "session_inv info init first lines (H @ [(t, r)]) s'" by auto
    have "session_loop info ts s' = p" using Cons.prems(2) Running by simp
    from Cons.IH [OF inv this] obtain n rs where n: "n \<le> length ts" "list_all2 (\<lambda>t r. tu_reading t = Inr r) (take n ts) rs"
      "session_inv info init first lines ((H @ [(t, r)]) @ zip (take n ts) rs) (state_of p)"
      "case p of Running _ \<Rightarrow> n = length ts | Waiting _ \<Rightarrow> n < length ts | Raised e _ \<Rightarrow> n < length ts \<and> tu_reading (ts ! n) = Inl e"
      by blast
    then show ?thesis using r by (intro exI [of _ "Suc n"] exI [of _ "r # rs"]) (auto split: progress.splits)
  next
    case (Waiting s')
    then have p: "p = Waiting s'" using Cons.prems(2) by simp
    show ?thesis using session_turn_inv [OF Cons.prems(1) Waiting] unfolding p
      by (intro exI [of _ 0] exI [of _ "[]"]) simp
  next
    case (Raised e s')
    then have p: "p = Raised e s'" using Cons.prems(2) by simp
    show ?thesis using session_turn_inv [OF Cons.prems(1) Raised] unfolding p
      by (intro exI [of _ 0] exI [of _ "[]"]) simp
  qed
qed

lemma session_begin_inv:
  assumes "session_begin i sc flags base dev lines = (info, s)"
  shows "session_inv info flags (ss_first_log_ns sc) (se_lines s) [] s" "si_baseline info = base" "si_index info = i"
    "se_lines s = lines @ [SessionStart i dev base (ss_baseline_start_ns sc) (ss_baseline_end_ns sc) (si_epoch_ns info) flags, HeaderLine]"
  using assms by (auto simp: session_begin_def Let_def session_inv_def latches_ok_def deadlines_met_def)

text \<open>Everything a session leaves behind, for its first \<open>n\<close> turns with the readings \<open>rs\<close>.\<close>

definition session_outcome ::
    "nat \<Rightarrow> session_script \<Rightarrow> alert_flags \<Rightarrow> line list \<Rightarrow> exn option \<Rightarrow> session_info \<Rightarrow> nat \<Rightarrow> reading list \<Rightarrow> bool" where
  "session_outcome i sc flags new ended info n rs \<longleftrightarrow>
     n \<le> length (ss_turns sc) \<and> list_all2 (\<lambda>t r. tu_reading t = Inr r) (take n (ss_turns sc)) rs \<and>
     (ended \<noteq> None \<longrightarrow> n < length (ss_turns sc) \<and> tu_reading (ss_turns sc ! n) = Inl (the ended)) \<and>
     rows_of new = map (row_spec info flags (zip (take n (ss_turns sc)) rs)) [0..<n] \<and>
     distinct (reasons_of new) \<and> (n > 0 \<longrightarrow> (reasons_of new = []) = valid_upto flags (si_baseline info) rs) \<and>
     deadlines_met (zip (take n (ss_turns sc)) rs) \<and>
     (n > 0 \<longrightarrow> tu_finished_ns (ss_turns sc ! (n - 1)) < ss_first_log_ns sc + LOG_PERIOD_NS * (int n + missed_of new))"

lemma run_session_spec:
  assumes run: "run_session i sc lines = (out, ended)" and init: "ss_initial sc = Inr (flags, base, dev)"
  shows "\<exists>new info n rs.
    out = lines @ [SessionStart i dev base (ss_baseline_start_ns sc) (ss_baseline_end_ns sc) (si_epoch_ns info) flags, HeaderLine] @ new \<and>
    si_index info = i \<and> si_baseline info = base \<and> session_outcome i sc flags new ended info n rs"
proof -
  obtain info s where start: "session_begin i sc flags base dev lines = (info, s)" by (rule prod.exhaust)
  note B = session_begin_inv [OF start]
  obtain p where p: "session_loop info (ss_turns sc) s = p" by simp
  from session_loop_inv [OF B(1) p] obtain n rs where n: "n \<le> length (ss_turns sc)"
    "list_all2 (\<lambda>t r. tu_reading t = Inr r) (take n (ss_turns sc)) rs"
    "session_inv info flags (ss_first_log_ns sc) (se_lines s) (zip (take n (ss_turns sc)) rs) (state_of p)"
    "case p of Running _ \<Rightarrow> n = length (ss_turns sc) | Waiting _ \<Rightarrow> n < length (ss_turns sc)
      | Raised e _ \<Rightarrow> n < length (ss_turns sc) \<and> tu_reading (ss_turns sc ! n) = Inl e"
    unfolding append_Nil by blast
  let ?H = "zip (take n (ss_turns sc)) rs"
  have len: "length ?H = n" "length rs = n" "map snd ?H = rs" using n(1) list_all2_lengthD [OF n(2)] by simp_all
  obtain new where new: "se_lines (state_of p) = se_lines s @ new" "rows_of new = map (row_spec info flags ?H) [0..<n]"
    "reasons_of new = rev (se_already_reported (state_of p))"
    "se_next_log_ns (state_of p) = ss_first_log_ns sc + LOG_PERIOD_NS * (int n + missed_of new)"
    using n(3) len unfolding session_inv_def by auto
  have ne: "?H \<noteq> []" if "n > 0" using that len(1) by auto
  have inv: "latches_ok info flags rs (state_of p)" "distinct (reasons_of new)" "deadlines_met ?H"
    "n > 0 \<Longrightarrow> set (reasons_of new) = active (state_of p)" "n > 0 \<Longrightarrow> tu_finished_ns (fst (last ?H)) < se_next_log_ns (state_of p)"
    using n(3) new(3) ne len(3) by (auto simp: session_inv_def)
  have act: "active (state_of p) = {} \<longleftrightarrow> valid_upto flags base rs"
    using all_clear_valid [OF inv(1)] B(2) by (auto simp: active_def fault_list_def all_clear_def split: if_splits)
  have "reasons_of new = [] \<longleftrightarrow> valid_upto flags base rs" if "n > 0" using inv(4) [OF that] act by (metis set_empty)
  moreover have "fst (last ?H) = ss_turns sc ! (n - 1)" if "n > 0"
    using that len n(1) ne [OF that] by (simp add: last_conv_nth)
  moreover have "ended = (case p of Raised e _ \<Rightarrow> Some e | _ \<Rightarrow> None)" "out = se_lines (state_of p)"
    using run init p by (auto simp: run_session_def start split: progress.splits)
  moreover have "ended \<noteq> None \<longrightarrow> n < length (ss_turns sc) \<and> tu_reading (ss_turns sc ! n) = Inl (the ended)"
    using n(4) calculation(3) by (auto split: progress.splits)
  ultimately have "session_outcome i sc flags new ended info n rs" using B(2) n(1,2) new(2,4) inv by (simp add: session_outcome_def)
  moreover have "out = lines @ [SessionStart i dev base (ss_baseline_start_ns sc) (ss_baseline_end_ns sc) (si_epoch_ns info) flags, HeaderLine] @ new"
    using \<open>out = se_lines (state_of p)\<close> new(1) B(4) by simp
  ultimately show ?thesis using B(2,3) by blast
qed

section \<open>The log over all sessions\<close>

text \<open>
  The shape of a log: sessions are announced with increasing numbers; rows, faults and missed deadlines belong to the announced
  session, rows are numbered from zero without gaps, and after an error no row is printed before the next announcement. The
  state is the number of the last session and the next row number of a running one.
\<close>

fun log_step :: "(nat \<times> nat option) option \<Rightarrow> line \<Rightarrow> (nat \<times> nat option) option" where
  "log_step None l = None"
| "log_step (Some (n, q)) l =
     (case l of
        SessionStart i dev base a b epoch flags \<Rightarrow> if n < i \<and> q = None then Some (i, Some 0) else None
      | HeaderLine \<Rightarrow> if q = Some 0 then Some (n, q) else None
      | ClockSync token i t \<Rightarrow> if i = n \<and> q \<noteq> None \<and> valid_token token then Some (n, q) else None
      | AccumulationInvalid i k reason \<Rightarrow> if i = n \<and> q = Some k then Some (n, q) else None
      | RowLine r \<Rightarrow> if q = Some (mt_seq r) then Some (n, Some (Suc (mt_seq r))) else None
      | DeadlineMissed i m \<Rightarrow> if i = n \<and> q \<noteq> None \<and> 0 < m then Some (n, q) else None
      | IoError i stage e \<Rightarrow> Some (n, None)
      | _ \<Rightarrow> if q = None then Some (n, q) else None)"

definition log_run :: "line list \<Rightarrow> (nat \<times> nat option) option" where
  "log_run ls = foldl log_step (Some (0, None)) ls"

lemma log_run_snoc [simp]: "log_run (ls @ [l]) = log_step (log_run ls) l"
  by (simp add: log_run_def)

lemma log_run_sync:
  "list_all (is_sync_event n) ev \<Longrightarrow> log_run ls = Some (n, Some k) \<Longrightarrow> log_run (ls @ ev) = Some (n, Some k)"
proof (induction ev arbitrary: ls)
  case (Cons l ev)
  then show ?case using Cons.IH [of "ls @ [l]"] by (auto simp: is_sync_event_def)
qed simp

lemma log_run_faults:
  "log_run ls = Some (n, Some k) \<Longrightarrow> log_run (ls @ map (AccumulationInvalid n k) xs) = Some (n, Some k)"
proof (induction xs arbitrary: ls)
  case (Cons x xs)
  then show ?case using Cons.IH [of "ls @ [AccumulationInvalid n k x]"] by simp
qed simp

lemma log_run_missed: "log_run ls = Some (n, Some k) \<Longrightarrow> log_run (ls @ missed_lines n f m) = Some (n, Some k)"
  by (auto simp: missed_lines_def LOG_PERIOD_NS_def pos_imp_zdiv_nonneg_iff)

lemma log_row_log:
  fixes s :: session_state and info :: session_info and r :: reading and a b f :: int
  assumes "log_run (se_lines s) = Some (si_index info, Some (se_seq s))"
  defines "s' \<equiv> log_row info a r b f s"
  shows "log_run (se_lines s') = Some (si_index info, Some (se_seq s'))"
proof -
  let ?ls = "se_lines s @ map (AccumulationInvalid (si_index info) (se_seq s)) (new_faults (latch r s))"
  have "log_run (?ls @ [RowLine (row_of info (latch r s) a r b)]) = Some (si_index info, Some (Suc (se_seq s)))"
    unfolding log_run_snoc log_run_faults [OF assms(1)] by (simp add: row_of_def) (simp add: latch_def)
  from log_run_missed [OF this, of f "se_next_log_ns s + LOG_PERIOD_NS"] show ?thesis
    by (simp add: s'_def log_row_eq Let_def latch_def)
qed

lemma session_turn_log:
  fixes s :: session_state and info :: session_info and t :: turn
  assumes "log_run (se_lines s) = Some (si_index info, Some (se_seq s))" "length (se_sync_pending s) \<le> 128"
  defines "s' \<equiv> state_of (session_turn info t s)"
  shows "log_run (se_lines s') = Some (si_index info, Some (se_seq s')) \<and> length (se_sync_pending s') \<le> 128"
proof -
  obtain p1 ev1 where poll: "poll_sync (si_epoch_ns info) (si_index info) (tu_poll t) (se_sync_pending s) = (p1, ev1)" by (rule prod.exhaust)
  obtain reached p2 ev2 where wait: "wait_loop info (se_next_log_ns s) (tu_now_ns t) (tu_waits t) p1 = (reached, p2, ev2)" by (rule prod_cases3)
  note P = poll_sync_props [OF poll assms(2)] and W = wait_loop_props [OF wait poll_sync_props(1) [OF poll assms(2)]]
  let ?s = "s\<lparr> se_sync_pending := p2, se_lines := se_lines s @ ev1 @ ev2 \<rparr>"
  have ok: "log_run (se_lines ?s) = Some (si_index info, Some (se_seq ?s))"
    using P W by (simp add: log_run_sync [of _ "ev1 @ ev2"] assms(1))
  show ?thesis using ok W log_row_log [of ?s info, OF ok]
    by (auto simp: s'_def session_turn_def poll wait Let_def log_row_eq latch_def split: sum.splits)
qed

lemma session_loop_log:
  assumes "log_run (se_lines s) = Some (si_index info, Some (se_seq s))" "length (se_sync_pending s) \<le> 128"
  shows "\<exists>k. log_run (se_lines (state_of (session_loop info ts s))) = Some (si_index info, Some k)"
  using assms
proof (induction ts arbitrary: s)
  case (Cons t ts)
  show ?case using session_turn_log [OF Cons.prems, of t] Cons.IH by (cases "session_turn info t s") auto
qed simp

lemma run_session_log:
  assumes "run_session i sc lines = (out, ended)" "log_run lines = Some (n, None)" "n < i"
  shows "\<exists>m q. log_run out = Some (m, q) \<and> m \<le> i"
proof (cases "ss_initial sc")
  case (Inl e)
  then show ?thesis using assms by (simp add: run_session_def)
next
  case (Inr x)
  obtain flags base dev where x: "x = (flags, base, dev)" by (rule prod_cases3)
  obtain info s where start: "session_begin i sc flags base dev lines = (info, s)" by (rule prod.exhaust)
  have idx: "si_index info = i" using session_begin_inv(3) [OF start] .
  have "log_run (se_lines s) = Some (si_index info, Some (se_seq s))" "length (se_sync_pending s) \<le> 128"
    using start assms(2,3) by (auto simp: session_begin_def Let_def log_run_def)
  from session_loop_log [OF this, of "ss_turns sc"] obtain k where
    "log_run (se_lines (state_of (session_loop info (ss_turns sc) s))) = Some (i, Some k)" using idx by auto
  moreover have "out = se_lines (state_of (session_loop info (ss_turns sc) s))"
    using assms(1) Inr x start by (auto simp: run_session_def split: progress.splits)
  ultimately show ?thesis using Inr by auto
qed

definition logger_ok :: "logger \<Rightarrow> bool" where
  "logger_ok l \<longleftrightarrow> (\<exists>n \<le> lg_session_index l. log_run (lg_lines l) = Some (n, None))"

text \<open>What an attempt leaves behind.\<close>

definition outcome_ok :: "outcome \<Rightarrow> bool" where
  "outcome_ok out =
     (case out of
        Again l \<Rightarrow> logger_ok l
      | Pending l \<Rightarrow> log_run (lg_lines l) \<noteq> None
      | Propagates e l \<Rightarrow> log_run (lg_lines l) \<noteq> None \<and> \<not> handled_by (exn_class e) OSError)"

lemma handle_os_error_ok:
  "log_run (lg_lines l) = Some (n, q) \<Longrightarrow> n \<le> lg_session_index l \<Longrightarrow> outcome_ok (handle_os_error stage e l)"
  by (simp add: handle_os_error_def outcome_ok_def logger_ok_def)

lemma start_session_ok:
  assumes "logger_ok l"
  shows "outcome_ok (start_session a l)"
proof -
  obtain n where n: "n \<le> lg_session_index l" "log_run (lg_lines l) = Some (n, None)" using assms by (auto simp: logger_ok_def)
  show ?thesis
  proof (cases "at_configure a")
    case (Inl e)
    then show ?thesis using n by (simp add: start_session_def handle_os_error_ok)
  next
    case (Inr u)
    obtain out ended where run: "run_session (lg_session_index l + 1) (at_session a) (lg_lines l) = (out, ended)" by (rule prod.exhaust)
    from run_session_log [OF run n(2)] n(1) obtain m q where m: "log_run out = Some (m, q)" "m \<le> lg_session_index l + 1" by auto
    let ?l = "l\<lparr> lg_session_index := lg_session_index l + 1, lg_lines := out \<rparr>"
    have "start_session a l = (case ended of None \<Rightarrow> Pending ?l | Some e \<Rightarrow> handle_os_error ''session_sampling'' e ?l)"
      using Inr run by (cases ended) (simp_all add: start_session_def Let_def)
    moreover have "outcome_ok (handle_os_error ''session_sampling'' e ?l)" for e using m by (intro handle_os_error_ok) simp_all
    ultimately show ?thesis using m by (cases ended) (simp_all add: outcome_ok_def)
  qed
qed

lemma find_sensor_ok:
  assumes "logger_ok l"
  shows "outcome_ok (find_sensor a l)"
proof -
  obtain n where n: "n \<le> lg_session_index l" "log_run (lg_lines l) = Some (n, None)" using assms by (auto simp: logger_ok_def)
  show ?thesis
  proof (cases "scan_addresses a")
    case (Some r)
    then show ?thesis using n start_session_ok [OF assms]
      by (cases r) (auto simp: find_sensor_def handle_os_error_ok, auto simp: outcome_ok_def logger_ok_def)
  qed (use n in \<open>simp add: find_sensor_def outcome_ok_def\<close>)
qed

lemma main_attempt_ok:
  assumes "logger_ok l"
  shows "outcome_ok (main_attempt a l)"
proof -
  obtain n where n: "n \<le> lg_session_index l" "log_run (lg_lines l) = Some (n, None)" using assms by (auto simp: logger_ok_def)
  have "logger_ok (l\<lparr> lg_i2c := True \<rparr>)" using n by (auto simp: logger_ok_def)
  then show ?thesis using n find_sensor_ok [of _ a] assms
    by (auto simp: main_attempt_def handle_os_error_ok split: sum.split)
       (auto simp: outcome_ok_def logger_ok_def handled_by_def)
qed

lemma main_loop_ok: "logger_ok l \<Longrightarrow> outcome_ok (main_loop as l)"
proof (induction as arbitrary: l)
  case (Cons a as)
  then show ?case using main_attempt_ok [OF Cons.prems, of a]
    by (cases "main_attempt a l") (auto simp: outcome_ok_def)
qed (simp add: outcome_ok_def)

section \<open>Properties\<close>

text \<open>A turn during which the clock does not go back.\<close>

definition clock_ok :: "turn \<Rightarrow> bool" where
  "clock_ok t \<longleftrightarrow> list_all (\<lambda>now. now \<le> tu_start_ns t) (tu_now_ns t # map snd (tu_waits t)) \<and>
     tu_start_ns t \<le> tu_end_ns t \<and> tu_end_ns t \<le> tu_finished_ns t"

lemma seconds_mono [simp]: "seconds a < seconds b \<longleftrightarrow> a < b" "seconds a \<le> seconds b \<longleftrightarrow> a \<le> b"
  by (simp_all add: seconds_def divide_strict_right_mono divide_right_mono field_simps)

lemma rows_in_order:
  assumes "deadlines_met H" "list_all (clock_ok \<circ> fst) H" "Suc k < length H"
  shows "tu_end_ns (fst (H ! k)) < tu_start_ns (fst (H ! Suc k))"
proof -
  obtain now where now: "now \<in> set (tu_now_ns (fst (H ! Suc k)) # map snd (tu_waits (fst (H ! Suc k))))" "tu_finished_ns (fst (H ! k)) < now"
    using assms(1,3) unfolding deadlines_met_def by blast
  have "clock_ok (fst (H ! k))" "clock_ok (fst (H ! Suc k))" using assms(2,3) by (simp_all add: list_all_length)
  then have "tu_end_ns (fst (H ! k)) \<le> tu_finished_ns (fst (H ! k))" "now \<le> tu_start_ns (fst (H ! Suc k))"
    using now(1) by (auto simp: clock_ok_def list_all_iff)
  with now(2) show ?thesis by linarith
qed

lemma session_rows_ordered:
  assumes S: "session_outcome i sc flags new ended info n rs" and clk: "list_all clock_ok (ss_turns sc)"
  shows "sorted_wrt (\<lambda>a b. mt_t_end_s a < mt_t_start_s b) (rows_of new)" "list_all (\<lambda>r. mt_t_start_s r \<le> mt_t_end_s r) (rows_of new)"
proof -
  let ?H = "zip (take n (ss_turns sc)) rs"
  have n: "n \<le> length (ss_turns sc)" "list_all2 (\<lambda>t r. tu_reading t = Inr r) (take n (ss_turns sc)) rs"
    and rows: "rows_of new = map (row_spec info flags ?H) [0..<n]" and met: "deadlines_met ?H"
    using S by (auto simp: session_outcome_def)
  have len: "length ?H = n" "length rs = n" using n(1) list_all2_lengthD [OF n(2)] by simp_all
  have clk': "list_all (clock_ok \<circ> fst) ?H" using clk n(1) len by (auto simp: list_all_length)
  have step: "tu_end_ns (fst (?H ! k)) < tu_start_ns (fst (?H ! Suc k))" if "Suc k < n" for k
    using rows_in_order [OF met clk'] len that by simp
  have within: "tu_start_ns (fst (?H ! k)) \<le> tu_end_ns (fst (?H ! k))" if "k < n" for k
    using clk' len that by (auto simp: list_all_length clock_ok_def)
  have order: "tu_end_ns (fst (?H ! a)) < tu_start_ns (fst (?H ! b))" if "a < b" "b < n" for a b
    using that
  proof (induction b)
    case (Suc b)
    show ?case
    proof (cases "a = b")
      case False
      with Suc have "tu_end_ns (fst (?H ! a)) < tu_start_ns (fst (?H ! b))" by simp
      with within [of b] step [of b] Suc.prems show ?thesis by linarith
    qed (use step Suc.prems in simp)
  qed simp
  show "sorted_wrt (\<lambda>a b. mt_t_end_s a < mt_t_start_s b) (rows_of new)"
    using order by (simp add: rows sorted_wrt_iff_nth_less row_spec_times)
  show "list_all (\<lambda>r. mt_t_start_s r \<le> mt_t_end_s r) (rows_of new)"
    using within by (simp add: rows list_all_length row_spec_times)
qed



text \<open>
  However the characters of the serial line are spread over the polls, up to 256 in each, the reader answers as if it had read
  them in one stream: the same clock_sync events with the same tokens and times, and the same unfinished line.
\<close>

theorem sync_reader_stream:
  assumes "list_all (\<lambda>xs. length xs \<le> 256) xss"
  shows "polls e i (map (map (\<lambda>(c, t). (Some c, t))) xss) p = sync_stream e i (concat xss) p"
  using assms by (rule polls_stream)

text \<open>
  C36: For every behaviour of bus, sensor, clock and serial line the log has the required shape: sessions are announced with increasing
  numbers, rows belong to the announced session and are numbered from zero without gaps, nothing is logged between an
  error and the next announcement, and synchronisation replies carry well-formed tokens and the number of the running session. An I/O error
  never ends the program; what ends it is an exception of another kind.
\<close>

theorem logger_log_shape:
  "case logger_main as of
     Again l \<Rightarrow> log_run (lg_lines l) \<noteq> None
   | Pending l \<Rightarrow> log_run (lg_lines l) \<noteq> None
   | Propagates e l \<Rightarrow> log_run (lg_lines l) \<noteq> None \<and> \<not> handled_by (exn_class e) OSError"
proof -
  have "logger_ok \<lparr> lg_i2c = False, lg_session_index = 0, lg_lines = [LoggerStart] \<rparr>"
    by (simp add: logger_ok_def log_run_def)
  then have "outcome_ok (logger_main as)" unfolding logger_main_def by (rule main_loop_ok)
  then show ?thesis by (auto simp: outcome_ok_def logger_ok_def split: outcome.splits)
qed

subsection \<open>Witnesses\<close>

definition clear_flags :: alert_flags where
  "clear_flags = \<lparr> MATHOF = False, ENERGYOF = False, MEMSTAT = True, CNVRF = True \<rparr>"

definition sample_at :: "int \<Rightarrow> rat \<Rightarrow> turn" where
  "sample_at t energy =
     \<lparr> tu_poll = [], tu_now_ns = t, tu_waits = [], tu_start_ns = t,
       tu_reading = Inr \<lparr> rd_flags = clear_flags, rd_bus_voltage = 5, rd_shunt_voltage = 0, rd_current = 1, rd_power = 5, rd_energy = energy \<rparr>,
       tu_end_ns = t + 1000, tu_finished_ns = t + 2000 \<rparr>"

text \<open>Two rows, the counter goes back at the second one.\<close>

definition example_session :: session_script where
  "example_session =
     \<lparr> ss_baseline_start_ns = 0, ss_initial = Inr (clear_flags, 1, 2288), ss_baseline_end_ns = 100, ss_first_log_ns = 200,
       ss_turns = [sample_at 200 2, sample_at 100000200 1] \<rparr>"

lemma example_session_runs:
  "\<exists>out. run_session 1 example_session [] = (out, None) \<and> reasons_of out = [''energy_counter_decreased''] \<and> length (rows_of out) = 2"
proof -
  have "case run_session 1 example_session [] of (out, ended) \<Rightarrow>
      ended = None \<and> reasons_of out = [''energy_counter_decreased''] \<and> length (rows_of out) = 2" by code_simp
  then show ?thesis by (auto split: prod.splits)
qed

lemma example_session_initial: "ss_initial example_session = Inr (clear_flags, 1, 2288)"
  by (simp add: example_session_def)



theorem sync_reader_stream_witness:
  "list_all (\<lambda>xs. length xs \<le> 256) [[(CHR ''S'', 1), (CHR ''Y'', 2)], [(CHR ''N'', 3), (CHR ''C'', 4), (CHR '' '', 5), (CHR ''a'', 6), (CHR 0x0A, 7)]] \<and>
   polls 0 1 (map (map (\<lambda>(c, t). (Some c, t))) [[(CHR ''S'', 1), (CHR ''Y'', 2)], [(CHR ''N'', 3), (CHR ''C'', 4), (CHR '' '', 5), (CHR ''a'', 6), (CHR 0x0A, 7)]]) [] =
     ([], [ClockSync ''a'' 1 7])"
proof -
  let ?xss = "[[(CHR ''S'', 1), (CHR ''Y'', 2)], [(CHR ''N'', 3), (CHR ''C'', 4), (CHR '' '', 5), (CHR ''a'', 6), (CHR 0x0A, 7)]] :: (char \<times> int) list list"
  have ok: "list_all (\<lambda>xs. length xs \<le> 256) ?xss" by simp
  have "sync_stream 0 1 (concat ?xss) [] = ([], [ClockSync ''a'' 1 7])" by code_simp
  with sync_reader_stream [OF ok, of 0 1 "[]"] ok show ?thesis by auto
qed

end
