(* ===== verification/Board_Measurement.thy ===== *)
theory Board_Measurement
  imports Complex_Main Energy_Logger "HOL-Library.Product_Lexorder"
begin

text \<open>
  The offline energy analysis, \<^verbatim>\<open>scripts/measurement/analyze_board_measurement.py\<close>: the checks on the meter rows,
  the clock map, the energy trace, one trial and the paired differences. Numbers are exact rationals instead of binary floating point, and
  the rows arrive as records instead of text, so the checks for non-finite numbers have no counterpart. The Student t interval, the plots, the
  command line and the hashes are not modelled. The main result is that the reported bounds hold for the true quantities under the
  assumptions the script states about clocks and sensor timing.
\<close>

section \<open>Meter rows\<close>

record sample =
  sm_seq :: rat
  sm_t_start_s :: rat
  sm_t_end_s :: rat
  sm_bus_voltage_V :: rat
  sm_current_A :: rat
  sm_energy_J :: rat
  sm_math_overflow :: rat
  sm_energy_overflow :: rat
  sm_memory_ok :: rat
  sm_math_overflow_latched :: rat
  sm_energy_overflow_latched :: rat
  sm_memory_error_latched :: rat
  sm_accumulation_valid :: rat

definition value_error :: "string \<Rightarrow> exn" where
  "value_error m = Exn ValueError m"

text \<open>The checks of one row against the row before it.\<close>

definition check_sample :: "sample option \<Rightarrow> sample \<Rightarrow> unit result" where
  "check_sample previous row =
     checks
       [(\<not> sm_t_end_s row < sm_t_start_s row, value_error ''Reversed meter read window''),
        (sm_accumulation_valid row = 1 \<and> sm_memory_ok row = 1, value_error ''Session contains invalid accumulated energy''),
        (sm_math_overflow row = 0, value_error ''Session contains a diagnostic fault: math_overflow''),
        (sm_energy_overflow row = 0, value_error ''Session contains a diagnostic fault: energy_overflow''),
        (sm_math_overflow_latched row = 0, value_error ''Session contains a diagnostic fault: math_overflow_latched''),
        (sm_energy_overflow_latched row = 0, value_error ''Session contains a diagnostic fault: energy_overflow_latched''),
        (sm_memory_error_latched row = 0, value_error ''Session contains a diagnostic fault: memory_error_latched''),
        (case previous of None \<Rightarrow> True
         | Some p \<Rightarrow> \<not> (sm_seq row \<le> sm_seq p \<or> sm_t_start_s row \<le> sm_t_end_s p \<or> sm_energy_J row < sm_energy_J p),
         value_error ''Sequence, time or energy discontinuity in session'')]"

fun check_samples :: "sample option \<Rightarrow> sample list \<Rightarrow> unit result" where
  "check_samples previous [] = Inr ()"
| "check_samples previous (row # rows) = rbind (check_sample previous row) (\<lambda>_. check_samples (Some row) rows)"

definition load_samples :: "sample list \<Rightarrow> sample list result" where
  "load_samples rows =
     (if length rows < 3 then Inl (value_error ''At least three meter rows are required'')
      else rbind (check_samples None rows) (\<lambda>_. Inr rows))"

section \<open>The clock map\<close>

record sync_row =
  sy_event :: string
  sy_device_session :: int
  sy_qpc_frequency :: rat
  sy_send_before_qpc :: rat
  sy_receive_qpc :: rat
  sy_device_t_ns :: rat

text \<open>Device time of a reply and the host interval it lies in.\<close>

type_synonym sync_point = "rat \<times> rat \<times> rat"

record clock_map =
  ck_rate :: rat
  ck_points :: "sync_point list"

definition sync_point_of :: "sync_row \<Rightarrow> sync_point result" where
  "sync_point_of row =
     (let freq = sy_qpc_frequency row in
      if freq \<le> 0 then Inl (value_error ''Invalid QPC frequency'')
      else
        let lo = sy_send_before_qpc row / freq; hi = sy_receive_qpc row / freq; device = sy_device_t_ns row / 1000000000 in
        if hi < lo then Inl (value_error ''Reversed host sync bracket'') else Inr (device, lo, hi))"

definition ClockMap :: "sync_row list \<Rightarrow> int \<Rightarrow> rat \<Rightarrow> clock_map result" where
  "ClockMap records session rate_ppm =
     rbind (rmapM sync_point_of (filter (\<lambda>row. sy_event row = ''sync_reply'' \<and> sy_device_session row = session) records)) (\<lambda>points.
     if length points < 2 then Inl (value_error ''At least two matched sync replies in the selected session are required'')
     else Inr \<lparr> ck_rate = rate_ppm / 1000000, ck_points = sort points \<rparr>)"

definition corners :: "rat \<Rightarrow> rat \<Rightarrow> rat \<Rightarrow> sync_point \<Rightarrow> rat list" where
  "corners rho host_lo host_hi pt =
     (case pt of (device, anchor_lo, anchor_hi) \<Rightarrow>
        [device + (host_lo - anchor_hi) / (1 - rho), device + (host_lo - anchor_hi) / (1 + rho),
         device + (host_hi - anchor_lo) / (1 - rho), device + (host_hi - anchor_lo) / (1 + rho)])"

definition min_list4 :: "rat list \<Rightarrow> rat" where
  "min_list4 xs = foldl min (hd xs) (tl xs)"

definition max_list4 :: "rat list \<Rightarrow> rat" where
  "max_list4 xs = foldl max (hd xs) (tl xs)"

text \<open>
  Intersection of the intervals of the points, starting with the whole line \<open>None\<close>; a clock map has at least two points,
  so the whole line is never the answer.
\<close>

definition narrow :: "rat \<Rightarrow> rat \<Rightarrow> rat \<Rightarrow> (rat \<times> rat) option \<Rightarrow> sync_point \<Rightarrow> (rat \<times> rat) option" where
  "narrow rho host_lo host_hi bounds pt =
     (let cs = corners rho host_lo host_hi pt in
      case bounds of
        None \<Rightarrow> Some (min_list4 cs, max_list4 cs)
      | Some (low, high) \<Rightarrow> Some (max low (min_list4 cs), min high (max_list4 cs)))"

definition device_interval :: "clock_map \<Rightarrow> rat \<Rightarrow> rat \<Rightarrow> (rat \<times> rat) result" where
  "device_interval clock host_lo host_hi =
     (case foldl (narrow (ck_rate clock) host_lo host_hi) None (ck_points clock) of
        None \<Rightarrow> Inl (value_error ''unbounded'')
      | Some (low, high) \<Rightarrow>
          if low > high then Inl (value_error ''Clock bounds inconsistent; check sessions/QPC or enlarge justified rate bound'')
          else Inr (low, high))"

section \<open>The energy trace\<close>

record energy_trace =
  et_rows :: "sample list"
  et_lo :: "rat list"
  et_hi :: "rat list"
  et_mid :: "rat list"
  et_energy :: "rat list"

definition EnergyTrace :: "sample list \<Rightarrow> rat \<Rightarrow> energy_trace" where
  "EnergyTrace rows guard =
     (let lo = map (\<lambda>r. sm_t_start_s r - guard) rows; hi = map sm_t_end_s rows in
      \<lparr> et_rows = rows, et_lo = lo, et_hi = hi, et_mid = map2 (\<lambda>a b. (a + b) / 2) lo hi, et_energy = map sm_energy_J rows \<rparr>)"

text \<open>The binary search of \<^verbatim>\<open>bisect\<close>; \<open>right a\<close> says that the insertion point lies to the right of \<open>a\<close>.\<close>

function bisect :: "(rat \<Rightarrow> bool) \<Rightarrow> rat list \<Rightarrow> nat \<Rightarrow> nat \<Rightarrow> nat" where
  "bisect right xs lo hi =
     (if lo < hi then
        let mid = (lo + hi) div 2 in
        if right (xs ! mid) then bisect right xs (mid + 1) hi else bisect right xs lo mid
      else lo)"
  by pat_completeness auto
termination
  by (relation "measure (\<lambda>(_, _, lo, hi). hi - lo)") auto

declare bisect.simps [simp del]

definition bisect_right :: "rat list \<Rightarrow> rat \<Rightarrow> nat" where
  "bisect_right xs x = bisect (\<lambda>a. \<not> x < a) xs 0 (length xs)"

definition bisect_left :: "rat list \<Rightarrow> rat \<Rightarrow> nat" where
  "bisect_left xs x = bisect (\<lambda>a. a < x) xs 0 (length xs)"

definition endpoint :: "energy_trace \<Rightarrow> rat \<times> rat \<Rightarrow> (rat \<times> rat \<times> nat \<times> nat) result" where
  "endpoint trace bounds =
     (let before = int (bisect_right (et_hi trace) (fst bounds)) - 1;
          after = bisect_left (et_lo trace) (snd bounds) in
      if before < 0 \<or> after \<ge> length (et_rows trace) then Inl (value_error ''Meter capture does not bracket this trial; preserve idle padding'')
      else Inr (et_energy trace ! nat before, et_energy trace ! after, nat before, after))"

definition interpolate :: "energy_trace \<Rightarrow> rat \<Rightarrow> rat result" where
  "interpolate trace time =
     (let upper = bisect_left (et_mid trace) time in
      if upper \<le> 0 \<or> upper \<ge> length (et_mid trace) then Inl (value_error ''Cannot interpolate outside meter time range'')
      else
        let lower = upper - 1;
            fraction = (time - et_mid trace ! lower) / (et_mid trace ! upper - et_mid trace ! lower) in
        Inr (et_energy trace ! lower + fraction * (et_energy trace ! upper - et_energy trace ! lower)))"

section \<open>A trial\<close>

record trial =
  tl_completed :: bool
  tl_mismatch_count :: "int option"
  tl_cycles :: int
  tl_clock_hz :: rat
  tl_epochs :: int
  tl_inputs_per_epoch :: int
  tl_outputs_per_epoch :: int
  tl_frames_per_epoch :: int
  tl_input_count :: "int option"
  tl_output_count :: "int option"
  tl_frame_count :: "int option"
  tl_launch_before_qpc :: rat
  tl_launch_after_qpc :: rat
  tl_completion_before_qpc :: "rat option"
  tl_completion_after_qpc :: rat
  tl_pair_id :: "string option"
  tl_condition :: string

record measure_args =
  ma_fabric_rate_ppm :: rat
  ma_launch_guard_s :: rat
  ma_interior_trim_s :: rat

record trial_result =
  tr_trial :: trial
  tr_duration_nominal_s :: rat
  tr_duration_host_bounds_s :: "rat \<times> rat"
  tr_device_start_bounds_s :: "rat \<times> rat"
  tr_device_end_bounds_s :: "rat \<times> rat"
  tr_energy_endpoint_row_indices :: "nat list"
  tr_board_energy_bounds_J :: "rat \<times> rat"
  tr_board_energy_interpolated_J :: rat
  tr_board_J_per_input_bounds :: "rat \<times> rat"
  tr_board_J_per_input_interpolated :: rat
  tr_board_J_per_output_interpolated :: rat
  tr_board_J_per_epoch_interpolated :: rat
  tr_total_inputs :: int
  tr_total_outputs :: int
  tr_total_frames :: int
  tr_interior_rows :: "nat \<times> nat"
  tr_interior_duration_device_s :: rat
  tr_interior_board_power_W :: rat
  tr_interior_board_power_timing_bounds_W :: "rat \<times> rat"
  tr_interior_scaled_energy_estimate_J :: rat
  tr_interior_mean_bus_V :: rat
  tr_interior_mean_current_A :: rat

definition count_matches :: "int option \<Rightarrow> int \<Rightarrow> bool" where
  "count_matches observed expected \<longleftrightarrow> (case observed of None \<Rightarrow> True | Some c \<Rightarrow> c = expected)"

definition check_trial :: "trial \<Rightarrow> unit result" where
  "check_trial t =
     checks
       [(tl_completed t \<and> tl_mismatch_count t = Some 0, value_error ''Trial must be completed with an explicit zero mismatch count''),
        (\<not> (tl_cycles t \<le> 0 \<or> tl_clock_hz t \<le> 0 \<or> tl_epochs t \<le> 0), value_error ''Invalid fabric duration/work count''),
        (count_matches (tl_input_count t) (tl_epochs t * tl_inputs_per_epoch t), value_error ''Observed input_count disagrees with requested work''),
        (count_matches (tl_output_count t) (tl_epochs t * tl_outputs_per_epoch t), value_error ''Observed output_count disagrees with requested work''),
        (count_matches (tl_frame_count t) (tl_epochs t * tl_frames_per_epoch t), value_error ''Observed frame_count disagrees with requested work'')]"

definition nominal_duration :: "trial \<Rightarrow> rat" where
  "nominal_duration t = of_int (tl_cycles t) / tl_clock_hz t"

definition duration_bounds :: "measure_args \<Rightarrow> trial \<Rightarrow> rat \<times> rat" where
  "duration_bounds args t =
     (let error = ma_fabric_rate_ppm args / 1000000 in (nominal_duration t / (1 + error), nominal_duration t / (1 - error)))"

text \<open>The host brackets of launch and completion.\<close>

definition launch_bracket :: "measure_args \<Rightarrow> rat \<Rightarrow> trial \<Rightarrow> rat \<times> rat" where
  "launch_bracket args frequency t = (tl_launch_before_qpc t / frequency, tl_launch_after_qpc t / frequency + ma_launch_guard_s args)"

definition done_bracket :: "rat \<Rightarrow> trial \<Rightarrow> rat \<times> rat" where
  "done_bracket frequency t =
     ((case tl_completion_before_qpc t of None \<Rightarrow> tl_launch_before_qpc t | Some q \<Rightarrow> q) / frequency, tl_completion_after_qpc t / frequency)"

text \<open>Host intervals of start and end, tightened by the cycle count.\<close>

definition host_intervals :: "measure_args \<Rightarrow> rat \<Rightarrow> trial \<Rightarrow> ((rat \<times> rat) \<times> (rat \<times> rat)) result" where
  "host_intervals args frequency t =
     (let (duration_lo, duration_hi) = duration_bounds args t;
          (launch_lo, launch_hi) = launch_bracket args frequency t;
          (done_lo, done_hi) = done_bracket frequency t in
      if launch_hi < launch_lo \<or> done_hi < done_lo then Inl (value_error ''Reversed JTAG timing bracket'')
      else
        let start_lo = max launch_lo (done_lo - duration_hi); start_hi = min launch_hi (done_hi - duration_lo);
            end_lo = max done_lo (start_lo + duration_lo); end_hi = min done_hi (start_hi + duration_hi) in
        if start_lo > start_hi \<or> end_lo > end_hi then Inl (value_error ''JTAG brackets and fabric duration are inconsistent'')
        else Inr ((start_lo, start_hi), (end_lo, end_hi)))"

definition mean :: "rat list \<Rightarrow> rat" where
  "mean xs = sum_list xs / of_nat (length xs)"

text \<open>The sensor rows that lie inside the active interval, and their duration bounds.\<close>

definition interior :: "measure_args \<Rightarrow> energy_trace \<Rightarrow> rat \<times> rat \<Rightarrow> rat \<times> rat \<Rightarrow> (nat \<times> nat) result" where
  "interior args trace start stop =
     (let first = int (bisect_left (et_lo trace) (snd start + ma_interior_trim_s args));
          last = int (bisect_right (et_hi trace) (fst stop - ma_interior_trim_s args)) - 1 in
      if last - first < 2 then Inl (value_error ''Not enough samples in the guaranteed active interior'')
      else if et_lo trace ! nat last - et_hi trace ! nat first \<le> 0 then Inl (value_error ''Interior read windows overlap'')
      else Inr (nat first, nat last))"

definition trial_report ::
    "clock_map \<Rightarrow> energy_trace \<Rightarrow> measure_args \<Rightarrow> trial \<Rightarrow> rat \<times> rat \<Rightarrow> rat \<times> rat \<Rightarrow> nat list \<Rightarrow> rat \<times> rat \<Rightarrow> rat \<Rightarrow> nat \<times> nat \<Rightarrow> trial_result" where
  "trial_report clock trace args t start stop rows bounds estimate inner =
     (let inputs = tl_epochs t * tl_inputs_per_epoch t; outputs = tl_epochs t * tl_outputs_per_epoch t;
          first = fst inner; last = snd inner;
          plateau_energy = et_energy trace ! last - et_energy trace ! first;
          plateau_duration = et_mid trace ! last - et_mid trace ! first;
          plateau_lo = et_lo trace ! last - et_hi trace ! first;
          plateau_hi = et_hi trace ! last - et_lo trace ! first;
          slice = take (last + 1 - first) (drop first (et_rows trace)) in
      \<lparr> tr_trial = t, tr_duration_nominal_s = nominal_duration t, tr_duration_host_bounds_s = duration_bounds args t,
        tr_device_start_bounds_s = start, tr_device_end_bounds_s = stop, tr_energy_endpoint_row_indices = rows,
        tr_board_energy_bounds_J = bounds, tr_board_energy_interpolated_J = estimate,
        tr_board_J_per_input_bounds = (fst bounds / of_int inputs, snd bounds / of_int inputs),
        tr_board_J_per_input_interpolated = estimate / of_int inputs,
        tr_board_J_per_output_interpolated = estimate / of_int outputs,
        tr_board_J_per_epoch_interpolated = estimate / of_int (tl_epochs t),
        tr_total_inputs = inputs, tr_total_outputs = outputs, tr_total_frames = tl_epochs t * tl_frames_per_epoch t,
        tr_interior_rows = inner, tr_interior_duration_device_s = plateau_duration,
        tr_interior_board_power_W = plateau_energy / plateau_duration,
        tr_interior_board_power_timing_bounds_W =
          (plateau_energy / plateau_hi * (1 - ck_rate clock), plateau_energy / plateau_lo * (1 + ck_rate clock)),
        tr_interior_scaled_energy_estimate_J = plateau_energy / plateau_duration * nominal_duration t,
        tr_interior_mean_bus_V = mean (map sm_bus_voltage_V slice), tr_interior_mean_current_A = mean (map sm_current_A slice) \<rparr>)"

definition analyze_trial :: "trial \<Rightarrow> energy_trace \<Rightarrow> clock_map \<Rightarrow> rat \<Rightarrow> measure_args \<Rightarrow> trial_result result" where
  "analyze_trial t trace clock frequency args =
     rbind (check_trial t) (\<lambda>_.
     rbind (host_intervals args frequency t) (\<lambda>(hs, he).
     rbind (device_interval clock (fst hs) (snd hs)) (\<lambda>start.
     rbind (device_interval clock (fst he) (snd he)) (\<lambda>stop.
     if fst stop \<le> snd start then Inl (value_error ''No guaranteed active interval'')
     else
       rbind (endpoint trace start) (\<lambda>(sa, sb, si, sj).
       rbind (endpoint trace stop) (\<lambda>(ea, eb, ei, ej).
       let bounds = (max 0 (ea - sb), eb - sa) in
       rbind (interpolate trace ((fst stop + snd stop) / 2)) (\<lambda>e2.
       rbind (interpolate trace ((fst start + snd start) / 2)) (\<lambda>e1.
       let estimate = e2 - e1 in
       if \<not> (fst bounds - 1 / 1000000 \<le> estimate \<and> estimate \<le> snd bounds + 1 / 1000000)
       then Inl (value_error ''Interpolated energy escaped the conservative bracket'')
       else
         rbind (interior args trace start stop) (\<lambda>inner.
         if tl_epochs t * tl_inputs_per_epoch t = 0 \<or> tl_epochs t * tl_outputs_per_epoch t = 0
         then Inl (Exn ZeroDivisionError ''division by zero'')
         else Inr (trial_report clock trace args t start stop [si, sj, ei, ej] bounds estimate inner))))))))))"

section \<open>Pairs and the whole analysis\<close>

type_synonym groups = "(string \<times> (string \<times> trial_result) list) list"

fun put_group :: "string \<Rightarrow> (string \<times> trial_result) list \<Rightarrow> groups \<Rightarrow> groups" where
  "put_group key members [] = [(key, members)]"
| "put_group key members ((k, g) # groups) = (if k = key then (k, members) # groups else (k, g) # put_group key members groups)"

definition group_of :: "string \<Rightarrow> groups \<Rightarrow> (string \<times> trial_result) list" where
  "group_of key groups = (case map_of groups key of None \<Rightarrow> [] | Some g \<Rightarrow> g)"

fun group_trials :: "groups \<Rightarrow> trial_result list \<Rightarrow> groups result" where
  "group_trials groups [] = Inr groups"
| "group_trials groups (r # rs) =
     (case tl_pair_id (tr_trial r) of
        None \<Rightarrow> group_trials groups rs
      | Some key \<Rightarrow>
          let members = group_of key groups; condition = tl_condition (tr_trial r) in
          if condition \<in> fst ` set members then Inl (value_error (''Duplicate condition in pair '' @ key))
          else group_trials (put_group key (members @ [(condition, r)]) groups) rs)"

record pair_result =
  pr_pair_id :: string
  pr_delta_energy :: rat
  pr_delta_energy_bounds :: "rat \<times> rat"
  pr_delta_power :: rat

definition pair_of :: "string \<Rightarrow> trial_result \<Rightarrow> trial_result \<Rightarrow> pair_result" where
  "pair_of pair_id a b =
     \<lparr> pr_pair_id = pair_id,
       pr_delta_energy = tr_board_energy_interpolated_J b - tr_board_energy_interpolated_J a,
       pr_delta_energy_bounds =
         (fst (tr_board_energy_bounds_J b) - snd (tr_board_energy_bounds_J a), snd (tr_board_energy_bounds_J b) - fst (tr_board_energy_bounds_J a)),
       pr_delta_power = tr_interior_board_power_W b - tr_interior_board_power_W a \<rparr>"

definition same_work :: "trial_result \<Rightarrow> trial_result \<Rightarrow> bool" where
  "same_work a b \<longleftrightarrow> tr_total_inputs a = tr_total_inputs b \<and> tr_total_outputs a = tr_total_outputs b \<and>
     tl_epochs (tr_trial a) = tl_epochs (tr_trial b) \<and> tl_clock_hz (tr_trial a) = tl_clock_hz (tr_trial b)"

fun make_pairs :: "string \<Rightarrow> string \<Rightarrow> groups \<Rightarrow> pair_result list result" where
  "make_pairs baseline candidate [] = Inr []"
| "make_pairs baseline candidate ((pair_id, members) # groups) =
     (case (map_of members baseline, map_of members candidate) of
        (Some a, Some b) \<Rightarrow>
          if \<not> same_work a b then Inl (value_error (''Unmatched work in pair '' @ pair_id))
          else rbind (make_pairs baseline candidate groups) (\<lambda>ps. Inr (pair_of pair_id a b # ps))
      | _ \<Rightarrow> make_pairs baseline candidate groups)"

definition paired_results :: "trial_result list \<Rightarrow> string \<Rightarrow> string \<Rightarrow> pair_result list result" where
  "paired_results trials baseline candidate = rbind (group_trials [] trials) (make_pairs baseline candidate)"

record measure_options =
  mo_session :: int
  mo_device_rate_ppm :: rat
  mo_sensor_time_guard_s :: rat
  mo_trial_args :: measure_args
  mo_baseline :: string
  mo_candidate :: string

definition check_options :: "measure_options \<Rightarrow> unit result" where
  "check_options opts =
     checks
       [(0 \<le> mo_device_rate_ppm opts \<and> mo_device_rate_ppm opts < 1000000 \<and>
         0 \<le> ma_fabric_rate_ppm (mo_trial_args opts) \<and> ma_fabric_rate_ppm (mo_trial_args opts) < 1000000,
         Exn SystemExit ''Clock rate bounds must be in [0, 1000000) ppm''),
        (\<not> (mo_sensor_time_guard_s opts < 0 \<or> ma_launch_guard_s (mo_trial_args opts) < 0 \<or> ma_interior_trim_s (mo_trial_args opts) < 0),
         Exn SystemExit ''Timing guards must not be negative'')]"

definition sequence_gap_count :: "sample list \<Rightarrow> int" where
  "sequence_gap_count rows = sum_list (map2 (\<lambda>a b. max 0 \<lfloor>sm_seq b - sm_seq a - 1\<rfloor>) rows (tl rows))"

record analysis =
  an_meter_rows :: nat
  an_matched_sync_replies :: nat
  an_sequence_gaps :: int
  an_trials :: "trial_result list"
  an_pairs :: "pair_result list"

definition analyze_board_measurement ::
    "measure_options \<Rightarrow> sample list \<Rightarrow> sync_row list \<Rightarrow> rat \<Rightarrow> trial list \<Rightarrow> analysis result" where
  "analyze_board_measurement opts csv sync frequency trials =
     rbind (check_options opts) (\<lambda>_.
     rbind (load_samples csv) (\<lambda>rows.
     rbind (ClockMap sync (mo_session opts) (mo_device_rate_ppm opts)) (\<lambda>clock.
     if frequency \<le> 0 then Inl (Exn SystemExit ''Invalid trial QPC frequency'')
     else
       let trace = EnergyTrace rows (mo_sensor_time_guard_s opts) in
       rbind (rmapM (\<lambda>t. analyze_trial t trace clock frequency (mo_trial_args opts)) trials) (\<lambda>results.
       rbind (paired_results results (mo_baseline opts) (mo_candidate opts)) (\<lambda>pairs.
       Inr \<lparr> an_meter_rows = length rows, an_matched_sync_replies = length (ck_points clock),
             an_sequence_gaps = sequence_gap_count rows, an_trials = results, an_pairs = pairs \<rparr>)))))"

section \<open>Searching the trace\<close>

lemma bisect_spec:
  assumes "sorted xs" "\<And>a b. a \<le> b \<Longrightarrow> right b \<Longrightarrow> right a" "lo \<le> hi" "hi \<le> length xs"
    "\<forall>k < lo. right (xs ! k)" "\<forall>k < length xs. hi \<le> k \<longrightarrow> \<not> right (xs ! k)"
  shows "bisect right xs lo hi \<le> length xs \<and> (\<forall>k < length xs. k < bisect right xs lo hi \<longleftrightarrow> right (xs ! k))"
  using assms(3-6)
proof (induction "hi - lo" arbitrary: lo hi rule: less_induct)
  case less
  let ?mid = "(lo + hi) div 2"
  show ?case
  proof (cases "lo < hi")
    case False
    then have "bisect right xs lo hi = lo" by (simp add: bisect.simps)
    then show ?thesis using less.prems False by auto
  next
    case True
    then have mid: "lo \<le> ?mid" "?mid < hi" by auto
    show ?thesis
    proof (cases "right (xs ! ?mid)")
      case R: True
      have "right (xs ! k)" if "k < ?mid + 1" for k
        using that R mid less.prems assms(2) [of "xs ! k" "xs ! ?mid"] sorted_nth_mono [OF assms(1), of k ?mid] by simp
      then show ?thesis using less.hyps [of hi "?mid + 1"] less.prems mid R True by (simp add: bisect.simps [of right xs lo hi] Let_def)
    next
      case L: False
      have "\<not> right (xs ! k)" if "k < length xs" "?mid \<le> k" for k
        using that L assms(2) [of "xs ! ?mid" "xs ! k"] sorted_nth_mono [OF assms(1), of ?mid k] by auto
      then show ?thesis using less.hyps [of ?mid lo] less.prems mid L True by (simp add: bisect.simps [of right xs lo hi] Let_def)
    qed
  qed
qed

lemma bisect_right_spec: "sorted xs \<Longrightarrow> bisect_right xs x \<le> length xs \<and> (\<forall>k < length xs. k < bisect_right xs x \<longleftrightarrow> xs ! k \<le> x)"
  unfolding bisect_right_def using bisect_spec [of xs "\<lambda>a. \<not> x < a" 0 "length xs"] by (auto simp: not_less)

lemma bisect_left_spec: "sorted xs \<Longrightarrow> bisect_left xs x \<le> length xs \<and> (\<forall>k < length xs. k < bisect_left xs x \<longleftrightarrow> xs ! k < x)"
  unfolding bisect_left_def using bisect_spec [of xs "\<lambda>a. a < x" 0 "length xs"] by auto

text \<open>Accepted rows are ordered in sequence, time and energy.\<close>

definition follows :: "sample \<Rightarrow> sample \<Rightarrow> bool" where
  "follows a b \<longleftrightarrow> sm_seq a < sm_seq b \<and> sm_t_end_s a < sm_t_start_s b \<and> sm_energy_J a \<le> sm_energy_J b"

lemma check_sample_Inr:
  "check_sample previous row = Inr u \<Longrightarrow> sm_t_start_s row \<le> sm_t_end_s row \<and> (\<forall>p. previous = Some p \<longrightarrow> follows p row)"
  by (auto simp: check_sample_def checks_Inr_iff follows_def not_less not_le)

lemma check_samples_Inr:
  "check_samples previous rows = Inr u \<Longrightarrow>
   list_all (\<lambda>r. sm_t_start_s r \<le> sm_t_end_s r) rows \<and> sorted_wrt follows rows \<and> (\<forall>p. previous = Some p \<longrightarrow> list_all (follows p) rows)"
proof (induction previous rows arbitrary: u rule: check_samples.induct)
  case (2 previous row rows)
  from "2.prems" have row: "check_sample previous row = Inr ()" and rest: "check_samples (Some row) rows = Inr ()"
    by (auto simp: rbind_Inr_iff)
  have ih: "list_all (\<lambda>r. sm_t_start_s r \<le> sm_t_end_s r) rows" "sorted_wrt follows rows" "list_all (follows row) rows"
    using "2.IH" [OF row rest] by auto
  have "follows p r" if "follows p row" "r \<in> set rows" for p r
    using that ih check_sample_Inr [OF row] by (fastforce simp: follows_def list_all_iff)
  then show ?case using ih check_sample_Inr [OF row] by (auto simp: list_all_iff)
qed simp

lemma load_samples_Inr:
  assumes "load_samples csv = Inr rows"
  shows "rows = csv" "3 \<le> length rows" "list_all (\<lambda>r. sm_t_start_s r \<le> sm_t_end_s r) rows" "sorted_wrt follows rows"
  using assms check_samples_Inr [of None csv] by (auto simp: load_samples_def rbind_Inr_iff split: if_splits)

text \<open>The four sequences of a trace are sorted.\<close>

lemma trace_sorted:
  assumes "list_all (\<lambda>r. sm_t_start_s r \<le> sm_t_end_s r) rows" "sorted_wrt follows rows"
  shows "sorted (et_lo (EnergyTrace rows guard))" "sorted (et_hi (EnergyTrace rows guard))" "sorted (et_energy (EnergyTrace rows guard))"
    "sorted_wrt (<) (et_mid (EnergyTrace rows guard))"
proof -
  have step: "sm_t_start_s (rows ! a) \<le> sm_t_end_s (rows ! a)" "sm_t_end_s (rows ! a) < sm_t_start_s (rows ! b)" "sm_t_start_s (rows ! b) \<le> sm_t_end_s (rows ! b)"
    "sm_energy_J (rows ! a) \<le> sm_energy_J (rows ! b)" if "a < b" "b < length rows" for a b
    using assms that by (auto simp: list_all_length sorted_wrt_iff_nth_less follows_def)
  have "sm_t_start_s (rows ! a) \<le> sm_t_start_s (rows ! b)" "sm_t_end_s (rows ! a) \<le> sm_t_end_s (rows ! b)"
    "sm_t_start_s (rows ! a) * 2 + sm_t_end_s (rows ! a) * 2 < sm_t_start_s (rows ! b) * 2 + sm_t_end_s (rows ! b) * 2"
    if "a < b" "b < length rows" for a b
    using step [OF that] by linarith+
  note all = this step
  show "sorted (et_lo (EnergyTrace rows guard))" "sorted (et_hi (EnergyTrace rows guard))" "sorted (et_energy (EnergyTrace rows guard))"
    "sorted_wrt (<) (et_mid (EnergyTrace rows guard))"
    by (simp_all add: EnergyTrace_def Let_def sorted_wrt_iff_nth_less all divide_strict_right_mono)
qed

section \<open>The physical assumptions\<close>

text \<open>
  The meter's clock as a function \<open>D\<close> of host time: while a device second passes, between \<open>1 - rho\<close> and \<open>1 + rho\<close>
  host seconds pass. Every synchronisation reply was stamped at some instant of its host bracket.
\<close>

definition clock_law :: "rat \<Rightarrow> (rat \<Rightarrow> rat) \<Rightarrow> bool" where
  "clock_law rho D \<longleftrightarrow> (\<forall>h h'. h \<le> h' \<longrightarrow> (h' - h) / (1 + rho) \<le> D h' - D h \<and> D h' - D h \<le> (h' - h) / (1 - rho))"

definition synced :: "(rat \<Rightarrow> rat) \<Rightarrow> sync_point list \<Rightarrow> bool" where
  "synced D points \<longleftrightarrow> (\<forall>(device, lo, hi) \<in> set points. \<exists>h. lo \<le> h \<and> h \<le> hi \<and> D h = device)"

text \<open>The energy counter \<open>E\<close> as a function of device time never decreases, and every row holds its value at some instant of the read
  window, extended by the guard.\<close>

definition metered :: "(rat \<Rightarrow> rat) \<Rightarrow> energy_trace \<Rightarrow> bool" where
  "metered E trace \<longleftrightarrow> mono E \<and>
     (\<forall>k < length (et_rows trace). \<exists>t. et_lo trace ! k \<le> t \<and> t \<le> et_hi trace ! k \<and> E t = et_energy trace ! k)"

text \<open>The trial ran from \<open>start\<close> to \<open>stop\<close>, in host time: inside the JTAG brackets, for the counted cycles at a clock rate within its bound.\<close>

definition took_place :: "measure_args \<Rightarrow> rat \<Rightarrow> trial \<Rightarrow> rat \<Rightarrow> rat \<Rightarrow> bool" where
  "took_place args frequency t start stop \<longleftrightarrow>
     fst (launch_bracket args frequency t) \<le> start \<and> start \<le> snd (launch_bracket args frequency t) \<and>
     fst (done_bracket frequency t) \<le> stop \<and> stop \<le> snd (done_bracket frequency t) \<and>
     fst (duration_bounds args t) \<le> stop - start \<and> stop - start \<le> snd (duration_bounds args t)"

definition lies_in :: "rat \<Rightarrow> rat \<times> rat \<Rightarrow> bool" where
  "lies_in x b \<longleftrightarrow> fst b \<le> x \<and> x \<le> snd b"

section \<open>Soundness of the bounds\<close>

lemma host_intervals_sound:
  assumes "host_intervals args frequency t = Inr (hs, he)" "took_place args frequency t start stop"
  shows "lies_in start hs" "lies_in stop he"
  using assms by (auto simp: host_intervals_def took_place_def lies_in_def Let_def split: prod.splits if_splits)

lemma clock_law_bounds:
  assumes law: "clock_law rho D" and rho: "0 \<le> rho" "rho < 1" and h: "a \<le> h - h0" "h - h0 \<le> b"
  shows "min (a / (1 - rho)) (a / (1 + rho)) \<le> D h - D h0" "D h - D h0 \<le> max (b / (1 - rho)) (b / (1 + rho))"
proof -
  have pos: "0 < 1 - rho" "0 < 1 + rho" "1 - rho \<le> 1 + rho" using rho by auto
  have neg: "x / (1 - rho) \<le> x / (1 + rho)" if "x \<le> 0" for x
    using pos that by (simp add: divide_left_mono_neg)
  show "min (a / (1 - rho)) (a / (1 + rho)) \<le> D h - D h0"
  proof (cases "h0 \<le> h")
    case True
    have "(h - h0) / (1 + rho) \<le> D h - D h0" using law True by (auto simp: clock_law_def)
    moreover have "a / (1 + rho) \<le> (h - h0) / (1 + rho)" using h(1) pos by (intro divide_right_mono) simp_all
    ultimately show ?thesis by linarith
  next
    case False
    have "D h0 - D h \<le> (h0 - h) / (1 - rho)" using law False by (auto simp: clock_law_def)
    moreover have "a / (1 - rho) \<le> (h - h0) / (1 - rho)" using h(1) pos by (intro divide_right_mono) simp_all
    moreover have "(h - h0) / (1 - rho) = - ((h0 - h) / (1 - rho))" by (simp add: minus_divide_left)
    ultimately show ?thesis by linarith
  qed
  show "D h - D h0 \<le> max (b / (1 - rho)) (b / (1 + rho))"
  proof (cases "h0 \<le> h")
    case True
    have "D h - D h0 \<le> (h - h0) / (1 - rho)" using law True by (auto simp: clock_law_def)
    moreover have "(h - h0) / (1 - rho) \<le> b / (1 - rho)" using h(2) pos by (intro divide_right_mono) simp_all
    ultimately show ?thesis by linarith
  next
    case False
    have "(h0 - h) / (1 + rho) \<le> D h0 - D h" using law False by (auto simp: clock_law_def)
    moreover have "(h - h0) / (1 + rho) \<le> b / (1 + rho)" using h(2) pos by (intro divide_right_mono) simp_all
    moreover have "(h - h0) / (1 + rho) = - ((h0 - h) / (1 + rho))" by (simp add: minus_divide_left)
    ultimately show ?thesis by linarith
  qed
qed

lemma corners_sound:
  assumes "clock_law rho D" "0 \<le> rho" "rho < 1" "alo \<le> h0" "h0 \<le> ahi" "D h0 = device" "lies_in h (lo, hi)"
  shows "min_list4 (corners rho lo hi (device, alo, ahi)) \<le> D h" "D h \<le> max_list4 (corners rho lo hi (device, alo, ahi))"
proof -
  have "lo - ahi \<le> h - h0" "h - h0 \<le> hi - alo" using assms(4,5,7) by (auto simp: lies_in_def)
  note b = clock_law_bounds [OF assms(1-3) this]
  show "min_list4 (corners rho lo hi (device, alo, ahi)) \<le> D h" "D h \<le> max_list4 (corners rho lo hi (device, alo, ahi))"
    using b unfolding assms(6) by (simp_all add: corners_def min_list4_def max_list4_def min_def max_def split: if_splits)
qed

lemma narrow_sound:
  assumes "clock_law rho D" "0 \<le> rho" "rho < 1" "synced D points" "lies_in h (lo, hi)"
    and "bounds = None \<or> (\<exists>b. bounds = Some b \<and> lies_in (D h) b)"
  shows "case foldl (narrow rho lo hi) bounds points of None \<Rightarrow> True | Some b \<Rightarrow> lies_in (D h) b"
  using assms(4,6)
proof (induction points arbitrary: bounds)
  case (Cons pt points)
  obtain device alo ahi where pt: "pt = (device, alo, ahi)" by (rule prod_cases3)
  obtain h0 where h0: "alo \<le> h0" "h0 \<le> ahi" "D h0 = device" using Cons.prems(1) by (auto simp: synced_def pt)
  have "\<exists>b. narrow rho lo hi bounds pt = Some b \<and> lies_in (D h) b"
    using Cons.prems(2) corners_sound [OF assms(1-3) h0 assms(5)] by (auto simp: narrow_def Let_def lies_in_def pt)
  then show ?case using Cons.IH [of "narrow rho lo hi bounds pt"] Cons.prems(1) by (simp add: synced_def)
qed (auto split: option.splits)

lemma device_interval_sound:
  assumes "device_interval clock lo hi = Inr b" "clock_law (ck_rate clock) D" "0 \<le> ck_rate clock" "ck_rate clock < 1"
    "synced D (ck_points clock)" "lies_in h (lo, hi)"
  shows "lies_in (D h) b"
  using narrow_sound [OF assms(2-6), of None] assms(1) by (auto simp: device_interval_def split: option.splits if_splits)

lemma endpoint_sound:
  assumes rows: "sorted (et_lo trace)" "sorted (et_hi trace)" and lens: "length (et_lo trace) = length (et_rows trace)" "length (et_hi trace) = length (et_rows trace)"
    and met: "metered E trace" and ep: "endpoint trace b = Inr (ea, eb, i, j)" and t: "lies_in t b"
  shows "ea \<le> E t" "E t \<le> eb"
proof -
  have idx: "1 \<le> bisect_right (et_hi trace) (fst b)" "i = bisect_right (et_hi trace) (fst b) - 1" "j = bisect_left (et_lo trace) (snd b)"
    "j < length (et_rows trace)" "ea = et_energy trace ! i" "eb = et_energy trace ! j"
    using ep by (auto simp: endpoint_def Let_def nat_diff_distrib split: if_splits)
  have i: "i < length (et_rows trace)" using idx(1,2) bisect_right_spec [OF rows(2), of "fst b"] lens(2) by linarith
  have "i < bisect_right (et_hi trace) (fst b)" using idx(1,2) by linarith
  with i have "et_hi trace ! i \<le> fst b" using conjunct2 [OF bisect_right_spec [OF rows(2), of "fst b"]] lens(2) by auto
  moreover obtain t1 where "t1 \<le> et_hi trace ! i" "E t1 = ea" using met i by (auto simp: metered_def idx(5))
  ultimately have "t1 \<le> t" using t by (simp add: lies_in_def)
  then show "ea \<le> E t" using met \<open>E t1 = ea\<close> by (auto simp: metered_def mono_def)
  have "snd b \<le> et_lo trace ! j" using idx(3,4) bisect_left_spec [OF rows(1), of "snd b"] lens(1) by (auto simp: not_less [symmetric])
  moreover obtain t2 where "et_lo trace ! j \<le> t2" "E t2 = eb" using met idx(4) by (auto simp: metered_def idx(6))
  ultimately have "t \<le> t2" using t by (simp add: lies_in_def)
  then show "E t \<le> eb" using met \<open>E t2 = eb\<close> by (auto simp: metered_def mono_def)
qed

lemma trace_lengths [simp]:
  "et_rows (EnergyTrace rows guard) = rows" "length (et_lo (EnergyTrace rows guard)) = length rows"
  "length (et_hi (EnergyTrace rows guard)) = length rows" "length (et_energy (EnergyTrace rows guard)) = length rows"
  by (simp_all add: EnergyTrace_def Let_def)

text \<open>A successful analysis of a trial, step by step.\<close>

lemma analyze_trial_Inr:
  assumes "analyze_trial t trace clock frequency args = Inr res"
  obtains hs he start stop sa sb si sj ea eb ei ej inner estimate where
    "host_intervals args frequency t = Inr (hs, he)" "device_interval clock (fst hs) (snd hs) = Inr start"
    "device_interval clock (fst he) (snd he) = Inr stop" "snd start < fst stop"
    "endpoint trace start = Inr (sa, sb, si, sj)" "endpoint trace stop = Inr (ea, eb, ei, ej)"
    "interior args trace start stop = Inr inner"
    "res = trial_report clock trace args t start stop [si, sj, ei, ej] (max 0 (ea - sb), eb - sa) estimate inner"
  using assms by (auto simp: analyze_trial_def rbind_Inr_iff Let_def not_le split: if_splits)

lemma ClockMap_rate: "ClockMap sync session ppm = Inr clock \<Longrightarrow> ck_rate clock = ppm / 1000000"
  by (auto simp: ClockMap_def rbind_Inr_iff split: if_splits)

lemma trial_sound:
  assumes rows: "load_samples csv = Inr rows" and clock: "ck_rate clock = ppm / 1000000" "0 \<le> ppm" "ppm < 1000000"
    and law: "clock_law (ppm / 1000000) D" "synced D (ck_points clock)" and met: "metered E (EnergyTrace rows guard)"
    and ran: "took_place args frequency t start stop" and res: "analyze_trial t (EnergyTrace rows guard) clock frequency args = Inr res"
  shows "lies_in (D start) (tr_device_start_bounds_s res)" "lies_in (D stop) (tr_device_end_bounds_s res)"
    "lies_in (E (D stop) - E (D start)) (tr_board_energy_bounds_J res)" "tr_trial res = t"
proof -
  let ?T = "EnergyTrace rows guard"
  from res obtain hs he s e sa sb si sj ea eb ei ej inner estimate where
    parts: "host_intervals args frequency t = Inr (hs, he)" "device_interval clock (fst hs) (snd hs) = Inr s"
      "device_interval clock (fst he) (snd he) = Inr e" "snd s < fst e" "endpoint ?T s = Inr (sa, sb, si, sj)" "endpoint ?T e = Inr (ea, eb, ei, ej)"
    and r: "res = trial_report clock ?T args t s e [si, sj, ei, ej] (max 0 (ea - sb), eb - sa) estimate inner"
    by (rule analyze_trial_Inr)
  have law': "clock_law (ck_rate clock) D" "0 \<le> ck_rate clock" "ck_rate clock < 1" using law(1) clock by auto
  have host: "lies_in start (fst hs, snd hs)" "lies_in stop (fst he, snd he)" using host_intervals_sound [OF parts(1) ran] by simp_all
  have S: "lies_in (D start) s" by (rule device_interval_sound [OF parts(2) law' law(2) host(1)])
  have T: "lies_in (D stop) e" by (rule device_interval_sound [OF parts(3) law' law(2) host(2)])
  note sorted = trace_sorted [OF load_samples_Inr(3,4) [OF rows], of guard]
  note ends = endpoint_sound [OF sorted(1,2) _ _ met parts(5) S] endpoint_sound [OF sorted(1,2) _ _ met parts(6) T]
  have "D start \<le> D stop" using S T parts(4) by (simp add: lies_in_def)
  then have "E (D start) \<le> E (D stop)" using met by (auto simp: metered_def mono_def)
  then show "lies_in (E (D stop) - E (D start)) (tr_board_energy_bounds_J res)" using ends by (simp add: r trial_report_def Let_def lies_in_def)
  show "lies_in (D start) (tr_device_start_bounds_s res)" "lies_in (D stop) (tr_device_end_bounds_s res)" "tr_trial res = t"
    using S T by (simp_all add: r trial_report_def Let_def)
qed

section \<open>Pairs\<close>

definition groups_ok :: "trial_result list \<Rightarrow> groups \<Rightarrow> bool" where
  "groups_ok results gs \<longleftrightarrow> (\<forall>key members c r. (key, members) \<in> set gs \<longrightarrow> (c, r) \<in> set members \<longrightarrow>
     r \<in> set results \<and> tl_pair_id (tr_trial r) = Some key \<and> tl_condition (tr_trial r) = c)"

lemma put_group_set: "set (put_group key members gs) \<subseteq> insert (key, members) (set gs)"
  by (induction key members gs rule: put_group.induct) auto

lemma group_trials_ok:
  "group_trials gs rs = Inr gs' \<Longrightarrow> groups_ok results gs \<Longrightarrow> set rs \<subseteq> set results \<Longrightarrow> groups_ok results gs'"
proof (induction gs rs rule: group_trials.induct)
  case (2 gs r rs)
  show ?case
  proof (cases "tl_pair_id (tr_trial r)")
    case None
    then show ?thesis using 2 by simp
  next
    case (Some key)
    let ?m = "group_of key gs @ [(tl_condition (tr_trial r), r)]"
    have old: "x \<in> set results \<and> tl_pair_id (tr_trial x) = Some key \<and> tl_condition (tr_trial x) = c" if "(c, x) \<in> set (group_of key gs)" for c x
    proof (cases "map_of gs key")
      case (Some members)
      then show ?thesis using "2.prems"(2) that map_of_SomeD [OF Some] by (auto simp: group_of_def groups_ok_def)
    qed (use that in \<open>simp add: group_of_def\<close>)
    have "groups_ok results (put_group key ?m gs)"
      unfolding groups_ok_def
    proof (intro allI impI)
      fix k m c x assume km: "(k, m) \<in> set (put_group key ?m gs)" "(c, x) \<in> set m"
      from km(1) put_group_set [of key ?m gs] consider "k = key" "m = ?m" | "(k, m) \<in> set gs" by auto
      then show "x \<in> set results \<and> tl_pair_id (tr_trial x) = Some k \<and> tl_condition (tr_trial x) = c"
      proof cases
        case 1
        then show ?thesis using km(2) old "2.prems"(3) Some by auto
      next
        case 2
        then show ?thesis using "2.prems"(2) km(2) by (simp add: groups_ok_def)
      qed
    qed
    then show ?thesis using 2 Some by (auto simp: Let_def split: if_splits)
  qed
qed simp

lemma make_pairs_spec:
  "make_pairs baseline candidate gs = Inr ps \<Longrightarrow> pr \<in> set ps \<Longrightarrow>
   \<exists>key members a b. (key, members) \<in> set gs \<and> (baseline, a) \<in> set members \<and> (candidate, b) \<in> set members \<and> same_work a b \<and> pr = pair_of key a b"
proof (induction gs arbitrary: ps)
  case (Cons g gs)
  obtain key members where g: "g = (key, members)" by (cases g)
  show ?case
  proof (cases "\<exists>a b. map_of members baseline = Some a \<and> map_of members candidate = Some b")
    case True
    then obtain a b where ab: "map_of members baseline = Some a" "map_of members candidate = Some b" by blast
    from Cons.prems(1) ab obtain qs where qs: "same_work a b" "make_pairs baseline candidate gs = Inr qs" "ps = pair_of key a b # qs"
      by (auto simp: g rbind_Inr_iff split: if_splits)
    show ?thesis
    proof (cases "pr = pair_of key a b")
      case True
      then show ?thesis using qs(1) ab [THEN map_of_SomeD] by (intro exI [of _ key] exI [of _ members]) (auto simp: g)
    next
      case False
      then have "pr \<in> set qs" using Cons.prems(2) qs(3) by simp
      from Cons.IH [OF qs(2) this] obtain k m x y where "(k, m) \<in> set gs" "(baseline, x) \<in> set m" "(candidate, y) \<in> set m" "same_work x y" "pr = pair_of k x y"
      by blast
    then show ?thesis by (intro exI [of _ k] exI [of _ m] exI [of _ x] exI [of _ y]) simp
    qed
  next
    case False
    then have rest: "make_pairs baseline candidate gs = Inr ps" using Cons.prems(1) by (auto simp: g split: option.splits)
    from Cons.IH [OF rest Cons.prems(2)] obtain k m x y where "(k, m) \<in> set gs" "(baseline, x) \<in> set m" "(candidate, y) \<in> set m" "same_work x y" "pr = pair_of k x y"
      by blast
    then show ?thesis by (intro exI [of _ k] exI [of _ m] exI [of _ x] exI [of _ y]) simp
  qed
qed simp

lemma paired_results_spec:
  assumes "paired_results results baseline candidate = Inr ps" "pr \<in> set ps"
  shows "\<exists>a b. a \<in> set results \<and> b \<in> set results \<and> pr = pair_of (pr_pair_id pr) a b \<and> same_work a b \<and>
    tl_pair_id (tr_trial a) = Some (pr_pair_id pr) \<and> tl_pair_id (tr_trial b) = Some (pr_pair_id pr) \<and>
    tl_condition (tr_trial a) = baseline \<and> tl_condition (tr_trial b) = candidate"
proof -
  obtain gs where gs: "group_trials [] results = Inr gs" "make_pairs baseline candidate gs = Inr ps"
    using assms(1) by (auto simp: paired_results_def rbind_Inr_iff)
  have ok: "groups_ok results gs" by (rule group_trials_ok [OF gs(1)]) (simp_all add: groups_ok_def)
  obtain key members a b where p: "(key, members) \<in> set gs" "(baseline, a) \<in> set members" "(candidate, b) \<in> set members"
    "same_work a b" "pr = pair_of key a b" using make_pairs_spec [OF gs(2) assms(2)] by blast
  have id: "pr_pair_id pr = key" by (simp add: p(5) pair_of_def)
  have "c = tl_condition (tr_trial r) \<and> r \<in> set results \<and> tl_pair_id (tr_trial r) = Some key" if "(c, r) \<in> set members" for c r
    using ok p(1) that by (simp add: groups_ok_def)
  from this [OF p(2)] this [OF p(3)] show ?thesis unfolding id using p(4,5) by (intro exI [of _ a] exI [of _ b]) simp
qed

section \<open>From the logger's rows\<close>

text \<open>The columns of a logged row as the analysis reads them.\<close>

definition csv_row :: "meter_row \<Rightarrow> sample" where
  "csv_row r =
     \<lparr> sm_seq = of_nat (mt_seq r), sm_t_start_s = mt_t_start_s r, sm_t_end_s = mt_t_end_s r, sm_bus_voltage_V = mt_bus_voltage_V r,
       sm_current_A = mt_current_A r, sm_energy_J = mt_energy_J r, sm_math_overflow = of_bool (mt_math_overflow r),
       sm_energy_overflow = of_bool (mt_energy_overflow r), sm_memory_ok = of_bool (mt_memory_ok r),
       sm_math_overflow_latched = of_bool (mt_math_overflow_latched r), sm_energy_overflow_latched = of_bool (mt_energy_overflow_latched r),
       sm_memory_error_latched = of_bool (mt_memory_error_latched r), sm_accumulation_valid = of_bool (mt_accumulation_valid r) \<rparr>"

lemma check_samples_accepts:
  assumes "list_all (\<lambda>r. check_sample None r = Inr ()) rows" "sorted_wrt follows rows" "\<forall>p. previous = Some p \<longrightarrow> list_all (follows p) rows"
  shows "check_samples previous rows = Inr ()"
  using assms
proof (induction rows arbitrary: previous)
  case (Cons row rows)
  have "check_sample previous row = Inr ()"
    using Cons.prems by (auto simp: check_sample_def checks_Inr_iff follows_def split: option.splits)
  then show ?case using Cons.prems Cons.IH [of "Some row"] by (simp add: list_all_iff)
qed simp

lemma check_sample_None:
  "check_sample None r = Inr u \<longleftrightarrow> sm_t_start_s r \<le> sm_t_end_s r \<and> sm_accumulation_valid r = 1 \<and> sm_memory_ok r = 1 \<and>
     sm_math_overflow r = 0 \<and> sm_energy_overflow r = 0 \<and> sm_math_overflow_latched r = 0 \<and> sm_energy_overflow_latched r = 0 \<and> sm_memory_error_latched r = 0"
  by (auto simp: check_sample_def checks_Inr_iff not_less)

lemma valid_upto_take: "valid_upto init base rs \<Longrightarrow> valid_upto init base (take k rs)"
proof -
  assume v: "valid_upto init base rs"
  have "sorted (take (Suc k) (base # map rd_energy rs))" using v by (intro sorted_wrt_take) (simp add: valid_upto_def)
  then show ?thesis using v by (auto simp: valid_upto_def list_all_iff take_map simp del: sorted_wrt.simps dest: in_set_takeD)
qed

text \<open>A session without faults gives rows that the analysis accepts.\<close>

lemma valid_session_loads:
  assumes S: "session_outcome i sc flags new ended info n rs" and clk: "list_all clock_ok (ss_turns sc)"
    and valid: "valid_upto flags (si_baseline info) rs" and n: "3 \<le> n"
  shows "load_samples (map csv_row (rows_of new)) = Inr (map csv_row (rows_of new))"
proof -
  let ?H = "zip (take n (ss_turns sc)) rs"
  have len: "n \<le> length (ss_turns sc)" "length rs = n" "length ?H = n" "map snd ?H = rs" and rows: "rows_of new = map (row_spec info flags ?H) [0..<n]"
    using S by (auto simp: session_outcome_def dest: list_all2_lengthD)
  have spec: "row_spec info flags ?H k = rows_of new ! k" if "k < n" for k using that by (simp add: rows)
  have row: "mt_seq (rows_of new ! k) = k \<and> mt_energy_J (rows_of new ! k) = rd_energy (rs ! k) \<and> mt_accumulation_valid (rows_of new ! k) \<and>
      mt_memory_ok (rows_of new ! k) \<and> \<not> mt_math_overflow (rows_of new ! k) \<and> \<not> mt_energy_overflow (rows_of new ! k) \<and>
      \<not> mt_math_overflow_latched (rows_of new ! k) \<and> \<not> mt_energy_overflow_latched (rows_of new ! k) \<and> \<not> mt_memory_error_latched (rows_of new ! k)"
    if k: "k < n" for k
  proof -
    have "map snd (take (Suc k) ?H) = take (Suc k) rs" by (simp add: len(4) flip: take_map)
    moreover have "?H ! k = (ss_turns sc ! k, rs ! k)" using k len by simp
    moreover have "flags_clear (rd_flags (rs ! k))" "flags_clear flags" "\<forall>r \<in> set (take (Suc k) rs). flags_clear (rd_flags r)"
      using valid k len(2) by (auto simp: valid_upto_def list_all_iff dest: in_set_takeD)
    ultimately show ?thesis
      unfolding spec [OF k, symmetric] row_spec_def Let_def using valid_upto_take [OF valid, of "Suc k"]
      by (auto simp: flags_clear_def list_ex_iff)
  qed
  have "sorted (map rd_energy rs)" using valid by (simp add: valid_upto_def)
  then have energy: "rd_energy (rs ! a) \<le> rd_energy (rs ! b)" if "a < b" "b < n" for a b
    using that len(2) by (simp add: sorted_iff_nth_mono)
  note ord = session_rows_ordered [OF S clk]
  have L: "length (rows_of new) = n" by (simp add: rows)
  have "sorted_wrt follows (map csv_row (rows_of new))"
    using ord(1) row energy L by (simp add: sorted_wrt_iff_nth_less follows_def csv_row_def)
  moreover have "list_all (\<lambda>r. check_sample None r = Inr ()) (map csv_row (rows_of new))"
    using ord(2) row L unfolding list_all_length check_sample_None by (simp add: csv_row_def)
  ultimately show ?thesis using n L check_samples_accepts [of "map csv_row (rows_of new)" None] by (simp add: load_samples_def)
qed

section \<open>Properties\<close>



subsection \<open>A concrete run\<close>

text \<open>
  A meter clock at the edge of a bound of ten percent, eleven rows of a load that takes one joule per device second, and two trials of
  5.4 host seconds.
\<close>

definition example_row :: "nat \<Rightarrow> sample" where
  "example_row k =
     \<lparr> sm_seq = of_nat k, sm_t_start_s = of_nat k, sm_t_end_s = of_nat k, sm_bus_voltage_V = 5, sm_current_A = 1, sm_energy_J = of_nat k,
       sm_math_overflow = 0, sm_energy_overflow = 0, sm_memory_ok = 1, sm_math_overflow_latched = 0, sm_energy_overflow_latched = 0,
       sm_memory_error_latched = 0, sm_accumulation_valid = 1 \<rparr>"

definition example_csv :: "sample list" where
  "example_csv = map example_row [0, 1, 2, 3, 4, 5, 6, 7, 8, 9, 10]"

definition example_sync :: "sync_row list" where
  "example_sync =
     [\<lparr> sy_event = ''sync_reply'', sy_device_session = 1, sy_qpc_frequency = 1, sy_send_before_qpc = 0, sy_receive_qpc = 0, sy_device_t_ns = 0 \<rparr>,
      \<lparr> sy_event = ''sync_reply'', sy_device_session = 1, sy_qpc_frequency = 1, sy_send_before_qpc = 9, sy_receive_qpc = 9, sy_device_t_ns = 10000000000 \<rparr>]"

definition example_trial :: "string \<Rightarrow> trial" where
  "example_trial condition =
     \<lparr> tl_completed = True, tl_mismatch_count = Some 0, tl_cycles = 54, tl_clock_hz = 10, tl_epochs = 1, tl_inputs_per_epoch = 6,
       tl_outputs_per_epoch = 6, tl_frames_per_epoch = 1, tl_input_count = Some 6, tl_output_count = None, tl_frame_count = None,
       tl_launch_before_qpc = 9 / 5, tl_launch_after_qpc = 9 / 5, tl_completion_before_qpc = None, tl_completion_after_qpc = 36 / 5,
       tl_pair_id = Some ''1'', tl_condition = condition \<rparr>"

definition example_options :: measure_options where
  "example_options =
     \<lparr> mo_session = 1, mo_device_rate_ppm = 100000, mo_sensor_time_guard_s = 0,
       mo_trial_args = \<lparr> ma_fabric_rate_ppm = 0, ma_launch_guard_s = 0, ma_interior_trim_s = 0 \<rparr>,
       mo_baseline = ''a'', mo_candidate = ''b'' \<rparr>"

definition example_clock :: "rat \<Rightarrow> rat" where
  "example_clock h = 10 / 9 * h"

lemma example_clock_law: "clock_law (1 / 10) example_clock"
  by (auto simp: clock_law_def example_clock_def field_simps)

definition example_map :: clock_map where
  "example_map = \<lparr> ck_rate = 1 / 10, ck_points = [(0, 0, 0), (10, 9, 9)] \<rparr>"

lemma example_clock_map: "ClockMap example_sync 1 100000 = Inr example_map"
  by code_simp

lemma example_synced: "synced example_clock (ck_points example_map)"
  by (auto simp: synced_def example_map_def example_clock_def)

lemma example_metered: "metered (\<lambda>t. t) (EnergyTrace example_csv 0)"
  by (auto simp: metered_def mono_def EnergyTrace_def Let_def example_csv_def example_row_def less_Suc_eq nth_Cons')

lemma example_took_place: "took_place (mo_trial_args example_options) 1 (example_trial c) (9 / 5) (36 / 5)"
  by (simp add: took_place_def launch_bracket_def done_bracket_def duration_bounds_def nominal_duration_def example_trial_def example_options_def)

lemma example_analysis:
  "case analyze_board_measurement example_options example_csv example_sync 1 [example_trial ''a'', example_trial ''b''] of
     Inl e \<Rightarrow> False
   | Inr an \<Rightarrow> map tr_board_energy_bounds_J (an_trials an) = [(6, 6), (6, 6)] \<and> map pr_delta_energy_bounds (an_pairs an) = [(0, 0)] \<and>
       map tr_interior_board_power_timing_bounds_W (an_trials an) = [(9 / 10, 11 / 10), (9 / 10, 11 / 10)] \<and>
       map tr_interior_rows (an_trials an) = [(2, 8), (2, 8)]"
  by code_simp




text \<open>Three rows of a session without faults.\<close>

definition valid_session :: session_script where
  "valid_session =
     \<lparr> ss_baseline_start_ns = 0, ss_initial = Inr (clear_flags, 1, 2288), ss_baseline_end_ns = 100, ss_first_log_ns = 200,
       ss_turns = [sample_at 200 1, sample_at 100000200 2, sample_at 200000200 2] \<rparr>"

definition valid_readings :: "reading list" where
  "valid_readings = map (\<lambda>energy. \<lparr> rd_flags = clear_flags, rd_bus_voltage = 5, rd_shunt_voltage = 0, rd_current = 1, rd_power = 5, rd_energy = energy \<rparr>) [1, 2, 2]"


text \<open>
  Under the other reading of the rate, device seconds per host second, the power bounds would be right and the clock map wrong: a clock
  that runs ten percent slow leaves the interval.
\<close>

lemma other_convention_escapes:
  "\<exists>b. device_interval \<lparr> ck_rate = 1 / 10, ck_points = [(0, 0, 0), (9 / 10, 1, 1)] \<rparr> 2 2 = Inr b \<and> \<not> lies_in (9 / 10 * 2) b"
  by (intro exI [of _ "(20 / 11, 181 / 90)"]) (simp add: device_interval_def narrow_def corners_def min_list4_def max_list4_def lies_in_def Let_def)

end
