(* ===== verification/Active_Tail.thy ===== *)
theory Active_Tail
  imports Completion
begin

text \<open>
  The contract model of the separation between active frames and the tail of a finite stream,
  \<^verbatim>\<open>scripts/sim/check_c0_active_tail_model.py\<close>: the geometry object, the schedule of frame triggers and drain
  tokens, and the script's own check, which the source runs for six stream lengths.
\<close>

section \<open>The model\<close>

definition at_L :: int where
  "at_L = 256"

definition at_H :: int where
  "at_H = 128"

definition at_G :: int where
  "at_G = 128"

definition at_D :: int where
  "at_D = at_L + at_G"

lemmas at_defs = at_L_def at_H_def at_G_def at_D_def

record tail_geometry =
  tg_ns :: int
  tg_frames :: int
  tg_tau_last :: int
  tg_ny :: int

definition analysis_flush :: "tail_geometry \<Rightarrow> int" where
  "analysis_flush g = tg_tau_last g - tg_ns g"

definition drain :: "tail_geometry \<Rightarrow> int" where
  "drain g = tg_ny g - tg_tau_last g"

definition tail_geometry_of :: "int \<Rightarrow> tail_geometry result" where
  "tail_geometry_of ns =
     (if ns \<le> 0 then Inl (Exn ValueError ''Revision J requires Ns > 0'')
      else
        let frames = (ns + at_L - 2) div at_H; tau_last = frames * at_H in
        Inr \<lparr> tg_ns = ns, tg_frames = frames, tg_tau_last = tau_last, tg_ny = tau_last + at_D \<rparr>)"

definition legacy_frame_count :: "tail_geometry \<Rightarrow> int" where
  "legacy_frame_count g = tg_ny g div at_H"

definition fixed_schedule :: "tail_geometry \<Rightarrow> int list \<times> int list" where
  "fixed_schedule g =
     (let triggers = map (\<lambda>frame. (frame + 1) * at_H - 1) [0..tg_frames g - 1];
          drain_indices = [tg_tau_last g..tg_ny g - 1] in
      (triggers, drain_indices))"

text \<open>\<^verbatim>\<open>xs[-1]\<close> and \<^verbatim>\<open>xs[0]\<close>, which raise on an empty list.\<close>

definition last_item :: "int list \<Rightarrow> int result" where
  "last_item xs = (if xs = [] then Inl (Exn IndexError ''list index out of range'') else Inr (last xs))"

definition first_item :: "int list \<Rightarrow> int result" where
  "first_item xs = (if xs = [] then Inl (Exn IndexError ''list index out of range'') else Inr (hd xs))"

text \<open>The result carries the fields of the line that the source prints.\<close>

definition active_tail_check :: "int \<Rightarrow> (tail_geometry \<times> int) result" where
  "active_tail_check ns =
     rbind (tail_geometry_of ns) (\<lambda>g.
     let (triggers, drain_indices) = fixed_schedule g in
     rbind (require (int (length triggers) = tg_frames g) ''frame count mismatch'') (\<lambda>_.
     rbind (last_item triggers) (\<lambda>lt.
     rbind (require (lt = tg_tau_last g - 1) ''final trigger mismatch'') (\<lambda>_.
     rbind (require (int (length drain_indices) = at_D) ''drain length mismatch'') (\<lambda>_.
     rbind (first_item drain_indices) (\<lambda>fd.
     rbind (require (fd = tg_tau_last g) ''drain start mismatch'') (\<lambda>_.
     rbind (last_item drain_indices) (\<lambda>ld.
     rbind (require (ld = tg_ny g - 1) ''drain end mismatch'') (\<lambda>_.
     rbind (require (analysis_flush g \<ge> 0) ''negative analysis flush'') (\<lambda>_.
     rbind (require (drain g = at_D) ''delay/drain mismatch'') (\<lambda>_.
     rbind (require (tg_frames g * at_H + drain g = tg_ny g) ''Ny conservation mismatch'') (\<lambda>_.
     let legacy_frames = legacy_frame_count g in
     rbind (require (legacy_frames = tg_frames g + at_D div at_H) ''legacy-frame delta mismatch'') (\<lambda>_.
     Inr (g, legacy_frames - tg_frames g))))))))))))))"

definition active_tail_main :: "int result" where
  "active_tail_main = rbind (rmapM active_tail_check [1, 2, 17, 248, 1024, 4096]) (\<lambda>_. Inr 0)"

section \<open>The schedule\<close>

lemma tail_geometry_completion:
  "(case tail_geometry_of ns of Inl e \<Rightarrow> None | Inr g \<Rightarrow> Some (tg_frames g, tg_tau_last g, tg_ny g)) =
   (case geometry ns of Inl e \<Rightarrow> None | Inr t \<Rightarrow> Some t)"
  by (simp add: tail_geometry_of_def geometry_def at_defs cm_defs Let_def)

lemma tail_frames_pos:
  assumes "0 < ns"
  shows "1 \<le> (ns + 254) div (128 :: int)"
proof -
  have "255 div 128 \<le> (ns + 254) div (128 :: int)" using assms by (intro zdiv_mono1) simp_all
  then show ?thesis by simp
qed

lemma tail_flush_bounds:
  assumes "0 < ns"
  shows "ns \<le> (ns + 254) div (128 :: int) * 128"
    and "(ns + 254) div (128 :: int) * 128 < ns + 255"
  using assms by presburger+

lemma upto_last: "(i :: int) \<le> j \<Longrightarrow> last [i..j] = j"
  by (induction i j rule: upto.induct) (auto simp: upto.simps)

lemma upto_hd: "(i :: int) \<le> j \<Longrightarrow> hd [i..j] = i"
  by (simp add: upto.simps)

text \<open>
  The script's check passes for every positive stream length, not only the six it runs, and reports three
  legacy frames; for any other length it raises.
\<close>

theorem active_tail_passes:
  "active_tail_check ns =
     (if ns \<le> 0 then Inl (Exn ValueError ''Revision J requires Ns > 0'')
      else rbind (tail_geometry_of ns) (\<lambda>g. Inr (g, 3)))"
proof (cases "ns \<le> 0")
  case False
  define k where "k = (ns + 254) div (128 :: int)"
  have k: "1 \<le> k" "ns \<le> k * 128" using False tail_frames_pos tail_flush_bounds by (simp_all add: k_def)
  have g: "tail_geometry_of ns = Inr \<lparr> tg_ns = ns, tg_frames = k, tg_tau_last = k * 128, tg_ny = k * 128 + 384 \<rparr>"
    using False by (simp add: tail_geometry_of_def at_defs k_def Let_def add.commute)
  have ne: "[0..k - 1] \<noteq> []" "last [0..k - 1] = k - 1" using k by (simp_all add: upto_last)
  show ?thesis using False k ne
    by (simp add: active_tail_check_def g fixed_schedule_def require_def last_item_def first_item_def at_defs
        analysis_flush_def drain_def legacy_frame_count_def upto_last upto_hd last_map algebra_simps)
qed (simp add: active_tail_check_def tail_geometry_of_def)

corollary active_tail_main_returns: "active_tail_main = Inr 0"
  by (simp add: active_tail_main_def active_tail_passes tail_geometry_of_def at_defs)

text \<open>
  The active triggers and the drain tokens together: the triggers are the last positions of the
  consecutive hops that tile the active part, and every position of the output is either active or drained.
\<close>

theorem fixed_schedule_tiles:
  assumes "tail_geometry_of ns = Inr g"
  shows "set (fst (fixed_schedule g)) = {t. 0 \<le> t \<and> t < tg_tau_last g \<and> (t + 1) mod at_H = 0}"
    and "{0..<tg_ny g} = {0..<tg_tau_last g} \<union> set (snd (fixed_schedule g))"
    and "{0..<tg_tau_last g} \<inter> set (snd (fixed_schedule g)) = {}"
proof -
  have g: "tg_tau_last g = tg_frames g * 128" "tg_ny g = tg_tau_last g + 384" "0 < tg_frames g"
    using assms tail_frames_pos [of ns]
    by (auto simp: tail_geometry_of_def at_defs Let_def algebra_simps split: if_splits)
  show "set (fst (fixed_schedule g)) = {t. 0 \<le> t \<and> t < tg_tau_last g \<and> (t + 1) mod at_H = 0}"
    (is "?A = ?B")
  proof
    show "?A \<subseteq> ?B" using g by (auto simp: fixed_schedule_def at_defs)
    show "?B \<subseteq> ?A"
    proof
      fix t assume "t \<in> ?B"
      then obtain q where t: "0 \<le> t" "t < tg_tau_last g" "t + 1 = 128 * q" by (auto simp: at_defs elim: dvdE)
      then have "t = (q - 1 + 1) * 128 - 1" "0 \<le> q - 1" "q - 1 \<le> tg_frames g - 1" using g by simp_all
      then have "t = (\<lambda>frame. (frame + 1) * 128 - 1) (q - 1)" "q - 1 \<in> {0..tg_frames g - 1}" by simp_all
      then show "t \<in> ?A" unfolding fixed_schedule_def at_defs by (simp only: Let_def fst_conv set_map set_upto image_eqI)
    qed
  qed
  show "{0..<tg_ny g} = {0..<tg_tau_last g} \<union> set (snd (fixed_schedule g))"
    using g by (auto simp: fixed_schedule_def)
  show "{0..<tg_tau_last g} \<inter> set (snd (fixed_schedule g)) = {}"
    by (auto simp: fixed_schedule_def)
qed

end
