(* ===== verification/Evidence_Files.thy ===== *)
theory Evidence_Files
  imports Py_Strings Prelude
begin

text \<open>
  The evidence files of a core replay as \<^verbatim>\<open>scripts/verification/core_capture_check.py\<close> reads them: canonical
  decimal integers, 12-bit memory images, comma-separated tables and strict JSON, each with the exception the
  checker raises for a malformed file. The bytes of a file are 8-bit characters. JSON documents are the trees that
  \<^verbatim>\<open>json.loads\<close> builds, before the checker's hooks; the step from text to tree is a parameter of the readers.
  Limits of the interpreter on the length of one literal or one field are not modelled.
\<close>

section \<open>Requirements and numbers\<close>

text \<open>\<^verbatim>\<open>CaptureError\<close> carries a code and the label of a file.\<close>

definition capture_error :: "string \<Rightarrow> string \<Rightarrow> exn" where
  "capture_error ecode file = Exn CaptureError (ecode @ '': '' @ file)"

definition need :: "bool \<Rightarrow> string \<Rightarrow> string \<Rightarrow> unit result" where
  "need condition ecode file = (if condition then Inr () else Inl (capture_error ecode file))"

lemma need_Inr [result_simps]: "need c ecode file = Inr u \<longleftrightarrow> c"
  by (simp add: need_def)

lemma need_True [simp]: "need True ecode file = Inr ()"
  by (simp add: need_def)

datatype json =
    JNull | JBool bool | JInt int | JFloat string | JConst string | JStr string
  | JArr "json list" | JObj "(string \<times> json) list"

text \<open>\<^verbatim>\<open>0|[1-9][0-9]*\<close> and its sgn_ok form.\<close>

definition is_natural_text :: "string \<Rightarrow> bool" where
  "is_natural_text s \<longleftrightarrow> s = ''0'' \<or> (s \<noteq> [] \<and> hd s \<noteq> CHR ''0'' \<and> list_all py_isdigit s)"

definition is_integer_text :: "bool \<Rightarrow> string \<Rightarrow> bool" where
  "is_integer_text sgn_ok s \<longleftrightarrow>
     is_natural_text s \<or>
     (sgn_ok \<and> s \<noteq> [] \<and> hd s = CHR ''-'' \<and> is_natural_text (tl s) \<and> tl s \<noteq> ''0'')"

definition number :: "json \<Rightarrow> string \<Rightarrow> bool \<Rightarrow> int result" where
  "number text file sgn_ok =
     (case text of
        JStr s \<Rightarrow>
          if is_integer_text sgn_ok s
          then (case py_int10 s of Some v \<Rightarrow> Inr v | None \<Rightarrow> Inl (Exn ValueError ''invalid literal for int()''))
          else Inl (capture_error ''INTEGER_ENCODING'' file)
      | _ \<Rightarrow> Inl (capture_error ''INTEGER_ENCODING'' file))"

definition natural :: "json \<Rightarrow> string \<Rightarrow> int \<Rightarrow> int result" where
  "natural value file minimum =
     (case value of
        JInt v \<Rightarrow> if v \<ge> minimum then Inr v else Inl (capture_error ''JSON_INTEGER'' file)
      | _ \<Rightarrow> Inl (capture_error ''JSON_INTEGER'' file))"

section \<open>JSON\<close>

text \<open>The hooks of \<^verbatim>\<open>strict_json\<close>: children first, then the duplicate test of the object around them.\<close>

fun json_hooks :: "string \<Rightarrow> json \<Rightarrow> unit result" where
  "json_hooks file (JFloat s) = Inl (capture_error ''JSON_NONINTEGER'' file)"
| "json_hooks file (JConst s) = Inl (capture_error ''JSON_NONINTEGER'' file)"
| "json_hooks file (JArr xs) = rbind (rmapM (json_hooks file) xs) (\<lambda>_. Inr ())"
| "json_hooks file (JObj ps) =
     rbind (rmapM (\<lambda>p. json_hooks file (snd p)) ps) (\<lambda>_.
     need (distinct (map fst ps)) ''JSON_DUPLICATE_KEY'' file)"
| "json_hooks file JNull = Inr ()"
| "json_hooks file (JBool b) = Inr ()"
| "json_hooks file (JInt v) = Inr ()"
| "json_hooks file (JStr s) = Inr ()"

definition strict_json :: "(string \<Rightarrow> json option) \<Rightarrow> string \<Rightarrow> string \<Rightarrow> json result" where
  "strict_json loads data file =
     (case loads data of
        None \<Rightarrow> Inl (capture_error ''JSON_SYNTAX'' file)
      | Some tree \<Rightarrow>
          rbind (json_hooks file tree) (\<lambda>_.
          case tree of JObj ps \<Rightarrow> Inr tree | _ \<Rightarrow> Inl (capture_error ''JSON_OBJECT'' file)))"

text \<open>Subscripting, \<^verbatim>\<open>in\<close> and \<^verbatim>\<open>set(..)\<close> of a decoded document, with the exceptions of a document of another shape.\<close>

definition jget :: "json \<Rightarrow> string \<Rightarrow> json result" where
  "jget j k =
     (case j of
        JObj ps \<Rightarrow> (case map_of ps k of Some v \<Rightarrow> Inr v | None \<Rightarrow> Inl (Exn KeyError k))
      | _ \<Rightarrow> Inl (Exn TypeError ''not subscriptable by a string''))"

definition jhas :: "json \<Rightarrow> string \<Rightarrow> bool" where
  "jhas j k = (case j of JObj ps \<Rightarrow> map_of ps k \<noteq> None | _ \<Rightarrow> False)"

definition jis_obj :: "json \<Rightarrow> bool" where
  "jis_obj j = (case j of JObj ps \<Rightarrow> True | _ \<Rightarrow> False)"

fun jhashable :: "json \<Rightarrow> bool" where
  "jhashable (JArr xs) = False"
| "jhashable (JObj ps) = False"
| "jhashable j = True"

definition jset_is :: "json \<Rightarrow> string list \<Rightarrow> bool result" where
  "jset_is j names =
     (case j of
        JObj ps \<Rightarrow> Inr (set (map fst ps) = set names)
      | JStr s \<Rightarrow> Inr (set (map (\<lambda>c. [c]) s) = set names)
      | JArr xs \<Rightarrow> if list_all jhashable xs then Inr (set xs = set (map JStr names))
                 else Inl (Exn TypeError ''unhashable type'')
      | _ \<Rightarrow> Inl (Exn TypeError ''object is not iterable''))"

section \<open>Memory images\<close>

text \<open>The lines of \<^verbatim>\<open>(?:[0-9a-f]{3}\n)*\<close>, or none when the text does not match.\<close>

fun hex3_lines :: "string \<Rightarrow> string list option" where
  "hex3_lines [] = Some []"
| "hex3_lines (a # b # c # d # rest) =
     (if is_lower_hex a \<and> is_lower_hex b \<and> is_lower_hex c \<and> d = CHR 0x0A
      then map_option (Cons [a, b, c]) (hex3_lines rest) else None)"
| "hex3_lines _ = None"

definition sample_of_raw :: "int \<Rightarrow> int" where
  "sample_of_raw v = (if v \<ge> 2048 then v - 4096 else v)"

definition cap_memh :: "string \<Rightarrow> string \<Rightarrow> nat \<Rightarrow> int list result" where
  "cap_memh label data rows =
     (case hex3_lines data of
        None \<Rightarrow> Inl (capture_error ''MEMH_ENCODING'' label)
      | Some lines \<Rightarrow>
          rbind (need (lines \<noteq> []) ''MEMH_ENCODING'' label) (\<lambda>_.
          let raw = map hex_value lines in
          rbind (need (length raw = rows) ''ROW_COUNT'' label) (\<lambda>_.
          Inr (map sample_of_raw raw))))"

section \<open>Comma-separated tables\<close>

text \<open>
  \<^verbatim>\<open>csv.reader(.., strict=True)\<close> with the default dialect, character by character: the current field and the
  fields before it are kept in reverse. \<open>None\<close> is \<^verbatim>\<open>csv.Error\<close>.
\<close>

datatype csv_state = Start_Record | Start_Field | In_Field | In_Quoted | Quote_In_Quoted

fun csv_scan :: "csv_state \<Rightarrow> string \<Rightarrow> string list \<Rightarrow> string \<Rightarrow> string list list option" where
  "csv_scan st f fs [] =
     (case st of Start_Record \<Rightarrow> Some [] | In_Quoted \<Rightarrow> None | _ \<Rightarrow> Some [rev (rev f # fs)])"
| "csv_scan st f fs (c # cs) =
     (case st of
        Start_Record \<Rightarrow>
          if c = CHR 0x0A then map_option (Cons []) (csv_scan Start_Record [] [] cs)
          else if c = CHR 0x22 then csv_scan In_Quoted [] [] cs
          else if c = CHR '','' then csv_scan Start_Field [] [[]] cs
          else csv_scan In_Field [c] [] cs
      | Start_Field \<Rightarrow>
          if c = CHR 0x0A then map_option (Cons (rev ([] # fs))) (csv_scan Start_Record [] [] cs)
          else if c = CHR 0x22 then csv_scan In_Quoted [] fs cs
          else if c = CHR '','' then csv_scan Start_Field [] ([] # fs) cs
          else csv_scan In_Field [c] fs cs
      | In_Field \<Rightarrow>
          if c = CHR 0x0A then map_option (Cons (rev (rev f # fs))) (csv_scan Start_Record [] [] cs)
          else if c = CHR '','' then csv_scan Start_Field [] (rev f # fs) cs
          else csv_scan In_Field (c # f) fs cs
      | In_Quoted \<Rightarrow>
          if c = CHR 0x22 then csv_scan Quote_In_Quoted f fs cs
          else csv_scan In_Quoted (c # f) fs cs
      | Quote_In_Quoted \<Rightarrow>
          if c = CHR 0x0A then map_option (Cons (rev (rev f # fs))) (csv_scan Start_Record [] [] cs)
          else if c = CHR 0x22 then csv_scan In_Quoted (c # f) fs cs
          else if c = CHR '','' then csv_scan Start_Field [] (rev f # fs) cs
          else None)"

definition csv_reader :: "string \<Rightarrow> string list list option" where
  "csv_reader text = csv_scan Start_Record [] [] text"

text \<open>A parsed field, the row as the values of the header's keys in order.\<close>

datatype cell = CInt int | CText string

type_synonym row = "cell list"

fun cell_str :: "cell \<Rightarrow> string" where
  "cell_str (CInt v) = py_str_int v"
| "cell_str (CText s) = s"

fun join_comma :: "string list \<Rightarrow> string" where
  "join_comma [] = []"
| "join_comma [s] = s"
| "join_comma (s # t # ss) = s @ '','' @ join_comma (t # ss)"

definition csv_line :: "string list \<Rightarrow> string" where
  "csv_line fields = join_comma fields @ [CHR 0x0A]"

definition csv_canonical :: "string list \<Rightarrow> row list \<Rightarrow> string" where
  "csv_canonical header rows = csv_line header @ concat (map (\<lambda>row. csv_line (map cell_str row)) rows)"

definition SIGNED :: "string list" where
  "SIGNED = [''real'', ''imag'', ''re'', ''im'', ''data'', ''y_out'', ''x_delayed'', ''error_i16'']"

definition csv_row :: "string list \<Rightarrow> string list \<Rightarrow> string \<Rightarrow> string list \<Rightarrow> row result" where
  "csv_row header text_fields label row =
     rbind (need (length row = length header) ''CSV_COLUMNS'' label) (\<lambda>_.
     rmapM (\<lambda>(k, v). if k \<in> set text_fields then Inr (CText v)
                     else rbind (number (JStr v) label (k \<in> set SIGNED)) (\<lambda>n. Inr (CInt n)))
       (zip header row))"

definition cap_csv :: "string \<Rightarrow> string \<Rightarrow> string list \<Rightarrow> nat \<Rightarrow> string list \<Rightarrow> row list result" where
  "cap_csv label data header count text_fields =
     rbind (need (data \<noteq> [] \<and> last data = CHR 0x0A \<and> CHR 0x0D \<notin> set data) ''CSV_ENCODING'' label) (\<lambda>_.
     rbind (need (list_all (\<lambda>c. code c < 128) data) ''CSV_ENCODING'' label) (\<lambda>_.
     case csv_reader data of
       None \<Rightarrow> Inl (capture_error ''CSV_ENCODING'' label)
     | Some rows \<Rightarrow>
         rbind (need (rows \<noteq> [] \<and> hd rows = header) ''CSV_HEADER'' label) (\<lambda>_.
         rbind (need (length rows = count + 1) ''ROW_COUNT'' label) (\<lambda>_.
         rbind (rmapM (csv_row header text_fields label) (tl rows)) (\<lambda>parsed.
         rbind (need (data = csv_canonical header parsed) ''CSV_CANONICAL'' label) (\<lambda>_.
         Inr parsed))))))"

text \<open>The value of a key in a parsed row, for the keys whose values are integers and for the text keys.\<close>

definition field :: "string list \<Rightarrow> string \<Rightarrow> row \<Rightarrow> int" where
  "field header k row = (case map_of (zip header row) k of Some (CInt v) \<Rightarrow> v | _ \<Rightarrow> 0)"

definition text_field :: "string list \<Rightarrow> string \<Rightarrow> row \<Rightarrow> string" where
  "text_field header k row = (case map_of (zip header row) k of Some (CText s) \<Rightarrow> s | _ \<Rightarrow> [])"

section \<open>Decimal text\<close>

definition dec_value :: "string \<Rightarrow> nat" where
  "dec_value s = foldl (\<lambda>a c. a * 10 + (code c - 48)) 0 s"

lemma dec_value_Nil [simp]: "dec_value [] = 0"
  by (simp add: dec_value_def)

lemma char_of_48 [simp]: "char_of (48 :: nat) = CHR ''0''"
  by code_simp

lemma nat_str_0 [simp]: "nat_str 0 = ''0''"
  by (simp add: nat_str.simps)

lemma zero_char: "char_of (48 + n) = CHR ''0'' \<longleftrightarrow> n = 0" if "n < 10" for n :: nat
proof
  assume "char_of (48 + n) = CHR ''0''"
  then have "of_char (char_of (48 + n) :: char) = (of_char CHR ''0'' :: nat)" by simp
  with that show "n = 0" by simp
qed simp

lemma dec_value_snoc: "dec_value (s @ [c]) = dec_value s * 10 + (code c - 48)"
  by (simp add: dec_value_def)

lemma digit_props:
  assumes "py_isdigit c"
  shows "digit_value c = Some (code c - 48)" "code c - 48 < 10" "c \<noteq> CHR ''_''" "\<not> py_isspace c"
    "char_of (48 + (code c - 48)) = c" "code c < 128" "c \<notin> {CHR 0x0A, CHR 0x0D, CHR 0x22, CHR '','', CHR ''-''}"
  using assms by (auto simp: digit_value_def py_isdigit_def py_isspace_def code_def)

lemma int_digits_decimal:
  assumes "list_all py_isdigit s"
  shows "int_digits 10 p acc s = (if s = [] \<and> \<not> p then None else Some (acc * 10 ^ length s + int (dec_value s)))"
  using assms
proof (induction s arbitrary: p rule: rev_induct)
  case Nil
  then show ?case by (simp add: dec_value_def)
next
  case (snoc c s)
  have step: "int_digits 10 p acc (s @ [c]) =
      (case int_digits 10 p acc s of None \<Rightarrow> if s = [] then Some (acc * 10 + int (code c - 48)) else None
       | Some v \<Rightarrow> Some (v * 10 + int (code c - 48)))"
    if "list_all py_isdigit s" for s p acc
    using that digit_props [of c] snoc.prems
  proof (induction s arbitrary: p acc)
    case (Cons d s)
    then show ?case using digit_props [of d] Cons.IH [of True "acc * 10 + int (code d - 48)"]
      by (cases "int_digits 10 True (acc * 10 + int (code d - 48)) s") (auto split: if_splits)
  qed simp
  from snoc show ?case by (simp add: step dec_value_snoc algebra_simps)
qed

lemma nat_str_props:
  "list_all py_isdigit (nat_str n) \<and> nat_str n \<noteq> [] \<and> dec_value (nat_str n) = n \<and> (n \<noteq> 0 \<longrightarrow> hd (nat_str n) \<noteq> CHR ''0'')"
proof (induction n rule: nat_str.induct)
  case (1 n)
  have d: "py_isdigit (char_of (48 + k))" if "k < 10" for k :: nat
    using that by (simp add: py_isdigit_def)
  show ?case
  proof (cases "n < 10")
    case True
    then show ?thesis using d [of n] by (simp add: nat_str.simps [of n] dec_value_def zero_char)
  next
    case False
    then have "n div 10 \<noteq> 0" by simp
    with 1 [OF False] False d [of "n mod 10"] show ?thesis
      by (subst (1 2 3 4) nat_str.simps) (simp add: dec_value_snoc)
  qed
qed

lemma nat_str_dec_value:
  "list_all py_isdigit s \<Longrightarrow> s \<noteq> [] \<Longrightarrow> hd s \<noteq> CHR ''0'' \<or> length s = 1 \<Longrightarrow>
     nat_str (dec_value s) = s \<and> (hd s \<noteq> CHR ''0'' \<longrightarrow> 0 < dec_value s)"
proof (induction s rule: rev_induct)
  case (snoc c s)
  have c: "py_isdigit c" using snoc.prems by simp
  show ?case
  proof (cases "s = []")
    case True
    have "0 < code c - 48" if "c \<noteq> CHR ''0''"
      using that digit_props(2,5) [OF c] zero_char [of "code c - 48"] by auto
    then show ?thesis using True digit_props [OF c] by (auto simp: dec_value_def nat_str.simps)
  next
    case False
    then have IH: "nat_str (dec_value s) = s" "0 < dec_value s" using snoc by auto
    have "(dec_value s * 10 + (code c - 48)) div 10 = dec_value s" "(dec_value s * 10 + (code c - 48)) mod 10 = code c - 48"
      using digit_props(2) [OF c] by simp_all
    then show ?thesis using IH digit_props [OF c] False
      by (subst nat_str.simps) (auto simp: dec_value_snoc)
  qed
qed simp

lemma natural_text_iff: "is_natural_text s \<longleftrightarrow> (\<exists>n. s = nat_str n)"
proof
  assume "is_natural_text s"
  then have "nat_str (dec_value s) = s"
    using nat_str_dec_value [of s] by (auto simp: is_natural_text_def py_isdigit_def code_def)
  then show "\<exists>n. s = nat_str n" by metis
next
  assume "\<exists>n. s = nat_str n"
  then obtain n where n: "s = nat_str n" ..
  then show "is_natural_text s"
    using nat_str_props [of n] by (cases "n = 0") (auto simp: is_natural_text_def nat_str_0)
qed

lemma strip_solid: "s \<noteq> [] \<Longrightarrow> \<not> py_isspace (hd s) \<Longrightarrow> \<not> py_isspace (last s) \<Longrightarrow> py_strip s = s"
proof -
  assume s: "s \<noteq> []" "\<not> py_isspace (hd s)" "\<not> py_isspace (last s)"
  have "dropWhile py_isspace s = s" using s by (cases s) simp_all
  moreover have "dropWhile py_isspace (rev s) = rev s" using s by (cases s rule: rev_cases) simp_all
  ultimately show ?thesis by (simp add: py_strip_def)
qed

lemma py_int10_nat_str: "py_int10 (nat_str n) = Some (int n)" "py_int10 (CHR ''-'' # nat_str n) = Some (- int n)"
proof -
  note p = nat_str_props [of n]
  have "\<not> py_isspace (hd (nat_str n))" "\<not> py_isspace (last (nat_str n))"
    using p digit_props(4) by (auto simp: list_all_iff hd_in_set)
  moreover have "\<not> py_isspace CHR ''-''" by (simp add: py_isspace_def code_def)
  ultimately have strip: "py_strip (nat_str n) = nat_str n" "py_strip (CHR ''-'' # nat_str n) = CHR ''-'' # nat_str n"
    using p by (auto intro: strip_solid)
  obtain c cs where s: "nat_str n = c # cs" using p by (cases "nat_str n") auto
  then have "c \<noteq> CHR ''-''" "c \<noteq> CHR ''+''" using p by (auto simp: py_isdigit_def code_def)
  with p s strip int_digits_decimal [of "nat_str n" False 0] show
    "py_int10 (nat_str n) = Some (int n)" "py_int10 (CHR ''-'' # nat_str n) = Some (- int n)"
    by (auto simp: py_int10_def)
qed

lemma nat_str_inj [simp]: "nat_str m = nat_str n \<longleftrightarrow> m = n"
  by (metis nat_str_props)

lemma nat_str_not_minus [simp]: "nat_str n \<noteq> CHR ''-'' # t"
  using nat_str_props [of n] by (auto simp: py_isdigit_def code_def)

lemma py_str_int_inj [simp]: "py_str_int v = py_str_int w \<longleftrightarrow> v = w"
  by (auto simp: py_str_int_def split: if_splits dest: sym [of "_ # _"])

lemma is_integer_text_iff: "is_integer_text sg s \<longleftrightarrow> (\<exists>v. s = py_str_int v \<and> (sg \<or> 0 \<le> v))"
proof
  assume "is_integer_text sg s"
  then consider n where "s = nat_str n" | n where "sg" "s = CHR ''-'' # nat_str n" "n \<noteq> 0"
    by (cases s) (auto simp: is_integer_text_def natural_text_iff, metis nat_str_0 neq0_conv)
  then show "\<exists>v. s = py_str_int v \<and> (sg \<or> 0 \<le> v)"
  proof cases
    case 1
    then show ?thesis by (intro exI [of _ "int n"]) (simp add: py_str_int_def)
  next
    case 2
    then show ?thesis by (intro exI [of _ "- int n"]) (simp add: py_str_int_def)
  qed
next
  assume "\<exists>v. s = py_str_int v \<and> (sg \<or> 0 \<le> v)"
  then obtain v where v: "s = py_str_int v" "sg \<or> 0 \<le> v" by auto
  have "nat_str (nat (- v)) \<noteq> ''0''" if "v < 0"
    using that nat_str_inj [of "nat (- v)" 0] by simp
  with v show "is_integer_text sg s"
    by (auto simp: is_integer_text_def natural_text_iff py_str_int_def split: if_splits)
qed

lemma py_int10_str [simp]: "py_int10 (py_str_int v) = Some v"
  by (simp add: py_str_int_def py_int10_nat_str)

text \<open>The checker's integers have exactly one spelling.\<close>

theorem number_exact: "number (JStr s) file sg = Inr v \<longleftrightarrow> s = py_str_int v \<and> (sg \<or> 0 \<le> v)"
  by (auto simp: number_def is_integer_text_iff)

lemma number_Inr: "number j file sg = Inr v \<longleftrightarrow> j = JStr (py_str_int v) \<and> (sg \<or> 0 \<le> v)"
proof (cases j)
  case (JStr s)
  then show ?thesis using number_exact [where s = s] by simp
qed (simp_all add: number_def)

section \<open>Memory images are exact\<close>

definition memh_text :: "int list \<Rightarrow> string" where
  "memh_text vs = concat (map (\<lambda>v. hex_fixed 3 (v AND 4095) @ [CHR 0x0A]) vs)"

definition sample_range :: "int \<Rightarrow> bool" where
  "sample_range v \<longleftrightarrow> - 2048 \<le> v \<and> v < 2048"

lemma and_4095: "(v :: int) AND 4095 = v mod 4096"
  using and_mask_mod [of v 12] by simp

lemma hex3_lines_Some:
  "hex3_lines data = Some lines \<longleftrightarrow>
     data = concat (map (\<lambda>l. l @ [CHR 0x0A]) lines) \<and> list_all (\<lambda>l. length l = 3 \<and> list_all is_lower_hex l) lines"
proof (induction data arbitrary: lines rule: hex3_lines.induct)
  case 1
  show ?case by (cases lines) auto
next
  case (2 a b c d rest)
  have three: "length l = 3 \<longleftrightarrow> (\<exists>x y z. l = [x, y, z])" for l :: string
    by (auto simp: length_Suc_conv numeral_3_eq_3)
  show ?case
  proof (cases lines)
    case (Cons l ls)
    then show ?thesis using 2 [of ls] by (auto simp: three)
  qed auto
next
  case "3_1"
  show ?case by (cases lines) (auto simp: numeral_3_eq_3 length_Suc_conv)
next
  case "3_2"
  show ?case by (cases lines) (auto simp: numeral_3_eq_3 length_Suc_conv)
next
  case "3_3"
  show ?case by (cases lines) (auto simp: numeral_3_eq_3 length_Suc_conv)
qed

lemma mod_4096_cases:
  "0 \<le> v \<Longrightarrow> v < 4096 \<Longrightarrow> v mod 4096 = (v :: int)" "- 4096 \<le> v \<Longrightarrow> v < 0 \<Longrightarrow> v mod 4096 = (v + 4096 :: int)"
proof -
  show "v mod 4096 = v + 4096" if "- 4096 \<le> v" "v < 0"
    using that mod_pos_pos_trivial [of "v + 4096" 4096] by simp
qed simp

lemma sample_raw: "sample_range v \<Longrightarrow> sample_of_raw (v mod 4096) = v"
  by (cases "0 \<le> v") (simp_all add: sample_range_def sample_of_raw_def mod_4096_cases)

lemma raw_sample: "0 \<le> r \<Longrightarrow> r < 4096 \<Longrightarrow> sample_range (sample_of_raw r) \<and> sample_of_raw r mod 4096 = r"
  by (simp add: sample_range_def sample_of_raw_def mod_4096_cases)

lemma cap_memh_exact:
  "cap_memh label data rows = Inr vs \<longleftrightarrow>
     data = memh_text vs \<and> length vs = rows \<and> vs \<noteq> [] \<and> list_all sample_range vs"
proof
  assume "cap_memh label data rows = Inr vs"
  then obtain lines where l: "hex3_lines data = Some lines" "lines \<noteq> []" "length lines = rows"
      "vs = map sample_of_raw (map hex_value lines)"
    by (auto simp: cap_memh_def result_simps Let_def split: option.splits)
  then have ok: "list_all (\<lambda>l. length l = 3 \<and> list_all is_lower_hex l) lines"
    and data: "data = concat (map (\<lambda>l. l @ [CHR 0x0A]) lines)"
    by (simp_all add: hex3_lines_Some)
  have line: "hex_fixed 3 (sample_of_raw (hex_value x) AND 4095) = x \<and> sample_range (sample_of_raw (hex_value x))"
    if "x \<in> set lines" for x
  proof -
    have x: "length x = 3" "list_all is_lower_hex x" using that ok by (auto simp: list_all_iff)
    then have "0 \<le> hex_value x" "hex_value x < 4096" using hex_value_bounds [of x] by simp_all
    then show ?thesis using raw_sample [of "hex_value x"] hex_fixed_value [of x] x by (simp add: and_4095)
  qed
  then have "data = memh_text vs"
    by (auto simp: data memh_text_def l(4) intro!: arg_cong [where f = concat] map_cong)
  with l line show "data = memh_text vs \<and> length vs = rows \<and> vs \<noteq> [] \<and> list_all sample_range vs"
    by (auto simp: list_all_iff)
next
  assume vs: "data = memh_text vs \<and> length vs = rows \<and> vs \<noteq> [] \<and> list_all sample_range vs"
  define lines where "lines = map (\<lambda>v. hex_fixed 3 (v mod 4096)) vs"
  have "hex3_lines data = Some lines"
    using vs hex_fixed_lower [of "_ mod 4096" 3]
    by (auto simp: hex3_lines_Some lines_def memh_text_def and_4095 list.pred_map comp_def list_all_iff [of _ vs])
  moreover have "map sample_of_raw (map hex_value lines) = vs"
    using vs by (auto simp: lines_def hex_value_fixed sample_raw list_all_iff intro: map_idI)
  ultimately show "cap_memh label data rows = Inr vs"
    using vs by (auto simp: cap_memh_def Let_def lines_def)
qed

section \<open>Tables are exact\<close>

definition plain :: "string \<Rightarrow> bool" where
  "plain s \<longleftrightarrow> CHR 0x0A \<notin> set s \<and> CHR '','' \<notin> set s \<and> CHR 0x22 \<notin> set s"

lemma csv_scan_field:
  "plain s \<Longrightarrow> csv_scan In_Field f fs (s @ c # rest) = csv_scan In_Field (rev s @ f) fs (c # rest)"
  by (induction s arbitrary: f) (auto simp: plain_def)

lemma csv_scan_start:
  assumes "plain s" "c \<in> {CHR 0x0A, CHR '',''}"
  shows "csv_scan Start_Field [] fs (s @ c # rest) =
    (if c = CHR 0x0A then map_option (Cons (rev (s # fs))) (csv_scan Start_Record [] [] rest)
     else csv_scan Start_Field [] (s # fs) rest)"
proof (cases s)
  case (Cons a t)
  then have "plain t" "a \<noteq> CHR 0x0A" "a \<noteq> CHR '',''" "a \<noteq> CHR 0x22" using assms by (auto simp: plain_def)
  with Cons assms(2) show ?thesis by (auto simp: csv_scan_field simp del: csv_scan.simps(1))
qed (use assms in auto)

lemma csv_scan_record:
  "a \<noteq> CHR 0x0A \<Longrightarrow> csv_scan Start_Record [] [] (a # rest) = csv_scan Start_Field [] [] (a # rest)"
  by simp

lemma csv_scan_fields:
  "fields \<noteq> [] \<Longrightarrow> list_all plain fields \<Longrightarrow>
   csv_scan Start_Field [] fs (csv_line fields @ rest) =
     map_option (Cons (rev fs @ fields)) (csv_scan Start_Record [] [] rest)"
proof (induction fields arbitrary: fs rule: join_comma.induct)
  case (2 s)
  then show ?case using csv_scan_start [of s "CHR 0x0A" fs rest] by (simp add: csv_line_def del: csv_scan.simps)
next
  case (3 s t ss)
  have "csv_line (s # t # ss) @ rest = s @ CHR '','' # csv_line (t # ss) @ rest" by (simp add: csv_line_def)
  with 3 csv_scan_start [of s "CHR '',''" fs] show ?case by (simp del: csv_scan.simps)
qed simp

lemma csv_scan_line:
  assumes "list_all plain fields" "hd fields \<noteq> []" "fields \<noteq> []"
  shows "csv_scan Start_Record [] [] (csv_line fields @ rest) = map_option (Cons fields) (csv_scan Start_Record [] [] rest)"
proof -
  obtain a t ss where f: "fields = (a # t) # ss" using assms by (cases fields; cases "hd fields") auto
  then obtain u where u: "csv_line fields @ rest = a # u" by (cases ss) (auto simp: csv_line_def)
  have "a \<noteq> CHR 0x0A" using assms f by (auto simp: plain_def)
  with csv_scan_fields [OF assms(3,1), of "[]" rest] u show ?thesis by (simp add: csv_scan_record del: csv_scan.simps)
qed

lemma csv_reader_lines:
  "list_all (\<lambda>fields. list_all plain fields \<and> fields \<noteq> [] \<and> hd fields \<noteq> []) rows \<Longrightarrow>
   csv_reader (concat (map csv_line rows)) = Some rows"
  by (induction rows) (simp_all add: csv_reader_def csv_scan_line del: csv_scan.simps(2))

definition cell_ok :: "string list \<Rightarrow> string \<Rightarrow> cell \<Rightarrow> bool" where
  "cell_ok text_fields k c =
     (case c of CInt v \<Rightarrow> k \<notin> set text_fields \<and> (k \<in> set SIGNED \<or> 0 \<le> v) | CText s \<Rightarrow> k \<in> set text_fields)"

definition row_ok :: "string list \<Rightarrow> string list \<Rightarrow> row \<Rightarrow> bool" where
  "row_ok header text_fields row \<longleftrightarrow> list_all2 (cell_ok text_fields) header row"

lemma csv_cell_Inr:
  "(if k \<in> set tf then Inr (CText v) else rbind (number (JStr v) label (k \<in> set SIGNED)) (\<lambda>n. Inr (CInt n))) = Inr c \<longleftrightarrow>
     cell_ok tf k c \<and> v = cell_str c"
  by (cases c) (auto simp: cell_ok_def number_Inr result_simps)

lemma csv_row_exact:
  "csv_row header tf label fields = Inr row \<longleftrightarrow> row_ok header tf row \<and> fields = map cell_str row"
proof -
  have "csv_row header tf label fields = Inr row \<longleftrightarrow>
      length fields = length header \<and> length row = length header \<and>
      (\<forall>i < length header. cell_ok tf (header ! i) (row ! i) \<and> fields ! i = cell_str (row ! i))"
    by (auto simp: csv_row_def result_simps list_all2_conv_all_nth csv_cell_Inr)
  also have "\<dots> \<longleftrightarrow> row_ok header tf row \<and> fields = map cell_str row"
    by (auto simp: row_ok_def list_all2_conv_all_nth intro: nth_equalityI)
  finally show ?thesis .
qed

text \<open>What the reader accepts is the canonical text of the rows it returns, so equal rows come from equal files.\<close>

lemma cap_csv_sound:
  assumes "cap_csv label data header n tf = Inr rows"
  shows "data = csv_canonical header rows" "length rows = n" "list_all (row_ok header tf) rows"
proof -
  from assms obtain fs where fs: "length fs = n + 1" "rmapM (csv_row header tf label) (tl fs) = Inr rows"
    and data: "data = csv_canonical header rows"
    by (auto simp: cap_csv_def result_simps split: option.splits)
  show "data = csv_canonical header rows" by fact
  show "length rows = n" using rmapM_length [OF fs(2)] fs(1) by simp
  show "list_all (row_ok header tf) rows"
    using fs(2) by (auto simp: rmapM_Inr_iff csv_row_exact list_all_length list_all2_conv_all_nth)
qed

definition text_ok :: "string \<Rightarrow> bool" where
  "text_ok s \<longleftrightarrow> plain s \<and> CHR 0x0D \<notin> set s \<and> list_all (\<lambda>c. code c < 128) s"

definition table_ok :: "string list \<Rightarrow> string list \<Rightarrow> row list \<Rightarrow> bool" where
  "table_ok header tf rows \<longleftrightarrow> header \<noteq> [] \<and> hd header \<noteq> [] \<and> hd header \<notin> set tf \<and> list_all text_ok header \<and>
     list_all (\<lambda>row. row_ok header tf row \<and> list_all (\<lambda>c. case c of CText s \<Rightarrow> text_ok s | CInt v \<Rightarrow> True) row) rows"

lemma py_str_int_ok: "text_ok (py_str_int v)" "py_str_int v \<noteq> []"
proof -
  have "text_ok (nat_str n)" for n
    using nat_str_props [of n] digit_props(6,7) by (fastforce simp: text_ok_def plain_def list_all_iff)
  moreover have "text_ok (CHR ''-'' # s)" if "text_ok s" for s
    using that by (simp add: text_ok_def plain_def code_def)
  ultimately show "text_ok (py_str_int v)" by (simp add: py_str_int_def)
  show "py_str_int v \<noteq> []" using nat_str_props by (simp add: py_str_int_def)
qed

lemma row_texts_ok:
  assumes "table_ok header tf rows" "row \<in> set rows"
  shows "list_all text_ok (map cell_str row)" "map cell_str row \<noteq> []" "hd (map cell_str row) \<noteq> []"
proof -
  have r: "row_ok header tf row" "list_all (\<lambda>c. case c of CText s \<Rightarrow> text_ok s | CInt v \<Rightarrow> True) row"
    using assms by (auto simp: table_ok_def list_all_iff)
  have "text_ok (cell_str c)" if "c \<in> set row" for c
    using that r(2) py_str_int_ok by (cases c rule: cell.exhaust) (auto simp: list_all_iff)
  then show "list_all text_ok (map cell_str row)" by (simp add: list_all_iff)
  obtain h hs where h: "header = h # hs" using assms(1) by (cases header) (auto simp: table_ok_def)
  then obtain c cs where c: "row = c # cs" "cell_ok tf h c" using r(1) by (auto simp: row_ok_def list_all2_Cons1)
  have "h \<notin> set tf" using assms(1) h by (simp add: table_ok_def)
  then show "map cell_str row \<noteq> []" "hd (map cell_str row) \<noteq> []"
    using c py_str_int_ok by (auto simp: cell_ok_def split: cell.splits)
qed

lemma join_comma_chars: "set (join_comma fields) \<subseteq> {CHR '',''} \<union> (\<Union>f \<in> set fields. set f)"
  by (induction fields rule: join_comma.induct) auto

lemma csv_line_chars:
  assumes "list_all text_ok fields" "c \<in> set (csv_line fields)"
  shows "c \<noteq> CHR 0x0D" "code c < 128"
  using assms join_comma_chars [of fields] by (auto simp: csv_line_def text_ok_def list_all_iff code_def)

lemma cap_csv_complete:
  assumes "table_ok header tf rows"
  shows "cap_csv label (csv_canonical header rows) header (length rows) tf = Inr rows"
proof -
  define lines where "lines = header # map (map cell_str) rows"
  have can: "csv_canonical header rows = concat (map csv_line lines)"
    by (simp add: csv_canonical_def lines_def comp_def)
  have ok: "list_all text_ok l \<and> l \<noteq> [] \<and> hd l \<noteq> []" if "l \<in> set lines" for l
    using that assms row_texts_ok [OF assms] by (auto simp: lines_def table_ok_def)
  then have "csv_reader (csv_canonical header rows) = Some lines"
    unfolding can by (intro csv_reader_lines) (auto simp: list_all_iff text_ok_def)
  moreover have "c \<noteq> CHR 0x0D" "code c < 128" if "c \<in> set (csv_canonical header rows)" for c
    using that ok by (auto simp: can dest: csv_line_chars)
  then have "CHR 0x0D \<notin> set (csv_canonical header rows)" "list_all (\<lambda>c. code c < 128) (csv_canonical header rows)"
    by (auto simp: list_all_iff)
  moreover have "csv_canonical header rows \<noteq> []" "last (csv_canonical header rows) = CHR 0x0A"
  proof -
    obtain ls l where "lines = ls @ [l]" by (cases lines rule: rev_cases) (auto simp: lines_def)
    then show "csv_canonical header rows \<noteq> []" "last (csv_canonical header rows) = CHR 0x0A"
      by (simp_all add: can csv_line_def)
  qed
  moreover have "rmapM (csv_row header tf label) (map (map cell_str) rows) = Inr rows"
    using assms by (auto simp: rmapM_Inr_iff list_all2_conv_all_nth csv_row_exact table_ok_def list_all_length)
  ultimately show ?thesis by (simp add: cap_csv_def lines_def)
qed

interpretation cmemh: strict_codec "\<lambda>vs. length vs = n \<and> vs \<noteq> [] \<and> list_all sample_range vs"
    "\<lambda>vs. Inr (memh_text vs)" "\<lambda>t. cap_memh label t n" for n label
  by unfold_locales (auto simp: cap_memh_exact)

end
