(* ===== verification/Core_Capture.thy ===== *)
theory Core_Capture
  imports Evidence_Files Completion
begin

text \<open>
  The post-check of a finite core replay, \<^verbatim>\<open>scripts/verification/core_capture_check.py\<close>, and the writer of the oracle's
  files, \<^verbatim>\<open>emit_oracle\<close> of \<^verbatim>\<open>scripts/verification/reference_qualification.py\<close>. The files of the two evidence
  directories and the input are an environment: what each name holds when it is read and when it is read again at the
  end. The digest and the step from JSON text to a tree are parameters. The report of a check is its outcome with the
  values of a pass; the bookkeeping of completed checks and file identities is not part of it.
\<close>

section \<open>The environment\<close>

text \<open>\<open>Entry outside content\<close>: a regular file, whether it resolves outside its directory, and its bytes unless reading fails.\<close>

datatype entry = Absent | Not_File | Entry bool "string option"

record capture_env =
  ce_capture :: "string \<Rightarrow> entry"
  ce_oracle :: "string \<Rightarrow> entry"
  ce_input :: entry
  ce_case :: string
  ce_final :: "string \<Rightarrow> string option"

definition entry_of :: "capture_env \<Rightarrow> string \<Rightarrow> string \<Rightarrow> entry" where
  "entry_of env area name =
     (if area = ''input'' then ce_input env
      else if area = ''capture'' then ce_capture env name else ce_oracle env name)"

definition file_label :: "string \<Rightarrow> string \<Rightarrow> string" where
  "file_label area name = (if name = [] then area else area @ ''/'' @ name)"

definition cap_read :: "capture_env \<Rightarrow> string \<Rightarrow> string \<Rightarrow> string result" where
  "cap_read env area name =
     (let label = file_label area name in
      case entry_of env area name of
        Absent \<Rightarrow> Inl (capture_error ''MISSING_FILE'' label)
      | Not_File \<Rightarrow> Inl (capture_error ''MISSING_FILE'' label)
      | Entry outside content \<Rightarrow>
          rbind (need (area = ''input'' \<or> \<not> outside) ''UNSAFE_PATH'' label) (\<lambda>_.
          case content of
            None \<Rightarrow> Inl (capture_error ''UNREADABLE_FILE'' label)
          | Some data \<Rightarrow> rbind (need (data \<noteq> []) ''EMPTY_FILE'' label) (\<lambda>_. Inr data)))"

definition cap_exists :: "entry \<Rightarrow> bool" where
  "cap_exists e \<longleftrightarrow> e \<noteq> Absent"

definition read_json :: "(string \<Rightarrow> json option) \<Rightarrow> capture_env \<Rightarrow> string \<Rightarrow> string \<Rightarrow> json result" where
  "read_json loads env area name =
     rbind (cap_read env area name) (\<lambda>data. strict_json loads data (area @ ''/'' @ name))"

definition read_image :: "capture_env \<Rightarrow> string \<Rightarrow> string \<Rightarrow> nat \<Rightarrow> int list result" where
  "read_image env area name rows =
     rbind (cap_read env area name) (\<lambda>data. cap_memh (area @ ''/'' @ name) data rows)"

definition read_csv :: "capture_env \<Rightarrow> string \<Rightarrow> string \<Rightarrow> string list \<Rightarrow> nat \<Rightarrow> string list \<Rightarrow> row list result" where
  "read_csv env area name header n text_fields =
     rbind (cap_read env area name) (\<lambda>data. cap_csv (area @ ''/'' @ name) data header n text_fields)"

section \<open>Tables\<close>

definition FRAME :: "string list" where
  "FRAME = [''frame_idx'', ''unique_bins'', ''unique_suppressed_bins'', ''eligible_unique_bins'',
            ''eligible_suppressed_bins'', ''eligible_kept_mag2'', ''eligible_total_mag2'']"

definition BIN :: "string list" where
  "BIN = [''frame_idx'', ''bin_idx'', ''real'', ''imag'', ''mag2'', ''eligible'', ''pre_mask'', ''mask'']"

definition IFFT :: "string list" where
  "IFFT = [''frame_idx'', ''offset'', ''re'', ''im'']"

definition SOURCE :: "string list" where
  "SOURCE = [''cycle'', ''sample_idx'', ''data'', ''phase'']"

definition ACCEPT :: "string list" where
  "ACCEPT = [''cycle'', ''sample_idx'', ''y_out'']"

definition COMMIT :: "string list" where
  "COMMIT = [''cycle'', ''sample_idx'', ''x_delayed'', ''y_out'', ''error_i16'']"

definition LIFECYCLE :: "string list" where
  "LIFECYCLE = [''cycle'', ''event'', ''source_count'', ''output_count'']"

definition TIME_ERRORS :: "string list" where
  "TIME_ERRORS = [''sum_abs_err'', ''sum_sq_err'', ''max_abs_err'', ''error_sample_count'']"

definition GROUPS :: "(string \<times> string list) list" where
  "GROUPS = [(''suppression_totals'', take 4 (drop 1 FRAME)), (''spectral_totals'', drop 5 FRAME),
             (''time_domain_errors'', TIME_ERRORS)]"

lemmas table_defs = FRAME_def BIN_def IFFT_def SOURCE_def ACCEPT_def COMMIT_def LIFECYCLE_def TIME_ERRORS_def

section \<open>The static checks\<close>

definition match_rows :: "'a list \<Rightarrow> 'a list \<Rightarrow> string \<Rightarrow> unit result" where
  "match_rows actual expected label =
     rbind (need (length actual = length expected) ''ROW_COUNT'' label) (\<lambda>_.
     rbind (rmapM (\<lambda>(l, r). need (l = r) ''VALUE_MISMATCH'' label) (zip actual expected)) (\<lambda>_. Inr ()))"

definition chronology :: "string list \<Rightarrow> row list \<Rightarrow> string \<Rightarrow> unit result" where
  "chronology header rows label =
     (let cycles = map (field header ''cycle'') rows in
      rbind (need (map (field header ''sample_idx'') rows = map int [0..<length rows]) ''INDEX_SEQUENCE'' label) (\<lambda>_.
      need (list_all (\<lambda>c. 0 < c \<and> c < push_bit 64 1) cycles \<and> list_all (\<lambda>(l, r). l < r) (zip cycles (tl cycles)))
        ''CYCLE_ORDER'' label))"

definition cap_metrics :: "json \<Rightarrow> string \<Rightarrow> int list result" where
  "cap_metrics value label =
     rbind (rmapM (\<lambda>(grp, fields).
         rbind (jget value grp) (\<lambda>g.
         rbind (if jis_obj g then jset_is g fields else Inr False) (\<lambda>ok.
         rbind (need ok ''METRIC_FIELDS'' label) (\<lambda>_.
         rmapM (\<lambda>key. rbind (jget g key) (\<lambda>v. number v label False)) fields)))) GROUPS)
       (\<lambda>vs. Inr (concat vs))"

record geom =
  ge_ns :: int
  ge_frames :: int
  ge_tau :: int
  ge_ny :: int

definition oracle_metrics_file :: string where
  "oracle_metrics_file = ''oracle/metrics.json''"

definition observed_file :: string where
  "observed_file = ''capture/metrics_observed.json''"

text \<open>Schemas, the identity of the vector and the geometry.\<close>

definition check_identity :: "capture_env \<Rightarrow> json \<Rightarrow> json \<Rightarrow> geom result" where
  "check_identity env expected observed =
     rbind (jget expected ''schema'') (\<lambda>s.
     rbind (need (s = JStr ''trecap_reference_qualification_numeric_metrics_v1'') ''SCHEMA_ID'' oracle_metrics_file) (\<lambda>_.
     rbind (jget observed ''schema'') (\<lambda>s.
     rbind (need (s = JStr ''trecap_phase2_rtl_metrics_observed_v1'') ''SCHEMA_ID'' observed_file) (\<lambda>_.
     rbind (jget observed ''vector_name'') (\<lambda>v.
     rbind (need (v = JStr (ce_case env)) ''VECTOR_IDENTITY'' observed_file) (\<lambda>_.
     rbind (jget expected ''geometry'') (\<lambda>g.
     rbind (jset_is g [''Ns'', ''Nframes'', ''tau_last'', ''Ny'']) (\<lambda>ok.
     rbind (need ok ''GEOMETRY_FIELDS'' oracle_metrics_file) (\<lambda>_.
     rbind (rmapM (\<lambda>k. rbind (jget g k) (\<lambda>v. natural v oracle_metrics_file 1)) [''Ns'', ''Nframes'', ''tau_last'', ''Ny'']) (\<lambda>vs.
     let ns = vs ! 0; frames = vs ! 1; tau = vs ! 2; ny = vs ! 3 in
     rbind (need (frames = (ns + 254) div 128 \<and> tau = frames * 128 \<and> ny = tau + 384) ''FULL_TAIL_GEOMETRY'' oracle_metrics_file) (\<lambda>_.
     Inr \<lparr> ge_ns = ns, ge_frames = frames, ge_tau = tau, ge_ny = ny \<rparr>)))))))))))"

record static_files =
  sf_x :: "int list"
  sf_y :: "int list"
  sf_frames :: "row list"
  sf_bins :: "row list"

definition check_files :: "capture_env \<Rightarrow> geom \<Rightarrow> static_files result" where
  "check_files env g =
     (let nf = nat (ge_frames g) in
      rbind (read_image env ''input'' [] (nat (ge_ns g))) (\<lambda>x.
      rbind (read_image env ''oracle'' ''y_out.memh'' (nat (ge_ny g))) (\<lambda>expected_y.
      rbind (read_image env ''capture'' ''y_out.memh'' (nat (ge_ny g))) (\<lambda>y.
      rbind (match_rows y expected_y ''capture/y_out.memh'') (\<lambda>_.
      rbind (read_csv env ''oracle'' ''frame_stats.csv'' FRAME nf []) (\<lambda>expected_frames.
      rbind (read_csv env ''capture'' ''frame_stats.csv'' FRAME nf []) (\<lambda>frame_rows.
      rbind (match_rows frame_rows expected_frames ''capture/frame_stats.csv'') (\<lambda>_.
      rbind (read_csv env ''oracle'' ''bin_stats.csv'' BIN (nf * 129) []) (\<lambda>expected_bins.
      rbind (read_csv env ''capture'' ''bin_stats.csv'' BIN (nf * 129) []) (\<lambda>bin_rows.
      rbind (match_rows bin_rows expected_bins ''capture/bin_stats.csv'') (\<lambda>_.
      rbind (need (map (field FRAME ''frame_idx'') frame_rows = map int [0..<nf]) ''FRAME_INDEX'' ''capture/frame_stats.csv'') (\<lambda>_.
      rbind (need (map (\<lambda>r. (field BIN ''frame_idx'' r, field BIN ''bin_idx'' r)) bin_rows =
                   concat (map (\<lambda>f. map (\<lambda>k. (int f, int k)) [0..<129]) [0..<nf])) ''BIN_INDEX'' ''capture/bin_stats.csv'') (\<lambda>_.
      Inr \<lparr> sf_x = x, sf_y = y, sf_frames = frame_rows, sf_bins = bin_rows \<rparr>)))))))))))))"

text \<open>The totals of a frame recomputed from its bins.\<close>

definition unique_weights :: "int list" where
  "unique_weights = [1] @ replicate 127 2 @ [1]"

definition derived_totals :: "row list \<Rightarrow> int list" where
  "derived_totals bins =
     (let b = (\<lambda>k. field BIN k) in
      [129, \<Sum>r\<leftarrow>bins. b ''mask'' r, \<Sum>r\<leftarrow>bins. b ''eligible'' r, \<Sum>r\<leftarrow>bins. b ''eligible'' r * b ''mask'' r,
       \<Sum>(w, r)\<leftarrow>zip unique_weights bins. w * b ''eligible'' r * (1 - b ''mask'' r) * b ''mag2'' r,
       \<Sum>(w, r)\<leftarrow>zip unique_weights bins. w * b ''eligible'' r * b ''mag2'' r])"

definition check_frame :: "row list \<Rightarrow> nat \<times> row \<Rightarrow> unit result" where
  "check_frame bin_rows = (\<lambda>(frame, stats).
     let bins = take 129 (drop (frame * 129) bin_rows) in
     rbind (need (list_all (\<lambda>b. list_all (\<lambda>k. field BIN k b \<in> {0, 1}) [''eligible'', ''pre_mask'', ''mask'']) bins)
             ''BIN_FLAGS'' ''capture/bin_stats.csv'') (\<lambda>_.
     rbind (need (list_all (\<lambda>b. field BIN ''mag2'' b = field BIN ''real'' b ^ 2 + field BIN ''imag'' b ^ 2) bins)
             ''BIN_MAGNITUDE'' ''capture/bin_stats.csv'') (\<lambda>_.
     need (map (\<lambda>k. field FRAME k stats) (drop 1 FRAME) = derived_totals bins) ''FRAME_BIN_TOTAL'' ''capture/frame_stats.csv'')))"

definition delayed_input :: "int list \<Rightarrow> nat \<Rightarrow> int" where
  "delayed_input x i = (if 384 \<le> i \<and> i - 384 < length x then x ! (i - 384) else 0)"

definition error_list :: "int list \<Rightarrow> int list \<Rightarrow> int list" where
  "error_list x y = map (\<lambda>i. delayed_input x i - y ! i) [0..<length y]"

definition calculated_metrics :: "row list \<Rightarrow> int list \<Rightarrow> int \<Rightarrow> int list" where
  "calculated_metrics frame_rows errors ny =
     map (\<lambda>k. \<Sum>r\<leftarrow>frame_rows. field FRAME k r) (drop 1 FRAME) @
     [\<Sum>e\<leftarrow>errors. \<bar>e\<bar>, \<Sum>e\<leftarrow>errors. e * e, Max (set (map abs errors)), ny]"

definition check_status :: "json \<Rightarrow> geom \<Rightarrow> unit result" where
  "check_status observed g =
     rbind (jget observed ''counts'') (\<lambda>counts.
     let wanted_counts = [(''y_rows'', ge_ny g), (''frame_rows'', ge_frames g), (''bin_rows'', ge_frames g * 129), (''done_pulses'', 1)] in
     rbind (jset_is counts (map fst wanted_counts)) (\<lambda>same.
     rbind (if same then rmapM (\<lambda>(k, v). rbind (jget counts k) (\<lambda>c. Inr (c = JInt v))) wanted_counts else Inr [False]) (\<lambda>oks.
     rbind (need (list_all id oks) ''COMPLETION_COUNTS'' observed_file) (\<lambda>_.
     rbind (jget observed ''status'') (\<lambda>status.
     let wanted_status = [(''completion_error_sticky'', JInt 0), (''core_overflow_flags'', JStr ''0''), (''metric_overflow_sticky'', JInt 0),
       (''protocol_error_sticky'', JInt 0), (''saturation_sticky'', JInt 0), (''top_overflow_flags'', JStr ''0'')] in
     rbind (jset_is status (map fst wanted_status)) (\<lambda>same.
     rbind (if same then rmapM (\<lambda>(k, v). rbind (jget status k) (\<lambda>c. Inr (c = v))) wanted_status else Inr [False]) (\<lambda>oks.
     need (list_all id oks) ''ERROR_STATUS'' observed_file)))))))"

text \<open>The recomputed metrics against both stored documents and the accumulators of the design.\<close>

definition check_totals :: "json \<Rightarrow> json \<Rightarrow> geom \<Rightarrow> static_files \<Rightarrow> int list result" where
  "check_totals expected observed g sf =
     rbind (rmapM (check_frame (sf_bins sf)) (zip [0..<length (sf_frames sf)] (sf_frames sf))) (\<lambda>_.
     let calculated = calculated_metrics (sf_frames sf) (error_list (sf_x sf) (sf_y sf)) (ge_ny g) in
     rbind (cap_metrics expected oracle_metrics_file) (\<lambda>m.
     rbind (need (m = calculated) ''METRIC_VALUE'' oracle_metrics_file) (\<lambda>_.
     rbind (cap_metrics observed observed_file) (\<lambda>m.
     rbind (need (m = calculated) ''METRIC_VALUE'' observed_file) (\<lambda>_.
     rbind (jget observed ''internal_metrics'') (\<lambda>im.
     rbind (if jis_obj im then jset_is im TIME_ERRORS else Inr False) (\<lambda>ok.
     rbind (need ok ''METRIC_FIELDS'' observed_file) (\<lambda>_.
     rbind (rmapM (\<lambda>k. rbind (jget im k) (\<lambda>v. number v observed_file False)) TIME_ERRORS) (\<lambda>vs.
     rbind (need (vs = drop 6 calculated) ''INTERNAL_METRICS'' observed_file) (\<lambda>_.
     rbind (check_status observed g) (\<lambda>_. Inr calculated)))))))))))"

section \<open>The event logs\<close>

record event_logs =
  el_source :: "row list"
  el_accepts :: "row list"
  el_commits :: "row list"
  el_start :: row
  el_done :: row

definition phase_of :: "geom \<Rightarrow> nat \<Rightarrow> string" where
  "phase_of g i =
     (if int i < ge_ns g then ''input'' else if int i < ge_tau g then ''analysis_flush'' else ''tail_drain'')"

definition check_event ::
    "geom \<Rightarrow> static_files \<Rightarrow> row list \<Rightarrow> nat \<times> row \<times> row \<times> row \<Rightarrow> unit result" where
  "check_event g sf source = (\<lambda>(i, src, accepted, committed).
     let x = sf_x sf; y = sf_y sf; delayed = delayed_input x i in
     rbind (need (field SOURCE ''data'' src = (if i < length x then x ! i else 0) \<and> text_field SOURCE ''phase'' src = phase_of g i)
             ''SOURCE_VALUE_PHASE'' ''capture/source_accepts.csv'') (\<lambda>_.
     rbind (need (field ACCEPT ''y_out'' accepted = y ! i) ''ACCEPT_VALUE'' ''capture/y_accepts.csv'') (\<lambda>_.
     rbind (need (map (\<lambda>k. field COMMIT k committed) [''x_delayed'', ''y_out'', ''error_i16''] = [delayed, y ! i, error_list x y ! i])
             ''COMMIT_VALUE'' ''capture/sample_commits.csv'') (\<lambda>_.
     rbind (need (field COMMIT ''cycle'' committed < field ACCEPT ''cycle'' accepted) ''COMMIT_ACCEPT_ORDER'' ''capture/sample_commits.csv'') (\<lambda>_.
     if 384 \<le> i \<and> i - 384 < length x
     then need (field SOURCE ''cycle'' (source ! (i - 384)) < field COMMIT ''cycle'' committed) ''DELAYED_SOURCE_ORDER'' ''capture/sample_commits.csv''
     else Inr ())))))"

definition check_lifecycle :: "geom \<Rightarrow> row list \<Rightarrow> row list \<Rightarrow> row list \<Rightarrow> row \<Rightarrow> row \<Rightarrow> unit result" where
  "check_lifecycle g source accepts commits start done_row =
     (let c = field LIFECYCLE ''cycle''; sc = field LIFECYCLE ''source_count''; oc = field LIFECYCLE ''output_count'';
          firsts = [field SOURCE ''cycle'' (hd source), field ACCEPT ''cycle'' (hd accepts), field COMMIT ''cycle'' (hd commits)];
          lasts = [field SOURCE ''cycle'' (last source), field ACCEPT ''cycle'' (last accepts), field COMMIT ''cycle'' (last commits)] in
      rbind (need (text_field LIFECYCLE ''event'' start = ''start'' \<and> text_field LIFECYCLE ''event'' done_row = ''done'')
              ''LIFECYCLE_EVENTS'' ''capture/lifecycle.csv'') (\<lambda>_.
      rbind (need (sc start = oc start \<and> oc start = 0 \<and> sc done_row = oc done_row \<and> oc done_row = ge_ny g)
              ''LIFECYCLE_COUNTS'' ''capture/lifecycle.csv'') (\<lambda>_.
      need (0 < c start \<and> c start < Min (set firsts) \<and> c done_row > Max (set lasts))
        ''LIFECYCLE_ORDER'' ''capture/lifecycle.csv'')))"

definition check_events :: "capture_env \<Rightarrow> geom \<Rightarrow> static_files \<Rightarrow> event_logs result" where
  "check_events env g sf =
     (let ny = nat (ge_ny g) in
      rbind (read_csv env ''capture'' ''source_accepts.csv'' SOURCE ny [''phase'']) (\<lambda>source.
      rbind (read_csv env ''capture'' ''y_accepts.csv'' ACCEPT ny []) (\<lambda>accepts.
      rbind (read_csv env ''capture'' ''sample_commits.csv'' COMMIT ny []) (\<lambda>commits.
      rbind (chronology SOURCE source ''capture/source_accepts.csv'') (\<lambda>_.
      rbind (chronology ACCEPT accepts ''capture/y_accepts.csv'') (\<lambda>_.
      rbind (chronology COMMIT commits ''capture/sample_commits.csv'') (\<lambda>_.
      rbind (rmapM (check_event g sf source) (zip [0..<length source] (zip source (zip accepts commits)))) (\<lambda>_.
      rbind (read_csv env ''capture'' ''lifecycle.csv'' LIFECYCLE 2 [''event'']) (\<lambda>events.
      rbind (check_lifecycle g source accepts commits (events ! 0) (events ! 1)) (\<lambda>_.
      Inr \<lparr> el_source = source, el_accepts = accepts, el_commits = commits, el_start = events ! 0, el_done = events ! 1 \<rparr>))))))))))"

section \<open>The transform samples and the report\<close>

record residual =
  rs_rows :: int
  rs_nonzero_imag_rows :: int
  rs_max_abs_imag :: int

definition check_ifft :: "capture_env \<Rightarrow> geom \<Rightarrow> residual option result" where
  "check_ifft env g =
     (let nf = nat (ge_frames g) in
      if cap_exists (ce_oracle env ''ifft_output.csv'') \<or> cap_exists (ce_capture env ''ifft_samples.csv'')
      then
        rbind (read_csv env ''oracle'' ''ifft_output.csv'' IFFT (nf * 256) []) (\<lambda>oracle_ifft.
        rbind (read_csv env ''capture'' ''ifft_samples.csv'' IFFT (nf * 256) []) (\<lambda>capture_ifft.
        rbind (match_rows capture_ifft oracle_ifft ''capture/ifft_samples.csv'') (\<lambda>_.
        rbind (need (map (\<lambda>r. (field IFFT ''frame_idx'' r, field IFFT ''offset'' r)) capture_ifft =
                     concat (map (\<lambda>f. map (\<lambda>k. (int f, int k)) [0..<256]) [0..<nf])) ''IFFT_INDEX'' ''capture/ifft_samples.csv'') (\<lambda>_.
        rbind (need (list_all (\<lambda>r. list_all (\<lambda>k. - push_bit 35 1 \<le> field IFFT k r \<and> field IFFT k r < push_bit 35 1) [''re'', ''im'']) capture_ifft)
                ''IFFT_WIDTH'' ''capture/ifft_samples.csv'') (\<lambda>_.
        Inr (Some \<lparr> rs_rows = ge_frames g * 256,
                    rs_nonzero_imag_rows = int (length (filter (\<lambda>r. field IFFT ''im'' r \<noteq> 0) capture_ifft)),
                    rs_max_abs_imag = Max (set (map (\<lambda>r. \<bar>field IFFT ''im'' r\<bar>) capture_ifft)) \<rparr>))))))
      else Inr None)"

definition check_summary :: "json \<Rightarrow> residual option \<Rightarrow> unit result" where
  "check_summary observed res =
     (if jhas observed ''ifft_residual_summary''
      then
        rbind (jget observed ''ifft_residual_summary'') (\<lambda>summary.
        case res of
          None \<Rightarrow> Inl (capture_error ''IFFT_SUMMARY'' observed_file)
        | Some r \<Rightarrow>
            rbind (jset_is summary [''rows'', ''nonzero_imag_rows'', ''max_abs_imag'']) (\<lambda>same.
            rbind (need same ''IFFT_SUMMARY'' observed_file) (\<lambda>_.
            rbind (rbind (jget summary ''rows'') (\<lambda>v. natural v observed_file 0)) (\<lambda>rows.
            rbind (need (rows = rs_rows r) ''IFFT_SUMMARY'' observed_file) (\<lambda>_.
            rbind (rbind (jget summary ''nonzero_imag_rows'') (\<lambda>v. natural v observed_file 0)) (\<lambda>nz.
            rbind (need (nz = rs_nonzero_imag_rows r) ''IFFT_SUMMARY'' observed_file) (\<lambda>_.
            rbind (rbind (jget summary ''max_abs_imag'') (\<lambda>v. number v observed_file False)) (\<lambda>mx.
            need (mx = rs_max_abs_imag r) ''IFFT_SUMMARY'' observed_file))))))))
      else Inr ())"

text \<open>The files in the order of their first reading; the transform samples only when they were read.\<close>

definition files_read :: "bool \<Rightarrow> (string \<times> string) list" where
  "files_read with_ifft =
     [(''oracle'', ''metrics.json''), (''capture'', ''metrics_observed.json''), (''input'', []),
      (''oracle'', ''y_out.memh''), (''capture'', ''y_out.memh''),
      (''oracle'', ''frame_stats.csv''), (''capture'', ''frame_stats.csv''),
      (''oracle'', ''bin_stats.csv''), (''capture'', ''bin_stats.csv''),
      (''capture'', ''source_accepts.csv''), (''capture'', ''y_accepts.csv''), (''capture'', ''sample_commits.csv''),
      (''capture'', ''lifecycle.csv'')] @
     (if with_ifft then [(''oracle'', ''ifft_output.csv''), (''capture'', ''ifft_samples.csv'')] else [])"

definition check_unchanged :: "(string \<Rightarrow> 'h) \<Rightarrow> capture_env \<Rightarrow> bool \<Rightarrow> unit result" where
  "check_unchanged digest env with_ifft =
     rbind (rmapM (\<lambda>(area, name).
         rbind (cap_read env area name) (\<lambda>before.
         let label = file_label area name in
         case ce_final env label of
           None \<Rightarrow> Inl (capture_error ''INPUT_CHANGED'' label)
         | Some data \<Rightarrow> need (length data = length before \<and> digest data = digest before) ''INPUT_CHANGED'' label))
       (files_read with_ifft)) (\<lambda>_. Inr ())"

record capture_report =
  cr_geometry :: geom
  cr_metrics :: "int list"
  cr_residual :: "residual option"
  cr_start_cycle :: int
  cr_done_cycle :: int
  cr_last_accept_cycle :: int
  cr_min_latency :: int

definition capture_run :: "(string \<Rightarrow> json option) \<Rightarrow> (string \<Rightarrow> 'h) \<Rightarrow> capture_env \<Rightarrow> capture_report result" where
  "capture_run loads digest env =
     rbind (read_json loads env ''oracle'' ''metrics.json'') (\<lambda>expected.
     rbind (read_json loads env ''capture'' ''metrics_observed.json'') (\<lambda>observed.
     rbind (check_identity env expected observed) (\<lambda>g.
     rbind (check_files env g) (\<lambda>sf.
     rbind (check_totals expected observed g sf) (\<lambda>calculated.
     rbind (check_events env g sf) (\<lambda>el.
     rbind (check_ifft env g) (\<lambda>res.
     rbind (check_summary observed res) (\<lambda>_.
     rbind (check_unchanged digest env (res \<noteq> None)) (\<lambda>_.
     Inr \<lparr> cr_geometry = g, cr_metrics = calculated, cr_residual = res,
           cr_start_cycle = field LIFECYCLE ''cycle'' (el_start el), cr_done_cycle = field LIFECYCLE ''cycle'' (el_done el),
           cr_last_accept_cycle = field ACCEPT ''cycle'' (last (el_accepts el)),
           cr_min_latency = Min (set (map (\<lambda>(a, c). field ACCEPT ''cycle'' a - field COMMIT ''cycle'' c)
             (zip (el_accepts el) (el_commits el)))) \<rparr>)))))))))"

datatype outcome = PASS capture_report | FAIL exn

definition check_capture :: "(string \<Rightarrow> json option) \<Rightarrow> (string \<Rightarrow> 'h) \<Rightarrow> capture_env \<Rightarrow> outcome result" where
  "check_capture loads digest env =
     (case capture_run loads digest env of
        Inr r \<Rightarrow> Inr (PASS r)
      | Inl e \<Rightarrow>
          if \<exists>h \<in> {CaptureError, KeyError, TypeError, ValueError, OSError, OverflowError}. handled_by (exn_class e) h
          then Inr (FAIL e) else Inl e)"

section \<open>What a pass means\<close>

lemma match_rows_Inr [result_simps]: "match_rows a b label = Inr u \<longleftrightarrow> a = b"
proof
  assume "match_rows a b label = Inr u"
  then have "length a = length b" "list_all2 (\<lambda>p y. case p of (l, r) \<Rightarrow> l = r) (zip a b) ys" if "ys = replicate (length a) ()" for ys
    using that by (auto simp: match_rows_def result_simps list_all2_conv_all_nth)
  then show "a = b" by (auto simp: list_all2_conv_all_nth intro: nth_equalityI)
next
  assume "a = b"
  moreover have "rmapM (\<lambda>(l, r). need (l = r) ''VALUE_MISMATCH'' label) (zip b b) = Inr (map (\<lambda>_. ()) (zip b b))"
    by (rule rmapM_Inr_map) (auto simp: in_set_zip)
  ultimately show "match_rows a b label = Inr u" by (simp add: match_rows_def)
qed

lemma read_csv_Inr:
  assumes "read_csv env area name header n tf = Inr rows"
  shows "cap_read env area name = Inr (csv_canonical header rows)" "length rows = n" "list_all (row_ok header tf) rows"
  using assms by (auto simp: read_csv_def result_simps dest: cap_csv_sound)

lemma read_image_Inr:
  "read_image env area name n = Inr vs \<longleftrightarrow>
     cap_read env area name = Inr (memh_text vs) \<and> length vs = n \<and> vs \<noteq> [] \<and> list_all sample_range vs"
  by (auto simp: read_image_def result_simps cap_memh_exact)

lemma increasing_zip: "list_all (\<lambda>(l, r). l < r) (zip cs (tl cs)) \<longleftrightarrow> sorted_wrt (<) (cs :: int list)"
proof (induction cs)
  case (Cons c cs)
  then show ?case by (cases cs) (auto intro: order.strict_trans)
qed simp

definition increasing_log :: "string list \<Rightarrow> row list \<Rightarrow> bool" where
  "increasing_log header rows \<longleftrightarrow>
     map (field header ''sample_idx'') rows = map int [0..<length rows] \<and>
     list_all (\<lambda>r. 0 < field header ''cycle'' r \<and> field header ''cycle'' r < 2 ^ 64) rows \<and>
     sorted_wrt (\<lambda>a b. field header ''cycle'' a < field header ''cycle'' b) rows"

lemma chronology_Inr [result_simps]: "chronology header rows label = Inr u \<longleftrightarrow> increasing_log header rows"
  by (simp add: chronology_def increasing_log_def Let_def result_simps increasing_zip sorted_wrt_map list.pred_map comp_def)

text \<open>The facts that one row of the three logs carries.\<close>

definition capture_event_ok :: "geom \<Rightarrow> int list \<Rightarrow> int list \<Rightarrow> row list \<Rightarrow> row list \<Rightarrow> row list \<Rightarrow> nat \<Rightarrow> bool" where
  "capture_event_ok g x y source accepts commits i \<longleftrightarrow>
     field SOURCE ''data'' (source ! i) = (if i < length x then x ! i else 0) \<and>
     text_field SOURCE ''phase'' (source ! i) = phase_of g i \<and>
     field ACCEPT ''y_out'' (accepts ! i) = y ! i \<and>
     field COMMIT ''x_delayed'' (commits ! i) = delayed_input x i \<and>
     field COMMIT ''y_out'' (commits ! i) = y ! i \<and>
     field COMMIT ''error_i16'' (commits ! i) = delayed_input x i - y ! i \<and>
     field COMMIT ''cycle'' (commits ! i) < field ACCEPT ''cycle'' (accepts ! i) \<and>
     (384 \<le> i \<and> i - 384 < length x \<longrightarrow>
        field SOURCE ''cycle'' (source ! (i - 384)) < field COMMIT ''cycle'' (commits ! i))"

lemma check_event_Inr:
  assumes "i < length (sf_y sf)"
  shows "check_event g sf source (i, source ! i, accepts ! i, commits ! i) = Inr u \<longleftrightarrow>
    capture_event_ok g (sf_x sf) (sf_y sf) source accepts commits i"
  using assms by (auto simp: check_event_def capture_event_ok_def Let_def result_simps error_list_def)

lemma rmapM_unit: "(\<exists>us. rmapM f xs = Inr (us :: unit list)) \<longleftrightarrow> (\<forall>i < length xs. f (xs ! i) = Inr ())"
  by (auto simp: rmapM_Inr_iff list_all2_conv_all_nth intro: exI [of _ "replicate (length xs) ()"])

lemma check_events_loop:
  assumes "length source = n" "length accepts = n" "length commits = n" "length (sf_y sf) = n"
  shows "(\<exists>us. rmapM (check_event g sf source) (zip [0..<length source] (zip source (zip accepts commits))) = Inr us) \<longleftrightarrow>
    (\<forall>i < n. capture_event_ok g (sf_x sf) (sf_y sf) source accepts commits i)"
  using assms by (simp add: rmapM_unit check_event_Inr)

definition lifecycle_ok :: "geom \<Rightarrow> row list \<Rightarrow> row list \<Rightarrow> row list \<Rightarrow> row \<Rightarrow> row \<Rightarrow> bool" where
  "lifecycle_ok g source accepts commits start fin \<longleftrightarrow>
     text_field LIFECYCLE ''event'' start = ''start'' \<and> text_field LIFECYCLE ''event'' fin = ''done'' \<and>
     field LIFECYCLE ''source_count'' start = 0 \<and> field LIFECYCLE ''output_count'' start = 0 \<and>
     field LIFECYCLE ''source_count'' fin = ge_ny g \<and> field LIFECYCLE ''output_count'' fin = ge_ny g \<and>
     0 < field LIFECYCLE ''cycle'' start \<and>
     field LIFECYCLE ''cycle'' start < field SOURCE ''cycle'' (hd source) \<and>
     field LIFECYCLE ''cycle'' start < field ACCEPT ''cycle'' (hd accepts) \<and>
     field LIFECYCLE ''cycle'' start < field COMMIT ''cycle'' (hd commits) \<and>
     field SOURCE ''cycle'' (last source) < field LIFECYCLE ''cycle'' fin \<and>
     field ACCEPT ''cycle'' (last accepts) < field LIFECYCLE ''cycle'' fin \<and>
     field COMMIT ''cycle'' (last commits) < field LIFECYCLE ''cycle'' fin"

lemma check_lifecycle_Inr [result_simps]:
  "check_lifecycle g source accepts commits start fin = Inr u \<longleftrightarrow> lifecycle_ok g source accepts commits start fin"
  by (auto simp: check_lifecycle_def lifecycle_ok_def Let_def result_simps)

lemma check_files_Inr:
  assumes "check_files env g = Inr sf"
  shows "read_image env ''input'' [] (nat (ge_ns g)) = Inr (sf_x sf)"
    "read_image env ''oracle'' ''y_out.memh'' (nat (ge_ny g)) = Inr (sf_y sf)"
    "read_image env ''capture'' ''y_out.memh'' (nat (ge_ny g)) = Inr (sf_y sf)"
    "read_csv env ''oracle'' ''frame_stats.csv'' FRAME (nat (ge_frames g)) [] = Inr (sf_frames sf)"
    "read_csv env ''capture'' ''frame_stats.csv'' FRAME (nat (ge_frames g)) [] = Inr (sf_frames sf)"
    "read_csv env ''oracle'' ''bin_stats.csv'' BIN (nat (ge_frames g) * 129) [] = Inr (sf_bins sf)"
    "read_csv env ''capture'' ''bin_stats.csv'' BIN (nat (ge_frames g) * 129) [] = Inr (sf_bins sf)"
  using assms by (auto simp: check_files_def Let_def result_simps)

lemma check_events_Inr:
  assumes "check_events env g sf = Inr el" "length (sf_y sf) = nat (ge_ny g)"
  shows "read_csv env ''capture'' ''source_accepts.csv'' SOURCE (nat (ge_ny g)) [''phase''] = Inr (el_source el)"
    "read_csv env ''capture'' ''y_accepts.csv'' ACCEPT (nat (ge_ny g)) [] = Inr (el_accepts el)"
    "read_csv env ''capture'' ''sample_commits.csv'' COMMIT (nat (ge_ny g)) [] = Inr (el_commits el)"
    "read_csv env ''capture'' ''lifecycle.csv'' LIFECYCLE 2 [''event''] = Inr [el_start el, el_done el]"
    "increasing_log SOURCE (el_source el)" "increasing_log ACCEPT (el_accepts el)" "increasing_log COMMIT (el_commits el)"
    "\<forall>i < nat (ge_ny g). capture_event_ok g (sf_x sf) (sf_y sf) (el_source el) (el_accepts el) (el_commits el) i"
    "lifecycle_ok g (el_source el) (el_accepts el) (el_commits el) (el_start el) (el_done el)"
proof -
  from assms(1) obtain source accepts commits us events where
    logs: "read_csv env ''capture'' ''source_accepts.csv'' SOURCE (nat (ge_ny g)) [''phase''] = Inr source"
      "read_csv env ''capture'' ''y_accepts.csv'' ACCEPT (nat (ge_ny g)) [] = Inr accepts"
      "read_csv env ''capture'' ''sample_commits.csv'' COMMIT (nat (ge_ny g)) [] = Inr commits"
      "read_csv env ''capture'' ''lifecycle.csv'' LIFECYCLE 2 [''event''] = Inr events"
    and inc: "increasing_log SOURCE source" "increasing_log ACCEPT accepts" "increasing_log COMMIT commits"
    and loop: "rmapM (check_event g sf source) (zip [0..<length source] (zip source (zip accepts commits))) = Inr us"
    and life: "lifecycle_ok g source accepts commits (events ! 0) (events ! 1)"
    and el: "el = \<lparr> el_source = source, el_accepts = accepts, el_commits = commits, el_start = events ! 0, el_done = events ! 1 \<rparr>"
    unfolding check_events_def Let_def rbind_Inr_iff chronology_Inr check_lifecycle_Inr by blast
  note len = read_csv_Inr(2) [OF logs(1)] read_csv_Inr(2) [OF logs(2)] read_csv_Inr(2) [OF logs(3)]
  have "\<forall>i < nat (ge_ny g). capture_event_ok g (sf_x sf) (sf_y sf) source accepts commits i"
    using check_events_loop [OF len assms(2)] loop by blast
  moreover have "events = [events ! 0, events ! 1]"
    using read_csv_Inr(2) [OF logs(4)] by (auto simp: numeral_2_eq_2 length_Suc_conv)
  ultimately show
    "read_csv env ''capture'' ''source_accepts.csv'' SOURCE (nat (ge_ny g)) [''phase''] = Inr (el_source el)"
    "read_csv env ''capture'' ''y_accepts.csv'' ACCEPT (nat (ge_ny g)) [] = Inr (el_accepts el)"
    "read_csv env ''capture'' ''sample_commits.csv'' COMMIT (nat (ge_ny g)) [] = Inr (el_commits el)"
    "read_csv env ''capture'' ''lifecycle.csv'' LIFECYCLE 2 [''event''] = Inr [el_start el, el_done el]"
    "increasing_log SOURCE (el_source el)" "increasing_log ACCEPT (el_accepts el)" "increasing_log COMMIT (el_commits el)"
    "\<forall>i < nat (ge_ny g). capture_event_ok g (sf_x sf) (sf_y sf) (el_source el) (el_accepts el) (el_commits el) i"
    "lifecycle_ok g (el_source el) (el_accepts el) (el_commits el) (el_start el) (el_done el)"
    using logs inc life by (simp_all add: el)
qed

lemma check_ifft_Inr:
  assumes "check_ifft env g = Inr (Some res)"
  obtains rows where "read_csv env ''oracle'' ''ifft_output.csv'' IFFT (nat (ge_frames g) * 256) [] = Inr rows"
    "read_csv env ''capture'' ''ifft_samples.csv'' IFFT (nat (ge_frames g) * 256) [] = Inr rows"
  using assms by (auto simp: check_ifft_def Let_def result_simps split: if_splits)

lemma check_capture_PASS:
  assumes "check_capture loads digest env = Inr (PASS r)"
  obtains expected observed g sf el where
    "read_json loads env ''oracle'' ''metrics.json'' = Inr expected"
    "read_json loads env ''capture'' ''metrics_observed.json'' = Inr observed"
    "check_identity env expected observed = Inr g" "check_files env g = Inr sf"
    "check_totals expected observed g sf = Inr (cr_metrics r)" "check_events env g sf = Inr el"
    "check_ifft env g = Inr (cr_residual r)" "check_summary observed (cr_residual r) = Inr ()"
    "check_unchanged digest env (cr_residual r \<noteq> None) = Inr ()" "cr_geometry r = g"
    "cr_start_cycle r = field LIFECYCLE ''cycle'' (el_start el)" "cr_done_cycle r = field LIFECYCLE ''cycle'' (el_done el)"
proof -
  have "capture_run loads digest env = Inr r"
    using assms by (auto simp: check_capture_def split: sum.splits if_splits)
  then show thesis unfolding capture_run_def rbind_Inr_iff by (auto intro!: that)
qed

lemma tail_flush: "1 \<le> ns \<Longrightarrow> nat ns + 384 \<le> nat ((ns + 254) div 128 * 128 + 384)"
proof -
  assume "1 \<le> ns"
  moreover have "ns \<le> (ns + 254) div 128 * 128" by presburger
  ultimately show ?thesis by linarith
qed

lemma check_identity_Inr:
  assumes "check_identity env expected observed = Inr g"
  shows "1 \<le> ge_ns g" "ge_frames g = (ge_ns g + 254) div 128" "ge_tau g = ge_frames g * 128" "ge_ny g = ge_tau g + 384"
proof -
  have nat1: "natural v f 1 = Inr n \<Longrightarrow> 1 \<le> n" for v f n
    by (auto simp: natural_def split: json.splits if_splits)
  from assms show "1 \<le> ge_ns g" "ge_frames g = (ge_ns g + 254) div 128" "ge_tau g = ge_frames g * 128" "ge_ny g = ge_tau g + 384"
    by (auto simp: check_identity_def Let_def result_simps list_all2_Cons1 dest!: nat1)
qed

lemma increasing_log_nth:
  assumes "increasing_log header rows" "i < j" "j < length rows"
  shows "field header ''cycle'' (rows ! i) < field header ''cycle'' (rows ! j)"
proof -
  have "sorted_wrt (\<lambda>a b. field header ''cycle'' a < field header ''cycle'' b) rows"
    using assms(1) by (simp add: increasing_log_def)
  from sorted_wrt_nth_less [OF this assms(2,3)] show ?thesis .
qed

lemma increasing_log_ends:
  assumes "increasing_log header rows" "i < length rows"
  shows "field header ''cycle'' (hd rows) \<le> field header ''cycle'' (rows ! i)"
    "field header ''cycle'' (rows ! i) \<le> field header ''cycle'' (last rows)"
proof -
  have ne: "rows \<noteq> []" using assms(2) by auto
  show "field header ''cycle'' (hd rows) \<le> field header ''cycle'' (rows ! i)"
    using increasing_log_nth [OF assms(1), of 0 i] assms(2) ne by (cases "i = 0") (simp_all add: hd_conv_nth)
  show "field header ''cycle'' (rows ! i) \<le> field header ''cycle'' (last rows)"
  proof (cases "i = length rows - 1")
    case False
    with assms(2) have "i < length rows - 1" by linarith
    with increasing_log_nth [OF assms(1), of i "length rows - 1"] ne show ?thesis by (simp add: last_conv_nth)
  qed (simp add: ne last_conv_nth)
qed

section \<open>The oracle's files\<close>

text \<open>\<^verbatim>\<open>emit_oracle\<close>: the rows of the tables, in the order in which \<^verbatim>\<open>run\<close> enters its records.\<close>

definition METRIC_NAMES :: "string list" where
  "METRIC_NAMES = [''unique_bins'', ''unique_suppressed_bins'', ''eligible_unique_bins'', ''eligible_suppressed_bins'',
     ''eligible_kept_mag2'', ''eligible_total_mag2'', ''sum_abs_err'', ''sum_sq_err'', ''max_abs_err'', ''error_sample_count'']"

definition FRAME_FIELDS :: "string list" where
  "FRAME_FIELDS = ''frame_idx'' # take 6 METRIC_NAMES"

definition emit_frame_rows :: "oracle_run \<Rightarrow> row list" where
  "emit_frame_rows r =
     map (\<lambda>(i, f). CInt (int i) # map CInt (stats_list (of_stats f))) (zip [0..<length (or_frames r)] (or_frames r))"

definition emit_bin_row :: "oracle_bin \<Rightarrow> row" where
  "emit_bin_row b =
     [CInt (int (ob_frame b)), CInt (int (ob_k b)), CInt (ob_re b), CInt (ob_im b), CInt (ob_mag2 b),
      CInt (of_bool (ob_eligible b)), CInt (of_bool (ob_pre b)), CInt (of_bool (ob_mask b))]"

definition emit_bin_rows :: "oracle_run \<Rightarrow> row list" where
  "emit_bin_rows r = concat (map (\<lambda>f. map emit_bin_row (of_bins f)) (or_frames r))"

definition emit_ifft_rows :: "oracle_run \<Rightarrow> row list" where
  "emit_ifft_rows r =
     concat (map (\<lambda>(i, f). map (\<lambda>k. [CInt (int i), CInt (int k), CInt (fst (of_ifft f ! k)), CInt (snd (of_ifft f ! k))]) [0..<256])
       (zip [0..<length (or_frames r)] (or_frames r)))"

definition run_metrics :: "oracle_run \<Rightarrow> int list" where
  "run_metrics r = or_totals r @ [or_sum_abs_err r, or_sum_sq_err r, or_max_abs_err r, int (or_ny r)]"

definition metric_group :: "oracle_run \<Rightarrow> nat \<Rightarrow> nat \<Rightarrow> json" where
  "metric_group r off n =
     JObj (take n (drop off (zip METRIC_NAMES (map (\<lambda>v. JStr (py_str_int v)) (run_metrics r)))))"

definition emit_geometry :: "oracle_run \<Rightarrow> json" where
  "emit_geometry r =
     JObj [(''Nframes'', JInt (int (length (or_taus r)))), (''Ns'', JInt (int (or_samples r))), (''Ny'', JInt (int (or_ny r))),
           (''tau_last'', JInt (int (last (or_taus r))))]"

text \<open>The members in the order of \<^verbatim>\<open>sort_keys\<close>; inside the groups the order of the names is kept, which no reader observes.\<close>

definition emit_metrics :: "oracle_run \<Rightarrow> json" where
  "emit_metrics r =
     JObj [(''geometry'', emit_geometry r),
           (''schema'', JStr ''trecap_reference_qualification_numeric_metrics_v1''),
           (''spectral_totals'', metric_group r 4 2), (''suppression_totals'', metric_group r 0 4),
           (''time_domain_errors'', metric_group r 6 4)]"

definition emit_oracle :: "(json \<Rightarrow> string) \<Rightarrow> oracle_run \<Rightarrow> string \<Rightarrow> string option" where
  "emit_oracle dumps r name =
     (if name = ''y_out.memh'' then Some (memh_text (or_y r))
      else if name = ''frame_stats.csv'' then Some (csv_canonical FRAME_FIELDS (emit_frame_rows r))
      else if name = ''bin_stats.csv'' then Some (csv_canonical BIN (emit_bin_rows r))
      else if name = ''ifft_output.csv'' then Some (csv_canonical IFFT (emit_ifft_rows r))
      else if name = ''metrics.json'' then Some (dumps (emit_metrics r))
      else None)"

lemma FRAME_FIELDS_eq: "FRAME_FIELDS = FRAME"
  by (simp add: FRAME_FIELDS_def FRAME_def METRIC_NAMES_def)

lemma header_ok:
  "list_all text_ok FRAME" "list_all text_ok BIN" "list_all text_ok IFFT"
  "list_all text_ok SOURCE" "list_all text_ok ACCEPT" "list_all text_ok COMMIT" "list_all text_ok LIFECYCLE"
  by (simp_all add: table_defs text_ok_def plain_def code_def)

section \<open>The oracle's rows\<close>

lemma bin_fields:
  "field BIN ''frame_idx'' (emit_bin_row b) = int (ob_frame b)" "field BIN ''bin_idx'' (emit_bin_row b) = int (ob_k b)"
  "field BIN ''real'' (emit_bin_row b) = ob_re b" "field BIN ''imag'' (emit_bin_row b) = ob_im b"
  "field BIN ''mag2'' (emit_bin_row b) = ob_mag2 b" "field BIN ''eligible'' (emit_bin_row b) = of_bool (ob_eligible b)"
  "field BIN ''pre_mask'' (emit_bin_row b) = of_bool (ob_pre b)" "field BIN ''mask'' (emit_bin_row b) = of_bool (ob_mask b)"
  by (simp_all add: field_def BIN_def emit_bin_row_def)

lemma run_frames_nth:
  "run_frames samples thr window fwd ivt cfg frame taus c = Inr (fs, d) \<Longrightarrow> i < length taus \<Longrightarrow>
   run_frame samples thr window fwd ivt cfg (frame + i) (taus ! i) = Inr (fs ! i)"
proof (induction samples thr window fwd ivt cfg frame taus c arbitrary: fs d i rule: run_frames.induct)
  case (2 samples thr window fwd ivt cfg frame tau taus c)
  then show ?case by (cases i) (auto simp: rbind_Inr_iff)
qed simp

lemma run_frame_facts:
  assumes "run_frame samples thr window fwd ivt Config frame tau = Inr f"
  shows "\<exists>can. length can = 256 \<and> of_bins f = mask_bins can thr frame Config \<and> of_stats f = mask_stats Config (of_bins f)"
    and "length (of_ifft f) = 256" "list_all (fits_width 36) (of_ifft f)"
proof -
  from assms obtain raw can bins stats masked time where can: "canonical raw Config = Inr can"
    and mask: "mask_spectrum can thr frame Config = Inr (bins, stats, masked)" and inv: "transform masked ivt True Config = Inr time"
    and f: "of_bins f = bins" "of_stats f = stats" "of_ifft f = time"
    by (auto simp: run_frame_def Let_def rbind_Inr_iff)
  have "length can = 256" using canonical_hermitian [OF can] by (simp add: hermitian_def Config_def)
  then show "\<exists>can. length can = 256 \<and> of_bins f = mask_bins can thr frame Config \<and> of_stats f = mask_stats Config (of_bins f)"
    using mask f by (intro exI [of _ can]) (auto simp: mask_spectrum_def Let_def split: if_splits)
  have "length time = oc_L Config \<and> list_all (fits_width 36) time"
    using inv recurse_fits [of True Config ivt masked time 8]
    by (auto simp: transform_def Let_def rbind_Inr_iff Config_def split: if_splits)
  then show "length (of_ifft f) = 256" "list_all (fits_width 36) (of_ifft f)" by (simp_all add: f Config_def)
qed

lemma mask_bins_map:
  "length can = 256 \<Longrightarrow> mask_bins can thr frame Config = map (\<lambda>k. make_bin thr frame k (can ! k)) [0..<129]"
  by (rule nth_equalityI) (simp_all add: mask_bins_def Config_def)

lemma weights_nth: "k < 129 \<Longrightarrow> unique_weights ! k = bin_weight Config k"
  by (simp add: unique_weights_def bin_weight_def Config_def)

lemma make_bin_emit:
  "ob_frame (make_bin thr frame k v) = frame" "ob_re (make_bin thr frame k v) = fst v" "ob_im (make_bin thr frame k v) = snd v"
  by (simp_all add: make_bin_def Let_def split: prod.splits)

text \<open>The checker's totals, recomputed from the rows of a frame, are the statistics the oracle recorded.\<close>

lemma derived_totals_oracle:
  assumes "length can = 256" "bins = mask_bins can thr frame Config"
  shows "derived_totals (map emit_bin_row bins) = stats_list (mask_stats Config bins)"
proof -
  define b where "b = (\<lambda>k. make_bin thr frame k (can ! k))"
  have bins: "bins = map b [0..<129]" using assms by (simp add: mask_bins_map b_def)
  have k: "ob_k (b i) = i" for i by (simp add: b_def make_bin_fields)
  have "length unique_weights = 129" by (simp add: unique_weights_def)
  then have z: "zip unique_weights (map emit_bin_row bins) = map (\<lambda>i. (bin_weight Config i, emit_bin_row (b i))) [0..<129]"
    by (intro nth_equalityI) (simp_all add: bins weights_nth)
  show ?thesis
    unfolding derived_totals_def Let_def z
    by (auto simp: stats_list_def mask_stats_def bins comp_def bin_fields k simp del: upt_conv_Cons intro!: arg_cong [where f = sum_list] map_cong)
qed

lemma run_metric_fields:
  assumes "run samples thr window fwd ivt Config = Inr r"
  shows "or_totals r = foldl (map2 (+)) (replicate 6 0) (map (\<lambda>f. stats_list (of_stats f)) (or_frames r))"
    "or_sum_abs_err r = sum_list (map abs (error_list samples (or_y r)))"
    "or_sum_sq_err r = sum_list (map (\<lambda>e. e * e) (error_list samples (or_y r)))"
    "or_max_abs_err r = foldl max 0 (map abs (error_list samples (or_y r)))"
proof -
  have delay: "source_at samples (int i - 384) = delayed_input samples i" for i
    by (auto simp: source_at_def delayed_input_def nat_diff_distrib)
  from assms obtain fs and c :: "nat \<Rightarrow> int" and ny and ys where
    y: "ys = map (\<lambda>n. saturated (rounded (c n) (oc_F Config)) (oc_N Config)) [0..<ny]" and
    r: "or_y r = ys" "or_frames r = fs"
      "or_totals r = foldl (map2 (+)) (replicate 6 0) (map (\<lambda>f. stats_list (of_stats f)) fs)"
      "or_sum_abs_err r = sum_list (map abs (map (\<lambda>n. source_at samples (int n - int (oc_D Config)) - ys ! n) [0..<ny]))"
      "or_sum_sq_err r = sum_list (map (\<lambda>e. e * e) (map (\<lambda>n. source_at samples (int n - int (oc_D Config)) - ys ! n) [0..<ny]))"
      "or_max_abs_err r = foldl max 0 (map abs (map (\<lambda>n. source_at samples (int n - int (oc_D Config)) - ys ! n) [0..<ny]))"
    unfolding run_def Let_def by (auto simp: rbind_Inr_iff split: if_splits)
  have "length ys = ny" by (simp add: y)
  then have e: "map (\<lambda>n. source_at samples (int n - int (oc_D Config)) - ys ! n) [0..<ny] = error_list samples (or_y r)"
    by (simp add: error_list_def r(1) delay Config_def)
  show "or_totals r = foldl (map2 (+)) (replicate 6 0) (map (\<lambda>f. stats_list (of_stats f)) (or_frames r))"
    using r(2,3) by simp
  show "or_sum_abs_err r = sum_list (map abs (error_list samples (or_y r)))"
    "or_sum_sq_err r = sum_list (map (\<lambda>e. e * e) (error_list samples (or_y r)))"
    "or_max_abs_err r = foldl max 0 (map abs (error_list samples (or_y r)))"
    using r(4-6) unfolding e by simp_all
qed

lemma foldl_totals:
  "length acc = 6 \<Longrightarrow> list_all (\<lambda>l. length l = 6) ls \<Longrightarrow>
   foldl (map2 (+)) acc ls = map (\<lambda>j. acc ! j + (\<Sum>l\<leftarrow>ls. l ! j)) [0..<6]" for acc :: "int list"
proof (induction ls arbitrary: acc)
  case Nil
  then show ?case by (auto intro: nth_equalityI)
next
  case (Cons l ls)
  then have "foldl (map2 (+)) acc (l # ls) = map (\<lambda>j. map2 (+) acc l ! j + (\<Sum>l\<leftarrow>ls. l ! j)) [0..<6]" by simp
  also have "\<dots> = map (\<lambda>j. acc ! j + (\<Sum>l\<leftarrow>l # ls. l ! j)) [0..<6]"
    using Cons.prems by (intro map_cong) auto
  finally show ?case .
qed

lemma foldl_max: "foldl max (m :: int) xs = Max (insert m (set xs))"
proof -
  have "foldl max m xs = fold max xs m" by (simp add: foldl_conv_fold max.commute)
  then show ?thesis using Max.set_eq_fold [of m xs] by simp
qed

lemma frame_row_fields:
  "map (\<lambda>k. field FRAME k (CInt i # map CInt (stats_list st))) (drop 1 FRAME) = stats_list st"
  "field FRAME ''frame_idx'' (CInt i # map CInt (stats_list st)) = i"
  by (simp_all add: field_def FRAME_def stats_list_def)

lemma or_totals_cols:
  assumes "run samples thr window fwd ivt Config = Inr r"
  shows "or_totals r = map (\<lambda>j. \<Sum>f\<leftarrow>or_frames r. stats_list (of_stats f) ! j) [0..<6]"
proof -
  have len: "length (stats_list st) = 6" for st by (simp add: stats_list_def)
  show ?thesis
    using run_metric_fields(1) [OF assms] foldl_totals [of "replicate 6 0" "map (\<lambda>f. stats_list (of_stats f)) (or_frames r)"]
    by (simp add: len list_all_iff comp_def)
qed

lemma calculated_oracle:
  assumes "run samples thr window fwd ivt Config = Inr r" "or_y r \<noteq> []"
  shows "calculated_metrics (emit_frame_rows r) (error_list samples (or_y r)) (int (or_ny r)) = run_metrics r"
proof -
  define fs where "fs = or_frames r"
  have col: "(\<Sum>x\<leftarrow>emit_frame_rows r. field FRAME k x) = (\<Sum>f\<leftarrow>fs. field FRAME k (CInt 0 # map CInt (stats_list (of_stats f))))"
    if "k \<in> set (drop 1 FRAME)" for k
  proof -
    have "map (field FRAME k) (emit_frame_rows r) = map (\<lambda>f. field FRAME k (CInt 0 # map CInt (stats_list (of_stats f)))) fs"
      using that by (auto simp: emit_frame_rows_def fs_def FRAME_def field_def stats_list_def intro!: nth_equalityI)
    then show ?thesis by simp
  qed
  have "or_totals r = map (\<lambda>j. \<Sum>f\<leftarrow>fs. stats_list (of_stats f) ! j) [0..<6]"
    using or_totals_cols [OF assms(1)] by (simp add: fs_def)
  also have "\<dots> = map (\<lambda>k. \<Sum>f\<leftarrow>fs. field FRAME k (CInt 0 # map CInt (stats_list (of_stats f)))) (drop 1 FRAME)"
    by (simp add: FRAME_def field_def stats_list_def upt_rec)
  also have "\<dots> = map (\<lambda>k. \<Sum>x\<leftarrow>emit_frame_rows r. field FRAME k x) (drop 1 FRAME)"
    using col by (intro map_cong) simp_all
  finally have tot: "or_totals r = \<dots>" .
  have ne: "set (map abs (error_list samples (or_y r))) \<noteq> {}" using assms(2) by (simp add: error_list_def)
  have "foldl max 0 (map abs (error_list samples (or_y r))) = Max (insert 0 (set (map abs (error_list samples (or_y r)))))"
    by (rule foldl_max)
  also have "\<dots> = Max (set (map abs (error_list samples (or_y r))))"
  proof -
    have "0 \<le> Max (set (map abs (error_list samples (or_y r))))" using ne by (auto simp: Max_ge_iff ex_in_conv)
    then show ?thesis using ne by (simp add: Max_insert)
  qed
  finally show ?thesis
    using run_metric_fields [OF assms(1)] tot by (simp add: calculated_metrics_def run_metrics_def)
qed

lemma run_frame_at:
  assumes "run samples thr window fwd ivt cfg = Inr r" "i < length (or_frames r)"
  shows "\<exists>tau. run_frame samples thr window fwd ivt cfg i tau = Inr (or_frames r ! i)"
  using assms(1)
proof (rule run_cases)
  fix fs c
  assume "run_frames samples thr window fwd ivt cfg 0 (or_taus r) (\<lambda>_. 0) = Inr (fs, c)" "or_frames r = fs"
  then show ?thesis
    using run_frames_nth [of samples thr window fwd ivt cfg 0 "or_taus r" _ fs c i] run_frames_length assms(2) by fastforce
qed

text \<open>One frame of a run: its bins, its statistics and its transform samples.\<close>

lemma frame_facts:
  assumes "run samples thr window fwd ivt Config = Inr r" "i < length (or_frames r)"
  obtains can where "length can = 256" "of_bins (or_frames r ! i) = map (\<lambda>k. make_bin thr i k (can ! k)) [0..<129]"
    "of_bins (or_frames r ! i) = mask_bins can thr i Config" "of_stats (or_frames r ! i) = mask_stats Config (of_bins (or_frames r ! i))"
    "length (of_ifft (or_frames r ! i)) = 256" "list_all (fits_width 36) (of_ifft (or_frames r ! i))"
proof -
  obtain tau where "run_frame samples thr window fwd ivt Config i tau = Inr (or_frames r ! i)"
    using run_frame_at [OF assms] ..
  note f = run_frame_facts [OF this]
  from f(1) obtain can where "length can = 256" "of_bins (or_frames r ! i) = mask_bins can thr i Config"
    "of_stats (or_frames r ! i) = mask_stats Config (of_bins (or_frames r ! i))" by blast
  with f(2,3) mask_bins_map that show thesis by metis
qed

lemma stats_list_nonneg:
  assumes "st = mask_stats Config (mask_bins can thr i Config)"
  shows "list_all (\<lambda>v. 0 \<le> v) (stats_list st)"
proof -
  have "0 \<le> os_unique_suppressed_bins st" by (auto simp: assms mask_stats_def intro!: sum_list_weighted_nonneg)
  then show ?thesis
    using mask_stats_ordered [of Config can thr i] by (simp add: assms stats_list_def)
qed

lemma frame_table_ok:
  assumes "run samples thr window fwd ivt Config = Inr r"
  shows "table_ok FRAME [] (emit_frame_rows r)"
proof -
  have "row_ok FRAME [] row \<and> list_all (\<lambda>c. case c of CText s \<Rightarrow> text_ok s | CInt v \<Rightarrow> True) row"
    if row: "row \<in> set (emit_frame_rows r)" for row
  proof -
    obtain i where i: "i < length (or_frames r)" "row = CInt (int i) # map CInt (stats_list (of_stats (or_frames r ! i)))"
      using row by (auto simp: emit_frame_rows_def in_set_zip)
    have "list_all (\<lambda>v. 0 \<le> v) (stats_list (of_stats (or_frames r ! i)))"
      using assms i(1) by (rule frame_facts) (metis stats_list_nonneg)
    then show ?thesis using i(2) by (simp add: row_ok_def FRAME_def stats_list_def cell_ok_def)
  qed
  then show ?thesis using header_ok(1) by (simp add: table_ok_def list_all_iff) (simp add: FRAME_def)
qed

lemma bin_table_ok:
  assumes "run samples thr window fwd ivt Config = Inr r"
  shows "table_ok BIN [] (emit_bin_rows r)"
proof -
  have "row_ok BIN [] row \<and> list_all (\<lambda>c. case c of CText s \<Rightarrow> text_ok s | CInt v \<Rightarrow> True) row"
    if row: "row \<in> set (emit_bin_rows r)" for row
  proof -
    obtain i b where i: "i < length (or_frames r)" "b \<in> set (of_bins (or_frames r ! i))" "row = emit_bin_row b"
      using row by (fastforce simp: emit_bin_rows_def in_set_conv_nth [of _ "or_frames r"])
    have "0 \<le> ob_mag2 b"
      using assms i(1) by (rule frame_facts) (use i(2) in_mask_bins in metis)
    then show ?thesis using i(3) by (simp add: row_ok_def BIN_def emit_bin_row_def cell_ok_def SIGNED_def)
  qed
  then show ?thesis using header_ok(2) by (simp add: table_ok_def list_all_iff) (simp add: BIN_def)
qed

lemma ifft_table_ok: "table_ok IFFT [] (emit_ifft_rows r)"
proof -
  have "row_ok IFFT [] row \<and> list_all (\<lambda>c. case c of CText s \<Rightarrow> text_ok s | CInt v \<Rightarrow> True) row"
    if "row \<in> set (emit_ifft_rows r)" for row
    using that by (auto simp: emit_ifft_rows_def row_ok_def IFFT_def cell_ok_def SIGNED_def)
  then show ?thesis using header_ok(3) by (simp add: table_ok_def list_all_iff) (simp add: IFFT_def)
qed

lemma length_memh_text: "length (memh_text vs) = 4 * length vs"
  by (induction vs) (simp_all add: memh_text_def)

lemma memh_text_inj:
  assumes "memh_text xs = memh_text ys" "list_all sample_range xs" "list_all sample_range ys"
  shows "xs = ys"
proof (cases "xs = []")
  case True
  then show ?thesis using arg_cong [OF assms(1), of length] by (simp add: length_memh_text)
next
  case False
  have "length xs = length ys" using arg_cong [OF assms(1), of length] by (simp add: length_memh_text)
  moreover from this False have "ys \<noteq> []" by auto
  ultimately show ?thesis
    using assms False by (intro cmemh.enc_inj [of xs "length xs" ys]) simp_all
qed

lemma run_samples_range:
  assumes "run samples thr window fwd ivt Config = Inr r"
  shows "samples \<noteq> []" "list_all sample_range samples"
proof -
  have rmap: "rmapM (\<lambda>s. fit s 12) samples = Inr us \<Longrightarrow> list_all sample_range samples" for us
    by (auto simp: rmapM_Inr_iff list_all2_conv_all_nth list_all_length fit_Inr sample_range_def)
  from assms show "samples \<noteq> []" "list_all sample_range samples"
    by (auto simp: run_def rbind_Inr_iff Let_def Config_def split: if_splits dest: rmap)
qed

lemma run_shape:
  assumes "run samples thr window fwd ivt Config = Inr r" "hann_support Config window"
  defines "nf \<equiv> (length samples + 254) div 128"
  shows "length (or_frames r) = nf" "length (or_taus r) = nf" "last (or_taus r) = nf * 128" "or_ny r = nf * 128 + 384" "0 < nf"
    "length (or_y r) = or_ny r" "list_all sample_range (or_y r)" "or_samples r = length samples"
proof -
  note f = run_geometry_facts [OF assms(1,2), simplified Config_def, simplified]
  show "length (or_frames r) = nf" "length (or_taus r) = nf" "or_ny r = nf * 128 + 384" "0 < nf" "length (or_y r) = or_ny r"
    "list_all sample_range (or_y r)"
    using f by (auto simp: nf_def list_all_iff sample_range_def simp del: upt_Suc)
  then show "last (or_taus r) = nf * 128" using f by (simp add: nf_def last_map del: upt_Suc)
  show "or_samples r = length samples" using assms(1) by (rule run_cases)
qed

lemma length_emit:
  assumes "run samples thr window fwd ivt Config = Inr r"
  shows "length (emit_frame_rows r) = length (or_frames r)"
    "length (emit_bin_rows r) = length (or_frames r) * 129" "length (emit_ifft_rows r) = length (or_frames r) * 256"
proof -
  have "length (of_bins f) = 129" if f: "f \<in> set (or_frames r)" for f
  proof -
    obtain i where i: "i < length (or_frames r)" "f = or_frames r ! i" using f by (auto simp: in_set_conv_nth)
    show ?thesis using assms i(1) by (rule frame_facts) (simp add: i(2))
  qed
  then have "sum_list (map (\<lambda>f. length (of_bins f)) (or_frames r)) = sum_list (map (\<lambda>_. 129) (or_frames r))"
    by (intro arg_cong [where f = sum_list] map_cong) simp_all
  then show "length (emit_bin_rows r) = length (or_frames r) * 129"
    by (simp only: emit_bin_rows_def length_concat map_map comp_def length_map sum_list_triv of_nat_id)
  show "length (emit_frame_rows r) = length (or_frames r)" by (simp add: emit_frame_rows_def)
  show "length (emit_ifft_rows r) = length (or_frames r) * 256"
    by (simp add: emit_ifft_rows_def length_concat comp_def case_prod_unfold sum_list_triv)
qed

lemma read_csv_rows:
  assumes "read_csv env area name header (length rows) [] = Inr rows'" "cap_read env area name = Inr (csv_canonical header rows)"
    "table_ok header [] rows"
  shows "rows' = rows"
  using assms(1,2) cap_csv_complete [OF assms(3)] by (auto simp: read_csv_def result_simps)

end
