(* ===== verification/Capture_Exact.thy ===== *)
theory Capture_Exact
  imports Core_Capture
begin

text \<open>
  What the post-check of a core replay establishes. A pass means that the capture is the oracle's output, byte for byte,
  with one causal story in its event logs; composed with the integer oracle and the writer of its files, a passing capture
  is the run of the oracle on the input stream; and every faithful capture passes.
\<close>

section \<open>Consequences of a pass\<close>

text \<open>
  A pass means that the capture is the oracle's output, byte for byte. The geometry is the one of the stream
  length, and the output samples, the frame statistics and the bin statistics of the capture are the very files of
  the oracle; when transform samples were compared, so are they.
\<close>

theorem pass_files_identical:
  assumes "check_capture loads digest env = Inr (PASS r)"
  shows "geometry (ge_ns (cr_geometry r)) = Inr (ge_frames (cr_geometry r), ge_tau (cr_geometry r), ge_ny (cr_geometry r)) \<and>
    (\<exists>y. cap_read env ''capture'' ''y_out.memh'' = Inr y \<and> cap_read env ''oracle'' ''y_out.memh'' = Inr y) \<and>
    (\<exists>f. cap_read env ''capture'' ''frame_stats.csv'' = Inr f \<and> cap_read env ''oracle'' ''frame_stats.csv'' = Inr f) \<and>
    (\<exists>b. cap_read env ''capture'' ''bin_stats.csv'' = Inr b \<and> cap_read env ''oracle'' ''bin_stats.csv'' = Inr b) \<and>
    (cr_residual r = None \<or>
      (\<exists>t. cap_read env ''capture'' ''ifft_samples.csv'' = Inr t \<and> cap_read env ''oracle'' ''ifft_output.csv'' = Inr t))"
  using assms
proof (rule check_capture_PASS)
  fix expected observed g sf el
  assume id: "check_identity env expected observed = Inr g" "cr_geometry r = g"
    and files: "check_files env g = Inr sf" and ifft: "check_ifft env g = Inr (cr_residual r)"
  note f = check_files_Inr [OF files]
  have "geometry (ge_ns g) = Inr (ge_frames g, ge_tau g, ge_ny g)"
    using check_identity_Inr [OF id(1)] by (simp add: geometry_def cm_defs Let_def add.commute)
  moreover have "\<exists>t. cap_read env ''capture'' ''ifft_samples.csv'' = Inr t \<and> cap_read env ''oracle'' ''ifft_output.csv'' = Inr t"
    if some: "cr_residual r = Some res" for res
    using ifft unfolding some by (rule check_ifft_Inr) (auto dest: read_csv_Inr(1))
  ultimately show ?thesis
    using f(2,3) read_csv_Inr(1) [OF f(4)] read_csv_Inr(1) [OF f(5)] read_csv_Inr(1) [OF f(6)] read_csv_Inr(1) [OF f(7)] id(2)
    by (cases "cr_residual r") (auto simp: read_image_Inr)
qed

text \<open>
  C12: The event logs of a passing capture tell one causal story. Every source word is the input sample or the zero of the
  flush and the drain, every accepted and every committed output is the sample of the output file, and the
  committed error is the delayed input minus the output. The start precedes everything and the completion follows
  everything; in each log the cycles strictly increase; each commit precedes the public acceptance of the same
  sample, and an input sample was accepted before the commit that uses it.
\<close>

theorem pass_events_causal:
  assumes "check_capture loads digest env = Inr (PASS r)"
  defines "n \<equiv> nat (ge_ny (cr_geometry r))"
  shows "\<exists>x y source accepts commits.
    read_image env ''input'' [] (nat (ge_ns (cr_geometry r))) = Inr x \<and> read_image env ''capture'' ''y_out.memh'' n = Inr y \<and>
    read_csv env ''capture'' ''source_accepts.csv'' SOURCE n [''phase''] = Inr source \<and>
    read_csv env ''capture'' ''y_accepts.csv'' ACCEPT n [] = Inr accepts \<and>
    read_csv env ''capture'' ''sample_commits.csv'' COMMIT n [] = Inr commits \<and>
    map (field SOURCE ''data'') source = x @ replicate (n - length x) 0 \<and>
    map (field ACCEPT ''y_out'') accepts = y \<and> map (field COMMIT ''y_out'') commits = y \<and>
    map (field COMMIT ''error_i16'') commits = map (\<lambda>i. delayed_input x i - y ! i) [0..<n] \<and>
    (\<forall>i < n. cr_start_cycle r < field SOURCE ''cycle'' (source ! i) \<and> field SOURCE ''cycle'' (source ! i) < cr_done_cycle r \<and>
       cr_start_cycle r < field COMMIT ''cycle'' (commits ! i) \<and>
       field COMMIT ''cycle'' (commits ! i) < field ACCEPT ''cycle'' (accepts ! i) \<and>
       field ACCEPT ''cycle'' (accepts ! i) < cr_done_cycle r) \<and>
    (\<forall>i j. i < j \<and> j < n \<longrightarrow> field SOURCE ''cycle'' (source ! i) < field SOURCE ''cycle'' (source ! j) \<and>
       field COMMIT ''cycle'' (commits ! i) < field COMMIT ''cycle'' (commits ! j) \<and>
       field ACCEPT ''cycle'' (accepts ! i) < field ACCEPT ''cycle'' (accepts ! j)) \<and>
    (\<forall>i < length x. field SOURCE ''cycle'' (source ! i) < field COMMIT ''cycle'' (commits ! (i + 384)))"
  using assms(1)
proof (rule check_capture_PASS)
  fix expected observed g sf el
  assume id: "check_identity env expected observed = Inr g" "cr_geometry r = g"
    and files: "check_files env g = Inr sf" and events: "check_events env g sf = Inr el"
    and cyc: "cr_start_cycle r = field LIFECYCLE ''cycle'' (el_start el)" "cr_done_cycle r = field LIFECYCLE ''cycle'' (el_done el)"
  note f = check_files_Inr [OF files]
  have n: "n = nat (ge_ny g)" by (simp add: n_def id(2))
  have y: "length (sf_y sf) = n" "length (sf_x sf) = nat (ge_ns g)" using f(1,3) by (simp_all add: read_image_Inr n)
  note e = check_events_Inr [OF events y(1) [unfolded n]]
  note len = read_csv_Inr(2) [OF e(1)] read_csv_Inr(2) [OF e(2)] read_csv_Inr(2) [OF e(3)]
  have xs: "length (sf_x sf) + 384 \<le> n" "0 < n"
    using check_identity_Inr [OF id(1)] y(2) tail_flush [of "ge_ns g"] unfolding n by simp_all
  have ev: "capture_event_ok g (sf_x sf) (sf_y sf) (el_source el) (el_accepts el) (el_commits el) i" if "i < n" for i
    using that e(8) n by simp
  have src: "map (field SOURCE ''data'') (el_source el) = sf_x sf @ replicate (n - length (sf_x sf)) 0"
  proof (rule nth_equalityI)
    show "length (map (field SOURCE ''data'') (el_source el)) = length (sf_x sf @ replicate (n - length (sf_x sf)) 0)"
      using len(1) xs by (simp add: n)
    fix i assume "i < length (map (field SOURCE ''data'') (el_source el))"
    then have "i < n" using len(1) by (simp add: n)
    with ev [OF this] len(1) show "map (field SOURCE ''data'') (el_source el) ! i = (sf_x sf @ replicate (n - length (sf_x sf)) 0) ! i"
      by (simp add: capture_event_ok_def nth_append n)
  qed
  have vals: "map (field ACCEPT ''y_out'') (el_accepts el) = sf_y sf" "map (field COMMIT ''y_out'') (el_commits el) = sf_y sf"
    "map (field COMMIT ''error_i16'') (el_commits el) = map (\<lambda>i. delayed_input (sf_x sf) i - sf_y sf ! i) [0..<n]"
    using ev len y(1) by (auto simp: n capture_event_ok_def intro!: nth_equalityI)
  have ends: "cr_start_cycle r < field SOURCE ''cycle'' (el_source el ! i)" "field SOURCE ''cycle'' (el_source el ! i) < cr_done_cycle r"
    "cr_start_cycle r < field COMMIT ''cycle'' (el_commits el ! i)" "field ACCEPT ''cycle'' (el_accepts el ! i) < cr_done_cycle r"
    if "i < n" for i
    using that increasing_log_ends [OF e(5), of i] increasing_log_ends [OF e(6), of i] increasing_log_ends [OF e(7), of i] len e(9)
    by (auto simp: n lifecycle_ok_def cyc)
  have later: "field SOURCE ''cycle'' (el_source el ! i) < field COMMIT ''cycle'' (el_commits el ! (i + 384))"
    if "i < length (sf_x sf)" for i
    using that ev [of "i + 384"] xs by (simp add: capture_event_ok_def)
  show ?thesis
    using f(1,3) e(1-3) src vals ends later ev len increasing_log_nth [OF e(5)] increasing_log_nth [OF e(6)] increasing_log_nth [OF e(7)]
    by (intro exI [of _ "sf_x sf"] exI [of _ "sf_y sf"] exI [of _ "el_source el"] exI [of _ "el_accepts el"] exI [of _ "el_commits el"])
      (simp add: n id(2) capture_event_ok_def)
qed

section \<open>A passing capture is the oracle's run\<close>

lemma check_totals_Inr: "check_totals expected observed g sf = Inr m \<Longrightarrow>
    m = calculated_metrics (sf_frames sf) (error_list (sf_x sf) (sf_y sf)) (ge_ny g)"
  by (auto simp: check_totals_def Let_def result_simps)

lemma pass_oracle_facts:
  assumes run: "run samples thr window fwd ivt Config = Inr rr" and hann: "hann_support Config window"
    and orcl: "\<And>name text. emit_oracle dumps rr name = Some text \<Longrightarrow> cap_read env ''oracle'' name = Inr text"
    and inp: "cap_read env ''input'' [] = Inr (memh_text samples)"
    and pass: "check_capture loads digest env = Inr (PASS r)"
  shows "cr_geometry r = \<lparr> ge_ns = int (length samples), ge_frames = int (length (or_frames rr)),
      ge_tau = int (last (or_taus rr)), ge_ny = int (or_ny rr) \<rparr>"
    "cr_metrics r = run_metrics rr"
    "cap_read env ''capture'' ''y_out.memh'' = Inr (memh_text (or_y rr))"
    "cap_read env ''capture'' ''frame_stats.csv'' = Inr (csv_canonical FRAME (emit_frame_rows rr))"
    "cap_read env ''capture'' ''bin_stats.csv'' = Inr (csv_canonical BIN (emit_bin_rows rr))"
    "\<exists>accepts. read_csv env ''capture'' ''y_accepts.csv'' ACCEPT (or_ny rr) [] = Inr accepts \<and>
       map (field ACCEPT ''y_out'') accepts = or_y rr"
proof -
  obtain expected observed g sf el where id: "check_identity env expected observed = Inr g" "cr_geometry r = g"
    and files: "check_files env g = Inr sf" and tot: "check_totals expected observed g sf = Inr (cr_metrics r)"
    and events: "check_events env g sf = Inr el"
    using pass by (rule check_capture_PASS)
  note f = check_files_Inr [OF files] note shape = run_shape [OF run hann] note rng = run_samples_range [OF run]
  have x: "sf_x sf = samples" using f(1) inp rng memh_text_inj by (auto simp: read_image_Inr)
  then have "nat (ge_ns g) = length samples" using f(1) by (simp add: read_image_Inr)
  then have ge: "ge_ns g = int (length samples)" using check_identity_Inr(1) [OF id(1)] by simp
  then have g: "ge_frames g = int (length (or_frames rr))" "ge_tau g = int (last (or_taus rr))" "ge_ny g = int (or_ny rr)"
    using check_identity_Inr [OF id(1)] shape by (simp_all add: zdiv_int)
  show "cr_geometry r = \<lparr> ge_ns = int (length samples), ge_frames = int (length (or_frames rr)),
      ge_tau = int (last (or_taus rr)), ge_ny = int (or_ny rr) \<rparr>" using ge g id(2) by simp
  have y: "sf_y sf = or_y rr"
    using f(2) orcl [of "''y_out.memh''"] shape(7) memh_text_inj by (auto simp: read_image_Inr emit_oracle_def)
  then show "cap_read env ''capture'' ''y_out.memh'' = Inr (memh_text (or_y rr))" using f(3) by (simp add: read_image_Inr)
  note len = length_emit [OF run]
  have fr: "sf_frames sf = emit_frame_rows rr"
    using f(4) orcl [of "''frame_stats.csv''"] frame_table_ok [OF run] len(1)
    by (intro read_csv_rows [of env "''oracle''" "''frame_stats.csv''" FRAME]) (simp_all add: g emit_oracle_def FRAME_FIELDS_eq)
  have bn: "sf_bins sf = emit_bin_rows rr"
    using f(6) orcl [of "''bin_stats.csv''"] bin_table_ok [OF run] len(2)
    by (intro read_csv_rows [of env "''oracle''" "''bin_stats.csv''" BIN]) (simp_all add: g emit_oracle_def)
  show "cap_read env ''capture'' ''frame_stats.csv'' = Inr (csv_canonical FRAME (emit_frame_rows rr))"
    "cap_read env ''capture'' ''bin_stats.csv'' = Inr (csv_canonical BIN (emit_bin_rows rr))"
    using read_csv_Inr(1) [OF f(5)] read_csv_Inr(1) [OF f(7)] fr bn by simp_all
  have "or_y rr \<noteq> []" using shape(4-6) by (cases "or_y rr") auto
  with check_totals_Inr [OF tot] show "cr_metrics r = run_metrics rr"
    using calculated_oracle [OF run] by (simp add: fr x y g)
  have ny: "length (sf_y sf) = nat (ge_ny g)" using y shape(6) g by simp
  note e = check_events_Inr [OF events ny]
  have "map (field ACCEPT ''y_out'') (el_accepts el) = or_y rr"
    using e(8) read_csv_Inr(2) [OF e(2)] ny by (auto simp: capture_event_ok_def y intro!: nth_equalityI)
  with e(2) show "\<exists>accepts. read_csv env ''capture'' ''y_accepts.csv'' ACCEPT (or_ny rr) [] = Inr accepts \<and>
       map (field ACCEPT ''y_out'') accepts = or_y rr" by (auto simp: g)
qed

text \<open>
  C2: The check is sound against the integer oracle. Let the oracle directory hold what \<^verbatim>\<open>emit_oracle\<close> writes for a run of
  the oracle on a stream, and let the input file hold that stream. If the check passes, then the geometry and the
  ten metrics of the report are those of the run, the capture's files are the run's outputs, frame statistics
  and bin statistics in canonical form, and the sequence of outputs that the design handed over, as logged, is the
  run's output sequence.
\<close>

theorem pass_is_oracle_run:
  assumes "run samples thr window fwd ivt Config = Inr rr" "hann_support Config window"
    "\<And>name text. emit_oracle dumps rr name = Some text \<Longrightarrow> cap_read env ''oracle'' name = Inr text"
    "cap_read env ''input'' [] = Inr (memh_text samples)" "check_capture loads digest env = Inr (PASS r)"
  shows "cr_geometry r = \<lparr> ge_ns = int (length samples), ge_frames = int (length (or_frames rr)),
      ge_tau = int (last (or_taus rr)), ge_ny = int (or_ny rr) \<rparr> \<and>
    cr_metrics r = run_metrics rr \<and>
    cap_read env ''capture'' ''y_out.memh'' = Inr (memh_text (or_y rr)) \<and>
    cap_read env ''capture'' ''frame_stats.csv'' = Inr (csv_canonical FRAME (emit_frame_rows rr)) \<and>
    cap_read env ''capture'' ''bin_stats.csv'' = Inr (csv_canonical BIN (emit_bin_rows rr)) \<and>
    (\<exists>accepts. read_csv env ''capture'' ''y_accepts.csv'' ACCEPT (or_ny rr) [] = Inr accepts \<and>
       map (field ACCEPT ''y_out'') accepts = or_y rr)"
  by (intro conjI pass_oracle_facts [OF assms])

section \<open>Faithful captures pass\<close>

text \<open>The cycles at which a capture logs its events, and the order they must have.\<close>

record cycle_schedule =
  sc_source :: "nat \<Rightarrow> int"
  sc_commit :: "nat \<Rightarrow> int"
  sc_accept :: "nat \<Rightarrow> int"
  sc_start :: int
  sc_done :: int

definition schedule_ok :: "nat \<Rightarrow> nat \<Rightarrow> cycle_schedule \<Rightarrow> bool" where
  "schedule_ok n ns sc \<longleftrightarrow>
     0 < sc_start sc \<and> sc_done sc < 2 ^ 64 \<and>
     (\<forall>i < n. sc_start sc < sc_source sc i \<and> sc_source sc i < sc_done sc \<and>
        sc_start sc < sc_commit sc i \<and> sc_commit sc i < sc_accept sc i \<and> sc_accept sc i < sc_done sc) \<and>
     (\<forall>j < n. \<forall>i < j. sc_source sc i < sc_source sc j \<and> sc_commit sc i < sc_commit sc j \<and> sc_accept sc i < sc_accept sc j) \<and>
     (\<forall>i < ns. sc_source sc i < sc_commit sc (i + 384))"

definition source_rows :: "geom \<Rightarrow> int list \<Rightarrow> cycle_schedule \<Rightarrow> row list" where
  "source_rows g x sc =
     map (\<lambda>i. [CInt (sc_source sc i), CInt (int i), CInt (if i < length x then x ! i else 0), CText (phase_of g i)]) [0..<nat (ge_ny g)]"

definition accept_rows :: "int list \<Rightarrow> cycle_schedule \<Rightarrow> row list" where
  "accept_rows y sc = map (\<lambda>i. [CInt (sc_accept sc i), CInt (int i), CInt (y ! i)]) [0..<length y]"

definition commit_rows :: "int list \<Rightarrow> int list \<Rightarrow> cycle_schedule \<Rightarrow> row list" where
  "commit_rows x y sc =
     map (\<lambda>i. [CInt (sc_commit sc i), CInt (int i), CInt (delayed_input x i), CInt (y ! i), CInt (delayed_input x i - y ! i)]) [0..<length y]"

definition lifecycle_rows :: "geom \<Rightarrow> cycle_schedule \<Rightarrow> row list" where
  "lifecycle_rows g sc =
     [[CInt (sc_start sc), CText ''start'', CInt 0, CInt 0], [CInt (sc_done sc), CText ''done'', CInt (ge_ny g), CInt (ge_ny g)]]"

definition run_geom :: "oracle_run \<Rightarrow> geom" where
  "run_geom rr = \<lparr> ge_ns = int (or_samples rr), ge_frames = int (length (or_frames rr)),
     ge_tau = int (last (or_taus rr)), ge_ny = int (or_ny rr) \<rparr>"

definition observed_doc :: "string \<Rightarrow> oracle_run \<Rightarrow> json" where
  "observed_doc vector rr =
     JObj [(''schema'', JStr ''trecap_phase2_rtl_metrics_observed_v1''), (''vector_name'', JStr vector),
       (''suppression_totals'', metric_group rr 0 4), (''spectral_totals'', metric_group rr 4 2),
       (''time_domain_errors'', metric_group rr 6 4), (''internal_metrics'', metric_group rr 6 4),
       (''counts'', JObj [(''y_rows'', JInt (int (or_ny rr))), (''frame_rows'', JInt (int (length (or_frames rr)))),
          (''bin_rows'', JInt (int (length (or_frames rr)) * 129)), (''done_pulses'', JInt 1)]),
       (''status'', JObj [(''completion_error_sticky'', JInt 0), (''core_overflow_flags'', JStr ''0''),
          (''metric_overflow_sticky'', JInt 0), (''protocol_error_sticky'', JInt 0), (''saturation_sticky'', JInt 0),
          (''top_overflow_flags'', JStr ''0'')])]"

definition faithful_capture :: "(json \<Rightarrow> string) \<Rightarrow> string \<Rightarrow> int list \<Rightarrow> oracle_run \<Rightarrow> cycle_schedule \<Rightarrow> string \<Rightarrow> string option" where
  "faithful_capture dumps vector x rr sc name =
     (if name = ''source_accepts.csv'' then Some (csv_canonical SOURCE (source_rows (run_geom rr) x sc))
      else if name = ''y_accepts.csv'' then Some (csv_canonical ACCEPT (accept_rows (or_y rr) sc))
      else if name = ''sample_commits.csv'' then Some (csv_canonical COMMIT (commit_rows x (or_y rr) sc))
      else if name = ''lifecycle.csv'' then Some (csv_canonical LIFECYCLE (lifecycle_rows (run_geom rr) sc))
      else if name = ''ifft_samples.csv'' then emit_oracle dumps rr ''ifft_output.csv''
      else if name = ''metrics_observed.json'' then Some (dumps (observed_doc vector rr))
      else if name \<in> {''y_out.memh'', ''frame_stats.csv'', ''bin_stats.csv''} then emit_oracle dumps rr name
      else None)"

subsection \<open>The documents\<close>

lemma frame_stats_nonneg:
  assumes "run samples thr window fwd ivt Config = Inr r" "f \<in> set (or_frames r)" "j < 6"
  shows "0 \<le> stats_list (of_stats f) ! j"
proof -
  obtain i where i: "i < length (or_frames r)" "f = or_frames r ! i" using assms(2) by (auto simp: in_set_conv_nth)
  have "list_all (\<lambda>v. 0 \<le> v) (stats_list (of_stats f))"
    using assms(1) i(1) by (rule frame_facts) (metis stats_list_nonneg i(2))
  moreover have "length (stats_list (of_stats f)) = 6" by (simp add: stats_list_def)
  ultimately show ?thesis using assms(3) by (simp add: list_all_length)
qed

lemma run_metrics_list:
  assumes "run samples thr window fwd ivt Config = Inr r"
  obtains m0 m1 m2 m3 m4 m5 m6 m7 m8 m9 where "run_metrics r = [m0, m1, m2, m3, m4, m5, m6, m7, m8, m9]"
    "list_all (\<lambda>v. 0 \<le> v) [m0, m1, m2, m3, m4, m5, m6, m7, m8, m9]"
proof -
  have nn: "list_all (\<lambda>v. 0 \<le> v) (or_totals r)"
    unfolding or_totals_cols [OF assms]
    by (auto simp: list_all_iff intro!: sum_list_weighted_nonneg dest: frame_stats_nonneg [OF assms])
  have "0 \<le> foldl max 0 (xs :: int list)" for xs by (simp add: foldl_max)
  then have rest: "0 \<le> or_sum_abs_err r" "0 \<le> or_sum_sq_err r" "0 \<le> or_max_abs_err r"
    unfolding run_metric_fields(2-4) [OF assms] by (auto intro!: sum_list_weighted_nonneg)
  have "length (or_totals r) = 6" by (simp add: or_totals_cols [OF assms])
  then obtain m0 m1 m2 m3 m4 m5 where "or_totals r = [m0, m1, m2, m3, m4, m5]"
    by (auto simp: length_Suc_conv eval_nat_numeral)
  with nn rest that show thesis by (simp add: run_metrics_def)
qed

lemma number_str: "0 \<le> v \<Longrightarrow> number (JStr (py_str_int v)) label sg = Inr v"
  by (simp add: number_Inr)

lemmas metric_defs = metric_group_def METRIC_NAMES_def GROUPS_def FRAME_def TIME_ERRORS_def jget_def jset_is_def jis_obj_def

lemma cap_metrics_group:
  assumes "run samples thr window fwd ivt Config = Inr rr"
    "jget doc ''suppression_totals'' = Inr (metric_group rr 0 4)" "jget doc ''spectral_totals'' = Inr (metric_group rr 4 2)"
    "jget doc ''time_domain_errors'' = Inr (metric_group rr 6 4)"
  shows "cap_metrics doc label = Inr (run_metrics rr)"
    "rmapM (\<lambda>k. rbind (jget (metric_group rr 6 4) k) (\<lambda>v. number v label False)) TIME_ERRORS = Inr (drop 6 (run_metrics rr))"
    "jset_is (metric_group rr 6 4) TIME_ERRORS = Inr True" "jis_obj (metric_group rr 6 4)"
proof -
  obtain m0 m1 m2 m3 m4 m5 m6 m7 m8 m9 where m: "run_metrics rr = [m0, m1, m2, m3, m4, m5, m6, m7, m8, m9]"
    "list_all (\<lambda>v. 0 \<le> v) [m0, m1, m2, m3, m4, m5, m6, m7, m8, m9]"
    using assms(1) by (rule run_metrics_list)
  define j where "j = (\<lambda>v. JStr (py_str_int v))"
  have g: "metric_group rr 0 4 = JObj [(''unique_bins'', j m0), (''unique_suppressed_bins'', j m1), (''eligible_unique_bins'', j m2),
      (''eligible_suppressed_bins'', j m3)]"
    "metric_group rr 4 2 = JObj [(''eligible_kept_mag2'', j m4), (''eligible_total_mag2'', j m5)]"
    "metric_group rr 6 4 = JObj [(''sum_abs_err'', j m6), (''sum_sq_err'', j m7), (''max_abs_err'', j m8), (''error_sample_count'', j m9)]"
    by (simp_all add: metric_group_def METRIC_NAMES_def m(1) j_def)
  have num: "number (j v) label False = Inr v" if "0 \<le> v" for v using that by (simp add: j_def number_str)
  show "rmapM (\<lambda>k. rbind (jget (metric_group rr 6 4) k) (\<lambda>v. number v label False)) TIME_ERRORS = Inr (drop 6 (run_metrics rr))"
    "jset_is (metric_group rr 6 4) TIME_ERRORS = Inr True" "jis_obj (metric_group rr 6 4)"
    using m(2) by (simp_all add: g m(1) TIME_ERRORS_def jget_def jset_is_def jis_obj_def num)
  show "cap_metrics doc label = Inr (run_metrics rr)"
    using m(2) assms(2-4) by (simp add: cap_metrics_def GROUPS_def FRAME_def TIME_ERRORS_def g m(1) jget_def jset_is_def jis_obj_def num)
qed

lemma hooks_group: "json_hooks label (metric_group rr off n) = Inr ()"
proof -
  define ps where "ps = take n (drop off (zip METRIC_NAMES (map (\<lambda>v. JStr (py_str_int v)) (run_metrics rr))))"
  have "map fst ps = take n (drop off (take (length (run_metrics rr)) METRIC_NAMES))"
    by (simp add: ps_def take_map [symmetric] drop_map [symmetric] map_fst_zip_take min_def)
  moreover have "distinct METRIC_NAMES" by (simp add: METRIC_NAMES_def)
  ultimately have "distinct (map fst ps)" by simp
  moreover have "\<exists>s. snd p = JStr s" if "p \<in> set ps" for p
    using that by (auto simp: ps_def in_set_zip dest!: in_set_takeD in_set_dropD) (metis)
  then have "rmapM (\<lambda>p. json_hooks label (snd p)) ps = Inr (map (\<lambda>_. ()) ps)"
    by (intro rmapM_Inr_map) (metis json_hooks.simps(8))
  ultimately show ?thesis by (simp add: metric_group_def ps_def [symmetric])
qed

lemma hooks_documents: "json_hooks label (emit_metrics rr) = Inr ()" "json_hooks label (observed_doc vector rr) = Inr ()"
  by (simp_all add: emit_metrics_def observed_doc_def emit_geometry_def hooks_group)

lemma strict_documents:
  "loads text = Some (emit_metrics rr) \<Longrightarrow> strict_json loads text label = Inr (emit_metrics rr)"
  "loads text = Some (observed_doc vector rr) \<Longrightarrow> strict_json loads text label = Inr (observed_doc vector rr)"
  by (simp_all add: strict_json_def hooks_documents) (simp_all add: emit_metrics_def observed_doc_def)

subsection \<open>The stages of the check\<close>

lemma identity_passes:
  assumes "run samples thr window fwd ivt Config = Inr rr" "hann_support Config window"
  shows "check_identity env (emit_metrics rr) (observed_doc (ce_case env) rr) = Inr (run_geom rr)"
proof -
  note shape = run_shape [OF assms] note rng = run_samples_range [OF assms(1)]
  have pos: "1 \<le> int (or_samples rr)" "1 \<le> int (length (or_taus rr))" "1 \<le> int (last (or_taus rr))" "1 \<le> int (or_ny rr)"
    using shape rng(1) by (simp_all add: Suc_le_eq)
  have "int (length (or_taus rr)) = (int (or_samples rr) + 254) div 128" "int (last (or_taus rr)) = int (length (or_taus rr)) * 128"
    "int (or_ny rr) = int (last (or_taus rr)) + 384" "length (or_taus rr) = length (or_frames rr)"
    using shape by (simp_all add: zdiv_int)
  moreover have "jget (emit_metrics rr) ''schema'' = Inr (JStr ''trecap_reference_qualification_numeric_metrics_v1'')"
    "jget (emit_metrics rr) ''geometry'' = Inr (emit_geometry rr)"
    "jget (observed_doc (ce_case env) rr) ''schema'' = Inr (JStr ''trecap_phase2_rtl_metrics_observed_v1'')"
    "jget (observed_doc (ce_case env) rr) ''vector_name'' = Inr (JStr (ce_case env))"
    by (simp_all add: emit_metrics_def observed_doc_def jget_def)
  moreover have "jset_is (emit_geometry rr) [''Ns'', ''Nframes'', ''tau_last'', ''Ny''] = Inr True"
    by (auto simp: jset_is_def emit_geometry_def)
  moreover have "rmapM (\<lambda>k. rbind (jget (emit_geometry rr) k) (\<lambda>v. natural v oracle_metrics_file 1)) [''Ns'', ''Nframes'', ''tau_last'', ''Ny''] =
      Inr (map int [or_samples rr, length (or_taus rr), last (or_taus rr), or_ny rr])"
    using pos by (simp add: jget_def emit_geometry_def natural_def)
  ultimately show ?thesis by (simp add: check_identity_def run_geom_def Let_def del: rmapM.simps)
qed

lemma slice_concat:
  "i < length xss \<Longrightarrow> (\<And>xs. xs \<in> set xss \<Longrightarrow> length xs = n) \<Longrightarrow> take n (drop (i * n) (concat xss)) = xss ! i"
proof (induction xss arbitrary: i)
  case (Cons xs xss)
  then have len: "length xs = n" by simp
  show ?case
  proof (cases i)
    case (Suc j)
    have "drop (Suc j * n) (xs @ concat xss) = drop (j * n) (concat xss)" using len by simp
    then show ?thesis using Cons Suc by simp
  qed (simp add: len)
qed simp

lemma map_nth_frames: "(\<And>i. i < length xs \<Longrightarrow> f (xs ! i) = g i) \<Longrightarrow> map f xs = map g [0..<length xs]"
  by (rule nth_equalityI) simp_all

lemma bin_indices:
  assumes "run samples thr window fwd ivt Config = Inr rr"
  shows "map (\<lambda>r. (field BIN ''frame_idx'' r, field BIN ''bin_idx'' r)) (emit_bin_rows rr) =
    concat (map (\<lambda>f. map (\<lambda>k. (int f, int k)) [0..<129]) [0..<length (or_frames rr)])"
proof -
  have "map (\<lambda>f. map (\<lambda>r. (field BIN ''frame_idx'' r, field BIN ''bin_idx'' r)) (map emit_bin_row (of_bins f))) (or_frames rr) =
      map (\<lambda>f. map (\<lambda>k. (int f, int k)) [0..<129]) [0..<length (or_frames rr)]"
  proof (rule map_nth_frames)
    fix i assume i: "i < length (or_frames rr)"
    show "map (\<lambda>r. (field BIN ''frame_idx'' r, field BIN ''bin_idx'' r)) (map emit_bin_row (of_bins (or_frames rr ! i))) =
        map (\<lambda>k. (int i, int k)) [0..<129]"
      using assms i by (rule frame_facts) (simp add: bin_fields make_bin_emit make_bin_fields comp_def)
  qed
  then show ?thesis by (simp add: emit_bin_rows_def map_concat comp_def)
qed

lemma ifft_indices:
  "map (\<lambda>r. (field IFFT ''frame_idx'' r, field IFFT ''offset'' r)) (emit_ifft_rows rr) =
    concat (map (\<lambda>f. map (\<lambda>k. (int f, int k)) [0..<256]) [0..<length (or_frames rr)])"
proof -
  have f: "field IFFT ''frame_idx'' [CInt a, CInt b, CInt c, CInt d] = a" "field IFFT ''offset'' [CInt a, CInt b, CInt c, CInt d] = b" for a b c d
    by (simp_all add: field_def IFFT_def)
  show ?thesis
    by (simp add: emit_ifft_rows_def map_concat comp_def f case_prod_unfold)
      (auto intro!: arg_cong [where f = concat] nth_equalityI)
qed

lemma frame_checks_pass:
  assumes "run samples thr window fwd ivt Config = Inr rr"
  shows "rmapM (check_frame (emit_bin_rows rr)) (zip [0..<length (emit_frame_rows rr)] (emit_frame_rows rr)) =
    Inr (map (\<lambda>_. ()) (zip [0..<length (emit_frame_rows rr)] (emit_frame_rows rr)))"
proof (rule rmapM_Inr_map)
  fix p assume "p \<in> set (zip [0..<length (emit_frame_rows rr)] (emit_frame_rows rr))"
  then obtain i where i: "i < length (or_frames rr)" "p = (i, emit_frame_rows rr ! i)"
    by (auto simp: in_set_zip emit_frame_rows_def)
  obtain can where can: "length can = 256" "of_bins (or_frames rr ! i) = map (\<lambda>k. make_bin thr i k (can ! k)) [0..<129]"
    "of_bins (or_frames rr ! i) = mask_bins can thr i Config" "of_stats (or_frames rr ! i) = mask_stats Config (of_bins (or_frames rr ! i))"
    using assms i(1) by (rule frame_facts)
  have "take 129 (drop (i * 129) (emit_bin_rows rr)) = map emit_bin_row (of_bins (or_frames rr ! i))"
    unfolding emit_bin_rows_def using i(1)
  proof (subst slice_concat)
    fix xs assume "xs \<in> set (map (\<lambda>f. map emit_bin_row (of_bins f)) (or_frames rr))"
    then obtain j where j: "j < length (or_frames rr)" "xs = map emit_bin_row (of_bins (or_frames rr ! j))"
      by (auto simp: in_set_conv_nth)
    show "length xs = 129" using assms j(1) by (rule frame_facts) (simp add: j(2))
  qed simp_all
  moreover have "map (\<lambda>k. field FRAME k (emit_frame_rows rr ! i)) (drop 1 FRAME) = stats_list (of_stats (or_frames rr ! i))"
    using i(1) frame_row_fields(1) [of "int i"] by (simp add: emit_frame_rows_def)
  moreover have "derived_totals (map emit_bin_row (of_bins (or_frames rr ! i))) = stats_list (of_stats (or_frames rr ! i))"
    using derived_totals_oracle [OF can(1,3)] can(4) by simp
  moreover have "list_all (\<lambda>b. list_all (\<lambda>k. field BIN k b \<in> {0, 1}) [''eligible'', ''pre_mask'', ''mask'']) (map emit_bin_row (of_bins (or_frames rr ! i)))"
    by (simp add: list_all_iff bin_fields)
  moreover have "list_all (\<lambda>b. field BIN ''mag2'' b = field BIN ''real'' b ^ 2 + field BIN ''imag'' b ^ 2) (map emit_bin_row (of_bins (or_frames rr ! i)))"
    by (simp add: list_all_iff can(2) bin_fields make_bin_fields make_bin_emit mag2_def power2_eq_square)
  ultimately show "check_frame (emit_bin_rows rr) p = Inr ()"
    by (simp add: check_frame_def i(2) need_def)
qed

lemma read_csv_passes:
  assumes "cap_read env area name = Inr (csv_canonical header rows)" "table_ok header tf rows" "n = length rows"
  shows "read_csv env area name header n tf = Inr rows"
  using assms cap_csv_complete [OF assms(2)] by (simp add: read_csv_def)

definition run_files :: "int list \<Rightarrow> oracle_run \<Rightarrow> static_files" where
  "run_files samples rr =
     \<lparr> sf_x = samples, sf_y = or_y rr, sf_frames = emit_frame_rows rr, sf_bins = emit_bin_rows rr \<rparr>"

lemma files_pass:
  assumes run: "run samples thr window fwd ivt Config = Inr rr" and hann: "hann_support Config window"
    and orcl: "\<And>name text. emit_oracle dumps rr name = Some text \<Longrightarrow> cap_read env ''oracle'' name = Inr text"
    and capt: "\<And>name text. faithful_capture dumps vector samples rr sc name = Some text \<Longrightarrow> cap_read env ''capture'' name = Inr text"
    and inp: "cap_read env ''input'' [] = Inr (memh_text samples)"
  shows "check_files env (run_geom rr) = Inr (run_files samples rr)"
proof -
  note shape = run_shape [OF run hann] note rng = run_samples_range [OF run] note len = length_emit [OF run]
  have ne: "or_y rr \<noteq> []" using shape(4-6) by (cases "or_y rr") auto
  have y: "cap_read env ''oracle'' ''y_out.memh'' = Inr (memh_text (or_y rr))" "cap_read env ''capture'' ''y_out.memh'' = Inr (memh_text (or_y rr))"
    using orcl [of "''y_out.memh''"] capt [of "''y_out.memh''"] by (simp_all add: emit_oracle_def faithful_capture_def)
  have f: "read_csv env ''oracle'' ''frame_stats.csv'' FRAME (length (or_frames rr)) [] = Inr (emit_frame_rows rr)"
    "read_csv env ''capture'' ''frame_stats.csv'' FRAME (length (or_frames rr)) [] = Inr (emit_frame_rows rr)"
    using orcl [of "''frame_stats.csv''"] capt [of "''frame_stats.csv''"] frame_table_ok [OF run] len(1)
    by (auto simp: emit_oracle_def faithful_capture_def FRAME_FIELDS_eq intro!: read_csv_passes)
  have b: "read_csv env ''oracle'' ''bin_stats.csv'' BIN (length (or_frames rr) * 129) [] = Inr (emit_bin_rows rr)"
    "read_csv env ''capture'' ''bin_stats.csv'' BIN (length (or_frames rr) * 129) [] = Inr (emit_bin_rows rr)"
    using orcl [of "''bin_stats.csv''"] capt [of "''bin_stats.csv''"] bin_table_ok [OF run] len(2)
    by (auto simp: emit_oracle_def faithful_capture_def intro!: read_csv_passes)
  have im: "read_image env ''input'' [] (length samples) = Inr samples" "read_image env ''oracle'' ''y_out.memh'' (or_ny rr) = Inr (or_y rr)"
    "read_image env ''capture'' ''y_out.memh'' (or_ny rr) = Inr (or_y rr)"
    using y inp rng shape(6,7) ne by (simp_all add: read_image_Inr)
  have match': "match_rows xs xs label = Inr ()" for xs :: "row list" and label by (simp add: match_rows_Inr)
  have idx: "map (field FRAME ''frame_idx'') (emit_frame_rows rr) = map int [0..<length (or_frames rr)]"
    by (rule nth_equalityI) (simp_all add: emit_frame_rows_def frame_row_fields)
  have my: "match_rows (or_y rr) (or_y rr) label = Inr ()" for label by (simp add: match_rows_Inr)
  show ?thesis
    using im f b idx bin_indices [OF run] shape(8)
    by (simp add: check_files_def run_geom_def run_files_def my match' del: upt_Suc map_eq_conv)
qed

lemma status_passes: "check_status (observed_doc vector rr) (run_geom rr) = Inr ()"
proof -
  have j: "jget (observed_doc vector rr) ''counts'' = Inr (JObj [(''y_rows'', JInt (int (or_ny rr))), (''frame_rows'', JInt (int (length (or_frames rr)))),
          (''bin_rows'', JInt (int (length (or_frames rr)) * 129)), (''done_pulses'', JInt 1)])"
    "jget (observed_doc vector rr) ''status'' = Inr (JObj [(''completion_error_sticky'', JInt 0), (''core_overflow_flags'', JStr ''0''),
          (''metric_overflow_sticky'', JInt 0), (''protocol_error_sticky'', JInt 0), (''saturation_sticky'', JInt 0),
          (''top_overflow_flags'', JStr ''0'')])"
    by (simp_all add: observed_doc_def jget_def)
  show ?thesis unfolding check_status_def j by (simp add: jset_is_def run_geom_def) (simp add: jget_def)
qed

lemma totals_pass:
  assumes run: "run samples thr window fwd ivt Config = Inr rr" and hann: "hann_support Config window"
  shows "check_totals (emit_metrics rr) (observed_doc vector rr) (run_geom rr) (run_files samples rr) = Inr (run_metrics rr)"
proof -
  have "or_y rr \<noteq> []" using run_shape(4-6) [OF run hann] by (cases "or_y rr") auto
  note calc = calculated_oracle [OF run this]
  have j: "jget (emit_metrics rr) ''suppression_totals'' = Inr (metric_group rr 0 4)" "jget (emit_metrics rr) ''spectral_totals'' = Inr (metric_group rr 4 2)"
    "jget (emit_metrics rr) ''time_domain_errors'' = Inr (metric_group rr 6 4)"
    "jget (observed_doc vector rr) ''suppression_totals'' = Inr (metric_group rr 0 4)"
    "jget (observed_doc vector rr) ''spectral_totals'' = Inr (metric_group rr 4 2)"
    "jget (observed_doc vector rr) ''time_domain_errors'' = Inr (metric_group rr 6 4)"
    "jget (observed_doc vector rr) ''internal_metrics'' = Inr (metric_group rr 6 4)"
    by (simp_all add: emit_metrics_def observed_doc_def jget_def)
  show ?thesis
    using frame_checks_pass [OF run] cap_metrics_group [OF run j(1-3)] cap_metrics_group(1) [OF run j(4-6)] calc
    by (simp add: check_totals_def run_files_def run_geom_def j(7) status_passes [unfolded run_geom_def] Let_def del: rmapM.simps)
qed

lemma source_fields:
  "field SOURCE ''cycle'' [CInt a, CInt b, CInt c, CText p] = a" "field SOURCE ''sample_idx'' [CInt a, CInt b, CInt c, CText p] = b"
  "field SOURCE ''data'' [CInt a, CInt b, CInt c, CText p] = c" "text_field SOURCE ''phase'' [CInt a, CInt b, CInt c, CText p] = p"
  by (simp_all add: field_def text_field_def SOURCE_def)

lemma accept_fields:
  "field ACCEPT ''cycle'' [CInt a, CInt b, CInt c] = a" "field ACCEPT ''sample_idx'' [CInt a, CInt b, CInt c] = b"
  "field ACCEPT ''y_out'' [CInt a, CInt b, CInt c] = c"
  by (simp_all add: field_def ACCEPT_def)

lemma commit_fields:
  "field COMMIT ''cycle'' [CInt a, CInt b, CInt c, CInt d, CInt e] = a" "field COMMIT ''sample_idx'' [CInt a, CInt b, CInt c, CInt d, CInt e] = b"
  "field COMMIT ''x_delayed'' [CInt a, CInt b, CInt c, CInt d, CInt e] = c" "field COMMIT ''y_out'' [CInt a, CInt b, CInt c, CInt d, CInt e] = d"
  "field COMMIT ''error_i16'' [CInt a, CInt b, CInt c, CInt d, CInt e] = e"
  by (simp_all add: field_def COMMIT_def)

lemma lifecycle_fields:
  "field LIFECYCLE ''cycle'' [CInt a, CText e, CInt b, CInt c] = a" "text_field LIFECYCLE ''event'' [CInt a, CText e, CInt b, CInt c] = e"
  "field LIFECYCLE ''source_count'' [CInt a, CText e, CInt b, CInt c] = b" "field LIFECYCLE ''output_count'' [CInt a, CText e, CInt b, CInt c] = c"
  by (simp_all add: field_def text_field_def LIFECYCLE_def)

lemmas log_fields = source_fields accept_fields commit_fields lifecycle_fields

lemma schedule_at:
  assumes "schedule_ok n ns sc" "i < n"
  shows "0 < sc_start sc" "sc_start sc < sc_source sc i" "sc_source sc i < sc_done sc" "sc_start sc < sc_commit sc i"
    "sc_commit sc i < sc_accept sc i" "sc_accept sc i < sc_done sc" "sc_done sc < 2 ^ 64"
    "0 < sc_source sc i \<and> 0 < sc_accept sc i \<and> 0 < sc_commit sc i \<and> 0 < sc_done sc"
    "sc_source sc i < 2 ^ 64 \<and> sc_accept sc i < 2 ^ 64 \<and> sc_commit sc i < 2 ^ 64 \<and> sc_commit sc i < sc_done sc"
proof -
  show f: "0 < sc_start sc" "sc_start sc < sc_source sc i" "sc_source sc i < sc_done sc" "sc_start sc < sc_commit sc i"
    "sc_commit sc i < sc_accept sc i" "sc_accept sc i < sc_done sc" "sc_done sc < 2 ^ 64"
    using assms by (simp_all add: schedule_ok_def)
  then show "0 < sc_source sc i \<and> 0 < sc_accept sc i \<and> 0 < sc_commit sc i \<and> 0 < sc_done sc"
    "sc_source sc i < 2 ^ 64 \<and> sc_accept sc i < 2 ^ 64 \<and> sc_commit sc i < 2 ^ 64 \<and> sc_commit sc i < sc_done sc" by linarith+
qed

lemma log_tables_ok:
  assumes "schedule_ok n ns sc" "nat (ge_ny g) = n" "length y = n" "0 < n" "0 \<le> ge_ny g"
  shows "table_ok SOURCE [''phase''] (source_rows g x sc)" "table_ok ACCEPT [] (accept_rows y sc)"
    "table_ok COMMIT [] (commit_rows x y sc)" "table_ok LIFECYCLE [''event''] (lifecycle_rows g sc)"
proof -
  have pos: "0 < sc_source sc i \<and> 0 < sc_accept sc i \<and> 0 < sc_commit sc i" if "i < n" for i
    using schedule_at(8) [OF assms(1) that] by simp
  moreover have "0 < sc_done sc" using schedule_at(8) [OF assms(1,4)] by simp
  moreover have "text_ok (phase_of g i)" for i by (simp add: phase_of_def text_ok_def plain_def code_def)
  moreover have "text_ok ''start''" "text_ok ''done''" by (simp_all add: text_ok_def plain_def code_def)
  moreover have "0 < sc_start sc" using assms(1) by (simp add: schedule_ok_def)
  ultimately show "table_ok SOURCE [''phase''] (source_rows g x sc)" "table_ok ACCEPT [] (accept_rows y sc)"
    "table_ok COMMIT [] (commit_rows x y sc)" "table_ok LIFECYCLE [''event''] (lifecycle_rows g sc)"
    using header_ok(4-7) assms(2,3,5)
    by (auto simp: table_ok_def source_rows_def accept_rows_def commit_rows_def lifecycle_rows_def list.pred_map comp_def list_all_iff
        row_ok_def SOURCE_def ACCEPT_def COMMIT_def LIFECYCLE_def cell_ok_def SIGNED_def less_imp_le)
qed

lemma logs_increasing:
  assumes "schedule_ok n ns sc" "nat (ge_ny g) = n" "length y = n"
  shows "increasing_log SOURCE (source_rows g x sc)" "increasing_log ACCEPT (accept_rows y sc)" "increasing_log COMMIT (commit_rows x y sc)"
proof -
  have pos: "0 < sc_source sc i \<and> 0 < sc_accept sc i \<and> 0 < sc_commit sc i \<and>
      sc_source sc i < 2 ^ 64 \<and> sc_accept sc i < 2 ^ 64 \<and> sc_commit sc i < 2 ^ 64" if "i < n" for i
    using schedule_at(8,9) [OF assms(1) that] by simp
  have inc: "sc_source sc i < sc_source sc j \<and> sc_commit sc i < sc_commit sc j \<and> sc_accept sc i < sc_accept sc j" if "i < j" "j < n" for i j
    using assms(1) that unfolding schedule_ok_def by blast
  show "increasing_log SOURCE (source_rows g x sc)" "increasing_log ACCEPT (accept_rows y sc)" "increasing_log COMMIT (commit_rows x y sc)"
    using pos inc assms(2,3)
    by (auto simp: increasing_log_def source_rows_def accept_rows_def commit_rows_def log_fields list_all_iff sorted_wrt_iff_nth_less)
qed

lemma events_ok:
  assumes "schedule_ok n (length x) sc" "nat (ge_ny g) = n" "length y = n" "0 < n" "0 \<le> ge_ny g"
  shows "i < n \<Longrightarrow> capture_event_ok g x y (source_rows g x sc) (accept_rows y sc) (commit_rows x y sc) i"
    and "lifecycle_ok g (source_rows g x sc) (accept_rows y sc) (commit_rows x y sc) (lifecycle_rows g sc ! 0) (lifecycle_rows g sc ! 1)"
proof -
  note s = assms(1) [unfolded schedule_ok_def]
  have later: "sc_source sc (i - 384) < sc_commit sc i" if "384 \<le> i" "i - 384 < length x" for i
    using s that by (metis le_add_diff_inverse2)
  show "capture_event_ok g x y (source_rows g x sc) (accept_rows y sc) (commit_rows x y sc) i" if "i < n"
    using that assms(2,3) s later by (auto simp: capture_event_ok_def source_rows_def accept_rows_def commit_rows_def log_fields)
  have "n - Suc 0 < n" "[0..<n] \<noteq> []" using assms(4) by simp_all
  then show "lifecycle_ok g (source_rows g x sc) (accept_rows y sc) (commit_rows x y sc) (lifecycle_rows g sc ! 0) (lifecycle_rows g sc ! 1)"
    using schedule_at [OF assms(1,4)] schedule_at [OF assms(1), of "n - Suc 0"] assms(2-5)
    by (auto simp: lifecycle_ok_def lifecycle_rows_def source_rows_def accept_rows_def commit_rows_def log_fields hd_map last_map)
qed

lemma events_pass:
  assumes run: "run samples thr window fwd ivt Config = Inr rr" and hann: "hann_support Config window"
    and capt: "\<And>name text. faithful_capture dumps vector samples rr sc name = Some text \<Longrightarrow> cap_read env ''capture'' name = Inr text"
    and sc: "schedule_ok (or_ny rr) (length samples) sc"
  shows "check_events env (run_geom rr) (run_files samples rr) =
    Inr \<lparr> el_source = source_rows (run_geom rr) samples sc, el_accepts = accept_rows (or_y rr) sc,
          el_commits = commit_rows samples (or_y rr) sc, el_start = lifecycle_rows (run_geom rr) sc ! 0,
          el_done = lifecycle_rows (run_geom rr) sc ! 1 \<rparr>"
proof -
  define g where "g = run_geom rr"
  define src acc cmt where "src = source_rows g samples sc" and "acc = accept_rows (or_y rr) sc" and "cmt = commit_rows samples (or_y rr) sc"
  have n: "nat (ge_ny g) = or_ny rr" "length (or_y rr) = or_ny rr" "0 < or_ny rr" "0 \<le> ge_ny g"
    using run_shape [OF run hann] by (simp_all add: g_def run_geom_def)
  note ok = log_tables_ok [OF sc n] logs_increasing [OF sc n(1,2)] events_ok [OF sc n]
  have rd: "cap_read env ''capture'' ''source_accepts.csv'' = Inr (csv_canonical SOURCE src)"
    "cap_read env ''capture'' ''y_accepts.csv'' = Inr (csv_canonical ACCEPT acc)"
    "cap_read env ''capture'' ''sample_commits.csv'' = Inr (csv_canonical COMMIT cmt)"
    "cap_read env ''capture'' ''lifecycle.csv'' = Inr (csv_canonical LIFECYCLE (lifecycle_rows g sc))"
    using capt [of "''source_accepts.csv''"] capt [of "''y_accepts.csv''"] capt [of "''sample_commits.csv''"] capt [of "''lifecycle.csv''"]
    by (simp_all add: faithful_capture_def g_def src_def acc_def cmt_def)
  have len: "length src = or_ny rr" "length acc = or_ny rr" "length cmt = or_ny rr" "length (sf_y (run_files samples rr)) = or_ny rr"
    "length (lifecycle_rows g sc) = 2"
    using n by (simp_all add: src_def acc_def cmt_def source_rows_def accept_rows_def commit_rows_def run_files_def lifecycle_rows_def)
  have tab: "table_ok SOURCE [''phase''] src" "table_ok ACCEPT [] acc" "table_ok COMMIT [] cmt" "table_ok LIFECYCLE [''event''] (lifecycle_rows g sc)"
    using ok(1-4) by (simp_all add: src_def acc_def cmt_def)
  have logs: "read_csv env ''capture'' ''source_accepts.csv'' SOURCE (nat (ge_ny g)) [''phase''] = Inr src"
    "read_csv env ''capture'' ''y_accepts.csv'' ACCEPT (nat (ge_ny g)) [] = Inr acc"
    "read_csv env ''capture'' ''sample_commits.csv'' COMMIT (nat (ge_ny g)) [] = Inr cmt"
    "read_csv env ''capture'' ''lifecycle.csv'' LIFECYCLE 2 [''event''] = Inr (lifecycle_rows g sc)"
    using rd tab len n(1) by (auto intro!: read_csv_passes)
  obtain us where us: "rmapM (check_event g (run_files samples rr) src) (zip [0..<length src] (zip src (zip acc cmt))) = Inr us"
    using check_events_loop [OF len(1-4), of g] ok(8) by (auto simp: src_def acc_def cmt_def run_files_def)
  have chr: "chronology SOURCE src l = Inr ()" "chronology ACCEPT acc l = Inr ()" "chronology COMMIT cmt l = Inr ()"
    "check_lifecycle g src acc cmt (lifecycle_rows g sc ! 0) (lifecycle_rows g sc ! 1) = Inr ()" for l
    using ok(5-7,9) by (simp_all add: chronology_Inr check_lifecycle_Inr src_def acc_def cmt_def)
  show ?thesis
    unfolding check_events_def g_def [symmetric] src_def [symmetric] acc_def [symmetric] cmt_def [symmetric] Let_def logs chr rbind.simps us ..
qed

lemma ifft_passes:
  assumes run: "run samples thr window fwd ivt Config = Inr rr" and hann: "hann_support Config window"
    and orcl: "\<And>name text. emit_oracle dumps rr name = Some text \<Longrightarrow> cap_read env ''oracle'' name = Inr text"
    and capt: "\<And>name text. faithful_capture dumps vector samples rr sc name = Some text \<Longrightarrow> cap_read env ''capture'' name = Inr text"
  shows "\<exists>res. check_ifft env (run_geom rr) = Inr (Some res)"
proof -
  have rd: "cap_read env ''oracle'' ''ifft_output.csv'' = Inr (csv_canonical IFFT (emit_ifft_rows rr))"
    "cap_read env ''capture'' ''ifft_samples.csv'' = Inr (csv_canonical IFFT (emit_ifft_rows rr))"
    using orcl [of "''ifft_output.csv''"] capt [of "''ifft_samples.csv''"] by (simp_all add: emit_oracle_def faithful_capture_def)
  then have ex: "cap_exists (ce_oracle env ''ifft_output.csv'')"
    by (auto simp: cap_exists_def cap_read_def entry_of_def)
  have csv: "read_csv env ''oracle'' ''ifft_output.csv'' IFFT (length (or_frames rr) * 256) [] = Inr (emit_ifft_rows rr)"
    "read_csv env ''capture'' ''ifft_samples.csv'' IFFT (length (or_frames rr) * 256) [] = Inr (emit_ifft_rows rr)"
    using rd ifft_table_ok length_emit(3) [OF run] by (auto intro!: read_csv_passes)
  have width: "list_all (\<lambda>r. list_all (\<lambda>k. - push_bit 35 1 \<le> field IFFT k r \<and> field IFFT k r < push_bit 35 1) [''re'', ''im'']) (emit_ifft_rows rr)"
    unfolding list_all_iff [of _ "emit_ifft_rows rr"]
  proof
    fix row assume "row \<in> set (emit_ifft_rows rr)"
    then obtain i k where ik: "i < length (or_frames rr)" "k < 256"
      "row = [CInt (int i), CInt (int k), CInt (fst (of_ifft (or_frames rr ! i) ! k)), CInt (snd (of_ifft (or_frames rr ! i) ! k))]"
      by (auto simp: emit_ifft_rows_def in_set_zip)
    have "fits_width 36 (of_ifft (or_frames rr ! i) ! k)"
      using run ik(1) by (rule frame_facts) (use ik(2) in \<open>simp add: list_all_length\<close>)
    then show "list_all (\<lambda>k. - push_bit 35 1 \<le> field IFFT k row \<and> field IFFT k row < push_bit 35 1) [''re'', ''im'']"
      by (simp add: ik(3) field_def IFFT_def fits_width_def)
  qed
  have mt: "match_rows xs xs label = Inr ()" for xs :: "row list" and label by (simp add: match_rows_Inr)
  show ?thesis
    using ex csv width ifft_indices [of rr]
    by (simp add: check_ifft_def run_geom_def mt need_def del: upt_Suc list.pred_inject)
qed

lemma faithful_passes:
  assumes run: "run samples thr window fwd ivt Config = Inr rr" and hann: "hann_support Config window"
    and orcl: "\<And>name text. emit_oracle dumps rr name = Some text \<Longrightarrow> cap_read env ''oracle'' name = Inr text"
    and capt: "\<And>name text. faithful_capture dumps (ce_case env) samples rr sc name = Some text \<Longrightarrow> cap_read env ''capture'' name = Inr text"
    and inp: "cap_read env ''input'' [] = Inr (memh_text samples)"
    and json: "loads (dumps (emit_metrics rr)) = Some (emit_metrics rr)"
      "loads (dumps (observed_doc (ce_case env) rr)) = Some (observed_doc (ce_case env) rr)"
    and sc: "schedule_ok (or_ny rr) (length samples) sc"
    and final: "\<And>area name. (area, name) \<in> set (files_read True) \<Longrightarrow>
      \<exists>text. cap_read env area name = Inr text \<and> ce_final env (file_label area name) = Some text"
  shows "\<exists>r. check_capture loads digest env = Inr (PASS r) \<and> cr_metrics r = run_metrics rr \<and> cr_geometry r = run_geom rr"
proof -
  have docs: "read_json loads env ''oracle'' ''metrics.json'' = Inr (emit_metrics rr)"
    "read_json loads env ''capture'' ''metrics_observed.json'' = Inr (observed_doc (ce_case env) rr)"
    using orcl [of "''metrics.json''"] capt [of "''metrics_observed.json''"] json
    by (simp_all add: read_json_def emit_oracle_def faithful_capture_def strict_documents)
  obtain res where res: "check_ifft env (run_geom rr) = Inr (Some res)"
    using ifft_passes [OF run hann orcl capt] by blast
  have sum: "check_summary (observed_doc (ce_case env) rr) x = Inr ()" for x
    by (simp add: check_summary_def jhas_def observed_doc_def)
  have "rmapM (\<lambda>(area, name).
         rbind (cap_read env area name) (\<lambda>before.
         let label = file_label area name in
         case ce_final env label of
           None \<Rightarrow> Inl (capture_error ''INPUT_CHANGED'' label)
         | Some data \<Rightarrow> need (length data = length before \<and> digest data = digest before) ''INPUT_CHANGED'' label))
       (files_read True) = Inr (map (\<lambda>_. ()) (files_read True))"
    by (rule rmapM_Inr_map) (use final in force)
  then have un: "check_unchanged digest env True = Inr ()" by (simp add: check_unchanged_def)
  show ?thesis
    using docs identity_passes [OF run hann, of env] files_pass [OF run hann orcl capt inp] totals_pass [OF run hann]
      events_pass [OF run hann capt sc] res sum un
    by (simp add: check_capture_def capture_run_def)
qed


section \<open>A concrete evidence set\<close>

definition evidence :: "(json \<Rightarrow> string) \<Rightarrow> string \<Rightarrow> int list \<Rightarrow> oracle_run \<Rightarrow> cycle_schedule \<Rightarrow> string \<Rightarrow> string \<Rightarrow> string option" where
  "evidence dumps vector x rr sc area name =
     (if area = ''input'' then Some (memh_text x)
      else if area = ''capture'' then faithful_capture dumps vector x rr sc name else emit_oracle dumps rr name)"

definition faithful_env :: "(json \<Rightarrow> string) \<Rightarrow> string \<Rightarrow> int list \<Rightarrow> oracle_run \<Rightarrow> cycle_schedule \<Rightarrow> capture_env" where
  "faithful_env dumps vector x rr sc =
     (let entry = (\<lambda>area name. case evidence dumps vector x rr sc area name of Some t \<Rightarrow> Entry False (Some t) | None \<Rightarrow> Absent) in
      \<lparr> ce_capture = entry ''capture'', ce_oracle = entry ''oracle'', ce_input = entry ''input'' [], ce_case = vector,
        ce_final = (\<lambda>label. case map_of (map (\<lambda>(area, name). (file_label area name, (area, name))) (files_read True)) label of
           None \<Rightarrow> None | Some (area, name) \<Rightarrow> evidence dumps vector x rr sc area name) \<rparr>)"

lemma csv_canonical_nonempty [simp]: "csv_canonical header rows \<noteq> []"
  by (simp add: csv_canonical_def csv_line_def)

lemma memh_text_nonempty [simp]: "memh_text vs = [] \<longleftrightarrow> vs = []"
  using length_memh_text [of vs] by (metis length_0_conv mult_is_0 zero_neq_numeral)

lemma faithful_env_reads:
  assumes "evidence dumps vector x rr sc area name = Some text" "text \<noteq> []" "area \<in> {''input'', ''capture'', ''oracle''}" "area = ''input'' \<Longrightarrow> name = []"
  shows "cap_read (faithful_env dumps vector x rr sc) area name = Inr text"
  using assms by (auto simp: cap_read_def entry_of_def faithful_env_def Let_def evidence_def)

lemma evidence_nonempty:
  assumes "evidence dumps vector x rr sc area name = Some text" "x \<noteq> []" "or_y rr \<noteq> []" "\<And>j. dumps j \<noteq> []"
  shows "text \<noteq> []"
  using assms by (auto simp: evidence_def faithful_capture_def emit_oracle_def split: if_splits)

lemma evidence_total: "(area, name) \<in> set (files_read True) \<Longrightarrow> \<exists>text. evidence dumps vector x rr sc area name = Some text"
proof -
  have "list_all (\<lambda>(area, name). evidence dumps vector x rr sc area name \<noteq> None) (files_read True)"
    by (simp add: files_read_def evidence_def faithful_capture_def emit_oracle_def)
  moreover assume "(area, name) \<in> set (files_read True)"
  ultimately show ?thesis by (fastforce simp only: list_all_iff split: prod.splits)
qed

lemma labels_distinct: "distinct (map (\<lambda>(area, name). file_label area name) (files_read True))"
  by code_simp

lemma faithful_env_final:
  "(area, name) \<in> set (files_read True) \<Longrightarrow>
     ce_final (faithful_env dumps vector x rr sc) (file_label area name) = evidence dumps vector x rr sc area name"
proof -
  let ?kv = "map (\<lambda>(area, name). (file_label area name, (area, name))) (files_read True)"
  have "map fst ?kv = map (\<lambda>(area, name). file_label area name) (files_read True)" by auto
  then have "distinct (map fst ?kv)" using labels_distinct by metis
  moreover assume "(area, name) \<in> set (files_read True)"
  then have "(file_label area name, (area, name)) \<in> set ?kv" by force
  ultimately have "map_of ?kv (file_label area name) = Some (area, name)" by (rule map_of_is_SomeI)
  then show ?thesis by (simp add: faithful_env_def Let_def)
qed

lemma files_read_areas: "(area, name) \<in> set (files_read True) \<Longrightarrow>
    area \<in> {''input'', ''capture'', ''oracle''} \<and> (area = ''input'' \<longrightarrow> name = [])"
proof -
  have "list_all (\<lambda>(area, name). area \<in> {''input'', ''capture'', ''oracle''} \<and> (area = ''input'' \<longrightarrow> name = [])) (files_read True)"
    by (simp add: files_read_def)
  moreover assume "(area, name) \<in> set (files_read True)"
  ultimately show ?thesis by (fastforce simp only: list_all_iff split: prod.splits)
qed

text \<open>One sample of silence and a window of full scale.\<close>

definition silent_window :: "int list" where
  "silent_window = 0 # replicate 255 32768"

definition silent_table :: "cint list" where
  "silent_table = replicate 256 (0, 0)"

definition demo_schedule :: cycle_schedule where
  "demo_schedule = \<lparr> sc_source = (\<lambda>i. 2 + int i), sc_commit = (\<lambda>i. 2 + 2 * int i), sc_accept = (\<lambda>i. 3 + 2 * int i),
     sc_start = 1, sc_done = 2000 \<rparr>"

lemma silent_hann: "hann_support Config silent_window"
  by (auto simp: hann_support_def Config_def silent_window_def nth_Cons split: nat.splits)

lemma silent_run: "\<exists>rr. run [0] 10 silent_window silent_table silent_table Config = Inr rr"
proof -
  have "run_params_ok 10 silent_window silent_table silent_table Config"
    by (auto simp: run_params_ok_def Config_def silent_window_def silent_table_def)
  from run_silent [OF this silent_hann, of 8 1] show ?thesis by (auto simp: Config_def)
qed

definition demo_dumps :: "oracle_run \<Rightarrow> json \<Rightarrow> string" where
  "demo_dumps rr j = (if j = emit_metrics rr then ''m'' else ''o'')"

definition demo_loads :: "oracle_run \<Rightarrow> string \<Rightarrow> json option" where
  "demo_loads rr s = Some (if s = ''m'' then emit_metrics rr else observed_doc ''demo'' rr)"

definition demo_env :: "oracle_run \<Rightarrow> capture_env" where
  "demo_env rr = faithful_env (demo_dumps rr) ''demo'' [0] rr demo_schedule"

lemma demo_case [simp]: "ce_case (demo_env rr) = ''demo''"
  by (simp add: demo_env_def faithful_env_def Let_def)

lemma demo_json:
  "demo_loads rr (demo_dumps rr (emit_metrics rr)) = Some (emit_metrics rr)"
  "demo_loads rr (demo_dumps rr (observed_doc ''demo'' rr)) = Some (observed_doc ''demo'' rr)"
  by (simp_all add: demo_loads_def demo_dumps_def emit_metrics_def observed_doc_def)

lemma demo_evidence:
  assumes "run [0] 10 silent_window silent_table silent_table Config = Inr rr"
  shows "emit_oracle (demo_dumps rr) rr name = Some text \<Longrightarrow> cap_read (demo_env rr) ''oracle'' name = Inr text"
    "faithful_capture (demo_dumps rr) ''demo'' [0] rr demo_schedule name = Some text \<Longrightarrow> cap_read (demo_env rr) ''capture'' name = Inr text"
    "cap_read (demo_env rr) ''input'' [] = Inr (memh_text [0])"
    "schedule_ok (or_ny rr) (length [0 :: int]) demo_schedule"
    "(area, name) \<in> set (files_read True) \<Longrightarrow>
      \<exists>text. cap_read (demo_env rr) area name = Inr text \<and> ce_final (demo_env rr) (file_label area name) = Some text"
proof -
  note shape = run_shape [OF assms silent_hann]
  have ny: "or_ny rr = 512" using shape(4) by simp
  have ne: "or_y rr \<noteq> []" using shape(6) ny by auto
  have dm: "demo_dumps rr j \<noteq> []" for j by (simp add: demo_dumps_def)
  have rd: "cap_read (demo_env rr) area name = Inr t"
    if "evidence (demo_dumps rr) ''demo'' [0] rr demo_schedule area name = Some t"
      "area \<in> {''input'', ''capture'', ''oracle''}" "area = ''input'' \<Longrightarrow> name = []" for area name t
    unfolding demo_env_def using that(1) evidence_nonempty [OF that(1) _ ne dm] that(2,3) by (intro faithful_env_reads) auto
  show "emit_oracle (demo_dumps rr) rr name = Some text \<Longrightarrow> cap_read (demo_env rr) ''oracle'' name = Inr text"
    "faithful_capture (demo_dumps rr) ''demo'' [0] rr demo_schedule name = Some text \<Longrightarrow> cap_read (demo_env rr) ''capture'' name = Inr text"
    "cap_read (demo_env rr) ''input'' [] = Inr (memh_text [0])"
    by (rule rd; simp add: evidence_def)+
  show "schedule_ok (or_ny rr) (length [0 :: int]) demo_schedule" by (simp add: schedule_ok_def demo_schedule_def ny)
  assume m: "(area, name) \<in> set (files_read True)"
  then obtain t where t: "evidence (demo_dumps rr) ''demo'' [0] rr demo_schedule area name = Some t"
    using evidence_total by blast
  moreover have "cap_read (demo_env rr) area name = Inr t" using rd [OF t] files_read_areas [OF m] by auto
  ultimately show "\<exists>text. cap_read (demo_env rr) area name = Inr text \<and> ce_final (demo_env rr) (file_label area name) = Some text"
    using faithful_env_final [OF m] by (simp add: demo_env_def)
qed

lemma demo_passes:
  assumes "run [0] 10 silent_window silent_table silent_table Config = Inr rr"
  shows "\<exists>r. check_capture (demo_loads rr) id (demo_env rr) = Inr (PASS r)"
proof -
  note d = demo_evidence [OF assms]
  have "\<exists>r. check_capture (demo_loads rr) id (demo_env rr) = Inr (PASS r) \<and> cr_metrics r = run_metrics rr \<and> cr_geometry r = run_geom rr"
    by (rule faithful_passes [where dumps = "demo_dumps rr" and sc = demo_schedule, OF assms silent_hann])
      (simp_all only: d demo_case demo_json)
  then show ?thesis by blast
qed

lemma numeric_table_ok:
  assumes "cap_csv label t header n [] = Inr rows" "header \<noteq> []" "hd header \<noteq> []" "list_all text_ok header"
  shows "table_ok header [] rows"
proof -
  have "list_all (\<lambda>c. case c of CText s \<Rightarrow> text_ok s | CInt v \<Rightarrow> True) row" if row: "row_ok header [] row" for row
  proof -
    have "\<exists>v. c = CInt v" if "c \<in> set row" for c
      using row that by (auto simp: row_ok_def list_all2_conv_all_nth in_set_conv_nth cell_ok_def split: cell.splits) (metis cell.exhaust cell.simps(6))
    then show ?thesis by (fastforce simp: list_all_iff)
  qed
  then show ?thesis using cap_csv_sound(3) [OF assms(1)] assms(2-4) by (auto simp: table_ok_def list_all_iff)
qed

interpretation cbins: strict_codec "\<lambda>rows. table_ok BIN [] rows \<and> length rows = n"
    "\<lambda>rows. Inr (csv_canonical BIN rows)" "\<lambda>t. cap_csv label t BIN n []" for n label
proof
  fix w rows
  assume *: "cap_csv label w BIN n [] = Inr rows"
  show "table_ok BIN [] rows \<and> length rows = n" "Inr (csv_canonical BIN rows) = Inr w"
    using numeric_table_ok [OF * _ _ header_ok(2)] cap_csv_sound [OF *] by (simp_all add: BIN_def)
qed (use cap_csv_complete in auto)

text \<open>The bin table has one text for each list of rows, and the reader accepts nothing else.\<close>

theorem bin_table_exact:
  "cap_csv label t BIN n [] = Inr rows \<longleftrightarrow> (table_ok BIN [] rows \<and> length rows = n) \<and> t = csv_canonical BIN rows"
  using cbins.dec_iff [of label t n rows] by auto

section \<open>Witnesses\<close>

theorem pass_files_identical_witness:
  "\<exists>rr r. check_capture (demo_loads rr) id (demo_env rr) = Inr (PASS r) \<and>
     (\<exists>b. cap_read (demo_env rr) ''capture'' ''bin_stats.csv'' = Inr b \<and> cap_read (demo_env rr) ''oracle'' ''bin_stats.csv'' = Inr b)"
proof -
  obtain rr r where r: "check_capture (demo_loads rr) id (demo_env rr) = Inr (PASS r)" using silent_run demo_passes by blast
  from pass_files_identical [OF r] r show ?thesis by blast
qed

theorem pass_events_causal_witness:
  "\<exists>rr r accepts y. check_capture (demo_loads rr) id (demo_env rr) = Inr (PASS r) \<and>
     read_csv (demo_env rr) ''capture'' ''y_accepts.csv'' ACCEPT (nat (ge_ny (cr_geometry r))) [] = Inr accepts \<and>
     read_image (demo_env rr) ''capture'' ''y_out.memh'' (nat (ge_ny (cr_geometry r))) = Inr y \<and> map (field ACCEPT ''y_out'') accepts = y"
proof -
  obtain rr r where r: "check_capture (demo_loads rr) id (demo_env rr) = Inr (PASS r)" using silent_run demo_passes by blast
  from pass_events_causal [OF r] r show ?thesis by blast
qed

theorem pass_is_oracle_run_witness:
  "\<exists>rr r. run [0] 10 silent_window silent_table silent_table Config = Inr rr \<and>
     check_capture (demo_loads rr) id (demo_env rr) = Inr (PASS r) \<and> cr_metrics r = run_metrics rr \<and>
     cap_read (demo_env rr) ''capture'' ''y_out.memh'' = Inr (memh_text (or_y rr))"
proof -
  obtain rr where rr: "run [0] 10 silent_window silent_table silent_table Config = Inr rr" using silent_run ..
  then obtain r where r: "check_capture (demo_loads rr) id (demo_env rr) = Inr (PASS r)" using demo_passes by blast
  note p = pass_is_oracle_run [where dumps = "demo_dumps rr", OF rr silent_hann demo_evidence(1) [OF rr] demo_evidence(3) [OF rr] r]
  from rr r p show ?thesis by blast
qed


end
