(* ===== verification/Qualification.thy ===== *)
theory Qualification
  imports Capture_Exact
begin

text \<open>
  The comparison layer of the reference qualification: the image reader, the transcript parser and the comparison of
  \<^verbatim>\<open>scripts/verification/reference_qualification.py\<close>, the stimulus and the numeric summary of
  \<^verbatim>\<open>reference_boundaries.py\<close>, and the expected values and cases of \<^verbatim>\<open>rounding_qualification.py\<close>. A tuple key of the
  record dictionary is a list of parts; a dictionary is the list of its items in insertion order. The processes
  that produce the transcripts are outside.
\<close>

section \<open>Images\<close>

fun hex_lines :: "nat \<Rightarrow> nat \<Rightarrow> string \<Rightarrow> string list option" where
  "hex_lines digits 0 s = (if s = [] then Some [] else None)"
| "hex_lines digits (Suc rows) s =
     (let l = take digits s in
      if length l = digits \<and> list_all is_lower_hex l \<and> drop digits s \<noteq> [] \<and> hd (drop digits s) = CHR 0x0A
      then map_option (Cons l) (hex_lines digits rows (drop (Suc digits) s)) else None)"

definition qual_read_memh :: "string \<Rightarrow> nat \<Rightarrow> bool \<Rightarrow> nat \<Rightarrow> int list result" where
  "qual_read_memh raw width sg rows =
     (let digits = (width + 3) div 4 in
      case hex_lines digits rows raw of
        None \<Rightarrow> Inl (Exn ValueError ''noncanonical MEMH or row count'')
      | Some lines \<Rightarrow>
          let values = map hex_value lines in
          if \<exists>v \<in> set values. v \<ge> push_bit width 1 then Inl (Exn ValueError ''nonzero MEMH padding bits'')
          else Inr (map (\<lambda>v. if sg \<and> v \<ge> push_bit (width - 1) 1 then v - push_bit width 1 else v) values))"

section \<open>Transcripts\<close>

datatype key_part = KInt int | KStr string

type_synonym key = "key_part list"
type_synonym records = "(key \<times> int list) list"

definition STAGES :: "string list" where
  "STAGES = [''analysis'', ''fft'', ''canonical'', ''masked'', ''ifft'', ''z'']"

definition ARITY :: "(string \<times> nat) list" where
  "ARITY = [(''G'', 5), (''Y'', 3), (''R'', 3), (''F'', 8), (''B'', 9), (''S'', 6), (''M'', 3)]"

text \<open>\<^verbatim>\<open>s.split(c)\<close>.\<close>

fun split_on :: "char \<Rightarrow> string \<Rightarrow> string list" where
  "split_on c [] = [[]]"
| "split_on c (x # xs) =
     (if x = c then [] # split_on c xs
      else case split_on c xs of [] \<Rightarrow> [[x]] | h # t \<Rightarrow> (x # h) # t)"

text \<open>\<^verbatim>\<open>-?(?:0|[1-9][0-9]*)\<close>.\<close>

definition lexical_int :: "string \<Rightarrow> bool" where
  "lexical_int s \<longleftrightarrow> is_natural_text s \<or> (s \<noteq> [] \<and> hd s = CHR ''-'' \<and> is_natural_text (tl s))"

definition qual_int :: "string \<Rightarrow> int result" where
  "qual_int s = (case py_int10 s of Some v \<Rightarrow> Inr v | None \<Rightarrow> Inl (Exn ValueError ''invalid literal for int()''))"

definition lexical_fields :: "string list \<Rightarrow> string list" where
  "lexical_fields f =
     (let kind = hd f in
      map snd (filter (\<lambda>(i, v). \<not> (kind = ''S'' \<and> i = 2) \<and> \<not> (kind = ''M'' \<and> i = 1)) (zip [1..<length f] (tl f))))"

definition parse_record :: "string list \<Rightarrow> (key \<times> int list) result" where
  "parse_record f =
     (let kind = hd f in
      if map_of ARITY kind \<noteq> Some (length f) then Inl (Exn ValueError ''transcript schema'')
      else if \<exists>v \<in> set (lexical_fields f). \<not> lexical_int v then Inl (Exn ValueError ''noninteger field'')
      else if kind = ''G'' then rbind (rmapM qual_int (tl f)) (\<lambda>vs. Inr ([KStr kind], vs))
      else if kind = ''S'' then
        (if f ! 2 \<notin> set STAGES then Inl (Exn ValueError ''unknown stage'')
         else rbind (qual_int (f ! 1)) (\<lambda>a. rbind (qual_int (f ! 3)) (\<lambda>b. rbind (rmapM qual_int (drop 4 f)) (\<lambda>vs.
           Inr ([KStr kind, KInt a, KStr (f ! 2), KInt b], vs)))))
      else if kind = ''M'' then
        (if f ! 1 \<notin> set METRIC_NAMES then Inl (Exn ValueError ''unknown metric'')
         else rbind (qual_int (f ! 2)) (\<lambda>v. Inr ([KStr kind, KStr (f ! 1)], [v])))
      else
        let split = (if kind = ''B'' then 3 else 2) in
        rbind (rmapM qual_int (take (split - 1) (tl f))) (\<lambda>ks. rbind (rmapM qual_int (drop split f)) (\<lambda>vs.
          Inr (KStr kind # map KInt ks, vs))))"

definition indexed_kind :: "key \<Rightarrow> bool" where
  "indexed_kind k \<longleftrightarrow> hd k \<in> KStr ` {''Y'', ''R'', ''F'', ''S'', ''B''}"

type_synonym parse_state = "records \<times> (key \<Rightarrow> int)"

definition add_record :: "parse_state \<Rightarrow> key \<times> int list \<Rightarrow> parse_state result" where
  "add_record st kv =
     (let records = fst st; sequence = snd st; key = fst kv; grp = butlast key in
      if key \<in> set (map fst records) then Inl (Exn ValueError ''duplicate record'')
      else if indexed_kind key then
        (if last key \<noteq> KInt (sequence grp) then Inl (Exn ValueError ''noncontiguous record'')
         else Inr (records @ [kv], sequence(grp := sequence grp + 1)))
      else Inr (records @ [kv], sequence))"

fun parse_lines :: "parse_state \<Rightarrow> string list \<Rightarrow> parse_state result" where
  "parse_lines st [] = Inr st"
| "parse_lines st (l # ls) =
     rbind (parse_record (split_on (CHR 0x09) l)) (\<lambda>kv. rbind (add_record st kv) (\<lambda>st. parse_lines st ls))"

definition transcript_records :: "string \<Rightarrow> records result" where
  "transcript_records text =
     (if text = [] \<or> last text \<noteq> CHR 0x0A then Inl (Exn ValueError ''empty/truncated adapter transcript'')
      else rbind (parse_lines ([], \<lambda>_. 0) (py_splitlines text)) (\<lambda>st. Inr (fst st)))"

definition compare_records :: "records \<Rightarrow> records \<Rightarrow> int result" where
  "compare_records wanted actual =
     (if set (map fst wanted) \<noteq> set (map fst actual) then Inl (Exn ValueError ''missing or extra'')
      else rbind (rmapM (\<lambda>(k, v). if map_of actual k = Some v then Inr () else Inl (Exn ValueError ''first mismatch'')) wanted)
        (\<lambda>_. Inr (int (length wanted))))"

text \<open>The dictionary that \<^verbatim>\<open>run\<close> of the oracle returns, in the order of its entries.\<close>

definition stage_values :: "oracle_frame \<Rightarrow> string \<Rightarrow> int list list" where
  "stage_values f stage =
     (let pair = (\<lambda>z. [fst z, snd z]) in
      if stage = ''analysis'' then map pair (of_analysis f) else if stage = ''fft'' then map pair (of_fft f)
      else if stage = ''canonical'' then map pair (of_canonical f) else if stage = ''masked'' then map pair (of_masked f)
      else if stage = ''ifft'' then map pair (of_ifft f) else map (\<lambda>v. [v, 0]) (of_z f))"

definition block :: "key \<Rightarrow> int list list \<Rightarrow> records" where
  "block grp vss = map (\<lambda>i. (grp @ [KInt (int i)], vss ! i)) [0..<length vss]"

definition frame_records :: "nat \<Rightarrow> oracle_frame \<Rightarrow> records" where
  "frame_records i f =
     concat (map (\<lambda>stage. block [KStr ''S'', KInt (int i), KStr stage] (stage_values f stage)) STAGES) @
     [([KStr ''F'', KInt (int i)], stats_list (of_stats f))] @
     block [KStr ''B'', KInt (int i)]
       (map (\<lambda>b. [ob_re b, ob_im b, ob_mag2 b, of_bool (ob_eligible b), of_bool (ob_pre b), of_bool (ob_mask b)]) (of_bins f))"

definition run_records :: "oracle_run \<Rightarrow> records" where
  "run_records r =
     [([KStr ''G''], [int (or_samples r), int (length (or_taus r)), int (last (or_taus r)), int (or_ny r)])] @
     concat (map (\<lambda>(i, f). frame_records i f) (zip [0..<length (or_frames r)] (or_frames r))) @
     block [KStr ''Y''] (map (\<lambda>y. [y]) (or_y r)) @
     map (\<lambda>(n, v). ([KStr ''M'', KStr n], [v])) (zip METRIC_NAMES (run_metrics r))"

section \<open>Stimulus, summary and rounding cases\<close>

definition anchors :: "int list" where
  "anchors = [-2048, 2047, -2047, 2046, -1, 1, 0, 1023, -1024]"

definition stimulus_value :: "nat \<Rightarrow> int" where
  "stimulus_value n =
     (let slot = n mod 32 in
      if slot < length anchors then anchors ! slot else (73 * int n + 19 * (int n div 7)) mod 1023 - 511)"

definition stimulus :: "int \<Rightarrow> int list result" where
  "stimulus ns =
     (let values = map stimulus_value [0..<nat ns] in
      if values = [] \<or> (\<exists>v \<in> set values. \<not> (-2048 \<le> v \<and> v \<le> 2047))
      then Inl (Exn ValueError ''invalid supplemental sample domain'') else Inr values)"

text \<open>The overlap-add of the summary, frame by frame and tap by tap.\<close>

fun add_taps :: "(nat \<Rightarrow> int) \<Rightarrow> nat \<Rightarrow> int list \<Rightarrow> nat \<Rightarrow> int" where
  "add_taps acc target [] = acc"
| "add_taps acc target (z # zs) = add_taps (acc(target := acc target + z)) (target + 1) zs"

definition absolute_ola :: "oracle_run \<Rightarrow> nat \<Rightarrow> int" where
  "absolute_ola r = foldl (\<lambda>acc (f, fr). add_taps acc ((f + 1) * 128 + 128) (of_z fr)) (\<lambda>_. 0) (zip [0..<length (or_frames r)] (or_frames r))"

definition unclipped :: "oracle_run \<Rightarrow> int list" where
  "unclipped r = map (\<lambda>n. rounded (absolute_ola r n) 15) [0..<or_ny r]"

record numeric_summary_rec =
  ns_nonzero_imag :: int
  ns_max_abs_imag :: int
  ns_saturation_count :: int
  ns_unique_suppressed :: int
  ns_eligible_suppressed :: int
  ns_eligible_retained :: int
  ns_sum_abs_err :: int
  ns_sum_sq_err :: int
  ns_max_abs_err :: int

definition summarize_numeric :: "oracle_run \<Rightarrow> numeric_summary_rec" where
  "summarize_numeric r =
     (let imaginary = concat (map (\<lambda>f. map snd (of_ifft f)) (or_frames r)); m = run_metrics r in
      \<lparr> ns_nonzero_imag = int (length (filter (\<lambda>v. v \<noteq> 0) imaginary)),
        ns_max_abs_imag = Max (set (map abs imaginary)),
        ns_saturation_count = int (length (filter (\<lambda>v. \<not> (-2048 \<le> v \<and> v \<le> 2047)) (unclipped r))),
        ns_unique_suppressed = m ! 1, ns_eligible_suppressed = m ! 3, ns_eligible_retained = m ! 2 - m ! 3,
        ns_sum_abs_err = m ! 6, ns_sum_sq_err = m ! 7, ns_max_abs_err = m ! 8 \<rparr>)"

definition expected_rounding :: "int \<Rightarrow> nat \<Rightarrow> int \<times> int" where
  "expected_rounding value shift =
     (let magnitude = \<bar>value\<bar>;
          quotient = magnitude div push_bit shift 1; remainder = magnitude mod push_bit shift 1;
          magnitude = (if shift \<noteq> 0 then quotient + of_bool (2 * remainder \<ge> push_bit shift 1) else magnitude);
          r = (if value < 0 then - magnitude else magnitude);
          flags = (if r > 2047 then 1 else if r < -2048 then 2 else 0) in
      (min 2047 (max (-2048) r), flags))"

section \<open>Independent readers and roundings agree\<close>

text \<open>The expected values of the rounding qualification are the oracle's rounding followed by its saturation.\<close>

theorem expected_rounding_oracle:
  "fst (expected_rounding v s) = saturated (rounded v s) 12 \<and>
   (snd (expected_rounding v s) = 0 \<longleftrightarrow> saturated (rounded v s) 12 = rounded v s) \<and>
   (snd (expected_rounding v s) = 1 \<longleftrightarrow> 2047 < rounded v s) \<and> (snd (expected_rounding v s) = 2 \<longleftrightarrow> rounded v s < -2048)"
proof -
  have r: "rounded v s = (let m = (if s \<noteq> 0 then \<bar>v\<bar> div push_bit s 1 + of_bool (2 * (\<bar>v\<bar> mod push_bit s 1) \<ge> push_bit s 1) else \<bar>v\<bar>) in
      if v < 0 then - m else m)"
    by (cases "s = 0") (simp_all add: rounded_def Let_def)
  define q where "q = rounded v s"
  have e: "expected_rounding v s = (min 2047 (max (-2048) q), if q > 2047 then 1 else if q < -2048 then 2 else 0)"
    unfolding expected_rounding_def q_def r Let_def by simp
  show ?thesis by (auto simp: e q_def [symmetric] saturated_def min_def max_def)
qed

lemma length_anchors [simp]: "length anchors = 9"
  by (simp add: anchors_def)

lemma stimulus_range: "-2048 \<le> stimulus_value n \<and> stimulus_value n \<le> 2047"
proof (cases "n mod 32 < 9")
  case True
  have "list_all (\<lambda>v. -2048 \<le> v \<and> v \<le> 2047) anchors" by (simp add: anchors_def)
  with True show ?thesis by (simp add: stimulus_value_def Let_def list_all_length)
next
  case False
  define x where "x = 73 * int n + 19 * (int n div 7)"
  have "0 \<le> x mod 1023" "x mod 1023 < 1023" by simp_all
  then have "-2048 \<le> x mod 1023 - 511 \<and> x mod 1023 - 511 \<le> 2047" by linarith
  with False show ?thesis by (simp add: stimulus_value_def Let_def x_def)
qed

lemma stimulus_sample: "sample_range (stimulus_value n)"
  using stimulus_range [of n] by (simp add: sample_range_def)

text \<open>The stimulus exists for every positive length, fits the sample width, and every length is a prefix of every longer one.\<close>

theorem stimulus_total:
  "stimulus ns = (if ns \<le> 0 then Inl (Exn ValueError ''invalid supplemental sample domain'') else Inr (map stimulus_value [0..<nat ns]))"
  using stimulus_range by (auto simp: stimulus_def Let_def)

corollary stimulus_prefix:
  assumes "0 < m" "m \<le> n" "stimulus n = Inr xs"
  shows "stimulus m = Inr (take (nat m) xs) \<and> list_all sample_range xs"
proof -
  have xs: "xs = map stimulus_value [0..<nat n]" using assms by (simp add: stimulus_total)
  have "take (nat m) [0..<nat n] = [0..<nat m]" using assms by (simp add: take_upt nat_mono)
  moreover have "list_all sample_range xs" using stimulus_sample by (simp add: xs list_all_iff)
  ultimately show ?thesis using assms(1) by (simp add: stimulus_total xs take_map)
qed

lemma hex_lines_Some:
  "hex_lines d n s = Some ls \<longleftrightarrow>
     s = concat (map (\<lambda>l. l @ [CHR 0x0A]) ls) \<and> list_all (\<lambda>l. length l = d \<and> list_all is_lower_hex l) ls \<and> length ls = n"
proof (induction n arbitrary: s ls)
  case (Suc n)
  show ?case
  proof
    assume "hex_lines d (Suc n) s = Some ls"
    then obtain ls' where l: "length (take d s) = d" "list_all is_lower_hex (take d s)" "drop d s \<noteq> []" "hd (drop d s) = CHR 0x0A"
      "hex_lines d n (drop (Suc d) s) = Some ls'" "ls = take d s # ls'"
      by (auto simp: Let_def split: if_splits)
    have "s = take d s @ hd (drop d s) # tl (drop d s)" using l(3) by (metis append_take_drop_id list.collapse)
    then have "s = take d s @ CHR 0x0A # drop (Suc d) s" using l(4) by (simp add: drop_Suc tl_drop)
    with l Suc.IH show "s = concat (map (\<lambda>l. l @ [CHR 0x0A]) ls) \<and> list_all (\<lambda>l. length l = d \<and> list_all is_lower_hex l) ls \<and> length ls = Suc n"
      by auto
  next
    assume r: "s = concat (map (\<lambda>l. l @ [CHR 0x0A]) ls) \<and> list_all (\<lambda>l. length l = d \<and> list_all is_lower_hex l) ls \<and> length ls = Suc n"
    then obtain l ls' where "ls = l # ls'" by (cases ls) auto
    with r Suc.IH [of "concat (map (\<lambda>l. l @ [CHR 0x0A]) ls')" ls'] show "hex_lines d (Suc n) s = Some ls" by (auto simp: Let_def)
  qed
qed auto

text \<open>The two readers of 12-bit images, written independently of each other, accept the same files and return the same samples.\<close>

theorem image_readers_agree:
  assumes "0 < n"
  shows "qual_read_memh raw 12 True n = Inr vs \<longleftrightarrow> cap_memh label raw n = Inr vs"
proof -
  have hex: "hex_lines 3 n raw = Some ls \<longleftrightarrow> hex3_lines raw = Some ls \<and> length ls = n" for ls
    by (auto simp: hex_lines_Some hex3_lines_Some)
  have small: "\<not> 4096 \<le> hex_value l" if "hex3_lines raw = Some ls" "l \<in> set ls" for ls l
    using that hex_value_bounds [of l] by (auto simp: hex3_lines_Some list_all_iff)
  show ?thesis
  proof (cases "hex3_lines raw")
    case None
    then have "hex_lines 3 n raw = None" using hex by (cases "hex_lines 3 n raw") auto
    with None show ?thesis by (simp add: qual_read_memh_def cap_memh_def)
  next
    case (Some ls)
    show ?thesis
    proof (cases "length ls = n")
      case True
      then have "hex_lines 3 n raw = Some ls" using hex Some by simp
      moreover have "\<not> (\<exists>v \<in> set (map hex_value ls). 4096 \<le> v)" using small [OF Some] by auto
      moreover have "ls \<noteq> []" using True assms by auto
      moreover have "(\<lambda>v. if 2048 \<le> v then v - push_bit 12 1 else v) = sample_of_raw"
        by (rule ext) (simp add: sample_of_raw_def push_bit_eq_mult)
      ultimately show ?thesis using Some True by (simp add: qual_read_memh_def cap_memh_def Let_def)
    next
      case False
      then have "hex_lines 3 n raw = None" using hex Some by (metis option.exhaust option.inject)
      with False Some show ?thesis by (simp add: qual_read_memh_def cap_memh_def Let_def rbind_Inr_iff need_Inr)
    qed
  qed
qed

section \<open>The summary sees what the oracle clamps\<close>

lemma overlap_add_taps: "overlap_add c target zs = Inr d \<Longrightarrow> d = add_taps c target zs"
  by (induction c target zs rule: overlap_add.induct) (auto simp: rbind_Inr_iff fit_Inr)

lemma run_frames_taps:
  "run_frames samples thr window fwd ivt cfg frame taus c = Inr (fs, d) \<Longrightarrow>
   d = foldl (\<lambda>acc (tau, f). add_taps acc (tau + oc_G cfg) (of_z f)) c (zip taus fs)"
proof (induction samples thr window fwd ivt cfg frame taus c arbitrary: fs d rule: run_frames.induct)
  case (2 samples thr window fwd ivt cfg frame tau taus c)
  from "2.prems" obtain f e fs' where step: "run_frame samples thr window fwd ivt cfg frame tau = Inr f"
    "overlap_add c (tau + oc_G cfg) (of_z f) = Inr e" "run_frames samples thr window fwd ivt cfg (frame + 1) taus e = Inr (fs', d)" "fs = f # fs'"
    by (auto simp: rbind_Inr_iff)
  from "2.IH" [OF step(1,2,3)] overlap_add_taps [OF step(2)] step(4) show ?case by simp
qed simp

lemma run_unclipped:
  assumes "run samples thr window fwd ivt Config = Inr rr" "hann_support Config window"
  shows "or_y rr = map (\<lambda>v. saturated v 12) (unclipped rr)"
  using assms(1)
proof (rule run_cases)
  fix fs c
  assume r: "run_frames samples thr window fwd ivt Config 0 (or_taus rr) (\<lambda>_. 0) = Inr (fs, c)" "or_frames rr = fs"
    "or_y rr = map (\<lambda>n. saturated (rounded (c n) (oc_F Config)) (oc_N Config)) [0..<or_ny rr]"
  define nf where "nf = (254 + length samples) div 128"
  have "or_taus rr = map (\<lambda>j. j * 128) [1..<nf + 1]" "length fs = nf"
    using run_geometry_facts [OF assms] r(2) by (simp_all add: Config_def nf_def del: upt_Suc)
  then have taus: "or_taus rr = map (\<lambda>j. (j + 1) * 128) [0..<nf]" "length fs = nf"
    by (auto intro!: nth_equalityI simp del: upt_Suc)
  have "zip (or_taus rr) fs = map (\<lambda>(j, f). ((j + 1) * 128, f)) (zip [0..<nf] fs)"
    by (simp add: taus(1) zip_map1)
  then have "c = absolute_ola rr"
    using run_frames_taps [OF r(1)] by (simp add: absolute_ola_def r(2) taus(2) foldl_map Config_def case_prod_unfold)
  with r(3) show ?thesis by (simp add: unclipped_def Config_def comp_def)
qed

text \<open>
  The numeric summary reports clipping exactly. The oracle's outputs are the summary's pre-saturation values clamped to
  12 bits, so the reported count is the number of clipped outputs, and it is zero exactly when no output was changed.
\<close>

theorem saturation_count_exact:
  assumes "run samples thr window fwd ivt Config = Inr rr" "hann_support Config window"
  shows "or_y rr = map (\<lambda>v. saturated v 12) (unclipped rr) \<and>
    ns_saturation_count (summarize_numeric rr) = int (card {i. i < or_ny rr \<and> or_y rr ! i \<noteq> unclipped rr ! i}) \<and>
    (ns_saturation_count (summarize_numeric rr) = 0 \<longleftrightarrow> or_y rr = unclipped rr)"
proof -
  note y = run_unclipped [OF assms]
  have len: "length (unclipped rr) = or_ny rr" by (simp add: unclipped_def)
  have clip: "saturated v 12 \<noteq> v \<longleftrightarrow> \<not> (-2048 \<le> v \<and> v \<le> 2047)" for v
    by (auto simp: saturated_def min_def max_def)
  have "length (filter P xs) = card {i. i < length xs \<and> P (xs ! i)}" for P and xs :: "int list"
    by (rule length_filter_conv_card)
  then have count: "ns_saturation_count (summarize_numeric rr) = int (card {i. i < or_ny rr \<and> or_y rr ! i \<noteq> unclipped rr ! i})"
    by (simp add: summarize_numeric_def Let_def len y clip cong: conj_cong)
  have "or_y rr = unclipped rr \<longleftrightarrow> {i. i < or_ny rr \<and> or_y rr ! i \<noteq> unclipped rr ! i} = {}"
    using len y by (auto simp: list_eq_iff_nth_eq)
  with count y show ?thesis by (simp add: card_eq_0_iff)
qed

section \<open>Transcripts read back\<close>

text \<open>The text of a record: its fields separated by tabs.\<close>

fun part_text :: "key_part \<Rightarrow> string" where
  "part_text (KInt v) = py_str_int v"
| "part_text (KStr s) = s"

fun join_tab :: "string list \<Rightarrow> string" where
  "join_tab [] = []"
| "join_tab [s] = s"
| "join_tab (s # t # ss) = s @ CHR 0x09 # join_tab (t # ss)"

definition record_fields :: "key \<times> int list \<Rightarrow> string list" where
  "record_fields kv = map part_text (fst kv) @ map py_str_int (snd kv)"

definition print_records :: "records \<Rightarrow> string" where
  "print_records recs = concat (map (\<lambda>kv. join_tab (record_fields kv) @ [CHR 0x0A]) recs)"

lemma split_on_field: "c \<notin> set s \<Longrightarrow> split_on c (s @ c # t) = s # split_on c t" "c \<notin> set s \<Longrightarrow> split_on c s = [s]"
  by (induction s) auto

lemma split_join: "ss \<noteq> [] \<Longrightarrow> list_all (\<lambda>s. CHR 0x09 \<notin> set s) ss \<Longrightarrow> split_on (CHR 0x09) (join_tab ss) = ss"
  by (induction ss rule: join_tab.induct) (auto simp: split_on_field)

lemma set_join_tab: "set (join_tab ss) \<subseteq> {CHR 0x09} \<union> (\<Union>s \<in> set ss. set s)"
  by (induction ss rule: join_tab.induct) auto

text \<open>The shapes of records that the oracle and the adapter produce.\<close>

inductive record_shape :: "key \<times> int list \<Rightarrow> bool" where
  shape_G: "length v = 4 \<Longrightarrow> record_shape ([KStr ''G''], v)"
| shape_Y: "length v = 1 \<Longrightarrow> record_shape ([KStr ''Y'', KInt i], v)"
| shape_R: "length v = 1 \<Longrightarrow> record_shape ([KStr ''R'', KInt i], v)"
| shape_F: "length v = 6 \<Longrightarrow> record_shape ([KStr ''F'', KInt i], v)"
| shape_B: "length v = 6 \<Longrightarrow> record_shape ([KStr ''B'', KInt i, KInt k], v)"
| shape_S: "stage \<in> set STAGES \<Longrightarrow> length v = 2 \<Longrightarrow> record_shape ([KStr ''S'', KInt i, KStr stage, KInt k], v)"
| shape_M: "n \<in> set METRIC_NAMES \<Longrightarrow> length v = 1 \<Longrightarrow> record_shape ([KStr ''M'', KStr n], v)"

lemma lexical_str [simp]: "lexical_int (py_str_int v)"
  using is_integer_text_iff [of True "py_str_int v"] by (auto simp: lexical_int_def is_integer_text_def)

lemma py_int_str [simp]: "qual_int (py_str_int v) = Inr v"
  by (simp add: qual_int_def)

lemma lexical_plain:
  assumes "k \<noteq> ''S''" "k \<noteq> ''M''"
  shows "lexical_fields (k # fs) = fs"
  using assms by (cases fs) (simp_all add: lexical_fields_def del: upt_Suc)

lemma lexical_special: "lexical_fields [''S'', a, b, c, d, e] = [a, c, d, e]" "lexical_fields [''M'', a, b] = [b]"
proof -
  have "[1..<6] = [1, 2, 3, 4, 5 :: nat]" "[1..<3] = [1, 2 :: nat]" by (simp_all add: upt_rec)
  then show "lexical_fields [''S'', a, b, c, d, e] = [a, c, d, e]" "lexical_fields [''M'', a, b] = [b]"
    by (simp_all add: lexical_fields_def)
qed

lemma rmapM_py_int [simp]: "rmapM qual_int (map py_str_int vs) = Inr vs"
  by (induction vs) simp_all

lemma arities:
  "map_of ARITY ''G'' = Some 5" "map_of ARITY ''Y'' = Some 3" "map_of ARITY ''R'' = Some 3" "map_of ARITY ''F'' = Some 8"
  "map_of ARITY ''B'' = Some 9" "map_of ARITY ''S'' = Some 6" "map_of ARITY ''M'' = Some 3"
  by (simp_all add: ARITY_def)

lemma parse_shapes:
  "parse_record (''G'' # map py_str_int [a, b, c, d]) = Inr ([KStr ''G''], [a, b, c, d])"
  "parse_record (''Y'' # map py_str_int [i, a]) = Inr ([KStr ''Y'', KInt i], [a])"
  "parse_record (''R'' # map py_str_int [i, a]) = Inr ([KStr ''R'', KInt i], [a])"
  "parse_record (''F'' # map py_str_int [i, a, b, c, d, e, f]) = Inr ([KStr ''F'', KInt i], [a, b, c, d, e, f])"
  "parse_record (''B'' # map py_str_int [i, k, a, b, c, d, e, f]) = Inr ([KStr ''B'', KInt i, KInt k], [a, b, c, d, e, f])"
  by (simp_all add: parse_record_def arities lexical_plain Let_def)

lemma parse_special:
  "stage \<in> set STAGES \<Longrightarrow> parse_record [''S'', py_str_int i, stage, py_str_int k, py_str_int a, py_str_int b] =
     Inr ([KStr ''S'', KInt i, KStr stage, KInt k], [a, b])"
  "n \<in> set METRIC_NAMES \<Longrightarrow> parse_record [''M'', n, py_str_int a] = Inr ([KStr ''M'', KStr n], [a])"
  by (simp_all add: parse_record_def arities lexical_special Let_def)

lemma parse_record_fields:
  assumes "record_shape kv"
  shows "parse_record (record_fields kv) = Inr kv"
  using assms
proof cases
  case (shape_G v)
  then obtain a b c d where "v = [a, b, c, d]" by (auto simp: length_Suc_conv eval_nat_numeral)
  with shape_G parse_shapes(1) show ?thesis by (simp add: record_fields_def)
next
  case (shape_F v i)
  then obtain a b c d e f where "v = [a, b, c, d, e, f]" by (auto simp: length_Suc_conv eval_nat_numeral)
  with shape_F parse_shapes(4) show ?thesis by (simp add: record_fields_def)
next
  case (shape_B v i k)
  then obtain a b c d e f where "v = [a, b, c, d, e, f]" by (auto simp: length_Suc_conv eval_nat_numeral)
  with shape_B parse_shapes(5) show ?thesis by (simp add: record_fields_def)
next
  case (shape_S stage v i k)
  then obtain a b where "v = [a, b]" by (auto simp: length_Suc_conv eval_nat_numeral)
  with shape_S parse_special(1) show ?thesis by (simp add: record_fields_def)
qed (use parse_shapes(2,3) parse_special(2) in \<open>auto simp: length_Suc_conv record_fields_def\<close>)

lemma solid_str: "c \<in> set (py_str_int v) \<Longrightarrow> py_isdigit c \<or> c = CHR ''-''"
  using nat_str_props by (auto simp: py_str_int_def list_all_iff split: if_splits)

definition quiet :: "string \<Rightarrow> bool" where
  "quiet s \<longleftrightarrow> CHR 0x09 \<notin> set s \<and> list_all (\<lambda>c. \<not> is_line_end c) s"

lemma quiet_str: "quiet (py_str_int v)"
  using solid_str [of _ v] by (fastforce simp: quiet_def list_all_iff py_isdigit_def is_line_end_def code_def)

lemma record_fields_quiet:
  assumes "record_shape kv"
  shows "list_all quiet (record_fields kv)" "record_fields kv \<noteq> []"
proof -
  have "list_all quiet STAGES" "list_all quiet METRIC_NAMES" "list_all quiet [''G'', ''Y'', ''R'', ''F'', ''B'', ''S'', ''M'']"
    by (simp_all add: STAGES_def METRIC_NAMES_def quiet_def is_line_end_def code_def)
  note strs = this
  show "list_all quiet (record_fields kv)" using assms strs
    by cases (auto simp: list_all_iff quiet_str record_fields_def)
  show "record_fields kv \<noteq> []" using assms by cases (auto simp: record_fields_def)
qed

fun add_all :: "parse_state \<Rightarrow> records \<Rightarrow> parse_state result" where
  "add_all st [] = Inr st"
| "add_all st (kv # kvs) = rbind (add_record st kv) (\<lambda>st. add_all st kvs)"

lemma add_all_append: "add_all st (xs @ ys) = rbind (add_all st xs) (\<lambda>st. add_all st ys)"
  by (induction xs arbitrary: st) (simp_all add: rbind_assoc)

lemma parse_lines_fields:
  "list_all record_shape recs \<Longrightarrow> parse_lines st (map (\<lambda>kv. join_tab (record_fields kv)) recs) = add_all st recs"
proof (induction recs arbitrary: st)
  case (Cons kv recs)
  have "split_on (CHR 0x09) (join_tab (record_fields kv)) = record_fields kv"
    using Cons.prems record_fields_quiet [of kv] by (intro split_join) (auto simp: list_all_iff quiet_def)
  with Cons show ?case by (simp add: parse_record_fields)
qed simp

lemma parse_printed:
  assumes "list_all record_shape recs" "recs \<noteq> []"
  shows "transcript_records (print_records recs) = rbind (add_all ([], \<lambda>_. 0) recs) (\<lambda>st. Inr (fst st))"
proof -
  have "list_all (list_all (\<lambda>c. \<not> is_line_end c)) (map (\<lambda>kv. join_tab (record_fields kv)) recs)"
  proof -
    have "\<not> is_line_end c" if "kv \<in> set recs" "c \<in> set (join_tab (record_fields kv))" for kv c
      using that set_join_tab [of "record_fields kv"] assms(1) record_fields_quiet(1) [of kv]
      by (fastforce simp: list_all_iff quiet_def is_line_end_def code_def)
    then show ?thesis by (simp add: list_all_iff)
  qed
  from splitlines_lines [OF this] have "py_splitlines (print_records recs) = map (\<lambda>kv. join_tab (record_fields kv)) recs"
    by (simp add: print_records_def comp_def)
  moreover have "print_records recs \<noteq> [] \<and> last (print_records recs) = CHR 0x0A"
    using assms(2) by (cases recs rule: rev_cases) (simp_all add: print_records_def)
  ultimately show ?thesis using parse_lines_fields [OF assms(1)] by (simp add: transcript_records_def)
qed

text \<open>Every indexed key of a parser state lies below the counter of its group.\<close>

definition seq_inv :: "parse_state \<Rightarrow> bool" where
  "seq_inv st \<longleftrightarrow> (\<forall>k \<in> set (map fst (fst st)). indexed_kind k \<longrightarrow>
     (\<exists>i. last k = KInt i \<and> 0 \<le> i \<and> i < snd st (butlast k))) \<and> (\<forall>g. 0 \<le> snd st g)"

lemma add_record_indexed:
  assumes "seq_inv st" "indexed_kind (g @ [KInt (snd st g)])"
  shows "add_record st (g @ [KInt (snd st g)], v) =
      Inr (fst st @ [(g @ [KInt (snd st g)], v)], (snd st)(g := snd st g + 1)) \<and>
    seq_inv (fst st @ [(g @ [KInt (snd st g)], v)], (snd st)(g := snd st g + 1))"
proof -
  have fresh: "g @ [KInt (snd st g)] \<notin> set (map fst (fst st))"
    using assms unfolding seq_inv_def by fastforce
  then show ?thesis using assms by (fastforce simp: add_record_def Let_def seq_inv_def)
qed

lemma add_block:
  assumes "g \<noteq> []" "hd g \<in> KStr ` {''Y'', ''R'', ''F'', ''S'', ''B''}"
  shows "seq_inv st \<Longrightarrow> snd st g = int j \<Longrightarrow>
    (\<exists>seq. add_all st (map (\<lambda>i. (g @ [KInt (int (j + i))], vs ! i)) [0..<length vs]) =
        Inr (fst st @ map (\<lambda>i. (g @ [KInt (int (j + i))], vs ! i)) [0..<length vs], seq) \<and>
      seq_inv (fst st @ map (\<lambda>i. (g @ [KInt (int (j + i))], vs ! i)) [0..<length vs], seq) \<and>
      seq = (snd st)(g := int (j + length vs)))"
proof (induction vs arbitrary: st j)
  case (Cons v vs)
  have idx: "indexed_kind (g @ [KInt (snd st g)])" using assms by (simp add: indexed_kind_def)
  define st' where "st' = (fst st @ [(g @ [KInt (int j)], v)], (snd st)(g := int (Suc j)))"
  have step: "add_record st (g @ [KInt (int j)], v) = Inr st'" "seq_inv st'"
    using add_record_indexed [OF Cons.prems(1) idx, of v] Cons.prems(2) by (simp_all add: st'_def add.commute)
  have split: "map (\<lambda>i. (g @ [KInt (int (j + i))], (v # vs) ! i)) [0..<length (v # vs)] =
      (g @ [KInt (int j)], v) # map (\<lambda>i. (g @ [KInt (int (Suc j + i))], vs ! i)) [0..<length vs]"
    by (simp add: upt_conv_Cons map_Suc_upt [symmetric] comp_def del: upt_Suc map_Suc_upt)
  have upd: "(snd st')(g := x) = (snd st)(g := x)" for x by (simp add: st'_def)
  let ?M = "map (\<lambda>i. (g @ [KInt (int (Suc j + i))], vs ! i)) [0..<length vs]"
  have "snd st' g = int (Suc j)" by (simp add: st'_def)
  from Cons.IH [OF step(2) this] have IH: "add_all st' ?M = Inr (fst st' @ ?M, (snd st)(g := int (Suc j + length vs)))"
    "seq_inv (fst st' @ ?M, (snd st)(g := int (Suc j + length vs)))"
    unfolding upd by blast+
  have "fst st' @ ?M = fst st @ (g @ [KInt (int j)], v) # ?M" "int (j + length (v # vs)) = int (Suc j + length vs)"
    by (simp_all add: st'_def)
  with IH step(1) show ?case unfolding split add_all.simps by (simp add: fun_upd_def)
qed (simp add: fun_upd_idem)

lemma add_block0:
  assumes "g \<noteq> []" "hd g \<in> KStr ` {''Y'', ''R'', ''F'', ''S'', ''B''}" "seq_inv st" "snd st g = 0"
  shows "add_all st (block g vs) = Inr (fst st @ block g vs, (snd st)(g := int (length vs))) \<and>
    seq_inv (fst st @ block g vs, (snd st)(g := int (length vs)))"
  using add_block [OF assms(1-3), of 0 vs] assms(4) by (simp add: block_def)

lemma add_single:
  assumes "seq_inv st" "snd st [KStr ''F''] = int j"
  shows "add_record st ([KStr ''F'', KInt (int j)], v) =
      Inr (fst st @ [([KStr ''F'', KInt (int j)], v)], (snd st)([KStr ''F''] := int j + 1)) \<and>
    seq_inv (fst st @ [([KStr ''F'', KInt (int j)], v)], (snd st)([KStr ''F''] := int j + 1))"
proof -
  have "indexed_kind ([KStr ''F''] @ [KInt (snd st [KStr ''F''])])" by (simp add: indexed_kind_def)
  from add_record_indexed [OF assms(1) this, of v] assms(2) show ?thesis by simp
qed

definition untouched :: "nat \<Rightarrow> (key \<Rightarrow> int) \<Rightarrow> bool" where
  "untouched i seq \<longleftrightarrow> seq [KStr ''F''] = int i \<and> seq [KStr ''Y''] = 0 \<and>
     (\<forall>j \<ge> i. seq [KStr ''B'', KInt (int j)] = 0 \<and> (\<forall>stage. seq [KStr ''S'', KInt (int j), KStr stage] = 0))"

lemma add_stages:
  assumes "distinct stages"
  shows "seq_inv st \<Longrightarrow> \<forall>stage \<in> set stages. snd st [KStr ''S'', KInt (int i), KStr stage] = 0 \<Longrightarrow>
    \<exists>seq. add_all st (concat (map (\<lambda>stage. block [KStr ''S'', KInt (int i), KStr stage] (f stage)) stages)) =
        Inr (fst st @ concat (map (\<lambda>stage. block [KStr ''S'', KInt (int i), KStr stage] (f stage)) stages), seq) \<and>
      seq_inv (fst st @ concat (map (\<lambda>stage. block [KStr ''S'', KInt (int i), KStr stage] (f stage)) stages), seq) \<and>
      (\<forall>g. (\<forall>stage \<in> set stages. g \<noteq> [KStr ''S'', KInt (int i), KStr stage]) \<longrightarrow> seq g = snd st g)"
  using assms
proof (induction stages arbitrary: st)
  case (Cons a stages)
  let ?g = "[KStr ''S'', KInt (int i), KStr a]"
  define st' where "st' = (fst st @ block ?g (f a), (snd st)(?g := int (length (f a))))"
  have step: "add_all st (block ?g (f a)) = Inr st'" "seq_inv st'"
    using add_block0 [of ?g st "f a"] Cons.prems by (simp_all add: st'_def)
  have "\<forall>stage \<in> set stages. snd st' [KStr ''S'', KInt (int i), KStr stage] = 0"
    using Cons.prems by (auto simp: st'_def)
  from Cons.IH [OF step(2) this] Cons.prems(3) obtain seq where IH:
    "add_all st' (concat (map (\<lambda>stage. block [KStr ''S'', KInt (int i), KStr stage] (f stage)) stages)) =
        Inr (fst st' @ concat (map (\<lambda>stage. block [KStr ''S'', KInt (int i), KStr stage] (f stage)) stages), seq)"
    "seq_inv (fst st' @ concat (map (\<lambda>stage. block [KStr ''S'', KInt (int i), KStr stage] (f stage)) stages), seq)"
    "\<forall>g. (\<forall>stage \<in> set stages. g \<noteq> [KStr ''S'', KInt (int i), KStr stage]) \<longrightarrow> seq g = snd st' g"
    by auto
  then show ?case by (intro exI [of _ seq]) (auto simp: add_all_append step(1) st'_def)
qed auto

lemma distinct_stages: "distinct STAGES"
  by (simp add: STAGES_def)

lemma add_frame:
  assumes "seq_inv st" "untouched i (snd st)"
  shows "\<exists>seq. add_all st (frame_records i f) = Inr (fst st @ frame_records i f, seq) \<and>
    seq_inv (fst st @ frame_records i f, seq) \<and> untouched (Suc i) seq"
proof -
  define S where "S = concat (map (\<lambda>stage. block [KStr ''S'', KInt (int i), KStr stage] (stage_values f stage)) STAGES)"
  define B where "B = map (\<lambda>b. [ob_re b, ob_im b, ob_mag2 b, of_bool (ob_eligible b), of_bool (ob_pre b), of_bool (ob_mask b)]) (of_bins f)"
  define F where "F = ([KStr ''F'', KInt (int i)], stats_list (of_stats f))"
  have rec: "frame_records i f = S @ [F] @ block [KStr ''B'', KInt (int i)] B"
    by (simp add: frame_records_def S_def F_def B_def)
  have free: "\<forall>stage \<in> set STAGES. snd st [KStr ''S'', KInt (int i), KStr stage] = 0" using assms(2) by (simp add: untouched_def)
  obtain seq where s: "add_all st S = Inr (fst st @ S, seq)" "seq_inv (fst st @ S, seq)"
    "\<forall>g. (\<forall>stage \<in> set STAGES. g \<noteq> [KStr ''S'', KInt (int i), KStr stage]) \<longrightarrow> seq g = snd st g"
    using add_stages [OF distinct_stages assms(1) free, of "stage_values f"] unfolding S_def by blast
  have "seq [KStr ''F''] = int i" using s(3) assms(2) by (simp add: untouched_def)
  note f = add_single [OF s(2), unfolded snd_conv, OF this, of "stats_list (of_stats f)", folded F_def, unfolded fst_conv]
  let ?seq' = "seq([KStr ''F''] := int i + 1)"
  have "?seq' [KStr ''B'', KInt (int i)] = 0" using s(3) assms(2) by (simp add: untouched_def)
  with add_block0 [of "[KStr ''B'', KInt (int i)]" "((fst st @ S) @ [F], ?seq')" B] f
  have b: "add_all ((fst st @ S) @ [F], ?seq') (block [KStr ''B'', KInt (int i)] B) =
      Inr (((fst st @ S) @ [F]) @ block [KStr ''B'', KInt (int i)] B, ?seq'([KStr ''B'', KInt (int i)] := int (length B)))"
    "seq_inv (((fst st @ S) @ [F]) @ block [KStr ''B'', KInt (int i)] B, ?seq'([KStr ''B'', KInt (int i)] := int (length B)))"
    by (simp_all del: fun_upd_apply)
  have "untouched (Suc i) (?seq'([KStr ''B'', KInt (int i)] := int (length B)))"
    using s(3) assms(2) by (auto simp: untouched_def)
  with b s(1) f show ?thesis
    by (intro exI [of _ "?seq'([KStr ''B'', KInt (int i)] := int (length B))"]) (simp add: rec add_all_append del: fun_upd_apply)
qed

lemma add_frames:
  assumes "seq_inv st" "untouched i (snd st)"
  shows "\<exists>seq. add_all st (concat (map (\<lambda>(i, f). frame_records i f) (zip [i..<i + length fs] fs))) =
      Inr (fst st @ concat (map (\<lambda>(i, f). frame_records i f) (zip [i..<i + length fs] fs)), seq) \<and>
    seq_inv (fst st @ concat (map (\<lambda>(i, f). frame_records i f) (zip [i..<i + length fs] fs)), seq) \<and> untouched (i + length fs) seq"
  using assms
proof (induction fs arbitrary: st i)
  case (Cons f fs)
  obtain seq where f: "add_all st (frame_records i f) = Inr (fst st @ frame_records i f, seq)"
    "seq_inv (fst st @ frame_records i f, seq)" "untouched (Suc i) seq" using add_frame [OF Cons.prems, of f] by blast
  have "zip [i..<i + length (f # fs)] (f # fs) = (i, f) # zip [Suc i..<Suc i + length fs] fs"
    by (simp add: upt_conv_Cons del: upt_Suc)
  with Cons.IH [of "(fst st @ frame_records i f, seq)" "Suc i"] f show ?case
    by (auto simp: add_all_append simp del: upt_Suc)
qed (auto intro!: exI [of _ "snd _"])

lemma add_metrics:
  assumes "distinct (map fst nvs)" "\<forall>k \<in> set (map fst recs). hd k \<noteq> KStr ''M''" "set (map fst pre) \<inter> set (map fst nvs) = {}"
  shows "add_all (recs @ map (\<lambda>(n, v). ([KStr ''M'', KStr n], [v])) pre, seq) (map (\<lambda>(n, v). ([KStr ''M'', KStr n], [v])) nvs) =
      Inr (recs @ map (\<lambda>(n, v). ([KStr ''M'', KStr n], [v])) (pre @ nvs), seq)"
  using assms(3,1)
proof (induction nvs arbitrary: pre)
  case (Cons nv nvs)
  obtain n v where nv: "nv = (n, v)" by (cases nv)
  have fresh: "[KStr ''M'', KStr n] \<notin> set (map fst (recs @ map (\<lambda>(n, v). ([KStr ''M'', KStr n], [v])) pre))"
    using Cons.prems assms(2) by (force simp: nv)
  have "\<not> indexed_kind [KStr ''M'', KStr n]" by (simp add: indexed_kind_def image_iff)
  with fresh have "add_record (recs @ map (\<lambda>(n, v). ([KStr ''M'', KStr n], [v])) pre, seq) ([KStr ''M'', KStr n], [v]) =
      Inr (recs @ map (\<lambda>(n, v). ([KStr ''M'', KStr n], [v])) (pre @ [nv]), seq)"
    unfolding add_record_def Let_def fst_conv snd_conv nv by (simp only: if_False) simp
  moreover have "set (map fst (pre @ [nv])) \<inter> set (map fst nvs) = {}" using Cons.prems by auto
  ultimately show ?case using Cons.IH [of "pre @ [nv]"] Cons.prems by (simp add: nv)
qed simp

lemma block_shapes:
  assumes "\<And>v i. v \<in> set vss \<Longrightarrow> record_shape (g @ [KInt i], v)"
  shows "list_all record_shape (block g vss)"
  using assms by (auto simp: block_def list_all_iff)

lemma frame_shapes: "list_all record_shape (frame_records i f)"
proof -
  have "record_shape ([KStr ''S'', KInt (int i), KStr stage] @ [KInt k], v)" if "stage \<in> set STAGES" "v \<in> set (stage_values f stage)" for stage k v
    using that by (auto simp: stage_values_def Let_def split: if_splits intro!: shape_S)
  then have "list_all record_shape (block [KStr ''S'', KInt (int i), KStr stage] (stage_values f stage))" if "stage \<in> set STAGES" for stage
    using that by (intro block_shapes) auto
  moreover have "list_all record_shape (block [KStr ''B'', KInt (int i)]
      (map (\<lambda>b. [ob_re b, ob_im b, ob_mag2 b, of_bool (ob_eligible b), of_bool (ob_pre b), of_bool (ob_mask b)]) (of_bins f)))"
    by (intro block_shapes) (auto intro!: shape_B)
  moreover have "record_shape ([KStr ''F'', KInt (int i)], stats_list (of_stats f))" by (intro shape_F) (simp add: stats_list_def)
  ultimately show ?thesis by (auto simp: frame_records_def list_all_iff)
qed

lemma run_shapes: "list_all record_shape (run_records r)"
proof -
  have "list_all record_shape (block [KStr ''Y''] (map (\<lambda>y. [y]) (or_y r)))" by (intro block_shapes) (auto intro!: shape_Y)
  moreover have "list_all record_shape (concat (map (\<lambda>(i, f). frame_records i f) (zip [0..<length (or_frames r)] (or_frames r))))"
    using frame_shapes by (auto simp: list_all_iff)
  moreover have "list_all record_shape (map (\<lambda>(n, v). ([KStr ''M'', KStr n], [v])) (zip METRIC_NAMES (run_metrics r)))"
    by (auto simp: list_all_iff intro!: shape_M dest: set_zip_leftD)
  ultimately show ?thesis by (simp add: run_records_def shape_G)
qed

lemma not_metric_keys:
  "k \<in> set (map fst (block g vss)) \<Longrightarrow> g \<noteq> [] \<Longrightarrow> hd k = hd g"
  "k \<in> set (map fst (frame_records i f)) \<Longrightarrow> hd k \<noteq> KStr ''M''"
  by (auto simp: block_def frame_records_def)

text \<open>The parser accepts the oracle's own records, printed line by line, and returns them.\<close>

lemma parse_run_records: "transcript_records (print_records (run_records r)) = Inr (run_records r)"
proof -
  define G where "G = ([KStr ''G''], [int (or_samples r), int (length (or_taus r)), int (last (or_taus r)), int (or_ny r)])"
  define FR where "FR = concat (map (\<lambda>(i, f). frame_records i f) (zip [0..<length (or_frames r)] (or_frames r)))"
  define Y where "Y = block [KStr ''Y''] (map (\<lambda>y. [y]) (or_y r))"
  define MS where "MS = zip METRIC_NAMES (run_metrics r)"
  define m where "m = (\<lambda>(n, v). ([KStr ''M'', KStr n], [v :: int]))"
  have recs: "run_records r = [G] @ FR @ Y @ map m MS"
    by (simp add: run_records_def G_def FR_def Y_def MS_def m_def)
  have nG: "\<not> indexed_kind (fst G)" by (simp add: indexed_kind_def image_iff G_def)
  then have g: "add_record ([], \<lambda>_. 0) G = Inr ([G], \<lambda>_. 0)" by (simp add: add_record_def Let_def)
  have "seq_inv ([G], \<lambda>_. 0)" "untouched 0 (\<lambda>_. 0)" using nG by (simp_all add: seq_inv_def untouched_def)
  then obtain seq where fr: "add_all ([G], \<lambda>_. 0) FR = Inr ([G] @ FR, seq)" "seq_inv ([G] @ FR, seq)" "untouched (length (or_frames r)) seq"
    using add_frames [of "([G], \<lambda>_. 0)" 0 "or_frames r"] by (auto simp: FR_def)
  have "seq [KStr ''Y''] = 0" using fr(3) by (simp add: untouched_def)
  then obtain seq' where y: "add_all ([G] @ FR, seq) Y = Inr (([G] @ FR) @ Y, seq')"
    using add_block0 [of "[KStr ''Y'']" "([G] @ FR, seq)" "map (\<lambda>y. [y]) (or_y r)"] fr(2) by (auto simp: Y_def)
  have "hd k \<noteq> KStr ''M''" if "k \<in> set (map fst (([G] @ FR) @ Y))" for k
    using that not_metric_keys(2) [of k] not_metric_keys(1) [of k "[KStr ''Y'']" "map (\<lambda>y. [y]) (or_y r)"]
    by (fastforce simp: G_def FR_def Y_def)
  moreover have "distinct (map fst MS)"
    by (simp add: MS_def map_fst_zip_take) (simp add: METRIC_NAMES_def)
  ultimately have ms: "add_all (([G] @ FR) @ Y, seq') (map m MS) = Inr ((([G] @ FR) @ Y) @ map m MS, seq')"
    using add_metrics [of MS "([G] @ FR) @ Y" "[]" seq'] unfolding m_def by auto
  have "add_all ([], \<lambda>_. 0) (run_records r) = Inr (run_records r, seq')"
    using g fr(1) y ms by (simp add: recs add_all_append)
  moreover have "run_records r \<noteq> []" by (simp add: recs)
  ultimately show ?thesis using parse_printed [OF run_shapes, of r] by simp
qed

section \<open>What the comparison accepts\<close>

text \<open>Keys are unique, and the indices of every group that occurs are gapless from zero.\<close>

definition gapless :: "records \<Rightarrow> bool" where
  "gapless recs \<longleftrightarrow> distinct (map fst recs) \<and>
     (\<forall>k \<in> set (map fst recs). indexed_kind k \<longrightarrow>
        (\<exists>i. last k = KInt i \<and> 0 \<le> i \<and> (\<forall>j. 0 \<le> j \<and> j < i \<longrightarrow> butlast k @ [KInt j] \<in> set (map fst recs))))"

definition parse_inv :: "parse_state \<Rightarrow> bool" where
  "parse_inv st \<longleftrightarrow> distinct (map fst (fst st)) \<and> seq_inv st \<and>
     (\<forall>g j. 0 \<le> j \<and> j < snd st g \<longrightarrow> g @ [KInt j] \<in> set (map fst (fst st)))"

lemma parse_record_key: "parse_record f = Inr kv \<Longrightarrow> fst kv \<noteq> []"
  by (auto simp: parse_record_def Let_def result_simps split: if_splits)

lemma add_record_inv:
  assumes "parse_inv st" "fst kv \<noteq> []" "add_record st kv = Inr st'"
  shows "parse_inv st'"
proof -
  define k where "k = fst kv"
  have fresh: "k \<notin> set (map fst (fst st))" and inv: "distinct (map fst (fst st))" "seq_inv st"
    "\<And>g j. 0 \<le> j \<Longrightarrow> j < snd st g \<Longrightarrow> g @ [KInt j] \<in> set (map fst (fst st))"
    using assms by (auto simp: add_record_def Let_def k_def parse_inv_def split: if_splits)
  show ?thesis
  proof (cases "indexed_kind k")
    case False
    then have "st' = (fst st @ [kv], snd st)" using assms(3) by (auto simp: add_record_def Let_def k_def split: if_splits)
    with inv fresh False show ?thesis by (auto simp: parse_inv_def seq_inv_def k_def)
  next
    case True
    define g where "g = butlast k"
    have st': "st' = (fst st @ [kv], (snd st)(g := snd st g + 1))" and last: "last k = KInt (snd st g)"
      using True assms(3) by (auto simp: add_record_def Let_def k_def g_def split: if_splits)
    then have k: "k = g @ [KInt (snd st g)]" using assms(2) by (metis append_butlast_last_id g_def k_def)
    then have kv: "kv = (g @ [KInt (snd st g)], snd kv)" by (metis k_def prod.collapse)
    have "seq_inv st'" using add_record_indexed [OF inv(2), of g "snd kv"] True k kv st' by metis
    moreover have "g' @ [KInt j] \<in> set (map fst (fst st'))" if "0 \<le> j" "j < snd st' g'" for g' j
      using that inv(3) [of j g'] k by (cases "g' = g"; cases "j = snd st g") (auto simp: st' k_def)
    moreover have "distinct (map fst (fst st'))" using inv(1) fresh by (simp add: st' k_def)
    ultimately show ?thesis by (simp add: parse_inv_def)
  qed
qed

lemma parse_lines_inv: "parse_lines st ls = Inr st' \<Longrightarrow> parse_inv st \<Longrightarrow> parse_inv st'"
proof (induction ls arbitrary: st)
  case (Cons l ls)
  then show ?case by (auto simp: result_simps dest: parse_record_key add_record_inv)
qed simp

lemma transcript_gapless:
  assumes "transcript_records text = Inr recs"
  shows "gapless recs"
proof -
  obtain seq where "parse_lines ([], \<lambda>_. 0) (py_splitlines text) = Inr (recs, seq)"
    using assms by (auto simp: transcript_records_def result_simps split: if_splits)
  moreover have "parse_inv ([], \<lambda>_. 0)" by (simp add: parse_inv_def seq_inv_def)
  ultimately have inv: "parse_inv (recs, seq)" by (rule parse_lines_inv)
  show ?thesis unfolding gapless_def
  proof (intro conjI ballI impI)
    show "distinct (map fst recs)" using inv by (simp add: parse_inv_def)
    fix k assume "k \<in> set (map fst recs)" "indexed_kind k"
    then obtain i where "last k = KInt i" "0 \<le> i" "i < seq (butlast k)" using inv by (fastforce simp: parse_inv_def seq_inv_def)
    with inv show "\<exists>i. last k = KInt i \<and> 0 \<le> i \<and> (\<forall>j. 0 \<le> j \<and> j < i \<longrightarrow> butlast k @ [KInt j] \<in> set (map fst recs))"
      by (auto simp: parse_inv_def intro!: exI [of _ i])
  qed
qed

lemma compare_records_iff:
  assumes "distinct (map fst wanted)" "distinct (map fst actual)"
  shows "compare_records wanted actual = Inr n \<longleftrightarrow> set actual = set wanted \<and> n = int (length wanted)"
proof -
  have loop: "(\<exists>us. rmapM (\<lambda>(k, v). if map_of actual k = Some v then Inr () else Inl e) wanted = Inr us) \<longleftrightarrow> set wanted \<subseteq> set actual" for e
  proof -
    have "(\<exists>us. rmapM (\<lambda>(k, v). if map_of actual k = Some v then Inr () else Inl e) wanted = Inr us) \<longleftrightarrow>
        (\<forall>p \<in> set wanted. map_of actual (fst p) = Some (snd p))"
      by (simp add: rmapM_unit all_set_conv_all_nth case_prod_unfold) blast
    then show ?thesis using assms(2) by (auto simp: subset_iff)
  qed
  have "set (map fst wanted) = set (map fst actual) \<and> set wanted \<subseteq> set actual \<longleftrightarrow> set actual = set wanted"
  proof
    assume k: "set (map fst wanted) = set (map fst actual) \<and> set wanted \<subseteq> set actual"
    have "p \<in> set wanted" if p: "p \<in> set actual" for p
    proof -
      have "fst p \<in> fst ` set wanted" using k p by (metis image_eqI list.set_map)
      then obtain v where "(fst p, v) \<in> set wanted" by force
      moreover from this have "(fst p, v) \<in> set actual" using k by blast
      then have "v = snd p" using eq_key_imp_eq_value [OF assms(2)] p by (metis prod.collapse)
      ultimately show ?thesis by simp
    qed
    with k show "set actual = set wanted" by blast
  qed simp
  then show ?thesis using loop [of "Exn ValueError ''first mismatch''"] unfolding compare_records_def rbind_Inr_iff
    by (auto simp: rbind_Inr_iff split: if_splits)
qed

text \<open>
  C40: The comparison of the reference qualification is exact. The transcript that lists the oracle's records is accepted;
  and a transcript is accepted if and only if it parses and its records are exactly those of the run. Whatever parses has
  unique keys and gapless indices, so an accepted transcript names every stage value, bin, frame, output and metric
  of the run once, and nothing else.
\<close>

theorem qualification_exact:
  "rbind (transcript_records (print_records (run_records r))) (compare_records (run_records r)) = Inr (int (length (run_records r))) \<and>
   (rbind (transcript_records text) (compare_records (run_records r)) = Inr n \<longleftrightarrow>
      (\<exists>recs. transcript_records text = Inr recs \<and> gapless recs \<and> set recs = set (run_records r)) \<and> n = int (length (run_records r)))"
proof -
  have g: "gapless (run_records r)" using transcript_gapless [OF parse_run_records] .
  have cmp: "compare_records (run_records r) recs = Inr n \<longleftrightarrow> set recs = set (run_records r) \<and> n = int (length (run_records r))"
    if "gapless recs" for recs n
    using g that by (intro compare_records_iff) (simp_all add: gapless_def)
  have "rbind (transcript_records text) (compare_records (run_records r)) = Inr n \<longleftrightarrow>
      (\<exists>recs. transcript_records text = Inr recs \<and> gapless recs \<and> compare_records (run_records r) recs = Inr n)"
    unfolding rbind_Inr_iff using transcript_gapless by blast
  then show ?thesis using cmp [OF g, of "int (length (run_records r))"] cmp unfolding parse_run_records rbind.simps by blast
qed

theorem saturation_count_exact_witness:
  "\<exists>rr. run [0] 10 silent_window silent_table silent_table Config = Inr rr \<and> or_y rr = map (\<lambda>v. saturated v 12) (unclipped rr)"
proof -
  obtain rr where rr: "run [0] 10 silent_window silent_table silent_table Config = Inr rr" using silent_run ..
  from saturation_count_exact [OF rr silent_hann] rr show ?thesis by blast
qed

end
