(* ===== verification/Spec2Isabelle.thy ===== *)
theory Spec2Isabelle
  imports Capture_Triage Dashboard_App Memh Ddr_Ring Completion Generators Delay_History Audio_Model Adc_Model Flow_Control Event_Scoring Board_Measurement Active_Tail Qualification
begin

text \<open>
  Verification development of T-RECAP, phase 2.

  \<^bold>\<open>The program.\<close> T-RECAP is a spectral threshold denoiser on an FPGA with a processor that streams telemetry over UDP and takes
  commands, and a PC-side dashboard. The Python of the repository is the PC side (\<^verbatim>\<open>phase2/sw/pc_dashboard\<close>), the golden
  reference package (\<^verbatim>\<open>phase2/sw/reference_model\<close>), the dependency-free contract models of the hardware
  (\<^verbatim>\<open>phase2/scripts/sim\<close>), the independent integer oracle with the checker of core replays (\<^verbatim>\<open>phase2/scripts/verification\<close>), the
  bring-up tools (\<^verbatim>\<open>phase2/scripts/bringup\<close>), the energy logger with its analysis (\<^verbatim>\<open>phase2/sw/measurement\<close>,
  \<^verbatim>\<open>phase2/scripts/measurement\<close>) and the scoring of step events. A datagram goes from the socket
  through the receiver thread and its queue to the parser, and from there into the display buffers; a command goes from the user
  interface through the command queue to the worker thread, and from there to the wire and back; samples go from the generators through the
  oracle's analysis, mask and synthesis to the outputs that the completion, delay and flow-control models count; the oracle's files and the
  files of a simulated or captured replay go through the checker; the rows of the energy logger go to the analysis.

  \<^bold>\<open>Shared theories.\<close>
  \<^item> \<open>Prelude\<close>: exceptions as values, the result monad, little-endian byte fields, and the interfaces \<open>codec\<close>, \<open>strict_codec\<close>,
    \<open>step_invariant\<close>, \<open>simulation\<close>, \<open>saturating_counter\<close> and \<open>serial_decoder\<close>, each interpreted by the components below.
  \<^item> \<open>Py_Strings\<close>: the string and integer-literal operations of Python that the sources use.
  \<^item> \<open>Serial_Numbers\<close>: sequence accounting modulo \<open>2\<^sup>32\<close> as a specification, and the interface \<open>seq_tracker\<close> through which
    the receiver and the dashboard refine it.
  \<^item> \<open>Rounding\<close>: rounding to nearest with ties away from zero as a specification and the interface \<open>round_ties_away\<close>, interpreted by the
    oracle and by the audio model.

  \<^bold>\<open>Components.\<close> One theory each; the record of a theory is the object of the source, its functions are the methods.
  \<^item> \<open>Packet_Spec\<close>, \<open>Packet_Parser\<close>, \<open>Packet_Examples\<close>: the generated wire tables (\<^verbatim>\<open>generated/trecap_packet.py\<close>) and the strict parser with
    the capture reader (\<^verbatim>\<open>packet_parser.py\<close>). What is accepted satisfies the frozen contract and re-encodes to the same bytes;
    which exceptions can leave the parser.
  \<^item> \<open>Ring_Buffers\<close>: the display buffers (\<^verbatim>\<open>ring_buffers.py\<close>). Invariant over all operations, content, sequence accounting.
  \<^item> \<open>Udp_Receiver\<close>: the receiver, the capture writer and the background thread with its queue (\<^verbatim>\<open>udp_receiver.py\<close>). Capture round trip,
    conservation of datagrams and events, what can end the thread.
  \<^item> \<open>Command_Codec\<close>, \<open>Command_Client\<close>: the command objects and the session (\<^verbatim>\<open>command_client.py\<close>). Exact codecs, correlation of replies, retries,
    PING before every version-2 command.
  \<^item> \<open>Live_Commands\<close>: the live command controller of \<^verbatim>\<open>dashboard.py\<close>, two threads as a step relation. Every command has exactly one outcome, order,
    shutdown.
  \<^item> \<open>Dashboard_App\<close>: the application of \<^verbatim>\<open>dashboard.py\<close>, where the previous five meet. Receiver and dashboard agree on a live run, and
    replaying a capture reproduces the live session.
  \<^item> \<open>Memh\<close>, \<open>Generators\<close>: the memory-image artifacts and the input-vector generators of the golden package. Exact parser, vectors in range,
    file round trip, the noise recurrence.
  \<^item> \<open>Integer_Oracle\<close>: the integer STFT/WOLA oracle (\<^verbatim>\<open>reference_integer_oracle.py\<close>). Stage widths, the mask, geometry, silence.
  \<^item> \<open>Completion\<close>, \<open>Delay_History\<close>, \<open>Flow_Control\<close>, \<open>Ddr_Ring\<close>, \<open>Audio_Model\<close>, \<open>Adc_Model\<close>: the contract models under \<^verbatim>\<open>scripts/sim\<close>. Exact
    completion, the delay history as a refinement of its streams and its agreement with the oracle, the admission gate, ring ownership, codec
    initialisation, clock-crossing FIFOs and scaling, the converter wrapper as a refinement of its specification; \<open>Active_Tail\<close>, the separation of
    active frames and tail, whose check passes for every stream length. The enumerations and directed runs of these scripts are replaced by theorems for
    all parameters where the code has parameters, and the scripts' own checks are functions proved to pass.

  \<^item> \<open>Wire_Validator\<close>, \<open>Smoke_Receiver\<close>, \<open>Capture_Triage\<close>: the bring-up receiver and the offline capture parser. The independent validator agrees
    with the strict parser, a bring-up run is accounted for and its capture is read back, ring dumps are listed record by record.
  \<^item> \<open>Evidence_Files\<close>, \<open>Core_Capture\<close>, \<open>Capture_Exact\<close>: the files of a core replay, the writer of the oracle's files (\<^verbatim>\<open>emit_oracle\<close> of
    \<^verbatim>\<open>reference_qualification.py\<close>) and the post-check (\<^verbatim>\<open>core_capture_check.py\<close>). Readers accept exactly the canonical texts; a pass means
    that the capture is the oracle's run on the input, byte for byte, with event logs in one causal order; every faithful capture passes.
  \<^item> \<open>Qualification\<close>: transcript parser, comparison, boundary stimulus and summary of the reference qualification. A transcript is accepted exactly when
    its records are those of the oracle's run; independent readers and roundings agree; clipping is counted exactly.
  \<^item> \<open>Event_Scoring\<close>: the scoring half of \<^verbatim>\<open>frozen_detector.py\<close>. The Fenwick-tree program finds an optimal matching, and every event is accounted for.
  \<^item> \<open>Energy_Logger\<close>, \<open>Board_Measurement\<close>: the sensor logger (\<^verbatim>\<open>device_code_sync.py\<close>) and the energy analysis
    (\<^verbatim>\<open>analyze_board_measurement.py\<close>). Shape, schedule and validity of the log, soundness of the reported bounds, acceptance of what the logger
    prints, and a power bound that is too small by \<open>1 - \<rho>\<^sup>2\<close>.

  \<^bold>\<open>Environment.\<close> What the program reads from outside is an argument: socket calls and their results as lists of events, clock readings, file
  contents when read and when read again, the acknowledge behaviour of a bus, the ready signal of a consumer, the characters of a serial
  line and the answers of a sensor. Digests and the step from JSON text to a tree are parameters. A theorem that quantifies over such an argument holds for
  every behaviour of the environment.

  \<^bold>\<open>Fuel and bounds.\<close> The stress driver of \<open>Delay_History\<close> runs on fuel; one unit per output sample is proved to be enough. The loop of
  \<open>Flow_Control\<close> has the watchdog of the source, and draining before it is proved from the number of ready cycles. The
  backtracking of \<open>Event_Scoring\<close> and the binary searches of \<open>Board_Measurement\<close> have a bound on their steps that is proved to be enough. Loops over a
  script of events end with the script. Everything else recurses structurally or has a termination proof. Python integers are \<open>int\<close>, masks
  are written out as in the source, bytes are 8-bit words.

  \<^bold>\<open>Not modelled.\<close> Floating-point evaluation of tones and coefficients (a parameter of \<open>Generators\<close>); binary rounding of display ratios,
  scores and energies (exact rationals here); the numpy and scipy pipeline of the step detector; drawing, printing, command lines, signals, socket set-up and file-system access; the scripts that inspect the
  text of RTL, constraint and report files, package artifacts or drive external tools, whose meaning lies in those files and tools; the C++ and
  SystemVerilog sources.
\<close>

end
